(* ===== verification/Prelude.thy ===== *)
theory Prelude
  imports Main "HOL-Library.Word"
begin

text \<open>
  Shared vocabulary of the development: the C integer types of the core as words of their
  width, the C shift operators as abbreviations, the bit-field helpers the decoders use,
  and the word lemmas the component theories share. Every theory of the development
  imports this one.
\<close>

unbundle bit_operations_syntax

section \<open>C integer types\<close>

type_synonym u8 = "8 word"
type_synonym u16 = "16 word"
type_synonym u32 = "32 word"
type_synonym u64 = "64 word"

text \<open>\<open>v << n\<close> and \<open>v >> n\<close> of unsigned C operands.\<close>

abbreviation shl :: "'a::len word \<Rightarrow> nat \<Rightarrow> 'a word" where
  "shl v n \<equiv> push_bit n v"

abbreviation shr :: "'a::len word \<Rightarrow> nat \<Rightarrow> 'a word" where
  "shr v n \<equiv> drop_bit n v"

text \<open>\<open>(v >> n) & 0xf\<close> as an unsigned register number.\<close>

definition reg4 :: "u32 \<Rightarrow> nat \<Rightarrow> nat" where
  "reg4 insn n = unat (shr insn n AND 0xf)"

text \<open>\<open>(v >> n) & 7\<close> as an unsigned register number.\<close>

definition reg3 :: "u16 \<Rightarrow> nat \<Rightarrow> nat" where
  "reg3 insn n = unat (shr insn n AND 7)"

text \<open>Simplification rules that say which state components an operation leaves alone.\<close>

named_theorems frame_simps

section \<open>Word lemmas\<close>

lemma word_and_bound: "unat (w AND m) \<le> unat m" for w m :: "'a::len word"
  by (rule word_and_le1 [THEN word_le_nat_alt [THEN iffD1]])

lemma reg4_less [simp]: "reg4 insn n < 16"
  using word_and_bound [of "shr insn n" "0xf :: u32"] by (simp add: reg4_def)

lemma reg4_le [simp]: "reg4 insn n \<le> 15"
  using reg4_less [of insn n] by linarith

lemma reg3_less [simp]: "reg3 insn n < 8"
  using word_and_bound [of "shr insn n" "7 :: u16"] by (simp add: reg3_def)

lemma word_nonzero_bit: "w \<noteq> 0 \<longleftrightarrow> (\<exists>k. bit w k)" for w :: "'a::len word"
  using bit_imp_le_length by (auto simp: bit_eq_iff)

lemma unat_u32_less: "unat w < 4294967296" for w :: u32
  using unsigned_less [of w] by simp

lemma of_nat_u32_eq_iff: "n < 4294967296 \<Longrightarrow> of_nat n = w \<longleftrightarrow> n = unat w" for w :: u32
  by (auto simp: unat_of_nat)

lemma unat_ucast_u64 [simp]: "unat (ucast w :: u64) = unat w" for w :: u32
  by (transfer, simp add: take_bit_eq_mod)

lemma ucast_ucast_u64 [simp]: "ucast (ucast w :: u64) = w" for w :: u32
  by (transfer, simp add: take_bit_eq_mod)

lemma or_disjoint_field:
  fixes w b m :: "'a::len word"
  assumes "b AND m = 0"
  shows "(w OR b) AND m = w AND m"
  using assms by (simp add: bit.conj_disj_distrib2)

lemma and_not_disjoint_field:
  fixes w b m :: "'a::len word"
  assumes "b AND m = 0"
  shows "(w AND NOT b) AND m = w AND m"
proof (rule bit_word_eqI)
  fix n
  assume n: "n < LENGTH('a)"
  have "bit (b AND m) n \<longleftrightarrow> bit (0 :: 'a word) n"
    using assms by simp
  then show "bit ((w AND NOT b) AND m) n = bit (w AND m) n"
    using n by (auto simp: bit_simps)
qed

end
