(* ===== verification/Cpu_State.thy ===== *)
theory Cpu_State
  imports Prelude
begin

text \<open>
  The processor state and the bus of the ARM1176 core (core/include/arm.h): the CP15
  register block, the software TLB, the block caches, the CPU itself and the callbacks a
  platform installs. The CPU record holds the mutable platform state the bus callbacks act
  on in its field \<open>ctx\<close> (the C callbacks reach it through \<open>bus->ctx\<close>); the callback table
  itself is host configuration and is passed to the operations as the argument \<open>b\<close>.
  A host pointer is an address of host memory; NULL is \<open>None\<close>.
\<close>

unbundle bit_operations_syntax

section \<open>Constants of arm.h\<close>

abbreviation ARM_CPSR_N :: u32 where "ARM_CPSR_N \<equiv> 0x80000000"
abbreviation ARM_CPSR_Z :: u32 where "ARM_CPSR_Z \<equiv> 0x40000000"
abbreviation ARM_CPSR_C :: u32 where "ARM_CPSR_C \<equiv> 0x20000000"
abbreviation ARM_CPSR_V :: u32 where "ARM_CPSR_V \<equiv> 0x10000000"
abbreviation ARM_CPSR_Q :: u32 where "ARM_CPSR_Q \<equiv> 0x08000000"
abbreviation ARM_CPSR_A :: u32 where "ARM_CPSR_A \<equiv> 0x100"
abbreviation ARM_CPSR_E :: u32 where "ARM_CPSR_E \<equiv> 0x200"
abbreviation ARM_CPSR_I :: u32 where "ARM_CPSR_I \<equiv> 0x80"
abbreviation ARM_CPSR_F :: u32 where "ARM_CPSR_F \<equiv> 0x40"
abbreviation ARM_CPSR_T :: u32 where "ARM_CPSR_T \<equiv> 0x20"
abbreviation ARM_CPSR_MODE_MASK :: u32 where "ARM_CPSR_MODE_MASK \<equiv> 0x1f"

abbreviation ARM_SCTLR_M :: u32 where "ARM_SCTLR_M \<equiv> 0x1"
abbreviation ARM_SCTLR_A :: u32 where "ARM_SCTLR_A \<equiv> 0x2"
abbreviation ARM_SCTLR_S :: u32 where "ARM_SCTLR_S \<equiv> 0x100"
abbreviation ARM_SCTLR_R :: u32 where "ARM_SCTLR_R \<equiv> 0x200"
abbreviation ARM_SCTLR_V :: u32 where "ARM_SCTLR_V \<equiv> 0x2000"
abbreviation ARM_SCTLR_U :: u32 where "ARM_SCTLR_U \<equiv> 0x400000"
abbreviation ARM_SCTLR_XP :: u32 where "ARM_SCTLR_XP \<equiv> 0x800000"
abbreviation ARM_SCTLR_EE :: u32 where "ARM_SCTLR_EE \<equiv> 0x2000000"
abbreviation ARM_SCTLR_FA :: u32 where "ARM_SCTLR_FA \<equiv> 0x20000000"

abbreviation ARM_FPEXC_EN :: u32 where "ARM_FPEXC_EN \<equiv> 0x40000000"

abbreviation ARM_FSR_ALIGNMENT :: u32 where "ARM_FSR_ALIGNMENT \<equiv> 0x1"
abbreviation ARM_FSR_SECTION_ACCESS_FLAG :: u32 where "ARM_FSR_SECTION_ACCESS_FLAG \<equiv> 0x3"
abbreviation ARM_FSR_SECTION_TRANSLATION :: u32 where "ARM_FSR_SECTION_TRANSLATION \<equiv> 0x5"
abbreviation ARM_FSR_PAGE_ACCESS_FLAG :: u32 where "ARM_FSR_PAGE_ACCESS_FLAG \<equiv> 0x6"
abbreviation ARM_FSR_PAGE_TRANSLATION :: u32 where "ARM_FSR_PAGE_TRANSLATION \<equiv> 0x7"
abbreviation ARM_FSR_SECTION_DOMAIN :: u32 where "ARM_FSR_SECTION_DOMAIN \<equiv> 0x9"
abbreviation ARM_FSR_PAGE_DOMAIN :: u32 where "ARM_FSR_PAGE_DOMAIN \<equiv> 0xb"
abbreviation ARM_FSR_SECTION_PERMISSION :: u32 where "ARM_FSR_SECTION_PERMISSION \<equiv> 0xd"
abbreviation ARM_FSR_PAGE_PERMISSION :: u32 where "ARM_FSR_PAGE_PERMISSION \<equiv> 0xf"

abbreviation ARM_VEC_UNDEFINED :: u32 where "ARM_VEC_UNDEFINED \<equiv> 0x4"
abbreviation ARM_VEC_SWI :: u32 where "ARM_VEC_SWI \<equiv> 0x8"
abbreviation ARM_VEC_PREFETCH :: u32 where "ARM_VEC_PREFETCH \<equiv> 0xc"
abbreviation ARM_VEC_DATA_ABORT :: u32 where "ARM_VEC_DATA_ABORT \<equiv> 0x10"
abbreviation ARM_VEC_IRQ :: u32 where "ARM_VEC_IRQ \<equiv> 0x18"
abbreviation ARM_VEC_FIQ :: u32 where "ARM_VEC_FIQ \<equiv> 0x1c"

abbreviation ARM_MODE_USR :: u32 where "ARM_MODE_USR \<equiv> 0x10"
abbreviation ARM_MODE_FIQ :: u32 where "ARM_MODE_FIQ \<equiv> 0x11"
abbreviation ARM_MODE_IRQ :: u32 where "ARM_MODE_IRQ \<equiv> 0x12"
abbreviation ARM_MODE_SVC :: u32 where "ARM_MODE_SVC \<equiv> 0x13"
abbreviation ARM_MODE_ABT :: u32 where "ARM_MODE_ABT \<equiv> 0x17"
abbreviation ARM_MODE_UND :: u32 where "ARM_MODE_UND \<equiv> 0x1b"
abbreviation ARM_MODE_SYS :: u32 where "ARM_MODE_SYS \<equiv> 0x1f"

abbreviation ARM_TLB_ENTRIES :: u32 where "ARM_TLB_ENTRIES \<equiv> 4096"
abbreviation ARM_DREAD_ENTRIES :: u32 where "ARM_DREAD_ENTRIES \<equiv> 4096"
abbreviation ARM_DREAD_BLK_MASK :: u32 where "ARM_DREAD_BLK_MASK \<equiv> 0x3ff"

section \<open>Enumerations\<close>

datatype arm_status = ARM_OK | ARM_UNDEFINED | ARM_HALT | ARM_GUEST_UNDEFINED | ARM_RESTART

text \<open>\<open>ARM_SVC_OTHER\<close> stands for a callback value the enum does not name.\<close>

datatype arm_svc_result =
  ARM_SVC_UNHANDLED | ARM_SVC_HANDLED | ARM_SVC_REDIRECTED | ARM_SVC_ERROR | ARM_SVC_OTHER int

datatype arm_bank =
  ARM_BANK_USR | ARM_BANK_FIQ | ARM_BANK_IRQ | ARM_BANK_SVC | ARM_BANK_ABT | ARM_BANK_UND

datatype arm_arch = ARM_ARCH_V6_ARM1176 | ARM_ARCH_V7_SWIFT

datatype arm_access = ARM_ACCESS_READ | ARM_ACCESS_WRITE | ARM_ACCESS_FETCH

fun access_num :: "arm_access \<Rightarrow> u32" where
  "access_num ARM_ACCESS_READ = 0"
| "access_num ARM_ACCESS_WRITE = 1"
| "access_num ARM_ACCESS_FETCH = 2"

section \<open>The CPU\<close>

type_synonym hptr = nat

record arm_cp15 =
  sctlr :: u32
  actlr :: u32
  cpacr :: u32
  ttbr0 :: u32
  ttbr1 :: u32
  ttbcr :: u32
  dacr :: u32
  dfsr :: u32
  ifsr :: u32
  dfar :: u32
  ifar :: u32
  fcse_pid :: u32
  context_id :: u32
  tpidrurw :: u32
  tpidruro :: u32
  tpidrprw :: u32

record tlb_entry =
  e_gen :: u32
  e_tag :: u32
  e_pa :: u32
  e_fsr :: u32

record blk_entry =
  d_host :: "hptr option"
  d_tag :: u32
  d_gen :: u32

record stamp_regs =
  s_sctlr :: u32
  s_ttbr0 :: u32
  s_ttbr1 :: u32
  s_ttbcr :: u32
  s_dacr :: u32
  s_context_id :: u32

record 'm arm_cpu =
  regs :: "nat \<Rightarrow> u32"
  arch :: arm_arch
  cpsr :: u32
  cp15 :: arm_cp15
  spsr :: "arm_bank \<Rightarrow> u32"
  bank_r13 :: "arm_bank \<Rightarrow> u32"
  bank_r14 :: "arm_bank \<Rightarrow> u32"
  fiq_r8_12 :: "nat \<Rightarrow> u32"
  usr_r8_12 :: "nat \<Rightarrow> u32"
  cycles :: u64
  abort_pending :: bool
  abort_fsr :: u32
  abort_far :: u32
  irq_line :: bool
  fiq_line :: bool
  excl_valid :: bool
  excl_addr :: u32
  vfp_fpexc :: u32
  vfp_fpscr :: u32
  vfp_s :: "nat \<Rightarrow> u32"
  tlb :: "u32 \<Rightarrow> tlb_entry"
  tlb_gen :: u32
  fetch_host :: "hptr option"
  fetch_blk :: u32
  fetch_gen :: u32
  fetch_priv :: bool
  dread :: "u32 \<Rightarrow> blk_entry"
  dwrite :: "u32 \<Rightarrow> blk_entry"
  tlb_stamp :: stamp_regs
  tlb_hits :: u64
  tlb_misses :: u64
  tlb_flushes :: u64
  dread_hits :: u64
  dread_misses :: u64
  dwrite_hits :: u64
  dwrite_misses :: u64
  ctx :: 'm

section \<open>The bus\<close>

text \<open>
  The bus callbacks. Each takes the platform state and returns it updated, so a device read
  with a side effect is expressible. An optional callback is an \<open>option\<close>. The callbacks that
  receive or reach the CPU itself (the privileged-SVC hook, and Wait For Interrupt, whose
  platform owns the CPU and drives its interrupt lines) take and return the CPU.
  \<open>load8\<close> and \<open>store8\<close> are the C dereference of a host pointer. \<open>bus_ptrs\<close> are the pointer
  values the capability check of \<open>arm_ram_window_current\<close> compares: the bus object itself,
  its context and its callbacks.
\<close>

record bus_ptrs =
  p_bus :: nat
  p_ctx :: nat
  p_host_ram :: nat
  p_host_ram_write :: nat
  p_prepare_fetch :: nat
  p_prepare_fetch_ctx :: nat
  p_read32 :: nat
  p_read16 :: nat
  p_read8 :: nat
  p_write32 :: nat
  p_write16 :: nat
  p_write8 :: nat

record 'm arm_bus =
  read32 :: "'m \<Rightarrow> u32 \<Rightarrow> u32 \<times> 'm"
  read16 :: "'m \<Rightarrow> u32 \<Rightarrow> u16 \<times> 'm"
  read8 :: "'m \<Rightarrow> u32 \<Rightarrow> u8 \<times> 'm"
  write32 :: "'m \<Rightarrow> u32 \<Rightarrow> u32 \<Rightarrow> 'm"
  write16 :: "'m \<Rightarrow> u32 \<Rightarrow> u16 \<Rightarrow> 'm"
  write8 :: "'m \<Rightarrow> u32 \<Rightarrow> u8 \<Rightarrow> 'm"
  host_ram :: "('m \<Rightarrow> u32 \<Rightarrow> u32 \<Rightarrow> hptr option) option"
  host_ram_write :: "('m \<Rightarrow> u32 \<Rightarrow> u32 \<Rightarrow> hptr option) option"
  wait_for_interrupt :: "('m arm_cpu \<Rightarrow> bool \<times> 'm arm_cpu) option"
  privileged_svc_handler ::
    "('m arm_cpu \<Rightarrow> u32 \<Rightarrow> u32 \<Rightarrow> arm_svc_result \<times> 'm arm_cpu) option"
  prepare_fetch :: "('m \<Rightarrow> u32 \<Rightarrow> u32 \<Rightarrow> bool \<Rightarrow> 'm) option"
  load8 :: "'m \<Rightarrow> hptr \<Rightarrow> u8"
  store8 :: "'m \<Rightarrow> hptr \<Rightarrow> u8 \<Rightarrow> 'm"
  bus_ptrs :: bus_ptrs

end
