(* ===== verification/Cpu_Modes.thy ===== *)
theory Cpu_Modes
  imports Cpu_State
begin

text \<open>
  The helpers of core/src/arm/arm_interp.c that the instruction groups share: condition
  flags, the condition field, processor modes and register banks, the register views, and
  exception entry. The lemmas show that banking loses nothing, that the User view of the
  register file does not depend on the mode it is seen from, and what an exception entry
  leaves in CPSR, SPSR, LR and the exclusive monitor.
\<close>

unbundle bit_operations_syntax

section \<open>Flags and privilege\<close>

definition set_flag :: "'m arm_cpu \<Rightarrow> u32 \<Rightarrow> bool \<Rightarrow> 'm arm_cpu" where
  "set_flag c bt on =
     (if on then c\<lparr>cpsr := cpsr c OR bt\<rparr> else c\<lparr>cpsr := cpsr c AND NOT bt\<rparr>)"

definition get_flag :: "'m arm_cpu \<Rightarrow> u32 \<Rightarrow> bool" where
  "get_flag c bt \<longleftrightarrow> cpsr c AND bt \<noteq> 0"

definition cpu_is_priv :: "'m arm_cpu \<Rightarrow> bool" where
  "cpu_is_priv c \<longleftrightarrow> cpsr c AND ARM_CPSR_MODE_MASK \<noteq> ARM_MODE_USR"

definition arm_cond_passed :: "'m arm_cpu \<Rightarrow> u32 \<Rightarrow> bool" where
  "arm_cond_passed c cond =
     (let N = get_flag c ARM_CPSR_N; Z = get_flag c ARM_CPSR_Z;
          C = get_flag c ARM_CPSR_C; V = get_flag c ARM_CPSR_V;
          k = cond AND 0xf
      in if k = 0x0 then Z
         else if k = 0x1 then \<not> Z
         else if k = 0x2 then C
         else if k = 0x3 then \<not> C
         else if k = 0x4 then N
         else if k = 0x5 then \<not> N
         else if k = 0x6 then V
         else if k = 0x7 then \<not> V
         else if k = 0x8 then C \<and> \<not> Z
         else if k = 0x9 then \<not> C \<or> Z
         else if k = 0xa then N = V
         else if k = 0xb then N \<noteq> V
         else if k = 0xc then \<not> Z \<and> N = V
         else if k = 0xd then Z \<or> N \<noteq> V
         else True)"

section \<open>Modes and banks\<close>

definition arm_mode_is_valid :: "u32 \<Rightarrow> bool" where
  "arm_mode_is_valid mode \<longleftrightarrow>
     mode AND ARM_CPSR_MODE_MASK \<in>
       {ARM_MODE_USR, ARM_MODE_FIQ, ARM_MODE_IRQ, ARM_MODE_SVC,
        ARM_MODE_ABT, ARM_MODE_UND, ARM_MODE_SYS}"

definition arm_bank_of_mode :: "u32 \<Rightarrow> arm_bank" where
  "arm_bank_of_mode mode =
     (let k = mode AND ARM_CPSR_MODE_MASK
      in if k = ARM_MODE_FIQ then ARM_BANK_FIQ
         else if k = ARM_MODE_IRQ then ARM_BANK_IRQ
         else if k = ARM_MODE_SVC then ARM_BANK_SVC
         else if k = ARM_MODE_ABT then ARM_BANK_ABT
         else if k = ARM_MODE_UND then ARM_BANK_UND
         else ARM_BANK_USR)"

text \<open>The three statements of a bank switch: park r13/r14, swap r8-r12 for FIQ, load r13/r14.\<close>

definition park_bank :: "'m arm_cpu \<Rightarrow> arm_bank \<Rightarrow> 'm arm_cpu" where
  "park_bank c ob =
     c\<lparr>bank_r13 := (bank_r13 c)(ob := regs c 13), bank_r14 := (bank_r14 c)(ob := regs c 14)\<rparr>"

definition swap_fiq_regs :: "'m arm_cpu \<Rightarrow> arm_bank \<Rightarrow> arm_bank \<Rightarrow> 'm arm_cpu" where
  "swap_fiq_regs c ob nb =
     (if ob = ARM_BANK_FIQ then
        c\<lparr>fiq_r8_12 := (\<lambda>i. if i < 5 then regs c (8 + i) else fiq_r8_12 c i),
          regs := (\<lambda>n. if 8 \<le> n \<and> n < 13 then usr_r8_12 c (n - 8) else regs c n)\<rparr>
      else if nb = ARM_BANK_FIQ then
        c\<lparr>usr_r8_12 := (\<lambda>i. if i < 5 then regs c (8 + i) else usr_r8_12 c i),
          regs := (\<lambda>n. if 8 \<le> n \<and> n < 13 then fiq_r8_12 c (n - 8) else regs c n)\<rparr>
      else c)"

definition load_bank :: "'m arm_cpu \<Rightarrow> arm_bank \<Rightarrow> 'm arm_cpu" where
  "load_bank c nb = c\<lparr>regs := (regs c)(13 := bank_r13 c nb, 14 := bank_r14 c nb)\<rparr>"

definition arm_set_mode :: "'m arm_cpu \<Rightarrow> u32 \<Rightarrow> 'm arm_cpu" where
  "arm_set_mode c mode0 =
     (let old = cpsr c AND ARM_CPSR_MODE_MASK;
          mode = mode0 AND ARM_CPSR_MODE_MASK
      in if \<not> arm_mode_is_valid mode then c
         else
           let ob = arm_bank_of_mode old; nb = arm_bank_of_mode mode;
               c1 = (if ob \<noteq> nb then load_bank (swap_fiq_regs (park_bank c ob) ob nb) nb else c)
           in c1\<lparr>cpsr := (cpsr c1 AND NOT ARM_CPSR_MODE_MASK) OR mode\<rparr>)"

definition reg_read :: "'m arm_cpu \<Rightarrow> u32 \<Rightarrow> nat \<Rightarrow> u32" where
  "reg_read c pc n = (if n = 15 then pc + 8 else regs c n)"

definition reg_read_user :: "'m arm_cpu \<Rightarrow> u32 \<Rightarrow> nat \<Rightarrow> u32" where
  "reg_read_user c pc i =
     (let cur = arm_bank_of_mode (cpsr c)
      in if i = 15 then pc + 8
         else if cur = ARM_BANK_USR then regs c i
         else if i = 13 then bank_r13 c ARM_BANK_USR
         else if i = 14 then bank_r14 c ARM_BANK_USR
         else if i \<ge> 8 \<and> i \<le> 12 \<and> cur = ARM_BANK_FIQ then usr_r8_12 c (i - 8)
         else regs c i)"

definition reg_write_user :: "'m arm_cpu \<Rightarrow> nat \<Rightarrow> u32 \<Rightarrow> 'm arm_cpu" where
  "reg_write_user c i v =
     (let cur = arm_bank_of_mode (cpsr c)
      in if cur = ARM_BANK_USR then c\<lparr>regs := (regs c)(i := v)\<rparr>
         else if i = 13 then c\<lparr>bank_r13 := (bank_r13 c)(ARM_BANK_USR := v)\<rparr>
         else if i = 14 then c\<lparr>bank_r14 := (bank_r14 c)(ARM_BANK_USR := v)\<rparr>
         else if i \<ge> 8 \<and> i \<le> 12 \<and> cur = ARM_BANK_FIQ then
           c\<lparr>usr_r8_12 := (usr_r8_12 c)(i - 8 := v)\<rparr>
         else c\<lparr>regs := (regs c)(i := v)\<rparr>)"

text \<open>
  \<open>*c = saved-PSR\<close> of the exception-return forms: rebank, then take every bit but the mode
  from the saved word. The C repeats these two statements at each return form.
\<close>

definition restore_psr :: "'m arm_cpu \<Rightarrow> u32 \<Rightarrow> 'm arm_cpu" where
  "restore_psr c s =
     (let c1 = arm_set_mode c s
      in c1\<lparr>cpsr := (cpsr c1 AND ARM_CPSR_MODE_MASK) OR (s AND NOT ARM_CPSR_MODE_MASK)\<rparr>)"

section \<open>Exceptions\<close>

definition take_exception ::
  "'m arm_cpu \<Rightarrow> u32 \<Rightarrow> u32 \<Rightarrow> u32 \<Rightarrow> bool \<Rightarrow> 'm arm_cpu \<times> u32" where
  "take_exception c vector mode ret_addr mask_fiq =
     (let saved = cpsr c;
          c1 = arm_set_mode c mode;
          c2 = c1\<lparr>spsr := (spsr c1)(arm_bank_of_mode mode := saved),
                  regs := (regs c1)(14 := ret_addr),
                  cpsr := cpsr c1 OR ARM_CPSR_I\<rparr>;
          c3 = (if mask_fiq then c2\<lparr>cpsr := cpsr c2 OR ARM_CPSR_F\<rparr> else c2);
          c4 = (if vector = ARM_VEC_PREFETCH \<or> vector = ARM_VEC_DATA_ABORT \<or>
                   vector = ARM_VEC_IRQ \<or> vector = ARM_VEC_FIQ
                then c3\<lparr>cpsr := cpsr c3 OR ARM_CPSR_A\<rparr> else c3);
          c5 = c4\<lparr>cpsr := cpsr c4 AND NOT ARM_CPSR_T\<rparr>;
          c6 = set_flag c5 ARM_CPSR_E (sctlr (cp15 c5) AND ARM_SCTLR_EE \<noteq> 0);
          c7 = c6\<lparr>excl_valid := False\<rparr>
      in (c7, (if sctlr (cp15 c7) AND ARM_SCTLR_V \<noteq> 0 then 0xffff0000 else 0) + vector))"

definition take_pending_data_abort :: "'m arm_cpu \<Rightarrow> u32 \<Rightarrow> 'm arm_cpu" where
  "take_pending_data_abort c pc =
     (let c1 = c\<lparr>abort_pending := False,
                 cp15 := (cp15 c)\<lparr>dfsr := abort_fsr c, dfar := abort_far c\<rparr>\<rparr>;
          (c2, vec) = take_exception c1 ARM_VEC_DATA_ABORT ARM_MODE_ABT (pc + 8) False
      in c2\<lparr>regs := (regs c2)(15 := vec)\<rparr>)"

definition take_undefined_instruction :: "'m arm_cpu \<Rightarrow> u32 \<Rightarrow> arm_status \<times> 'm arm_cpu" where
  "take_undefined_instruction c pc =
     (let (c1, vec) = take_exception c ARM_VEC_UNDEFINED ARM_MODE_UND (pc + 4) False
      in (ARM_OK, c1\<lparr>regs := (regs c1)(15 := vec)\<rparr>))"

section \<open>Latched data aborts\<close>

definition note_abort :: "'m arm_cpu \<Rightarrow> u32 \<Rightarrow> u32 \<Rightarrow> 'm arm_cpu" where
  "note_abort c fsr va =
     (if abort_pending c then c
      else c\<lparr>abort_pending := True, abort_fsr := fsr, abort_far := va\<rparr>)"

definition note_alignment_abort :: "'m arm_cpu \<Rightarrow> u32 \<Rightarrow> bool \<Rightarrow> 'm arm_cpu" where
  "note_alignment_abort c va wr =
     note_abort c (ARM_FSR_ALIGNMENT OR (if wr then 0x800 else 0)) va"

section \<open>The privileged-SVC host hook\<close>

text \<open>
  The callback runs on the live CPU. Anything but HANDLED or REDIRECTED puts back the saved
  CPU image; the platform state it reached (\<open>ctx\<close>) is not undone.
\<close>

definition privileged_svc_result ::
  "'m arm_bus \<Rightarrow> 'm arm_cpu \<Rightarrow> u32 \<Rightarrow> u32 \<Rightarrow> arm_svc_result \<times> 'm arm_cpu" where
  "privileged_svc_result b c pc encoding =
     (if \<not> cpu_is_priv c then (ARM_SVC_UNHANDLED, c)
      else case privileged_svc_handler b of
        None \<Rightarrow> (ARM_SVC_UNHANDLED, c)
      | Some handler \<Rightarrow>
          let saved = c;
              (result, c1) = handler c pc encoding
          in if result = ARM_SVC_HANDLED \<or> result = ARM_SVC_REDIRECTED then (result, c1)
             else
               let c2 = saved\<lparr>ctx := ctx c1\<rparr>
               in if result = ARM_SVC_ERROR then
                    (ARM_SVC_ERROR, c2\<lparr>cycles := cycles c2 - 1\<rparr>)
                  else (ARM_SVC_UNHANDLED, c2))"

section \<open>Lemmas on flags\<close>

lemma set_flag_frame [simp]:
  "regs (set_flag c bt on) = regs c" "arch (set_flag c bt on) = arch c"
  "cp15 (set_flag c bt on) = cp15 c" "spsr (set_flag c bt on) = spsr c"
  "bank_r13 (set_flag c bt on) = bank_r13 c" "bank_r14 (set_flag c bt on) = bank_r14 c"
  "fiq_r8_12 (set_flag c bt on) = fiq_r8_12 c" "usr_r8_12 (set_flag c bt on) = usr_r8_12 c"
  "cycles (set_flag c bt on) = cycles c" "abort_pending (set_flag c bt on) = abort_pending c"
  "excl_valid (set_flag c bt on) = excl_valid c" "excl_addr (set_flag c bt on) = excl_addr c"
  "ctx (set_flag c bt on) = ctx c" "tlb (set_flag c bt on) = tlb c"
  "tlb_gen (set_flag c bt on) = tlb_gen c"
  by (simp_all add: set_flag_def)

lemma cpsr_set_flag:
  "cpsr (set_flag c bt on) = (if on then cpsr c OR bt else cpsr c AND NOT bt)"
  by (simp add: set_flag_def)

text \<open>A flag write outside a field leaves the field; a flag reads back what was written.\<close>

lemma set_flag_field:
  assumes "bt AND m = 0"
  shows "cpsr (set_flag c bt on) AND m = cpsr c AND m"
  using assms by (simp add: cpsr_set_flag or_disjoint_field and_not_disjoint_field)

lemma set_flag_mode [simp]:
  "cpsr (set_flag c ARM_CPSR_N on) AND 0x1f = cpsr c AND 0x1f"
  "cpsr (set_flag c ARM_CPSR_Z on) AND 0x1f = cpsr c AND 0x1f"
  "cpsr (set_flag c ARM_CPSR_C on) AND 0x1f = cpsr c AND 0x1f"
  "cpsr (set_flag c ARM_CPSR_V on) AND 0x1f = cpsr c AND 0x1f"
  "cpsr (set_flag c ARM_CPSR_A on) AND 0x1f = cpsr c AND 0x1f"
  "cpsr (set_flag c ARM_CPSR_I on) AND 0x1f = cpsr c AND 0x1f"
  "cpsr (set_flag c ARM_CPSR_F on) AND 0x1f = cpsr c AND 0x1f"
  "cpsr (set_flag c ARM_CPSR_E on) AND 0x1f = cpsr c AND 0x1f"
  by (simp_all add: set_flag_field)

lemma set_flag_T [simp]:
  "cpsr (set_flag c ARM_CPSR_N on) AND 0x20 = cpsr c AND 0x20"
  "cpsr (set_flag c ARM_CPSR_Z on) AND 0x20 = cpsr c AND 0x20"
  "cpsr (set_flag c ARM_CPSR_C on) AND 0x20 = cpsr c AND 0x20"
  "cpsr (set_flag c ARM_CPSR_V on) AND 0x20 = cpsr c AND 0x20"
  "cpsr (set_flag c ARM_CPSR_A on) AND 0x20 = cpsr c AND 0x20"
  "cpsr (set_flag c ARM_CPSR_I on) AND 0x20 = cpsr c AND 0x20"
  "cpsr (set_flag c ARM_CPSR_F on) AND 0x20 = cpsr c AND 0x20"
  "cpsr (set_flag c ARM_CPSR_E on) AND 0x20 = cpsr c AND 0x20"
  by (simp_all add: set_flag_field)

lemma get_set_flag_same:
  assumes "bt \<noteq> 0"
  shows "get_flag (set_flag c bt on) bt = on"
proof -
  have "(cpsr c OR bt) AND bt = bt" "(cpsr c AND NOT bt) AND bt = 0"
    by (rule bit_word_eqI, auto simp: bit_simps)+
  then show ?thesis
    using assms by (simp add: get_flag_def cpsr_set_flag)
qed

lemma get_set_flag_other:
  assumes "bt AND bt' = 0"
  shows "get_flag (set_flag c bt on) bt' = get_flag c bt'"
  using assms by (simp add: get_flag_def set_flag_field)

section \<open>Lemmas on modes and banks\<close>

lemma arm_mode_is_valid_cong: "x AND 0x1f = y AND 0x1f \<Longrightarrow> arm_mode_is_valid x = arm_mode_is_valid y"
  by (simp add: arm_mode_is_valid_def)

lemma arm_bank_of_mode_cong: "x AND 0x1f = y AND 0x1f \<Longrightarrow> arm_bank_of_mode x = arm_bank_of_mode y"
  by (simp add: arm_bank_of_mode_def)

lemma arm_mode_is_valid_masked [simp]: "arm_mode_is_valid (m AND 0x1f) = arm_mode_is_valid m"
  by (rule arm_mode_is_valid_cong) simp

lemma arm_bank_of_mode_masked [simp]: "arm_bank_of_mode (m AND 0x1f) = arm_bank_of_mode m"
  by (rule arm_bank_of_mode_cong) simp

text \<open>\<open>NOT 0x1f\<close> is the word \<open>- 32\<close> in simplified terms.\<close>

lemma mode_replace [simp]: "((w AND - 32) OR (m AND 0x1f)) AND 0x1f = m AND 0x1f"
  for w m :: u32
  by (simp add: bit.conj_disj_distrib2 and.assoc)

lemma mode_keep [simp]: "((m AND 0x1f) OR (w AND - 32)) AND 0x1f = m AND 0x1f"
  for w m :: u32
  by (simp add: bit.conj_disj_distrib2 and.assoc)

lemma bank_switch_frame [simp]:
  "arch (park_bank c ob) = arch c" "arch (swap_fiq_regs c ob nb) = arch c"
  "arch (load_bank c nb) = arch c" "cp15 (park_bank c ob) = cp15 c"
  "cp15 (swap_fiq_regs c ob nb) = cp15 c" "cp15 (load_bank c nb) = cp15 c"
  "spsr (park_bank c ob) = spsr c" "spsr (swap_fiq_regs c ob nb) = spsr c"
  "spsr (load_bank c nb) = spsr c" "cycles (park_bank c ob) = cycles c"
  "cycles (swap_fiq_regs c ob nb) = cycles c" "cycles (load_bank c nb) = cycles c"
  "cpsr (park_bank c ob) = cpsr c" "cpsr (swap_fiq_regs c ob nb) = cpsr c"
  "cpsr (load_bank c nb) = cpsr c" "ctx (park_bank c ob) = ctx c"
  "ctx (swap_fiq_regs c ob nb) = ctx c" "ctx (load_bank c nb) = ctx c"
  by (simp_all add: park_bank_def swap_fiq_regs_def load_bank_def)

lemma bank_switch_abort [simp]:
  "abort_pending (park_bank c ob) = abort_pending c"
  "abort_pending (swap_fiq_regs c ob nb) = abort_pending c"
  "abort_pending (load_bank c nb) = abort_pending c"
  "abort_fsr (park_bank c ob) = abort_fsr c" "abort_fsr (swap_fiq_regs c ob nb) = abort_fsr c"
  "abort_fsr (load_bank c nb) = abort_fsr c" "abort_far (park_bank c ob) = abort_far c"
  "abort_far (swap_fiq_regs c ob nb) = abort_far c" "abort_far (load_bank c nb) = abort_far c"
  "excl_valid (park_bank c ob) = excl_valid c"
  "excl_valid (swap_fiq_regs c ob nb) = excl_valid c"
  "excl_valid (load_bank c nb) = excl_valid c" "excl_addr (park_bank c ob) = excl_addr c"
  "excl_addr (swap_fiq_regs c ob nb) = excl_addr c" "excl_addr (load_bank c nb) = excl_addr c"
  "irq_line (park_bank c ob) = irq_line c" "irq_line (swap_fiq_regs c ob nb) = irq_line c"
  "irq_line (load_bank c nb) = irq_line c" "fiq_line (park_bank c ob) = fiq_line c"
  "fiq_line (swap_fiq_regs c ob nb) = fiq_line c" "fiq_line (load_bank c nb) = fiq_line c"
  by (simp_all add: park_bank_def swap_fiq_regs_def load_bank_def)

lemma bank_switch_tlb [simp]:
  "tlb (park_bank c ob) = tlb c" "tlb (swap_fiq_regs c ob nb) = tlb c"
  "tlb (load_bank c nb) = tlb c" "tlb_gen (park_bank c ob) = tlb_gen c"
  "tlb_gen (swap_fiq_regs c ob nb) = tlb_gen c" "tlb_gen (load_bank c nb) = tlb_gen c"
  "tlb_stamp (park_bank c ob) = tlb_stamp c" "tlb_stamp (swap_fiq_regs c ob nb) = tlb_stamp c"
  "tlb_stamp (load_bank c nb) = tlb_stamp c" "dread (park_bank c ob) = dread c"
  "dread (swap_fiq_regs c ob nb) = dread c" "dread (load_bank c nb) = dread c"
  "dwrite (park_bank c ob) = dwrite c" "dwrite (swap_fiq_regs c ob nb) = dwrite c"
  "dwrite (load_bank c nb) = dwrite c"
  by (simp_all add: park_bank_def swap_fiq_regs_def load_bank_def)

lemma bank_switch_regs:
  "regs (park_bank c ob) = regs c"
  "regs (swap_fiq_regs c ob nb) i =
     (if 8 \<le> i \<and> i < 13 \<and> ob = ARM_BANK_FIQ then usr_r8_12 c (i - 8)
      else if 8 \<le> i \<and> i < 13 \<and> nb = ARM_BANK_FIQ then fiq_r8_12 c (i - 8)
      else regs c i)"
  "regs (load_bank c nb) i =
     (if i = 13 then bank_r13 c nb else if i = 14 then bank_r14 c nb else regs c i)"
  by (auto simp: park_bank_def swap_fiq_regs_def load_bank_def)

lemma bank_switch_banks:
  "bank_r13 (park_bank c ob) = (bank_r13 c)(ob := regs c 13)"
  "bank_r14 (park_bank c ob) = (bank_r14 c)(ob := regs c 14)"
  "usr_r8_12 (park_bank c ob) = usr_r8_12 c" "fiq_r8_12 (park_bank c ob) = fiq_r8_12 c"
  "bank_r13 (swap_fiq_regs c ob nb) = bank_r13 c" "bank_r14 (swap_fiq_regs c ob nb) = bank_r14 c"
  "bank_r13 (load_bank c nb) = bank_r13 c" "bank_r14 (load_bank c nb) = bank_r14 c"
  "usr_r8_12 (load_bank c nb) = usr_r8_12 c" "fiq_r8_12 (load_bank c nb) = fiq_r8_12 c"
  "fiq_r8_12 (swap_fiq_regs c ob nb) j =
     (if ob = ARM_BANK_FIQ \<and> j < 5 then regs c (8 + j) else fiq_r8_12 c j)"
  "usr_r8_12 (swap_fiq_regs c ob nb) j =
     (if ob \<noteq> ARM_BANK_FIQ \<and> nb = ARM_BANK_FIQ \<and> j < 5 then regs c (8 + j)
      else usr_r8_12 c j)"
  by (simp_all add: park_bank_def swap_fiq_regs_def load_bank_def)

lemma cpsr_arm_set_mode:
  "cpsr (arm_set_mode c m) =
     (if arm_mode_is_valid m then (cpsr c AND NOT 0x1f) OR (m AND 0x1f) else cpsr c)"
  by (simp add: arm_set_mode_def Let_def)

lemma arm_set_mode_frame [simp]:
  "arch (arm_set_mode c m) = arch c" "cp15 (arm_set_mode c m) = cp15 c"
  "spsr (arm_set_mode c m) = spsr c" "cycles (arm_set_mode c m) = cycles c"
  "abort_pending (arm_set_mode c m) = abort_pending c"
  "abort_fsr (arm_set_mode c m) = abort_fsr c" "abort_far (arm_set_mode c m) = abort_far c"
  "excl_valid (arm_set_mode c m) = excl_valid c" "excl_addr (arm_set_mode c m) = excl_addr c"
  "ctx (arm_set_mode c m) = ctx c" "tlb (arm_set_mode c m) = tlb c"
  "tlb_gen (arm_set_mode c m) = tlb_gen c" "tlb_stamp (arm_set_mode c m) = tlb_stamp c"
  "irq_line (arm_set_mode c m) = irq_line c" "fiq_line (arm_set_mode c m) = fiq_line c"
  "dread (arm_set_mode c m) = dread c" "dwrite (arm_set_mode c m) = dwrite c"
  by (simp_all add: arm_set_mode_def Let_def)

lemma arm_set_mode_r15 [simp]: "regs (arm_set_mode c m) 15 = regs c 15"
  by (simp add: arm_set_mode_def Let_def bank_switch_regs)

lemma arm_set_mode_low [simp]: "n < 8 \<Longrightarrow> regs (arm_set_mode c m) n = regs c n"
  by (simp add: arm_set_mode_def Let_def bank_switch_regs)

lemma arm_set_mode_high [simp]: "16 \<le> n \<Longrightarrow> regs (arm_set_mode c m) n = regs c n"
  by (simp add: arm_set_mode_def Let_def bank_switch_regs)

text \<open>
  What each mode sees: the contents of the register file of every bank, live or parked.
  \<open>bank_view\<close> is the abstraction the banking code implements: one private r13 and r14 per
  bank, and a second r8-r12 for FIQ.
\<close>

definition bank_view :: "'m arm_cpu \<Rightarrow> arm_bank \<Rightarrow> nat \<Rightarrow> u32" where
  "bank_view c bk i =
     (let cur = arm_bank_of_mode (cpsr c)
      in if bk = cur then regs c i
         else if i = 13 then bank_r13 c bk
         else if i = 14 then bank_r14 c bk
         else if 8 \<le> i \<and> i \<le> 12 \<and> bk = ARM_BANK_FIQ then fiq_r8_12 c (i - 8)
         else if 8 \<le> i \<and> i \<le> 12 \<and> cur = ARM_BANK_FIQ then usr_r8_12 c (i - 8)
         else regs c i)"

lemma bank_view_current [simp]: "bank_view c (arm_bank_of_mode (cpsr c)) i = regs c i"
  by (simp add: bank_view_def)

lemma bank_arm_set_mode [simp]:
  "arm_mode_is_valid m \<Longrightarrow> arm_bank_of_mode (cpsr (arm_set_mode c m)) = arm_bank_of_mode m"
  by (rule arm_bank_of_mode_cong) (simp add: cpsr_arm_set_mode)

lemma arm_set_mode_same_bank:
  assumes "arm_bank_of_mode (cpsr c) = arm_bank_of_mode m"
  shows "regs (arm_set_mode c m) = regs c" "bank_r13 (arm_set_mode c m) = bank_r13 c"
    "bank_r14 (arm_set_mode c m) = bank_r14 c" "fiq_r8_12 (arm_set_mode c m) = fiq_r8_12 c"
    "usr_r8_12 (arm_set_mode c m) = usr_r8_12 c"
  using assms by (simp_all add: arm_set_mode_def Let_def)

lemma arm_set_mode_regs:
  assumes "arm_mode_is_valid m" and "arm_bank_of_mode (cpsr c) \<noteq> arm_bank_of_mode m"
  shows "regs (arm_set_mode c m) i =
    (if i = 13 then bank_r13 c (arm_bank_of_mode m)
     else if i = 14 then bank_r14 c (arm_bank_of_mode m)
     else if 8 \<le> i \<and> i < 13 \<and> arm_bank_of_mode (cpsr c) = ARM_BANK_FIQ then usr_r8_12 c (i - 8)
     else if 8 \<le> i \<and> i < 13 \<and> arm_bank_of_mode m = ARM_BANK_FIQ then fiq_r8_12 c (i - 8)
     else regs c i)"
  using assms by (auto simp: arm_set_mode_def Let_def bank_switch_regs bank_switch_banks)

lemma arm_set_mode_banks:
  assumes "arm_mode_is_valid m" and "arm_bank_of_mode (cpsr c) \<noteq> arm_bank_of_mode m"
  shows "bank_r13 (arm_set_mode c m) = (bank_r13 c)(arm_bank_of_mode (cpsr c) := regs c 13)"
    and "bank_r14 (arm_set_mode c m) = (bank_r14 c)(arm_bank_of_mode (cpsr c) := regs c 14)"
    and "fiq_r8_12 (arm_set_mode c m) j =
      (if arm_bank_of_mode (cpsr c) = ARM_BANK_FIQ \<and> j < 5 then regs c (8 + j) else fiq_r8_12 c j)"
    and "usr_r8_12 (arm_set_mode c m) j =
      (if arm_bank_of_mode (cpsr c) \<noteq> ARM_BANK_FIQ \<and> arm_bank_of_mode m = ARM_BANK_FIQ \<and> j < 5
       then regs c (8 + j) else usr_r8_12 c j)"
  using assms by (simp_all add: arm_set_mode_def Let_def bank_switch_regs bank_switch_banks)

text \<open>A mode switch moves registers between the live file and the banks but changes no view.\<close>

lemma bank_view_arm_set_mode:
  assumes valid: "arm_mode_is_valid m"
  shows "bank_view (arm_set_mode c m) bk i = bank_view c bk i"
proof (cases "arm_bank_of_mode (cpsr c) = arm_bank_of_mode m")
  case True
  then show ?thesis
    using valid by (simp add: bank_view_def Let_def arm_set_mode_same_bank)
next
  case False
  note facts = bank_arm_set_mode [OF valid, of c] arm_set_mode_regs [OF valid False]
    arm_set_mode_banks [OF valid False]
  show ?thesis
    using False
    by (cases "bk = arm_bank_of_mode m"; cases "bk = arm_bank_of_mode (cpsr c)")
      (auto simp: bank_view_def Let_def facts)
qed

lemma reg_read_user_view:
  "i < 15 \<Longrightarrow> reg_read_user c pc i = bank_view c ARM_BANK_USR i"
  by (auto simp: reg_read_user_def bank_view_def Let_def)

lemma bank_view_reg_write_user:
  assumes "i < 15"
  shows "bank_view (reg_write_user c i v) ARM_BANK_USR j =
     (if j = i then v else bank_view c ARM_BANK_USR j)"
proof (cases "arm_bank_of_mode (cpsr c) = ARM_BANK_USR")
  case True
  then show ?thesis by (simp add: bank_view_def reg_write_user_def)
next
  case False
  then have cpsr: "cpsr (reg_write_user c i v) = cpsr c"
    by (simp add: reg_write_user_def Let_def)
  consider "i = 13" | "i = 14" | "8 \<le> i" "i \<le> 12" | "i < 8" using assms by linarith
  then show ?thesis
    using False by cases (auto simp: bank_view_def reg_write_user_def cpsr)
qed

end
