(* ===== verification/Mmu.thy ===== *)
theory Mmu
  imports Cpu_Modes
begin

text \<open>
  core/src/mmu.c: the ARMv6 short-descriptor walk, the software TLB in front of it, the
  administrative refills of the fetch and data block caches, and the RAM capability
  (\<open>arm_ram_window_t\<close>). The C passes results through \<open>pa\<close>: the model takes its value on
  entry and returns its value on exit, so a fault that leaves it untouched is visible.
  \<open>ram\<close> = None is the C's NULL. A walk may read device registers, so it returns the CPU with
  the platform state it left.
\<close>

unbundle bit_operations_syntax

section \<open>Permission checks\<close>

definition fsr_make :: "u32 \<Rightarrow> u32 \<Rightarrow> bool \<Rightarrow> u32" where
  "fsr_make status domain wr =
     (status AND 0xf) OR shl (domain AND 0xf) 4 OR (if wr then 0x800 else 0)"

definition ap_permits :: "'m arm_cpu \<Rightarrow> u32 \<Rightarrow> bool \<Rightarrow> bool \<Rightarrow> bool \<Rightarrow> bool" where
  "ap_permits c ap apx wr priv =
     (let k = ap AND 3
      in if apx then
           (if k = 0 then False
            else if k = 1 then priv \<and> \<not> wr
            else \<not> wr)
         else
           (if k = 0 then
              (let s = sctlr (cp15 c) AND ARM_SCTLR_S \<noteq> 0;
                   r = sctlr (cp15 c) AND ARM_SCTLR_R \<noteq> 0
               in if s \<and> r then False
                  else if r then \<not> wr
                  else if s then priv \<and> \<not> wr
                  else False)
            else if k = 1 then priv
            else if k = 2 then priv \<or> \<not> wr
            else True))"

definition access_flag_faults :: "'m arm_cpu \<Rightarrow> bool \<Rightarrow> u32 \<Rightarrow> bool \<Rightarrow> bool" where
  "access_flag_faults c xp ap apx =
     (if \<not> xp \<or> sctlr (cp15 c) AND ARM_SCTLR_FA = 0 \<or> ap AND 1 \<noteq> 0 then False
      else if \<not> apx \<and> ap = 0 then
        (let s = sctlr (cp15 c) AND ARM_SCTLR_S \<noteq> 0;
             r = sctlr (cp15 c) AND ARM_SCTLR_R \<noteq> 0
         in if s \<noteq> r then False else True)
      else True)"

definition xn_forbids_fetch :: "'m arm_cpu \<Rightarrow> arm_access \<Rightarrow> u32 \<Rightarrow> bool \<Rightarrow> bool" where
  "xn_forbids_fetch c acc dac xn \<longleftrightarrow>
     acc = ARM_ACCESS_FETCH \<and> xn \<and> dac \<noteq> 3 \<and> sctlr (cp15 c) AND ARM_SCTLR_XP \<noteq> 0"

section \<open>TLB index, tag and stamp\<close>

definition mmu_tlb_tag :: "u32 \<Rightarrow> arm_access \<Rightarrow> bool \<Rightarrow> u32" where
  "mmu_tlb_tag va acc priv =
     shl (shr va 10) 3 OR shl (access_num acc) 1 OR (if priv then 1 else 0)"

definition mmu_tlb_slot :: "u32 \<Rightarrow> arm_access \<Rightarrow> u32" where
  "mmu_tlb_slot va acc =
     (shr va 10 + access_num acc * (ARM_TLB_ENTRIES div 4)) AND (ARM_TLB_ENTRIES - 1)"

definition mmu_stamp_matches :: "'m arm_cpu \<Rightarrow> bool" where
  "mmu_stamp_matches c \<longleftrightarrow>
     s_sctlr (tlb_stamp c) = sctlr (cp15 c) \<and> s_ttbr0 (tlb_stamp c) = ttbr0 (cp15 c) \<and>
     s_ttbr1 (tlb_stamp c) = ttbr1 (cp15 c) \<and> s_ttbcr (tlb_stamp c) = ttbcr (cp15 c) \<and>
     s_dacr (tlb_stamp c) = dacr (cp15 c) \<and> s_context_id (tlb_stamp c) = context_id (cp15 c)"

text \<open>The assignments that take a new stamp in \<open>arm_mmu_translate\<close>.\<close>

definition take_stamp :: "arm_cp15 \<Rightarrow> stamp_regs" where
  "take_stamp p =
     \<lparr>s_sctlr = sctlr p, s_ttbr0 = ttbr0 p, s_ttbr1 = ttbr1 p, s_ttbcr = ttbcr p,
      s_dacr = dacr p, s_context_id = context_id p\<rparr>"

section \<open>The RAM capability\<close>

record 'm arm_ram_window =
  w_bus :: "'m arm_bus"
  w_identity :: nat
  w_read_host :: "hptr option"
  w_write_host :: "hptr option"
  w_base :: u32
  w_bytes :: u32

text \<open>
  Capture refuses (None) or returns the window. The C clears the window it was given before
  refusing, so a refusal leaves no capability behind.
\<close>

definition arm_ram_window_capture ::
  "'m arm_bus \<Rightarrow> 'm arm_cpu \<Rightarrow> u32 \<Rightarrow> u32 \<Rightarrow> 'm arm_ram_window option" where
  "arm_ram_window_capture b c base bytes =
     (case host_ram b of
        None \<Rightarrow> None
      | Some hr \<Rightarrow>
          if bytes < 1024 \<or> unat base + unat bytes > 0x100000000 then None
          else case hr (ctx c) base bytes of
            None \<Rightarrow> None
          | Some p \<Rightarrow>
              Some \<lparr>w_bus = b, w_identity = p_bus (bus_ptrs b), w_read_host = Some p,
                    w_write_host = (case host_ram_write b of
                        None \<Rightarrow> None | Some hw \<Rightarrow> hw (ctx c) base bytes),
                    w_base = base, w_bytes = bytes\<rparr>)"

definition arm_ram_window_current :: "'m arm_ram_window \<Rightarrow> 'm arm_bus \<Rightarrow> bool" where
  "arm_ram_window_current w b \<longleftrightarrow>
     w_read_host w \<noteq> None \<and> \<not> w_bytes w < 1024 \<and> p_bus (bus_ptrs b) = w_identity w \<and>
     (let q = bus_ptrs b; v = bus_ptrs (w_bus w)
      in p_ctx q = p_ctx v \<and> p_host_ram q = p_host_ram v \<and>
         p_host_ram_write q = p_host_ram_write v \<and> p_prepare_fetch q = p_prepare_fetch v \<and>
         p_prepare_fetch_ctx q = p_prepare_fetch_ctx v \<and>
         p_read32 q = p_read32 v \<and> p_read16 q = p_read16 v \<and> p_read8 q = p_read8 v \<and>
         p_write32 q = p_write32 v \<and> p_write16 q = p_write16 v \<and> p_write8 q = p_write8 v)"

definition arm_ram_window_tlb_lookup ::
  "'m arm_ram_window \<Rightarrow> 'm arm_bus \<Rightarrow> 'm arm_cpu \<Rightarrow> u32 \<Rightarrow> arm_access \<Rightarrow> bool \<Rightarrow> hptr option" where
  "arm_ram_window_tlb_lookup w b c va acc priv =
     (if \<not> arm_ram_window_current w b \<or> tlb_gen c = 0 \<or>
         sctlr (cp15 c) AND ARM_SCTLR_M = 0 \<or> \<not> mmu_stamp_matches c then None
      else
        let e = tlb c (mmu_tlb_slot va acc)
        in if e_gen e \<noteq> tlb_gen c \<or> e_tag e \<noteq> mmu_tlb_tag va acc priv \<or> e_fsr e \<noteq> 0 then None
           else
             let pa = e_pa e; offset = pa - w_base w
             in case (if acc = ARM_ACCESS_WRITE then w_write_host w else w_read_host w) of
                  None \<Rightarrow> None
                | Some host \<Rightarrow>
                    if pa AND 1023 \<noteq> 0 \<or> pa < w_base w \<or> offset > w_bytes w - 1024 then None
                    else Some (host + unat offset))"

section \<open>The walk\<close>

definition mmu_descriptor ::
  "'m arm_bus \<Rightarrow> 'm arm_cpu \<Rightarrow> 'm arm_ram_window option \<Rightarrow> u32 \<Rightarrow> (u32 \<times> 'm arm_cpu) option" where
  "mmu_descriptor b c ram address =
     (case ram of
        None \<Rightarrow> (let (v, m) = read32 b (ctx c) address in Some (v, c\<lparr>ctx := m\<rparr>))
      | Some w \<Rightarrow>
          if address AND 3 \<noteq> 0 \<or> address < w_base w \<or> address - w_base w > w_bytes w - 4
          then None
          else case w_read_host w of
            None \<Rightarrow> None
          | Some h \<Rightarrow>
              let p = h + unat (address - w_base w);
                  get = (\<lambda>i. ucast (load8 b (ctx c) (p + i)) :: u32)
              in Some (get 0 OR shl (get 1) 8 OR shl (get 2) 16 OR shl (get 3) 24, c))"

text \<open>The address of the first-level descriptor: TTBCR.N splits the space between two tables.\<close>

definition l1_use_ttbr0 :: "arm_cp15 \<Rightarrow> u32 \<Rightarrow> bool" where
  "l1_use_ttbr0 p va =
     (let n = unat (ttbcr p AND 7) in n = 0 \<or> shr va (32 - n) = 0)"

definition l1_address :: "arm_cp15 \<Rightarrow> u32 \<Rightarrow> u32" where
  "l1_address p va =
     (let n = unat (ttbcr p AND 7)
      in if l1_use_ttbr0 p va then
           (let base = ttbr0 p AND shl 0xffffffff (14 - n);
                idx = shr va 20 AND (shl 1 (12 - n) - 1)
            in base OR shl idx 2)
         else (ttbr1 p AND 0xffffc000) OR shl (shr va 20) 2)"

text \<open>Section and supersection descriptors: the checks after the descriptor is classified.\<close>

definition walk_section ::
  "'m arm_cpu \<Rightarrow> u32 \<Rightarrow> arm_access \<Rightarrow> bool \<Rightarrow> u32 \<Rightarrow> u32 \<Rightarrow> u32 \<times> u32" where
  "walk_section c va acc priv pa l1 =
     (let wr = (acc = ARM_ACCESS_WRITE);
          xp = sctlr (cp15 c) AND ARM_SCTLR_XP \<noteq> 0;
          supersection = shr l1 18 AND 1 \<noteq> 0;
          domain = (if supersection then 0 else shr l1 5 AND 0xf);
          dac = shr (dacr (cp15 c)) (unat (domain * 2)) AND 3;
          ap = shr l1 10 AND 3;
          apx = (xp \<and> shr l1 15 AND 1 \<noteq> 0)
      in if access_flag_faults c xp ap apx
         then (fsr_make ARM_FSR_SECTION_ACCESS_FLAG domain wr, pa)
         else if dac = 0 \<or> dac = 2
         then (fsr_make ARM_FSR_SECTION_DOMAIN domain wr, pa)
         else if dac \<noteq> 3 \<and> \<not> ap_permits c ap apx wr priv
         then (fsr_make ARM_FSR_SECTION_PERMISSION domain wr, pa)
         else if xn_forbids_fetch c acc dac (shr l1 4 AND 1 \<noteq> 0)
         then (fsr_make ARM_FSR_SECTION_PERMISSION domain False, pa)
         else if supersection then (0, (l1 AND 0xff000000) OR (va AND 0x00ffffff))
         else (0, (l1 AND 0xfff00000) OR (va AND 0x000fffff)))"

definition walk_page_ap :: "bool \<Rightarrow> u32 \<Rightarrow> u32 \<Rightarrow> u32 \<times> bool" where
  "walk_page_ap xp va l2 =
     (let t2 = l2 AND 3
      in if xp then (shr l2 4 AND 3, shr l2 9 AND 1 \<noteq> 0)
         else if t2 = 1 then
           (let subpage = shr va 14 AND 3 in (shr l2 (unat (4 + subpage * 2)) AND 3, False))
         else if t2 = 2 then
           (let subpage = shr va 10 AND 3 in (shr l2 (unat (4 + subpage * 2)) AND 3, False))
         else (shr l2 4 AND 3, False))"

definition walk_page ::
  "'m arm_cpu \<Rightarrow> u32 \<Rightarrow> arm_access \<Rightarrow> bool \<Rightarrow> u32 \<Rightarrow> u32 \<Rightarrow> u32 \<Rightarrow> u32 \<times> u32" where
  "walk_page c va acc priv pa domain l2 =
     (let wr = (acc = ARM_ACCESS_WRITE);
          xp = sctlr (cp15 c) AND ARM_SCTLR_XP \<noteq> 0;
          dac = shr (dacr (cp15 c)) (unat (domain * 2)) AND 3;
          t2 = l2 AND 3
      in if t2 = 0 then (fsr_make ARM_FSR_PAGE_TRANSLATION domain wr, pa)
         else
           let (ap, apx) = walk_page_ap xp va l2
           in if access_flag_faults c xp ap apx
              then (fsr_make ARM_FSR_PAGE_ACCESS_FLAG domain wr, pa)
              else if dac = 0 \<or> dac = 2 then (fsr_make ARM_FSR_PAGE_DOMAIN domain wr, pa)
              else if dac \<noteq> 3 \<and> \<not> ap_permits c ap apx wr priv
              then (fsr_make ARM_FSR_PAGE_PERMISSION domain wr, pa)
              else if xn_forbids_fetch c acc dac
                        (if t2 = 1 then shr l2 15 AND 1 \<noteq> 0 else l2 AND 1 \<noteq> 0)
              then (fsr_make ARM_FSR_PAGE_PERMISSION domain False, pa)
              else if t2 = 1 then (0, (l2 AND 0xffff0000) OR (va AND 0x0000ffff))
              else (0, (l2 AND 0xfffff000) OR (va AND 0x00000fff)))"

definition mmu_walk ::
  "'m arm_bus \<Rightarrow> 'm arm_cpu \<Rightarrow> u32 \<Rightarrow> arm_access \<Rightarrow> bool \<Rightarrow> u32 \<Rightarrow> 'm arm_ram_window option
     \<Rightarrow> u32 \<times> u32 \<times> 'm arm_cpu" where
  "mmu_walk b c va acc priv pa ram =
     (let wr = (acc = ARM_ACCESS_WRITE)
      in if sctlr (cp15 c) AND ARM_SCTLR_M = 0 then (0, va, c)
         else if ttbcr (cp15 c) AND shl 1 (if l1_use_ttbr0 (cp15 c) va then 4 else 5) \<noteq> 0
         then (fsr_make ARM_FSR_SECTION_TRANSLATION 0 wr, pa, c)
         else case mmu_descriptor b c ram (l1_address (cp15 c) va) of
           None \<Rightarrow> (0xffffffff, pa, c)
         | Some (l1, c1) \<Rightarrow>
             let type = l1 AND 3
             in if type = 0 then (fsr_make ARM_FSR_SECTION_TRANSLATION 0 wr, pa, c1)
                else if type = 3 then (fsr_make ARM_FSR_SECTION_TRANSLATION 0 wr, pa, c1)
                else if type = 2 then
                  (let (fsr, pa') = walk_section c1 va acc priv pa l1 in (fsr, pa', c1))
                else
                  let l2_addr = (l1 AND 0xfffffc00) OR shl (shr va 12 AND 0xff) 2
                  in case mmu_descriptor b c1 ram l2_addr of
                       None \<Rightarrow> (0xffffffff, pa, c1)
                     | Some (l2, c2) \<Rightarrow>
                         let (fsr, pa') = walk_page c2 va acc priv pa (shr l1 5 AND 0xf) l2
                         in (fsr, pa', c2))"

section \<open>Flush and the cached front end\<close>

definition empty_tlb_entry :: tlb_entry where
  "empty_tlb_entry = \<lparr>e_gen = 0, e_tag = 0, e_pa = 0, e_fsr = 0\<rparr>"

definition empty_blk_entry :: blk_entry where
  "empty_blk_entry = \<lparr>d_host = None, d_tag = 0, d_gen = 0\<rparr>"

definition arm_mmu_tlb_flush :: "'m arm_cpu \<Rightarrow> 'm arm_cpu" where
  "arm_mmu_tlb_flush c =
     (let c1 = c\<lparr>tlb_flushes := tlb_flushes c + 1, fetch_host := None,
                 tlb_gen := tlb_gen c + 1\<rparr>
      in if tlb_gen c1 = 0 then
           c1\<lparr>tlb := (\<lambda>_. empty_tlb_entry), dread := (\<lambda>_. empty_blk_entry),
              dwrite := (\<lambda>_. empty_blk_entry), tlb_gen := 1\<rparr>
         else c1)"

text \<open>The part of \<open>arm_mmu_translate\<close> before the lookup: generation 0 and the stamp.\<close>

definition tlb_prepare :: "'m arm_cpu \<Rightarrow> 'm arm_cpu" where
  "tlb_prepare c =
     (let c1 = (if tlb_gen c = 0 then c\<lparr>tlb_gen := 1\<rparr> else c)
      in if mmu_stamp_matches c1 then c1
         else (arm_mmu_tlb_flush c1)\<lparr>tlb_stamp := take_stamp (cp15 c1)\<rparr>)"

definition arm_mmu_translate ::
  "'m arm_bus \<Rightarrow> 'm arm_cpu \<Rightarrow> u32 \<Rightarrow> arm_access \<Rightarrow> bool \<Rightarrow> u32 \<Rightarrow> u32 \<times> u32 \<times> 'm arm_cpu" where
  "arm_mmu_translate b c va acc priv pa =
     (if sctlr (cp15 c) AND ARM_SCTLR_M = 0 then (0, va, c)
      else
        let c1 = tlb_prepare c;
            tag = mmu_tlb_tag va acc priv;
            slot = mmu_tlb_slot va acc;
            e = tlb c1 slot
        in if e_gen e = tlb_gen c1 \<and> e_tag e = tag then
             (e_fsr e, (if e_fsr e = 0 then e_pa e OR (va AND 0x3ff) else pa),
              c1\<lparr>tlb_hits := tlb_hits c1 + 1\<rparr>)
           else
             let c2 = c1\<lparr>tlb_misses := tlb_misses c1 + 1\<rparr>;
                 (fsr, pa', c3) = mmu_walk b c2 va acc priv pa None;
                 c4 = (case prepare_fetch b of
                         None \<Rightarrow> c3
                       | Some pf \<Rightarrow>
                           if fsr = 0 \<and> acc = ARM_ACCESS_FETCH
                           then c3\<lparr>ctx := pf (ctx c3) va pa' priv\<rparr> else c3);
                 e' = \<lparr>e_gen = tlb_gen c4, e_tag = tag,
                       e_pa = (if fsr = 0 then pa' AND NOT 0x3ff else 0), e_fsr = fsr\<rparr>
             in (fsr, pa', c4\<lparr>tlb := (tlb c4)(slot := e')\<rparr>))"

section \<open>Reading through the capability, and the administrative refills\<close>

definition arm_ram_window_read_resolve ::
  "'m arm_ram_window \<Rightarrow> 'm arm_bus \<Rightarrow> 'm arm_cpu \<Rightarrow> u32 \<Rightarrow> hptr option \<times> bool" where
  "arm_ram_window_read_resolve w b c va =
     (if \<not> arm_ram_window_current w b \<or> tlb_gen c = 0 \<or>
         sctlr (cp15 c) AND ARM_SCTLR_M = 0 \<or> \<not> mmu_stamp_matches c then (None, False)
      else
        let e = tlb c (mmu_tlb_slot va ARM_ACCESS_READ);
            hit = (e_gen e = tlb_gen c \<and> e_tag e = mmu_tlb_tag va ARM_ACCESS_READ False);
            r = (if hit then (if e_fsr e \<noteq> 0 then None else Some (e_pa e))
                 else
                   let (fsr, pa, _) =
                     mmu_walk b c (va AND NOT 1023) ARM_ACCESS_READ False 0 (Some w)
                   in if fsr \<noteq> 0 then None else Some pa)
        in case r of
             None \<Rightarrow> (None, False)
           | Some pa \<Rightarrow>
               if pa AND 1023 \<noteq> 0 \<or> pa < w_base w \<or> pa - w_base w > w_bytes w - 1024
               then (None, False)
               else (map_option (\<lambda>h. h + unat (pa - w_base w)) (w_read_host w), \<not> hit))"

definition arm_fetch_cache_try_refill ::
  "'m arm_bus \<Rightarrow> 'm arm_cpu \<Rightarrow> u32 \<Rightarrow> bool \<Rightarrow> bool \<times> 'm arm_cpu" where
  "arm_fetch_cache_try_refill b c va priv =
     (case host_ram b of
        None \<Rightarrow> (False, c)
      | Some hr \<Rightarrow>
          let va_block = va AND NOT 0x3ff
          in if fetch_host c \<noteq> None \<and> fetch_blk c = va_block \<and>
                fetch_gen c = tlb_gen c \<and> fetch_priv c = priv then (True, c)
             else
               let e = tlb c (mmu_tlb_slot va ARM_ACCESS_FETCH);
                   mmu = sctlr (cp15 c) AND ARM_SCTLR_M \<noteq> 0
               in if mmu \<and> (tlb_gen c = 0 \<or> \<not> mmu_stamp_matches c \<or> e_gen e \<noteq> tlb_gen c \<or>
                      e_tag e \<noteq> mmu_tlb_tag va ARM_ACCESS_FETCH priv \<or> e_fsr e \<noteq> 0)
                  then (False, c)
                  else case hr (ctx c) (if mmu then e_pa e else va_block) 0x400 of
                    None \<Rightarrow> (False, c)
                  | Some host \<Rightarrow>
                      let c1 = c\<lparr>fetch_host := Some host, fetch_blk := va_block,
                                 fetch_gen := tlb_gen c, fetch_priv := priv\<rparr>
                      in (True, if mmu then c1\<lparr>tlb_hits := tlb_hits c1 + 1\<rparr> else c1))"

definition arm_data_cache_try_refill ::
  "'m arm_bus \<Rightarrow> 'm arm_cpu \<Rightarrow> u32 \<Rightarrow> arm_access \<Rightarrow> bool \<Rightarrow> bool \<times> 'm arm_cpu" where
  "arm_data_cache_try_refill b c va acc priv =
     (let va_block = va AND NOT ARM_DREAD_BLK_MASK;
          cache_slot = (shr va 10 + (if priv then ARM_DREAD_ENTRIES div 2 else 0))
                       AND (ARM_DREAD_ENTRIES - 1);
          cache_tag = va_block OR (if priv then 1 else 0);
          mmu = sctlr (cp15 c) AND ARM_SCTLR_M \<noteq> 0;
          cached = (\<lambda>e. mmu \<and> d_host e \<noteq> None \<and> d_tag e = cache_tag \<and> d_gen e = tlb_gen c);
          e = tlb c (mmu_tlb_slot va acc);
          grant = (if acc = ARM_ACCESS_READ then host_ram b else host_ram_write b)
      in if acc \<noteq> ARM_ACCESS_READ \<and> acc \<noteq> ARM_ACCESS_WRITE then (False, c)
         else if mmu \<and> (tlb_gen c = 0 \<or> \<not> mmu_stamp_matches c) then (False, c)
         else case grant of
           None \<Rightarrow> (False, c)
         | Some hr \<Rightarrow>
             if cached ((if acc = ARM_ACCESS_READ then dread c else dwrite c) cache_slot)
             then (True, c)
             else if mmu \<and> (e_gen e \<noteq> tlb_gen c \<or> e_tag e \<noteq> mmu_tlb_tag va acc priv \<or> e_fsr e \<noteq> 0)
             then (False, c)
             else case hr (ctx c) (if mmu then e_pa e else va_block) (ARM_DREAD_BLK_MASK + 1) of
               None \<Rightarrow> (False, c)
             | Some host \<Rightarrow>
                 let ne = \<lparr>d_host = Some host, d_tag = cache_tag, d_gen = tlb_gen c\<rparr>;
                     c1 = (if acc = ARM_ACCESS_READ
                           then c\<lparr>dread := (dread c)(cache_slot := ne)\<rparr>
                           else c\<lparr>dwrite := (dwrite c)(cache_slot := ne)\<rparr>)
                 in (True, if mmu then c1\<lparr>tlb_hits := tlb_hits c1 + 1\<rparr> else c1))"

end
