(* ===== verification/Alu.thy ===== *)
theory Alu
  imports Cpu_Modes
begin

text \<open>
  The arithmetic helpers of core/src/arm/arm_interp.c: rotation, sign extension, saturation,
  the barrel shifter, the flag-setting adder and the signed operands of the DSP multiplies.
  A shift amount is an unsigned C int and is a \<open>nat\<close>; an \<open>int64_t\<close> intermediate that cannot
  overflow is an \<open>int\<close>.
\<close>

unbundle bit_operations_syntax

definition ror32 :: "u32 \<Rightarrow> nat \<Rightarrow> u32" where
  "ror32 v n = (let k = n mod 32 in if k \<noteq> 0 then shr v k OR shl v (32 - k) else v)"

definition sign_extend8 :: "u32 \<Rightarrow> u32" where
  "sign_extend8 v = ((v AND 0xff) XOR 0x80) - 0x80"

definition sign_extend16 :: "u32 \<Rightarrow> u32" where
  "sign_extend16 v = ((v AND 0xffff) XOR 0x8000) - 0x8000"

text \<open>The saturating helpers return the value and whether it saturated.\<close>

definition signed_saturate :: "int \<Rightarrow> nat \<Rightarrow> u32 \<times> bool" where
  "signed_saturate value bits =
     (let limit = 2 ^ (bits - 1); lo = - limit; hi = limit - 1
      in if value < lo then (word_of_int lo, True)
         else if value > hi then (word_of_int hi, True)
         else (word_of_int value, False))"

definition unsigned_saturate :: "int \<Rightarrow> nat \<Rightarrow> u32 \<times> bool" where
  "unsigned_saturate value bits =
     (let hi = (if bits \<noteq> 0 then 2 ^ bits - 1 else 0)
      in if value < 0 then (0, True)
         else if value > hi then (word_of_int hi, True)
         else (word_of_int value, False))"

text \<open>The result and the shifter carry-out; \<open>carry\<close> is the carry-in of the unaffected cases.\<close>

definition barrel_shift :: "u32 \<Rightarrow> u32 \<Rightarrow> nat \<Rightarrow> bool \<Rightarrow> bool \<Rightarrow> u32 \<times> bool" where
  "barrel_shift val type amount reg_amount carry =
     (let k = type AND 3
      in if k = 0 then
           (if amount = 0 then (val, carry)
            else if amount < 32 then (shl val amount, bit val (32 - amount))
            else if amount = 32 then (0, bit val 0)
            else (0, False))
         else if k = 1 then
           (if amount = 0 then (if reg_amount then (val, carry) else (0, bit val 31))
            else if amount < 32 then (shr val amount, bit val (amount - 1))
            else if amount = 32 then (0, bit val 31)
            else (0, False))
         else if k = 2 then
           (if amount = 0 then
              (if reg_amount then (val, carry)
               else (if bit val 31 then 0xffffffff else 0, bit val 31))
            else if amount < 32 then (signed_drop_bit amount val, bit val (amount - 1))
            else (if bit val 31 then 0xffffffff else 0, bit val 31))
         else
           (if amount = 0 then
              (if reg_amount then (val, carry)
               else (shr val 1 OR shl (if carry then 1 else 0) 31, bit val 0))
            else
              let a = amount mod 32
              in if a = 0 then (val, bit val 31) else (ror32 val a, bit val (a - 1))))"

definition dp_operand2 :: "'m arm_cpu \<Rightarrow> u32 \<Rightarrow> u32 \<Rightarrow> bool \<Rightarrow> u32 \<times> bool" where
  "dp_operand2 c pc insn carry =
     (if bit insn 25 then
        (let imm = insn AND 0xff;
             rot = reg4 insn 8 * 2;
             val = ror32 imm rot
         in (val, if rot \<noteq> 0 then bit val 31 else carry))
      else
        let rm = reg4 insn 0; type = shr insn 5 AND 3
        in if bit insn 4 then
             (let rs = reg4 insn 8; amt = unat (reg_read c pc rs AND 0xff);
                  rmv = reg_read c pc rm
              in barrel_shift rmv type amt True carry)
           else
             (let amt = unat (shr insn 7 AND 0x1f); rmv = reg_read c pc rm
              in barrel_shift rmv type amt False carry))"

text \<open>The adder: the sum modulo 2^32, and with \<open>set\<close> the four condition flags.\<close>

definition alu_add :: "'m arm_cpu \<Rightarrow> u32 \<Rightarrow> u32 \<Rightarrow> u32 \<Rightarrow> bool \<Rightarrow> u32 \<times> 'm arm_cpu" where
  "alu_add c a b cin st =
     (let u = (ucast a + ucast b + ucast cin :: u64);
          r = ucast u :: u32
      in (r, if st then
               set_flag (set_flag (set_flag (set_flag c
                 ARM_CPSR_N (bit r 31)) ARM_CPSR_Z (r = 0))
                 ARM_CPSR_C (bit u 32))
                 ARM_CPSR_V (shr (NOT (a XOR b) AND (a XOR r)) 31 \<noteq> 0)
             else c))"

definition alu_sub :: "'m arm_cpu \<Rightarrow> u32 \<Rightarrow> u32 \<Rightarrow> u32 \<Rightarrow> bool \<Rightarrow> u32 \<times> 'm arm_cpu" where
  "alu_sub c a b cin st = alu_add c a (NOT b) cin st"

definition alu_logic_flags :: "'m arm_cpu \<Rightarrow> u32 \<Rightarrow> bool \<Rightarrow> bool \<Rightarrow> 'm arm_cpu" where
  "alu_logic_flags c r carry st =
     (if \<not> st then c
      else set_flag (set_flag (set_flag c ARM_CPSR_N (bit r 31)) ARM_CPSR_Z (r = 0))
             ARM_CPSR_C carry)"

definition dsp_signed_half :: "u32 \<Rightarrow> bool \<Rightarrow> int" where
  "dsp_signed_half value upper =
     (let half = shr value (if upper then 16 else 0) AND 0xffff
      in if half AND 0x8000 \<noteq> 0 then uint half - 65536 else uint half)"

definition dsp_signed_word :: "u32 \<Rightarrow> int" where
  "dsp_signed_word value =
     (if value AND 0x80000000 \<noteq> 0 then uint value - 4294967296 else uint value)"

definition dsp_accumulate_word :: "'m arm_cpu \<Rightarrow> int \<Rightarrow> u32 \<Rightarrow> u32 \<times> 'm arm_cpu" where
  "dsp_accumulate_word c product accumulator =
     (let s = product + dsp_signed_word accumulator
      in (word_of_int s,
          if s > 2147483647 \<or> s < -2147483648 then c\<lparr>cpsr := cpsr c OR ARM_CPSR_Q\<rparr> else c))"

end
