(* ===== verification/Exec_Alu.thy ===== *)
theory Exec_Alu
  imports Alu
begin

text \<open>
  The register-to-register instruction groups of core/src/arm/arm_interp.c: data processing
  with the miscellaneous space it shares (BX, BLX, CLZ, saturating arithmetic, MRS, MSR),
  branches, the multiplies and the DSP multiplies. Each operation returns the status, the
  next fetch address where the C updates it, and the CPU.
\<close>

unbundle bit_operations_syntax

definition set_reg :: "'m arm_cpu \<Rightarrow> nat \<Rightarrow> u32 \<Rightarrow> 'm arm_cpu" where
  "set_reg c n v = c\<lparr>regs := (regs c)(n := v)\<rparr>"

section \<open>Miscellaneous space\<close>

text \<open>CLZ: the loop that shifts left until bit 31 is set.\<close>

fun clz_loop :: "nat \<Rightarrow> u32 \<Rightarrow> nat \<Rightarrow> nat" where
  "clz_loop 0 v n = n"
| "clz_loop (Suc fuel) v n = (if bit v 31 then n else clz_loop fuel (shl v 1) (Suc n))"

definition clz32 :: "u32 \<Rightarrow> nat" where
  "clz32 v = (if v = 0 then 32 else clz_loop 32 v 0)"

definition clamp_s32 :: "int \<Rightarrow> int \<times> bool" where
  "clamp_s32 x =
     (if x > 2147483647 then (2147483647, True)
      else if x < -2147483648 then (-2147483648, True)
      else (x, False))"

text \<open>QADD, QSUB, QDADD, QDSUB: the result and whether anything saturated.\<close>

definition saturating_arith :: "u32 \<Rightarrow> u32 \<Rightarrow> u32 \<Rightarrow> u32 \<times> bool" where
  "saturating_arith op rm rn =
     (let m = sint rm;
          (n, sat1) = (if op = 2 \<or> op = 3 then clamp_s32 (sint rn * 2) else (sint rn, False));
          (acc, sat2) = clamp_s32 (if op = 0 \<or> op = 2 then m + n else m - n)
      in (word_of_int acc, sat1 \<or> sat2))"

definition msr_mask :: "u32 \<Rightarrow> u32" where
  "msr_mask flds =
     (if flds AND 1 \<noteq> 0 then 0x000000ff else 0) OR
     (if flds AND 2 \<noteq> 0 then 0x0000ff00 else 0) OR
     (if flds AND 4 \<noteq> 0 then 0x00ff0000 else 0) OR
     (if flds AND 8 \<noteq> 0 then 0xff000000 else 0)"

definition msr_write :: "'m arm_cpu \<Rightarrow> bool \<Rightarrow> u32 \<Rightarrow> u32 \<Rightarrow> arm_status \<times> 'm arm_cpu" where
  "msr_write c is_spsr flds val =
     (let bank = arm_bank_of_mode (cpsr c);
          has_spsr = (bank \<noteq> ARM_BANK_USR);
          mask0 = msr_mask flds
      in if is_spsr then
           (if \<not> has_spsr then (ARM_UNDEFINED, c)
            else (ARM_OK, c\<lparr>spsr := (spsr c)(bank :=
                    (spsr c bank AND NOT mask0) OR (val AND mask0))\<rparr>))
         else
           let mask = (if \<not> has_spsr \<and> cpsr c AND ARM_CPSR_MODE_MASK = ARM_MODE_USR
                       then mask0 AND 0xff000000 else mask0);
               newcpsr = (cpsr c AND NOT mask) OR (val AND mask)
           in if mask AND ARM_CPSR_MODE_MASK \<noteq> 0 \<and> \<not> arm_mode_is_valid newcpsr
              then (ARM_UNDEFINED, c)
              else if mask AND 0x1f \<noteq> 0 \<and>
                      newcpsr AND ARM_CPSR_MODE_MASK \<noteq> cpsr c AND ARM_CPSR_MODE_MASK
              then (ARM_OK, restore_psr c newcpsr)
              else (ARM_OK, c\<lparr>cpsr := newcpsr\<rparr>))"

text \<open>Opcodes 0x8..0xb with S clear.\<close>

definition exec_misc ::
  "'m arm_cpu \<Rightarrow> u32 \<Rightarrow> u32 \<Rightarrow> u32 \<Rightarrow> arm_status \<times> u32 \<times> 'm arm_cpu" where
  "exec_misc c pc insn next =
     (let rd = reg4 insn 12;
          bank = arm_bank_of_mode (cpsr c);
          has_spsr = (bank \<noteq> ARM_BANK_USR);
          is_spsr = bit insn 22
      in if insn AND 0x0ffffff0 = 0x012fff10 then
           (let t = reg_read c pc (reg4 insn 0)
            in if t AND 3 = 2 then (ARM_UNDEFINED, next, c)
               else (ARM_OK, t AND NOT 1,
                     if t AND 1 \<noteq> 0 then c\<lparr>cpsr := cpsr c OR ARM_CPSR_T\<rparr> else c))
         else if insn AND 0x0ffffff0 = 0x012fff30 then
           (if reg4 insn 0 = 15 then (ARM_UNDEFINED, next, c)
            else
              let t = reg_read c pc (reg4 insn 0)
              in if t AND 3 = 2 then (ARM_UNDEFINED, next, c)
                 else
                   let c1 = set_reg c 14 (pc + 4)
                   in (ARM_OK, t AND NOT 1,
                       if t AND 1 \<noteq> 0 then c1\<lparr>cpsr := cpsr c1 OR ARM_CPSR_T\<rparr> else c1))
         else if insn AND 0x0fff0ff0 = 0x016f0f10 then
           (ARM_OK, next, set_reg c rd (of_nat (clz32 (reg_read c pc (reg4 insn 0)))))
         else if insn AND 0x0f900ff0 = 0x01000050 then
           (let (res, sat) = saturating_arith (shr insn 21 AND 3)
                               (reg_read c pc (reg4 insn 0)) (reg_read c pc (reg4 insn 16));
                c1 = set_reg c rd res
            in (ARM_OK, next, if sat then c1\<lparr>cpsr := cpsr c1 OR ARM_CPSR_Q\<rparr> else c1))
         else if insn AND 0x0fbf0fff = 0x010f0000 then
           (if is_spsr \<and> \<not> has_spsr then (ARM_UNDEFINED, next, c)
            else (ARM_OK, next, set_reg c rd (if is_spsr then spsr c bank else cpsr c)))
         else if insn AND 0x0fb0fff0 = 0x0120f000 \<or> insn AND 0x0fb0f000 = 0x0320f000 then
           (let val = (if bit insn 25 then ror32 (insn AND 0xff) (reg4 insn 8 * 2)
                       else reg_read c pc (reg4 insn 0));
                (st, c1) = msr_write c is_spsr (shr insn 16 AND 0xf) val
            in (st, next, c1))
         else (ARM_UNDEFINED, next, c))"

section \<open>Data processing\<close>

text \<open>The result (None for the comparisons) and the CPU with its flags.\<close>

definition dp_alu ::
  "'m arm_cpu \<Rightarrow> nat \<Rightarrow> bool \<Rightarrow> u32 \<Rightarrow> u32 \<Rightarrow> bool \<Rightarrow> u32 option \<times> 'm arm_cpu" where
  "dp_alu c opcode S a op2 shifter_carry =
     (let cin = (if get_flag c ARM_CPSR_C then 1 else 0 :: u32);
          logic = (\<lambda>res. (Some res, alu_logic_flags c res shifter_carry S));
          arith = (\<lambda>(res, c1). (Some res, c1));
          nores = (\<lambda>(res, c1). (None, c1))
      in if opcode = 0x0 then logic (a AND op2)
         else if opcode = 0x1 then logic (a XOR op2)
         else if opcode = 0x2 then arith (alu_sub c a op2 1 S)
         else if opcode = 0x3 then arith (alu_sub c op2 a 1 S)
         else if opcode = 0x4 then arith (alu_add c a op2 0 S)
         else if opcode = 0x5 then arith (alu_add c a op2 cin S)
         else if opcode = 0x6 then arith (alu_sub c a op2 cin S)
         else if opcode = 0x7 then arith (alu_sub c op2 a cin S)
         else if opcode = 0x8 then (None, alu_logic_flags c (a AND op2) shifter_carry True)
         else if opcode = 0x9 then (None, alu_logic_flags c (a XOR op2) shifter_carry True)
         else if opcode = 0xa then nores (alu_sub c a op2 1 True)
         else if opcode = 0xb then nores (alu_add c a op2 0 True)
         else if opcode = 0xc then logic (a OR op2)
         else if opcode = 0xd then logic op2
         else if opcode = 0xe then logic (a AND NOT op2)
         else logic (NOT op2))"

text \<open>Writing the result; with Rd = r15 and S the write is an exception return.\<close>

definition dp_write ::
  "'m arm_cpu \<Rightarrow> nat \<Rightarrow> bool \<Rightarrow> u32 \<Rightarrow> u32 \<Rightarrow> u32 \<times> 'm arm_cpu" where
  "dp_write c rd S res next =
     (let c1 = set_reg c rd res
      in if rd = 15 then
           let c2 = (if S then
                       let bk = arm_bank_of_mode (cpsr c1)
                       in if bk \<noteq> ARM_BANK_USR then restore_psr c1 (spsr c1 bk) else c1
                     else c1)
           in (res AND (if cpsr c2 AND ARM_CPSR_T \<noteq> 0 then NOT 1 else NOT 3), c2)
         else (next, c1))"

definition exec_data_processing ::
  "'m arm_cpu \<Rightarrow> u32 \<Rightarrow> u32 \<Rightarrow> u32 \<Rightarrow> arm_status \<times> u32 \<times> 'm arm_cpu" where
  "exec_data_processing c pc insn next =
     (let opcode = reg4 insn 21;
          S = bit insn 20;
          rn = reg4 insn 16;
          rd = reg4 insn 12
      in if arch c = ARM_ARCH_V7_SWIFT \<and> insn AND 0x0fb00000 = 0x03000000 then
           (let imm16 = (shr insn 4 AND 0xf000) OR (insn AND 0x0fff)
            in if rd = 15 then (ARM_UNDEFINED, next, c)
               else (ARM_OK, next,
                     set_reg c rd (if bit insn 22
                                   then (regs c rd AND 0x0000ffff) OR shl imm16 16
                                   else imm16)))
         else if opcode \<ge> 0x8 \<and> opcode \<le> 0xb \<and> \<not> S then exec_misc c pc insn next
         else if \<not> bit insn 25 \<and> bit insn 4 \<and>
                 (rd = 15 \<or> rn = 15 \<or> reg4 insn 0 = 15 \<or> reg4 insn 8 = 15)
         then (ARM_UNDEFINED, next, c)
         else
           let writes_result = (opcode < 8 \<or> opcode \<ge> 12);
               bk = arm_bank_of_mode (cpsr c)
           in if writes_result \<and> rd = 15 \<and> S \<and>
                 (bk = ARM_BANK_USR \<or> \<not> arm_mode_is_valid (spsr c bk))
              then (ARM_UNDEFINED, next, c)
              else
                let (op2, shifter_carry) = dp_operand2 c pc insn (get_flag c ARM_CPSR_C);
                    a = reg_read c pc rn
                in case dp_alu c opcode S a op2 shifter_carry of
                     (None, c1) \<Rightarrow> (ARM_OK, next, c1)
                   | (Some res, c1) \<Rightarrow>
                       let (next', c2) = dp_write c1 rd S res next in (ARM_OK, next', c2))"

section \<open>Branches\<close>

text \<open>\<open>(int32_t)(insn << 8) >> 6\<close>: the sign-extended 24-bit offset times 4.\<close>

definition branch_offset :: "u32 \<Rightarrow> u32" where
  "branch_offset insn = signed_drop_bit 6 (shl insn 8)"

definition exec_branch ::
  "'m arm_cpu \<Rightarrow> u32 \<Rightarrow> u32 \<Rightarrow> arm_status \<times> u32 \<times> 'm arm_cpu" where
  "exec_branch c pc insn =
     (let c1 = (if bit insn 24 then set_reg c 14 (pc + 4) else c)
      in (ARM_OK, (pc + 8 + branch_offset insn) AND NOT 3, c1))"

section \<open>Multiplies\<close>

definition exec_multiply :: "'m arm_cpu \<Rightarrow> u32 \<Rightarrow> u32 \<Rightarrow> arm_status \<times> 'm arm_cpu" where
  "exec_multiply c pc insn =
     (let A = bit insn 21; S = bit insn 20;
          rd = reg4 insn 16; rn = reg4 insn 12; rs = reg4 insn 8; rm = reg4 insn 0;
          res0 = reg_read c pc rm * reg_read c pc rs;
          res = (if A then res0 + reg_read c pc rn else res0);
          c1 = set_reg c rd res
      in (ARM_OK, if S then set_flag (set_flag c1 ARM_CPSR_N (bit res 31)) ARM_CPSR_Z (res = 0)
                  else c1))"

definition exec_multiply_long :: "'m arm_cpu \<Rightarrow> u32 \<Rightarrow> u32 \<Rightarrow> arm_status \<times> 'm arm_cpu" where
  "exec_multiply_long c pc insn =
     (let is_signed = bit insn 22; A = bit insn 21; S = bit insn 20;
          rdhi = reg4 insn 16; rdlo = reg4 insn 12; rs = reg4 insn 8; rm = reg4 insn 0
      in if rdhi = 15 \<or> rdlo = 15 \<or> rs = 15 \<or> rm = 15 \<or> rdhi = rdlo then (ARM_UNDEFINED, c)
         else
           let a = reg_read c pc rm; b = reg_read c pc rs;
               res0 = (if is_signed then word_of_int (sint a * sint b)
                       else ucast a * ucast b :: u64);
               res = (if A then res0 + (shl (ucast (regs c rdhi)) 32 OR ucast (regs c rdlo))
                      else res0);
               c1 = set_reg (set_reg c rdlo (ucast res)) rdhi (ucast (shr res 32))
           in (ARM_OK, if S then set_flag (set_flag c1 ARM_CPSR_N (bit res 63)) ARM_CPSR_Z (res = 0)
                       else c1))"

definition exec_dsp_multiply :: "'m arm_cpu \<Rightarrow> u32 \<Rightarrow> arm_status \<times> 'm arm_cpu" where
  "exec_dsp_multiply c insn =
     (let rd = reg4 insn 16; rn = reg4 insn 12; rs = reg4 insn 8; rm = reg4 insn 0;
          x = bit insn 5; y = bit insn 6
      in if insn AND 0x0ff00090 = 0x01000080 then
           (if rd = 15 \<or> rn = 15 \<or> rs = 15 \<or> rm = 15 then (ARM_UNDEFINED, c)
            else
              let product = dsp_signed_half (regs c rm) x * dsp_signed_half (regs c rs) y;
                  (v, c1) = dsp_accumulate_word c product (regs c rn)
              in (ARM_OK, set_reg c1 rd v))
         else if insn AND 0x0ff000b0 = 0x01200080 then
           (if rd = 15 \<or> rn = 15 \<or> rs = 15 \<or> rm = 15 then (ARM_UNDEFINED, c)
            else
              let product = dsp_signed_word (regs c rm) * dsp_signed_half (regs c rs) y;
                  upper = ucast (shr (word_of_int product :: u64) 16) :: u32;
                  (v, c1) = dsp_accumulate_word c (dsp_signed_word upper) (regs c rn)
              in (ARM_OK, set_reg c1 rd v))
         else if insn AND 0x0ff0f0b0 = 0x012000a0 then
           (if rd = 15 \<or> rs = 15 \<or> rm = 15 then (ARM_UNDEFINED, c)
            else
              let product = dsp_signed_word (regs c rm) * dsp_signed_half (regs c rs) y
              in (ARM_OK, set_reg c rd (ucast (shr (word_of_int product :: u64) 16))))
         else if insn AND 0x0ff00090 = 0x01400080 then
           (let rdhi = rd; rdlo = rn
            in if rdhi = 15 \<or> rdlo = 15 \<or> rs = 15 \<or> rm = 15 \<or> rdhi = rdlo
               then (ARM_UNDEFINED, c)
               else
                 let accumulator = (shl (ucast (regs c rdhi)) 32 OR ucast (regs c rdlo) :: u64);
                     product = dsp_signed_half (regs c rm) x * dsp_signed_half (regs c rs) y;
                     result = accumulator + word_of_int product
                 in (ARM_OK, set_reg (set_reg c rdlo (ucast result)) rdhi (ucast (shr result 32))))
         else if insn AND 0x0ff0f090 = 0x01600080 then
           (if rd = 15 \<or> rs = 15 \<or> rm = 15 then (ARM_UNDEFINED, c)
            else
              let product = dsp_signed_half (regs c rm) x * dsp_signed_half (regs c rs) y
              in (ARM_OK, set_reg c rd (word_of_int product)))
         else (ARM_UNDEFINED, c))"

end
