(* ===== verification/Cp15.thy ===== *)
theory Cp15
  imports Mmu Exec_Alu
begin

text \<open>
  The coprocessor interface of core/src/arm/arm_interp.c: which encodings are VFP space, the
  lazy-enable trap that turns a refused VFP encoding into the guest's Undefined exception, the
  MCR/MRC accesses to CP14 and CP15 with the User-mode gate and Wait For Interrupt, and the
  reset state. The VFP unit itself (\<open>vfp_execute\<close> of core/src/arm/vfp.c) is the argument \<open>vfp\<close>.
\<close>

unbundle bit_operations_syntax

type_synonym 'm vfp_unit = "'m arm_bus \<Rightarrow> 'm arm_cpu \<Rightarrow> u32 \<Rightarrow> u32 \<Rightarrow> arm_status \<times> 'm arm_cpu"

section \<open>VFP availability and the Undefined discrimination\<close>

definition insn_is_vfp_space :: "u32 \<Rightarrow> bool" where
  "insn_is_vfp_space insn \<longleftrightarrow>
     insn AND 0xfe000000 = 0xf2000000 \<or> insn AND 0x0f000e10 = 0x0e000a00 \<or>
     insn AND 0x0e000e00 = 0x0c000a00 \<or> insn AND 0xff100000 = 0xf4000000 \<or>
     insn AND 0x0f000e10 = 0x0e000a10 \<or> insn AND 0x0fe00e00 = 0x0c400a00"

definition vfp_cpacr_permits :: "'m arm_cpu \<Rightarrow> bool" where
  "vfp_cpacr_permits c =
     (let cp10 = shr (cpacr (cp15 c)) 20 AND 3;
          cp11 = shr (cpacr (cp15 c)) 22 AND 3;
          acc = (if cp10 < cp11 then cp10 else cp11)
      in if acc = 3 then True
         else if acc = 1 then cpsr c AND ARM_CPSR_MODE_MASK \<noteq> ARM_MODE_USR
         else False)"

definition vfp_enabled :: "'m arm_cpu \<Rightarrow> bool" where
  "vfp_enabled c \<longleftrightarrow> vfp_fpexc c AND ARM_FPEXC_EN \<noteq> 0"

definition vfp_lazy_enable_trap :: "'m arm_cpu \<Rightarrow> u32 \<Rightarrow> bool" where
  "vfp_lazy_enable_trap c insn =
     (if \<not> insn_is_vfp_space insn then False
      else \<not> vfp_cpacr_permits c \<or> \<not> vfp_enabled c)"

definition undefined_instruction :: "'m arm_cpu \<Rightarrow> u32 \<Rightarrow> u32 \<Rightarrow> arm_status \<times> 'm arm_cpu" where
  "undefined_instruction c pc insn =
     (if \<not> vfp_lazy_enable_trap c insn then (ARM_UNDEFINED, c)
      else take_undefined_instruction c pc)"

section \<open>CP15 registers\<close>

text \<open>The identification registers: the constants and tables \<open>id_crm1\<close> and \<open>id_crm2\<close>.\<close>

definition id_crm1 :: "u32 list" where
  "id_crm1 = [0x00000111, 0x00000001, 0, 0, 0x01130003, 0x10030302, 0x01222100, 0]"

definition id_crm2 :: "u32 list" where
  "id_crm2 = [0x00140011, 0x12002111, 0x11231121, 0x01102131, 0x00000141, 0, 0, 0]"

definition cp15_id :: "nat \<Rightarrow> nat \<Rightarrow> u32" where
  "cp15_id crm opc2 =
     (if crm = 0 then (if opc2 = 0 then 0x410fb767 else if opc2 = 1 then 0x1d152152 else 0)
      else if crm = 1 then id_crm1 ! opc2
      else if crm = 2 then id_crm2 ! opc2
      else 0)"

text \<open>The \<open>switch (crn)\<close> of an MRC.\<close>

definition cp15_read :: "arm_cp15 \<Rightarrow> nat \<Rightarrow> nat \<Rightarrow> nat \<Rightarrow> u32" where
  "cp15_read p crn crm opc2 =
     (if crn = 0 then cp15_id crm opc2
      else if crn = 1 then
        (if crm = 0 then
           (if opc2 = 0 then sctlr p else if opc2 = 1 then actlr p
            else if opc2 = 2 then cpacr p else 0)
         else 0)
      else if crn = 2 then
        (if crm = 0 then
           (if opc2 = 0 then ttbr0 p else if opc2 = 1 then ttbr1 p
            else if opc2 = 2 then ttbcr p else 0)
         else 0)
      else if crn = 3 then dacr p
      else if crn = 5 then (if opc2 = 1 then ifsr p else dfsr p)
      else if crn = 6 then (if opc2 = 2 then ifar p else dfar p)
      else if crn = 13 then
        (if opc2 = 1 then context_id p else if opc2 = 2 then tpidrurw p
         else if opc2 = 3 then tpidruro p else if opc2 = 4 then tpidrprw p else fcse_pid p)
      else 0)"

text \<open>The assignments of an MCR, and which of them flush the TLB.\<close>

definition cp15_assign :: "arm_cp15 \<Rightarrow> nat \<Rightarrow> nat \<Rightarrow> nat \<Rightarrow> u32 \<Rightarrow> arm_cp15" where
  "cp15_assign p crn crm opc2 v =
     (if crn = 1 then
        (if crm = 0 then
           (if opc2 = 0 then p\<lparr>sctlr := v\<rparr> else if opc2 = 1 then p\<lparr>actlr := v\<rparr>
            else if opc2 = 2 then p\<lparr>cpacr := v\<rparr> else p)
         else p)
      else if crn = 2 then
        (if crm = 0 then
           (if opc2 = 0 then p\<lparr>ttbr0 := v\<rparr> else if opc2 = 1 then p\<lparr>ttbr1 := v\<rparr>
            else if opc2 = 2 then p\<lparr>ttbcr := v AND 0x37\<rparr> else p)
         else p)
      else if crn = 3 then p\<lparr>dacr := v\<rparr>
      else if crn = 5 then (if opc2 = 1 then p\<lparr>ifsr := v\<rparr> else p\<lparr>dfsr := v\<rparr>)
      else if crn = 6 then (if opc2 = 2 then p\<lparr>ifar := v\<rparr> else p\<lparr>dfar := v\<rparr>)
      else if crn = 13 then
        (if opc2 = 1 then p\<lparr>context_id := v\<rparr> else if opc2 = 2 then p\<lparr>tpidrurw := v\<rparr>
         else if opc2 = 3 then p\<lparr>tpidruro := v\<rparr> else if opc2 = 4 then p\<lparr>tpidrprw := v\<rparr>
         else p\<lparr>fcse_pid := v\<rparr>)
      else p)"

definition cp15_write_flushes :: "nat \<Rightarrow> nat \<Rightarrow> nat \<Rightarrow> bool" where
  "cp15_write_flushes crn crm opc2 \<longleftrightarrow>
     crn = 1 \<and> crm = 0 \<and> opc2 = 0 \<or> crn = 2 \<and> crm = 0 \<or> crn = 3 \<or> crn = 8 \<or>
     crn = 13 \<and> opc2 = 1"

definition cp15_write :: "'m arm_cpu \<Rightarrow> nat \<Rightarrow> nat \<Rightarrow> nat \<Rightarrow> u32 \<Rightarrow> 'm arm_cpu" where
  "cp15_write c crn crm opc2 v =
     (let c1 = c\<lparr>cp15 := cp15_assign (cp15 c) crn crm opc2 v\<rparr>
      in if cp15_write_flushes crn crm opc2 then arm_mmu_tlb_flush c1 else c1)"

definition cp15_user_allowed :: "nat \<Rightarrow> nat \<Rightarrow> nat \<Rightarrow> bool \<Rightarrow> bool" where
  "cp15_user_allowed crn crm opc2 load \<longleftrightarrow>
     crn = 7 \<or> crn = 13 \<and> crm = 0 \<and> opc2 = 2 \<or> crn = 13 \<and> crm = 0 \<and> opc2 = 3 \<and> load"

definition exec_wfi :: "'m arm_bus \<Rightarrow> 'm arm_cpu \<Rightarrow> u32 \<Rightarrow> nat \<Rightarrow> arm_status \<times> 'm arm_cpu" where
  "exec_wfi b c pc rd =
     (if \<not> cpu_is_priv c then (ARM_UNDEFINED, c)
      else if reg_read c pc rd \<noteq> 0 then (ARM_UNDEFINED, c)
      else (ARM_OK, case wait_for_interrupt b of None \<Rightarrow> c | Some wait \<Rightarrow> snd (wait c)))"

definition exec_coprocessor ::
  "'m vfp_unit \<Rightarrow> 'm arm_bus \<Rightarrow> 'm arm_cpu \<Rightarrow> u32 \<Rightarrow> u32 \<Rightarrow> arm_status \<times> 'm arm_cpu" where
  "exec_coprocessor vfp b c pc insn =
     (let cp = reg4 insn 8;
          load = bit insn 20;
          opc1 = shr insn 21 AND 7;
          crn = reg4 insn 16;
          rd = reg4 insn 12;
          opc2 = unat (shr insn 5 AND 7);
          crm = reg4 insn 0
      in if cp = 14 then
           (if \<not> cpu_is_priv c then (ARM_UNDEFINED, c)
            else (ARM_OK, if load then set_reg c rd 0 else c))
         else if cp = 10 \<or> cp = 11 then vfp b c pc insn
         else if cp \<noteq> 15 then (ARM_UNDEFINED, c)
         else if \<not> load \<and> opc1 = 0 \<and> crn = 7 \<and> opc2 = 4 \<and> crm = 0 then exec_wfi b c pc rd
         else if \<not> cpu_is_priv c \<and> \<not> cp15_user_allowed crn crm opc2 load then (ARM_UNDEFINED, c)
         else if load then (ARM_OK, set_reg c rd (cp15_read (cp15 c) crn crm opc2))
         else (ARM_OK, cp15_write c crn crm opc2 (reg_read c pc rd)))"

section \<open>Reset\<close>

definition zero_cp15 :: arm_cp15 where
  "zero_cp15 =
     \<lparr>sctlr = 0, actlr = 0, cpacr = 0, ttbr0 = 0, ttbr1 = 0, ttbcr = 0, dacr = 0,
      dfsr = 0, ifsr = 0, dfar = 0, ifar = 0, fcse_pid = 0, context_id = 0,
      tpidrurw = 0, tpidruro = 0, tpidrprw = 0\<rparr>"

text \<open>
  \<open>arm_reset\<close> stores every field but \<open>arch\<close>, the stamp of the TLB and the platform behind the
  bus. An array is reset over its bounds; the model's functions are total and the values
  outside the bounds do not exist in the C.
\<close>

definition arm_reset :: "'m arm_cpu \<Rightarrow> 'm arm_cpu" where
  "arm_reset c = c\<lparr>
     regs := (\<lambda>_. 0), spsr := (\<lambda>_. 0), bank_r13 := (\<lambda>_. 0), bank_r14 := (\<lambda>_. 0),
     fiq_r8_12 := (\<lambda>_. 0), usr_r8_12 := (\<lambda>_. 0), cp15 := zero_cp15,
     tlb := (\<lambda>_. empty_tlb_entry), tlb_gen := 1,
     fetch_host := None, fetch_blk := 0, fetch_gen := 0, fetch_priv := False,
     dread := (\<lambda>_. empty_blk_entry), dwrite := (\<lambda>_. empty_blk_entry),
     tlb_hits := 0, tlb_misses := 0, tlb_flushes := 0, dread_hits := 0, dread_misses := 0,
     dwrite_hits := 0, dwrite_misses := 0,
     abort_pending := False, abort_fsr := 0, abort_far := 0, irq_line := False,
     fiq_line := False, excl_valid := False, excl_addr := 0, vfp_fpexc := 0, vfp_fpscr := 0,
     vfp_s := (\<lambda>_. 0),
     cpsr := ARM_MODE_SVC OR ARM_CPSR_I OR ARM_CPSR_F OR ARM_CPSR_A, cycles := 0\<rparr>"

text \<open>
  Installing the host hook: the handler argument bundles the C's function and its context,
  and a NULL handler removes both.
\<close>

definition arm_bus_set_privileged_svc_handler ::
  "'m arm_bus \<Rightarrow> ('m arm_cpu \<Rightarrow> u32 \<Rightarrow> u32 \<Rightarrow> arm_svc_result \<times> 'm arm_cpu) option
     \<Rightarrow> 'm arm_bus" where
  "arm_bus_set_privileged_svc_handler b handler = b\<lparr>privileged_svc_handler := handler\<rparr>"

end
