(* ===== verification/Harness.thy ===== *)
theory Harness
  imports Cp15
begin

text \<open>
  A concrete machine the witnesses evaluate on: byte-addressed memory with no devices behind
  the bus, the whole of it granted to the block caches as host memory, and a CPU as
  \<open>arm_reset\<close> leaves it. The memory is the platform state of the bus.
\<close>

unbundle bit_operations_syntax

type_synonym mem = "u32 \<Rightarrow> u8"

definition flat_read16 :: "mem \<Rightarrow> u32 \<Rightarrow> u16" where
  "flat_read16 m a = ucast (m a) OR shl (ucast (m (a + 1))) 8"

definition flat_read32 :: "mem \<Rightarrow> u32 \<Rightarrow> u32" where
  "flat_read32 m a =
     ucast (m a) OR shl (ucast (m (a + 1))) 8 OR shl (ucast (m (a + 2))) 16 OR
     shl (ucast (m (a + 3))) 24"

definition flat_write16 :: "mem \<Rightarrow> u32 \<Rightarrow> u16 \<Rightarrow> mem" where
  "flat_write16 m a v = m(a := ucast v, a + 1 := ucast (shr v 8))"

definition flat_write32 :: "mem \<Rightarrow> u32 \<Rightarrow> u32 \<Rightarrow> mem" where
  "flat_write32 m a v =
     m(a := ucast v, a + 1 := ucast (shr v 8), a + 2 := ucast (shr v 16),
       a + 3 := ucast (shr v 24))"

definition flat_ptrs :: bus_ptrs where
  "flat_ptrs = \<lparr>p_bus = 1, p_ctx = 2, p_host_ram = 3, p_host_ram_write = 4, p_prepare_fetch = 0,
     p_prepare_fetch_ctx = 0, p_read32 = 5, p_read16 = 6, p_read8 = 7, p_write32 = 8,
     p_write16 = 9, p_write8 = 10\<rparr>"

definition flat_bus :: "mem arm_bus" where
  "flat_bus =
     \<lparr>read32 = (\<lambda>m a. (flat_read32 m a, m)), read16 = (\<lambda>m a. (flat_read16 m a, m)),
      read8 = (\<lambda>m a. (m a, m)), write32 = flat_write32, write16 = flat_write16,
      write8 = (\<lambda>m a v. m(a := v)),
      host_ram = Some (\<lambda>m a n. Some (unat a)), host_ram_write = Some (\<lambda>m a n. Some (unat a)),
      wait_for_interrupt = None, privileged_svc_handler = None, prepare_fetch = None,
      load8 = (\<lambda>m p. m (of_nat p)), store8 = (\<lambda>m p v. m(of_nat p := v)),
      bus_ptrs = flat_ptrs\<rparr>"

definition uninit_cpu :: "'m \<Rightarrow> 'm arm_cpu" where
  "uninit_cpu m =
     \<lparr>regs = (\<lambda>_. 0), arch = ARM_ARCH_V6_ARM1176, cpsr = 0, cp15 = zero_cp15, spsr = (\<lambda>_. 0),
      bank_r13 = (\<lambda>_. 0), bank_r14 = (\<lambda>_. 0), fiq_r8_12 = (\<lambda>_. 0), usr_r8_12 = (\<lambda>_. 0),
      cycles = 0, abort_pending = False, abort_fsr = 0, abort_far = 0, irq_line = False,
      fiq_line = False, excl_valid = False, excl_addr = 0, vfp_fpexc = 0, vfp_fpscr = 0,
      vfp_s = (\<lambda>_. 0), tlb = (\<lambda>_. empty_tlb_entry), tlb_gen = 0, fetch_host = None,
      fetch_blk = 0, fetch_gen = 0, fetch_priv = False, dread = (\<lambda>_. empty_blk_entry),
      dwrite = (\<lambda>_. empty_blk_entry),
      tlb_stamp = \<lparr>s_sctlr = 0, s_ttbr0 = 0, s_ttbr1 = 0, s_ttbcr = 0, s_dacr = 0,
                   s_context_id = 0\<rparr>,
      tlb_hits = 0, tlb_misses = 0, tlb_flushes = 0, dread_hits = 0, dread_misses = 0,
      dwrite_hits = 0, dwrite_misses = 0, ctx = m\<rparr>"

definition reset_cpu :: "'m \<Rightarrow> 'm arm_cpu" where
  "reset_cpu m = arm_reset (uninit_cpu m)"

text \<open>
  Translation on, one section descriptor at the first-level index of \<open>0x80000000\<close>: 1 MB at
  \<open>0x00100000\<close>, AP 11, domain 0 as client. The table is at \<open>0x4000\<close>.
\<close>

definition mapped_mem :: mem where
  "mapped_mem = flat_write32 (\<lambda>_. 0) 0x6000 0x00100c02"

definition mapped_cpu :: "mem arm_cpu" where
  "mapped_cpu = (reset_cpu mapped_mem)
     \<lparr>cp15 := zero_cp15\<lparr>sctlr := 0x00800001, ttbr0 := 0x4000, dacr := 1\<rparr>\<rparr>"

text \<open>A VFP unit that refuses every encoding.\<close>

definition no_vfp :: "'m vfp_unit" where
  "no_vfp b c pc insn = (ARM_UNDEFINED, c)"

end
