(* ===== verification/Mmu_Spec.thy ===== *)
theory Mmu_Spec
  imports Mmu Harness
begin

text \<open>
  The abstract translation the walk of core/src/mmu.c implements, and the refinement. A
  descriptor decodes to a mapping (what it maps, its domain, its access rights); a mapping is
  checked in a fixed order; a failed check is a fault with a level and a kind, and only the
  outermost function encodes it as a fault status word. The lemmas about single blocks,
  privilege and domains are proved on the abstract side and carried over.
\<close>

unbundle bit_operations_syntax

section \<open>Mappings and rights\<close>

datatype right = No_Access | Read_Only | Read_Write

fun right_allows :: "right \<Rightarrow> bool \<Rightarrow> bool" where
  "right_allows No_Access wr = False"
| "right_allows Read_Only wr = (\<not> wr)"
| "right_allows Read_Write wr = True"

text \<open>The rights of privileged and of User code under AP, APX and the S and R bits.\<close>

definition ap_rights :: "u32 \<Rightarrow> u32 \<Rightarrow> bool \<Rightarrow> right \<times> right" where
  "ap_rights sc ap apx =
     (if apx then
        (if ap = 0 then (No_Access, No_Access)
         else if ap = 1 then (Read_Only, No_Access)
         else (Read_Only, Read_Only))
      else if ap = 1 then (Read_Write, No_Access)
      else if ap = 2 then (Read_Write, Read_Only)
      else if ap = 0 then
        (case (sc AND ARM_SCTLR_S \<noteq> 0, sc AND ARM_SCTLR_R \<noteq> 0) of
           (False, True) \<Rightarrow> (Read_Only, Read_Only)
         | (True, False) \<Rightarrow> (Read_Only, No_Access)
         | _ \<Rightarrow> (No_Access, No_Access))
      else (Read_Write, Read_Write))"

definition rights_permit :: "right \<times> right \<Rightarrow> bool \<Rightarrow> bool \<Rightarrow> bool" where
  "rights_permit r wr priv = right_allows (if priv then fst r else snd r) wr"

datatype level = Section | Page

datatype fault = Translation | Access_Flag | Domain | Permission

text \<open>\<open>m_mask\<close> are the address bits the mapping does not translate.\<close>

record mapping =
  m_level :: level
  m_domain :: u32
  m_ap :: u32
  m_apx :: bool
  m_xn :: bool
  m_base :: u32
  m_mask :: u32

definition section_mapping :: "bool \<Rightarrow> u32 \<Rightarrow> mapping" where
  "section_mapping xp l1 =
     (let supersection = shr l1 18 AND 1 \<noteq> 0;
          offset = (if supersection then 0x00ffffff else 0x000fffff)
      in \<lparr>m_level = Section,
          m_domain = (if supersection then 0 else shr l1 5 AND 0xf),
          m_ap = shr l1 10 AND 3,
          m_apx = (xp \<and> shr l1 15 AND 1 \<noteq> 0),
          m_xn = (shr l1 4 AND 1 \<noteq> 0),
          m_base = l1 AND NOT offset, m_mask = offset\<rparr>)"

definition page_mapping :: "bool \<Rightarrow> u32 \<Rightarrow> u32 \<Rightarrow> u32 \<Rightarrow> mapping" where
  "page_mapping xp va domain l2 =
     (let large = (l2 AND 3 = 1);
          offset = (if large then 0x0000ffff else 0x00000fff);
          ap_apx = walk_page_ap xp va l2
      in \<lparr>m_level = Page, m_domain = domain, m_ap = fst ap_apx, m_apx = snd ap_apx,
          m_xn = (if large then shr l2 15 AND 1 \<noteq> 0 else l2 AND 1 \<noteq> 0),
          m_base = l2 AND NOT offset, m_mask = offset\<rparr>)"

definition domain_access :: "arm_cp15 \<Rightarrow> u32 \<Rightarrow> u32" where
  "domain_access p d = shr (dacr p) (unat (d * 2)) AND 3"

text \<open>The checks, in order. The second component says whether the status records a write.\<close>

definition check_mapping ::
  "arm_cp15 \<Rightarrow> arm_access \<Rightarrow> bool \<Rightarrow> mapping \<Rightarrow> (fault \<times> bool) option" where
  "check_mapping p acc priv mp =
     (let wr = (acc = ARM_ACCESS_WRITE);
          xp = sctlr p AND ARM_SCTLR_XP \<noteq> 0;
          dac = domain_access p (m_domain mp);
          simple = (xp \<and> sctlr p AND ARM_SCTLR_FA \<noteq> 0 \<and> m_ap mp AND 1 = 0);
          legacy_ro = (\<not> m_apx mp \<and> m_ap mp = 0 \<and>
             (sctlr p AND ARM_SCTLR_S \<noteq> 0) \<noteq> (sctlr p AND ARM_SCTLR_R \<noteq> 0))
      in if simple \<and> \<not> legacy_ro then Some (Access_Flag, wr)
         else if dac \<noteq> 1 \<and> dac \<noteq> 3 then Some (Domain, wr)
         else if dac = 1 \<and> \<not> rights_permit (ap_rights (sctlr p) (m_ap mp) (m_apx mp)) wr priv
         then Some (Permission, wr)
         else if dac = 1 \<and> acc = ARM_ACCESS_FETCH \<and> m_xn mp \<and> xp then Some (Permission, False)
         else None)"

definition fault_status :: "level \<Rightarrow> fault \<Rightarrow> u32" where
  "fault_status l f =
     (case (l, f) of
        (Section, Translation) \<Rightarrow> 0x5 | (Page, Translation) \<Rightarrow> 0x7
      | (Section, Access_Flag) \<Rightarrow> 0x3 | (Page, Access_Flag) \<Rightarrow> 0x6
      | (Section, Domain) \<Rightarrow> 0x9 | (Page, Domain) \<Rightarrow> 0xb
      | (Section, Permission) \<Rightarrow> 0xd | (Page, Permission) \<Rightarrow> 0xf)"

section \<open>The translation\<close>

text \<open>What an address maps to: a translation fault, or a mapping. \<open>rd\<close> reads a descriptor.\<close>

definition spec_lookup ::
  "('m \<Rightarrow> u32 \<Rightarrow> u32 \<times> 'm) \<Rightarrow> arm_cp15 \<Rightarrow> 'm \<Rightarrow> u32 \<Rightarrow> (level \<times> u32 + mapping) \<times> 'm" where
  "spec_lookup rd p m va =
     (let xp = sctlr p AND ARM_SCTLR_XP \<noteq> 0
      in if (if l1_use_ttbr0 p va then ttbcr p AND 0x10 \<noteq> 0 else ttbcr p AND 0x20 \<noteq> 0)
         then (Inl (Section, 0), m)
         else
           let (l1, m1) = rd m (l1_address p va)
           in if l1 AND 3 = 2 then (Inr (section_mapping xp l1), m1)
              else if l1 AND 3 = 1 then
                (let domain = shr l1 5 AND 0xf;
                     (l2, m2) = rd m1 ((l1 AND 0xfffffc00) OR shl (shr va 12 AND 0xff) 2)
                 in if l2 AND 3 = 0 then (Inl (Page, domain), m2)
                    else (Inr (page_mapping xp va domain l2), m2))
              else (Inl (Section, 0), m1))"

datatype verdict = Fault level fault u32 bool | Mapped u32

definition spec_verdict ::
  "arm_cp15 \<Rightarrow> u32 \<Rightarrow> arm_access \<Rightarrow> bool \<Rightarrow> level \<times> u32 + mapping \<Rightarrow> verdict" where
  "spec_verdict p va acc priv r =
     (case r of
        Inl (l, d) \<Rightarrow> Fault l Translation d (acc = ARM_ACCESS_WRITE)
      | Inr mp \<Rightarrow>
          (case check_mapping p acc priv mp of
             Some (f, wr) \<Rightarrow> Fault (m_level mp) f (m_domain mp) wr
           | None \<Rightarrow> Mapped (m_base mp OR (va AND m_mask mp))))"

fun verdict_result :: "verdict \<Rightarrow> u32 \<Rightarrow> u32 \<times> u32" where
  "verdict_result (Fault l f d wr) pa = (fsr_make (fault_status l f) d wr, pa)"
| "verdict_result (Mapped a) pa = (0, a)"

section \<open>Refinement\<close>

lemma and3_cases: "x AND 3 = 0 \<or> x AND 3 = 1 \<or> x AND 3 = 2 \<or> x AND 3 = 3" for x :: u32
proof -
  have "unat (x AND 3) \<le> 3" using word_and_bound [of x 3] by simp
  then have "unat (x AND 3) \<in> {0, 1, 2, 3}" by auto
  then show ?thesis by (auto simp: word_unat_eq_iff)
qed

lemma ap_permits_rights:
  "ap_permits c (ap AND 3) apx wr priv =
     rights_permit (ap_rights (sctlr (cp15 c)) (ap AND 3) apx) wr priv"
  using and3_cases [of ap]
  by (auto simp: ap_permits_def ap_rights_def rights_permit_def Let_def)

lemma domain_access_cases: "domain_access p d \<in> {0, 1, 2, 3}"
  using and3_cases by (auto simp: domain_access_def)

lemma access_flag_faults_alt:
  "access_flag_faults c xp ap apx \<longleftrightarrow>
     (xp \<and> sctlr (cp15 c) AND ARM_SCTLR_FA \<noteq> 0 \<and> ap AND 1 = 0) \<and>
     \<not> (\<not> apx \<and> ap = 0 \<and>
        (sctlr (cp15 c) AND ARM_SCTLR_S \<noteq> 0) \<noteq> (sctlr (cp15 c) AND ARM_SCTLR_R \<noteq> 0))"
  by (auto simp: access_flag_faults_def Let_def)

text \<open>The tail the section and the page arm of the walk have in common.\<close>

lemma check_mapping_code:
  "verdict_result (spec_verdict (cp15 c) va acc priv (Inr mp)) pa =
     (let wr = (acc = ARM_ACCESS_WRITE);
          xp = sctlr (cp15 c) AND ARM_SCTLR_XP \<noteq> 0;
          dac = domain_access (cp15 c) (m_domain mp)
      in if access_flag_faults c xp (m_ap mp) (m_apx mp)
         then (fsr_make (fault_status (m_level mp) Access_Flag) (m_domain mp) wr, pa)
         else if dac = 0 \<or> dac = 2
         then (fsr_make (fault_status (m_level mp) Domain) (m_domain mp) wr, pa)
         else if dac \<noteq> 3 \<and> \<not> ap_permits c (m_ap mp) (m_apx mp) wr priv
         then (fsr_make (fault_status (m_level mp) Permission) (m_domain mp) wr, pa)
         else if xn_forbids_fetch c acc dac (m_xn mp)
         then (fsr_make (fault_status (m_level mp) Permission) (m_domain mp) False, pa)
         else (0, m_base mp OR (va AND m_mask mp)))"
  if "m_ap mp AND 3 = m_ap mp"
proof -
  have ap: "ap_permits c (m_ap mp) (m_apx mp) wr priv =
      rights_permit (ap_rights (sctlr (cp15 c)) (m_ap mp) (m_apx mp)) wr priv" for wr
    using ap_permits_rights [of c "m_ap mp"] that by simp
  show ?thesis
    using domain_access_cases [of "cp15 c" "m_domain mp"]
    by (auto simp: spec_verdict_def check_mapping_def access_flag_faults_alt ap Let_def
        xn_forbids_fetch_def)
qed

lemma walk_section_spec:
  "walk_section c va acc priv pa l1 =
     verdict_result (spec_verdict (cp15 c) va acc priv
       (Inr (section_mapping (sctlr (cp15 c) AND ARM_SCTLR_XP \<noteq> 0) l1))) pa"
proof -
  have masks: "- 0x1000000 = (0xff000000 :: u32)" "- 0x100000 = (0xfff00000 :: u32)"
    by simp_all
  show ?thesis
    by (subst check_mapping_code)
      (simp_all add: walk_section_def section_mapping_def Let_def domain_access_def
        fault_status_def masks)
qed

lemma walk_page_ap_bound: "fst (walk_page_ap xp va l2) AND 3 = fst (walk_page_ap xp va l2)"
  by (simp add: walk_page_ap_def Let_def)

lemma walk_page_spec:
  assumes "l2 AND 3 \<noteq> 0"
  shows "walk_page c va acc priv pa d l2 =
     verdict_result (spec_verdict (cp15 c) va acc priv
       (Inr (page_mapping (sctlr (cp15 c) AND ARM_SCTLR_XP \<noteq> 0) va d l2))) pa"
proof -
  have masks: "- 0x10000 = (0xffff0000 :: u32)" "- 0x1000 = (0xfffff000 :: u32)"
    by simp_all
  show ?thesis
    using assms
    by (subst check_mapping_code; cases "l2 AND 3 = 1")
      (simp_all add: page_mapping_def Let_def walk_page_ap_bound walk_page_def domain_access_def
        fault_status_def masks split_beta)
qed

lemma walk_refinement:
  assumes "sctlr (cp15 c) AND ARM_SCTLR_M \<noteq> 0"
  shows "mmu_walk b c va acc priv pa None =
    (let (r, m) = spec_lookup (read32 b) (cp15 c) (ctx c) va;
         (fsr, pa') = verdict_result (spec_verdict (cp15 c) va acc priv r) pa
     in (fsr, pa', c\<lparr>ctx := m\<rparr>))"
proof -
  have pd: "ttbcr (cp15 c) AND shl 1 (if l1_use_ttbr0 (cp15 c) va then 4 else 5) \<noteq> 0 \<longleftrightarrow>
      (if l1_use_ttbr0 (cp15 c) va then ttbcr (cp15 c) AND 0x10 \<noteq> 0
       else ttbcr (cp15 c) AND 0x20 \<noteq> 0)"
    by simp
  obtain l1 m1 where r1: "read32 b (ctx c) (l1_address (cp15 c) va) = (l1, m1)" by force
  obtain l2 m2 where r2: "read32 b m1 ((l1 AND 0xfffffc00) OR shl (shr va 12 AND 0xff) 2) = (l2, m2)"
    by force
  note r2 = r2 [simplified]
  let ?pd = "if l1_use_ttbr0 (cp15 c) va then ttbcr (cp15 c) AND 0x10 \<noteq> 0
       else ttbcr (cp15 c) AND 0x20 \<noteq> 0"
  have tr: "verdict_result (spec_verdict p va acc priv (Inl (l, d))) pa =
      (fsr_make (fault_status l Translation) d (acc = ARM_ACCESS_WRITE), pa)" for p l d
    by (simp add: spec_verdict_def)
  show ?thesis
  proof (cases ?pd)
    case True
    then show ?thesis
      using assms unfolding mmu_walk_def pd Let_def
      by (simp add: spec_lookup_def tr fault_status_def)
  next
    case False
    have pg0: "l2 AND 3 = 0 \<Longrightarrow> walk_page c' va acc priv pa d l2 =
        (fsr_make (fault_status Page Translation) d (acc = ARM_ACCESS_WRITE), pa)" for c' :: "'a arm_cpu" and d
      by (simp add: walk_page_def fault_status_def)
    consider "l1 AND 3 = 0 \<or> l1 AND 3 = 3" | "l1 AND 3 = 2" | "l1 AND 3 = 1" "l2 AND 3 = 0"
      | "l1 AND 3 = 1" "l2 AND 3 \<noteq> 0" using and3_cases [of l1] by blast
    then show ?thesis
    proof cases
      case 1
      then show ?thesis
        using assms False unfolding mmu_walk_def pd
        by (auto simp: Let_def spec_lookup_def tr r1 mmu_descriptor_def fault_status_def)
    next
      case 2
      then show ?thesis
        using assms False unfolding mmu_walk_def pd
        by (simp add: Let_def spec_lookup_def r1 mmu_descriptor_def walk_section_spec)
    next
      case 3
      then show ?thesis
        using assms False unfolding mmu_walk_def pd
        by (simp add: Let_def spec_lookup_def r1 r2 mmu_descriptor_def pg0 tr)
    next
      case 4
      then show ?thesis
        using assms False unfolding mmu_walk_def pd
        by (simp add: Let_def spec_lookup_def r1 r2 mmu_descriptor_def walk_page_spec)
    qed
  qed
qed

text \<open>
  C2: The hardware page-table walk implements the ARMv6 translation tables: with translation off
  it is the identity, with translation on it reads the descriptors the abstract lookup reads,
  in the same order, and returns its verdict as a fault status (translation, access flag,
  domain, permission, in that priority) or the physical address of the mapping.
\<close>

theorem mmu_walk_refines:
  "mmu_walk b c va acc priv pa None =
    (if sctlr (cp15 c) AND ARM_SCTLR_M = 0 then (0, va, c)
     else
       let (r, m) = spec_lookup (read32 b) (cp15 c) (ctx c) va;
           (fsr, pa') = verdict_result (spec_verdict (cp15 c) va acc priv r) pa
       in (fsr, pa', c\<lparr>ctx := m\<rparr>))"
  using walk_refinement [of c b va acc priv pa] by (simp add: mmu_walk_def)

end
