(* ===== verification/Mmu_Tlb.thy ===== *)
theory Mmu_Tlb
  imports Mmu_Spec
begin

text \<open>
  The software TLB in front of the walk (\<open>arm_mmu_translate\<close>, \<open>arm_mmu_tlb_flush\<close>). A walk
  gives one answer per 1 KB block, the tag names the block, the access and the privilege
  exactly, and so an entry of the current generation answers for the walk it was filled by.
  \<open>tlb_coherent\<close> is that invariant; a translation keeps it and returns what the walk returns, and
  a flush establishes it whatever was written to memory before.
\<close>

unbundle bit_operations_syntax

section \<open>One answer per block\<close>

definition same_block :: "u32 \<Rightarrow> u32 \<Rightarrow> bool" where
  "same_block va va' \<longleftrightarrow> shr va 10 = shr va' 10"

lemma same_block_drop: "same_block va va' \<Longrightarrow> 10 \<le> k \<Longrightarrow> shr va k = shr va' k"
proof -
  assume b: "same_block va va'" and k: "10 \<le> k"
  have "shr w k = shr (shr w 10) (k - 10)" for w :: u32
    using k by (simp add: drop_bit_drop_bit)
  then show ?thesis using b unfolding same_block_def by metis
qed

lemma same_block_bit: "same_block va va' \<Longrightarrow> 10 \<le> k \<Longrightarrow> bit va k = bit va' k"
proof -
  assume "same_block va va'" "10 \<le> k"
  then have "bit (shr va k) 0 = bit (shr va' k) 0" by (simp only: same_block_drop)
  then show ?thesis by (simp add: bit_drop_bit_eq)
qed

lemma same_block_lookup: "same_block va va' \<Longrightarrow> spec_lookup rd p m va = spec_lookup rd p m va'"
proof -
  assume b: "same_block va va'"
  have drops: "shr va 12 = shr va' 12" "shr va 14 = shr va' 14" "shr va 20 = shr va' 20"
    "shr va 10 = shr va' 10"
    using same_block_drop [OF b] by simp_all
  have n: "unat (ttbcr p AND 7) \<le> 7" using word_and_bound [of "ttbcr p" 7] by simp
  have t: "l1_use_ttbr0 p va = l1_use_ttbr0 p va'"
    using same_block_drop [OF b, of "32 - unat (ttbcr p AND 7)"] n
    by (simp add: l1_use_ttbr0_def Let_def)
  then have "l1_address p va = l1_address p va'"
    by (simp add: l1_address_def drops Let_def)
  moreover have "page_mapping xp va d l2 = page_mapping xp va' d l2" for xp d l2
    by (simp add: page_mapping_def walk_page_ap_def drops Let_def)
  ultimately show ?thesis by (simp only: spec_lookup_def t drops)
qed

definition block_mask :: u32 where "block_mask = 0x3ff"

lemma bit_block_mask: "bit block_mask k \<longleftrightarrow> k < 10"
proof -
  have e: "block_mask = mask 10" by (simp add: block_mask_def mask_eq_exp_minus_1)
  show ?thesis unfolding e bit_mask_iff by auto
qed

text \<open>A mapping translates only address bits above the block.\<close>

definition covers_block :: "mapping \<Rightarrow> bool" where
  "covers_block mp \<longleftrightarrow> (\<exists>n\<ge>10. m_mask mp = mask n \<and> m_base mp AND m_mask mp = 0)"

lemma covers_block_bits:
  assumes "covers_block mp"
  shows "k < 10 \<Longrightarrow> bit (m_mask mp) k" and "bit (m_mask mp) k \<Longrightarrow> \<not> bit (m_base mp) k"
proof -
  obtain n where n: "10 \<le> n" "m_mask mp = mask n" "m_base mp AND m_mask mp = 0"
    using assms by (auto simp: covers_block_def)
  show "k < 10 \<Longrightarrow> bit (m_mask mp) k"
    using n by (simp add: bit_mask_iff)
  have "\<not> bit (m_base mp AND m_mask mp) k"
    unfolding n(3) by simp
  then show "bit (m_mask mp) k \<Longrightarrow> \<not> bit (m_base mp) k"
    by (simp add: bit_and_iff)
qed

lemma section_covers: "covers_block (section_mapping xp w)"
proof (cases "shr w 18 AND 1 \<noteq> 0")
  case True
  then show ?thesis
    by (auto simp: covers_block_def section_mapping_def Let_def and.assoc mask_eq_exp_minus_1
        intro!: exI [of _ 24])
next
  case False
  then show ?thesis
    by (auto simp: covers_block_def section_mapping_def Let_def and.assoc mask_eq_exp_minus_1
        intro!: exI [of _ 20])
qed

lemma page_covers: "covers_block (page_mapping xp va d w)"
proof (cases "w AND 3 = 1")
  case True
  then show ?thesis
    by (auto simp: covers_block_def page_mapping_def Let_def and.assoc mask_eq_exp_minus_1
        intro!: exI [of _ 16])
next
  case False
  then show ?thesis
    by (auto simp: covers_block_def page_mapping_def Let_def and.assoc mask_eq_exp_minus_1
        intro!: exI [of _ 12])
qed

lemma lookup_covers:
  assumes "spec_lookup rd p m va = (Inr mp, m')"
  shows "covers_block mp"
  using assms section_covers page_covers
  by (auto simp: spec_lookup_def Let_def split: if_splits prod.splits)

text \<open>Two addresses of a block: the same fault, or the same target block.\<close>

definition block_of :: "u32 \<Rightarrow> u32" where "block_of a = a AND NOT block_mask"

lemma block_of_or:
  assumes "covers_block mp" and "same_block va va'"
  shows "block_of (m_base mp OR (va AND m_mask mp)) = block_of (m_base mp OR (va' AND m_mask mp))"
    and "(m_base mp OR (va AND m_mask mp)) AND block_mask = va AND block_mask"
proof -
  have "bit va k = bit va' k" if "\<not> k < 10" for k
    using same_block_bit [OF assms(2)] that by simp
  then show "block_of (m_base mp OR (va AND m_mask mp)) = block_of (m_base mp OR (va' AND m_mask mp))"
    by (intro bit_word_eqI) (auto simp: block_of_def bit_simps bit_block_mask)
  show "(m_base mp OR (va AND m_mask mp)) AND block_mask = va AND block_mask"
    using assms(1) by (intro bit_word_eqI) (auto simp: bit_simps bit_block_mask dest: covers_block_bits)
qed

lemma block_split: "block_of a OR (a AND block_mask) = a"
  by (rule bit_word_eqI) (auto simp: block_of_def bit_simps)

section \<open>What the walk answers\<close>

text \<open>Fault status and target address of a walk that reads through the bus.\<close>

definition walk_fsr :: "'m arm_bus \<Rightarrow> 'm arm_cpu \<Rightarrow> u32 \<Rightarrow> arm_access \<Rightarrow> bool \<Rightarrow> u32" where
  "walk_fsr b c va acc priv = fst (mmu_walk b c va acc priv 0 None)"

definition walk_pa :: "'m arm_bus \<Rightarrow> 'm arm_cpu \<Rightarrow> u32 \<Rightarrow> arm_access \<Rightarrow> bool \<Rightarrow> u32" where
  "walk_pa b c va acc priv = fst (snd (mmu_walk b c va acc priv 0 None))"

definition walk_ctx :: "'m arm_bus \<Rightarrow> 'm arm_cpu \<Rightarrow> u32 \<Rightarrow> 'm" where
  "walk_ctx b c va = snd (spec_lookup (read32 b) (cp15 c) (ctx c) va)"

definition mmu_on :: "'m arm_cpu \<Rightarrow> bool" where
  "mmu_on c \<longleftrightarrow> sctlr (cp15 c) AND ARM_SCTLR_M \<noteq> 0"

lemma fsr_make_nonzero: "fsr_make (fault_status l f) d wr \<noteq> 0"
proof -
  have "fault_status l f AND 0xf \<noteq> 0"
    by (cases l; cases f) (simp_all add: fault_status_def)
  then obtain k where k: "bit (fault_status l f AND 0xf) k"
    by (auto simp: word_nonzero_bit)
  then have "bit (fsr_make (fault_status l f) d wr) k"
    unfolding fsr_make_def bit_or_iff by blast
  then show ?thesis by (auto simp: word_nonzero_bit)
qed

lemma walk_alt:
  assumes "mmu_on c"
  shows "mmu_walk b c va acc priv pa None =
    (walk_fsr b c va acc priv,
     if walk_fsr b c va acc priv = 0 then walk_pa b c va acc priv else pa,
     c\<lparr>ctx := walk_ctx b c va\<rparr>)"
proof -
  obtain r m where r: "spec_lookup (read32 b) (cp15 c) (ctx c) va = (r, m)" by force
  note w = walk_refinement [OF assms [unfolded mmu_on_def]]
  show ?thesis
    by (cases "spec_verdict (cp15 c) va acc priv r")
      (simp_all add: walk_fsr_def walk_pa_def walk_ctx_def w r fsr_make_nonzero)
qed

lemma walk_cong:
  assumes "cp15 c' = cp15 c" and "ctx c' = ctx c"
  shows "walk_fsr b c' = walk_fsr b c" "walk_pa b c' = walk_pa b c" "walk_ctx b c' = walk_ctx b c"
proof -
  have "fst (mmu_walk b c' va acc priv 0 None) = fst (mmu_walk b c va acc priv 0 None) \<and>
    fst (snd (mmu_walk b c' va acc priv 0 None)) = fst (snd (mmu_walk b c va acc priv 0 None))"
    for va acc priv
  proof (cases "mmu_on c")
    case True
    then have "mmu_on c'" by (simp add: mmu_on_def assms)
    then show ?thesis
      using True unfolding mmu_on_def
      by (simp add: walk_refinement split_beta Let_def assms)
  next
    case False
    then have "\<not> mmu_on c'" by (simp add: mmu_on_def assms)
    then show ?thesis
      using False by (simp add: mmu_on_def mmu_walk_def Let_def)
  qed
  then show "walk_fsr b c' = walk_fsr b c" "walk_pa b c' = walk_pa b c"
    by (simp_all add: walk_fsr_def walk_pa_def fun_eq_iff)
  show "walk_ctx b c' = walk_ctx b c"
    by (simp add: walk_ctx_def fun_eq_iff assms)
qed

lemma walk_same_block:
  assumes "mmu_on c" and b: "same_block va va'"
  shows "walk_fsr b c va acc priv = walk_fsr b c va' acc priv"
    and "walk_fsr b c va acc priv = 0 \<Longrightarrow>
      block_of (walk_pa b c va acc priv) = block_of (walk_pa b c va' acc priv)"
    and "walk_fsr b c va acc priv = 0 \<Longrightarrow>
      walk_pa b c va acc priv AND block_mask = va AND block_mask"
proof -
  obtain r m where r: "spec_lookup (read32 b) (cp15 c) (ctx c) va = (r, m)" by force
  then have r': "spec_lookup (read32 b) (cp15 c) (ctx c) va' = (r, m)"
    using same_block_lookup [OF b, of "read32 b" "cp15 c" "ctx c"] by simp
  note w = walk_refinement [OF assms(1) [unfolded mmu_on_def]]
  note defs = walk_fsr_def walk_pa_def w r r'
  have cases: "walk_fsr b c va acc priv = walk_fsr b c va' acc priv \<and>
    (walk_fsr b c va acc priv = 0 \<longrightarrow>
      block_of (walk_pa b c va acc priv) = block_of (walk_pa b c va' acc priv) \<and>
      walk_pa b c va acc priv AND block_mask = va AND block_mask)"
  proof (cases r)
    case (Inl f)
    then show ?thesis
      by (cases f) (simp add: defs spec_verdict_def fsr_make_nonzero)
  next
    case (Inr mp)
    then have cov: "covers_block mp" using lookup_covers r by metis
    show ?thesis
      using block_of_or [OF cov b]
      by (cases "check_mapping (cp15 c) acc priv mp")
        (auto simp: Inr defs spec_verdict_def fsr_make_nonzero)
  qed
  then show "walk_fsr b c va acc priv = walk_fsr b c va' acc priv"
    "walk_fsr b c va acc priv = 0 \<Longrightarrow>
      block_of (walk_pa b c va acc priv) = block_of (walk_pa b c va' acc priv)"
    "walk_fsr b c va acc priv = 0 \<Longrightarrow>
      walk_pa b c va acc priv AND block_mask = va AND block_mask" by simp_all
qed

section \<open>Tags\<close>

lemma tag_fields:
  "shr (mmu_tlb_tag va acc priv) 3 = shr va 10"
  "bit (mmu_tlb_tag va acc priv) 0 = priv"
  "shr (mmu_tlb_tag va acc priv) 1 AND 3 = access_num acc"
proof -
  have n: "access_num acc = 0 \<or> access_num acc = 1 \<or> access_num acc = 2" by (cases acc) auto
  have hi: "bit va (k + 10) \<Longrightarrow> k < 22" for k
    using bit_imp_le_length [of va "k + 10"] by simp
  have three: "bit (3 :: u32) k \<longleftrightarrow> k < 2" for k
  proof -
    have e: "(3 :: u32) = mask 2" by (simp add: mask_eq_exp_minus_1)
    show ?thesis unfolding e bit_mask_iff by auto
  qed
  have one: "bit (1 :: u32) k \<longleftrightarrow> k = 0" for k by (auto simp: bit_1_iff)
  have two: "bit (2 :: u32) k \<longleftrightarrow> k = 1" for k
  proof -
    have "bit (2 ^ 1 :: u32) k \<longleftrightarrow> k = 1" unfolding bit_exp_iff by auto
    then show ?thesis by (simp only: power_one_right)
  qed
  have an: "bit (access_num acc) k \<Longrightarrow> k < 2" for k
    using n by (auto simp: one two simp del: bit_numeral_word_iff)
  have t: "bit (mmu_tlb_tag va acc priv) k \<longleftrightarrow>
      3 \<le> k \<and> k < 32 \<and> bit va (k + 7) \<or> 1 \<le> k \<and> k < 32 \<and> bit (access_num acc) (k - 1) \<or>
      k = 0 \<and> priv" for k
    unfolding mmu_tlb_tag_def bit_or_iff bit_push_bit_iff bit_drop_bit_eq
    by (auto simp: one add.commute)
  show "shr (mmu_tlb_tag va acc priv) 3 = shr va 10"
  proof (rule bit_word_eqI)
    fix k assume "k < LENGTH(32)"
    have "\<not> bit (access_num acc) (k + 2)" using an [of "k + 2"] by linarith
    then show "bit (shr (mmu_tlb_tag va acc priv) 3) k = bit (shr va 10) k"
      using hi [of k] by (auto simp: bit_drop_bit_eq t ac_simps)
  qed
  show "bit (mmu_tlb_tag va acc priv) 0 = priv" by (simp add: t)
  show "shr (mmu_tlb_tag va acc priv) 1 AND 3 = access_num acc"
  proof (rule bit_word_eqI)
    fix k assume "k < LENGTH(32)"
    show "bit (shr (mmu_tlb_tag va acc priv) 1 AND 3) k = bit (access_num acc) k"
      unfolding bit_and_iff bit_drop_bit_eq comp_def t three using an [of k] by auto
  qed
qed

lemma tag_inj:
  "mmu_tlb_tag va acc priv = mmu_tlb_tag va' acc' priv' \<longleftrightarrow>
   same_block va va' \<and> acc = acc' \<and> priv = priv'"
proof
  assume t: "mmu_tlb_tag va acc priv = mmu_tlb_tag va' acc' priv'"
  have "access_num acc = access_num acc'" by (metis t tag_fields(3))
  then have "acc = acc'" by (cases acc; cases acc') simp_all
  then show "same_block va va' \<and> acc = acc' \<and> priv = priv'"
    using tag_fields t by (metis same_block_def)
next
  assume "same_block va va' \<and> acc = acc' \<and> priv = priv'"
  then show "mmu_tlb_tag va acc priv = mmu_tlb_tag va' acc' priv'"
    by (simp add: mmu_tlb_tag_def same_block_def)
qed

section \<open>Coherence\<close>

text \<open>An entry answers for every request its tag names as the walk does now.\<close>

definition tlb_entry_ok :: "'m arm_bus \<Rightarrow> 'm arm_cpu \<Rightarrow> tlb_entry \<Rightarrow> bool" where
  "tlb_entry_ok b c e \<longleftrightarrow>
     (\<forall>va acc priv. e_tag e = mmu_tlb_tag va acc priv \<longrightarrow>
        e_fsr e = walk_fsr b c va acc priv \<and>
        (e_fsr e = 0 \<longrightarrow> e_pa e = block_of (walk_pa b c va acc priv)))"

definition gens_bounded :: "'m arm_cpu \<Rightarrow> bool" where
  "gens_bounded c \<longleftrightarrow>
     (\<forall>i. e_gen (tlb c i) \<le> tlb_gen c \<and> d_gen (dread c i) \<le> tlb_gen c \<and>
          d_gen (dwrite c i) \<le> tlb_gen c)"

definition tlb_coherent :: "'m arm_bus \<Rightarrow> 'm arm_cpu \<Rightarrow> bool" where
  "tlb_coherent b c \<longleftrightarrow> tlb_gen c \<noteq> 0 \<and> gens_bounded c \<and>
     (mmu_stamp_matches c \<longrightarrow>
        (\<forall>i. e_gen (tlb c i) = tlb_gen c \<longrightarrow> tlb_entry_ok b c (tlb c i)))"

definition nothing_cached :: "'m arm_cpu \<Rightarrow> bool" where
  "nothing_cached c \<longleftrightarrow>
     (\<forall>i. e_gen (tlb c i) \<noteq> tlb_gen c \<and>
          (d_host (dread c i) = None \<or> d_gen (dread c i) \<noteq> tlb_gen c) \<and>
          (d_host (dwrite c i) = None \<or> d_gen (dwrite c i) \<noteq> tlb_gen c)) \<and> fetch_host c = None"

lemma word_le_plus_one: "w \<le> g \<Longrightarrow> g + 1 \<noteq> 0 \<Longrightarrow> w \<le> g + 1 \<and> w \<noteq> g + 1" for w g :: u32
  using unatSuc [of g] by (auto simp: word_le_nat_alt add.commute)

lemma flush_frame [simp]:
  "cp15 (arm_mmu_tlb_flush c) = cp15 c" "ctx (arm_mmu_tlb_flush c) = ctx c"
  "tlb_stamp (arm_mmu_tlb_flush c) = tlb_stamp c" "regs (arm_mmu_tlb_flush c) = regs c"
  "cpsr (arm_mmu_tlb_flush c) = cpsr c" "spsr (arm_mmu_tlb_flush c) = spsr c"
  "abort_pending (arm_mmu_tlb_flush c) = abort_pending c" "cycles (arm_mmu_tlb_flush c) = cycles c"
  by (simp_all add: arm_mmu_tlb_flush_def Let_def)

lemma flush_gens:
  assumes "gens_bounded c"
  shows "gens_bounded (arm_mmu_tlb_flush c)" "nothing_cached (arm_mmu_tlb_flush c)"
    "tlb_gen (arm_mmu_tlb_flush c) \<noteq> 0"
proof -
  have "gens_bounded (arm_mmu_tlb_flush c) \<and> nothing_cached (arm_mmu_tlb_flush c) \<and>
    tlb_gen (arm_mmu_tlb_flush c) \<noteq> 0"
  proof (cases "tlb_gen c + 1 = 0")
    case True
    then show ?thesis
      by (simp add: arm_mmu_tlb_flush_def gens_bounded_def nothing_cached_def
          empty_tlb_entry_def empty_blk_entry_def)
  next
    case False
    have "w \<le> tlb_gen c + 1 \<and> w \<noteq> tlb_gen c + 1" if "w \<le> tlb_gen c" for w
      using word_le_plus_one [OF that False] .
    then show ?thesis
      using assms False by (simp add: arm_mmu_tlb_flush_def gens_bounded_def nothing_cached_def)
  qed
  then show "gens_bounded (arm_mmu_tlb_flush c)" "nothing_cached (arm_mmu_tlb_flush c)"
    "tlb_gen (arm_mmu_tlb_flush c) \<noteq> 0" by simp_all
qed

lemma flush_coherent: "gens_bounded c \<Longrightarrow> tlb_coherent b (arm_mmu_tlb_flush c)"
  using flush_gens [of c] by (simp add: tlb_coherent_def nothing_cached_def)

lemma prepare_coherent:
  assumes "tlb_coherent b c"
  shows "tlb_coherent b (tlb_prepare c)" "mmu_stamp_matches (tlb_prepare c)"
    "cp15 (tlb_prepare c) = cp15 c" "ctx (tlb_prepare c) = ctx c"
proof -
  have g: "tlb_gen c \<noteq> 0" "gens_bounded c" using assms by (simp_all add: tlb_coherent_def)
  show "cp15 (tlb_prepare c) = cp15 c" "ctx (tlb_prepare c) = ctx c"
    using g by (simp_all add: tlb_prepare_def Let_def)
  show "mmu_stamp_matches (tlb_prepare c)"
    using g by (simp add: tlb_prepare_def Let_def mmu_stamp_matches_def take_stamp_def)
  show "tlb_coherent b (tlb_prepare c)"
  proof (cases "mmu_stamp_matches c")
    case True
    then show ?thesis using assms g by (simp add: tlb_prepare_def)
  next
    case False
    then show ?thesis
      using g flush_gens [OF g(2)]
      by (simp add: tlb_prepare_def tlb_coherent_def gens_bounded_def nothing_cached_def)
  qed
qed

text \<open>The state the C returns from a miss, and the walk it made.\<close>

lemma translate_hit:
  assumes "mmu_on c" and "e = tlb (tlb_prepare c) (mmu_tlb_slot va acc)"
    and "e_gen e = tlb_gen (tlb_prepare c)" and "e_tag e = mmu_tlb_tag va acc priv"
  shows "arm_mmu_translate b c va acc priv pa =
    (e_fsr e, if e_fsr e = 0 then e_pa e OR (va AND block_mask) else pa,
     (tlb_prepare c)\<lparr>tlb_hits := tlb_hits (tlb_prepare c) + 1\<rparr>)"
  using assms by (simp add: arm_mmu_translate_def mmu_on_def Let_def block_mask_def)

lemma translate_miss:
  assumes on: "mmu_on c" and e: "e = tlb (tlb_prepare c) (mmu_tlb_slot va acc)"
    and miss: "\<not> (e_gen e = tlb_gen (tlb_prepare c) \<and> e_tag e = mmu_tlb_tag va acc priv)"
    and same: "cp15 (tlb_prepare c) = cp15 c" "ctx (tlb_prepare c) = ctx c"
  shows "\<exists>m. arm_mmu_translate b c va acc priv pa =
    (walk_fsr b c va acc priv,
     if walk_fsr b c va acc priv = 0 then walk_pa b c va acc priv else pa,
     (tlb_prepare c)\<lparr>tlb_misses := tlb_misses (tlb_prepare c) + 1, ctx := m,
       tlb := (tlb (tlb_prepare c))(mmu_tlb_slot va acc :=
         \<lparr>e_gen = tlb_gen (tlb_prepare c), e_tag = mmu_tlb_tag va acc priv,
          e_pa = (if walk_fsr b c va acc priv = 0 then block_of (walk_pa b c va acc priv) else 0),
          e_fsr = walk_fsr b c va acc priv\<rparr>)\<rparr>)"
proof -
  let ?c2 = "(tlb_prepare c)\<lparr>tlb_misses := tlb_misses (tlb_prepare c) + 1\<rparr>"
  have on2: "mmu_on ?c2" using on same by (simp add: mmu_on_def)
  have w: "walk_fsr b ?c2 = walk_fsr b c" "walk_pa b ?c2 = walk_pa b c"
    using walk_cong [of ?c2 c] same by simp_all
  have sc: "(sctlr (cp15 c) AND ARM_SCTLR_M = 0) = False" using on by (simp add: mmu_on_def)
  have m: "(e_gen (tlb (tlb_prepare c) (mmu_tlb_slot va acc)) = tlb_gen (tlb_prepare c) \<and>
      e_tag (tlb (tlb_prepare c) (mmu_tlb_slot va acc)) = mmu_tlb_tag va acc priv) = False"
    using miss e by blast
  note defs = arm_mmu_translate_def Let_def sc m if_False walk_alt [OF on2] w split_conv
    block_of_def block_mask_def
  show ?thesis
  proof (cases "prepare_fetch b")
    case None
    show ?thesis
      unfolding defs None option.case by (rule exI [of _ "walk_ctx b ?c2 va"]) simp
  next
    case (Some pf)
    show ?thesis
    proof (cases "walk_fsr b c va acc priv = 0 \<and> acc = ARM_ACCESS_FETCH")
      case True
      then have f: "acc = ARM_ACCESS_FETCH" "walk_fsr b c va ARM_ACCESS_FETCH priv = 0" by auto
      show ?thesis
        unfolding defs Some option.case
        by (rule exI [of _ "pf (walk_ctx b ?c2 va) va (walk_pa b c va acc priv) priv"])
          (simp add: f)
    next
      case False
      then have f: "(walk_fsr b c va acc priv = 0 \<and> acc = ARM_ACCESS_FETCH) = False" by simp
      show ?thesis
        unfolding defs Some option.case f if_False
        by (rule exI [of _ "walk_ctx b ?c2 va"]) simp
    qed
  qed
qed

lemma walk_pa_split:
  assumes "mmu_on c" and "walk_fsr b c va acc priv = 0"
  shows "block_of (walk_pa b c va acc priv) OR (va AND block_mask) = walk_pa b c va acc priv"
  using walk_same_block(3) [OF assms(1) _ assms(2), of va] block_split
  by (metis same_block_def)

lemma entry_ok_cong:
  "cp15 c' = cp15 c \<Longrightarrow> ctx c' = ctx c \<Longrightarrow> tlb_entry_ok b c' e = tlb_entry_ok b c e"
  by (simp add: tlb_entry_ok_def walk_cong [of c' c])

lemma filled_entry_ok:
  assumes "mmu_on c"
  shows "tlb_entry_ok b c \<lparr>e_gen = g, e_tag = mmu_tlb_tag va acc priv,
          e_pa = (if walk_fsr b c va acc priv = 0 then block_of (walk_pa b c va acc priv) else 0),
          e_fsr = walk_fsr b c va acc priv\<rparr>"
  using walk_same_block [OF assms, of va _ b acc priv]
  by (auto simp: tlb_entry_ok_def tag_inj)

text \<open>The harness CPU: coherent after reset, and its bus has no side effects.\<close>

lemma mapped_on: "mmu_on mapped_cpu"
  unfolding mmu_on_def by code_simp

lemma mapped_coherent: "tlb_coherent flat_bus mapped_cpu"
  by (simp add: tlb_coherent_def gens_bounded_def mapped_cpu_def reset_cpu_def arm_reset_def
      empty_tlb_entry_def empty_blk_entry_def)

lemma flat_descriptor: "mmu_descriptor flat_bus c None a = Some (flat_read32 (ctx c) a, c)"
  by (simp add: mmu_descriptor_def flat_bus_def)

lemma flat_walk_ctx: "ctx (snd (snd (mmu_walk flat_bus c va acc priv pa None))) = ctx c"
  by (simp add: mmu_walk_def Let_def flat_descriptor split_beta)

lemma flat_translate_ctx:
  "ctx (snd (snd (arm_mmu_translate flat_bus c va acc priv pa))) = ctx c"
proof -
  have pf: "prepare_fetch flat_bus = None" by (simp add: flat_bus_def)
  have p: "ctx (tlb_prepare c) = ctx c" by (simp add: tlb_prepare_def Let_def)
  show ?thesis
    unfolding arm_mmu_translate_def Let_def pf split_beta option.case
    by (simp add: p flat_walk_ctx)
qed

lemma translate_keeps_coherence:
  assumes coh: "tlb_coherent b c" and on: "mmu_on c"
    and res: "arm_mmu_translate b c va acc priv pa = (fsr, pa', c')"
    and quiet: "ctx c' = ctx c"
  shows "fsr = walk_fsr b c va acc priv \<and>
    pa' = (if fsr = 0 then walk_pa b c va acc priv else pa) \<and>
    cp15 c' = cp15 c \<and> tlb_coherent b c'"
proof -
  let ?p = "tlb_prepare c"
  let ?e = "tlb ?p (mmu_tlb_slot va acc)"
  note p = prepare_coherent [OF coh]
  show ?thesis
  proof (cases "e_gen ?e = tlb_gen ?p \<and> e_tag ?e = mmu_tlb_tag va acc priv")
    case True
    have "tlb_entry_ok b c ?e"
      using p True entry_ok_cong [of ?p c] by (simp add: tlb_coherent_def)
    then have ok: "e_fsr ?e = walk_fsr b c va acc priv"
      "e_fsr ?e = 0 \<Longrightarrow> e_pa ?e = block_of (walk_pa b c va acc priv)"
      using True by (auto simp: tlb_entry_ok_def)
    have c': "c' = ?p\<lparr>tlb_hits := tlb_hits ?p + 1\<rparr>"
      using res translate_hit [OF on refl, of va acc priv b pa] True by simp
    have "tlb_coherent b c'"
      using p(1) entry_ok_cong [of c' ?p]
      by (simp add: c' tlb_coherent_def gens_bounded_def mmu_stamp_matches_def)
    then show ?thesis
      using res translate_hit [OF on refl, of va acc priv b pa] True ok p
        walk_pa_split [OF on, of b va acc priv] by auto
  next
    case False
    define n where "n = \<lparr>e_gen = tlb_gen ?p, e_tag = mmu_tlb_tag va acc priv,
          e_pa = (if walk_fsr b c va acc priv = 0 then block_of (walk_pa b c va acc priv) else 0),
          e_fsr = walk_fsr b c va acc priv\<rparr>"
    obtain m where t: "arm_mmu_translate b c va acc priv pa =
      (walk_fsr b c va acc priv,
       if walk_fsr b c va acc priv = 0 then walk_pa b c va acc priv else pa,
       ?p\<lparr>tlb_misses := tlb_misses ?p + 1, ctx := m,
          tlb := (tlb ?p)(mmu_tlb_slot va acc := n)\<rparr>)"
      using translate_miss [OF on refl False p(3,4)] unfolding n_def by blast
    have c': "cp15 c' = cp15 ?p" "tlb_gen c' = tlb_gen ?p" "dread c' = dread ?p"
      "dwrite c' = dwrite ?p" "tlb_stamp c' = tlb_stamp ?p"
      "tlb c' = (tlb ?p)(mmu_tlb_slot va acc := n)"
      using res t by auto
    have ok: "tlb_entry_ok b c' e = tlb_entry_ok b c e" "tlb_entry_ok b ?p e = tlb_entry_ok b c e" for e
      using entry_ok_cong [of c' c] entry_ok_cong [of ?p c] c'(1) quiet p by simp_all
    have n: "tlb_entry_ok b c n" "e_gen n = tlb_gen ?p"
      using filled_entry_ok [OF on] by (simp_all add: n_def)
    have "tlb_coherent b c'"
      using p(1,2) n by (simp add: tlb_coherent_def gens_bounded_def c' ok mmu_stamp_matches_def)
    then show ?thesis using res t c'(1) p(3) by auto
  qed
qed

text \<open>
  C3: A translation through the software TLB is indistinguishable from a table walk: whenever every
  current entry answers for a walk, a hit or a miss returns the fault status and the physical
  address the walk returns, leaves CP15 alone and keeps every entry coherent. The last
  assumption says the walk and the platform's fetch hook have no side effect on the platform.
\<close>

theorem translate_coherent:
  assumes coh: "tlb_coherent b c" and on: "mmu_on c"
    and res: "arm_mmu_translate b c va acc priv pa = (fsr, pa', c')"
    and quiet: "ctx c' = ctx c"
  shows "fsr = walk_fsr b c va acc priv \<and>
    pa' = (if fsr = 0 then walk_pa b c va acc priv else pa) \<and>
    cp15 c' = cp15 c \<and> tlb_coherent b c'"
  using translate_keeps_coherence [OF assms] .

lemma translate_coherent_witness:
  "fst (arm_mmu_translate flat_bus mapped_cpu 0x80000123 ARM_ACCESS_WRITE True 0) =
     walk_fsr flat_bus mapped_cpu 0x80000123 ARM_ACCESS_WRITE True \<and>
   tlb_coherent flat_bus
     (snd (snd (arm_mmu_translate flat_bus mapped_cpu 0x80000123 ARM_ACCESS_WRITE True 0)))"
proof -
  obtain fsr pa c' where t:
    "arm_mmu_translate flat_bus mapped_cpu 0x80000123 ARM_ACCESS_WRITE True 0 = (fsr, pa, c')"
    by (metis prod_cases3)
  have "ctx c' = ctx mapped_cpu"
    using flat_translate_ctx [of  mapped_cpu "0x80000123" ARM_ACCESS_WRITE True 0] t by simp
  then show ?thesis
    using translate_coherent [OF mapped_coherent mapped_on t] t by simp
qed


section \<open>Privilege and access kinds\<close>

lemma right_allows_read: "right_allows r wr \<Longrightarrow> right_allows r False"
  by (cases r) simp_all

lemma rights_monotone:
  "rights_permit (ap_rights sc ap apx) wr False \<Longrightarrow> rights_permit (ap_rights sc ap apx) wr True"
  "rights_permit (ap_rights sc ap apx) wr priv \<Longrightarrow> rights_permit (ap_rights sc ap apx) False priv"
proof -
  show "rights_permit (ap_rights sc ap apx) wr False \<Longrightarrow> rights_permit (ap_rights sc ap apx) wr True"
    by (auto simp: rights_permit_def ap_rights_def split: if_splits bool.splits)
  show "rights_permit (ap_rights sc ap apx) wr priv \<Longrightarrow> rights_permit (ap_rights sc ap apx) False priv"
    unfolding rights_permit_def by (rule right_allows_read)
qed

definition mapping_usable :: "arm_cp15 \<Rightarrow> mapping \<Rightarrow> bool" where
  "mapping_usable p mp \<longleftrightarrow>
     \<not> ((sctlr p AND ARM_SCTLR_XP \<noteq> 0 \<and> sctlr p AND ARM_SCTLR_FA \<noteq> 0 \<and> m_ap mp AND 1 = 0) \<and>
        \<not> (\<not> m_apx mp \<and> m_ap mp = 0 \<and>
           (sctlr p AND ARM_SCTLR_S \<noteq> 0) \<noteq> (sctlr p AND ARM_SCTLR_R \<noteq> 0)))"

lemma check_mapping_None:
  "check_mapping p acc priv mp = None \<longleftrightarrow>
     mapping_usable p mp \<and>
     (domain_access p (m_domain mp) = 3 \<or>
      domain_access p (m_domain mp) = 1 \<and>
      rights_permit (ap_rights (sctlr p) (m_ap mp) (m_apx mp)) (acc = ARM_ACCESS_WRITE) priv \<and>
      \<not> (acc = ARM_ACCESS_FETCH \<and> m_xn mp \<and> sctlr p AND ARM_SCTLR_XP \<noteq> 0))"
proof (cases "mapping_usable p mp")
  case True
  then show ?thesis unfolding check_mapping_def Let_def mapping_usable_def by auto
next
  case False
  then show ?thesis unfolding check_mapping_def Let_def mapping_usable_def by auto
qed

lemma check_monotone:
  "check_mapping p acc False mp = None \<Longrightarrow> check_mapping p acc True mp = None"
  "check_mapping p acc priv mp = None \<Longrightarrow> check_mapping p ARM_ACCESS_READ priv mp = None"
  unfolding check_mapping_None
  using rights_monotone [of "sctlr p" "m_ap mp" "m_apx mp"] by auto

lemma walk_ok_iff:
  assumes "mmu_on c"
  shows "walk_fsr b c va acc priv = 0 \<longleftrightarrow>
    (\<exists>mp m. spec_lookup (read32 b) (cp15 c) (ctx c) va = (Inr mp, m) \<and>
            check_mapping (cp15 c) acc priv mp = None)"
    and "spec_lookup (read32 b) (cp15 c) (ctx c) va = (Inr mp, m) \<Longrightarrow>
      check_mapping (cp15 c) acc priv mp = None \<Longrightarrow>
      walk_pa b c va acc priv = m_base mp OR (va AND m_mask mp)"
proof -
  obtain r m0 where r: "spec_lookup (read32 b) (cp15 c) (ctx c) va = (r, m0)" by force
  note w = walk_refinement [OF assms [unfolded mmu_on_def]]
  show "walk_fsr b c va acc priv = 0 \<longleftrightarrow>
    (\<exists>mp m. spec_lookup (read32 b) (cp15 c) (ctx c) va = (Inr mp, m) \<and>
            check_mapping (cp15 c) acc priv mp = None)"
    using r fsr_make_nonzero
    by (cases r) (auto simp: walk_fsr_def w spec_verdict_def split: option.splits)
  show "spec_lookup (read32 b) (cp15 c) (ctx c) va = (Inr mp, m) \<Longrightarrow>
      check_mapping (cp15 c) acc priv mp = None \<Longrightarrow>
      walk_pa b c va acc priv = m_base mp OR (va AND m_mask mp)"
    by (simp add: walk_pa_def w spec_verdict_def)
qed

text \<open>
  Permissions only grow: what User code may do privileged code may do at the same physical
  address, and an address that may be written or executed may be read there. This is what
  lets the core translate a store before a load.
\<close>

theorem walk_permission_monotone:
  assumes "mmu_on c"
  shows "(walk_fsr b c va acc False = 0 \<longrightarrow>
          walk_fsr b c va acc True = 0 \<and> walk_pa b c va acc True = walk_pa b c va acc False) \<and>
         (walk_fsr b c va acc priv = 0 \<longrightarrow>
          walk_fsr b c va ARM_ACCESS_READ priv = 0 \<and>
          walk_pa b c va ARM_ACCESS_READ priv = walk_pa b c va acc priv)"
proof (intro conjI impI)
  assume "walk_fsr b c va acc False = 0"
  then obtain mp m where "spec_lookup (read32 b) (cp15 c) (ctx c) va = (Inr mp, m)"
    "check_mapping (cp15 c) acc False mp = None"
    by (auto simp: walk_ok_iff [OF assms])
  then show "walk_fsr b c va acc True = 0" "walk_pa b c va acc True = walk_pa b c va acc False"
    using check_monotone(1) by (auto simp: walk_ok_iff [OF assms])
next
  assume "walk_fsr b c va acc priv = 0"
  then obtain mp m where "spec_lookup (read32 b) (cp15 c) (ctx c) va = (Inr mp, m)"
    "check_mapping (cp15 c) acc priv mp = None"
    by (auto simp: walk_ok_iff [OF assms])
  then show "walk_fsr b c va ARM_ACCESS_READ priv = 0"
    "walk_pa b c va ARM_ACCESS_READ priv = walk_pa b c va acc priv"
    using check_monotone(2) by (auto simp: walk_ok_iff [OF assms])
qed

lemma walk_permission_monotone_witness:
  "walk_fsr flat_bus mapped_cpu 0x80000123 ARM_ACCESS_WRITE False = 0 \<and>
   walk_fsr flat_bus mapped_cpu 0x80000123 ARM_ACCESS_WRITE True = 0 \<and>
   walk_fsr flat_bus mapped_cpu 0x80000123 ARM_ACCESS_READ False = 0"
proof -
  have "walk_fsr flat_bus mapped_cpu 0x80000123 ARM_ACCESS_WRITE False = 0"
    by code_simp
  then show ?thesis
    using walk_permission_monotone [OF mapped_on, of flat_bus "0x80000123" ARM_ACCESS_WRITE False]
    by blast
qed


section \<open>Flush\<close>

text \<open>
  C6: After a TLB flush nothing cached is live (no TLB entry, no fetch block, no data block) and
  the TLB is coherent with whatever the memory now holds, also when the 32-bit generation
  counter wraps round.
\<close>

theorem flush_restores_coherence:
  assumes "gens_bounded c"
  shows "nothing_cached (arm_mmu_tlb_flush (c\<lparr>ctx := m\<rparr>)) \<and>
    tlb_coherent b (arm_mmu_tlb_flush (c\<lparr>ctx := m\<rparr>)) \<and>
    gens_bounded (arm_mmu_tlb_flush (c\<lparr>ctx := m\<rparr>))"
proof -
  have "gens_bounded (c\<lparr>ctx := m\<rparr>)" using assms by (simp add: gens_bounded_def)
  then show ?thesis using flush_gens flush_coherent by blast
qed

lemma flush_restores_coherence_witness:
  "nothing_cached (arm_mmu_tlb_flush (mapped_cpu\<lparr>ctx := mapped_mem(0 := 1)\<rparr>))"
  using flush_restores_coherence [of mapped_cpu "mapped_mem(0 := 1)" flat_bus] mapped_coherent
  by (simp add: tlb_coherent_def)


section \<open>The RAM capability\<close>

text \<open>
  C7: The RAM capability never hands out a host pointer the page tables do not grant: a lookup that
  succeeds names a block the walk permits for that access, and the block lies wholly inside
  the captured RAM window.
\<close>

theorem window_lookup_sound:
  assumes "tlb_coherent b c"
    and "arm_ram_window_tlb_lookup w b c va acc priv = Some h"
  shows "walk_fsr b c va acc priv = 0 \<and>
    (\<exists>base. (if acc = ARM_ACCESS_WRITE then w_write_host w else w_read_host w) = Some base \<and>
       h = base + (unat (block_of (walk_pa b c va acc priv)) - unat (w_base w)) \<and>
       w_base w \<le> block_of (walk_pa b c va acc priv) \<and>
       unat (block_of (walk_pa b c va acc priv)) + 1024 \<le> unat (w_base w) + unat (w_bytes w))"
proof -
  let ?e = "tlb c (mmu_tlb_slot va acc)"
  let ?host = "if acc = ARM_ACCESS_WRITE then w_write_host w else w_read_host w"
  have g: "arm_ram_window_current w b" "mmu_stamp_matches c" "e_gen ?e = tlb_gen c"
    "e_tag ?e = mmu_tlb_tag va acc priv" "e_fsr ?e = 0"
    using assms(2) by (auto simp: arm_ram_window_tlb_lookup_def Let_def split: if_splits)
  then have ok: "walk_fsr b c va acc priv = 0" "e_pa ?e = block_of (walk_pa b c va acc priv)"
    using assms(1) by (auto simp: tlb_coherent_def tlb_entry_ok_def)
  obtain base where host: "?host = Some base"
    using assms(2) by (auto simp: arm_ram_window_tlb_lookup_def Let_def split: if_splits option.splits)
  have h: "h = base + unat (e_pa ?e - w_base w)" "w_base w \<le> e_pa ?e"
    "e_pa ?e - w_base w \<le> w_bytes w - 1024"
    using assms(2) g host
    by (auto simp: arm_ram_window_tlb_lookup_def Let_def split: if_splits)
  have b: "1024 \<le> w_bytes w" using g(1) by (auto simp: arm_ram_window_current_def)
  have "unat (e_pa ?e - w_base w) = unat (e_pa ?e) - unat (w_base w)"
    "unat (w_bytes w - 1024) = unat (w_bytes w) - 1024"
    using h(2) b by (simp_all add: unat_sub)
  then show ?thesis
    using h b host ok by (auto simp: word_le_nat_alt)
qed

text \<open>The lookup on the mapped machine, after one read has filled the slot.\<close>

definition warm_cpu :: "mem arm_cpu" where
  "warm_cpu = snd (snd (arm_mmu_translate flat_bus mapped_cpu 0x80000123 ARM_ACCESS_READ True 0))"

lemma warm_coherent: "tlb_coherent flat_bus warm_cpu"
proof -
  obtain fsr pa c' where t:
    "arm_mmu_translate flat_bus mapped_cpu 0x80000123 ARM_ACCESS_READ True 0 = (fsr, pa, c')"
    by (metis prod_cases3)
  have "ctx c' = ctx mapped_cpu"
    using flat_translate_ctx [of mapped_cpu "0x80000123" ARM_ACCESS_READ True 0] t by simp
  then show ?thesis
    using translate_keeps_coherence [OF mapped_coherent mapped_on t] t by (simp add: warm_cpu_def)
qed

lemma warm_slot:
  "tlb_gen warm_cpu \<noteq> 0" "sctlr (cp15 warm_cpu) AND ARM_SCTLR_M \<noteq> 0" "mmu_stamp_matches warm_cpu"
  "e_gen (tlb warm_cpu (mmu_tlb_slot 0x80000200 ARM_ACCESS_READ)) = tlb_gen warm_cpu"
  "e_fsr (tlb warm_cpu (mmu_tlb_slot 0x80000200 ARM_ACCESS_READ)) = 0"
  "e_pa (tlb warm_cpu (mmu_tlb_slot 0x80000200 ARM_ACCESS_READ)) = 0x00100000"
  "e_tag (tlb warm_cpu (mmu_tlb_slot 0x80000200 ARM_ACCESS_READ)) =
     mmu_tlb_tag 0x80000200 ARM_ACCESS_READ True"
  by code_simp+

lemma warm_window:
  "\<exists>w. arm_ram_window_capture flat_bus warm_cpu 0x00100000 0x00200000 = Some w \<and>
     arm_ram_window_tlb_lookup w flat_bus warm_cpu 0x80000200 ARM_ACCESS_READ True = Some 0x00100000"
  by (simp add: arm_ram_window_tlb_lookup_def arm_ram_window_capture_def arm_ram_window_current_def
      warm_slot flat_bus_def flat_ptrs_def Let_def)

lemma window_lookup_sound_witness:
  "\<exists>w. arm_ram_window_capture flat_bus warm_cpu 0x00100000 0x00200000 = Some w \<and>
     arm_ram_window_tlb_lookup w flat_bus warm_cpu 0x80000200 ARM_ACCESS_READ True = Some 0x00100000 \<and>
     walk_fsr flat_bus warm_cpu 0x80000200 ARM_ACCESS_READ True = 0"
  using warm_window window_lookup_sound [OF warm_coherent] by blast

end
