(* ===== verification/Exec_Media.thy ===== *)
theory Exec_Media
  imports Exec_Alu
begin

text \<open>
  The ARMv6 media space (\<open>exec_media\<close> of core/src/arm/arm_interp.c): extends, byte reversal,
  parallel addition and subtraction with the GE flags, SDIV/UDIV of the ARMv7 variant, pack,
  select, the dual multiplies, sums of absolute differences and saturation. One definition per
  family; \<open>exec_media\<close> tests them in the order of the code. The C accumulates SMLALD and the
  SMMLA family in \<open>int64_t\<close>; the model wraps modulo 2^64, which is what those additions do on
  the two's complement targets of the core.
\<close>

unbundle bit_operations_syntax

section \<open>Extend and byte reversal\<close>

definition extend_pair :: "u32 \<Rightarrow> u32 \<Rightarrow> u32 \<Rightarrow> u32" where
  "extend_pair op v base =
     (let lo_ext = (if op = 0x8 then ucast (sign_extend8 v) else ucast (v AND 0xff) :: u16);
          hi_ext = (if op = 0x8 then ucast (sign_extend8 (shr v 16))
                    else ucast (shr v 16 AND 0xff) :: u16);
          lo_base = ucast base :: u16;
          hi_base = ucast (shr base 16) :: u16
      in ucast (lo_base + lo_ext) OR shl (ucast (hi_base + hi_ext)) 16)"

definition media_extend :: "'m arm_cpu \<Rightarrow> u32 \<Rightarrow> u32 \<Rightarrow> arm_status \<times> 'm arm_cpu" where
  "media_extend c pc insn =
     (let op = shr insn 20 AND 0xf;
          rn = reg4 insn 16; rd = reg4 insn 12; rm = reg4 insn 0;
          rot = unat (shr insn 10 AND 3)
      in if rd = 15 \<or> rm = 15 then (ARM_UNDEFINED, c)
         else
           let v = ror32 (reg_read c pc rm) (rot * 8)
           in if op = 0x8 \<or> op = 0xc then
                (ARM_OK, set_reg c rd
                   (extend_pair op v (if rn \<noteq> 15 then reg_read c pc rn else 0)))
              else
                let res = (if op = 0xa then Some (sign_extend8 v)
                           else if op = 0xb then Some (sign_extend16 v)
                           else if op = 0xe then Some (v AND 0xff)
                           else if op = 0xf then Some (v AND 0xffff)
                           else None)
                in case res of
                     None \<Rightarrow> (ARM_UNDEFINED, c)
                   | Some x \<Rightarrow>
                       (ARM_OK, set_reg c rd (if rn \<noteq> 15 then x + reg_read c pc rn else x)))"

definition rev_word :: "u32 \<Rightarrow> u32" where
  "rev_word v =
     shl (v AND 0xff) 24 OR shl (v AND 0xff00) 8 OR (shr v 8 AND 0xff00) OR (shr v 24 AND 0xff)"

definition rev16_word :: "u32 \<Rightarrow> u32" where
  "rev16_word v =
     shl (v AND 0x00ff) 8 OR shr (v AND 0xff00) 8 OR
     shl (v AND 0x00ff0000) 8 OR shr (v AND 0xff000000) 8"

definition revsh_word :: "u32 \<Rightarrow> u32" where
  "revsh_word v = sign_extend16 (shl (v AND 0xff) 8 OR (shr v 8 AND 0xff))"

definition media_rev ::
  "(u32 \<Rightarrow> u32) \<Rightarrow> 'm arm_cpu \<Rightarrow> u32 \<Rightarrow> u32 \<Rightarrow> arm_status \<times> 'm arm_cpu" where
  "media_rev f c pc insn =
     (let rd = reg4 insn 12; rm = reg4 insn 0
      in if rd = 15 \<or> rm = 15 then (ARM_UNDEFINED, c)
         else (ARM_OK, set_reg c rd (f (reg_read c pc rm))))"

section \<open>Parallel addition and subtraction\<close>

text \<open>A lane operand, read as signed or unsigned.\<close>

definition lane_int :: "bool \<Rightarrow> bool \<Rightarrow> u32 \<Rightarrow> int" where
  "lane_int sgd byt x =
     (if sgd then (if byt then sint (ucast x :: u8) else sint (ucast x :: u16)) else uint x)"

text \<open>One turn of the lane loop: the lane's result and whether its GE flag is set.\<close>

definition par_lane :: "u32 \<Rightarrow> u32 \<Rightarrow> u32 \<Rightarrow> u32 \<Rightarrow> nat \<Rightarrow> u32 \<times> bool" where
  "par_lane cls op a b i =
     (let byt = (op = 4 \<or> op = 7);
          is_sub = (op = 3 \<or> op = 7);
          exch_as = (op = 1);
          exch_sa = (op = 2);
          sgd = (cls = 1 \<or> cls = 2 \<or> cls = 3);
          sat = (cls = 2 \<or> cls = 6);
          halve = (cls = 3 \<or> cls = 7);
          width = (if byt then 8 else 16);
          mask = (if byt then 0xff else 0xffff);
          am = shr a (i * width) AND mask;
          bi = (if \<not> byt \<and> (exch_as \<or> exch_sa) then 1 - i else i);
          bm = shr b (bi * width) AND mask;
          sub = (if exch_sa then i = 1 else if exch_as then i = 0 else is_sub);
          as = lane_int sgd byt am;
          bs = lane_int sgd byt bm;
          sv = (if sub then as - bs else as + bs);
          uv = (if sub then uint am - uint bm else uint am + uint bm);
          lane = (if halve then (if sgd then word_of_int (sv div 2) else word_of_int (uv div 2))
                  else if sat then
                    (if sgd then
                       word_of_int (min (if byt then 127 else 32767)
                                        (max (if byt then - 128 else - 32768) sv))
                     else word_of_int (min (if byt then 255 else 65535) (max 0 uv)))
                  else if sgd then word_of_int sv else word_of_int uv) :: u32;
          ge = (if sgd then sv \<ge> 0 else if sub then am \<ge> bm else uv > uint mask)
      in (lane AND mask, ge))"

fun par_loop ::
  "u32 \<Rightarrow> u32 \<Rightarrow> u32 \<Rightarrow> u32 \<Rightarrow> nat list \<Rightarrow> u32 \<Rightarrow> u32 \<Rightarrow> u32 \<times> u32" where
  "par_loop cls op a b [] result ge = (result, ge)"
| "par_loop cls op a b (i # is) result ge =
     (let byte = (op = 4 \<or> op = 7);
          (lane, on) = par_lane cls op a b i
      in par_loop cls op a b is (result OR shl lane (i * (if byte then 8 else 16)))
           (if on then ge OR (if byte then shl 1 i else shl 3 (i * 2)) else ge))"

definition media_parallel :: "'m arm_cpu \<Rightarrow> u32 \<Rightarrow> u32 \<Rightarrow> arm_status \<times> 'm arm_cpu" where
  "media_parallel c pc insn =
     (let cls = shr insn 20 AND 7; op = shr insn 5 AND 7;
          rn = reg4 insn 16; rd = reg4 insn 12; rm = reg4 insn 0
      in if cls = 0 \<or> cls = 4 then (ARM_UNDEFINED, c)
         else if op = 5 \<or> op = 6 then (ARM_UNDEFINED, c)
         else if rd = 15 \<or> rn = 15 \<or> rm = 15 then (ARM_UNDEFINED, c)
         else
           let a = reg_read c pc rn; b = reg_read c pc rm;
               lanes = (if op = 4 \<or> op = 7 then 4 else 2);
               (result, ge) = par_loop cls op a b [0..<lanes] 0 0;
               c1 = set_reg c rd result
           in (ARM_OK, if cls = 1 \<or> cls = 5
                       then c1\<lparr>cpsr := (cpsr c1 AND NOT (shl 0xf 16)) OR shl (ge AND 0xf) 16\<rparr>
                       else c1))"

section \<open>Division, packing and selection\<close>

definition c_div_s32 :: "u32 \<Rightarrow> u32 \<Rightarrow> u32" where
  "c_div_s32 n m =
     word_of_int (sgn (sint n) * sgn (sint m) * (\<bar>sint n\<bar> div \<bar>sint m\<bar>))"

definition media_divide :: "'m arm_cpu \<Rightarrow> u32 \<Rightarrow> arm_status \<times> 'm arm_cpu" where
  "media_divide c insn =
     (let rd = reg4 insn 16; rm = reg4 insn 8; rn = reg4 insn 0;
          is_unsigned = bit insn 21
      in if arch c \<noteq> ARM_ARCH_V7_SWIFT then (ARM_UNDEFINED, c)
         else if rd = 15 \<or> rn = 15 \<or> rm = 15 then (ARM_UNDEFINED, c)
         else
           let n = regs c rn; m = regs c rm
           in (ARM_OK, set_reg c rd
                (if m = 0 then 0
                 else if is_unsigned then n div m
                 else if n = 0x80000000 \<and> m = 0xffffffff then 0x80000000
                 else c_div_s32 n m)))"

definition media_pack :: "'m arm_cpu \<Rightarrow> u32 \<Rightarrow> u32 \<Rightarrow> arm_status \<times> 'm arm_cpu" where
  "media_pack c pc insn =
     (let rn = reg4 insn 16; rd = reg4 insn 12; rm = reg4 insn 0;
          imm5 = unat (shr insn 7 AND 0x1f);
          tb = bit insn 6
      in if rd = 15 \<or> rn = 15 \<or> rm = 15 then (ARM_UNDEFINED, c)
         else
           let n = reg_read c pc rn; m = reg_read c pc rm
           in if tb then
                (let shifted = (if imm5 \<noteq> 0 then signed_drop_bit imm5 m else signed_drop_bit 31 m)
                 in (ARM_OK, set_reg c rd ((n AND 0xffff0000) OR (shifted AND 0x0000ffff))))
              else
                (let shifted = (if imm5 \<noteq> 0 then shl m imm5 else m)
                 in (ARM_OK, set_reg c rd ((n AND 0x0000ffff) OR (shifted AND 0xffff0000)))))"

fun sel_loop :: "u32 \<Rightarrow> u32 \<Rightarrow> u32 \<Rightarrow> nat list \<Rightarrow> u32 \<Rightarrow> u32" where
  "sel_loop ge n m [] out = out"
| "sel_loop ge n m (lane # ls) out =
     (let mask = shl 0xff (lane * 8)
      in sel_loop ge n m ls (out OR (if bit ge lane then n AND mask else m AND mask)))"

definition media_select :: "'m arm_cpu \<Rightarrow> u32 \<Rightarrow> u32 \<Rightarrow> arm_status \<times> 'm arm_cpu" where
  "media_select c pc insn =
     (let rn = reg4 insn 16; rd = reg4 insn 12; rm = reg4 insn 0
      in if rd = 15 \<or> rn = 15 \<or> rm = 15 then (ARM_UNDEFINED, c)
         else
           let n = reg_read c pc rn; m = reg_read c pc rm;
               ge = shr (cpsr c) 16 AND 0xf
           in (ARM_OK, set_reg c rd (sel_loop ge n m [0..<4] 0)))"

section \<open>Dual multiplies\<close>

text \<open>The signed halfword products of \<open>n\<close> and \<open>m\<close>, the X forms with \<open>m\<close> swapped.\<close>

definition dual_products :: "bool \<Rightarrow> u32 \<Rightarrow> u32 \<Rightarrow> int \<times> int" where
  "dual_products swap n m0 =
     (let m = (if swap then shr m0 16 OR shl m0 16 else m0)
      in (sint (ucast n :: u16) * sint (ucast m :: u16),
          sint (ucast (shr n 16) :: u16) * sint (ucast (shr m 16) :: u16)))"

definition media_smlad :: "'m arm_cpu \<Rightarrow> u32 \<Rightarrow> u32 \<Rightarrow> arm_status \<times> 'm arm_cpu" where
  "media_smlad c pc insn =
     (let rd = reg4 insn 16; ra = reg4 insn 12; rm = reg4 insn 8; rn = reg4 insn 0;
          sub = bit insn 6; swap = bit insn 5
      in if rd = 15 \<or> rm = 15 \<or> rn = 15 then (ARM_UNDEFINED, c)
         else
           let (p1, p2) = dual_products swap (reg_read c pc rn) (reg_read c pc rm);
               acc0 = (if sub then p1 - p2 else p1 + p2);
               acc = (if ra \<noteq> 15 then acc0 + sint (reg_read c pc ra) else acc0);
               c1 = (if acc \<noteq> sint (word_of_int acc :: u32)
                     then c\<lparr>cpsr := cpsr c OR ARM_CPSR_Q\<rparr> else c)
           in (ARM_OK, set_reg c1 rd (word_of_int acc)))"

definition media_smlald :: "'m arm_cpu \<Rightarrow> u32 \<Rightarrow> u32 \<Rightarrow> arm_status \<times> 'm arm_cpu" where
  "media_smlald c pc insn =
     (let rdhi = reg4 insn 16; rdlo = reg4 insn 12; rm = reg4 insn 8; rn = reg4 insn 0;
          sub = bit insn 6; swap = bit insn 5
      in if rdhi = 15 \<or> rdlo = 15 \<or> rm = 15 \<or> rn = 15 \<or> rdhi = rdlo then (ARM_UNDEFINED, c)
         else
           let (p1, p2) = dual_products swap (reg_read c pc rn) (reg_read c pc rm);
               wide = (shl (ucast (reg_read c pc rdhi)) 32 OR ucast (reg_read c pc rdlo) :: u64);
               acc = wide + word_of_int (if sub then p1 - p2 else p1 + p2)
           in (ARM_OK, set_reg (set_reg c rdlo (ucast acc)) rdhi (ucast (shr acc 32))))"

definition media_smmul :: "'m arm_cpu \<Rightarrow> u32 \<Rightarrow> u32 \<Rightarrow> arm_status \<times> 'm arm_cpu" where
  "media_smmul c pc insn =
     (let sel = shr insn 6 AND 3
      in if sel \<noteq> 0 \<and> sel \<noteq> 3 then (ARM_UNDEFINED, c)
         else
           let rd = reg4 insn 16; ra = reg4 insn 12; rm = reg4 insn 8; rn = reg4 insn 0;
               sub = (sel = 3); rnd = bit insn 5
           in if rd = 15 \<or> rm = 15 \<or> rn = 15 then (ARM_UNDEFINED, c)
              else if sub \<and> ra = 15 then (ARM_UNDEFINED, c)
              else
                let prod = sint (reg_read c pc rn) * sint (reg_read c pc rm);
                    acc = (if ra = 15 then 0 else shl (ucast (reg_read c pc ra)) 32 :: u64);
                    res0 = (if sub then acc - word_of_int prod else acc + word_of_int prod);
                    res = (if rnd then res0 + 0x80000000 else res0)
                in (ARM_OK, set_reg c rd (ucast (shr res 32))))"

fun usad_loop :: "u32 \<Rightarrow> u32 \<Rightarrow> nat list \<Rightarrow> u32 \<Rightarrow> u32" where
  "usad_loop n m [] s = s"
| "usad_loop n m (lane # ls) s =
     (let a = shr n (lane * 8) AND 0xff; b = shr m (lane * 8) AND 0xff
      in usad_loop n m ls (s + (if a > b then a - b else b - a)))"

definition media_usad8 :: "'m arm_cpu \<Rightarrow> u32 \<Rightarrow> u32 \<Rightarrow> arm_status \<times> 'm arm_cpu" where
  "media_usad8 c pc insn =
     (let rd = reg4 insn 16; ra = reg4 insn 12; rm = reg4 insn 8; rn = reg4 insn 0
      in if rd = 15 \<or> rm = 15 \<or> rn = 15 then (ARM_UNDEFINED, c)
         else (ARM_OK, set_reg c rd
                (usad_loop (reg_read c pc rn) (reg_read c pc rm) [0..<4]
                   (if ra = 15 then 0 else reg_read c pc ra))))"

section \<open>Saturation\<close>

definition media_sat :: "'m arm_cpu \<Rightarrow> u32 \<Rightarrow> u32 \<Rightarrow> arm_status \<times> 'm arm_cpu" where
  "media_sat c pc insn =
     (let uns = bit insn 22;
          sat_field = unat (shr insn 16 AND 0x1f);
          rd = reg4 insn 12;
          imm5 = unat (shr insn 7 AND 0x1f);
          asr = bit insn 6;
          rn = reg4 insn 0
      in if rd = 15 \<or> rn = 15 then (ARM_UNDEFINED, c)
         else
           let shifted = fst (barrel_shift (reg_read c pc rn) (if asr then 2 else 0) imm5 False False);
               value = dsp_signed_word shifted;
               (res, saturated) = (if uns then unsigned_saturate value sat_field
                                   else signed_saturate value (sat_field + 1));
               c1 = set_reg c rd res
           in (ARM_OK, if saturated then c1\<lparr>cpsr := cpsr c1 OR ARM_CPSR_Q\<rparr> else c1))"

fun sat16_loop :: "bool \<Rightarrow> nat \<Rightarrow> u32 \<Rightarrow> nat list \<Rightarrow> u32 \<Rightarrow> bool \<Rightarrow> u32 \<times> bool" where
  "sat16_loop uns sat_field source [] result saturated = (result, saturated)"
| "sat16_loop uns sat_field source (lane # ls) result saturated =
     (let raw = shr source (lane * 16) AND 0xffff;
          value = (if raw AND 0x8000 \<noteq> 0 then uint raw - 65536 else uint raw);
          (clamped, s) = (if uns then unsigned_saturate value sat_field
                          else signed_saturate value (sat_field + 1))
      in sat16_loop uns sat_field source ls
           (result OR shl (clamped AND 0xffff) (lane * 16)) (saturated \<or> s))"

definition media_sat16 :: "'m arm_cpu \<Rightarrow> u32 \<Rightarrow> u32 \<Rightarrow> arm_status \<times> 'm arm_cpu" where
  "media_sat16 c pc insn =
     (let uns = bit insn 22;
          sat_field = reg4 insn 16;
          rd = reg4 insn 12; rn = reg4 insn 0
      in if rd = 15 \<or> rn = 15 then (ARM_UNDEFINED, c)
         else
           let (result, saturated) =
                 sat16_loop uns sat_field (reg_read c pc rn) [0..<2] 0 False;
               c1 = set_reg c rd result
           in (ARM_OK, if saturated then c1\<lparr>cpsr := cpsr c1 OR ARM_CPSR_Q\<rparr> else c1))"

section \<open>Dispatch\<close>

definition exec_media :: "'m arm_cpu \<Rightarrow> u32 \<Rightarrow> u32 \<Rightarrow> arm_status \<times> 'm arm_cpu" where
  "exec_media c pc insn =
     (if insn AND 0x0f8003f0 = 0x06800070 then media_extend c pc insn
      else if insn AND 0x0fff0ff0 = 0x06bf0f30 then media_rev rev_word c pc insn
      else if insn AND 0x0fff0ff0 = 0x06bf0fb0 then media_rev rev16_word c pc insn
      else if insn AND 0x0fff0ff0 = 0x06ff0fb0 then media_rev revsh_word c pc insn
      else if insn AND 0x0f800f10 = 0x06000f10 then media_parallel c pc insn
      else if insn AND 0x0fd0f0f0 = 0x0710f010 then media_divide c insn
      else if insn AND 0x0ff00030 = 0x06800010 then media_pack c pc insn
      else if insn AND 0x0ff00ff0 = 0x06800fb0 then media_select c pc insn
      else if insn AND 0x0ff00090 = 0x07000010 then media_smlad c pc insn
      else if insn AND 0x0ff00090 = 0x07400010 then media_smlald c pc insn
      else if insn AND 0x0ff00010 = 0x07500010 then media_smmul c pc insn
      else if insn AND 0x0ff000f0 = 0x07800010 then media_usad8 c pc insn
      else if insn AND 0x0fa00030 = 0x06a00010 then media_sat c pc insn
      else if insn AND 0x0fb00ff0 = 0x06a00f30 then media_sat16 c pc insn
      else (ARM_UNDEFINED, c))"

end
