(* ===== verification/Mem_Access.thy ===== *)
theory Mem_Access
  imports Mmu
begin

text \<open>
  The data-side accessors of core/src/arm/arm_interp.c: alignment rules, page-crossing
  accesses, the data-read and data-write block caches, and the accessors the MEM_READ and
  MEM_WRITE macros generate at 8, 16 and 32 bits. A fault is latched on the CPU and the
  access returns 0 or stores nothing further. The value of an access is a \<open>u32\<close>; the narrower
  accessors return a value below their width, which the callers widen without change.
\<close>

unbundle bit_operations_syntax

definition legacy_rotate_word :: "u32 \<Rightarrow> u32 \<Rightarrow> u32" where
  "legacy_rotate_word v byte_offset =
     (let n = unat (byte_offset AND 3) * 8
      in if n \<noteq> 0 then shr v n OR shl v (32 - n) else v)"

definition legacy_halfword_unpredictable :: "'m arm_cpu \<Rightarrow> u32 \<Rightarrow> bool" where
  "legacy_halfword_unpredictable c va \<longleftrightarrow>
     va AND 1 \<noteq> 0 \<and> sctlr (cp15 c) AND (ARM_SCTLR_U OR ARM_SCTLR_A) = 0"

definition mem_crosses_page :: "u32 \<Rightarrow> u32 \<Rightarrow> bool" where
  "mem_crosses_page va n \<longleftrightarrow> (va AND 0xfff) + n > 0x1000"

section \<open>Accesses that cross a page\<close>

text \<open>
  The C loop, one byte per turn: \<open>i\<close> counts up to \<open>n\<close>, the page is translated again at the first
  byte and at each page boundary. \<open>k\<close> is \<open>n - i\<close>, the turns left.
\<close>

fun mem_read_crossing_loop ::
  "'m arm_bus \<Rightarrow> u32 \<Rightarrow> bool \<Rightarrow> nat \<Rightarrow> nat \<Rightarrow> u32 \<Rightarrow> u32 \<Rightarrow> 'm arm_cpu \<Rightarrow> u32 \<times> 'm arm_cpu" where
  "mem_read_crossing_loop b va priv i 0 val page_pa c = (val, c)"
| "mem_read_crossing_loop b va priv i (Suc k) val page_pa c =
     (let a = va + of_nat i;
          (f, pa, c1) = (if i = 0 \<or> a AND 0xfff = 0
                         then arm_mmu_translate b c a ARM_ACCESS_READ priv 0
                         else (0, page_pa, c))
      in if f \<noteq> 0 then (0, note_abort c1 f a)
         else
           let page_pa' = pa AND NOT 0xfff;
               (v8, m) = read8 b (ctx c1) (page_pa' OR (a AND 0xfff))
           in mem_read_crossing_loop b va priv (Suc i) k
                (val OR shl (ucast v8) (8 * i)) page_pa' (c1\<lparr>ctx := m\<rparr>))"

definition mem_read_crossing ::
  "'m arm_bus \<Rightarrow> 'm arm_cpu \<Rightarrow> u32 \<Rightarrow> nat \<Rightarrow> bool \<Rightarrow> u32 \<times> 'm arm_cpu" where
  "mem_read_crossing b c va n priv = mem_read_crossing_loop b va priv 0 n 0 0 c"

fun mem_write_crossing_loop ::
  "'m arm_bus \<Rightarrow> u32 \<Rightarrow> u32 \<Rightarrow> bool \<Rightarrow> nat \<Rightarrow> nat \<Rightarrow> u32 \<Rightarrow> 'm arm_cpu \<Rightarrow> 'm arm_cpu" where
  "mem_write_crossing_loop b va v priv i 0 page_pa c = c"
| "mem_write_crossing_loop b va v priv i (Suc k) page_pa c =
     (let a = va + of_nat i;
          (f, pa, c1) = (if i = 0 \<or> a AND 0xfff = 0
                         then arm_mmu_translate b c a ARM_ACCESS_WRITE priv 0
                         else (0, page_pa, c))
      in if f \<noteq> 0 then note_abort c1 f a
         else
           let page_pa' = pa AND NOT 0xfff
           in mem_write_crossing_loop b va v priv (Suc i) k page_pa'
                (c1\<lparr>ctx := write8 b (ctx c1) (page_pa' OR (a AND 0xfff))
                             (ucast (shr v (8 * i)))\<rparr>))"

definition mem_write_crossing ::
  "'m arm_bus \<Rightarrow> 'm arm_cpu \<Rightarrow> u32 \<Rightarrow> nat \<Rightarrow> u32 \<Rightarrow> bool \<Rightarrow> 'm arm_cpu" where
  "mem_write_crossing b c va n v priv = mem_write_crossing_loop b va v priv 0 n 0 c"

section \<open>The block caches\<close>

definition dread_slot :: "u32 \<Rightarrow> bool \<Rightarrow> u32" where
  "dread_slot va priv =
     (shr va 10 + (if priv then ARM_DREAD_ENTRIES div 2 else 0)) AND (ARM_DREAD_ENTRIES - 1)"

definition dread_tag :: "u32 \<Rightarrow> bool \<Rightarrow> u32" where
  "dread_tag va priv = (va AND NOT ARM_DREAD_BLK_MASK) OR (if priv then 1 else 0)"

text \<open>A hit returns the host pointer; the counters move on every outcome.\<close>

definition dread_hit ::
  "'m arm_cpu \<Rightarrow> u32 \<Rightarrow> u32 \<Rightarrow> bool \<Rightarrow> hptr option \<times> 'm arm_cpu" where
  "dread_hit c va n priv =
     (if (va AND ARM_DREAD_BLK_MASK) + n > ARM_DREAD_BLK_MASK + 1
      then (None, c\<lparr>dread_misses := dread_misses c + 1\<rparr>)
      else
        let e = dread c (dread_slot va priv)
        in case d_host e of
             None \<Rightarrow> (None, c\<lparr>dread_misses := dread_misses c + 1\<rparr>)
           | Some h \<Rightarrow>
               if d_tag e \<noteq> dread_tag va priv \<or> d_gen e \<noteq> tlb_gen c
               then (None, c\<lparr>dread_misses := dread_misses c + 1\<rparr>)
               else (Some (h + unat (va AND ARM_DREAD_BLK_MASK)),
                     c\<lparr>dread_hits := dread_hits c + 1\<rparr>))"

definition dread_fill :: "'m arm_bus \<Rightarrow> 'm arm_cpu \<Rightarrow> u32 \<Rightarrow> u32 \<Rightarrow> bool \<Rightarrow> 'm arm_cpu" where
  "dread_fill b c va pa priv =
     (case host_ram b of
        None \<Rightarrow> c
      | Some hr \<Rightarrow>
          case hr (ctx c) (pa AND NOT ARM_DREAD_BLK_MASK) (ARM_DREAD_BLK_MASK + 1) of
            None \<Rightarrow> c
          | Some blk \<Rightarrow>
              c\<lparr>dread := (dread c)(dread_slot va priv :=
                  \<lparr>d_host = Some blk, d_tag = dread_tag va priv, d_gen = tlb_gen c\<rparr>)\<rparr>)"

definition dwrite_hit ::
  "'m arm_bus \<Rightarrow> 'm arm_cpu \<Rightarrow> u32 \<Rightarrow> u32 \<Rightarrow> bool \<Rightarrow> hptr option \<times> 'm arm_cpu" where
  "dwrite_hit b c va n priv =
     (if host_ram_write b = None then (None, c)
      else if (va AND ARM_DREAD_BLK_MASK) + n > ARM_DREAD_BLK_MASK + 1
      then (None, c\<lparr>dwrite_misses := dwrite_misses c + 1\<rparr>)
      else
        let e = dwrite c (dread_slot va priv)
        in case d_host e of
             None \<Rightarrow> (None, c\<lparr>dwrite_misses := dwrite_misses c + 1\<rparr>)
           | Some h \<Rightarrow>
               if d_tag e \<noteq> dread_tag va priv \<or> d_gen e \<noteq> tlb_gen c
               then (None, c\<lparr>dwrite_misses := dwrite_misses c + 1\<rparr>)
               else (Some (h + unat (va AND ARM_DREAD_BLK_MASK)),
                     c\<lparr>dwrite_hits := dwrite_hits c + 1\<rparr>))"

definition dwrite_fill :: "'m arm_bus \<Rightarrow> 'm arm_cpu \<Rightarrow> u32 \<Rightarrow> u32 \<Rightarrow> bool \<Rightarrow> 'm arm_cpu" where
  "dwrite_fill b c va pa priv =
     (case host_ram_write b of
        None \<Rightarrow> c
      | Some hw \<Rightarrow>
          case hw (ctx c) (pa AND NOT ARM_DREAD_BLK_MASK) (ARM_DREAD_BLK_MASK + 1) of
            None \<Rightarrow> c
          | Some blk \<Rightarrow>
              c\<lparr>dwrite := (dwrite c)(dread_slot va priv :=
                  \<lparr>d_host = Some blk, d_tag = dread_tag va priv, d_gen = tlb_gen c\<rparr>)\<rparr>)"

text \<open>\<open>memcpy\<close> between a value and host memory on a little-endian host.\<close>

fun host_read_le :: "'m arm_bus \<Rightarrow> 'm \<Rightarrow> hptr \<Rightarrow> nat \<Rightarrow> u32" where
  "host_read_le b m p 0 = 0"
| "host_read_le b m p (Suc n) =
     ucast (load8 b m p) OR shl (host_read_le b m (Suc p) n) 8"

fun host_write_le :: "'m arm_bus \<Rightarrow> 'm \<Rightarrow> hptr \<Rightarrow> nat \<Rightarrow> u32 \<Rightarrow> 'm" where
  "host_write_le b m p 0 v = m"
| "host_write_le b m p (Suc n) v =
     host_write_le b (store8 b m p (ucast v)) (Suc p) n (shr v 8)"

section \<open>The generated accessors\<close>

text \<open>The width of an access: the macro argument \<open>bits\<close>.\<close>

datatype mem_width = W8 | W16 | W32

fun width_bytes :: "mem_width \<Rightarrow> u32" where
  "width_bytes W8 = 1"
| "width_bytes W16 = 2"
| "width_bytes W32 = 4"

definition bus_read_width :: "'m arm_bus \<Rightarrow> mem_width \<Rightarrow> 'm \<Rightarrow> u32 \<Rightarrow> u32 \<times> 'm" where
  "bus_read_width b w m pa =
     (case w of
        W8 \<Rightarrow> (let (v, m') = read8 b m pa in (ucast v, m'))
      | W16 \<Rightarrow> (let (v, m') = read16 b m pa in (ucast v, m'))
      | W32 \<Rightarrow> read32 b m pa)"

definition bus_write_width :: "'m arm_bus \<Rightarrow> mem_width \<Rightarrow> 'm \<Rightarrow> u32 \<Rightarrow> u32 \<Rightarrow> 'm" where
  "bus_write_width b w m pa v =
     (case w of
        W8 \<Rightarrow> write8 b m pa (ucast v)
      | W16 \<Rightarrow> write16 b m pa (ucast v)
      | W32 \<Rightarrow> write32 b m pa v)"

text \<open>
  \<open>mem_r##bits##_as\<close>. The alignment prologue faults under SCTLR.A, aligns down in the legacy
  U=0 model, and otherwise leaves the address; a word the legacy model aligned down is rotated.
\<close>

definition mem_read_as ::
  "'m arm_bus \<Rightarrow> mem_width \<Rightarrow> 'm arm_cpu \<Rightarrow> u32 \<Rightarrow> bool \<Rightarrow> u32 \<times> 'm arm_cpu" where
  "mem_read_as b w c original priv =
     (let misaligned = (w \<noteq> W8 \<and> original AND (width_bytes w - 1) \<noteq> 0)
      in if misaligned \<and> sctlr (cp15 c) AND ARM_SCTLR_A \<noteq> 0
         then (0, note_alignment_abort c original False)
         else
           let va = (if misaligned \<and> sctlr (cp15 c) AND ARM_SCTLR_U = 0
                     then original AND NOT (width_bytes w - 1) else original);
               rotate = (\<lambda>value. if w = W32 \<and> original \<noteq> va
                                 then legacy_rotate_word value (original AND 3) else value)
           in if mem_crosses_page va (width_bytes w) then
                (let (value, c1) = mem_read_crossing b c va (unat (width_bytes w)) priv
                 in (rotate value, c1))
              else
                case dread_hit c va (width_bytes w) priv of
                  (Some dh, c1) \<Rightarrow>
                    (rotate (host_read_le b (ctx c1) dh (unat (width_bytes w))), c1)
                | (None, c1) \<Rightarrow>
                    let (f, pa, c2) = arm_mmu_translate b c1 va ARM_ACCESS_READ priv 0
                    in if f \<noteq> 0 then (0, note_abort c2 f va)
                       else
                         let (value, m) = bus_read_width b w (ctx c2) pa
                         in (rotate value, dread_fill b (c2\<lparr>ctx := m\<rparr>) va pa priv))"

definition mem_write_as ::
  "'m arm_bus \<Rightarrow> mem_width \<Rightarrow> 'm arm_cpu \<Rightarrow> u32 \<Rightarrow> u32 \<Rightarrow> bool \<Rightarrow> 'm arm_cpu" where
  "mem_write_as b w c original v priv =
     (let misaligned = (w \<noteq> W8 \<and> original AND (width_bytes w - 1) \<noteq> 0)
      in if misaligned \<and> sctlr (cp15 c) AND ARM_SCTLR_A \<noteq> 0
         then note_alignment_abort c original True
         else
           let va = (if misaligned \<and> sctlr (cp15 c) AND ARM_SCTLR_U = 0
                     then original AND NOT (width_bytes w - 1) else original)
           in if mem_crosses_page va (width_bytes w)
              then mem_write_crossing b c va (unat (width_bytes w)) v priv
              else
                case dwrite_hit b c va (width_bytes w) priv of
                  (Some dw, c1) \<Rightarrow>
                    c1\<lparr>ctx := host_write_le b (ctx c1) dw (unat (width_bytes w)) v\<rparr>
                | (None, c1) \<Rightarrow>
                    let (f, pa, c2) = arm_mmu_translate b c1 va ARM_ACCESS_WRITE priv 0
                    in if f \<noteq> 0 then note_abort c2 f va
                       else
                         let m = bus_write_width b w (ctx c2) pa v
                         in dwrite_fill b (c2\<lparr>ctx := m\<rparr>) va pa priv)"

abbreviation mem_r32_as :: "'m arm_bus \<Rightarrow> 'm arm_cpu \<Rightarrow> u32 \<Rightarrow> bool \<Rightarrow> u32 \<times> 'm arm_cpu" where
  "mem_r32_as b \<equiv> mem_read_as b W32"
abbreviation mem_r8_as :: "'m arm_bus \<Rightarrow> 'm arm_cpu \<Rightarrow> u32 \<Rightarrow> bool \<Rightarrow> u32 \<times> 'm arm_cpu" where
  "mem_r8_as b \<equiv> mem_read_as b W8"
abbreviation mem_w32_as :: "'m arm_bus \<Rightarrow> 'm arm_cpu \<Rightarrow> u32 \<Rightarrow> u32 \<Rightarrow> bool \<Rightarrow> 'm arm_cpu" where
  "mem_w32_as b \<equiv> mem_write_as b W32"
abbreviation mem_w8_as :: "'m arm_bus \<Rightarrow> 'm arm_cpu \<Rightarrow> u32 \<Rightarrow> u32 \<Rightarrow> bool \<Rightarrow> 'm arm_cpu" where
  "mem_w8_as b \<equiv> mem_write_as b W8"

definition mem_r32 :: "'m arm_bus \<Rightarrow> 'm arm_cpu \<Rightarrow> u32 \<Rightarrow> u32 \<times> 'm arm_cpu" where
  "mem_r32 b c va = mem_read_as b W32 c va (cpu_is_priv c)"
definition mem_r16 :: "'m arm_bus \<Rightarrow> 'm arm_cpu \<Rightarrow> u32 \<Rightarrow> u32 \<times> 'm arm_cpu" where
  "mem_r16 b c va = mem_read_as b W16 c va (cpu_is_priv c)"
definition mem_r8 :: "'m arm_bus \<Rightarrow> 'm arm_cpu \<Rightarrow> u32 \<Rightarrow> u32 \<times> 'm arm_cpu" where
  "mem_r8 b c va = mem_read_as b W8 c va (cpu_is_priv c)"
definition mem_w32 :: "'m arm_bus \<Rightarrow> 'm arm_cpu \<Rightarrow> u32 \<Rightarrow> u32 \<Rightarrow> 'm arm_cpu" where
  "mem_w32 b c va v = mem_write_as b W32 c va v (cpu_is_priv c)"
definition mem_w16 :: "'m arm_bus \<Rightarrow> 'm arm_cpu \<Rightarrow> u32 \<Rightarrow> u32 \<Rightarrow> 'm arm_cpu" where
  "mem_w16 b c va v = mem_write_as b W16 c va v (cpu_is_priv c)"
definition mem_w8 :: "'m arm_bus \<Rightarrow> 'm arm_cpu \<Rightarrow> u32 \<Rightarrow> u32 \<Rightarrow> 'm arm_cpu" where
  "mem_w8 b c va v = mem_write_as b W8 c va v (cpu_is_priv c)"

section \<open>Multiword and exclusive address rules\<close>

text \<open>The aligned-down address, or None with the alignment abort latched.\<close>

definition prepare_multiword_address ::
  "'m arm_cpu \<Rightarrow> u32 \<Rightarrow> u32 \<Rightarrow> bool \<Rightarrow> u32 option \<times> 'm arm_cpu" where
  "prepare_multiword_address c va alignment wr =
     (let mask = alignment - 1
      in if va AND mask = 0 then (Some va, c)
         else if sctlr (cp15 c) AND (ARM_SCTLR_U OR ARM_SCTLR_A) \<noteq> 0
         then (None, note_alignment_abort c va wr)
         else (Some (va AND NOT mask), c))"

text \<open>\<open>Inr ()\<close>: go on; \<open>Inl st\<close>: the instruction ends with status \<open>st\<close>.\<close>

definition prepare_sync_address ::
  "'m arm_cpu \<Rightarrow> u32 \<Rightarrow> u32 \<Rightarrow> bool \<Rightarrow> (arm_status + unit) \<times> 'm arm_cpu" where
  "prepare_sync_address c va alignment wr =
     (if va AND (alignment - 1) = 0 then (Inr (), c)
      else if sctlr (cp15 c) AND (ARM_SCTLR_U OR ARM_SCTLR_A) \<noteq> 0
      then (Inl ARM_OK, note_alignment_abort c va wr)
      else (Inl ARM_UNDEFINED, c))"

end
