(* ===== verification/Exec_Mem.thy ===== *)
theory Exec_Mem
  imports Mem_Access Exec_Alu
begin

text \<open>
  The load/store groups of core/src/arm/arm_interp.c: single transfers (LDR, STR and their
  byte and unprivileged forms), the halfword, sign-extending and doubleword transfers, block
  transfers in all addressing modes, and the exclusive and swap instructions that the C decodes
  inside \<open>arm_step\<close>. A C loop over a register list is a recursion over the list of register
  numbers; a latched abort ends it at the faulting word.
\<close>

unbundle bit_operations_syntax

section \<open>Single data transfer\<close>

definition load_pc_interwork :: "'m arm_cpu \<Rightarrow> u32 \<Rightarrow> u32 \<times> 'm arm_cpu" where
  "load_pc_interwork c val =
     (if val AND 1 \<noteq> 0 then (val AND NOT 1, c\<lparr>cpsr := cpsr c OR ARM_CPSR_T\<rparr>)
      else (val AND NOT 3, c\<lparr>cpsr := cpsr c AND NOT ARM_CPSR_T\<rparr>))"

definition single_offset :: "'m arm_cpu \<Rightarrow> u32 \<Rightarrow> u32 \<Rightarrow> u32" where
  "single_offset c pc insn =
     (if \<not> bit insn 25 then insn AND 0xfff
      else fst (barrel_shift (reg_read c pc (reg4 insn 0)) (shr insn 5 AND 3)
                  (unat (shr insn 7 AND 0x1f)) False (get_flag c ARM_CPSR_C)))"

text \<open>The operand combinations the decoder refuses before an address is formed.\<close>

definition single_unpredictable :: "u32 \<Rightarrow> bool" where
  "single_unpredictable insn \<longleftrightarrow>
     (let I = bit insn 25; P = bit insn 24; B = bit insn 22; W = bit insn 21; L = bit insn 20;
          rn = reg4 insn 16; rd = reg4 insn 12;
          writeback = (\<not> P \<or> W);
          load_same_base_zero_post =
            (L \<and> \<not> I \<and> \<not> P \<and> \<not> W \<and> rn = rd \<and> rd \<noteq> 15 \<and> insn AND 0xfff = 0)
      in writeback \<and> (rn = 15 \<or> (rn = rd \<and> \<not> load_same_base_zero_post)) \<or>
         I \<and> reg4 insn 0 = 15 \<or> B \<and> rd = 15 \<or> L \<and> \<not> P \<and> W \<and> rd = 15)"

definition exec_single_transfer ::
  "'m arm_bus \<Rightarrow> 'm arm_cpu \<Rightarrow> u32 \<Rightarrow> u32 \<Rightarrow> u32 \<Rightarrow> arm_status \<times> u32 \<times> 'm arm_cpu" where
  "exec_single_transfer b c pc insn next =
     (let I = bit insn 25; P = bit insn 24; U = bit insn 23;
          B = bit insn 22; W = bit insn 21; L = bit insn 20;
          rn = reg4 insn 16; rd = reg4 insn 12;
          load_same_base_zero_post =
            (L \<and> \<not> I \<and> \<not> P \<and> \<not> W \<and> rn = rd \<and> rd \<noteq> 15 \<and> insn AND 0xfff = 0)
      in if single_unpredictable insn then (ARM_UNDEFINED, next, c)
         else
           let offset = single_offset c pc insn;
               base = reg_read c pc rn;
               moved = (if U then base + offset else base - offset);
               addr = (if P then moved else base);
               priv = (if \<not> P \<and> W then False else cpu_is_priv c);
               finish = (\<lambda>next' c'.
                  (ARM_OK, next',
                   if \<not> P then (if load_same_base_zero_post then c' else set_reg c' rn moved)
                   else if W then set_reg c' rn addr else c'))
           in if L then
                (if rd = 15 \<and> addr AND 3 \<noteq> 0 then
                   (if sctlr (cp15 c) AND ARM_SCTLR_A \<noteq> 0
                    then (ARM_OK, next, note_alignment_abort c addr False)
                    else (ARM_UNDEFINED, next, c))
                 else
                   let (val, c1) = (if B then mem_r8_as b c addr priv else mem_r32_as b c addr priv)
                   in if abort_pending c1 then (ARM_OK, next, c1)
                      else if rd = 15 \<and> val AND 3 = 2 then (ARM_UNDEFINED, next, c1)
                      else
                        let c2 = set_reg c1 rd val
                        in if rd = 15 then
                             (let (next', c3) = load_pc_interwork c2 val in finish next' c3)
                           else finish next c2)
              else
                let val = (if rd = 15 then pc + 12 else regs c rd);
                    c1 = (if B then mem_w8_as b c addr (val AND 0xff) priv
                          else mem_w32_as b c addr val priv)
                in if abort_pending c1 then (ARM_OK, next, c1) else finish next c1)"

section \<open>Halfword, sign-extending and doubleword transfers\<close>

definition extra_unpredictable :: "u32 \<Rightarrow> bool" where
  "extra_unpredictable insn \<longleftrightarrow>
     (let P = bit insn 24; I = bit insn 22; W = bit insn 21; L = bit insn 20;
          rn = reg4 insn 16; rd = reg4 insn 12;
          sh = shr insn 5 AND 3;
          writeback = (\<not> P \<or> W);
          doubleword = (\<not> L \<and> sh \<noteq> 1)
      in rd = 15 \<or> \<not> P \<and> W \<or> writeback \<and> (rn = 15 \<or> rn = rd) \<or>
         \<not> I \<and> (shr insn 8 AND 0xf \<noteq> 0 \<or> reg4 insn 0 = 15) \<or>
         doubleword \<and> (odd rd \<or> rd = 14 \<or> writeback \<and> rn = rd + 1))"

definition sign8 :: "u32 \<Rightarrow> u32" where "sign8 v = scast (ucast v :: u8)"
definition sign16 :: "u32 \<Rightarrow> u32" where "sign16 v = scast (ucast v :: u16)"

text \<open>The pair transfer: the second word is issued only when the first did not fault.\<close>

definition extra_doubleword ::
  "'m arm_bus \<Rightarrow> 'm arm_cpu \<Rightarrow> u32 \<Rightarrow> bool \<Rightarrow> nat \<Rightarrow> u32 \<Rightarrow> 'm arm_cpu" where
  "extra_doubleword b c pc store rd addr =
     (case prepare_multiword_address c addr 4 store of
        (None, c1) \<Rightarrow> c1
      | (Some xfer, c1) \<Rightarrow>
          if store then
            (let c2 = mem_w32 b c1 xfer (reg_read c1 pc rd)
             in if abort_pending c2 then c2
                else mem_w32 b c2 (xfer + 4) (reg_read c2 pc (rd + 1)))
          else
            (let (lo, c2) = mem_r32 b c1 xfer
             in if abort_pending c2 then c2
                else
                  let (hi, c3) = mem_r32 b c2 (xfer + 4)
                  in if abort_pending c3 then c3
                     else set_reg (set_reg c3 rd lo) (rd + 1) hi))"

definition extra_half ::
  "'m arm_bus \<Rightarrow> 'm arm_cpu \<Rightarrow> u32 \<Rightarrow> bool \<Rightarrow> u32 \<Rightarrow> nat \<Rightarrow> u32 \<Rightarrow> 'm arm_cpu" where
  "extra_half b c pc load sh rd addr =
     (if load then
        (let (val, c1) = (if sh = 1 then mem_r16 b c addr
                          else if sh = 2 then (let (v, c') = mem_r8 b c addr in (sign8 v, c'))
                          else (let (v, c') = mem_r16 b c addr in (sign16 v, c')))
         in if abort_pending c1 then c1 else set_reg c1 rd val)
      else mem_w16 b c addr (reg_read c pc rd AND 0xffff))"

text \<open>
  Bits 6:5 are never 00 here: \<open>arm_step\<close> sends only \<open>SH \<noteq> 00\<close> to this group, and the C's
  \<open>default\<close> of the load switch and its Rd = 15 branch cannot be reached.
\<close>

definition exec_extra_transfer ::
  "'m arm_bus \<Rightarrow> 'm arm_cpu \<Rightarrow> u32 \<Rightarrow> u32 \<Rightarrow> arm_status \<times> 'm arm_cpu" where
  "exec_extra_transfer b c pc insn =
     (let P = bit insn 24; U = bit insn 23; I = bit insn 22;
          W = bit insn 21; L = bit insn 20;
          rn = reg4 insn 16; rd = reg4 insn 12;
          sh = shr insn 5 AND 3;
          doubleword = (\<not> L \<and> sh \<noteq> 1)
      in if extra_unpredictable insn then (ARM_UNDEFINED, c)
         else
           let offset = (if I then shl (shr insn 8 AND 0xf) 4 OR (insn AND 0xf)
                         else reg_read c pc (reg4 insn 0));
               base = reg_read c pc rn;
               moved = (if U then base + offset else base - offset);
               addr = (if P then moved else base)
           in if (sh = 1 \<or> (L \<and> sh = 3)) \<and> legacy_halfword_unpredictable c addr
              then (ARM_UNDEFINED, c)
              else if L \<and> sh = 0 then (ARM_UNDEFINED, c)
              else
                let c1 = (if doubleword then extra_doubleword b c pc (sh = 3) rd addr
                          else extra_half b c pc L sh rd addr)
                in if abort_pending c1 then (ARM_OK, c1)
                   else (ARM_OK, if \<not> P then set_reg c1 rn moved
                                 else if W then set_reg c1 rn addr else c1))"

section \<open>Block transfer\<close>

text \<open>
  The transfer loop of an LDM: the words go to the buffer \<open>loaded\<close>, at ascending addresses in
  ascending register order, and the first abort ends it.
\<close>

fun ldm_loop ::
  "'m arm_bus \<Rightarrow> u32 \<Rightarrow> nat list \<Rightarrow> u32 \<Rightarrow> (nat \<Rightarrow> u32) \<Rightarrow> 'm arm_cpu \<Rightarrow> (nat \<Rightarrow> u32) \<times> 'm arm_cpu"
where
  "ldm_loop b rl [] addr loaded c = (loaded, c)"
| "ldm_loop b rl (i # is) addr loaded c =
     (if \<not> bit rl i then ldm_loop b rl is addr loaded c
      else
        let (v, c1) = mem_r32 b c addr; loaded' = loaded(i := v)
        in if abort_pending c1 then (loaded', c1)
           else ldm_loop b rl is (addr + 4) loaded' c1)"

fun stm_loop ::
  "'m arm_bus \<Rightarrow> u32 \<Rightarrow> ('m arm_cpu \<Rightarrow> nat \<Rightarrow> u32) \<Rightarrow> nat list \<Rightarrow> u32 \<Rightarrow> 'm arm_cpu \<Rightarrow> 'm arm_cpu"
where
  "stm_loop b rl value [] addr c = c"
| "stm_loop b rl value (i # is) addr c =
     (if \<not> bit rl i then stm_loop b rl value is addr c
      else
        let c1 = mem_w32 b c addr (value c i)
        in if abort_pending c1 then c1 else stm_loop b rl value is (addr + 4) c1)"

text \<open>The commit loop of an LDM.\<close>

fun ldm_commit ::
  "u32 \<Rightarrow> bool \<Rightarrow> bool \<Rightarrow> (nat \<Rightarrow> u32) \<Rightarrow> nat list \<Rightarrow> u32 \<Rightarrow> 'm arm_cpu \<Rightarrow> u32 \<times> 'm arm_cpu" where
  "ldm_commit rl user_bank restore_cpsr loaded [] next c = (next, c)"
| "ldm_commit rl user_bank restore_cpsr loaded (i # is) next c =
     (if \<not> bit rl i then ldm_commit rl user_bank restore_cpsr loaded is next c
      else if user_bank then
        ldm_commit rl user_bank restore_cpsr loaded is next (reg_write_user c i (loaded i))
      else
        let c1 = set_reg c i (loaded i)
        in if i = 15 \<and> \<not> restore_cpsr then
             (let (next', c2) = load_pc_interwork c1 (loaded i)
              in ldm_commit rl user_bank restore_cpsr loaded is next' c2)
           else ldm_commit rl user_bank restore_cpsr loaded is next c1)"

definition list_count :: "u32 \<Rightarrow> nat \<Rightarrow> nat" where
  "list_count rl k = length (filter (bit rl) [0..<k])"

definition block_unpredictable :: "'m arm_cpu \<Rightarrow> u32 \<Rightarrow> bool" where
  "block_unpredictable c insn \<longleftrightarrow>
     (let S = bit insn 22; W = bit insn 21; L = bit insn 20;
          rn = reg4 insn 16; rl = insn AND 0xffff;
          restore_cpsr = (S \<and> L \<and> bit rl 15);
          user_bank = (S \<and> \<not> (L \<and> bit rl 15));
          bk = arm_bank_of_mode (cpsr c);
          mode = cpsr c AND ARM_CPSR_MODE_MASK;
          lower = (if rn = 0 then 0 else shl 1 rn - 1)
      in rl = 0 \<or> rn = 15 \<or>
         restore_cpsr \<and> (bk = ARM_BANK_USR \<or> \<not> arm_mode_is_valid (spsr c bk)) \<or>
         user_bank \<and> (mode = ARM_MODE_USR \<or> mode = ARM_MODE_SYS) \<or>
         user_bank \<and> W \<or>
         W \<and> bit rl rn \<and> (L \<or> rl AND lower \<noteq> 0))"

definition exec_block_transfer ::
  "'m arm_bus \<Rightarrow> 'm arm_cpu \<Rightarrow> u32 \<Rightarrow> u32 \<Rightarrow> u32 \<Rightarrow> arm_status \<times> u32 \<times> 'm arm_cpu" where
  "exec_block_transfer b c pc insn next =
     (let P = bit insn 24; U = bit insn 23; S = bit insn 22; W = bit insn 21; L = bit insn 20;
          rn = reg4 insn 16; rl = insn AND 0xffff;
          restore_cpsr = (S \<and> L \<and> bit rl 15);
          user_bank = (S \<and> \<not> (L \<and> bit rl 15))
      in if block_unpredictable c insn then (ARM_UNDEFINED, next, c)
         else
           let n = of_nat (list_count rl 16) :: u32;
               base = reg_read c pc rn;
               addr0 = (if U then (if P then base + 4 else base)
                        else (if P then base - 4 * n else base - 4 * n + 4));
               wb = (if U then base + 4 * n else base - 4 * n);
               writeback = (\<lambda>c'. if W \<and> \<not> (L \<and> bit rl rn) then set_reg c' rn wb else c')
           in case prepare_multiword_address c addr0 4 (\<not> L) of
                (None, c1) \<Rightarrow> (ARM_OK, next, c1)
              | (Some addr, c1) \<Rightarrow>
                  if \<not> L then
                    (let c2 = stm_loop b rl
                           (\<lambda>c' i. if i = 15 then pc + 12
                                   else if user_bank then reg_read_user c' pc i
                                   else regs c' i) [0..<16] addr c1
                     in (ARM_OK, next, if abort_pending c2 then c2 else writeback c2))
                  else
                    let (loaded, c2) = ldm_loop b rl [0..<16] addr (\<lambda>_. 0) c1;
                        saved = spsr c2 (arm_bank_of_mode (cpsr c2))
                    in if abort_pending c2 then (ARM_OK, next, c2)
                       else if \<not> restore_cpsr \<and> bit rl 15 \<and> loaded 15 AND 3 = 2
                       then (ARM_UNDEFINED, next, c2)
                       else if restore_cpsr \<and> saved AND ARM_CPSR_T = 0 \<and> loaded 15 AND 2 \<noteq> 0
                       then (ARM_UNDEFINED, next, c2)
                       else
                         let (next1, c3) =
                               ldm_commit rl user_bank restore_cpsr loaded [0..<16] next c2;
                             c4 = writeback c3
                         in if restore_cpsr then
                              (let c5 = restore_psr c4 (spsr c4 (arm_bank_of_mode (cpsr c4)))
                               in (ARM_OK,
                                   loaded 15 AND (if cpsr c5 AND ARM_CPSR_T \<noteq> 0 then NOT 1
                                                  else NOT 3), c5))
                            else (ARM_OK, next1, c4))"

section \<open>Exclusive accesses and swap\<close>

text \<open>The LDREX, LDREXD, LDREXB and LDREXH arms of \<open>arm_step\<close>, in its order of decoding.\<close>

definition exec_ldrex :: "'m arm_bus \<Rightarrow> 'm arm_cpu \<Rightarrow> u32 \<Rightarrow> arm_status \<times> 'm arm_cpu" where
  "exec_ldrex b c insn =
     (let rn = reg4 insn 16; rd = reg4 insn 12
      in if rn = 15 \<or> rd = 15 then (ARM_UNDEFINED, c)
         else
           let addr = regs c rn
           in case prepare_sync_address c addr 4 False of
                (Inl st, c1) \<Rightarrow> (st, c1)
              | (Inr _, c1) \<Rightarrow>
                  let (v, c2) = mem_r32 b c1 addr
                  in (ARM_OK, if abort_pending c2 then c2
                              else (set_reg c2 rd v)\<lparr>excl_valid := True, excl_addr := addr\<rparr>))"

definition exec_strex :: "'m arm_bus \<Rightarrow> 'm arm_cpu \<Rightarrow> u32 \<Rightarrow> arm_status \<times> 'm arm_cpu" where
  "exec_strex b c insn =
     (let rn = reg4 insn 16; rd = reg4 insn 12; rm = reg4 insn 0
      in if rn = 15 \<or> rd = 15 \<or> rm = 15 \<or> rd = rn \<or> rd = rm then (ARM_UNDEFINED, c)
         else
           let addr = regs c rn
           in case prepare_sync_address c addr 4 True of
                (Inl st, c1) \<Rightarrow> (st, c1)
              | (Inr _, c1) \<Rightarrow>
                  let (fsr, _, c2) =
                        arm_mmu_translate b c1 addr ARM_ACCESS_WRITE (cpu_is_priv c1) 0;
                      c3 = (if fsr \<noteq> 0 then note_abort c2 fsr addr
                            else if excl_valid c2 \<and> excl_addr c2 = addr then
                              (let c' = mem_w32 b c2 addr (regs c2 rm)
                               in if abort_pending c' then c' else set_reg c' rd 0)
                            else set_reg c2 rd 1)
                  in (ARM_OK, c3\<lparr>excl_valid := False\<rparr>))"

definition exec_ldrexd :: "'m arm_bus \<Rightarrow> 'm arm_cpu \<Rightarrow> u32 \<Rightarrow> arm_status \<times> 'm arm_cpu" where
  "exec_ldrexd b c insn =
     (let rn = reg4 insn 16; rd = reg4 insn 12
      in if rn = 15 \<or> odd rd \<or> rd = 14 then (ARM_UNDEFINED, c)
         else
           let addr = regs c rn
           in case prepare_sync_address c addr 8 False of
                (Inl st, c1) \<Rightarrow> (st, c1)
              | (Inr _, c1) \<Rightarrow>
                  let (lo, c2) = mem_r32 b c1 addr
                  in if abort_pending c2 then (ARM_OK, c2)
                     else
                       let (hi, c3) = mem_r32 b c2 (addr + 4)
                       in (ARM_OK, if abort_pending c3 then c3
                                   else (set_reg (set_reg c3 rd lo) (rd + 1) hi)
                                          \<lparr>excl_valid := True, excl_addr := addr\<rparr>))"

definition exec_strexd :: "'m arm_bus \<Rightarrow> 'm arm_cpu \<Rightarrow> u32 \<Rightarrow> arm_status \<times> 'm arm_cpu" where
  "exec_strexd b c insn =
     (let rn = reg4 insn 16; rd = reg4 insn 12; rm = reg4 insn 0
      in if rn = 15 \<or> rd = 15 \<or> odd rm \<or> rm = 14 \<or> rd = rn \<or> rd = rm \<or> rd = rm + 1
         then (ARM_UNDEFINED, c)
         else
           let addr = regs c rn
           in case prepare_sync_address c addr 8 True of
                (Inl st, c1) \<Rightarrow> (st, c1)
              | (Inr _, c1) \<Rightarrow>
                  let c2 = (if excl_valid c1 \<and> excl_addr c1 = addr then
                              (let c' = mem_w32 b c1 addr (regs c1 rm)
                               in if abort_pending c' then c'
                                  else
                                    let c'' = mem_w32 b c' (addr + 4) (regs c' (rm + 1))
                                    in if abort_pending c'' then c'' else set_reg c'' rd 0)
                            else set_reg c1 rd 1)
                  in (ARM_OK, c2\<lparr>excl_valid := False\<rparr>))"

definition exec_ldrexb :: "'m arm_bus \<Rightarrow> 'm arm_cpu \<Rightarrow> u32 \<Rightarrow> arm_status \<times> 'm arm_cpu" where
  "exec_ldrexb b c insn =
     (let rn = reg4 insn 16; rd = reg4 insn 12
      in if rn = 15 \<or> rd = 15 then (ARM_UNDEFINED, c)
         else
           let addr = regs c rn; (v, c1) = mem_r8 b c addr
           in (ARM_OK, if abort_pending c1 then c1
                       else (set_reg c1 rd v)\<lparr>excl_valid := True, excl_addr := addr\<rparr>))"

definition exec_strexb :: "'m arm_bus \<Rightarrow> 'm arm_cpu \<Rightarrow> u32 \<Rightarrow> arm_status \<times> 'm arm_cpu" where
  "exec_strexb b c insn =
     (let rn = reg4 insn 16; rd = reg4 insn 12; rm = reg4 insn 0
      in if rn = 15 \<or> rd = 15 \<or> rm = 15 \<or> rd = rn \<or> rd = rm then (ARM_UNDEFINED, c)
         else
           let addr = regs c rn;
               c1 = (if excl_valid c \<and> excl_addr c = addr then
                       (let c' = mem_w8 b c addr (regs c rm AND 0xff)
                        in if abort_pending c' then c' else set_reg c' rd 0)
                     else set_reg c rd 1)
           in (ARM_OK, c1\<lparr>excl_valid := False\<rparr>))"

definition exec_ldrexh :: "'m arm_bus \<Rightarrow> 'm arm_cpu \<Rightarrow> u32 \<Rightarrow> arm_status \<times> 'm arm_cpu" where
  "exec_ldrexh b c insn =
     (let rn = reg4 insn 16; rd = reg4 insn 12
      in if rn = 15 \<or> rd = 15 then (ARM_UNDEFINED, c)
         else
           let addr = regs c rn
           in case prepare_sync_address c addr 2 False of
                (Inl st, c1) \<Rightarrow> (st, c1)
              | (Inr _, c1) \<Rightarrow>
                  let (v, c2) = mem_r16 b c1 addr
                  in (ARM_OK, if abort_pending c2 then c2
                              else (set_reg c2 rd v)\<lparr>excl_valid := True, excl_addr := addr\<rparr>))"

definition exec_strexh :: "'m arm_bus \<Rightarrow> 'm arm_cpu \<Rightarrow> u32 \<Rightarrow> arm_status \<times> 'm arm_cpu" where
  "exec_strexh b c insn =
     (let rn = reg4 insn 16; rd = reg4 insn 12; rm = reg4 insn 0
      in if rn = 15 \<or> rd = 15 \<or> rm = 15 \<or> rd = rn \<or> rd = rm then (ARM_UNDEFINED, c)
         else
           let addr = regs c rn
           in case prepare_sync_address c addr 2 True of
                (Inl st, c1) \<Rightarrow> (st, c1)
              | (Inr _, c1) \<Rightarrow>
                  let c2 = (if excl_valid c1 \<and> excl_addr c1 = addr then
                              (let c' = mem_w16 b c1 addr (regs c1 rm AND 0xffff)
                               in if abort_pending c' then c' else set_reg c' rd 0)
                            else set_reg c1 rd 1)
                  in (ARM_OK, c2\<lparr>excl_valid := False\<rparr>))"

definition exec_swap :: "'m arm_bus \<Rightarrow> 'm arm_cpu \<Rightarrow> u32 \<Rightarrow> arm_status \<times> 'm arm_cpu" where
  "exec_swap b c insn =
     (let rn = reg4 insn 16; rd = reg4 insn 12; rm = reg4 insn 0; byte = bit insn 22
      in if rn = 15 \<or> rd = 15 \<or> rm = 15 \<or> rn = rm \<or> rn = rd then (ARM_UNDEFINED, c)
         else
           let addr = regs c rn
           in if \<not> byte \<and> addr AND 3 \<noteq> 0 \<and>
                 sctlr (cp15 c) AND (ARM_SCTLR_U OR ARM_SCTLR_A) \<noteq> 0
              then (ARM_OK, note_alignment_abort c addr True)
              else
                let (old, c1) = (if byte then mem_r8 b c addr else mem_r32 b c addr)
                in if abort_pending c1 then (ARM_OK, c1)
                   else
                     let c2 = (if byte then mem_w8 b c1 addr (regs c1 rm AND 0xff)
                               else mem_w32 b c1 addr (regs c1 rm))
                     in (ARM_OK, if abort_pending c2 then c2 else set_reg c2 rd old))"

end
