(* ===== verification/Thumb.thy ===== *)
theory Thumb
  imports Exec_Mem
begin

text \<open>
  The Thumb instruction set of core/src/arm/arm_interp.c (\<open>thumb_step\<close>). One definition per
  group of encodings, in the order of the switch on the top nibble; \<open>thumb_step\<close> dispatches.
  Each returns the status, the next fetch address and the CPU. \<open>pc4\<close> is the value a Thumb
  instruction reads as PC.
\<close>

unbundle bit_operations_syntax

section \<open>Shifts, adds and 8-bit immediates\<close>

definition thumb_add_sub :: "'m arm_cpu \<Rightarrow> u16 \<Rightarrow> 'm arm_cpu" where
  "thumb_add_sub c insn =
     (let rd = reg3 insn 0; rs = reg3 insn 3;
          op2 = (if bit insn 10 then of_nat (reg3 insn 6) else regs c (reg3 insn 6));
          (v, c1) = (if bit insn 9 then alu_sub c (regs c rs) op2 1 True
                     else alu_add c (regs c rs) op2 0 True)
      in set_reg c1 rd v)"

definition thumb_shift_imm :: "'m arm_cpu \<Rightarrow> u16 \<Rightarrow> 'm arm_cpu" where
  "thumb_shift_imm c insn =
     (let rd = reg3 insn 0; rs = reg3 insn 3;
          amount = unat (shr insn 6 AND 0x1f);
          type = ucast (shr insn 11 AND 3) :: u32;
          (res, carry) = barrel_shift (regs c rs) type amount False (get_flag c ARM_CPSR_C)
      in alu_logic_flags (set_reg c rd res) res carry True)"

definition thumb_imm8 :: "'m arm_cpu \<Rightarrow> u16 \<Rightarrow> 'm arm_cpu" where
  "thumb_imm8 c insn =
     (let rd = reg3 insn 8; imm = ucast (insn AND 0xff) :: u32; op = shr insn 11 AND 3
      in if op = 0 then
           alu_logic_flags (set_reg c rd imm) imm (get_flag c ARM_CPSR_C) True
         else if op = 1 then snd (alu_sub c (regs c rd) imm 1 True)
         else if op = 2 then
           (let (v, c1) = alu_add c (regs c rd) imm 0 True in set_reg c1 rd v)
         else (let (v, c1) = alu_sub c (regs c rd) imm 1 True in set_reg c1 rd v))"

section \<open>Register ALU operations\<close>

definition thumb_alu :: "'m arm_cpu \<Rightarrow> u16 \<Rightarrow> 'm arm_cpu" where
  "thumb_alu c insn =
     (let rd = reg3 insn 0; rs = reg3 insn 3;
          a = regs c rd; b = regs c rs;
          carry = get_flag c ARM_CPSR_C;
          cin = (if carry then 1 else 0 :: u32);
          amount = unat (b AND 0xff);
          op = shr insn 6 AND 0xf;
          logic = (\<lambda>res. alu_logic_flags (set_reg c rd res) res carry True);
          shift = (\<lambda>type. let (res, co) = barrel_shift a type amount True carry
                          in alu_logic_flags (set_reg c rd res) res co True);
          arith = (\<lambda>(res, c1). set_reg c1 rd res)
      in if op = 0x0 then logic (a AND b)
         else if op = 0x1 then logic (a XOR b)
         else if op = 0x2 then shift 0
         else if op = 0x3 then shift 1
         else if op = 0x4 then shift 2
         else if op = 0x5 then arith (alu_add c a b cin True)
         else if op = 0x6 then arith (alu_sub c a b cin True)
         else if op = 0x7 then shift 3
         else if op = 0x8 then alu_logic_flags c (a AND b) carry True
         else if op = 0x9 then arith (alu_sub c 0 b 1 True)
         else if op = 0xa then snd (alu_sub c a b 1 True)
         else if op = 0xb then snd (alu_add c a b 0 True)
         else if op = 0xc then logic (a OR b)
         else if op = 0xd then
           (let res = a * b
            in set_flag (set_flag (set_reg c rd res) ARM_CPSR_N (bit res 31))
                 ARM_CPSR_Z (res = 0))
         else if op = 0xe then logic (a AND NOT b)
         else logic (NOT b))"

section \<open>High registers and BX/BLX\<close>

definition thumb_hi_reg ::
  "'m arm_cpu \<Rightarrow> u32 \<Rightarrow> u16 \<Rightarrow> u32 \<Rightarrow> arm_status \<times> u32 \<times> 'm arm_cpu" where
  "thumb_hi_reg c pc insn next =
     (let pc4 = pc + 4;
          rd = reg3 insn 0 + (if bit insn 7 then 8 else 0);
          rs = reg3 insn 3 + (if bit insn 6 then 8 else 0);
          sv = (if rs = 15 then pc4 else regs c rs);
          op = shr insn 8 AND 3
      in if op = 0 then
           (if rd = 15 then (ARM_OK, (pc4 + sv) AND NOT 1, c)
            else (ARM_OK, next, set_reg c rd (regs c rd + sv)))
         else if op = 1 then
           (ARM_OK, next, snd (alu_sub c (if rd = 15 then pc4 else regs c rd) sv 1 True))
         else if op = 2 then
           (if rd = 15 then (ARM_OK, sv AND NOT 1, c) else (ARM_OK, next, set_reg c rd sv))
         else if bit insn 7 \<and> rs = 15 then (ARM_UNDEFINED, next, c)
         else if sv AND 3 = 2 then (ARM_UNDEFINED, next, c)
         else
           let c1 = (if bit insn 7 then set_reg c 14 ((pc + 2) OR 1) else c);
               c2 = (if sv AND 1 = 0 then c1\<lparr>cpsr := cpsr c1 AND NOT ARM_CPSR_T\<rparr> else c1)
           in (ARM_OK, sv AND NOT 1, c2))"

section \<open>Loads and stores\<close>

definition thumb_load :: "nat \<Rightarrow> u32 \<times> 'm arm_cpu \<Rightarrow> 'm arm_cpu" where
  "thumb_load rd r = (let (v, c1) = r in if abort_pending c1 then c1 else set_reg c1 rd v)"

definition thumb_ldr_pc :: "'m arm_bus \<Rightarrow> 'm arm_cpu \<Rightarrow> u32 \<Rightarrow> u16 \<Rightarrow> 'm arm_cpu" where
  "thumb_ldr_pc b c pc insn =
     (let rd = reg3 insn 8;
          addr = ((pc + 4) AND NOT 3) + shl (ucast (insn AND 0xff)) 2
      in thumb_load rd (mem_r32 b c addr))"

definition thumb_word_byte ::
  "'m arm_bus \<Rightarrow> 'm arm_cpu \<Rightarrow> bool \<Rightarrow> bool \<Rightarrow> nat \<Rightarrow> u32 \<Rightarrow> 'm arm_cpu" where
  "thumb_word_byte b c load byte rd addr =
     (if load then thumb_load rd (if byte then mem_r8 b c addr else mem_r32 b c addr)
      else if byte then mem_w8 b c addr (regs c rd AND 0xff)
      else mem_w32 b c addr (regs c rd))"

definition thumb_ls_reg ::
  "'m arm_bus \<Rightarrow> 'm arm_cpu \<Rightarrow> u16 \<Rightarrow> arm_status \<times> 'm arm_cpu" where
  "thumb_ls_reg b c insn =
     (let rd = reg3 insn 0; rb = reg3 insn 3; ro = reg3 insn 6;
          addr = regs c rb + regs c ro;
          op = shr insn 10 AND 3
      in if bit insn 9 then
           (if op \<noteq> 1 \<and> legacy_halfword_unpredictable c addr then (ARM_UNDEFINED, c)
            else if op = 0 then (ARM_OK, mem_w16 b c addr (regs c rd AND 0xffff))
            else if op = 1 then
              (ARM_OK, thumb_load rd (let (v, c1) = mem_r8 b c addr in (sign8 v, c1)))
            else if op = 2 then (ARM_OK, thumb_load rd (mem_r16 b c addr))
            else (ARM_OK, thumb_load rd (let (v, c1) = mem_r16 b c addr in (sign16 v, c1))))
         else (ARM_OK, thumb_word_byte b c (bit insn 11) (bit insn 10) rd addr))"

definition thumb_ls_imm :: "'m arm_bus \<Rightarrow> 'm arm_cpu \<Rightarrow> u16 \<Rightarrow> 'm arm_cpu" where
  "thumb_ls_imm b c insn =
     (let rd = reg3 insn 0; rb = reg3 insn 3;
          off = ucast (shr insn 6 AND 0x1f) :: u32;
          byte = bit insn 12;
          addr = regs c rb + (if byte then off else shl off 2)
      in thumb_word_byte b c (bit insn 11) byte rd addr)"

definition thumb_ls_half ::
  "'m arm_bus \<Rightarrow> 'm arm_cpu \<Rightarrow> u16 \<Rightarrow> arm_status \<times> 'm arm_cpu" where
  "thumb_ls_half b c insn =
     (let rd = reg3 insn 0; rb = reg3 insn 3;
          addr = regs c rb + shl (ucast (shr insn 6 AND 0x1f)) 1
      in if legacy_halfword_unpredictable c addr then (ARM_UNDEFINED, c)
         else if bit insn 11 then (ARM_OK, thumb_load rd (mem_r16 b c addr))
         else (ARM_OK, mem_w16 b c addr (regs c rd AND 0xffff)))"

definition thumb_ls_sp :: "'m arm_bus \<Rightarrow> 'm arm_cpu \<Rightarrow> u16 \<Rightarrow> 'm arm_cpu" where
  "thumb_ls_sp b c insn =
     (let rd = reg3 insn 8;
          addr = regs c 13 + shl (ucast (insn AND 0xff)) 2
      in thumb_word_byte b c (bit insn 11) False rd addr)"

definition thumb_add_pc_sp :: "'m arm_cpu \<Rightarrow> u32 \<Rightarrow> u16 \<Rightarrow> 'm arm_cpu" where
  "thumb_add_pc_sp c pc insn =
     (let rd = reg3 insn 8;
          imm = shl (ucast (insn AND 0xff)) 2 :: u32
      in set_reg c rd (if bit insn 11 then regs c 13 + imm else ((pc + 4) AND NOT 3) + imm))"

section \<open>PUSH, POP and block transfers\<close>

text \<open>Commit the registers a transfer loop buffered.\<close>

fun thumb_commit :: "u32 \<Rightarrow> (nat \<Rightarrow> u32) \<Rightarrow> nat list \<Rightarrow> 'm arm_cpu \<Rightarrow> 'm arm_cpu" where
  "thumb_commit rl loaded [] c = c"
| "thumb_commit rl loaded (i # is) c =
     thumb_commit rl loaded is (if bit rl i then set_reg c i (loaded i) else c)"

definition thumb_pop ::
  "'m arm_bus \<Rightarrow> 'm arm_cpu \<Rightarrow> u32 \<Rightarrow> bool \<Rightarrow> u32 \<Rightarrow> arm_status \<times> u32 \<times> 'm arm_cpu" where
  "thumb_pop b c rl extra next =
     (let n = of_nat (list_count rl 8 + (if extra then 1 else 0)) :: u32;
          old_sp = regs c 13
      in case prepare_multiword_address c old_sp 4 False of
           (None, c1) \<Rightarrow> (ARM_OK, next, c1)
         | (Some addr, c1) \<Rightarrow>
             let (loaded, c2) = ldm_loop b rl [0..<8] addr (\<lambda>_. 0) c1
             in if abort_pending c2 then (ARM_OK, next, c2)
                else
                  let (pcv, c3) = (if extra
                        then mem_r32 b c2 (addr + 4 * of_nat (list_count rl 8)) else (0, c2))
                  in if extra \<and> abort_pending c3 then (ARM_OK, next, c3)
                     else if extra \<and> pcv AND 3 = 2 then (ARM_UNDEFINED, next, c3)
                     else
                       let c4 = set_reg (thumb_commit rl loaded [0..<8] c3) 13 (old_sp + 4 * n)
                       in if extra then
                            (ARM_OK, pcv AND NOT 1,
                             if pcv AND 1 = 0 then c4\<lparr>cpsr := cpsr c4 AND NOT ARM_CPSR_T\<rparr>
                             else c4)
                          else (ARM_OK, next, c4))"

definition thumb_push :: "'m arm_bus \<Rightarrow> 'm arm_cpu \<Rightarrow> u32 \<Rightarrow> bool \<Rightarrow> 'm arm_cpu" where
  "thumb_push b c rl extra =
     (let n = of_nat (list_count rl 8 + (if extra then 1 else 0)) :: u32;
          new_sp = regs c 13 - 4 * n
      in case prepare_multiword_address c new_sp 4 True of
           (None, c1) \<Rightarrow> c1
         | (Some addr, c1) \<Rightarrow>
             let c2 = stm_loop b rl (\<lambda>c' i. regs c' i) [0..<8] addr c1
             in if abort_pending c2 then c2
                else
                  let c3 = (if extra
                        then mem_w32 b c2 (addr + 4 * of_nat (list_count rl 8)) (regs c2 14)
                        else c2)
                  in if extra \<and> abort_pending c3 then c3 else set_reg c3 13 new_sp)"

definition thumb_push_pop ::
  "'m arm_bus \<Rightarrow> 'm arm_cpu \<Rightarrow> u16 \<Rightarrow> u32 \<Rightarrow> arm_status \<times> u32 \<times> 'm arm_cpu" where
  "thumb_push_pop b c insn next =
     (let rl = ucast (insn AND 0xff) :: u32; extra = bit insn 8
      in if rl = 0 \<and> \<not> extra then (ARM_UNDEFINED, next, c)
         else if bit insn 11 then thumb_pop b c rl extra next
         else (ARM_OK, next, thumb_push b c rl extra))"

definition thumb_block ::
  "'m arm_bus \<Rightarrow> 'm arm_cpu \<Rightarrow> u16 \<Rightarrow> arm_status \<times> 'm arm_cpu" where
  "thumb_block b c insn =
     (let rb = reg3 insn 8;
          rl = ucast (insn AND 0xff) :: u32;
          base = regs c rb;
          n = of_nat (list_count rl 8) :: u32;
          load = bit insn 11;
          lower = (if rb = 0 then 0 else shl 1 rb - 1)
      in if rl = 0 then (ARM_UNDEFINED, c)
         else if \<not> load \<and> bit rl rb \<and> rl AND lower \<noteq> 0 then (ARM_UNDEFINED, c)
         else case prepare_multiword_address c base 4 (\<not> load) of
           (None, c1) \<Rightarrow> (ARM_OK, c1)
         | (Some addr, c1) \<Rightarrow>
             if load then
               (let (loaded, c2) = ldm_loop b rl [0..<8] addr (\<lambda>_. 0) c1
                in if abort_pending c2 then (ARM_OK, c2)
                   else
                     let c3 = thumb_commit rl loaded [0..<8] c2
                     in (ARM_OK, if \<not> bit rl rb then set_reg c3 rb (base + 4 * n) else c3))
             else
               (let c2 = stm_loop b rl (\<lambda>c' i. regs c' i) [0..<8] addr c1
                in (ARM_OK, if abort_pending c2 then c2 else set_reg c2 rb (base + 4 * n))))"

section \<open>Miscellaneous 0xB space\<close>

definition thumb_extend :: "'m arm_cpu \<Rightarrow> u16 \<Rightarrow> 'm arm_cpu" where
  "thumb_extend c insn =
     (let rd = reg3 insn 0; v = regs c (reg3 insn 3); op = shr insn 6 AND 3
      in set_reg c rd (if op = 0 then sign16 v else if op = 1 then sign8 v
                       else if op = 2 then v AND 0xffff else v AND 0xff))"

definition thumb_rev :: "'m arm_cpu \<Rightarrow> u16 \<Rightarrow> arm_status \<times> 'm arm_cpu" where
  "thumb_rev c insn =
     (let rd = reg3 insn 0; v = regs c (reg3 insn 3); op = shr insn 6 AND 3
      in if op = 0 then
           (ARM_OK, set_reg c rd (shl (v AND 0xff) 24 OR shl (v AND 0xff00) 8 OR
                      (shr v 8 AND 0xff00) OR (shr v 24 AND 0xff)))
         else if op = 1 then
           (ARM_OK, set_reg c rd (shl (v AND 0x00ff) 8 OR shr (v AND 0xff00) 8 OR
                      shl (v AND 0x00ff0000) 8 OR shr (v AND 0xff000000) 8))
         else if op = 3 then
           (ARM_OK, set_reg c rd (sign16 (shl (v AND 0xff) 8 OR (shr v 8 AND 0xff))))
         else (ARM_UNDEFINED, c))"

text \<open>The three mask assignments a CPS makes, in ARM and in Thumb state.\<close>

definition cps_masks :: "'m arm_cpu \<Rightarrow> bool \<Rightarrow> bool \<Rightarrow> bool \<Rightarrow> bool \<Rightarrow> 'm arm_cpu" where
  "cps_masks c a i f disable =
     (let c1 = (if a then set_flag c ARM_CPSR_A disable else c);
          c2 = (if i then set_flag c1 ARM_CPSR_I disable else c1)
      in if f then set_flag c2 ARM_CPSR_F disable else c2)"

definition thumb_misc ::
  "'m arm_bus \<Rightarrow> 'm arm_cpu \<Rightarrow> u16 \<Rightarrow> u32 \<Rightarrow> arm_status \<times> u32 \<times> 'm arm_cpu" where
  "thumb_misc b c insn next =
     (if insn AND 0xff00 = 0xb000 then
        (let imm = shl (ucast (insn AND 0x7f)) 2 :: u32
         in (ARM_OK, next,
             set_reg c 13 (if bit insn 7 then regs c 13 - imm else regs c 13 + imm)))
      else if insn AND 0xf600 = 0xb400 then thumb_push_pop b c insn next
      else if insn AND 0xff00 = 0xb200 then (ARM_OK, next, thumb_extend c insn)
      else if insn AND 0xff00 = 0xba00 then (let (st, c1) = thumb_rev c insn in (st, next, c1))
      else if insn AND 0xffe0 = 0xb660 then
        (if \<not> cpu_is_priv c then (ARM_OK, next, c)
         else (ARM_OK, next,
               cps_masks c (bit insn 2) (bit insn 1) (bit insn 0) (bit insn 4)))
      else if insn AND 0xfff7 = 0xb650 then
        (if bit insn 3 then (ARM_UNDEFINED, next, c) else (ARM_OK, next, c))
      else (ARM_UNDEFINED, next, c))"

section \<open>Branches and SWI\<close>

definition thumb_swi ::
  "'m arm_bus \<Rightarrow> 'm arm_cpu \<Rightarrow> u32 \<Rightarrow> u16 \<Rightarrow> u32 \<Rightarrow> arm_status \<times> u32 \<times> 'm arm_cpu" where
  "thumb_swi b c pc insn next =
     (let (result, c1) = privileged_svc_result b c pc (ucast insn)
      in if result = ARM_SVC_ERROR then (ARM_HALT, next, c1)
         else if result = ARM_SVC_REDIRECTED then (ARM_OK, regs c1 15, c1)
         else if result \<noteq> ARM_SVC_HANDLED then
           (let (c2, vec) = take_exception c1 ARM_VEC_SWI ARM_MODE_SVC (pc + 2) False
            in (ARM_OK, vec, c2))
         else (ARM_OK, next, c1))"

definition thumb_cond_branch ::
  "'m arm_bus \<Rightarrow> 'm arm_cpu \<Rightarrow> u32 \<Rightarrow> u16 \<Rightarrow> u32 \<Rightarrow> arm_status \<times> u32 \<times> 'm arm_cpu" where
  "thumb_cond_branch b c pc insn next =
     (let cond = ucast (shr insn 8 AND 0xf) :: u32
      in if cond = 0xf then thumb_swi b c pc insn next
         else if cond = 0xe then (ARM_UNDEFINED, next, c)
         else (ARM_OK,
               if arm_cond_passed c cond
               then (pc + 4) + shl (sign8 (ucast (insn AND 0xff))) 1 else next, c))"

definition thumb_branch ::
  "'m arm_cpu \<Rightarrow> u32 \<Rightarrow> u16 \<Rightarrow> u32 \<times> 'm arm_cpu" where
  "thumb_branch c pc insn =
     (let imm = ucast (insn AND 0x7ff) :: u32
      in if insn AND 0x0800 \<noteq> 0 then
           (let target = (regs c 14 + shl imm 1) AND NOT 3;
                c1 = set_reg c 14 ((pc + 2) OR 1)
            in (target, c1\<lparr>cpsr := cpsr c1 AND NOT ARM_CPSR_T\<rparr>))
         else ((pc + 4) + signed_drop_bit 20 (shl imm 21), c))"

definition thumb_bl :: "'m arm_cpu \<Rightarrow> u32 \<Rightarrow> u16 \<Rightarrow> u32 \<Rightarrow> u32 \<times> 'm arm_cpu" where
  "thumb_bl c pc insn next =
     (let imm = ucast (insn AND 0x7ff) :: u32
      in if \<not> bit insn 11 then
           (next, set_reg c 14 ((pc + 4) + signed_drop_bit 9 (shl imm 21)))
         else ((regs c 14 + shl imm 1) AND NOT 1, set_reg c 14 ((pc + 2) OR 1)))"

section \<open>Dispatch\<close>

definition thumb_step ::
  "'m arm_bus \<Rightarrow> 'm arm_cpu \<Rightarrow> u32 \<Rightarrow> u16 \<Rightarrow> u32 \<Rightarrow> arm_status \<times> u32 \<times> 'm arm_cpu" where
  "thumb_step b c pc insn next =
     (let top = shr insn 12;
          ok = (\<lambda>c'. (ARM_OK, next, c'));
          pair = (\<lambda>(st, c'). (st, next, c'));
          jump = (\<lambda>(next', c'). (ARM_OK, next', c'))
      in if top = 0x0 \<or> top = 0x1 then
           ok (if insn AND 0xf800 = 0x1800 then thumb_add_sub c insn else thumb_shift_imm c insn)
         else if top = 0x2 \<or> top = 0x3 then ok (thumb_imm8 c insn)
         else if top = 0x4 then
           (if insn AND 0xfc00 = 0x4000 then ok (thumb_alu c insn)
            else if insn AND 0xfc00 = 0x4400 then thumb_hi_reg c pc insn next
            else ok (thumb_ldr_pc b c pc insn))
         else if top = 0x5 then pair (thumb_ls_reg b c insn)
         else if top = 0x6 \<or> top = 0x7 then ok (thumb_ls_imm b c insn)
         else if top = 0x8 then pair (thumb_ls_half b c insn)
         else if top = 0x9 then ok (thumb_ls_sp b c insn)
         else if top = 0xa then ok (thumb_add_pc_sp c pc insn)
         else if top = 0xb then thumb_misc b c insn next
         else if top = 0xc then pair (thumb_block b c insn)
         else if top = 0xd then thumb_cond_branch b c pc insn next
         else if top = 0xe then jump (thumb_branch c pc insn)
         else jump (thumb_bl c pc insn next))"

end
