(* ===== verification/Step.thy ===== *)
theory Step
  imports Cp15 Exec_Media Exec_Mem Thumb
begin

text \<open>
  \<open>arm_step\<close> of core/src/arm/arm_interp.c: one instruction. The mode check and the interrupt
  lines, the translated fetch with its block cache and prefetch abort, the Thumb dispatch, the
  unconditional space (CLREX, PLD, CPS, BLX, SRS, RFE, SETEND), the condition check, the ARM
  decode chain in the order of the code, and the tail that turns a latched abort or a refused
  encoding into its exception. \<open>vfp\<close> is the VFP unit.
\<close>

unbundle bit_operations_syntax

section \<open>Fetch\<close>

text \<open>
  The source of the instruction bytes: \<open>Inl fsr\<close> for a translation fault, otherwise a host
  pointer when the block is plain RAM, and the physical address for the bus when it is not.
\<close>

definition arm_fetch ::
  "'m arm_bus \<Rightarrow> 'm arm_cpu \<Rightarrow> u32 \<Rightarrow> (u32 + hptr option \<times> u32) \<times> 'm arm_cpu" where
  "arm_fetch b c pc =
     (let priv = cpu_is_priv c; blk = pc AND NOT 0x3ff;
          hit = (case fetch_host c of None \<Rightarrow> None
                 | Some h \<Rightarrow> if fetch_blk c = blk \<and> fetch_gen c = tlb_gen c \<and> fetch_priv c = priv
                             then Some (h + unat (pc - blk)) else None)
      in case hit of
           Some h \<Rightarrow> (Inr (Some h, 0), c)
         | None \<Rightarrow>
             let (fsr, pa, c1) = arm_mmu_translate b c pc ARM_ACCESS_FETCH priv 0
             in if fsr \<noteq> 0 then (Inl fsr, c1)
                else case host_ram b of
                  None \<Rightarrow> (Inr (None, pa), c1)
                | Some hr \<Rightarrow>
                    (case hr (ctx c1) (pa AND NOT 0x3ff) 0x400 of
                       None \<Rightarrow> (Inr (None, pa), c1)
                     | Some p \<Rightarrow>
                         (Inr (Some (p + unat (pc - blk)), pa),
                          c1\<lparr>fetch_host := Some p, fetch_blk := blk, fetch_gen := tlb_gen c1,
                             fetch_priv := priv\<rparr>)))"

definition prefetch_abort :: "'m arm_cpu \<Rightarrow> u32 \<Rightarrow> u32 \<Rightarrow> 'm arm_cpu" where
  "prefetch_abort c pc fsr =
     (let c1 = c\<lparr>cycles := cycles c + 1, cp15 := (cp15 c)\<lparr>ifsr := fsr, ifar := pc\<rparr>\<rparr>;
          (c2, vec) = take_exception c1 ARM_VEC_PREFETCH ARM_MODE_ABT (pc + 4) False
      in c2\<lparr>regs := (regs c2)(15 := vec)\<rparr>)"

definition fetch_thumb :: "'m arm_bus \<Rightarrow> 'm arm_cpu \<Rightarrow> hptr option \<Rightarrow> u32 \<Rightarrow> u16 \<times> 'm arm_cpu" where
  "fetch_thumb b c host pa =
     (case host of
        Some h \<Rightarrow> (ucast (load8 b (ctx c) h) OR shl (ucast (load8 b (ctx c) (h + 1))) 8, c)
      | None \<Rightarrow> (let (v, m) = read16 b (ctx c) pa in (v, c\<lparr>ctx := m\<rparr>)))"

definition fetch_arm :: "'m arm_bus \<Rightarrow> 'm arm_cpu \<Rightarrow> hptr option \<Rightarrow> u32 \<Rightarrow> u32 \<times> 'm arm_cpu" where
  "fetch_arm b c host pa =
     (case host of
        Some h \<Rightarrow>
          (ucast (load8 b (ctx c) h) OR shl (ucast (load8 b (ctx c) (h + 1))) 8 OR
           shl (ucast (load8 b (ctx c) (h + 2))) 16 OR shl (ucast (load8 b (ctx c) (h + 3))) 24, c)
      | None \<Rightarrow> (let (v, m) = read32 b (ctx c) pa in (v, c\<lparr>ctx := m\<rparr>)))"

section \<open>The unconditional space\<close>

definition exec_cps :: "'m arm_cpu \<Rightarrow> u32 \<Rightarrow> u32 \<Rightarrow> arm_status \<times> 'm arm_cpu" where
  "exec_cps c insn next =
     (if \<not> cpu_is_priv c then (ARM_OK, set_reg c 15 next)
      else
        let imod = shr insn 18 AND 3; chg_mode = bit insn 17
        in if chg_mode \<and> \<not> arm_mode_is_valid insn then (ARM_UNDEFINED, c)
           else
             let c1 = (if imod AND 2 \<noteq> 0
                       then cps_masks c (insn AND ARM_CPSR_A \<noteq> 0) (insn AND ARM_CPSR_I \<noteq> 0)
                              (insn AND ARM_CPSR_F \<noteq> 0) (imod AND 1 \<noteq> 0)
                       else c);
                 c2 = (if chg_mode then arm_set_mode c1 (insn AND ARM_CPSR_MODE_MASK) else c1)
             in (ARM_OK, set_reg c2 15 next))"

definition exec_blx_imm :: "'m arm_cpu \<Rightarrow> u32 \<Rightarrow> u32 \<Rightarrow> 'm arm_cpu" where
  "exec_blx_imm c pc insn =
     (let c1 = set_reg c 14 (pc + 4);
          c2 = c1\<lparr>cpsr := cpsr c1 OR ARM_CPSR_T\<rparr>
      in set_reg c2 15 ((pc + 8 + branch_offset insn + shl (shr insn 24 AND 1) 1) AND NOT 1))"

text \<open>The base address of the SRS and RFE forms.\<close>

definition srs_base :: "u32 \<Rightarrow> u32 \<Rightarrow> u32" where
  "srs_base insn sp =
     (if bit insn 23 then (if bit insn 24 then sp + 4 else sp)
      else (if bit insn 24 then sp - 8 else sp - 4))"

definition exec_srs ::
  "'m arm_bus \<Rightarrow> 'm arm_cpu \<Rightarrow> u32 \<Rightarrow> u32 \<Rightarrow> u32 \<Rightarrow> arm_status \<times> 'm arm_cpu" where
  "exec_srs b c pc insn next =
     (let mode = insn AND ARM_CPSR_MODE_MASK;
          cur_mode = cpsr c AND ARM_CPSR_MODE_MASK
      in if cur_mode = ARM_MODE_USR \<or> cur_mode = ARM_MODE_SYS then (ARM_UNDEFINED, c)
         else if \<not> arm_mode_is_valid mode then (ARM_UNDEFINED, c)
         else
           let tb = arm_bank_of_mode mode;
               cur = arm_bank_of_mode (cpsr c);
               sp = (if tb = cur then regs c 13 else bank_r13 c tb)
           in case prepare_multiword_address c (srs_base insn sp) 4 True of
                (None, c1) \<Rightarrow> (ARM_OK, take_pending_data_abort c1 pc)
              | (Some base, c1) \<Rightarrow>
                  let c2 = mem_w32 b c1 base (regs c1 14)
                  in if abort_pending c2 then (ARM_OK, take_pending_data_abort c2 pc)
                     else
                       let c3 = mem_w32 b c2 (base + 4) (spsr c2 cur)
                       in if abort_pending c3 then (ARM_OK, take_pending_data_abort c3 pc)
                          else
                            let wb = (if bit insn 23 then sp + 8 else sp - 8);
                                c4 = (if \<not> bit insn 21 then c3
                                      else if tb = cur then set_reg c3 13 wb
                                      else c3\<lparr>bank_r13 := (bank_r13 c3)(tb := wb)\<rparr>)
                            in (ARM_OK, set_reg c4 15 next))"

definition exec_rfe ::
  "'m arm_bus \<Rightarrow> 'm arm_cpu \<Rightarrow> u32 \<Rightarrow> u32 \<Rightarrow> arm_status \<times> 'm arm_cpu" where
  "exec_rfe b c pc insn =
     (let rn = reg4 insn 16
      in if \<not> cpu_is_priv c then (ARM_UNDEFINED, c)
         else if rn = 15 then (ARM_UNDEFINED, c)
         else
           let sp = regs c rn
           in case prepare_multiword_address c (srs_base insn sp) 4 False of
                (None, c1) \<Rightarrow> (ARM_OK, take_pending_data_abort c1 pc)
              | (Some base, c1) \<Rightarrow>
                  let (new_pc, c2) = mem_r32 b c1 base
                  in if abort_pending c2 then (ARM_OK, take_pending_data_abort c2 pc)
                     else
                       let (new_cpsr, c3) = mem_r32 b c2 (base + 4)
                       in if abort_pending c3 then (ARM_OK, take_pending_data_abort c3 pc)
                          else if \<not> arm_mode_is_valid new_cpsr then (ARM_UNDEFINED, c3)
                          else if new_cpsr AND ARM_CPSR_T = 0 \<and> new_pc AND 2 \<noteq> 0
                          then (ARM_UNDEFINED, c3)
                          else
                            let c4 = (if bit insn 21
                                      then set_reg c3 rn (if bit insn 23 then sp + 8 else sp - 8)
                                      else c3);
                                c5 = restore_psr c4 new_cpsr
                            in (ARM_OK, set_reg c5 15
                                 (new_pc AND (if cpsr c5 AND ARM_CPSR_T \<noteq> 0 then NOT 1
                                              else NOT 3))))"

definition exec_unconditional ::
  "'m arm_bus \<Rightarrow> 'm arm_cpu \<Rightarrow> u32 \<Rightarrow> u32 \<Rightarrow> u32 \<Rightarrow> arm_status \<times> 'm arm_cpu" where
  "exec_unconditional b c pc insn next =
     (if insn = 0xf57ff01f then (ARM_OK, set_reg (c\<lparr>excl_valid := False\<rparr>) 15 next)
      else if insn AND 0x0c00f000 = 0x0400f000 then (ARM_OK, set_reg c 15 next)
      else if insn AND 0xfff1fe20 = 0xf1000000 then exec_cps c insn next
      else if insn AND 0xfe000000 = 0xfa000000 then (ARM_OK, exec_blx_imm c pc insn)
      else if insn AND 0xfe5fffe0 = 0xf84d0500 then exec_srs b c pc insn next
      else if insn AND 0xfe50ffff = 0xf8100a00 then exec_rfe b c pc insn
      else if insn AND 0xfffffdff = 0xf1010000 then
        (if bit insn 9 then (ARM_UNDEFINED, c) else (ARM_OK, set_reg c 15 next))
      else undefined_instruction c pc insn)"

section \<open>The conditional decode chain\<close>

definition exec_swi ::
  "'m arm_bus \<Rightarrow> 'm arm_cpu \<Rightarrow> u32 \<Rightarrow> u32 \<Rightarrow> u32 \<Rightarrow> arm_status \<times> u32 \<times> 'm arm_cpu" where
  "exec_swi b c pc insn next =
     (let (result, c1) = privileged_svc_result b c pc insn
      in if result = ARM_SVC_ERROR then (ARM_HALT, next, c1)
         else if result = ARM_SVC_REDIRECTED then (ARM_OK, regs c1 15, c1)
         else if result \<noteq> ARM_SVC_HANDLED then
           (let (c2, vec) = take_exception c1 ARM_VEC_SWI ARM_MODE_SVC (pc + 4) False
            in (ARM_OK, vec, c2))
         else (ARM_OK, next, c1))"

text \<open>The synchronisation arms: the exclusives and SWP, then the reserved rest of the space.\<close>

definition exec_sync :: "'m arm_bus \<Rightarrow> 'm arm_cpu \<Rightarrow> u32 \<Rightarrow> arm_status \<times> 'm arm_cpu" where
  "exec_sync b c insn =
     (if insn AND 0x0ff00ff0 = 0x01900f90 then exec_ldrex b c insn
      else if insn AND 0x0ff00ff0 = 0x01800f90 then exec_strex b c insn
      else if insn AND 0x0ff00ff0 = 0x01b00f90 then exec_ldrexd b c insn
      else if insn AND 0x0ff00ff0 = 0x01a00f90 then exec_strexd b c insn
      else if insn AND 0x0ff00ff0 = 0x01d00f90 then exec_ldrexb b c insn
      else if insn AND 0x0ff00ff0 = 0x01c00f90 then exec_strexb b c insn
      else if insn AND 0x0ff00ff0 = 0x01f00f90 then exec_ldrexh b c insn
      else if insn AND 0x0ff00ff0 = 0x01e00f90 then exec_strexh b c insn
      else if insn AND 0x0fb00ff0 = 0x01000090 then exec_swap b c insn
      else (ARM_UNDEFINED, c))"

text \<open>
  The chain. The C lists the arms of \<open>exec_sync\<close> inline; each of them requires
  \<open>insn AND 0x0e000090 = 0x90\<close>, the condition under which the chain reaches its reserved arm.
\<close>

definition exec_conditional ::
  "'m vfp_unit \<Rightarrow> 'm arm_bus \<Rightarrow> 'm arm_cpu \<Rightarrow> u32 \<Rightarrow> u32 \<Rightarrow> u32 \<Rightarrow> arm_status \<times> u32 \<times> 'm arm_cpu"
where
  "exec_conditional vfp b c pc insn next =
     (let pair = (\<lambda>(st, c'). (st, next, c'))
      in if insn AND 0x0c000000 = 0 \<and> insn AND 0x01900000 \<noteq> 0x01000000 \<and>
            \<not> (insn AND 0x0e000000 = 0 \<and> insn AND 0x90 = 0x90)
         then exec_data_processing c pc insn next
         else if insn AND 0x0f000000 = 0x0a000000 \<or> insn AND 0x0f000000 = 0x0b000000
         then exec_branch c pc insn
         else if insn AND 0x0fc000f0 = 0x00000090 then pair (exec_multiply c pc insn)
         else if insn AND 0x0f8000f0 = 0x00800090 then pair (exec_multiply_long c pc insn)
         else if insn AND 0x0f900090 = 0x01000080 then pair (exec_dsp_multiply c insn)
         else if insn AND 0x0e000000 = 0x06000000 \<and> insn AND 0x10 \<noteq> 0
         then pair (exec_media c pc insn)
         else if insn AND 0x0c000000 = 0x04000000 then exec_single_transfer b c pc insn next
         else if insn AND 0x0e000000 = 0x08000000 then exec_block_transfer b c pc insn next
         else if insn AND 0x0e000000 = 0 \<and> insn AND 0x90 = 0x90 \<and> insn AND 0x60 \<noteq> 0
         then pair (exec_extra_transfer b c pc insn)
         else if insn AND 0x0e000000 = 0 \<and> insn AND 0x90 = 0x90 then pair (exec_sync b c insn)
         else if insn AND 0x0f000010 = 0x0e000010 then pair (exec_coprocessor vfp b c pc insn)
         else if insn AND 0x0f000e10 = 0x0e000a00 \<or> insn AND 0x0e000e00 = 0x0c000a00
         then pair (vfp b c pc insn)
         else if insn AND 0x0f000000 = 0x0f000000 then exec_swi b c pc insn next
         else if insn AND 0x0c000000 = 0 then exec_data_processing c pc insn next
         else (ARM_UNDEFINED, next, c))"

section \<open>The step\<close>

definition finish_thumb ::
  "u32 \<Rightarrow> arm_status \<times> u32 \<times> 'm arm_cpu \<Rightarrow> arm_status \<times> 'm arm_cpu" where
  "finish_thumb pc r =
     (let (st, next, c) = r
      in if st = ARM_HALT then (ARM_HALT, c)
         else if abort_pending c then (ARM_OK, take_pending_data_abort c pc)
         else (st, if st = ARM_OK then set_reg c 15 next else c))"

text \<open>
  The tail. The SVC arm returns ARM_HALT at once; otherwise a latched abort comes before a
  refused encoding.
\<close>

definition finish_arm ::
  "u32 \<Rightarrow> u32 \<Rightarrow> arm_status \<times> u32 \<times> 'm arm_cpu \<Rightarrow> arm_status \<times> 'm arm_cpu" where
  "finish_arm pc insn r =
     (let (st, next, c) = r
      in if st = ARM_HALT \<and> insn AND 0x0f000000 = 0x0f000000 then (ARM_HALT, c)
         else if abort_pending c then (ARM_OK, take_pending_data_abort c pc)
         else if st = ARM_GUEST_UNDEFINED then take_undefined_instruction c pc
         else if st = ARM_UNDEFINED then undefined_instruction c pc insn
         else (st, if st = ARM_OK then set_reg c 15 next else c))"

definition exec_arm ::
  "'m vfp_unit \<Rightarrow> 'm arm_bus \<Rightarrow> 'm arm_cpu \<Rightarrow> u32 \<Rightarrow> u32 \<Rightarrow> arm_status \<times> 'm arm_cpu" where
  "exec_arm vfp b c pc insn =
     (let next = pc + 4; cond = shr insn 28
      in if cond = 0xf then exec_unconditional b c pc insn next
         else if cond \<noteq> 0xe \<and> \<not> arm_cond_passed c cond then (ARM_OK, set_reg c 15 next)
         else finish_arm pc insn (exec_conditional vfp b c pc insn next))"

definition take_interrupt :: "'m arm_cpu \<Rightarrow> u32 \<Rightarrow> u32 \<Rightarrow> u32 \<Rightarrow> bool \<Rightarrow> 'm arm_cpu" where
  "take_interrupt c pc vector mode mask_fiq =
     (let (c1, vec) = take_exception (c\<lparr>cycles := cycles c + 1\<rparr>) vector mode (pc + 4) mask_fiq
      in set_reg c1 15 vec)"

definition arm_step ::
  "'m vfp_unit \<Rightarrow> 'm arm_bus \<Rightarrow> 'm arm_cpu \<Rightarrow> arm_status \<times> 'm arm_cpu" where
  "arm_step vfp b c =
     (let pc = regs c 15
      in if \<not> arm_mode_is_valid (cpsr c) then (ARM_UNDEFINED, c)
         else if fiq_line c \<and> cpsr c AND ARM_CPSR_F = 0
         then (ARM_OK, take_interrupt c pc ARM_VEC_FIQ ARM_MODE_FIQ True)
         else if irq_line c \<and> cpsr c AND ARM_CPSR_I = 0
         then (ARM_OK, take_interrupt c pc ARM_VEC_IRQ ARM_MODE_IRQ False)
         else case arm_fetch b c pc of
           (Inl fsr, c1) \<Rightarrow> (ARM_OK, prefetch_abort c1 pc fsr)
         | (Inr (host, pa), c1) \<Rightarrow>
             if cpsr c1 AND ARM_CPSR_T \<noteq> 0 then
               (let (tinsn, c2) = fetch_thumb b c1 host pa
                in finish_thumb pc
                     (thumb_step b (c2\<lparr>cycles := cycles c2 + 1\<rparr>) pc tinsn (pc + 2)))
             else
               (let (insn, c2) = fetch_arm b c1 host pa
                in exec_arm vfp b (c2\<lparr>cycles := cycles c2 + 1\<rparr>) pc insn))"

end
