(* ===== verification/Frame.thy ===== *)
theory Frame
  imports Step
begin

text \<open>
  What an instruction may leave behind. \<open>full_view\<close> is the privileged part of the CPU: mode, T and
  the interrupt masks of CPSR, CP15, the banks, the saved status registers, the lines and the
  cycle count; \<open>sys_view\<close> is the same without T. The lemmas show which operations keep them:
  every ALU, media, multiply, load, store and exclusive operation does, and the interworking
  forms change T alone.
\<close>

unbundle bit_operations_syntax

definition view_of :: "u32 \<Rightarrow> 'm arm_cpu \<Rightarrow>
  u32 \<times> arm_arch \<times> arm_cp15 \<times> (arm_bank \<Rightarrow> u32) \<times> (arm_bank \<Rightarrow> u32) \<times> (arm_bank \<Rightarrow> u32) \<times>
  (nat \<Rightarrow> u32) \<times> (nat \<Rightarrow> u32) \<times> bool \<times> bool \<times> u64" where
  "view_of m c =
     (cpsr c AND m, arch c, cp15 c, spsr c, bank_r13 c, bank_r14 c, fiq_r8_12 c, usr_r8_12 c,
      irq_line c, fiq_line c, cycles c)"

definition full_view where "full_view c = view_of 0x3ff c"
definition sys_view where "sys_view c = view_of 0x3df c"

lemma full_view_eq: "full_view c' = full_view c \<longleftrightarrow>
    cpsr c' AND 0x3ff = cpsr c AND 0x3ff \<and> arch c' = arch c \<and> cp15 c' = cp15 c \<and>
    spsr c' = spsr c \<and> bank_r13 c' = bank_r13 c \<and> bank_r14 c' = bank_r14 c \<and>
    fiq_r8_12 c' = fiq_r8_12 c \<and> usr_r8_12 c' = usr_r8_12 c \<and> irq_line c' = irq_line c \<and>
    fiq_line c' = fiq_line c \<and> cycles c' = cycles c"
  by (simp add: full_view_def view_of_def)

lemma sys_view_eq: "sys_view c' = sys_view c \<longleftrightarrow>
    cpsr c' AND 0x3df = cpsr c AND 0x3df \<and> arch c' = arch c \<and> cp15 c' = cp15 c \<and>
    spsr c' = spsr c \<and> bank_r13 c' = bank_r13 c \<and> bank_r14 c' = bank_r14 c \<and>
    fiq_r8_12 c' = fiq_r8_12 c \<and> usr_r8_12 c' = usr_r8_12 c \<and> irq_line c' = irq_line c \<and>
    fiq_line c' = fiq_line c \<and> cycles c' = cycles c"
  by (simp add: sys_view_def view_of_def)

lemma field_of_field:
  fixes x y m n :: u32
  assumes "x AND m = y AND m" and "m AND n = n"
  shows "x AND n = y AND n"
proof -
  have "x AND n = (x AND m) AND n" "y AND n = (y AND m) AND n"
    using assms(2) by (simp_all add: and.assoc)
  then show ?thesis using assms(1) by simp
qed

lemma full_view_sys: "full_view c' = full_view c \<Longrightarrow> sys_view c' = sys_view c"
  unfolding full_view_eq sys_view_eq
  by (elim conjE, intro conjI) (erule field_of_field, simp, assumption+)

lemma full_view_T: "full_view c' = full_view c \<Longrightarrow> cpsr c' AND 0x20 = cpsr c AND 0x20"
  unfolding full_view_eq by (elim conjE) (erule field_of_field, simp)

lemma full_view_mode: "full_view c' = full_view c \<Longrightarrow> cpsr c' AND 0x1f = cpsr c AND 0x1f"
  unfolding full_view_eq by (elim conjE) (erule field_of_field, simp)

lemma sys_view_mode: "sys_view c' = sys_view c \<Longrightarrow> cpsr c' AND 0x1f = cpsr c AND 0x1f"
  unfolding sys_view_eq by (elim conjE) (erule field_of_field, simp)

section \<open>Updates outside the view\<close>

lemma full_view_updates [simp]:
  "full_view (c\<lparr>regs := x1\<rparr>) = full_view c" "full_view (c\<lparr>ctx := x2\<rparr>) = full_view c"
  "full_view (c\<lparr>abort_pending := x3\<rparr>) = full_view c" "full_view (c\<lparr>abort_fsr := x4\<rparr>) = full_view c"
  "full_view (c\<lparr>abort_far := x5\<rparr>) = full_view c" "full_view (c\<lparr>excl_valid := x6\<rparr>) = full_view c"
  "full_view (c\<lparr>excl_addr := x7\<rparr>) = full_view c" "full_view (c\<lparr>tlb := x8\<rparr>) = full_view c"
  "full_view (c\<lparr>tlb_gen := x9\<rparr>) = full_view c" "full_view (c\<lparr>tlb_stamp := y1\<rparr>) = full_view c"
  "full_view (c\<lparr>tlb_hits := y2\<rparr>) = full_view c" "full_view (c\<lparr>tlb_misses := y3\<rparr>) = full_view c"
  "full_view (c\<lparr>tlb_flushes := y4\<rparr>) = full_view c" "full_view (c\<lparr>dread := y5\<rparr>) = full_view c"
  "full_view (c\<lparr>dwrite := y6\<rparr>) = full_view c" "full_view (c\<lparr>dread_hits := y7\<rparr>) = full_view c"
  "full_view (c\<lparr>dread_misses := y8\<rparr>) = full_view c" "full_view (c\<lparr>dwrite_hits := y9\<rparr>) = full_view c"
  "full_view (c\<lparr>dwrite_misses := z1\<rparr>) = full_view c" "full_view (c\<lparr>fetch_host := z2\<rparr>) = full_view c"
  "full_view (c\<lparr>fetch_blk := z3\<rparr>) = full_view c" "full_view (c\<lparr>fetch_gen := z4\<rparr>) = full_view c"
  "full_view (c\<lparr>fetch_priv := z5\<rparr>) = full_view c"
  by (simp_all add: full_view_eq)

lemma sys_view_updates [simp]:
  "sys_view (c\<lparr>regs := x1\<rparr>) = sys_view c" "sys_view (c\<lparr>ctx := x2\<rparr>) = sys_view c"
  "sys_view (c\<lparr>excl_valid := x6\<rparr>) = sys_view c" "sys_view (c\<lparr>excl_addr := x7\<rparr>) = sys_view c"
  by (simp_all add: sys_view_eq)

lemma full_view_set_reg [simp]: "full_view (set_reg c n v) = full_view c"
  by (simp add: set_reg_def)

lemma sys_view_set_reg [simp]: "sys_view (set_reg c n v) = sys_view c"
  by (simp add: set_reg_def)

lemma full_view_cpsr:
  assumes "w AND 0x3ff = cpsr c AND 0x3ff"
  shows "full_view (c\<lparr>cpsr := w\<rparr>) = full_view c"
  using assms by (simp add: full_view_eq)

lemma full_view_flag:
  assumes "bt AND 0x3ff = 0"
  shows "full_view (set_flag c bt on) = full_view c"
  using assms set_flag_field [of bt "0x3ff" c on] by (simp add: full_view_eq)
    (simp add: set_flag_def)

lemma sys_view_T [simp]:
  "sys_view (c\<lparr>cpsr := cpsr c OR 0x20\<rparr>) = sys_view c"
  "sys_view (c\<lparr>cpsr := cpsr c AND - 33\<rparr>) = sys_view c"
  by (simp_all add: sys_view_eq or_disjoint_field and.assoc)

lemma full_view_flags [simp]:
  "full_view (set_flag c ARM_CPSR_N on) = full_view c"
  "full_view (set_flag c ARM_CPSR_Z on) = full_view c"
  "full_view (set_flag c ARM_CPSR_C on) = full_view c"
  "full_view (set_flag c ARM_CPSR_V on) = full_view c"
  "full_view (c\<lparr>cpsr := cpsr c OR ARM_CPSR_Q\<rparr>) = full_view c"
  by (simp_all add: full_view_flag full_view_cpsr or_disjoint_field)

section \<open>ALU, multiplies and media\<close>

lemma full_view_alu [simp]:
  "full_view (snd (alu_add c a b cin st)) = full_view c"
  "full_view (snd (alu_sub c a b cin st)) = full_view c"
  "full_view (alu_logic_flags c r carry st) = full_view c"
  "full_view (snd (dsp_accumulate_word c p acc)) = full_view c"
  by (simp_all add: alu_add_def alu_sub_def alu_logic_flags_def dsp_accumulate_word_def Let_def)

text \<open>Distribution of a view and of the projections over the case distinctions of a handler.\<close>

lemmas view_ifs = if_distrib [where f = full_view] if_distrib [where f = sys_view]
  if_distrib [where f = snd] if_distrib [where f = fst]

lemma full_view_dp_alu [simp]: "full_view (snd (dp_alu c opcode S a op2 sc)) = full_view c"
  by (simp add: dp_alu_def Let_def view_ifs split_beta)

lemma full_view_multiply [simp]:
  "full_view (snd (exec_multiply c pc insn)) = full_view c"
  "full_view (snd (exec_multiply_long c pc insn)) = full_view c"
  "full_view (snd (exec_dsp_multiply c insn)) = full_view c"
  by (simp_all add: exec_multiply_def exec_multiply_long_def exec_dsp_multiply_def Let_def view_ifs
      split_beta)

lemma full_view_media_groups [simp]:
  "full_view (snd (media_rev f c pc insn)) = full_view c"
  "full_view (snd (media_divide c insn)) = full_view c"
  "full_view (snd (media_pack c pc insn)) = full_view c"
  "full_view (snd (media_select c pc insn)) = full_view c"
  "full_view (snd (media_smlad c pc insn)) = full_view c"
  "full_view (snd (media_smlald c pc insn)) = full_view c"
  "full_view (snd (media_smmul c pc insn)) = full_view c"
  "full_view (snd (media_usad8 c pc insn)) = full_view c"
  "full_view (snd (media_sat c pc insn)) = full_view c"
  "full_view (snd (media_sat16 c pc insn)) = full_view c"
  by (simp_all add: media_rev_def media_divide_def media_pack_def media_select_def media_smlad_def
      media_smlald_def media_smmul_def media_usad8_def media_sat_def media_sat16_def Let_def
      view_ifs split_beta)

lemma full_view_extend [simp]: "full_view (snd (media_extend c pc insn)) = full_view c"
  by (simp add: media_extend_def Let_def view_ifs split: option.split)

lemma full_view_parallel [simp]: "full_view (snd (media_parallel c pc insn)) = full_view c"
proof -
  have "((w AND NOT (shl 0xf 16)) OR shl (g AND 0xf) 16) AND 0x3ff = w AND 0x3ff" for w g :: u32
  proof -
    have low_ten: "(0x3ff :: u32) = mask 10" by (simp add: mask_eq_exp_minus_1)
    have g: "shl (g AND 0xf) 16 AND 0x3ff = 0"
      unfolding low_ten by (rule bit_word_eqI) (auto simp: bit_simps)
    show ?thesis by (subst or_disjoint_field [OF g]) (simp add: and.assoc)
  qed
  then have "full_view (c'\<lparr>cpsr := (cpsr c' AND NOT (shl 0xf 16)) OR shl (g AND 0xf) 16\<rparr>) = full_view c'"
    for c' :: "'a arm_cpu" and g
    by (intro full_view_cpsr) simp
  then show ?thesis
    by (simp add: media_parallel_def Let_def view_ifs split_beta)
qed

lemma full_view_media [simp]: "full_view (snd (exec_media c pc insn)) = full_view c"
  by (simp add: exec_media_def view_ifs)

section \<open>Memory accesses\<close>

text \<open>
  An access moves only the platform, the translation caches and the abort latch. \<open>core_view\<close> is
  everything else: the whole architectural state but the latch.
\<close>

definition core_view where
  "core_view c =
     (regs c, cpsr c, full_view c, excl_valid c, excl_addr c, vfp_fpexc c, vfp_fpscr c, vfp_s c)"

lemma core_view_eq: "core_view c' = core_view c \<longleftrightarrow>
    regs c' = regs c \<and> cpsr c' = cpsr c \<and> full_view c' = full_view c \<and>
    excl_valid c' = excl_valid c \<and> excl_addr c' = excl_addr c \<and> vfp_fpexc c' = vfp_fpexc c \<and>
    vfp_fpscr c' = vfp_fpscr c \<and> vfp_s c' = vfp_s c"
  by (auto simp: core_view_def)

lemma core_view_full: "core_view c' = core_view c \<Longrightarrow> full_view c' = full_view c"
  by (simp add: core_view_eq)

lemma core_view_updates [simp]:
  "core_view (c\<lparr>ctx := x2\<rparr>) = core_view c"
  "core_view (c\<lparr>abort_pending := x3\<rparr>) = core_view c" "core_view (c\<lparr>abort_fsr := x4\<rparr>) = core_view c"
  "core_view (c\<lparr>abort_far := x5\<rparr>) = core_view c" "core_view (c\<lparr>tlb := x8\<rparr>) = core_view c"
  "core_view (c\<lparr>tlb_gen := x9\<rparr>) = core_view c" "core_view (c\<lparr>tlb_stamp := y1\<rparr>) = core_view c"
  "core_view (c\<lparr>tlb_hits := y2\<rparr>) = core_view c" "core_view (c\<lparr>tlb_misses := y3\<rparr>) = core_view c"
  "core_view (c\<lparr>tlb_flushes := y4\<rparr>) = core_view c" "core_view (c\<lparr>dread := y5\<rparr>) = core_view c"
  "core_view (c\<lparr>dwrite := y6\<rparr>) = core_view c" "core_view (c\<lparr>dread_hits := y7\<rparr>) = core_view c"
  "core_view (c\<lparr>dread_misses := y8\<rparr>) = core_view c" "core_view (c\<lparr>dwrite_hits := y9\<rparr>) = core_view c"
  "core_view (c\<lparr>dwrite_misses := z1\<rparr>) = core_view c" "core_view (c\<lparr>fetch_host := z2\<rparr>) = core_view c"
  "core_view (c\<lparr>fetch_blk := z3\<rparr>) = core_view c" "core_view (c\<lparr>fetch_gen := z4\<rparr>) = core_view c"
  "core_view (c\<lparr>fetch_priv := z5\<rparr>) = core_view c"
  by (simp_all add: core_view_def)

lemmas core_ifs = if_distrib [where f = core_view] if_distrib [where f = snd]
  if_distrib [where f = fst]

lemma core_view_notes [simp]:
  "core_view (note_abort c fsr va) = core_view c"
  "core_view (note_alignment_abort c va wr) = core_view c"
  by (simp_all add: note_abort_def note_alignment_abort_def)

lemma core_view_flush [simp]: "core_view (arm_mmu_tlb_flush c) = core_view c"
  by (simp add: arm_mmu_tlb_flush_def Let_def)

lemma core_view_prepare [simp]: "core_view (tlb_prepare c) = core_view c"
  by (simp add: tlb_prepare_def Let_def)

lemma mmu_descriptor_core:
  "mmu_descriptor b c ram a = Some (v, c') \<Longrightarrow> core_view c' = core_view c"
  by (auto simp: mmu_descriptor_def Let_def split: option.splits if_splits prod.splits)

lemma core_view_walk [simp]: "core_view (snd (snd (mmu_walk b c va acc priv pa ram))) = core_view c"
  by (auto simp: mmu_walk_def Let_def split_beta core_ifs dest!: mmu_descriptor_core
      split: option.split)

lemma core_view_translate [simp]:
  "core_view (snd (snd (arm_mmu_translate b c va acc priv pa))) = core_view c"
  by (simp add: arm_mmu_translate_def Let_def split_beta core_ifs split: option.split)

lemma core_view_read_loop [simp]:
  "core_view (snd (mem_read_crossing_loop b va priv i k val page_pa c)) = core_view c"
  by (induction k arbitrary: i val page_pa c)
    (simp_all add: Let_def split_beta core_ifs)

lemma core_view_write_loop [simp]:
  "core_view (mem_write_crossing_loop b va v priv i k page_pa c) = core_view c"
  by (induction k arbitrary: i page_pa c)
    (simp_all add: Let_def split_beta core_ifs)

lemma core_view_caches [simp]:
  "core_view (snd (dread_hit c va n priv)) = core_view c"
  "core_view (snd (dwrite_hit b c va n priv)) = core_view c"
  "core_view (dread_fill b c va pa priv) = core_view c"
  "core_view (dwrite_fill b c va pa priv) = core_view c"
  by (simp_all add: dread_hit_def dwrite_hit_def dread_fill_def dwrite_fill_def Let_def core_ifs
      split: option.split)

lemma core_view_read_as [simp]: "core_view (snd (mem_read_as b w c va priv)) = core_view c"
proof -
  have h: "core_view c' = core_view c" if "dread_hit c va' n priv = (h, c')" for va' n h c'
    using core_view_caches(1) [of c va' n priv] that by simp
  show ?thesis
    by (auto simp: mem_read_as_def mem_read_crossing_def Let_def split_beta core_ifs
        split: prod.split option.split dest!: h)
qed

lemma core_view_write_as [simp]: "core_view (mem_write_as b w c va v priv) = core_view c"
proof -
  have h: "core_view c' = core_view c" if "dwrite_hit b c va' n priv = (h, c')" for va' n h c'
    using core_view_caches(2) [of b c va' n priv] that by simp
  show ?thesis
    by (auto simp: mem_write_as_def mem_write_crossing_def Let_def split_beta core_ifs
        split: prod.split option.split dest!: h)
qed

lemma core_view_mem [simp]:
  "core_view (snd (mem_r32 b c va)) = core_view c" "core_view (snd (mem_r16 b c va)) = core_view c"
  "core_view (snd (mem_r8 b c va)) = core_view c" "core_view (mem_w32 b c va v) = core_view c"
  "core_view (mem_w16 b c va v) = core_view c" "core_view (mem_w8 b c va v) = core_view c"
  by (simp_all add: mem_r32_def mem_r16_def mem_r8_def mem_w32_def mem_w16_def mem_w8_def)

lemma core_view_prepare_address [simp]:
  "core_view (snd (prepare_multiword_address c va al wr)) = core_view c"
  "core_view (snd (prepare_sync_address c va al wr)) = core_view c"
  by (simp_all add: prepare_multiword_address_def prepare_sync_address_def Let_def core_ifs)

text \<open>A memory operation keeps the privileged view.\<close>

lemmas mem_full_view [simp] =
  core_view_translate [THEN core_view_full] core_view_read_as [THEN core_view_full]
  core_view_write_as [THEN core_view_full] core_view_notes [THEN core_view_full]
  core_view_flush [THEN core_view_full] core_view_mem [THEN core_view_full]
  core_view_prepare_address [THEN core_view_full]

lemmas mem_sys_view [simp] = mem_full_view [THEN full_view_sys]

section \<open>Loads, stores and exclusives\<close>

lemma full_view_interwork [simp]: "sys_view (snd (load_pc_interwork c val)) = sys_view c"
  by (simp add: load_pc_interwork_def)

lemma sys_view_single [simp]:
  "sys_view (snd (snd (exec_single_transfer b c pc insn next))) = sys_view c"
  by (simp add: exec_single_transfer_def Let_def split_beta view_ifs split del: if_split cong del: if_weak_cong)

lemma full_view_extra_doubleword [simp]:
  "full_view (extra_doubleword b c pc store rd addr) = full_view c"
proof -
  have p: "full_view c1 = full_view c" if "prepare_multiword_address c addr 4 store = (r, c1)" for r c1
    using mem_full_view(13) [of c addr 4 store] that by simp
  show ?thesis
    by (auto simp: extra_doubleword_def Let_def split_beta view_ifs dest!: p
        split: prod.split option.split)
qed

lemma full_view_extra_half [simp]: "full_view (extra_half b c pc load sh rd addr) = full_view c"
  by (simp add: extra_half_def Let_def split_beta view_ifs split del: if_split cong del: if_weak_cong)

lemma full_view_extra [simp]: "full_view (snd (exec_extra_transfer b c pc insn)) = full_view c"
  by (simp add: exec_extra_transfer_def Let_def split_beta view_ifs split del: if_split cong del: if_weak_cong)

lemma core_view_ldm_loop [simp]: "core_view (snd (ldm_loop b rl is addr loaded c)) = core_view c"
  by (induction "is" arbitrary: addr loaded c) (simp_all add: Let_def split_beta core_ifs)

lemma core_view_stm_loop [simp]: "core_view (stm_loop b rl value is addr c) = core_view c"
  by (induction "is" arbitrary: addr c) (simp_all add: Let_def)

lemmas loop_full_view [simp] =
  core_view_ldm_loop [THEN core_view_full] core_view_stm_loop [THEN core_view_full]

lemmas loop_sys_view [simp] = loop_full_view [THEN full_view_sys]

lemma sys_view_ldm_commit [simp]:
  "sys_view (snd (ldm_commit rl False restore loaded is next c)) = sys_view c"
  by (cases restore; induction "is" arbitrary: "next" c) (simp_all add: Let_def split_beta)

text \<open>Without the S bit a block transfer keeps the privileged view.\<close>

lemma sys_view_block [simp]:
  assumes "\<not> bit insn 22"
  shows "sys_view (snd (snd (exec_block_transfer b c pc insn next))) = sys_view c"
proof -
  have p: "sys_view c1 = sys_view c" if "prepare_multiword_address c a 4 wr = (r, c1)" for a wr r c1
    using mem_sys_view(13) [of c a 4 wr] that by simp
  show ?thesis
    using assms
    by (auto simp: exec_block_transfer_def Let_def split_beta view_ifs dest!: p
        split: prod.split option.split split del: if_split cong del: if_weak_cong)
qed

lemma sync_address_view:
  "prepare_sync_address c a al wr = (r, c1) \<Longrightarrow> full_view c1 = full_view c"
  using mem_full_view(14) [of c a al wr] by simp

lemma translate_full_view:
  "arm_mmu_translate b c va acc priv pa = (f, p, c1) \<Longrightarrow> full_view c1 = full_view c"
  using mem_full_view(1) [of b c va acc priv pa] by simp

lemma full_view_exclusives [simp]:
  "full_view (snd (exec_ldrex b c insn)) = full_view c"
  "full_view (snd (exec_ldrexd b c insn)) = full_view c"
  "full_view (snd (exec_ldrexb b c insn)) = full_view c"
  "full_view (snd (exec_ldrexh b c insn)) = full_view c"
  "full_view (snd (exec_strexb b c insn)) = full_view c"
  by (auto simp: exec_ldrex_def exec_ldrexd_def exec_ldrexb_def exec_ldrexh_def exec_strexb_def
      Let_def split_beta view_ifs dest!: sync_address_view
      split: prod.split sum.split split del: if_split cong del: if_weak_cong)

lemma full_view_store_exclusives [simp]:
  "full_view (snd (exec_strex b c insn)) = full_view c"
  "full_view (snd (exec_strexd b c insn)) = full_view c"
  "full_view (snd (exec_strexh b c insn)) = full_view c"
  "full_view (snd (exec_swap b c insn)) = full_view c"
  by (auto simp: exec_strex_def exec_strexd_def exec_strexh_def exec_swap_def
      Let_def split_beta view_ifs dest!: sync_address_view translate_full_view
      split: prod.split sum.split split del: if_split cong del: if_weak_cong)

lemma full_view_sync [simp]: "full_view (snd (exec_sync b c insn)) = full_view c"
  by (simp add: exec_sync_def view_ifs)

section \<open>Thumb\<close>

lemma full_view_thumb_alu [simp]:
  "full_view (thumb_add_sub c t) = full_view c" "full_view (thumb_shift_imm c t) = full_view c"
  "full_view (thumb_imm8 c t) = full_view c" "full_view (thumb_alu c t) = full_view c"
  "full_view (thumb_add_pc_sp c pc t) = full_view c" "full_view (thumb_extend c t) = full_view c"
  "full_view (snd (thumb_rev c t)) = full_view c" "full_view (snd (thumb_bl c pc t next)) = full_view c"
  by (simp_all add: thumb_add_sub_def thumb_shift_imm_def thumb_imm8_def thumb_alu_def
      thumb_add_pc_sp_def thumb_extend_def thumb_rev_def thumb_bl_def Let_def split_beta view_ifs
      split del: if_split cong del: if_weak_cong)

lemma sys_view_thumb_branches [simp]:
  "sys_view (snd (snd (thumb_hi_reg c pc t next))) = sys_view c"
  "sys_view (snd (thumb_branch c pc t)) = sys_view c"
  by (simp_all add: thumb_hi_reg_def thumb_branch_def Let_def split_beta view_ifs
      full_view_alu(2) [THEN full_view_sys] split del: if_split cong del: if_weak_cong)

lemma full_view_thumb_load: "full_view (thumb_load rd r) = full_view (snd r)"
  by (simp add: thumb_load_def split_beta)

lemma full_view_thumb_mem [simp]:
  "full_view (thumb_ldr_pc b c pc t) = full_view c"
  "full_view (thumb_word_byte b c load byt rd addr) = full_view c"
  "full_view (snd (thumb_ls_reg b c t)) = full_view c"
  "full_view (thumb_ls_imm b c t) = full_view c"
  "full_view (snd (thumb_ls_half b c t)) = full_view c"
  "full_view (thumb_ls_sp b c t) = full_view c"
proof -
  show wb: "full_view (thumb_word_byte b c load byt rd addr) = full_view c" for c load byt rd addr
    by (simp add: thumb_word_byte_def full_view_thumb_load)
  show "full_view (thumb_ldr_pc b c pc t) = full_view c" "full_view (thumb_ls_imm b c t) = full_view c"
    "full_view (thumb_ls_sp b c t) = full_view c" "full_view (snd (thumb_ls_half b c t)) = full_view c"
    by (simp_all add: thumb_ldr_pc_def thumb_ls_imm_def thumb_ls_sp_def thumb_ls_half_def Let_def
        full_view_thumb_load wb)
  show "full_view (snd (thumb_ls_reg b c t)) = full_view c"
    by (simp add: thumb_ls_reg_def Let_def full_view_thumb_load wb split_beta)
qed

lemma full_view_thumb_commit [simp]: "full_view (thumb_commit rl loaded is c) = full_view c"
  by (induction "is" arbitrary: c) simp_all

lemma multiword_address_view:
  "prepare_multiword_address c a al wr = (r, c1) \<Longrightarrow> full_view c1 = full_view c"
  using mem_full_view(13) [of c a al wr] by simp

lemma full_view_thumb_block [simp]:
  "full_view (snd (thumb_block b c t)) = full_view c"
  "full_view (thumb_push b c rl extra) = full_view c"
  by (auto simp: thumb_block_def thumb_push_def Let_def split_beta view_ifs
      dest!: multiword_address_view
      split: prod.split option.split split del: if_split cong del: if_weak_cong)

lemma sys_view_thumb_pop [simp]: "sys_view (snd (snd (thumb_pop b c rl extra next))) = sys_view c"
  by (auto simp: thumb_pop_def Let_def split_beta view_ifs full_view_thumb_commit [THEN full_view_sys]
      dest!: multiword_address_view full_view_sys
      split: prod.split option.split split del: if_split cong del: if_weak_cong)

lemma sys_view_push_pop [simp]: "sys_view (snd (snd (thumb_push_pop b c t next))) = sys_view c"
  by (simp add: thumb_push_pop_def Let_def view_ifs full_view_thumb_block(2) [THEN full_view_sys]
      split del: if_split cong del: if_weak_cong)

section \<open>Register writes\<close>

lemma set_reg_frame [simp]:
  "cpsr (set_reg c n v) = cpsr c" "spsr (set_reg c n v) = spsr c" "cp15 (set_reg c n v) = cp15 c"
  "arch (set_reg c n v) = arch c" "cycles (set_reg c n v) = cycles c" "ctx (set_reg c n v) = ctx c"
  "irq_line (set_reg c n v) = irq_line c" "fiq_line (set_reg c n v) = fiq_line c"
  "abort_pending (set_reg c n v) = abort_pending c" "excl_valid (set_reg c n v) = excl_valid c"
  "excl_addr (set_reg c n v) = excl_addr c" "abort_fsr (set_reg c n v) = abort_fsr c"
  "abort_far (set_reg c n v) = abort_far c" "bank_r13 (set_reg c n v) = bank_r13 c"
  "bank_r14 (set_reg c n v) = bank_r14 c" "fiq_r8_12 (set_reg c n v) = fiq_r8_12 c"
  "usr_r8_12 (set_reg c n v) = usr_r8_12 c"
  "regs (set_reg c n v) k = (if k = n then v else regs c k)"
  by (simp_all add: set_reg_def)

end
