(* ===== verification/Precise.thy ===== *)
theory Precise
  imports Frame Harness
begin

text \<open>
  Precise refusals and aborts. An instruction that is refused (\<open>ARM_UNDEFINED\<close>,
  \<open>ARM_GUEST_UNDEFINED\<close>) or that latches a data abort has changed no general register, no bank, no
  status register and no system register: it can be reported, emulated or restarted. What may
  differ is memory already stored to, the VFP data registers a VLDM has already filled, the
  exclusive monitor and the translation caches.
\<close>

unbundle bit_operations_syntax

section \<open>The restartable state\<close>

definition restart_view where
  "restart_view c = (regs c, cpsr c, full_view c, vfp_fpexc c, vfp_fpscr c)"

lemma restart_view_eq: "restart_view c' = restart_view c \<longleftrightarrow>
    regs c' = regs c \<and> cpsr c' = cpsr c \<and> full_view c' = full_view c \<and>
    vfp_fpexc c' = vfp_fpexc c \<and> vfp_fpscr c' = vfp_fpscr c"
  by (auto simp: restart_view_def)

lemma restart_view_core: "core_view c' = core_view c \<Longrightarrow> restart_view c' = restart_view c"
  by (simp add: core_view_eq restart_view_eq)

lemma restart_view_excl [simp]: "restart_view (c\<lparr>excl_valid := v\<rparr>) = restart_view c"
  by (simp add: restart_view_eq)

lemmas restart_view_mem [simp] = core_view_mem [THEN restart_view_core]
  core_view_prepare_address [THEN restart_view_core] core_view_translate [THEN restart_view_core]
  core_view_notes [THEN restart_view_core] core_view_read_as [THEN restart_view_core]
  core_view_write_as [THEN restart_view_core] core_view_ldm_loop [THEN restart_view_core]
  core_view_stm_loop [THEN restart_view_core]

text \<open>
  \<open>precise c r\<close> is about a result \<open>r\<close> of an instruction started in \<open>c\<close>; \<open>precise3\<close> is the same for
  the handlers that also return the next fetch address. A fatal host hook (\<open>ARM_HALT\<close>) is not an
  outcome of the guest's.
\<close>

definition precise :: "'m arm_cpu \<Rightarrow> arm_status \<times> 'm arm_cpu \<Rightarrow> bool" where
  "precise c r \<longleftrightarrow>
     ((fst r \<noteq> ARM_OK \<and> fst r \<noteq> ARM_HALT) \<or> abort_pending (snd r) \<longrightarrow>
        restart_view (snd r) = restart_view c)"

definition precise3 :: "'m arm_cpu \<Rightarrow> arm_status \<times> u32 \<times> 'm arm_cpu \<Rightarrow> bool" where
  "precise3 c r \<longleftrightarrow> precise c (fst r, snd (snd r))"

lemma precise_view: "restart_view c' = restart_view c \<Longrightarrow> precise c (st, c')"
  by (simp add: precise_def)

lemma precise_calm: "\<not> abort_pending c' \<Longrightarrow> precise c (ARM_OK, c')"
  by (simp add: precise_def)

lemma precise_refused [simp]: "precise c (st, c)"
  by (simp add: precise_def)

lemma precise_if: "precise c x \<Longrightarrow> precise c y \<Longrightarrow> precise c (if p then x else y)"
  by simp

lemma precise3_if: "precise3 c x \<Longrightarrow> precise3 c y \<Longrightarrow> precise3 c (if p then x else y)"
  by simp

lemma precise3_pair: "precise c r \<Longrightarrow> precise3 c (case r of (st, c') \<Rightarrow> (st, nx, c'))"
  by (simp add: precise3_def split_beta)

lemma precise3_intro: "precise c (st, c') \<Longrightarrow> precise3 c (st, nx, c')"
  by (simp add: precise3_def)

text \<open>An access that has not aborted leaves the latch clear, one that has ends the instruction.\<close>

lemma precise_abort:
  assumes "restart_view c1 = restart_view c" and "\<not> abort_pending c1 \<Longrightarrow> precise c (f c1)"
  shows "precise c (if abort_pending c1 then (ARM_OK, c1) else f c1)"
  using assms by (simp add: precise_view)

section \<open>Operations that cannot abort\<close>

lemma latch_alu [simp]:
  "abort_pending (snd (alu_add c a b cin st)) = abort_pending c"
  "abort_pending (snd (alu_sub c a b cin st)) = abort_pending c"
  "abort_pending (alu_logic_flags c r carry st) = abort_pending c"
  "abort_pending (snd (dsp_accumulate_word c p acc)) = abort_pending c"
  by (simp_all add: alu_add_def alu_sub_def alu_logic_flags_def dsp_accumulate_word_def Let_def)

lemmas latch_ifs = if_distrib [where f = abort_pending] if_distrib [where f = snd]
  if_distrib [where f = fst]

lemma latch_mode [simp]:
  "abort_pending (arm_set_mode c m) = abort_pending c"
  "abort_pending (restore_psr c w) = abort_pending c"
  "abort_pending (fst (take_exception c vec m ret f)) = abort_pending c"
  by (simp_all add: arm_set_mode_def restore_psr_def take_exception_def park_bank_def
      swap_fiq_regs_def load_bank_def Let_def latch_ifs)

lemma latch_dp_alu [simp]: "abort_pending (snd (dp_alu c opcode S a op2 sc)) = abort_pending c"
  by (simp add: dp_alu_def Let_def latch_ifs split_beta)

lemma latch_dp_write [simp]: "abort_pending (snd (dp_write c rd S res nx)) = abort_pending c"
  by (simp add: dp_write_def Let_def latch_ifs)

text \<open>Such a handler refuses with the CPU it was given, and otherwise keeps the latch.\<close>

definition calm :: "'m arm_cpu \<Rightarrow> arm_status \<times> 'm arm_cpu \<Rightarrow> bool" where
  "calm c r \<longleftrightarrow> abort_pending (snd r) = abort_pending c \<and> (fst r \<noteq> ARM_OK \<longrightarrow> snd r = c)"

lemma calm_precise: "calm c r \<Longrightarrow> \<not> abort_pending c \<Longrightarrow> precise c r"
  by (auto simp: calm_def precise_def)

lemma calm_simps [simp]:
  "calm c (ARM_OK, c') \<longleftrightarrow> abort_pending c' = abort_pending c" "calm c (st, c)"
  "calm c (if p then x else y) \<longleftrightarrow> (if p then calm c x else calm c y)"
  by (simp_all add: calm_def)

lemma calm_multiply:
  "calm c (exec_multiply c pc insn)" "calm c (exec_multiply_long c pc insn)"
  "calm c (exec_dsp_multiply c insn)"
  by (simp_all add: exec_multiply_def exec_multiply_long_def exec_dsp_multiply_def Let_def
      split_beta latch_ifs)

lemma calm_media: "calm c (exec_media c pc insn)"
  by (simp add: exec_media_def media_rev_def media_divide_def media_pack_def media_select_def
      media_smlad_def media_smlald_def media_smmul_def media_usad8_def media_sat_def
      media_sat16_def media_parallel_def media_extend_def Let_def split_beta latch_ifs
      split: option.split split del: if_split cong del: if_weak_cong)

text \<open>The same for a handler that returns the next fetch address.\<close>

definition calm3 :: "'m arm_cpu \<Rightarrow> arm_status \<times> u32 \<times> 'm arm_cpu \<Rightarrow> bool" where
  "calm3 c r \<longleftrightarrow> calm c (fst r, snd (snd r))"

lemma calm3_precise: "calm3 c r \<Longrightarrow> \<not> abort_pending c \<Longrightarrow> precise3 c r"
  by (auto simp: calm3_def precise3_def intro: calm_precise)

lemma calm3_simps [simp]:
  "calm3 c (ARM_OK, nx, c') \<longleftrightarrow> abort_pending c' = abort_pending c" "calm3 c (st, nx, c)"
  "calm3 c (if p then x else y) \<longleftrightarrow> (if p then calm3 c x else calm3 c y)"
  by (simp_all add: calm3_def)

lemma calm3_misc: "calm3 c (exec_misc c pc insn nx)"
proof -
  have "calm c (msr_write c is_spsr flds val)" for is_spsr flds val
    by (simp add: msr_write_def Let_def)
  then have msr: "calm3 c (case msr_write c is_spsr flds val of (st, c1) \<Rightarrow> (st, nx, c1))"
    for is_spsr flds val
    by (simp add: calm3_def split_beta)
  show ?thesis
    by (simp add: exec_misc_def Let_def msr latch_ifs del: if_split_asm
        split: prod.split split del: if_split cong del: if_weak_cong)
qed

lemma calm3_data_processing: "calm3 c (exec_data_processing c pc insn nx)"
proof -
  have body: "calm3 c (case fst (dp_alu c opcode S a op2 sc) of
      None \<Rightarrow> (ARM_OK, nx, snd (dp_alu c opcode S a op2 sc))
    | Some res \<Rightarrow>
        (case dp_write (snd (dp_alu c opcode S a op2 sc)) rd S res nx of (n, c2) \<Rightarrow> (ARM_OK, n, c2)))"
    for opcode S a op2 sc rd
    by (simp add: calm3_def calm_def split_beta split: option.split)
  show ?thesis
    unfolding exec_data_processing_def Let_def
    by (simp add: calm3_misc body split_beta split del: if_split cong del: if_weak_cong)
qed

text \<open>A translation reports its fault to the caller, which latches it.\<close>

lemma latch_descriptor:
  "mmu_descriptor b c ram a = Some (v, c') \<Longrightarrow> abort_pending c' = abort_pending c"
  by (auto simp: mmu_descriptor_def Let_def split: option.splits if_splits prod.splits)

lemma latch_walk [simp]:
  "abort_pending (snd (snd (mmu_walk b c va acc priv pa ram))) = abort_pending c"
  by (auto simp: mmu_walk_def Let_def split_beta latch_ifs dest!: latch_descriptor
      split: option.split)

lemma latch_prepare [simp]: "abort_pending (tlb_prepare c) = abort_pending c"
  by (simp add: tlb_prepare_def arm_mmu_tlb_flush_def Let_def)

lemma latch_translate [simp]:
  "abort_pending (snd (snd (arm_mmu_translate b c va acc priv pa))) = abort_pending c"
  by (simp add: arm_mmu_translate_def Let_def split_beta latch_ifs split: option.split)

section \<open>Loads and stores\<close>

text \<open>
  Every transfer has the shape: access, stop if it aborted, commit. The commit clears nothing and
  latches nothing.
\<close>

lemma latch_interwork [simp]: "abort_pending (snd (load_pc_interwork c v)) = abort_pending c"
  by (simp add: load_pc_interwork_def)

lemma view_of_access:
  "mem_r32 b c a = (v, c1) \<Longrightarrow> restart_view c1 = restart_view c"
  "mem_r16 b c a = (v, c1) \<Longrightarrow> restart_view c1 = restart_view c"
  "mem_r8 b c a = (v, c1) \<Longrightarrow> restart_view c1 = restart_view c"
  "prepare_multiword_address c a al wr = (r, c1) \<Longrightarrow> restart_view c1 = restart_view c"
  "prepare_sync_address c a al wr = (s, c1) \<Longrightarrow> restart_view c1 = restart_view c"
  "arm_mmu_translate b c a acc pr pa = (fsr, pa', c1) \<Longrightarrow> restart_view c1 = restart_view c"
  "ldm_loop b rl is a ld c = (ld', c1) \<Longrightarrow> restart_view c1 = restart_view c"
  using restart_view_mem by (metis snd_conv)+

lemma precise_leaf:
  "precise c (ARM_OK, c') \<longleftrightarrow> (abort_pending c' \<longrightarrow> restart_view c' = restart_view c)"
  "precise c (ARM_UNDEFINED, c') \<longleftrightarrow> restart_view c' = restart_view c"
  "precise3 c (ARM_OK, r) \<longleftrightarrow>
     (abort_pending (snd r) \<longrightarrow> restart_view (snd r) = restart_view c)"
  "precise3 c (ARM_UNDEFINED, r) \<longleftrightarrow> restart_view (snd r) = restart_view c"
  by (simp_all add: precise3_def precise_def)

text \<open>Distribution over a branch keeps the condition, which may say that no abort is latched.\<close>

lemma precise_ifs:
  "precise c (if p then x else y) \<longleftrightarrow> (p \<longrightarrow> precise c x) \<and> (\<not> p \<longrightarrow> precise c y)"
  "precise3 c (if p then r else t) \<longleftrightarrow> (p \<longrightarrow> precise3 c r) \<and> (\<not> p \<longrightarrow> precise3 c t)"
  by simp_all

lemma precise_pair_ifs:
  "precise c (st, if p then c1 else c2) \<longleftrightarrow> (p \<longrightarrow> precise c (st, c1)) \<and> (\<not> p \<longrightarrow> precise c (st, c2))"
  "precise3 c (st, nx, if p then c1 else c2) \<longleftrightarrow>
     (p \<longrightarrow> precise3 c (st, nx, c1)) \<and> (\<not> p \<longrightarrow> precise3 c (st, nx, c2))"
  by simp_all

lemma latch_set_reg [simp]: "abort_pending (set_reg c n v) = abort_pending c"
  by (simp add: set_reg_def)

text \<open>The base write-back of a transfer, in the shapes the code gives it.\<close>

lemma latch_writeback [simp]:
  "abort_pending (if p then (if q then c else set_reg c n v) else if r then set_reg c m w else c) =
     abort_pending c"
  "abort_pending (if p then set_reg c n v else if r then set_reg c m w else c) = abort_pending c"
  "abort_pending (if p then set_reg c n v else c) = abort_pending c"
  "abort_pending (if p then c else set_reg c n v) = abort_pending c"
  by simp_all

lemma precise_single:
  assumes "\<not> abort_pending c"
  shows "precise3 c (exec_single_transfer b c pc insn nx)"
proof -
  have v: "restart_view (snd (if B then mem_r8_as b c a p else mem_r32_as b c a p)) = restart_view c"
    "restart_view (if B then mem_w8_as b c a w p else mem_w32_as b c a w' p) = restart_view c"
    for B a p w w'
    by simp_all
  show ?thesis
    unfolding exec_single_transfer_def Let_def
    by (simp add: precise_ifs precise_leaf v split_beta assms
        split del: if_split cong del: if_weak_cong)
qed

lemma precise_extra_parts:
  assumes "\<not> abort_pending c"
  shows "abort_pending (extra_doubleword b c pc store rd addr) \<Longrightarrow>
      restart_view (extra_doubleword b c pc store rd addr) = restart_view c"
    and "abort_pending (extra_half b c pc load sh rd addr) \<Longrightarrow>
      restart_view (extra_half b c pc load sh rd addr) = restart_view c"
  by (auto simp: extra_doubleword_def extra_half_def Let_def split_beta dest!: view_of_access(4)
      split: if_splits option.splits prod.splits)

lemma precise_extra:
  assumes "\<not> abort_pending c"
  shows "precise c (exec_extra_transfer b c pc insn)"
proof -
  have v: "restart_view (if p then extra_doubleword b c pc st rd a else extra_half b c pc ld sh rd a) =
      restart_view c"
    if "abort_pending (if p then extra_doubleword b c pc st rd a else extra_half b c pc ld sh rd a)"
    for p st rd a ld sh
    using precise_extra_parts [OF assms] that by (cases p) simp_all
  show ?thesis
    unfolding exec_extra_transfer_def Let_def
    by (simp add: precise_ifs precise_leaf v split del: if_split cong del: if_weak_cong)
qed

lemma latch_ldm_commit [simp]:
  "abort_pending (snd (ldm_commit rl ub rc ld is nx c)) = abort_pending c"
proof (induction "is" arbitrary: nx c ub rc)
  case (Cons i "is")
  have "abort_pending (reg_write_user c i v) = abort_pending c" for v :: u32 and c :: "'a arm_cpu"
    by (simp add: reg_write_user_def Let_def latch_ifs)
  then show ?case using Cons by (simp add: Let_def split_beta)
qed simp

lemma precise_block:
  assumes "\<not> abort_pending c"
  shows "precise3 c (exec_block_transfer b c pc insn nx)"
  using assms
  by (auto simp: exec_block_transfer_def Let_def split_beta precise_ifs precise_pair_ifs precise_leaf
      split: prod.split option.split dest!: view_of_access
      split del: if_split cong del: if_weak_cong)

lemma precise_sync_address [simp]: "precise c (st, snd (prepare_sync_address c a al wr))"
  by (rule precise_view) simp

lemma view_either_width [simp]:
  "restart_view (snd (if p then mem_r8 b c a else mem_r32 b c a)) = restart_view c"
  "restart_view (if p then mem_w8 b c a v else mem_w32 b c a w) = restart_view c"
  by simp_all

lemma precise_exclusives:
  assumes "\<not> abort_pending c"
  shows "precise c (exec_ldrex b c insn)" "precise c (exec_ldrexd b c insn)"
    "precise c (exec_ldrexb b c insn)" "precise c (exec_ldrexh b c insn)"
    "precise c (exec_swap b c insn)"
  using assms
  by (auto simp: exec_ldrex_def exec_ldrexd_def exec_ldrexb_def exec_ldrexh_def exec_swap_def Let_def
      split_beta precise_ifs precise_pair_ifs precise_leaf
      split: prod.split sum.split split del: if_split cong del: if_weak_cong)

text \<open>A store-exclusive clears the monitor at its end, whether or not it stored.\<close>

definition stored :: "'m arm_cpu \<Rightarrow> 'm arm_cpu \<Rightarrow> bool" where
  "stored c c' \<longleftrightarrow> (abort_pending c' \<longrightarrow> restart_view c' = restart_view c)"

lemma stored_precise: "precise c (ARM_OK, c'\<lparr>excl_valid := v\<rparr>) \<longleftrightarrow> stored c c'"
  by (simp add: stored_def precise_leaf)

lemma stored_ifs:
  "stored c (if p then c1 else c2) \<longleftrightarrow> (p \<longrightarrow> stored c c1) \<and> (\<not> p \<longrightarrow> stored c c2)"
  by simp

lemma stored_leaf:
  "restart_view c' = restart_view c \<Longrightarrow> stored c c'"
  "\<not> abort_pending c' \<Longrightarrow> stored c (set_reg c' n v)"
  by (simp_all add: stored_def)

lemma sync_address_quiet:
  "fst (prepare_sync_address c a al wr) = Inr u \<Longrightarrow> snd (prepare_sync_address c a al wr) = c"
  by (auto simp: prepare_sync_address_def split: if_splits)

lemma precise_exclusive_stores:
  assumes "\<not> abort_pending c"
  shows "precise c (exec_strexb b c insn)" "precise c (exec_strexh b c insn)"
    "precise c (exec_strexd b c insn)" "precise c (exec_strex b c insn)"
  using assms
  by (auto simp: exec_strexb_def exec_strexh_def exec_strexd_def exec_strex_def Let_def split_beta
      stored_precise precise_ifs stored_ifs stored_leaf sync_address_quiet
      split: sum.split split del: if_split cong del: if_weak_cong)

section \<open>Host hooks and the coprocessor\<close>

text \<open>
  What is asked of the host hooks and of the VFP unit. A hook returns to the core with no data
  abort latched; the VFP unit refuses and aborts precisely.
\<close>

definition hooks_latch_nothing :: "'m arm_bus \<Rightarrow> bool" where
  "hooks_latch_nothing b \<longleftrightarrow>
     (\<forall>h c pc e. privileged_svc_handler b = Some h \<longrightarrow> \<not> abort_pending c \<longrightarrow>
        \<not> abort_pending (snd (h c pc e))) \<and>
     (\<forall>w c. wait_for_interrupt b = Some w \<longrightarrow> \<not> abort_pending c \<longrightarrow> \<not> abort_pending (snd (w c)))"

definition vfp_precise :: "'m vfp_unit \<Rightarrow> bool" where
  "vfp_precise vfp \<longleftrightarrow> (\<forall>b c pc insn. \<not> abort_pending c \<longrightarrow> precise c (vfp b c pc insn))"

lemma latch_cp15_write [simp]: "abort_pending (cp15_write c crn crm opc2 v) = abort_pending c"
  by (simp add: cp15_write_def arm_mmu_tlb_flush_def Let_def)

lemma precise_coprocessor:
  assumes "\<not> abort_pending c" and "vfp_precise vfp" and "hooks_latch_nothing b"
  shows "precise c (exec_coprocessor vfp b c pc insn)"
proof -
  have "precise c (exec_wfi b c pc rd)" for rd
    using assms(1,3)
    by (auto simp: exec_wfi_def precise_leaf hooks_latch_nothing_def split: option.split)
  then show ?thesis
    using assms(1,2) unfolding exec_coprocessor_def Let_def vfp_precise_def
    by (auto intro!: precise_if precise_calm)
qed

lemma svc_result_latch:
  assumes "\<not> abort_pending c" and "hooks_latch_nothing b"
  shows "\<not> abort_pending (snd (privileged_svc_result b c pc e))"
proof (cases "privileged_svc_handler b")
  case (Some h)
  then have "\<not> abort_pending (snd (h c pc e))"
    using assms by (simp add: hooks_latch_nothing_def)
  then show ?thesis
    using Some assms(1) by (simp add: privileged_svc_result_def Let_def split_beta)
qed (simp add: privileged_svc_result_def assms(1))

lemma precise_swi:
  assumes "\<not> abort_pending c" and "hooks_latch_nothing b"
  shows "precise3 c (exec_swi b c pc insn nx)" "precise3 c (thumb_swi b c pc t nx)"
  using svc_result_latch [OF assms]
  by (simp_all add: exec_swi_def thumb_swi_def precise3_def precise_def split_beta)

lemma precise_conditional:
  assumes idle: "\<not> abort_pending c" and vfp: "vfp_precise vfp" and hooks: "hooks_latch_nothing b"
  shows "precise3 c (exec_conditional vfp b c pc insn nx)"
proof -
  have sync: "precise c (exec_sync b c insn)"
    by (simp add: exec_sync_def precise_exclusives [OF idle] precise_exclusive_stores [OF idle])
  have v: "precise c (vfp b c pc insn)" using vfp idle by (simp add: vfp_precise_def)
  show ?thesis
    unfolding exec_conditional_def Let_def
    by (intro precise3_if precise3_pair precise_single [OF idle] precise_block [OF idle]
        precise_swi(1) [OF idle hooks] calm3_precise [OF calm3_data_processing idle]
        calm_precise [OF calm_multiply(1) idle] calm_precise [OF calm_multiply(2) idle]
        calm_precise [OF calm_multiply(3) idle] calm_precise [OF calm_media idle]
        precise_extra [OF idle] sync v precise_coprocessor [OF idle vfp hooks]
        calm3_precise [OF _ idle])
      (simp_all add: exec_branch_def Let_def)
qed

section \<open>Thumb\<close>

lemma precise3_calm: "\<not> abort_pending c' \<Longrightarrow> precise3 c (ARM_OK, nx, c')"
  by (simp add: precise3_def precise_calm)

lemma latch_thumb_alu [simp]:
  "abort_pending (thumb_add_sub c t) = abort_pending c"
  "abort_pending (thumb_shift_imm c t) = abort_pending c"
  "abort_pending (thumb_imm8 c t) = abort_pending c" "abort_pending (thumb_alu c t) = abort_pending c"
  "abort_pending (thumb_add_pc_sp c pc t) = abort_pending c"
  "abort_pending (thumb_extend c t) = abort_pending c"
  "abort_pending (cps_masks c a i f d) = abort_pending c"
  "abort_pending (snd (thumb_branch c pc t)) = abort_pending c"
  "abort_pending (snd (thumb_bl c pc t nx)) = abort_pending c"
  by (simp_all add: thumb_add_sub_def thumb_shift_imm_def thumb_imm8_def thumb_alu_def
      thumb_add_pc_sp_def thumb_extend_def cps_masks_def thumb_branch_def thumb_bl_def Let_def
      split_beta latch_ifs split del: if_split cong del: if_weak_cong)

lemma calm_thumb_rev: "calm c (thumb_rev c t)"
  by (simp add: thumb_rev_def Let_def)

lemma calm3_thumb_hi_reg: "calm3 c (thumb_hi_reg c pc t nx)"
  by (simp add: thumb_hi_reg_def Let_def latch_ifs split del: if_split cong del: if_weak_cong)

text \<open>The transfers: \<open>stored\<close> is the outcome of one that is not refused.\<close>

lemma stored_load: "restart_view (snd r) = restart_view c \<Longrightarrow> stored c (thumb_load rd r)"
  by (simp add: thumb_load_def stored_def split_beta)

lemma stored_word_byte: "stored c (thumb_word_byte b c ld byt rd a)"
  by (simp add: thumb_word_byte_def stored_ifs stored_load stored_leaf)

lemma stored_ok: "precise c (ARM_OK, c') \<longleftrightarrow> stored c c'"
  by (simp add: precise_leaf stored_def)

lemma stored_thumb:
  "stored c (thumb_ldr_pc b c pc t)" "stored c (thumb_ls_imm b c t)" "stored c (thumb_ls_sp b c t)"
  by (simp_all add: thumb_ldr_pc_def thumb_ls_imm_def thumb_ls_sp_def Let_def stored_load
      stored_word_byte)

lemma precise_thumb_ls: "precise c (thumb_ls_reg b c t)" "precise c (thumb_ls_half b c t)"
  by (simp_all add: thumb_ls_reg_def thumb_ls_half_def Let_def stored_load stored_word_byte stored_ok
      stored_leaf split_beta)

lemma stored_push:
  "\<not> abort_pending c \<Longrightarrow> stored c (thumb_push b c rl extra)"
  by (cases extra) (auto simp: thumb_push_def Let_def split_beta stored_ifs stored_leaf
      split: option.split split del: if_split cong del: if_weak_cong)

lemma latch_thumb_commit [simp]: "abort_pending (thumb_commit rl ld is c) = abort_pending c"
  by (induction "is" arbitrary: c) simp_all

lemma precise_pop:
  assumes "\<not> abort_pending c"
  shows "precise3 c (thumb_pop b c rl extra nx)"
  using assms
  by (cases extra) (auto simp: thumb_pop_def Let_def split_beta precise_ifs precise_leaf latch_ifs
      split: option.split split del: if_split cong del: if_weak_cong)

lemma precise_thumb_block:
  assumes "\<not> abort_pending c"
  shows "precise c (thumb_block b c t)"
  using assms
  by (auto simp: thumb_block_def Let_def split_beta precise_ifs precise_pair_ifs precise_leaf
      latch_writeback split: option.split split del: if_split cong del: if_weak_cong)

lemma precise_thumb_misc:
  assumes idle: "\<not> abort_pending c"
  shows "precise3 c (thumb_misc b c t nx)"
proof -
  have push: "precise3 c (ARM_OK, nx, thumb_push b c rl extra)" for rl extra
    using stored_push [OF idle] by (simp add: precise3_def stored_ok)
  have "precise3 c (thumb_push_pop b c t nx)"
    by (simp add: thumb_push_pop_def Let_def precise3_intro push precise_pop [OF idle])
  then show ?thesis
    unfolding thumb_misc_def Let_def
    by (auto intro!: precise3_if precise3_calm precise3_pair calm_precise [OF calm_thumb_rev idle]
        simp: idle precise3_intro)
qed

lemma precise_thumb:
  assumes idle: "\<not> abort_pending c" and hooks: "hooks_latch_nothing b"
  shows "precise3 c (thumb_step b c pc t nx)"
proof -
  have ok: "stored c c' \<Longrightarrow> precise3 c ((\<lambda>c'. (ARM_OK, nx, c')) c')" for c'
    by (simp add: precise3_def stored_ok)
  have alu: "abort_pending c' = abort_pending c \<Longrightarrow> precise3 c ((\<lambda>c'. (ARM_OK, nx, c')) c')" for c'
    using idle by (simp add: precise3_calm)
  have jump: "abort_pending (snd r) = abort_pending c \<Longrightarrow>
      precise3 c ((\<lambda>(n, c'). (ARM_OK, n, c')) r)" for r
    using idle by (cases r) (simp add: precise3_calm)
  have cond: "precise3 c (thumb_cond_branch b c pc t nx)"
    by (simp add: thumb_cond_branch_def Let_def precise_swi [OF idle hooks] precise3_intro)
  show ?thesis
    unfolding thumb_step_def Let_def
    by (intro precise3_if ok [OF stored_thumb(1)] ok [OF stored_thumb(2)] ok [OF stored_thumb(3)]
        precise3_pair precise_thumb_ls precise_thumb_block [OF idle] precise_thumb_misc [OF idle] cond
        calm3_precise [OF calm3_thumb_hi_reg idle] alu jump) simp_all
qed

section \<open>The theorem\<close>

text \<open>
  C12: An instruction that is refused or that latches a data abort, ARM or Thumb, has changed no
  general register, no bank, no status register and no system register. The instruction starts
  with no abort latched; the host hooks latch none and the VFP unit is precise.
\<close>

theorem refusals_and_aborts_precise:
  assumes "\<not> abort_pending c" and "vfp_precise vfp" and "hooks_latch_nothing b"
    and "exec_conditional vfp b c pc insn next = (st, nx, c') \<or> thumb_step b c pc t next = (st, nx, c')"
    and "st = ARM_UNDEFINED \<or> st = ARM_GUEST_UNDEFINED \<or> abort_pending c'"
  shows "regs c' = regs c \<and> cpsr c' = cpsr c \<and> full_view c' = full_view c"
proof -
  have "precise c (st, c')"
    using assms(4) precise_conditional [OF assms(1-3), of pc insn "next"]
      precise_thumb [OF assms(1,3), of pc t "next"]
    by (auto simp: precise3_def)
  then show ?thesis
    using assms(5) by (auto simp: precise_def restart_view_eq)
qed

text \<open>\<open>STMIA r0!, {r1, r2}\<close> to an unmapped page: the abort is latched, the base is what it was.\<close>

definition stm_cpu :: "mem arm_cpu" where
  "stm_cpu = mapped_cpu\<lparr>regs := (\<lambda>_. 7)(0 := 0x90000000)\<rparr>"

lemma refusals_and_aborts_precise_witness:
  "abort_pending (snd (snd (exec_conditional no_vfp flat_bus stm_cpu 0x100 0xe8a00006 0x104))) \<and>
   regs (snd (snd (exec_conditional no_vfp flat_bus stm_cpu 0x100 0xe8a00006 0x104))) 0 = 0x90000000"
proof -
  obtain st nx c' where r:
    "exec_conditional no_vfp flat_bus stm_cpu 0x100 0xe8a00006 0x104 = (st, nx, c')"
    by (metis prod_cases3)
  have a: "abort_pending (snd (snd (exec_conditional no_vfp flat_bus stm_cpu 0x100 0xe8a00006 0x104)))"
    by code_simp
  have "\<not> abort_pending stm_cpu" by code_simp
  moreover have "vfp_precise (no_vfp :: mem vfp_unit)" by (simp add: vfp_precise_def no_vfp_def)
  moreover have "hooks_latch_nothing flat_bus" by (simp add: hooks_latch_nothing_def flat_bus_def)
  ultimately have "regs c' = regs stm_cpu"
    using refusals_and_aborts_precise [of stm_cpu no_vfp flat_bus, OF _ _ _ disjI1 [OF r]] a r by simp
  moreover have "regs stm_cpu 0 = 0x90000000" by (simp add: stm_cpu_def)
  ultimately show ?thesis using a r by simp
qed

end
