(* ===== verification/Alu_Props.thy ===== *)
theory Alu_Props
  imports Alu Harness
begin

text \<open>
  The arithmetic helpers against arithmetic: the adder's flags as unsigned carry and signed
  overflow, the condition codes after a comparison as the order of the operands, and the
  barrel shifter as multiplication, division and rotation.
\<close>

unbundle bit_operations_syntax

section \<open>Words as numbers\<close>

lemma uint32_bounds: "0 \<le> uint w" "uint w < 4294967296" for w :: u32
  using uint_lt2p [of w] by simp_all

lemma sint_cases: "sint w = (if uint w < 2147483648 then uint w else uint w - 4294967296)"
  for w :: u32
proof -
  have s: "sint w = (uint w + 2147483648) mod 4294967296 - 2147483648"
    using int_word_sint [where 'a = 32, of "uint w"] by simp
  show ?thesis
  proof (cases "uint w < 2147483648")
    case True
    then show ?thesis
      using s uint32_bounds [of w] mod_pos_pos_trivial [of "uint w + 2147483648" 4294967296] by simp
  next
    case False
    have "(uint w + 2147483648) mod 4294967296 = (uint w - 2147483648) mod 4294967296"
      using minus_mod_self2 [of "uint w + 2147483648" "4294967296 :: int"] by simp
    also have "\<dots> = uint w - 2147483648"
      using False uint32_bounds [of w] by (intro mod_pos_pos_trivial) simp_all
    finally show ?thesis using s False by simp
  qed
qed

lemma bit31_sint: "bit w 31 \<longleftrightarrow> sint w < 0" for w :: u32
  using bit_last_iff [of w] by simp

lemma bit31_uint: "bit w 31 \<longleftrightarrow> 2147483648 \<le> uint w" for w :: u32
  using uint32_bounds [of w] by (auto simp: bit31_sint sint_cases)

lemma uint_NOT32: "uint (NOT w) = 4294967295 - uint w" for w :: u32
proof -
  have m: "uint (- 1 :: u32) = 4294967295"
    by (simp add: unsigned_minus_1_eq_mask mask_eq_exp_minus_1)
  have "w \<le> - 1" by simp
  then have "uint (- 1 - w) = uint (- 1 :: u32) - uint w"
    by (rule uint_minus_simple_alt [THEN iffD1])
  moreover have "NOT w = - 1 - w" by (simp add: not_eq_complement)
  ultimately show ?thesis using m by metis
qed

lemma sint_NOT32: "sint (NOT w) = - 1 - sint w" for w :: u32
  using uint32_bounds [of w] by (auto simp: sint_cases uint_NOT32)

lemma uint_ucast_u64: "uint (ucast w :: u64) = uint w" for w :: u32
  by (transfer, simp add: take_bit_eq_mod)

lemma uint_ucast_u32: "uint (ucast x :: u32) = uint x mod 4294967296" for x :: u64
  by (simp add: unsigned_ucast_eq take_bit_eq_mod)

section \<open>The adder\<close>

text \<open>The 64-bit sum is exact when the carry-in is a carry; its bit 32 is the carry-out.\<close>

lemma wide_sum:
  fixes a b cin :: u32
  assumes "uint cin \<le> 1"
  shows "uint (ucast a + ucast b + ucast cin :: u64) = uint a + uint b + uint cin"
proof -
  have "0 \<le> uint a + uint b + uint cin" "uint a + uint b + uint cin < 18446744073709551616"
    using assms uint32_bounds [of a] uint32_bounds [of b] uint32_bounds [of cin] by linarith+
  then have m: "(uint a + uint b + uint cin) mod 18446744073709551616 = uint a + uint b + uint cin"
    by (rule mod_pos_pos_trivial)
  show ?thesis by (simp add: uint_word_ariths uint_ucast_u64 mod_simps m)
qed

lemma bit32_u64: "uint x < 8589934592 \<Longrightarrow> bit x 32 \<longleftrightarrow> 4294967296 \<le> uint x" for x :: u64
proof -
  assume x: "uint x < 8589934592"
  have "bit x 32 \<longleftrightarrow> odd (uint x div 4294967296)"
    using bit_uint_iff [of x 32] by (simp add: bit_iff_odd)
  moreover have "uint x div 4294967296 = (if 4294967296 \<le> uint x then 1 else 0)"
    using x by (auto simp: int_div_pos_eq)
  ultimately show ?thesis by auto
qed

lemma alu_add_result:
  assumes "uint cin \<le> 1"
  shows "fst (alu_add c a b cin st) = a + b + cin"
proof -
  have "uint (a + b + cin) = (uint a + uint b + uint cin) mod 4294967296"
    by (simp add: uint_word_ariths mod_simps)
  then have "uint (fst (alu_add c a b cin st)) = uint (a + b + cin)"
    by (simp add: alu_add_def Let_def uint_ucast_u32 wide_sum [OF assms])
  then show ?thesis by (simp only: word_uint_eq_iff)
qed

text \<open>
  The sign test of the C's V expression, and signed overflow of a sum with carry.
\<close>

lemma overflow_bit:
  "shr (NOT (a XOR b) AND (a XOR r)) 31 \<noteq> 0 \<longleftrightarrow> bit a 31 = bit b 31 \<and> bit a 31 \<noteq> bit r 31"
  for a b r :: u32
proof -
  have f: "shr w 31 \<noteq> 0 \<longleftrightarrow> bit w 31" for w :: u32
    using drop_bit_eq_zero_iff_not_bit_last [of w] by simp
  show ?thesis unfolding f bit_and_iff bit_not_iff bit_xor_iff by auto
qed

lemma overflow_int:
  fixes x y k :: int
  assumes "0 \<le> x" "x < 4294967296" "0 \<le> y" "y < 4294967296" "k = 0 \<or> k = 1"
    "s = (if x + y + k < 4294967296 then x + y + k else x + y + k - 4294967296)"
  shows "((2147483648 \<le> x) = (2147483648 \<le> y) \<and> (2147483648 \<le> x) \<noteq> (2147483648 \<le> s)) \<longleftrightarrow>
    (if x < 2147483648 then x else x - 4294967296) +
    (if y < 2147483648 then y else y - 4294967296) + k \<notin> {- 2147483648..2147483647}"
  using assms by (cases "x < 2147483648"; cases "y < 2147483648"; cases "x + y + k < 4294967296") auto

lemma signed_overflow:
  fixes a b cin :: u32
  assumes "uint cin \<le> 1"
  shows "(bit a 31 = bit b 31 \<and> bit a 31 \<noteq> bit (a + b + cin) 31) \<longleftrightarrow>
     sint a + sint b + uint cin \<notin> {- 2147483648..2147483647}"
proof -
  have r: "uint (a + b + cin) = (uint a + uint b + uint cin) mod 4294967296"
    by (simp add: uint_word_ariths mod_simps)
  have c: "uint cin = 0 \<or> uint cin = 1" using assms uint32_bounds [of cin] by linarith
  let ?s = "uint a + uint b + uint cin"
  have s: "0 \<le> ?s" "?s < 8589934592"
    using c uint32_bounds [of a] uint32_bounds [of b] by linarith+
  have "?s mod 4294967296 = (if ?s < 4294967296 then ?s else ?s - 4294967296)"
  proof (cases "?s < 4294967296")
    case True
    then show ?thesis using s mod_pos_pos_trivial [of ?s 4294967296] by simp
  next
    case False
    have "?s mod 4294967296 = (?s - 4294967296) mod 4294967296"
      by (simp only: minus_mod_self2)
    also have "\<dots> = ?s - 4294967296"
      using False s by (intro mod_pos_pos_trivial) simp_all
    finally show ?thesis using False by simp
  qed
  then show ?thesis
    using overflow_int [OF uint32_bounds uint32_bounds c] r
    unfolding bit31_uint sint_cases by metis
qed

text \<open>The flags of a word after an add: four bits written, the rest of CPSR kept.\<close>

definition nzcv :: "'m arm_cpu \<Rightarrow> bool \<times> bool \<times> bool \<times> bool" where
  "nzcv c = (get_flag c ARM_CPSR_N, get_flag c ARM_CPSR_Z, get_flag c ARM_CPSR_C,
             get_flag c ARM_CPSR_V)"

lemma get_flag_write [simp]:
  "get_flag (set_flag c ARM_CPSR_N on) ARM_CPSR_N = on"
  "get_flag (set_flag c ARM_CPSR_Z on) ARM_CPSR_Z = on"
  "get_flag (set_flag c ARM_CPSR_C on) ARM_CPSR_C = on"
  "get_flag (set_flag c ARM_CPSR_V on) ARM_CPSR_V = on"
  "get_flag (set_flag c ARM_CPSR_Z on) ARM_CPSR_N = get_flag c ARM_CPSR_N"
  "get_flag (set_flag c ARM_CPSR_C on) ARM_CPSR_N = get_flag c ARM_CPSR_N"
  "get_flag (set_flag c ARM_CPSR_V on) ARM_CPSR_N = get_flag c ARM_CPSR_N"
  "get_flag (set_flag c ARM_CPSR_C on) ARM_CPSR_Z = get_flag c ARM_CPSR_Z"
  "get_flag (set_flag c ARM_CPSR_V on) ARM_CPSR_Z = get_flag c ARM_CPSR_Z"
  "get_flag (set_flag c ARM_CPSR_V on) ARM_CPSR_C = get_flag c ARM_CPSR_C"
  by (simp_all add: get_set_flag_same get_set_flag_other)

lemma alu_add_flags:
  assumes "uint cin \<le> 1"
  shows "nzcv (snd (alu_add c a b cin True)) =
    (sint (a + b + cin) < 0, a + b + cin = 0, 4294967296 \<le> uint a + uint b + uint cin,
     sint a + sint b + uint cin \<notin> {- 2147483648..2147483647})"
proof -
  let ?u = "ucast a + ucast b + ucast cin :: u64"
  have r: "ucast ?u = a + b + cin"
    using alu_add_result [OF assms, of c a b True] by (simp add: alu_add_def Let_def)
  have "uint ?u < 8589934592"
    using assms uint32_bounds [of a] uint32_bounds [of b] by (simp add: wide_sum [OF assms])
  then have c: "bit ?u 32 \<longleftrightarrow> 4294967296 \<le> uint a + uint b + uint cin"
    by (simp add: bit32_u64 wide_sum [OF assms])
  have "snd (alu_add c a b cin True) =
      set_flag (set_flag (set_flag (set_flag c ARM_CPSR_N (bit (a + b + cin) 31))
        ARM_CPSR_Z (a + b + cin = 0)) ARM_CPSR_C (bit ?u 32))
        ARM_CPSR_V (shr (NOT (a XOR b) AND (a XOR (a + b + cin))) 31 \<noteq> 0)"
    unfolding alu_add_def Let_def r by (simp only: if_True snd_conv)
  then show ?thesis
    unfolding overflow_bit
    unfolding signed_overflow [OF assms]
    unfolding c bit31_sint by (simp add: nzcv_def)
qed

lemma alu_add_frame [simp]:
  "regs (snd (alu_add c a b cin st)) = regs c" "cp15 (snd (alu_add c a b cin st)) = cp15 c"
  "spsr (snd (alu_add c a b cin st)) = spsr c"
  "abort_pending (snd (alu_add c a b cin st)) = abort_pending c"
  "cycles (snd (alu_add c a b cin st)) = cycles c" "ctx (snd (alu_add c a b cin st)) = ctx c"
  by (simp_all add: alu_add_def Let_def)

lemma alu_add_low_bits: "cpsr (snd (alu_add c a b cin st)) AND 0x0fffffff = cpsr c AND 0x0fffffff"
  by (simp add: alu_add_def Let_def set_flag_field)

text \<open>
  C8: The flag-setting adder is exact: the result is the sum modulo 2^32, N and Z are its sign and
  its being zero, C is the carry out of the unsigned sum and V the overflow of the signed sum,
  and no bit of CPSR below the four flags moves.
\<close>

theorem adder_correct:
  assumes "uint cin \<le> 1"
  shows "fst (alu_add c a b cin True) = a + b + cin \<and>
    nzcv (snd (alu_add c a b cin True)) =
      (sint (a + b + cin) < 0, a + b + cin = 0, 4294967296 \<le> uint a + uint b + uint cin,
       sint a + sint b + uint cin \<notin> {- 2147483648..2147483647}) \<and>
    cpsr (snd (alu_add c a b cin True)) AND 0x0fffffff = cpsr c AND 0x0fffffff"
  using alu_add_result [OF assms] alu_add_flags [OF assms] alu_add_low_bits by blast

lemma adder_correct_witness:
  "fst (alu_add (reset_cpu ()) 0x7fffffff 1 0 True) = 0x80000000 \<and>
   nzcv (snd (alu_add (reset_cpu ()) 0x7fffffff 1 0 True)) = (True, False, False, True)"
  using adder_correct [of 0 "reset_cpu ()" "0x7fffffff" 1] by simp


section \<open>Comparisons\<close>

lemma sub_sign_int:
  fixes x y :: int
  assumes "- 2147483648 \<le> x" "x < 2147483648" "- 2147483648 \<le> y" "y < 2147483648"
    "s = (x - y + 2147483648) mod 4294967296 - 2147483648"
  shows "s < 0 \<longleftrightarrow> (x - y \<notin> {- 2147483648..2147483647}) \<noteq> (x < y)"
proof -
  let ?d = "x - y + 2147483648"
  consider "0 \<le> ?d" "?d < 4294967296" | "?d < 0" | "4294967296 \<le> ?d" by linarith
  then have "?d mod 4294967296 =
      (if ?d < 0 then ?d + 4294967296 else if ?d < 4294967296 then ?d else ?d - 4294967296)"
  proof cases
    case 1
    then show ?thesis by (simp add: mod_pos_pos_trivial)
  next
    case 2
    have "?d mod 4294967296 = (?d + 4294967296) mod 4294967296" by (simp only: mod_add_self2)
    also have "\<dots> = ?d + 4294967296" using 2 assms by (intro mod_pos_pos_trivial) simp_all
    finally show ?thesis using 2 by simp
  next
    case 3
    have "?d mod 4294967296 = (?d - 4294967296) mod 4294967296" by (simp only: minus_mod_self2)
    also have "\<dots> = ?d - 4294967296" using 3 assms by (intro mod_pos_pos_trivial) simp_all
    finally show ?thesis using 3 by simp
  qed
  then show ?thesis using assms by (auto split: if_splits)
qed

lemma sint32_bounds: "- 2147483648 \<le> sint w" "sint w < 2147483648" for w :: u32
  unfolding sint_cases using uint32_bounds [of w] by (split if_split, linarith)+

lemma sub_sign: "sint (a - b) < 0 \<longleftrightarrow>
    (sint a - sint b \<notin> {- 2147483648..2147483647}) \<noteq> (sint a < sint b)" for a b :: u32
proof -
  have "a - b = word_of_int (sint a - sint b)" by simp
  then have "sint (a - b) = (sint a - sint b + 2147483648) mod 4294967296 - 2147483648"
    using int_word_sint [where 'a = 32, of "sint a - sint b"] by simp
  then show ?thesis using sub_sign_int [OF sint32_bounds sint32_bounds] by blast
qed

lemma compare_flags:
  "nzcv (snd (alu_sub c a b 1 True)) =
    (sint (a - b) < 0, a = b, uint b \<le> uint a,
     sint a - sint b \<notin> {- 2147483648..2147483647})"
proof -
  have s: "a + NOT b + 1 = a - b" by (simp add: not_eq_complement)
  have c: "(4294967296 \<le> uint a + uint (NOT b) + uint (1 :: u32)) = (uint b \<le> uint a)"
    by (auto simp: uint_NOT32)
  have v: "sint a + sint (NOT b) + uint (1 :: u32) = sint a - sint b"
    by (simp add: sint_NOT32)
  have "uint (1 :: u32) \<le> 1" by simp
  from alu_add_flags [OF this, of c a "NOT b"] show ?thesis
    unfolding alu_sub_def s c v by simp
qed

text \<open>
  After a compare the condition codes mean what their names say: EQ, NE, CS/HS, CC/LO, HI, LS
  compare the operands as unsigned numbers and GE, LT, GT, LE compare them as signed numbers,
  on every pair of words.
\<close>

theorem compare_conditions:
  "let c' = snd (alu_sub c a b 1 True)
   in (arm_cond_passed c' 0x0 \<longleftrightarrow> a = b) \<and> (arm_cond_passed c' 0x1 \<longleftrightarrow> a \<noteq> b) \<and>
      (arm_cond_passed c' 0x2 \<longleftrightarrow> uint b \<le> uint a) \<and> (arm_cond_passed c' 0x3 \<longleftrightarrow> uint a < uint b) \<and>
      (arm_cond_passed c' 0x8 \<longleftrightarrow> uint b < uint a) \<and> (arm_cond_passed c' 0x9 \<longleftrightarrow> uint a \<le> uint b) \<and>
      (arm_cond_passed c' 0xa \<longleftrightarrow> sint b \<le> sint a) \<and> (arm_cond_passed c' 0xb \<longleftrightarrow> sint a < sint b) \<and>
      (arm_cond_passed c' 0xc \<longleftrightarrow> sint b < sint a) \<and> (arm_cond_passed c' 0xd \<longleftrightarrow> sint a \<le> sint b)"
proof -
  have f: "get_flag (snd (alu_sub c a b 1 True)) ARM_CPSR_N = (sint (a - b) < 0)"
    "get_flag (snd (alu_sub c a b 1 True)) ARM_CPSR_Z = (a = b)"
    "get_flag (snd (alu_sub c a b 1 True)) ARM_CPSR_C = (uint b \<le> uint a)"
    "get_flag (snd (alu_sub c a b 1 True)) ARM_CPSR_V =
      (sint a - sint b \<notin> {- 2147483648..2147483647})"
    using compare_flags [of c a b] by (simp_all only: nzcv_def prod.inject)
  have eq: "a = b \<longleftrightarrow> uint a = uint b" "a = b \<longleftrightarrow> sint a = sint b"
    by (rule word_uint_eq_iff, rule word_eq_iff_signed)
  show ?thesis
    unfolding arm_cond_passed_def Let_def f sub_sign
    using eq by (auto simp: not_le not_less)
qed

section \<open>The barrel shifter\<close>

lemma ror32_bit: "bit (ror32 v n) k \<longleftrightarrow> k < 32 \<and> bit v ((k + n) mod 32)"
proof (cases "n mod 32 = 0")
  case True
  then have "(k + n) mod 32 = k mod 32" by (metis add.right_neutral mod_add_right_eq)
  then show ?thesis
    using True bit_imp_le_length [of v k] by (auto simp: ror32_def)
next
  case False
  define q where "q = n mod 32"
  have q: "0 < q" "q < 32" using False by (auto simp: q_def)
  have m: "(k + n) mod 32 = (k + q) mod 32" by (simp add: q_def mod_add_right_eq)
  have v: "bit v j \<Longrightarrow> j < 32" for j using bit_imp_le_length [of v j] by simp
  have "ror32 v n = shr v q OR shl v (32 - q)" using False by (simp add: ror32_def Let_def q_def)
  then have b: "bit (ror32 v n) k \<longleftrightarrow>
      bit v (q + k) \<or> 32 - q \<le> k \<and> k < 32 \<and> bit v (k - (32 - q))"
    by (simp only: bit_or_iff bit_drop_bit_eq bit_push_bit_iff comp_def) auto
  show ?thesis
  proof (cases "k + q < 32")
    case True
    then show ?thesis unfolding b m using q by (auto simp: add.commute)
  next
    case False
    then have "\<not> bit v (q + k)" using v [of "q + k"] by linarith
    moreover have "(k + q) mod 32 = k - (32 - q)" if "k < 32"
    proof -
      have "k + q = (k - (32 - q)) + 32" "k - (32 - q) < 32" using False q that by linarith+
      then show ?thesis by (metis mod_add_self2 mod_less)
    qed
    ultimately show ?thesis using False q unfolding b m by auto
  qed
qed

text \<open>
  A register-specified shift of any amount (0 to 255 in the ISA) is the arithmetic it stands for:
  LSL multiplies and LSR divides the unsigned value, ASR divides the signed value rounding
  down, ROR rotates, an amount of 0 keeps the value and the carry, and for amounts 1 to 32 the
  carry-out is the last bit shifted out.
\<close>

theorem barrel_shift_register:
  "(n = 0 \<longrightarrow> barrel_shift v type n True carry = (v, carry)) \<and>
   uint (fst (barrel_shift v 0 n True carry)) = (uint v * 2 ^ n) mod 2 ^ 32 \<and>
   uint (fst (barrel_shift v 1 n True carry)) = uint v div 2 ^ n \<and>
   sint (fst (barrel_shift v 2 n True carry)) = sint v div 2 ^ n \<and>
   (\<forall>k < 32. bit (fst (barrel_shift v 3 n True carry)) k = bit v ((k + n) mod 32)) \<and>
   (0 < n \<and> n \<le> 32 \<longrightarrow>
      snd (barrel_shift v 0 n True carry) = bit v (32 - n) \<and>
      snd (barrel_shift v 1 n True carry) = bit v (n - 1) \<and>
      snd (barrel_shift v 2 n True carry) = bit v (n - 1) \<and>
      snd (barrel_shift v 3 n True carry) = bit v (n - 1))"
  (is "?zero \<and> ?lsl \<and> ?lsr \<and> ?asr \<and> ?ror \<and> ?carry")
proof (intro conjI)
  show ?zero by (simp add: barrel_shift_def Let_def)
  show ?lsl
  proof (cases "n < 32")
    case True
    then have "fst (barrel_shift v 0 n True carry) = shl v n"
      by (simp add: barrel_shift_def Let_def)
    then have "uint (fst (barrel_shift v 0 n True carry)) = take_bit 32 (push_bit n (uint v))"
      by (simp only: unsigned_push_bit_eq) simp
    then show ?thesis by (simp add: push_bit_eq_mult take_bit_eq_mod)
  next
    case False
    then have "fst (barrel_shift v 0 n True carry) = 0"
      by (simp add: barrel_shift_def Let_def)
    moreover have "(2 :: int) ^ 32 dvd 2 ^ n" using False by (intro le_imp_power_dvd) simp
    ultimately show ?thesis by (simp add: mod_eq_0_iff_dvd dvd_mult)
  qed
  show ?lsr
  proof (cases "n < 32")
    case True
    then have "fst (barrel_shift v 1 n True carry) = shr v n"
      by (simp add: barrel_shift_def Let_def)
    then have "uint (fst (barrel_shift v 1 n True carry)) = drop_bit n (take_bit 32 (uint v))"
      by (simp only: unsigned_drop_bit_eq) simp
    then show ?thesis
      using uint32_bounds [of v] by (simp add: drop_bit_eq_div take_bit_int_eq_self)
  next
    case False
    have "fst (barrel_shift v 1 n True carry) = 0"
      using False by (simp add: barrel_shift_def Let_def)
    moreover have "uint v < 2 ^ n"
      using False uint32_bounds [of v] power_increasing [of 32 n "2 :: int"] by simp
    ultimately show ?thesis by (simp add: div_pos_pos_trivial)
  qed
  show ?asr
  proof (cases "n < 32")
    case True
    then have "fst (barrel_shift v 2 n True carry) = signed_drop_bit n v"
      by (cases "n = 0") (simp_all add: barrel_shift_def Let_def)
    then show ?thesis by (simp add: sint_signed_drop_bit_eq drop_bit_eq_div)
  next
    case False
    have p: "(2147483648 :: int) \<le> 2 ^ n"
      using False power_increasing [of 31 n "2 :: int"] by simp
    show ?thesis
    proof (cases "sint v < 0")
      case True
      have "sint v div 2 ^ n = - 1"
        using p True sint32_bounds [of v] by (intro int_div_pos_eq [where r = "sint v + 2 ^ n"]) simp_all
      then show ?thesis
        using False True by (simp add: barrel_shift_def Let_def bit31_sint)
    next
      case nonneg: False
      have "sint v div 2 ^ n = 0"
        using p nonneg sint32_bounds [of v] by (intro div_pos_pos_trivial) simp_all
      then show ?thesis
        using False nonneg by (simp add: barrel_shift_def Let_def bit31_sint)
    qed
  qed
  show ?ror
  proof (intro allI impI)
    fix k :: nat assume k: "k < 32"
    consider "n = 0" | "0 < n" "n mod 32 = 0" | "0 < n" "n mod 32 \<noteq> 0" by auto
    then show "bit (fst (barrel_shift v 3 n True carry)) k = bit v ((k + n) mod 32)"
    proof cases
      case 1
      then show ?thesis using k by (simp add: barrel_shift_def Let_def)
    next
      case 2
      then have "fst (barrel_shift v 3 n True carry) = ror32 v n"
        by (simp add: barrel_shift_def Let_def ror32_def)
      then show ?thesis using k by (simp add: ror32_bit)
    next
      case 3
      then have "fst (barrel_shift v 3 n True carry) = ror32 v n"
        by (simp add: barrel_shift_def Let_def ror32_def)
      then show ?thesis using k by (simp add: ror32_bit)
    qed
  qed
  show ?carry
  proof (intro impI)
    assume n: "0 < n \<and> n \<le> 32"
    show "snd (barrel_shift v 0 n True carry) = bit v (32 - n) \<and>
      snd (barrel_shift v 1 n True carry) = bit v (n - 1) \<and>
      snd (barrel_shift v 2 n True carry) = bit v (n - 1) \<and>
      snd (barrel_shift v 3 n True carry) = bit v (n - 1)"
      using n by (cases "n = 32") (simp_all add: barrel_shift_def Let_def)
  qed
qed

lemma barrel_shift_register_witness:
  "barrel_shift 0x80000001 0 0 True True = (0x80000001, True) \<and>
   snd (barrel_shift 0x80000001 0 1 True False) \<and> snd (barrel_shift 0x80000001 3 32 True False) \<and>
   bit (fst (barrel_shift 0x80000001 3 4 True False)) 27"
  using barrel_shift_register [where n = 0 and v = "0x80000001" and carry = True and type = 0]
    barrel_shift_register [where n = 1 and v = "0x80000001" and carry = False]
    barrel_shift_register [where n = 32 and v = "0x80000001" and carry = False]
    barrel_shift_register [where n = 4 and v = "0x80000001" and carry = False]
  by simp


end
