(* ===== verification/Exceptions.thy ===== *)
theory Exceptions
  imports Frame Alu_Props Harness
begin

text \<open>
  Exception entry (\<open>take_exception\<close>) and exception return (the \<open>SUBS pc, lr, #k\<close> form of
  \<open>exec_data_processing\<close>) of core/src/arm/arm_interp.c. Entry banks the interrupted mode, saves
  CPSR and the return address in the handler's bank and masks interrupts; return undoes it, so
  an interrupted program continues with the registers of its bank, its flags and its
  instruction set.
\<close>

unbundle bit_operations_syntax

section \<open>Entry\<close>

definition exception_base :: "'m arm_cpu \<Rightarrow> u32" where
  "exception_base c = (if sctlr (cp15 c) AND ARM_SCTLR_V \<noteq> 0 then 0xffff0000 else 0)"

text \<open>The PSR an entry leaves: everything above bit 9 kept, the low ten bits exact.\<close>

definition masks_aborts :: "u32 \<Rightarrow> bool" where
  "masks_aborts vector \<longleftrightarrow>
     vector = ARM_VEC_PREFETCH \<or> vector = ARM_VEC_DATA_ABORT \<or> vector = ARM_VEC_IRQ \<or>
     vector = ARM_VEC_FIQ"

definition entry_psr :: "'m arm_cpu \<Rightarrow> u32 \<Rightarrow> u32 \<Rightarrow> bool \<Rightarrow> u32" where
  "entry_psr c vector mode mask_fiq =
     (cpsr c AND 0xfffffc00) OR (mode AND 0x1f) OR ARM_CPSR_I OR
     (if mask_fiq then ARM_CPSR_F else cpsr c AND ARM_CPSR_F) OR
     (if masks_aborts vector then ARM_CPSR_A else cpsr c AND ARM_CPSR_A) OR
     (if sctlr (cp15 c) AND ARM_SCTLR_EE \<noteq> 0 then ARM_CPSR_E else 0)"

lemma psr_field_bits:
  "bit (0xfffffc00 :: u32) n \<longleftrightarrow> 10 \<le> n \<and> n < 32" "bit (0x1f :: u32) n \<longleftrightarrow> n < 5"
  "bit (0x80 :: u32) n \<longleftrightarrow> n = 7" "bit (0x40 :: u32) n \<longleftrightarrow> n = 6"
  "bit (0x100 :: u32) n \<longleftrightarrow> n = 8" "bit (0x20 :: u32) n \<longleftrightarrow> n = 5"
  "bit (0x200 :: u32) n \<longleftrightarrow> n = 9"
proof -
  have e: "(0xfffffc00 :: u32) = NOT (mask 10)" "(0x1f :: u32) = mask 5" "(0x80 :: u32) = 2 ^ 7"
    "(0x40 :: u32) = 2 ^ 6" "(0x100 :: u32) = 2 ^ 8" "(0x20 :: u32) = 2 ^ 5" "(0x200 :: u32) = 2 ^ 9"
    by (simp_all add: mask_eq_exp_minus_1)
  show "bit (0xfffffc00 :: u32) n \<longleftrightarrow> 10 \<le> n \<and> n < 32" "bit (0x1f :: u32) n \<longleftrightarrow> n < 5"
    "bit (0x80 :: u32) n \<longleftrightarrow> n = 7" "bit (0x40 :: u32) n \<longleftrightarrow> n = 6"
    "bit (0x100 :: u32) n \<longleftrightarrow> n = 8" "bit (0x20 :: u32) n \<longleftrightarrow> n = 5"
    "bit (0x200 :: u32) n \<longleftrightarrow> n = 9"
    unfolding e bit_not_iff bit_mask_iff bit_exp_iff by auto
qed

text \<open>The PSR arithmetic of an entry, over constants known by their bits alone.\<close>

lemma entry_bits:
  fixes w m :: u32 and f a e :: bool
  assumes "\<And>n. bit H n \<longleftrightarrow> 10 \<le> n \<and> n < 32" "\<And>n. bit M n \<longleftrightarrow> n < 5" "\<And>n. bit I n \<longleftrightarrow> n = 7"
    "\<And>n. bit F n \<longleftrightarrow> n = 6" "\<And>n. bit A n \<longleftrightarrow> n = 8" "\<And>n. bit T n \<longleftrightarrow> n = 5" "\<And>n. bit E n \<longleftrightarrow> n = 9"
  shows "(let base = ((w AND NOT M) OR (m AND M)) OR I;
              masked = (if f then base OR F else base);
              armed = (if a then masked OR A else masked)
          in if e then (armed AND NOT T) OR E else (armed AND NOT T) AND NOT E) =
     (w AND H) OR (m AND M) OR I OR (if f then F else w AND F) OR (if a then A else w AND A) OR
     (if e then E else (0 :: u32))"
proof -
  have k: "n < 10 \<longleftrightarrow> n < 5 \<or> n = 5 \<or> n = 6 \<or> n = 7 \<or> n = 8 \<or> n = 9" for n :: nat by auto
  show ?thesis
    unfolding Let_def
    by (cases f; cases a; cases e; simp only: if_True if_False; rule bit_word_eqI)
      (auto simp: bit_simps assms not_le k)
qed

lemma take_exception_cpsr:
  assumes "arm_mode_is_valid mode"
  shows "cpsr (fst (take_exception c vector mode ret mask_fiq)) = entry_psr c vector mode mask_fiq"
proof -
  have "cpsr (fst (take_exception c vector mode ret mask_fiq)) =
    (let base = ((cpsr c AND NOT 0x1f) OR (mode AND 0x1f)) OR 0x80;
         masked = (if mask_fiq then base OR 0x40 else base);
         armed = (if masks_aborts vector then masked OR 0x100 else masked)
     in if sctlr (cp15 c) AND ARM_SCTLR_EE \<noteq> 0 then (armed AND NOT 0x20) OR 0x200
        else (armed AND NOT 0x20) AND NOT 0x200)"
    using assms
    by (simp add: take_exception_def Let_def cpsr_arm_set_mode cpsr_set_flag masks_aborts_def)
  also have "\<dots> = entry_psr c vector mode mask_fiq"
    unfolding entry_psr_def by (rule entry_bits) (rule psr_field_bits)+
  finally show ?thesis .
qed

lemma take_exception_frame [simp]:
  "cp15 (fst (take_exception c vector mode ret mf)) = cp15 c"
  "arch (fst (take_exception c vector mode ret mf)) = arch c"
  "cycles (fst (take_exception c vector mode ret mf)) = cycles c"
  "ctx (fst (take_exception c vector mode ret mf)) = ctx c"
  "irq_line (fst (take_exception c vector mode ret mf)) = irq_line c"
  "fiq_line (fst (take_exception c vector mode ret mf)) = fiq_line c"
  "abort_pending (fst (take_exception c vector mode ret mf)) = abort_pending c"
  "excl_valid (fst (take_exception c vector mode ret mf)) = False"
  "spsr (fst (take_exception c vector mode ret mf)) = (spsr c)(arm_bank_of_mode mode := cpsr c)"
  "snd (take_exception c vector mode ret mf) = exception_base c + vector"
  by (simp_all add: take_exception_def Let_def exception_base_def)
    (simp_all add: set_flag_def)

lemma take_exception_regs:
  "regs (fst (take_exception c vector mode ret mf)) = (regs (arm_set_mode c mode))(14 := ret)"
  by (simp add: take_exception_def Let_def)

lemma take_exception_banks:
  "bank_r13 (fst (take_exception c vector mode ret mf)) = bank_r13 (arm_set_mode c mode)"
  "bank_r14 (fst (take_exception c vector mode ret mf)) = bank_r14 (arm_set_mode c mode)"
  "fiq_r8_12 (fst (take_exception c vector mode ret mf)) = fiq_r8_12 (arm_set_mode c mode)"
  "usr_r8_12 (fst (take_exception c vector mode ret mf)) = usr_r8_12 (arm_set_mode c mode)"
  by (simp_all add: take_exception_def Let_def)

lemma entry_psr_mode [simp]: "entry_psr c vector mode mf AND 0x1f = mode AND 0x1f"
  by (simp add: entry_psr_def bit.conj_disj_distrib2 and.assoc)

lemma entry_psr_masks:
  "entry_psr c vector mode mf AND ARM_CPSR_I = ARM_CPSR_I"
  "entry_psr c vector mode mf AND ARM_CPSR_T = 0"
  by (simp_all add: entry_psr_def bit.conj_disj_distrib2 and.assoc)

text \<open>The handler's view of its own r14 is the return address; no other view of a register moves.\<close>

lemma bank_view_take_exception:
  assumes valid: "arm_mode_is_valid mode"
  shows "bank_view (fst (take_exception c vector mode ret mf)) bk i =
    (if bk = arm_bank_of_mode mode \<and> i = 14 then ret else bank_view c bk i)"
proof -
  let ?c = "fst (take_exception c vector mode ret mf)"
  have bank: "arm_bank_of_mode (cpsr ?c) = arm_bank_of_mode (cpsr (arm_set_mode c mode))"
    using valid by (intro arm_bank_of_mode_cong) (simp add: take_exception_cpsr cpsr_arm_set_mode)
  then have "bank_view ?c bk i =
    (if bk = arm_bank_of_mode mode \<and> i = 14 then ret else bank_view (arm_set_mode c mode) bk i)"
    using valid by (simp add: bank_view_def Let_def take_exception_regs take_exception_banks)
  then show ?thesis by (simp add: bank_view_arm_set_mode [OF valid])
qed

text \<open>
  C5: Exception entry: the handler starts in its own mode in ARM state at the vector of the exception with
  interrupts masked (and FIQs and asynchronous aborts where the exception masks them), with the
  interrupted CPSR in its SPSR and the return address in its LR; the exclusive monitor is
  cleared, CP15 is untouched, and every register of every bank, apart from that LR, keeps its
  value.
\<close>

theorem exception_entry:
  assumes valid: "arm_mode_is_valid mode"
    and entry: "take_exception c vector mode ret mask_fiq = (c', vec)"
  shows "cpsr c' = entry_psr c vector mode mask_fiq \<and> vec = exception_base c + vector \<and>
    spsr c' = (spsr c)(arm_bank_of_mode mode := cpsr c) \<and> regs c' 14 = ret \<and>
    \<not> excl_valid c' \<and> cp15 c' = cp15 c \<and>
    (\<forall>bk i. (bk, i) \<noteq> (arm_bank_of_mode mode, 14) \<longrightarrow> bank_view c' bk i = bank_view c bk i)"
proof -
  have c': "c' = fst (take_exception c vector mode ret mask_fiq)"
    and vec: "vec = snd (take_exception c vector mode ret mask_fiq)"
    by (simp_all add: entry)
  show ?thesis
    unfolding c' vec
    using take_exception_cpsr [OF valid, of c vector ret mask_fiq]
      bank_view_take_exception [OF valid, of c vector ret mask_fiq]
    by (simp add: take_exception_regs)
qed

lemma exception_entry_witness:
  "arm_mode_is_valid ARM_MODE_FIQ \<and>
   cpsr (fst (take_exception (reset_cpu ()) ARM_VEC_FIQ ARM_MODE_FIQ 0x1004 True)) = 0x1d1 \<and>
   snd (take_exception (reset_cpu ()) ARM_VEC_FIQ ARM_MODE_FIQ 0x1004 True) = 0x1c"
proof -
  have valid: "arm_mode_is_valid ARM_MODE_FIQ" by code_simp
  have psr: "entry_psr (reset_cpu ()) ARM_VEC_FIQ ARM_MODE_FIQ True = 0x1d1"
    "exception_base (reset_cpu ()) = 0"
    by code_simp+
  obtain c' vec where e:
    "take_exception (reset_cpu ()) ARM_VEC_FIQ ARM_MODE_FIQ 0x1004 True = (c', vec)"
    by force
  show ?thesis
    using exception_entry [OF valid e] valid psr e by simp
qed

section \<open>Return\<close>

text \<open>\<open>SUBS pc, lr, #k\<close> with an 8-bit immediate.\<close>

definition subs_pc_lr :: "u32 \<Rightarrow> u32" where
  "subs_pc_lr k = 0xe25ef000 OR (k AND 0xff)"

lemma shr_low_byte: "8 \<le> n \<Longrightarrow> shr (k AND 0xff) n = 0" for k :: u32
proof -
  assume n: "8 \<le> n"
  have e: "(0xff :: u32) = mask 8" by (simp add: mask_eq_exp_minus_1)
  show "shr (k AND 0xff) n = 0"
    unfolding e using n by (intro bit_word_eqI) (auto simp: bit_simps)
qed

lemma subs_pc_lr_fields:
  "reg4 (subs_pc_lr k) 21 = 2" "reg4 (subs_pc_lr k) 16 = 14" "reg4 (subs_pc_lr k) 12 = 15"
  "reg4 (subs_pc_lr k) 8 = 0" "subs_pc_lr k AND 0xff = k AND 0xff"
  "subs_pc_lr k AND 0x0fb00000 \<noteq> 0x03000000"
  by (simp_all add: reg4_def subs_pc_lr_def drop_bit_or shr_low_byte bit.conj_disj_distrib2 and.assoc)

lemma subs_pc_lr_bits: "bit (subs_pc_lr k) 20" "bit (subs_pc_lr k) 25"
proof -
  have b: "bit w n \<longleftrightarrow> bit (shr w n) 0" for w :: u32 and n by (simp add: bit_drop_bit_eq)
  show "bit (subs_pc_lr k) 20" "bit (subs_pc_lr k) 25"
    by (subst b, simp add: subs_pc_lr_def drop_bit_or shr_low_byte)+
qed

lemma bank_view_full_view:
  assumes "full_view c' = full_view c" and "regs c' i = regs c i"
  shows "bank_view c' bk i = bank_view c bk i"
proof -
  have "arm_bank_of_mode (cpsr c') = arm_bank_of_mode (cpsr c)"
    using full_view_mode [OF assms(1)] by (rule arm_bank_of_mode_cong)
  then show ?thesis
    using assms by (simp add: bank_view_def Let_def full_view_eq)
qed

lemma bank_view_cpsr:
  "w AND 0x1f = cpsr c AND 0x1f \<Longrightarrow> bank_view (c\<lparr>cpsr := w\<rparr>) bk i = bank_view c bk i"
  using arm_bank_of_mode_cong [of w "cpsr c"] by (simp add: bank_view_def Let_def)

lemma restore_psr_valid:
  assumes "arm_mode_is_valid s"
  shows "cpsr (restore_psr c s) = s" "bank_view (restore_psr c s) bk i = bank_view c bk i"
proof -
  let ?w = "(cpsr (arm_set_mode c s) AND 0x1f) OR (s AND NOT 0x1f)"
  have low: "cpsr (arm_set_mode c s) AND 0x1f = s AND 0x1f"
    using assms by (simp add: cpsr_arm_set_mode)
  have "(s AND 0x1f) OR (s AND NOT 0x1f) = s"
    by (rule bit_word_eqI) (auto simp: bit_simps)
  then have w: "?w = s" unfolding low .
  have r: "restore_psr c s = (arm_set_mode c s)\<lparr>cpsr := s\<rparr>"
    unfolding restore_psr_def Let_def w ..
  show "cpsr (restore_psr c s) = s" unfolding r by simp
  have "bank_view ((arm_set_mode c s)\<lparr>cpsr := s\<rparr>) bk i = bank_view (arm_set_mode c s) bk i"
    using low by (intro bank_view_cpsr) simp
  then show "bank_view (restore_psr c s) bk i = bank_view c bk i"
    unfolding r by (simp add: bank_view_arm_set_mode [OF assms])
qed

lemma alu_sub_keeps:
  "regs (snd (alu_sub c a b cin st)) = regs c" "spsr (snd (alu_sub c a b cin st)) = spsr c"
  by (simp_all add: alu_sub_def alu_add_def Let_def)

lemma alu_sub_result: "fst (alu_sub c a b 1 st) = a - b"
proof -
  have "NOT b = - b - 1" by (simp add: not_eq_complement)
  then have "a + NOT b + 1 = a - b" by simp
  then show ?thesis by (simp only: alu_sub_def alu_add_result [of 1, simplified])
qed

text \<open>What \<open>SUBS pc, lr, #k\<close> does in a mode with a saved status register.\<close>

lemma exec_subs_pc_lr:
  assumes bank: "arm_bank_of_mode (cpsr c) \<noteq> ARM_BANK_USR"
    and valid: "arm_mode_is_valid (spsr c (arm_bank_of_mode (cpsr c)))"
  defines "s \<equiv> spsr c (arm_bank_of_mode (cpsr c))"
  shows "\<exists>c2. exec_data_processing c pc (subs_pc_lr k) next =
      (ARM_OK, (regs c 14 - (k AND 0xff)) AND (if s AND ARM_CPSR_T \<noteq> 0 then NOT 1 else NOT 3), c2) \<and>
    cpsr c2 = s \<and> (\<forall>bk i. i < 15 \<longrightarrow> bank_view c2 bk i = bank_view c bk i)"
proof -
  let ?insn = "subs_pc_lr k"
  obtain sc where op2: "dp_operand2 c pc ?insn (get_flag c ARM_CPSR_C) = (k AND 0xff, sc)"
    by (simp add: dp_operand2_def subs_pc_lr_bits subs_pc_lr_fields ror32_def)
  obtain r c1 where alu: "alu_sub c (regs c 14) (k AND 0xff) 1 True = (r, c1)" by force
  have r: "r = regs c 14 - (k AND 0xff)"
    using alu_sub_result [of c "regs c 14" "k AND 0xff" True] alu by simp
  have c1: "full_view c1 = full_view c" "regs c1 = regs c"
    using full_view_alu(2) [of c "regs c 14" "k AND 0xff" 1 True]
      alu_sub_keeps [of c "regs c 14" "k AND 0xff" 1 True] alu by simp_all
  let ?c = "set_reg c1 15 r"
  have view: "full_view ?c = full_view c" using c1 by simp
  have b: "arm_bank_of_mode (cpsr ?c) = arm_bank_of_mode (cpsr c)" "spsr ?c = spsr c"
    using full_view_mode [OF view] alu_sub_keeps(2) [of c "regs c 14" "k AND 0xff" 1 True] alu
    by (auto intro: arm_bank_of_mode_cong simp: set_reg_def)
  have w: "dp_write c1 15 True r next =
      (r AND (if s AND ARM_CPSR_T \<noteq> 0 then NOT 1 else NOT 3), restore_psr ?c s)"
    using bank b by (simp add: dp_write_def Let_def s_def restore_psr_valid(1) [OF valid])
  have "exec_data_processing c pc ?insn next =
      (ARM_OK, r AND (if s AND ARM_CPSR_T \<noteq> 0 then NOT 1 else NOT 3), restore_psr ?c s)"
    using bank valid w alu
    unfolding exec_data_processing_def Let_def subs_pc_lr_fields op2
    by (simp add: subs_pc_lr_bits subs_pc_lr_fields reg_read_def dp_alu_def Let_def)
  moreover have "bank_view (restore_psr ?c s) bk i = bank_view c bk i" if "i < 15" for bk i
    unfolding s_def restore_psr_valid(2) [OF valid]
    by (rule bank_view_full_view [OF view]) (use c1(2) that in \<open>simp add: set_reg_def\<close>)
  ultimately show ?thesis
    by (auto simp: s_def r restore_psr_valid(1) [OF valid])
qed

text \<open>A program counter is aligned for the instruction set a PSR selects.\<close>

definition aligned_for :: "u32 \<Rightarrow> u32 \<Rightarrow> bool" where
  "aligned_for psr pc \<longleftrightarrow> pc AND (if psr AND ARM_CPSR_T \<noteq> 0 then 1 else 3) = 0"

lemma and_not_aligned: "pc AND m = 0 \<Longrightarrow> pc AND NOT m = pc" for pc m :: u32
proof (rule bit_word_eqI)
  fix n
  assume a: "pc AND m = 0" and n: "n < LENGTH(32)"
  have "\<not> (bit pc n \<and> bit m n)"
    using a by (metis bit_and_iff bit_0_eq bot_apply bot_bool_def)
  then show "bit (pc AND NOT m) n = bit pc n"
    using n by (auto simp: bit_simps)
qed

lemma aligned_for_mask:
  "aligned_for psr pc \<Longrightarrow> pc AND (if psr AND ARM_CPSR_T \<noteq> 0 then NOT 1 else NOT 3) = pc"
  unfolding aligned_for_def using and_not_aligned [of pc 1] and_not_aligned [of pc 3]
  by (simp split: if_splits)

text \<open>
  C4: An exception is invisible to the program it interrupts: a handler that leaves its mode, its SPSR
  and every register of every bank as the entry left them and returns with SUBS pc, lr, #k
  resumes exactly at the interrupted address, in the interrupted mode and instruction set, with
  the interrupted CPSR and every register of every bank but the handler's own LR. k is the
  offset the entry added to the address (4 for interrupts and prefetch aborts, 8 for data
  aborts, 0 and 4 for the others).
\<close>

theorem exception_return:
  assumes valid: "arm_mode_is_valid mode" and own: "arm_bank_of_mode mode \<noteq> ARM_BANK_USR"
    and good: "arm_mode_is_valid (cpsr c)" "aligned_for (cpsr c) pc"
    and k: "k AND 0xff = k"
    and entry: "take_exception c vector mode (pc + k) mask_fiq = (c0, vec)"
    and handler: "cpsr c1 AND 0x1f = mode AND 0x1f" "spsr c1 = spsr c0"
      "\<And>bk i. i < 15 \<Longrightarrow> bank_view c1 bk i = bank_view c0 bk i"
  shows "\<exists>c2. exec_data_processing c1 at (subs_pc_lr k) next = (ARM_OK, pc, c2) \<and>
    cpsr c2 = cpsr c \<and>
    (\<forall>bk i. i < 15 \<longrightarrow> (bk, i) \<noteq> (arm_bank_of_mode mode, 14) \<longrightarrow>
       bank_view c2 bk i = bank_view c bk i)"
proof -
  have c0: "c0 = fst (take_exception c vector mode (pc + k) mask_fiq)" by (simp add: entry)
  have b: "arm_bank_of_mode (cpsr c1) = arm_bank_of_mode mode"
    using handler(1) by (rule arm_bank_of_mode_cong)
  have s: "spsr c1 (arm_bank_of_mode (cpsr c1)) = cpsr c"
    by (simp add: b handler(2) c0)
  have "regs c1 14 = bank_view c1 (arm_bank_of_mode mode) 14"
    using bank_view_current [of c1 14] by (simp add: b)
  also have "\<dots> = pc + k"
    using handler(3) [of 14] by (simp add: c0 bank_view_take_exception [OF valid])
  finally have lr: "regs c1 14 = pc + k" .
  obtain c2 where c2: "exec_data_processing c1 at (subs_pc_lr k) next =
      (ARM_OK, (regs c1 14 - (k AND 0xff)) AND
         (if cpsr c AND ARM_CPSR_T \<noteq> 0 then NOT 1 else NOT 3), c2)"
    "cpsr c2 = cpsr c" "\<And>bk i. i < 15 \<Longrightarrow> bank_view c2 bk i = bank_view c1 bk i"
    using exec_subs_pc_lr [of c1 at k "next"] own good(1) unfolding s [unfolded b] b by blast
  have "exec_data_processing c1 at (subs_pc_lr k) next = (ARM_OK, pc, c2)"
    unfolding c2(1) lr k using aligned_for_mask [OF good(2)] by simp
  moreover have "bank_view c2 bk i = bank_view c bk i"
    if "i < 15" "(bk, i) \<noteq> (arm_bank_of_mode mode, 14)" for bk i
    using that c2(3) handler(3) by (auto simp: c0 bank_view_take_exception [OF valid])
  ultimately show ?thesis using c2(2) by blast
qed

lemma exception_return_witness:
  "\<exists>c2. exec_data_processing
      (fst (take_exception ((reset_cpu ())\<lparr>cpsr := 0x20000030\<rparr>) ARM_VEC_IRQ ARM_MODE_IRQ
              (0x8002 + 4) False)) 0x18 (subs_pc_lr 4) 0x1c = (ARM_OK, 0x8002, c2) \<and>
    cpsr c2 = 0x20000030"
proof -
  let ?c = "(reset_cpu ())\<lparr>cpsr := 0x20000030\<rparr>"
  have h: "arm_mode_is_valid ARM_MODE_IRQ" "arm_bank_of_mode ARM_MODE_IRQ \<noteq> ARM_BANK_USR"
    "arm_mode_is_valid (cpsr ?c)" "aligned_for (cpsr ?c) 0x8002" "(4 :: u32) AND 0xff = 4"
    by code_simp+
  obtain c0 vec where e: "take_exception ?c ARM_VEC_IRQ ARM_MODE_IRQ (0x8002 + 4) False = (c0, vec)"
    by force
  have m: "cpsr c0 AND 0x1f = ARM_MODE_IRQ AND 0x1f"
    using take_exception_cpsr [OF h(1), of ?c ARM_VEC_IRQ "0x8002 + 4" False] e by simp
  show ?thesis
    using exception_return [OF h(1-5) e m refl refl, of "0x18" "0x1c"] e by auto
qed

end
