(* ===== verification/User_Mode.thy ===== *)
theory User_Mode
  imports Exceptions
begin

text \<open>
  Confinement of User mode. Whatever instruction a User program executes, in ARM or Thumb state,
  one step leaves the privileged state alone (mode, interrupt masks, CP15 but the User thread
  word, saved status registers, banks, interrupt lines) or is an exception entry, which starts
  the handler at its vector with that same state. The VFP unit is assumed to keep the same
  state (\<open>vfp_confined\<close>).
\<close>

unbundle bit_operations_syntax

section \<open>The guarded state\<close>

text \<open>\<open>sys_view\<close> with the User read/write thread word of CP15 blanked.\<close>

definition guard_view where
  "guard_view c = sys_view (c\<lparr>cp15 := (cp15 c)\<lparr>tpidrurw := 0\<rparr>\<rparr>)"

definition vfp_confined :: "'m vfp_unit \<Rightarrow> bool" where
  "vfp_confined vfp \<longleftrightarrow> (\<forall>b c pc insn. full_view (snd (vfp b c pc insn)) = full_view c)"

definition user_mode :: "'m arm_cpu \<Rightarrow> bool" where
  "user_mode c \<longleftrightarrow> cpsr c AND ARM_CPSR_MODE_MASK = ARM_MODE_USR"

lemma user_not_priv: "user_mode c \<Longrightarrow> \<not> cpu_is_priv c"
  by (simp add: user_mode_def cpu_is_priv_def)

lemma user_bank: "user_mode c \<Longrightarrow> arm_bank_of_mode (cpsr c) = ARM_BANK_USR"
  by (simp add: user_mode_def arm_bank_of_mode_def Let_def)

lemma guard_view_eq: "guard_view c' = guard_view c \<longleftrightarrow>
    cpsr c' AND 0x3df = cpsr c AND 0x3df \<and> arch c' = arch c \<and>
    (cp15 c')\<lparr>tpidrurw := 0\<rparr> = (cp15 c)\<lparr>tpidrurw := 0\<rparr> \<and>
    spsr c' = spsr c \<and> bank_r13 c' = bank_r13 c \<and> bank_r14 c' = bank_r14 c \<and>
    fiq_r8_12 c' = fiq_r8_12 c \<and> usr_r8_12 c' = usr_r8_12 c \<and> irq_line c' = irq_line c \<and>
    fiq_line c' = fiq_line c \<and> cycles c' = cycles c"
  by (simp add: guard_view_def sys_view_eq)

lemma guard_view_sys: "sys_view c' = sys_view c \<Longrightarrow> guard_view c' = guard_view c"
  by (simp add: guard_view_eq sys_view_eq)

lemma guard_view_user: "guard_view c' = guard_view c \<Longrightarrow> user_mode c' = user_mode c"
proof -
  assume "guard_view c' = guard_view c"
  then have "cpsr c' AND 0x3df = cpsr c AND 0x3df" by (simp add: guard_view_eq)
  then have "cpsr c' AND 0x1f = cpsr c AND 0x1f" by (rule field_of_field) simp
  then show ?thesis by (simp add: user_mode_def)
qed

section \<open>The instruction groups\<close>

lemma dp_write_sys:
  assumes "arm_bank_of_mode (cpsr c) = ARM_BANK_USR"
  shows "sys_view (snd (dp_write c rd S res next)) = sys_view c"
proof -
  show ?thesis using assms by (simp add: dp_write_def Let_def)
qed

lemma msr_user_mask: "user_mode c \<Longrightarrow> sys_view (snd (msr_write c is_spsr flds val)) = sys_view c"
proof -
  assume u: "user_mode c"
  have e: "(0xff000000 :: u32) = NOT (mask 24)" "(0x3df :: u32) = mask 10 AND NOT (2 ^ 5)"
    "(0x1f :: u32) = mask 5"
    by (simp_all add: mask_eq_exp_minus_1)
  let ?m = "msr_mask flds AND 0xff000000"
  have low: "((cpsr c AND NOT ?m) OR (val AND ?m)) AND 0x3df = cpsr c AND 0x3df"
    unfolding e by (rule bit_word_eqI) (auto simp: bit_simps simp del: power_numeral)
  have none: "?m AND 0x1f = 0"
    unfolding e by (rule bit_word_eqI) (auto simp: bit_simps)
  have "msr_write c False flds val = (ARM_OK, c\<lparr>cpsr := (cpsr c AND NOT ?m) OR (val AND ?m)\<rparr>)"
    using u none user_bank [OF u]
    unfolding msr_write_def Let_def user_mode_def by simp
  moreover have "msr_write c True flds val = (ARM_UNDEFINED, c)"
    using user_bank [OF u] by (simp add: msr_write_def)
  ultimately show ?thesis
    using low by (cases is_spsr) (simp_all add: sys_view_eq)
qed

lemma user_misc:
  assumes "user_mode c"
  shows "sys_view (snd (snd (exec_misc c pc insn next))) = sys_view c"
  using msr_user_mask [OF assms]
  by (simp add: exec_misc_def Let_def split_beta view_ifs full_view_flags(5) [THEN full_view_sys]
      del: set_reg_frame split del: if_split cong del: if_weak_cong)

lemma user_data_processing:
  assumes "user_mode c"
  shows "sys_view (snd (snd (exec_data_processing c pc insn next))) = sys_view c"
proof -
  have a: "sys_view (snd (dp_alu c opcode S a op2 sc)) = sys_view c" for opcode S a op2 sc
    by (rule full_view_sys) simp
  have w: "sys_view (snd (dp_write (snd (dp_alu c opcode S a op2 sc)) rd S' res next)) = sys_view c"
    for opcode S a op2 sc rd S' res
  proof -
    have "arm_bank_of_mode (cpsr (snd (dp_alu c opcode S a op2 sc))) = ARM_BANK_USR"
      using sys_view_mode [OF a] user_bank [OF assms] arm_bank_of_mode_cong by metis
    then show ?thesis using dp_write_sys a by metis
  qed
  show ?thesis
    unfolding exec_data_processing_def Let_def
    by (auto simp: split_beta view_ifs user_misc [OF assms] w a
        split: option.split split del: if_split cong del: if_weak_cong)
qed

lemma sys_view_branch: "sys_view (snd (snd (exec_branch c pc insn))) = sys_view c"
  by (simp add: exec_branch_def Let_def)

lemma user_block:
  assumes "user_mode c"
  shows "sys_view (snd (snd (exec_block_transfer b c pc insn next))) = sys_view c"
proof (cases "bit insn 22")
  case True
  then have "block_unpredictable c insn"
    using assms user_bank [OF assms]
    by (auto simp: block_unpredictable_def Let_def user_mode_def)
  then show ?thesis by (simp add: exec_block_transfer_def Let_def)
next
  case False
  then show ?thesis by simp
qed

lemmas guard_ifs = if_distrib [where f = guard_view] if_distrib [where f = snd]

text \<open>The CP15 gate: a User access writes nothing but the User thread word.\<close>

lemma user_coprocessor:
  assumes u: "user_mode c" and vfp: "vfp_confined vfp"
  shows "guard_view (snd (exec_coprocessor vfp b c pc insn)) = guard_view c"
proof -
  have priv: "\<not> cpu_is_priv c" using u by (rule user_not_priv)
  have v: "guard_view (snd (vfp b c pc insn)) = guard_view c"
    using vfp by (intro guard_view_sys full_view_sys) (simp add: vfp_confined_def)
  have r: "guard_view (set_reg c n x) = guard_view c" for n x
    by (intro guard_view_sys) simp
  have w: "guard_view (cp15_write c crn crm opc2 x) = guard_view c"
    if ok: "cp15_user_allowed crn crm opc2 False" for crn crm opc2 x
  proof -
    consider "crn = 7" | "crn = 13" "crm = 0" "opc2 = 2"
      using ok by (auto simp: cp15_user_allowed_def)
    then show ?thesis
    proof cases
      case 1
      then have "cp15_write c crn crm opc2 x = c"
        by (simp add: cp15_write_def cp15_assign_def cp15_write_flushes_def)
      then show ?thesis by simp
    next
      case 2
      then have "cp15_write c crn crm opc2 x = c\<lparr>cp15 := (cp15 c)\<lparr>tpidrurw := x\<rparr>\<rparr>"
        by (simp add: cp15_write_def cp15_assign_def cp15_write_flushes_def)
      then show ?thesis by (simp add: guard_view_eq)
    qed
  qed
  show ?thesis
    unfolding exec_coprocessor_def Let_def exec_wfi_def
    by (simp add: priv v r guard_ifs split del: if_split cong del: if_weak_cong)
      (simp add: w)
qed

lemma user_svc: "user_mode c \<Longrightarrow> privileged_svc_result b c pc enc = (ARM_SVC_UNHANDLED, c)"
  by (simp add: privileged_svc_result_def user_not_priv)

lemma user_swi:
  assumes "user_mode c"
  shows "exec_swi b c pc insn next =
    (ARM_OK, snd (take_exception c ARM_VEC_SWI ARM_MODE_SVC (pc + 4) False),
     fst (take_exception c ARM_VEC_SWI ARM_MODE_SVC (pc + 4) False))"
  by (simp add: exec_swi_def user_svc [OF assms] split_beta)

lemma user_thumb_swi:
  assumes "user_mode c"
  shows "thumb_swi b c pc t next =
    (ARM_OK, snd (take_exception c ARM_VEC_SWI ARM_MODE_SVC (pc + 2) False),
     fst (take_exception c ARM_VEC_SWI ARM_MODE_SVC (pc + 2) False))"
  by (simp add: thumb_swi_def user_svc [OF assms] split_beta)

text \<open>The result of an instruction in User mode, before the tail of the step.\<close>

definition user_result :: "'m arm_cpu \<Rightarrow> arm_status \<times> u32 \<times> 'm arm_cpu \<Rightarrow> bool" where
  "user_result c r \<longleftrightarrow>
     guard_view (snd (snd r)) = guard_view c \<or>
     (\<exists>ret. r = (ARM_OK, snd (take_exception c ARM_VEC_SWI ARM_MODE_SVC ret False),
                 fst (take_exception c ARM_VEC_SWI ARM_MODE_SVC ret False)))"

lemma user_result_sys: "sys_view (snd (snd r)) = sys_view c \<Longrightarrow> user_result c r"
  unfolding user_result_def by (intro disjI1 guard_view_sys)

lemma user_result_if: "user_result c x \<Longrightarrow> user_result c y \<Longrightarrow> user_result c (if p then x else y)"
  by simp

lemma user_result_pair:
  "guard_view c' = guard_view c \<Longrightarrow> user_result c (st, nx, c')"
  by (simp add: user_result_def)

lemma user_conditional:
  assumes u: "user_mode c" and vfp: "vfp_confined vfp"
  shows "user_result c (exec_conditional vfp b c pc insn next)"
proof -
  have pair: "user_result c (case r of (st, c') \<Rightarrow> (st, next, c'))"
    if "guard_view (snd r) = guard_view c" for r
    using that by (cases r) (simp add: user_result_def)
  have fv: "full_view (snd r) = full_view c \<Longrightarrow> user_result c (case r of (st, c') \<Rightarrow> (st, next, c'))" for r
    using pair [of r] guard_view_sys full_view_sys by blast
  have v: "full_view (snd (vfp b c pc insn)) = full_view c"
    using vfp by (simp add: vfp_confined_def)
  have swi: "user_result c (exec_swi b c pc insn next)"
    by (auto simp: user_result_def user_swi [OF u])
  have undef: "user_result c (ARM_UNDEFINED, next, c)"
    by (rule user_result_sys) simp
  note sv = user_result_sys [OF user_data_processing [OF u]] user_result_sys [OF sys_view_branch]
    user_result_sys [OF sys_view_single] user_result_sys [OF user_block [OF u]]
  show ?thesis
    unfolding exec_conditional_def Let_def
    by (intro user_result_if sv swi undef fv [OF v] fv [OF full_view_multiply(1)]
        fv [OF full_view_multiply(2)] fv [OF full_view_multiply(3)] fv [OF full_view_media]
        fv [OF full_view_extra] fv [OF full_view_sync] pair [OF user_coprocessor [OF u vfp]])
qed

lemma user_thumb_step:
  assumes u: "user_mode c"
  shows "user_result c (thumb_step b c pc t next)"
proof -
  have ok: "user_result c ((\<lambda>c'. (ARM_OK, next, c')) c')" if "full_view c' = full_view c" for c'
    using that by (intro user_result_sys full_view_sys) simp
  have pair: "user_result c ((\<lambda>(st, c'). (st, next, c')) r)" if "full_view (snd r) = full_view c" for r
    using that by (intro user_result_sys full_view_sys) (simp add: split_beta)
  have jump: "user_result c ((\<lambda>(next', c'). (ARM_OK, next', c')) r)" if "sys_view (snd r) = sys_view c" for r
    using that by (intro user_result_sys) (simp add: split_beta)
  have misc: "user_result c (thumb_misc b c t next)"
    by (intro user_result_sys)
      (simp add: thumb_misc_def Let_def split_beta view_ifs user_not_priv [OF u]
        full_view_thumb_alu [THEN full_view_sys] split del: if_split cong del: if_weak_cong)
  have branch: "user_result c (thumb_cond_branch b c pc t next)"
  proof -
    have "user_result c (thumb_swi b c pc t next)"
      by (auto simp: user_result_def user_thumb_swi [OF u])
    moreover have "user_result c (st, nx, c)" for st nx
      by (rule user_result_sys) simp
    ultimately show ?thesis
      unfolding thumb_cond_branch_def Let_def by (intro user_result_if)
  qed
  note alu = ok [OF full_view_thumb_alu(1)] ok [OF full_view_thumb_alu(2)]
    ok [OF full_view_thumb_alu(3)] ok [OF full_view_thumb_alu(4)] ok [OF full_view_thumb_alu(5)]
  note mem = ok [OF full_view_thumb_mem(1)] pair [OF full_view_thumb_mem(3)]
    ok [OF full_view_thumb_mem(4)] pair [OF full_view_thumb_mem(5)] ok [OF full_view_thumb_mem(6)]
    pair [OF full_view_thumb_block(1)]
  have shift: "full_view (if p then thumb_add_sub c t else thumb_shift_imm c t) = full_view c" for p
    by simp
  show ?thesis
    unfolding thumb_step_def Let_def
    by (intro user_result_if alu mem misc branch ok [OF shift]
        user_result_sys [OF sys_view_thumb_branches(1)] jump [OF sys_view_thumb_branches(2)]
        jump [OF full_view_thumb_alu(8) [THEN full_view_sys]])
qed

section \<open>The end of the step\<close>

text \<open>
  A handler has been entered from a state that agrees with \<open>c\<close>: it runs in the mode of its
  exception, at its vector, in ARM state and with IRQs masked; CPSR of the User program is in its
  SPSR; and of the privileged state only that SPSR, its LR and the fault registers differ.
\<close>

definition exception_table :: "(u32 \<times> u32) list" where
  "exception_table =
     [(ARM_VEC_UNDEFINED, ARM_MODE_UND), (ARM_VEC_SWI, ARM_MODE_SVC),
      (ARM_VEC_PREFETCH, ARM_MODE_ABT), (ARM_VEC_DATA_ABORT, ARM_MODE_ABT),
      (ARM_VEC_IRQ, ARM_MODE_IRQ), (ARM_VEC_FIQ, ARM_MODE_FIQ)]"

definition blank_faults :: "arm_cp15 \<Rightarrow> arm_cp15" where
  "blank_faults p = p\<lparr>tpidrurw := 0, dfsr := 0, ifsr := 0, dfar := 0, ifar := 0\<rparr>"

definition handler_at :: "'m arm_cpu \<Rightarrow> 'm arm_cpu \<Rightarrow> u32 \<Rightarrow> u32 \<Rightarrow> bool" where
  "handler_at c c' vector mode \<longleftrightarrow>
     (let own = arm_bank_of_mode mode
      in cpsr c' AND ARM_CPSR_MODE_MASK = mode \<and>
         cpsr c' AND ARM_CPSR_I \<noteq> 0 \<and> cpsr c' AND ARM_CPSR_T = 0 \<and>
         regs c' 15 = exception_base c + vector \<and>
         spsr c' own AND 0x3df = cpsr c AND 0x3df \<and>
         (\<forall>bk. bk \<noteq> own \<longrightarrow> spsr c' bk = spsr c bk) \<and>
         (\<forall>bk. bk \<noteq> ARM_BANK_USR \<longrightarrow> bank_view c' bk 13 = bank_view c bk 13 \<and>
            (bk \<noteq> own \<longrightarrow> bank_view c' bk 14 = bank_view c bk 14)) \<and>
         (\<forall>i \<in> {8..12}. bank_view c' ARM_BANK_FIQ i = bank_view c ARM_BANK_FIQ i) \<and>
         blank_faults (cp15 c') = blank_faults (cp15 c) \<and> irq_line c' = irq_line c \<and>
         fiq_line c' = fiq_line c \<and> cycles c' = cycles c)"

definition handler_entered :: "'m arm_cpu \<Rightarrow> 'm arm_cpu \<Rightarrow> bool" where
  "handler_entered c c' \<longleftrightarrow> (\<exists>(vector, mode) \<in> set exception_table. handler_at c c' vector mode)"

definition fault_view where
  "fault_view c = guard_view (c\<lparr>cp15 := blank_faults (cp15 c)\<rparr>)"

lemma fault_view_guard: "guard_view c' = guard_view c \<Longrightarrow> fault_view c' = fault_view c"
proof -
  assume g: "guard_view c' = guard_view c"
  have "blank_faults p = blank_faults (p\<lparr>tpidrurw := 0\<rparr>)" for p by (simp add: blank_faults_def)
  then have "blank_faults (cp15 c') = blank_faults (cp15 c)"
    using g unfolding guard_view_eq by metis
  then show ?thesis using g by (simp add: fault_view_def guard_view_eq)
qed

lemma fault_view_eq: "fault_view c' = fault_view c \<longleftrightarrow>
    cpsr c' AND 0x3df = cpsr c AND 0x3df \<and> arch c' = arch c \<and>
    blank_faults (cp15 c') = blank_faults (cp15 c) \<and>
    spsr c' = spsr c \<and> bank_r13 c' = bank_r13 c \<and> bank_r14 c' = bank_r14 c \<and>
    fiq_r8_12 c' = fiq_r8_12 c \<and> usr_r8_12 c' = usr_r8_12 c \<and> irq_line c' = irq_line c \<and>
    fiq_line c' = fiq_line c \<and> cycles c' = cycles c"
proof -
  have "(blank_faults p)\<lparr>tpidrurw := 0\<rparr> = blank_faults p" for p by (simp add: blank_faults_def)
  then show ?thesis by (simp add: fault_view_def guard_view_eq)
qed

lemma fault_view_parts:
  assumes u: "user_mode c" and f: "fault_view c1 = fault_view c"
  shows "arm_bank_of_mode (cpsr c1) = ARM_BANK_USR" "exception_base c1 = exception_base c"
    and "bk \<noteq> ARM_BANK_USR \<Longrightarrow> i = 13 \<or> i = 14 \<or> (8 \<le> i \<and> i \<le> 12 \<and> bk = ARM_BANK_FIQ) \<Longrightarrow>
      bank_view c1 bk i = bank_view c bk i"
proof -
  have "cpsr c1 AND 0x3df = cpsr c AND 0x3df" using f by (simp add: fault_view_eq)
  then have "cpsr c1 AND 0x1f = cpsr c AND 0x1f" by (rule field_of_field) simp
  then show u1: "arm_bank_of_mode (cpsr c1) = ARM_BANK_USR"
    using user_bank [OF u] arm_bank_of_mode_cong by metis
  have "sctlr (blank_faults (cp15 c1)) = sctlr (blank_faults (cp15 c))"
    using f by (simp add: fault_view_eq)
  then show "exception_base c1 = exception_base c" by (simp add: exception_base_def blank_faults_def)
  show "bk \<noteq> ARM_BANK_USR \<Longrightarrow> i = 13 \<or> i = 14 \<or> (8 \<le> i \<and> i \<le> 12 \<and> bk = ARM_BANK_FIQ) \<Longrightarrow>
      bank_view c1 bk i = bank_view c bk i"
    using f u1 user_bank [OF u] by (auto simp: bank_view_def fault_view_eq)
qed

lemma handler_entered_intro:
  assumes u: "user_mode c" and f: "fault_view c1 = fault_view c"
    and t: "(vector, mode) \<in> set exception_table"
  shows "handler_entered c
    (set_reg (fst (take_exception c1 vector mode ret mf)) 15
       (snd (take_exception c1 vector mode ret mf)))" (is "handler_entered c ?c'")
proof -
  let ?e = "fst (take_exception c1 vector mode ret mf)"
  have m: "arm_mode_is_valid mode" "mode AND 0x1f = mode" "arm_bank_of_mode mode \<noteq> ARM_BANK_USR"
    using t by (auto simp: exception_table_def arm_mode_is_valid_def arm_bank_of_mode_def)
  note base = fault_view_parts(2) [OF u f] and same = fault_view_parts(3) [OF u f]
  have view: "bank_view (set_reg ?e 15 x) bk i = bank_view ?e bk i" if "i < 15" for bk i x
    by (rule bank_view_full_view) (use that in \<open>simp_all add: set_reg_def\<close>)
  have low: "cpsr ?e AND 0x1f = mode" "cpsr ?e AND 0x80 \<noteq> 0" "cpsr ?e AND 0x20 = 0"
    using m entry_psr_masks [of c1 vector mode mf] by (simp_all add: take_exception_cpsr)
  show ?thesis
    unfolding handler_entered_def
  proof (rule bexI [OF _ t], simp only: split_conv handler_at_def Let_def,
      intro conjI allI impI ballI)
    show "bank_view ?c' bk 13 = bank_view c bk 13" if "bk \<noteq> ARM_BANK_USR" for bk
      using that same [of bk 13] by (simp add: view bank_view_take_exception [OF m(1)])
    show "bank_view ?c' bk 14 = bank_view c bk 14"
      if "bk \<noteq> ARM_BANK_USR" "bk \<noteq> arm_bank_of_mode mode" for bk
      using that same [of bk 14] by (simp add: view bank_view_take_exception [OF m(1)])
    show "bank_view ?c' ARM_BANK_FIQ i = bank_view c ARM_BANK_FIQ i" if "i \<in> {8..12}" for i
      using that same [of ARM_BANK_FIQ i] by (simp add: view bank_view_take_exception [OF m(1)])
    show "regs ?c' 15 = exception_base c + vector" by (simp add: set_reg_def base)
  qed (use f low in \<open>simp_all add: fault_view_eq\<close>)
qed

lemma user_outcome_abort:
  assumes "user_mode c" and "guard_view c1 = guard_view c"
  shows "handler_entered c (take_pending_data_abort c1 pc)"
proof -
  let ?c1 = "c1\<lparr>abort_pending := False, cp15 := (cp15 c1)\<lparr>dfsr := abort_fsr c1, dfar := abort_far c1\<rparr>\<rparr>"
  have "fault_view ?c1 = fault_view c1"
    by (simp add: fault_view_eq blank_faults_def)
  then have f: "fault_view ?c1 = fault_view c" using fault_view_guard [OF assms(2)] by simp
  have t: "(ARM_VEC_DATA_ABORT, ARM_MODE_ABT) \<in> set exception_table"
    by (simp add: exception_table_def)
  have "take_pending_data_abort c1 pc =
      set_reg (fst (take_exception ?c1 ARM_VEC_DATA_ABORT ARM_MODE_ABT (pc + 8) False)) 15
        (snd (take_exception ?c1 ARM_VEC_DATA_ABORT ARM_MODE_ABT (pc + 8) False))"
    by (simp add: take_pending_data_abort_def Let_def split_beta set_reg_def)
  then show ?thesis using handler_entered_intro [OF assms(1) f t] by simp
qed

lemma user_outcome_undefined:
  assumes "user_mode c" and "guard_view c1 = guard_view c"
  shows "handler_entered c (snd (take_undefined_instruction c1 pc))"
proof -
  have t: "(ARM_VEC_UNDEFINED, ARM_MODE_UND) \<in> set exception_table"
    by (simp add: exception_table_def)
  have "snd (take_undefined_instruction c1 pc) =
      set_reg (fst (take_exception c1 ARM_VEC_UNDEFINED ARM_MODE_UND (pc + 4) False)) 15
        (snd (take_exception c1 ARM_VEC_UNDEFINED ARM_MODE_UND (pc + 4) False))"
    by (simp add: take_undefined_instruction_def Let_def split_beta set_reg_def)
  then show ?thesis
    using handler_entered_intro [OF assms(1) fault_view_guard [OF assms(2)] t] by simp
qed

definition user_outcome :: "'m arm_cpu \<Rightarrow> 'm arm_cpu \<Rightarrow> bool" where
  "user_outcome c c' \<longleftrightarrow> guard_view c' = guard_view c \<or> handler_entered c c'"

lemma user_outcome_set_pc: "guard_view c' = guard_view c \<Longrightarrow> user_outcome c (set_reg c' n v)"
  by (simp add: user_outcome_def guard_view_eq)

lemma user_outcome_swi:
  assumes "user_mode c"
  shows "user_outcome c
    (set_reg (fst (take_exception c ARM_VEC_SWI ARM_MODE_SVC ret False)) 15
       (snd (take_exception c ARM_VEC_SWI ARM_MODE_SVC ret False)))"
proof -
  have t: "(ARM_VEC_SWI, ARM_MODE_SVC) \<in> set exception_table"
    by (simp add: exception_table_def)
  show ?thesis
    unfolding user_outcome_def using handler_entered_intro [OF assms refl t] by blast
qed

lemma user_undefined:
  assumes "user_mode c" and "guard_view c1 = guard_view c"
  shows "user_outcome c (snd (undefined_instruction c1 pc insn))"
  using user_outcome_undefined [OF assms] assms(2)
  by (simp add: undefined_instruction_def user_outcome_def)

lemma user_finish_arm:
  assumes u: "user_mode c" and idle: "\<not> abort_pending c" and r: "user_result c r"
  shows "user_outcome c (snd (finish_arm pc insn r))"
proof -
  obtain st nx c1 where e: "r = (st, nx, c1)" by (metis prod_cases3)
  consider "guard_view c1 = guard_view c"
    | ret where "r = (ARM_OK, snd (take_exception c ARM_VEC_SWI ARM_MODE_SVC ret False),
                 fst (take_exception c ARM_VEC_SWI ARM_MODE_SVC ret False))"
    using r by (auto simp: user_result_def e)
  then show ?thesis
  proof cases
    case 1
    then show ?thesis
      using user_outcome_abort [OF u 1] user_outcome_undefined [OF u 1] user_undefined [OF u 1]
        user_outcome_set_pc [OF 1]
      by (auto simp: finish_arm_def e user_outcome_def)
  next
    case 2
    then show ?thesis
      using idle user_outcome_swi [OF u] by (simp add: finish_arm_def)
  qed
qed

lemma user_finish_thumb:
  assumes u: "user_mode c" and idle: "\<not> abort_pending c" and r: "user_result c r"
  shows "user_outcome c (snd (finish_thumb pc r))"
proof -
  obtain st nx c1 where e: "r = (st, nx, c1)" by (metis prod_cases3)
  consider "guard_view c1 = guard_view c"
    | ret where "r = (ARM_OK, snd (take_exception c ARM_VEC_SWI ARM_MODE_SVC ret False),
                 fst (take_exception c ARM_VEC_SWI ARM_MODE_SVC ret False))"
    using r by (auto simp: user_result_def e)
  then show ?thesis
  proof cases
    case 1
    then show ?thesis
      using user_outcome_abort [OF u 1] user_outcome_set_pc [OF 1]
      by (auto simp: finish_thumb_def e user_outcome_def)
  next
    case 2
    then show ?thesis
      using idle user_outcome_swi [OF u] by (simp add: finish_thumb_def)
  qed
qed

lemma handler_at_cong:
  assumes u: "user_mode c" and f: "fault_view c1 = fault_view c"
  shows "handler_at c1 c' vector mode = handler_at c c' vector mode"
proof -
  note same = fault_view_parts(3) [OF u f]
  have r: "(\<forall>bk. bk \<noteq> ARM_BANK_USR \<longrightarrow> bank_view c' bk 13 = bank_view c1 bk 13 \<and>
      (bk \<noteq> own \<longrightarrow> bank_view c' bk 14 = bank_view c1 bk 14)) \<longleftrightarrow>
    (\<forall>bk. bk \<noteq> ARM_BANK_USR \<longrightarrow> bank_view c' bk 13 = bank_view c bk 13 \<and>
      (bk \<noteq> own \<longrightarrow> bank_view c' bk 14 = bank_view c bk 14))" for own
    using same by simp
  have q: "(\<forall>i \<in> {8..12}. bank_view c' ARM_BANK_FIQ i = bank_view c1 ARM_BANK_FIQ i) \<longleftrightarrow>
    (\<forall>i \<in> {8..12}. bank_view c' ARM_BANK_FIQ i = bank_view c ARM_BANK_FIQ i)"
    using same [of ARM_BANK_FIQ] by simp
  have e: "cpsr c1 AND 0x3df = cpsr c AND 0x3df" "blank_faults (cp15 c1) = blank_faults (cp15 c)"
    "spsr c1 = spsr c" "irq_line c1 = irq_line c" "fiq_line c1 = fiq_line c" "cycles c1 = cycles c"
    using f by (simp_all only: fault_view_eq)
  show ?thesis
    unfolding handler_at_def Let_def r q e fault_view_parts(2) [OF u f] ..
qed

lemma handler_entered_cong:
  assumes "user_mode c" and "fault_view c1 = fault_view c"
  shows "handler_entered c1 c' = handler_entered c c'"
proof -
  have "handler_at c1 c' = handler_at c c'" by (intro ext handler_at_cong [OF assms])
  then show ?thesis by (simp only: handler_entered_def)
qed

lemma user_outcome_cong:
  assumes "user_mode c" and "guard_view c1 = guard_view c" and "user_outcome c1 c'"
  shows "user_outcome c c'"
  using assms handler_entered_cong [OF assms(1) fault_view_guard [OF assms(2)], of c']
  by (auto simp: user_outcome_def)

lemma user_unconditional:
  assumes u: "user_mode c"
  shows "user_outcome c (snd (exec_unconditional b c pc insn next))"
proof -
  have g: "user_outcome c (snd (st, c'))" if "sys_view c' = sys_view c" for st c'
    using guard_view_sys [OF that] by (simp add: user_outcome_def)
  have oif: "user_outcome c (snd (if p then x else y))"
    if "user_outcome c (snd x)" "user_outcome c (snd y)" for p and x y :: "arm_status \<times> 'a arm_cpu"
    using that by simp
  have srs: "exec_srs b c pc insn next = (ARM_UNDEFINED, c)"
    using u by (simp add: exec_srs_def Let_def user_mode_def)
  have rfe: "exec_rfe b c pc insn = (ARM_UNDEFINED, c)"
    using user_not_priv [OF u] by (simp add: exec_rfe_def)
  have cps: "exec_cps c insn next = (ARM_OK, set_reg c 15 next)"
    using user_not_priv [OF u] by (simp add: exec_cps_def)
  have blx: "sys_view (exec_blx_imm c pc insn) = sys_view c"
    by (simp add: exec_blx_imm_def Let_def del: set_reg_frame)
  have clrex: "sys_view (set_reg (c\<lparr>excl_valid := False\<rparr>) 15 next) = sys_view c" by simp
  show ?thesis
    unfolding exec_unconditional_def srs rfe cps
    by (intro oif g [OF refl] g [OF sys_view_set_reg] g [OF blx] g [OF clrex]
        user_undefined [OF u refl])
qed

lemma user_exec_arm:
  assumes u: "user_mode c" and idle: "\<not> abort_pending c" and vfp: "vfp_confined vfp"
  shows "user_outcome c (snd (exec_arm vfp b c pc insn))"
proof -
  have "user_outcome c (set_reg c 15 x)" for x by (rule user_outcome_set_pc) simp
  then show ?thesis
    using user_unconditional [OF u] user_finish_arm [OF u idle user_conditional [OF u vfp]]
    by (simp add: exec_arm_def Let_def)
qed

lemma user_run_thumb:
  "user_mode c \<Longrightarrow> \<not> abort_pending c \<Longrightarrow>
    user_outcome c (snd (finish_thumb pc (thumb_step b c pc t next)))"
  by (rule user_finish_thumb [OF _ _ user_thumb_step])

lemma fetch_view:
  "full_view (snd (arm_fetch b c pc)) = full_view c"
  "full_view (snd (fetch_thumb b c host pa)) = full_view c"
  "full_view (snd (fetch_arm b c host pa)) = full_view c"
  by (auto simp: arm_fetch_def fetch_thumb_def fetch_arm_def Let_def split_beta view_ifs
      split: option.split)

lemma walk_abort [simp]:
  "abort_pending (snd (snd (mmu_walk b c va acc priv pa None))) = abort_pending c"
proof -
  have d: "abort_pending c1 = abort_pending c" if "mmu_descriptor b c None a = Some (v, c1)" for a v c c1
    using that by (auto simp: mmu_descriptor_def split: prod.splits)
  show ?thesis
    by (auto simp: mmu_walk_def Let_def split_beta split: option.split dest!: d)
qed

lemma translate_abort [simp]:
  "abort_pending (snd (snd (arm_mmu_translate b c va acc priv pa))) = abort_pending c"
proof -
  have p: "abort_pending (tlb_prepare c) = abort_pending c"
    by (simp add: tlb_prepare_def arm_mmu_tlb_flush_def Let_def)
  show ?thesis
    unfolding arm_mmu_translate_def Let_def split_beta
    by (cases "prepare_fetch b") (simp_all add: p)
qed

lemma fetch_abort:
  "abort_pending (snd (arm_fetch b c pc)) = abort_pending c"
  "abort_pending (snd (fetch_thumb b c host pa)) = abort_pending c"
  "abort_pending (snd (fetch_arm b c host pa)) = abort_pending c"
  by (auto simp: arm_fetch_def fetch_thumb_def fetch_arm_def Let_def split_beta
      split: option.split)

text \<open>The five ways through a step in a valid mode.\<close>

lemma arm_step_cases:
  assumes "arm_step vfp b c = (st, c')" and "arm_mode_is_valid (cpsr c)"
  obtains (FIQ) "fiq_line c" "cpsr c AND ARM_CPSR_F = 0" "st = ARM_OK"
      "c' = take_interrupt c (regs c 15) ARM_VEC_FIQ ARM_MODE_FIQ True"
  | (IRQ) "\<not> (fiq_line c \<and> cpsr c AND ARM_CPSR_F = 0)" "irq_line c" "cpsr c AND ARM_CPSR_I = 0"
      "st = ARM_OK" "c' = take_interrupt c (regs c 15) ARM_VEC_IRQ ARM_MODE_IRQ False"
  | (Prefetch) fsr c1 where "arm_fetch b c (regs c 15) = (Inl fsr, c1)" "st = ARM_OK"
      "c' = prefetch_abort c1 (regs c 15) fsr"
  | (Thumb) host pa c1 t c2 where "arm_fetch b c (regs c 15) = (Inr (host, pa), c1)"
      "cpsr c1 AND ARM_CPSR_T \<noteq> 0" "fetch_thumb b c1 host pa = (t, c2)"
      "(st, c') = finish_thumb (regs c 15)
         (thumb_step b (c2\<lparr>cycles := cycles c2 + 1\<rparr>) (regs c 15) t (regs c 15 + 2))"
  | (ARM) host pa c1 i c2 where "arm_fetch b c (regs c 15) = (Inr (host, pa), c1)"
      "cpsr c1 AND ARM_CPSR_T = 0" "fetch_arm b c1 host pa = (i, c2)"
      "(st, c') = exec_arm vfp b (c2\<lparr>cycles := cycles c2 + 1\<rparr>) (regs c 15) i"
proof -
  obtain r c1 where f: "arm_fetch b c (regs c 15) = (r, c1)" by force
  show ?thesis
  proof (cases "(fiq_line c \<and> cpsr c AND ARM_CPSR_F = 0) \<or> (irq_line c \<and> cpsr c AND ARM_CPSR_I = 0)")
    case True
    then show ?thesis using assms FIQ IRQ by (auto simp: arm_step_def Let_def split: if_splits)
  next
    case False
    then have q: "(fiq_line c \<and> cpsr c AND ARM_CPSR_F = 0) = False"
      "(irq_line c \<and> cpsr c AND ARM_CPSR_I = 0) = False" by auto
    note run = assms(1) [unfolded arm_step_def Let_def q f if_False split_conv]
    show ?thesis
    proof (cases r)
      case (Inl fsr)
      then show ?thesis using run assms(2) Prefetch [of fsr c1] f by simp
    next
      case (Inr hp)
      obtain host pa t c2 i c3 where e: "hp = (host, pa)" "fetch_thumb b c1 host pa = (t, c2)"
        "fetch_arm b c1 host pa = (i, c3)"
        by (metis surj_pair)
      show ?thesis
        using run assms(2) f Inr e Thumb [of host pa c1 t c2] ARM [of host pa c1 i c3]
        by (cases "cpsr c1 AND ARM_CPSR_T = 0") simp_all
    qed
  qed
qed

text \<open>The instruction runs on the fetched state with one more cycle; an outcome there is one here.\<close>

lemma user_run:
  assumes u: "user_mode c" and idle: "\<not> abort_pending c"
    and v: "full_view c2 = full_view c" and a: "abort_pending c2 = abort_pending c"
    and o: "\<And>c3. user_mode c3 \<Longrightarrow> \<not> abort_pending c3 \<Longrightarrow> c3 = c2\<lparr>cycles := cycles c2 + 1\<rparr> \<Longrightarrow>
        user_outcome c3 c'"
  shows "user_outcome (c\<lparr>cycles := cycles c + 1\<rparr>) c'"
proof -
  let ?c = "c\<lparr>cycles := cycles c + 1\<rparr>" and ?c3 = "c2\<lparr>cycles := cycles c2 + 1\<rparr>"
  have u0: "user_mode ?c" using u by (simp add: user_mode_def)
  have "full_view ?c3 = full_view ?c" using v by (simp add: full_view_eq)
  then have g: "guard_view ?c3 = guard_view ?c" by (intro guard_view_sys full_view_sys)
  have "user_outcome ?c3 c'"
    using o guard_view_user [OF g] u0 a idle by simp
  then show ?thesis by (rule user_outcome_cong [OF u0 g])
qed

lemma user_prefetch:
  assumes u: "user_mode c" and v: "full_view c1 = full_view c"
  shows "handler_entered (c\<lparr>cycles := cycles c + 1\<rparr>) (prefetch_abort c1 pc fsr)"
proof -
  let ?c = "c\<lparr>cycles := cycles c + 1\<rparr>"
  let ?c2 = "c1\<lparr>cycles := cycles c1 + 1, cp15 := (cp15 c1)\<lparr>ifsr := fsr, ifar := pc\<rparr>\<rparr>"
  have t: "(ARM_VEC_PREFETCH, ARM_MODE_ABT) \<in> set exception_table"
    by (simp add: exception_table_def)
  have u0: "user_mode ?c" using u by (simp add: user_mode_def)
  have "cpsr c1 AND 0x3df = cpsr c AND 0x3df"
    using full_view_sys [OF v] by (simp add: sys_view_eq)
  then have f: "fault_view ?c2 = fault_view ?c"
    using v by (simp add: fault_view_eq full_view_eq blank_faults_def)
  then show ?thesis
    using handler_entered_intro [OF u0 f t, of "pc + 4" False]
    by (simp add: prefetch_abort_def Let_def split_beta set_reg_def)
qed

lemma user_interrupt:
  assumes u: "user_mode c" and t: "(vector, mode) \<in> set exception_table"
  shows "handler_entered (c\<lparr>cycles := cycles c + 1\<rparr>) (take_interrupt c pc vector mode mf)"
proof -
  have u0: "user_mode (c\<lparr>cycles := cycles c + 1\<rparr>)" using u by (simp add: user_mode_def)
  show ?thesis
    using handler_entered_intro [OF u0 refl t, of "pc + 4" mf]
    by (simp add: take_interrupt_def Let_def split_beta)
qed

text \<open>
  C1: A User program cannot escape: whatever one step of a User-mode CPU executes or faults on, it
  retires one cycle and either leaves the mode, the interrupt masks, the saved status
  registers, the banked registers of the other modes, the interrupt lines and all of CP15 but
  the User thread word as they were, or enters a handler at its exception vector, in the mode
  of the exception with IRQs masked, with the privileged state intact and the User CPSR saved.
  The VFP unit is assumed to touch none of that state.
\<close>

theorem user_step_confined:
  assumes u: "user_mode c" and idle: "\<not> abort_pending c" and vfp: "vfp_confined vfp"
    and step: "arm_step vfp b c = (st, c')"
  shows "guard_view c' = guard_view (c\<lparr>cycles := cycles c + 1\<rparr>) \<or>
    handler_entered (c\<lparr>cycles := cycles c + 1\<rparr>) c'"
proof -
  have valid: "arm_mode_is_valid (cpsr c)"
    using u by (simp add: user_mode_def arm_mode_is_valid_def)
  have "user_outcome (c\<lparr>cycles := cycles c + 1\<rparr>) c'"
    using step valid
  proof (cases rule: arm_step_cases)
    case FIQ
    then show ?thesis
      using user_interrupt [OF u] by (simp add: user_outcome_def exception_table_def)
  next
    case IRQ
    then show ?thesis
      using user_interrupt [OF u] by (simp add: user_outcome_def exception_table_def)
  next
    case (Prefetch fsr c1)
    then show ?thesis
      using user_prefetch [OF u] fetch_view(1) [of b c "regs c 15"]
      by (simp add: user_outcome_def)
  next
    case (Thumb host pa c1 t c2)
    note v = fetch_view(1) [of b c "regs c 15"] fetch_view(2) [of b c1 host pa]
      fetch_abort(1) [of b c "regs c 15"] fetch_abort(2) [of b c1 host pa]
    have c': "c' = snd (finish_thumb (regs c 15)
         (thumb_step b (c2\<lparr>cycles := cycles c2 + 1\<rparr>) (regs c 15) t (regs c 15 + 2)))"
      using Thumb(4) by (metis snd_conv)
    show ?thesis
      unfolding c'
      by (rule user_run [OF u idle, of c2])
        (use v Thumb in \<open>auto intro: user_run_thumb\<close>)
  next
    case (ARM host pa c1 i c2)
    note v = fetch_view(1) [of b c "regs c 15"] fetch_view(3) [of b c1 host pa]
      fetch_abort(1) [of b c "regs c 15"] fetch_abort(3) [of b c1 host pa]
    have c': "c' = snd (exec_arm vfp b (c2\<lparr>cycles := cycles c2 + 1\<rparr>) (regs c 15) i)"
      using ARM(4) by (metis snd_conv)
    show ?thesis
      unfolding c'
      by (rule user_run [OF u idle, of c2])
        (use v ARM user_exec_arm [OF _ _ vfp] in auto)
  qed
  then show ?thesis by (simp only: user_outcome_def)
qed

text \<open>A User program that tries MSR CPSR_c, #0x13 (mode SVC, interrupts on): nothing happens.\<close>

definition escape_cpu :: "mem arm_cpu" where
  "escape_cpu = (reset_cpu (flat_write32 (\<lambda>_. 0) 0 0xe321f013))\<lparr>cpsr := 0x10\<rparr>"

lemma user_step_confined_witness:
  "user_mode escape_cpu \<and> fst (arm_step no_vfp flat_bus escape_cpu) = ARM_OK \<and>
   (guard_view (snd (arm_step no_vfp flat_bus escape_cpu)) =
      guard_view (escape_cpu\<lparr>cycles := cycles escape_cpu + 1\<rparr>) \<or>
    handler_entered (escape_cpu\<lparr>cycles := cycles escape_cpu + 1\<rparr>)
      (snd (arm_step no_vfp flat_bus escape_cpu)))"
proof -
  have u: "user_mode escape_cpu" "\<not> abort_pending escape_cpu"
    "fst (arm_step no_vfp flat_bus escape_cpu) = ARM_OK"
    by code_simp+
  have v: "vfp_confined no_vfp" by (simp add: vfp_confined_def no_vfp_def)
  obtain st c' where s: "arm_step no_vfp flat_bus escape_cpu = (st, c')" by force
  show ?thesis using user_step_confined [OF u(1,2) v s] u s by simp
qed

end
