(* ===== verification/Step_Inv.thy ===== *)
theory Step_Inv
  imports Precise User_Mode
begin

text \<open>
  The invariant of the core between two instructions: CPSR names a mode the processor has, the
  program counter is aligned for the instruction set CPSR selects, and no data abort is latched.
  Reset establishes it and \<open>arm_step\<close> keeps it, so the core never has to refuse a state of its own
  making.
\<close>

unbundle bit_operations_syntax

definition well_formed :: "'m arm_cpu \<Rightarrow> bool" where
  "well_formed c \<longleftrightarrow>
     arm_mode_is_valid (cpsr c) \<and> aligned_for (cpsr c) (regs c 15) \<and> \<not> abort_pending c"

text \<open>The outcome of an instruction before the step commits its next fetch address.\<close>

definition lands :: "arm_status \<times> u32 \<times> 'm arm_cpu \<Rightarrow> bool" where
  "lands r \<longleftrightarrow> (fst r = ARM_OK \<longrightarrow> \<not> abort_pending (snd (snd r)) \<longrightarrow>
     arm_mode_is_valid (cpsr (snd (snd r))) \<and> aligned_for (cpsr (snd (snd r))) (fst (snd r)))"

lemma lands_refused [simp]: "lands (ARM_UNDEFINED, r)"
  by (simp add: lands_def)

lemma lands_if: "lands x \<Longrightarrow> lands y \<Longrightarrow> lands (if p then x else y)"
  by simp

lemma low_bits_cleared [simp]:
  "(x AND - 2) AND 1 = 0" "(x AND - 4) AND 3 = 0" "(x AND - 4) AND 1 = 0" for x :: u32
  by (simp_all add: and.assoc)

lemma aligned_for_cong: "p AND 0x20 = q AND 0x20 \<Longrightarrow> aligned_for p = aligned_for q"
  by (auto simp: aligned_for_def fun_eq_iff)

lemma lands_keep:
  assumes "full_view c' = full_view c" and "arm_mode_is_valid (cpsr c)" and "aligned_for (cpsr c) nx"
  shows "lands (st, nx, c')"
  using assms full_view_mode [OF assms(1)] full_view_T [OF assms(1)]
    arm_mode_is_valid_cong aligned_for_cong
  by (metis (no_types) lands_def fst_conv snd_conv)

lemma lands_pair:
  assumes "full_view (snd r) = full_view c" and "arm_mode_is_valid (cpsr c)"
    and "aligned_for (cpsr c) nx"
  shows "lands (case r of (st, c') \<Rightarrow> (st, nx, c'))"
  using lands_keep [OF assms] by (simp add: split_beta)

section \<open>ARM state\<close>

definition arm_at :: "'m arm_cpu \<Rightarrow> u32 \<Rightarrow> bool" where
  "arm_at c nx \<longleftrightarrow> arm_mode_is_valid (cpsr c) \<and> cpsr c AND 0x20 = 0 \<and> nx AND 3 = 0"

lemma arm_at_aligned: "arm_at c nx \<Longrightarrow> arm_mode_is_valid (cpsr c)"
  "arm_at c nx \<Longrightarrow> aligned_for (cpsr c) nx"
  by (simp_all add: arm_at_def aligned_for_def)

lemmas lands_arm_keep = lands_keep [OF _ arm_at_aligned]
lemmas lands_arm_pair = lands_pair [OF _ arm_at_aligned]

lemma low_of_aligned: "x AND 3 = 0 \<Longrightarrow> x AND 1 = 0" for x :: u32
  by (erule field_of_field [of x 3 0 1, simplified])

lemma aligned_either: "nx AND 3 = 0 \<Longrightarrow> aligned_for w nx"
  using low_of_aligned by (simp add: aligned_for_def)

lemma lands_dp_write:
  assumes "arm_at c nx" and "rd = 15 \<Longrightarrow> S \<Longrightarrow> arm_bank_of_mode (cpsr c) \<noteq> ARM_BANK_USR \<Longrightarrow>
      arm_mode_is_valid (spsr c (arm_bank_of_mode (cpsr c)))"
  shows "lands (ARM_OK, dp_write c rd S res nx)"
  using assms
  by (auto simp: dp_write_def lands_def arm_at_def aligned_for_def Let_def restore_psr_valid(1))

lemma arm_at_cong:
  assumes "full_view c' = full_view c" shows "arm_at c' nx = arm_at c nx"
  using full_view_mode [OF assms] full_view_T [OF assms] arm_mode_is_valid_cong
  unfolding arm_at_def by metis

text \<open>MSR: the mode is changed to a valid one only, and leaving ARM state relaxes the alignment.\<close>

lemma lands_msr:
  assumes "arm_at c nx"
  shows "lands (case msr_write c is_spsr flds val of (st, c1) \<Rightarrow> (st, nx, c1))"
proof -
  have al: "aligned_for w nx" for w
    using assms by (intro aligned_either) (simp add: arm_at_def)
  have field: "((w AND NOT m) OR (v AND m)) AND 0x1f = w AND 0x1f" if "m AND 0x1f = 0" for w v m :: u32
  proof -
    have "(w AND NOT m) OR (v AND m) = w XOR ((w XOR v) AND m)"
      by (rule bit_word_eqI) (auto simp: bit_simps)
    moreover have "((w XOR v) AND m) AND 0x1f = 0"
      using that by (simp add: and.assoc)
    ultimately show ?thesis by (simp add: bit.conj_xor_distrib2)
  qed
  show ?thesis
    using assms al arm_mode_is_valid_cong [OF field]
    by (auto simp: msr_write_def Let_def lands_def arm_at_def restore_psr_valid(1))
qed

text \<open>An interworking target that is not refused (bits 1:0 are not 10).\<close>

lemma interwork_aligned:
  fixes t :: u32
  assumes "t AND 3 \<noteq> 2" and "t AND 1 = 0"
  shows "(t AND NOT 1) AND 3 = 0" "t AND 3 = 0"
proof -
  have e: "(3 :: u32) = mask 2" "(2 :: u32) = push_bit 1 1" "(1 :: u32) = mask 1"
    by (simp_all add: mask_eq_exp_minus_1)
  have low: "\<not> bit t 0" using assms(2) by (simp add: and_one_eq odd_iff_mod_2_eq_one bit_0 even_iff_mod_2_eq_zero)
  have "bit t 1 \<Longrightarrow> t AND 3 = 2"
    using low unfolding e by (intro bit_word_eqI) (auto simp: bit_simps less_Suc_eq numeral_2_eq_2)
  then have "\<not> bit t 1" using assms(1) by blast
  then show "t AND 3 = 0" 
    using low unfolding e by (intro bit_word_eqI) (auto simp: bit_simps less_Suc_eq numeral_2_eq_2)
  then have "(t AND 3) AND NOT 1 = 0" by (metis and_zero_eq and.commute)
  then show "(t AND NOT 1) AND 3 = 0" by (simp add: ac_simps)
qed

lemma interwork_lands:
  assumes at: "arm_at c nx" and t: "t AND 3 \<noteq> 2" and c1: "cpsr c1 = cpsr c"
  shows "lands (ARM_OK, t AND NOT 1, if t AND 1 \<noteq> 0 then c1\<lparr>cpsr := cpsr c1 OR ARM_CPSR_T\<rparr> else c1)"
proof -
  have "arm_mode_is_valid (cpsr c OR 0x20)"
    using at arm_mode_is_valid_cong [of "cpsr c OR 0x20" "cpsr c"]
    by (simp add: arm_at_def bit.conj_disj_distrib2)
  moreover have "(cpsr c OR 0x20) AND 0x20 \<noteq> 0"
    by (simp add: bit.conj_disj_distrib2)
  ultimately show ?thesis
    using at c1 interwork_aligned(1) [OF t] by (simp add: lands_def arm_at_def aligned_for_def)
qed

lemma lands_ifc: "(p \<Longrightarrow> lands x) \<Longrightarrow> (\<not> p \<Longrightarrow> lands y) \<Longrightarrow> lands (if p then x else y)"
  by simp

lemma full_view_saturated [simp]:
  "full_view (set_reg c n v\<lparr>cpsr := cpsr c OR ARM_CPSR_Q\<rparr>) = full_view c"
proof -
  have "full_view (set_reg c n v\<lparr>cpsr := cpsr (set_reg c n v) OR ARM_CPSR_Q\<rparr>) = full_view c"
    by (simp only: full_view_flags(5) full_view_set_reg)
  then show ?thesis by simp
qed

lemma lands_misc:
  assumes at: "arm_at c nx"
  shows "lands (exec_misc c pc insn nx)"
proof -
  have keep: "full_view c1 = full_view c \<Longrightarrow> lands (ARM_OK, nx, c1)" for c1
    by (rule lands_arm_keep [OF _ at at])
  show ?thesis
    unfolding exec_misc_def Let_def split_beta
    by (intro lands_ifc lands_refused lands_msr [OF at, unfolded split_beta] interwork_lands [OF at]
        keep; assumption?) simp_all
qed

lemma compare_no_result: "fst (dp_alu c opcode S a op2 sc) = Some r \<Longrightarrow> opcode < 8 \<or> 12 \<le> opcode"
proof (rule ccontr)
  assume r: "fst (dp_alu c opcode S a op2 sc) = Some r" and "\<not> (opcode < 8 \<or> 12 \<le> opcode)"
  then have "opcode \<in> {8, 9, 10, 11}" by auto
  then show False using r by (auto simp: dp_alu_def Let_def split_beta)
qed

lemma lands_data_processing:
  assumes at: "arm_at c nx"
  shows "lands (exec_data_processing c pc insn nx)"
proof -
  have wr: "lands (ARM_OK, dp_write (snd (dp_alu c opcode S a op2 sc)) rd S' res nx)"
    if ok: "rd = 15 \<Longrightarrow> S' \<Longrightarrow> arm_bank_of_mode (cpsr c) \<noteq> ARM_BANK_USR \<and>
          arm_mode_is_valid (spsr c (arm_bank_of_mode (cpsr c)))" for opcode S a op2 sc rd S' res
  proof (rule lands_dp_write)
    have v: "full_view (snd (dp_alu c opcode S a op2 sc)) = full_view c" by simp
    show "arm_at (snd (dp_alu c opcode S a op2 sc)) nx" using at arm_at_cong [OF v] by simp
    have "arm_bank_of_mode (cpsr (snd (dp_alu c opcode S a op2 sc))) = arm_bank_of_mode (cpsr c)"
      "spsr (snd (dp_alu c opcode S a op2 sc)) = spsr c"
      using full_view_mode [OF v] arm_bank_of_mode_cong v full_view_eq by metis+
    then show "arm_mode_is_valid (spsr (snd (dp_alu c opcode S a op2 sc))
        (arm_bank_of_mode (cpsr (snd (dp_alu c opcode S a op2 sc)))))"
      if "rd = 15" "S'"
      using ok that by auto
  qed
  have keep: "lands (ARM_OK, nx, snd (dp_alu c opcode S a op2 sc))" for opcode S a op2 sc
    by (rule lands_arm_keep [OF _ at at]) simp
  have reg: "lands (ARM_OK, nx, set_reg c rd v)" for rd v
    by (rule lands_arm_keep [OF _ at at]) simp
  show ?thesis
    unfolding exec_data_processing_def Let_def
    by (auto simp: split_beta lands_misc [OF at] reg keep intro!: wr dest: compare_no_result
        split: option.split)
qed

section \<open>Loads into the program counter\<close>

lemma lands_interwork:
  assumes "arm_at c nx"
  shows "lands (ARM_OK, load_pc_interwork c v)"
proof -
  have m: "cpsr (snd (load_pc_interwork c v)) AND 0x1f = cpsr c AND 0x1f"
    using sys_view_mode [of "snd (load_pc_interwork c v)" c] by simp
  have "(cpsr c OR 0x20) AND 0x20 \<noteq> 0" "(cpsr c AND - 33) AND 0x20 = 0"
    by (simp_all add: bit.conj_disj_distrib2 and.assoc)
  then have "aligned_for (cpsr (snd (load_pc_interwork c v))) (fst (load_pc_interwork c v))"
    by (simp add: load_pc_interwork_def aligned_for_def)
  then show ?thesis
    using assms arm_mode_is_valid_cong [OF m] by (simp add: lands_def arm_at_def)
qed

lemma lands_jump:
  "arm_at c nx \<Longrightarrow>
     lands (ARM_OK, fst (load_pc_interwork c v), snd (load_pc_interwork c v))"
  using lands_interwork [of c nx v] by simp

lemma arm_at_view: "arm_at c nx \<Longrightarrow> full_view c' = full_view c \<Longrightarrow> arm_at c' nx"
  using arm_at_cong by blast

lemma lands_same:
  "lands (ARM_OK, nx, c1) \<Longrightarrow> cpsr c2 = cpsr c1 \<Longrightarrow> abort_pending c2 = abort_pending c1 \<Longrightarrow>
     lands (ARM_OK, nx, c2)"
  by (simp add: lands_def)

lemma lands_writeback:
  assumes "lands (ARM_OK, n, c1)"
  shows "lands (ARM_OK, n, if p then (if q then c1 else set_reg c1 r v)
      else if w then set_reg c1 r u else c1)"
    and "lands (ARM_OK, n, if w then set_reg c1 r u else c1)"
  using assms by (simp_all add: lands_def)

lemma view_either_as [simp]:
  "full_view (snd (if B then mem_r8_as b c a p else mem_r32_as b c a p)) = full_view c"
  "full_view (if B then mem_w8_as b c a v p else mem_w32_as b c a w p) = full_view c"
  by simp_all

lemma lands_single:
  assumes at: "arm_at c nx"
  shows "lands (exec_single_transfer b c pc insn nx)"
proof -
  have keep: "full_view c1 = full_view c \<Longrightarrow> lands (ARM_OK, nx, c1)" for c1
    by (rule lands_arm_keep [OF _ at at])
  show ?thesis
    unfolding exec_single_transfer_def Let_def split_beta
    by (intro lands_ifc lands_refused lands_writeback lands_jump [OF arm_at_view [OF at]] keep)
      (simp_all split del: if_split)
qed

text \<open>LDM: r15 is the last register to be committed.\<close>

lemma ldm_commit_low:
  assumes "15 \<notin> set is"
  shows "\<exists>c1. ldm_commit rl ub rc loaded (is @ js) nx c = ldm_commit rl ub rc loaded js nx c1 \<and>
    cpsr c1 = cpsr c \<and> abort_pending c1 = abort_pending c"
  using assms
proof (induction "is" arbitrary: c)
  case (Cons i "is")
  have u: "cpsr (reg_write_user c i v) = cpsr c" "abort_pending (reg_write_user c i v) = abort_pending c"
    for v by (simp_all add: reg_write_user_def Let_def)
  show ?case
    using Cons.prems Cons.IH [of c] Cons.IH [of "reg_write_user c i (loaded i)"]
      Cons.IH [of "set_reg c i (loaded i)"] u
    by (auto simp: Let_def)
qed auto

lemma lands_ldm_commit:
  assumes at: "arm_at c nx"
  shows "lands (ARM_OK, ldm_commit rl ub False loaded [0..<16] nx c)"
proof -
  have sixteen: "[0..<16] = [0..<15] @ [15]" by (simp add: upt_rec)
  obtain c1 where c1:
    "ldm_commit rl ub False loaded [0..<16] nx c = ldm_commit rl ub False loaded [15] nx c1"
    "cpsr c1 = cpsr c" "abort_pending c1 = abort_pending c"
    using ldm_commit_low [of "[0..<15]" rl ub False loaded "[15]" nx c] unfolding sixteen by auto
  have a: "arm_at c' nx" if "cpsr c' = cpsr c" for c' :: "'a arm_cpu"
    using at that by (simp add: arm_at_def)
  have u: "cpsr (reg_write_user c1 15 v) = cpsr c" for v
    using c1 by (simp add: reg_write_user_def Let_def)
  have stay: "lands (ARM_OK, nx, c')" if "cpsr c' = cpsr c" for c' :: "'a arm_cpu"
    using at that aligned_either by (simp add: lands_def arm_at_def)
  show ?thesis
    unfolding c1(1) using lands_interwork [OF a, of "set_reg c1 15 (loaded 15)"] stay u c1
    by (simp add: split_beta)
qed

text \<open>An exception return through SPSR; SPSR is the one the guard of the instruction has checked.\<close>

lemma lands_return:
  assumes "arm_mode_is_valid (spsr c (arm_bank_of_mode (cpsr c)))" and v: "sys_view c1 = sys_view c"
  shows "lands (ARM_OK, x AND (if cpsr (restore_psr c1 (spsr c1 (arm_bank_of_mode (cpsr c1)))) AND
      ARM_CPSR_T \<noteq> 0 then NOT 1 else NOT 3), restore_psr c1 (spsr c1 (arm_bank_of_mode (cpsr c1))))"
proof -
  have "arm_bank_of_mode (cpsr c1) = arm_bank_of_mode (cpsr c)" "spsr c1 = spsr c"
    using sys_view_mode [OF v] arm_bank_of_mode_cong v sys_view_eq by metis+
  then show ?thesis
    using assms(1) by (simp add: lands_def aligned_for_def restore_psr_valid(1))
qed

lemma lands_block:
  assumes at: "arm_at c nx"
  shows "lands (exec_block_transfer b c pc insn nx)"
proof -
  have keep: "full_view c1 = full_view c \<Longrightarrow> lands (ARM_OK, nx, c1)" for c1
    by (rule lands_arm_keep [OF _ at at])
  have commit: "lands (ARM_OK, fst (ldm_commit rl ub rc loaded [0..<16] nx c1),
      snd (ldm_commit rl ub rc loaded [0..<16] nx c1))"
    if "\<not> rc" "full_view c1 = full_view c" for rl ub rc loaded c1
    using lands_ldm_commit [OF arm_at_view [OF at that(2)]] that(1) by simp
  have wb: "sys_view (if w then set_reg c1 n v else c1) = sys_view c1" for w n v
    and c1 :: "'a arm_cpu" by simp
  have ret: "sys_view (snd (ldm_commit rl ub rc loaded is nx c1)) = sys_view c"
    if "\<not> ub" "full_view c1 = full_view c" for rl ub rc loaded "is" c1
    using that full_view_sys [OF that(2)] by simp
  show ?thesis
    unfolding exec_block_transfer_def Let_def split_beta
    by (simp split: option.split split del: if_split)
      (intro conjI impI allI lands_ifc lands_refused lands_writeback lands_return keep commit;
        (simp add: wb ret split del: if_split)?; auto simp: block_unpredictable_def Let_def)
qed

section \<open>The rest of the ARM instruction set\<close>

text \<open>
  The contract of the host hooks, as core/include/arm.h states it: a handled call retires
  sequentially, so it keeps the mode and the instruction set; a redirected one leaves an address
  for the instruction set it selects; neither leaves a data abort latched. Waiting for an
  interrupt changes devices only.
\<close>

definition hooks_behave :: "'m arm_bus \<Rightarrow> bool" where
  "hooks_behave b \<longleftrightarrow> hooks_latch_nothing b \<and>
     (\<forall>h c pc e. privileged_svc_handler b = Some h \<longrightarrow> arm_mode_is_valid (cpsr c) \<longrightarrow>
        (fst (h c pc e) = ARM_SVC_HANDLED \<longrightarrow>
           cpsr (snd (h c pc e)) AND 0x3f = cpsr c AND 0x3f) \<and>
        (fst (h c pc e) = ARM_SVC_REDIRECTED \<longrightarrow>
           arm_mode_is_valid (cpsr (snd (h c pc e))) \<and>
           aligned_for (cpsr (snd (h c pc e))) (regs (snd (h c pc e)) 15))) \<and>
     (\<forall>w c. wait_for_interrupt b = Some w \<longrightarrow> cpsr (snd (w c)) = cpsr c)"

text \<open>The VFP unit moves no control state and reports one of three statuses.\<close>

definition vfp_behaves :: "'m vfp_unit \<Rightarrow> bool" where
  "vfp_behaves vfp \<longleftrightarrow> vfp_precise vfp \<and> vfp_confined vfp \<and>
     (\<forall>b c pc insn. fst (vfp b c pc insn) \<in> {ARM_OK, ARM_UNDEFINED, ARM_GUEST_UNDEFINED})"

lemma lands_coprocessor:
  assumes at: "arm_at c nx" and vfp: "vfp_behaves vfp" and hooks: "hooks_behave b"
  shows "lands (case exec_coprocessor vfp b c pc insn of (st, c') \<Rightarrow> (st, nx, c'))"
proof -
  have keep: "full_view c1 = full_view c \<Longrightarrow> lands (st, nx, c1)" for c1 st
    by (rule lands_arm_keep [OF _ at at])
  have cp15: "lands (st, nx, cp15_write c crn crm opc2 v)" for crn crm opc2 v st
    using at aligned_either
    by (simp add: lands_def arm_at_def cp15_write_def arm_mmu_tlb_flush_def Let_def)
  have same: "cpsr c1 = cpsr c \<Longrightarrow> lands (st, nx, c1)" for c1 st
    using at aligned_either by (simp add: lands_def arm_at_def)
  have wfi: "lands (case exec_wfi b c pc rd of (st, c') \<Rightarrow> (st, nx, c'))" for rd
    using hooks by (auto simp: exec_wfi_def hooks_behave_def split: option.split intro!: same)
  have v: "lands (case vfp b c pc insn of (st, c') \<Rightarrow> (st, nx, c'))"
    using vfp by (intro lands_pair [OF _ arm_at_aligned [OF at]])
      (simp add: vfp_behaves_def vfp_confined_def)
  show ?thesis
    unfolding exec_coprocessor_def Let_def
    using wfi v by (auto intro!: keep cp15)
qed

text \<open>A supervisor call: the outcome of the host hook, or the exception.\<close>

lemma handler_psr:
  assumes "arm_mode_is_valid m"
  shows "arm_mode_is_valid (cpsr (fst (take_exception c vec m ret mf)))"
    "cpsr (fst (take_exception c vec m ret mf)) AND 0x20 = 0"
  using assms arm_mode_is_valid_cong [OF entry_psr_mode [of c vec m mf]]
    entry_psr_masks(2) [of c vec m mf]
  by (simp_all add: take_exception_cpsr)

definition vectors :: "u32 set" where "vectors = {4, 8, 0xc, 0x10, 0x18, 0x1c}"

lemma exception_base_aligned: "vec \<in> vectors \<Longrightarrow> (exception_base c + vec) AND 3 = 0"
  by (auto simp: exception_base_def vectors_def)

lemma vectors_named [simp]:
  "ARM_VEC_UNDEFINED \<in> vectors" "ARM_VEC_SWI \<in> vectors" "ARM_VEC_PREFETCH \<in> vectors"
  "ARM_VEC_DATA_ABORT \<in> vectors" "ARM_VEC_IRQ \<in> vectors" "ARM_VEC_FIQ \<in> vectors"
  by (simp_all add: vectors_def)

lemma modes_named [simp]:
  "arm_mode_is_valid ARM_MODE_SVC" "arm_mode_is_valid ARM_MODE_ABT" "arm_mode_is_valid ARM_MODE_UND"
  "arm_mode_is_valid ARM_MODE_IRQ" "arm_mode_is_valid ARM_MODE_FIQ"
  by (simp_all add: arm_mode_is_valid_def)

lemma handler_aligned:
  "arm_mode_is_valid m \<Longrightarrow> vec \<in> vectors \<Longrightarrow>
     aligned_for (cpsr (fst (take_exception c vec m ret mf))) (exception_base c + vec)"
  using exception_base_aligned aligned_either by blast

lemma lands_exception:
  assumes "arm_mode_is_valid m" and "vec \<in> vectors"
  shows "lands (ARM_OK, exception_base c + vec, fst (take_exception c vec m ret mf))"
  by (simp add: lands_def handler_psr(1) [OF assms(1)] handler_aligned [OF assms])

lemma svc_result_behaves:
  assumes "hooks_behave b" and "arm_mode_is_valid (cpsr c)"
  shows "fst (privileged_svc_result b c pc e) = ARM_SVC_HANDLED \<Longrightarrow>
      cpsr (snd (privileged_svc_result b c pc e)) AND 0x3f = cpsr c AND 0x3f"
    and "fst (privileged_svc_result b c pc e) = ARM_SVC_REDIRECTED \<Longrightarrow>
      arm_mode_is_valid (cpsr (snd (privileged_svc_result b c pc e))) \<and>
      aligned_for (cpsr (snd (privileged_svc_result b c pc e)))
        (regs (snd (privileged_svc_result b c pc e)) 15)"
  using assms
  by (auto simp: privileged_svc_result_def hooks_behave_def Let_def split_beta
      split: option.splits if_splits)

lemma lands_svc:
  assumes hooks: "hooks_behave b" and ok: "arm_mode_is_valid (cpsr c)" "aligned_for (cpsr c) nx"
  shows "lands (exec_swi b c pc insn nx)" "lands (thumb_swi b c pc t nx)"
proof -
  have h: "arm_mode_is_valid w \<and> aligned_for w nx" if "w AND 0x3f = cpsr c AND 0x3f" for w
  proof -
    have "w AND 0x1f = cpsr c AND 0x1f" "w AND 0x20 = cpsr c AND 0x20"
      by (rule field_of_field [OF that], simp)+
    then show ?thesis using ok arm_mode_is_valid_cong aligned_for_cong by metis
  qed
  show "lands (exec_swi b c pc insn nx)" "lands (thumb_swi b c pc t nx)"
    using svc_result_behaves [OF hooks ok(1)] h
    by (simp_all add: exec_swi_def thumb_swi_def split_beta)
      (simp_all add: lands_def handler_psr(1) handler_aligned)
qed

lemma lands_conditional:
  assumes at: "arm_at c nx" and vfp: "vfp_behaves vfp" and hooks: "hooks_behave b"
  shows "lands (exec_conditional vfp b c pc insn nx)"
proof -
  have p: "lands (case r of (st, c') \<Rightarrow> (st, nx, c'))" if "full_view (snd r) = full_view c" for r
    by (rule lands_pair [OF that arm_at_aligned [OF at]])
  have v: "lands (case vfp b c pc insn of (st, c') \<Rightarrow> (st, nx, c'))"
    using vfp by (intro p) (simp add: vfp_behaves_def vfp_confined_def)
  have br: "lands (exec_branch c pc insn)"
  proof -
    have "aligned_for (cpsr c) (x AND NOT 3)" for x by (rule aligned_either) simp
    then show ?thesis
      using at by (simp add: exec_branch_def lands_def arm_at_def Let_def)
  qed
  show ?thesis
    unfolding exec_conditional_def Let_def
    by (intro lands_if lands_data_processing [OF at] br p [OF full_view_multiply(1)]
        p [OF full_view_multiply(2)] p [OF full_view_multiply(3)] p [OF full_view_media]
        p [OF full_view_extra] p [OF full_view_sync] lands_single [OF at] lands_block [OF at] v
        lands_svc(1) [OF hooks] arm_at_aligned [OF at] lands_coprocessor [OF at vfp hooks] lands_refused)
qed

section \<open>Thumb state\<close>

definition thumb_at :: "'m arm_cpu \<Rightarrow> u32 \<Rightarrow> bool" where
  "thumb_at c nx \<longleftrightarrow> arm_mode_is_valid (cpsr c) \<and> cpsr c AND 0x20 \<noteq> 0 \<and> nx AND 1 = 0"

lemma thumb_at_aligned: "thumb_at c nx \<Longrightarrow> arm_mode_is_valid (cpsr c)"
  "thumb_at c nx \<Longrightarrow> aligned_for (cpsr c) nx"
  by (simp_all add: thumb_at_def aligned_for_def)

lemma cleared_T: "(w AND NOT ARM_CPSR_T) AND 0x20 = 0" "arm_mode_is_valid (w AND NOT ARM_CPSR_T) = arm_mode_is_valid w"
  using arm_mode_is_valid_cong [of "w AND NOT ARM_CPSR_T" w] by (simp_all add: and.assoc)

text \<open>A branch inside Thumb state, or one that leaves it for a target whose bits 1:0 are 00.\<close>

lemma lands_thumb_jump:
  assumes at: "thumb_at c nx" and v: "full_view c1 = full_view c"
  shows "t AND 1 = 0 \<Longrightarrow> lands (ARM_OK, t, c1)"
    and "t AND 3 = 0 \<Longrightarrow> lands (ARM_OK, t, c1\<lparr>cpsr := cpsr c1 AND NOT ARM_CPSR_T\<rparr>)"
    and "t AND 3 \<noteq> 2 \<Longrightarrow> lands (ARM_OK, t AND NOT 1,
      if t AND 1 = 0 then c1\<lparr>cpsr := cpsr c1 AND NOT ARM_CPSR_T\<rparr> else c1)"
proof -
  have c1: "arm_mode_is_valid (cpsr c1)" "cpsr c1 AND 0x20 \<noteq> 0"
    using at full_view_mode [OF v] full_view_T [OF v] arm_mode_is_valid_cong
    unfolding thumb_at_def by metis+
  show "t AND 1 = 0 \<Longrightarrow> lands (ARM_OK, t, c1)"
    using c1 by (simp add: lands_def aligned_for_def)
  show leave: "t AND 3 = 0 \<Longrightarrow> lands (ARM_OK, t, c1\<lparr>cpsr := cpsr c1 AND NOT ARM_CPSR_T\<rparr>)" for t
    using c1 aligned_either cleared_T by (simp add: lands_def)
  show "t AND 3 \<noteq> 2 \<Longrightarrow> lands (ARM_OK, t AND NOT 1,
      if t AND 1 = 0 then c1\<lparr>cpsr := cpsr c1 AND NOT ARM_CPSR_T\<rparr> else c1)"
    using c1 leave [of "t AND NOT 1"] interwork_aligned(1) [of t] by (simp add: lands_def aligned_for_def)
qed

lemma lands_hi_reg:
  assumes at: "thumb_at c nx"
  shows "lands (thumb_hi_reg c pc t nx)"
proof -
  have keep: "full_view c1 = full_view c \<Longrightarrow> lands (ARM_OK, nx, c1)" for c1
    by (rule lands_keep [OF _ thumb_at_aligned [OF at]])
  show ?thesis
    unfolding thumb_hi_reg_def Let_def
    by (intro lands_ifc lands_refused lands_thumb_jump [OF at] keep) simp_all
qed

lemma lands_pop:
  assumes at: "thumb_at c nx"
  shows "lands (thumb_pop b c rl extra nx)"
proof -
  have keep: "full_view c1 = full_view c \<Longrightarrow> lands (ARM_OK, nx, c1)" for c1
    by (rule lands_keep [OF _ thumb_at_aligned [OF at]])
  show ?thesis
    unfolding thumb_pop_def Let_def split_beta
    by (cases extra; simp split: option.split split del: if_split;
        intro conjI impI allI lands_ifc lands_refused lands_thumb_jump(3) [OF at] keep) simp_all
qed

lemma cps_masks_keep [simp]:
  "cpsr (cps_masks c a i f d) AND 0x1f = cpsr c AND 0x1f"
  "cpsr (cps_masks c a i f d) AND 0x20 = cpsr c AND 0x20"
  by (simp_all add: cps_masks_def Let_def set_flag_field)

lemma lands_misc_thumb:
  assumes at: "thumb_at c nx"
  shows "lands (thumb_misc b c t nx)"
proof -
  have keep: "full_view c1 = full_view c \<Longrightarrow> lands (st, nx, c1)" for c1 st
    by (rule lands_keep [OF _ thumb_at_aligned [OF at]])
  have rev: "full_view (snd (thumb_rev c t)) = full_view c" by simp
  have cps: "lands (ARM_OK, nx, cps_masks c a i f d)" for a i f d
    using thumb_at_aligned [OF at] arm_mode_is_valid_cong [OF cps_masks_keep(1) [of c a i f d]]
      aligned_for_cong [OF cps_masks_keep(2) [of c a i f d]]
    by (simp add: lands_def)
  show ?thesis
    unfolding thumb_misc_def Let_def thumb_push_pop_def split_beta
    by (intro lands_ifc lands_refused cps lands_pop [OF at] keep) simp_all
qed

lemma low_bit_even: "x AND 1 = 0 \<longleftrightarrow> even x" for x :: u32
  by (simp add: and_one_eq even_iff_mod_2_eq_zero)

text \<open>The sign-extended halfword offset of an unconditional Thumb branch is even.\<close>

lemma even_thumb_offset: "even (signed_drop_bit 20 (shl x 21))" for x :: u32
proof -
  have "bit (signed_drop_bit 20 (shl x 21)) 0 \<longleftrightarrow> False"
    by (simp add: bit_signed_drop_bit_iff bit_push_bit_iff)
  then show ?thesis by (simp add: bit_0)
qed

lemma lands_thumb_step:
  assumes at: "thumb_at c nx" and nx: "nx = pc + 2" and hooks: "hooks_behave b"
  shows "lands (thumb_step b c pc t nx)"
proof -
  have keep: "full_view c1 = full_view c \<Longrightarrow> lands ((\<lambda>c'. (ARM_OK, nx, c')) c1)" for c1
    by (rule lands_keep [OF _ thumb_at_aligned [OF at]])
  have pair: "full_view (snd r) = full_view c \<Longrightarrow> lands ((\<lambda>(st, c'). (st, nx, c')) r)" for r
    by (rule lands_pair [OF _ thumb_at_aligned [OF at]])
  have even: "even (pc + 4)"
    using at by (simp add: thumb_at_def nx low_bit_even)
  note jump = lands_thumb_jump [OF at]
  have cond: "lands (thumb_cond_branch b c pc t nx)"
    unfolding thumb_cond_branch_def Let_def
    using even at
    by (intro lands_ifc lands_refused lands_svc(2) [OF hooks] thumb_at_aligned [OF at] jump(1) refl)
      (simp_all add: low_bit_even thumb_at_def)
  have uncond: "lands ((\<lambda>(next', c'). (ARM_OK, next', c')) (thumb_branch c pc t))"
    using even jump(1) [of c] jump(2) [of "set_reg c 14 ((pc + 2) OR 1)"]
    by (simp add: thumb_branch_def Let_def low_bit_even even_thumb_offset)
  have bl: "lands ((\<lambda>(next', c'). (ARM_OK, next', c')) (thumb_bl c pc t nx))"
    using at jump(1) [of "set_reg c 14 v" for v] by (simp add: thumb_bl_def Let_def thumb_at_def)
  show ?thesis
    unfolding thumb_step_def Let_def
    by (intro lands_if keep pair cond uncond bl lands_hi_reg [OF at] lands_misc_thumb [OF at]) simp_all
qed

section \<open>Exceptions and the unconditional space\<close>

lemma well_formed_abort [simp]: "well_formed (take_pending_data_abort c pc)"
  by (simp add: take_pending_data_abort_def Let_def split_beta well_formed_def handler_psr(1)
      handler_aligned [of ARM_MODE_ABT ARM_VEC_DATA_ABORT, simplified])

lemma well_formed_undefined [simp]:
  "\<not> abort_pending c \<Longrightarrow> well_formed (snd (take_undefined_instruction c pc))"
  by (simp add: take_undefined_instruction_def split_beta well_formed_def handler_psr(1)
      handler_aligned [of ARM_MODE_UND ARM_VEC_UNDEFINED, simplified])

lemma well_formed_refusal:
  assumes "well_formed c" shows "well_formed (snd (undefined_instruction c pc insn))"
proof -
  have "\<not> abort_pending c" using assms by (simp add: well_formed_def)
  then show ?thesis using assms by (simp add: undefined_instruction_def)
qed

lemma well_formed_ifc:
  "(p \<Longrightarrow> well_formed (snd x)) \<Longrightarrow> (\<not> p \<Longrightarrow> well_formed (snd y)) \<Longrightarrow>
     well_formed (snd (if p then x else y))"
  by simp

lemma well_formed_goto:
  "arm_at c nx \<Longrightarrow> cpsr c' = cpsr c \<Longrightarrow> \<not> abort_pending c' \<Longrightarrow> well_formed (set_reg c' 15 nx)"
  using aligned_either by (simp add: well_formed_def arm_at_def)

lemma well_formed_cps:
  assumes at: "arm_at c nx" and wf: "well_formed c"
  shows "well_formed (snd (exec_cps c insn nx))"
proof -
  have al: "aligned_for w nx" for w using at aligned_either by (simp add: arm_at_def)
  have m: "arm_mode_is_valid (cpsr (cps_masks c a i f d))" for a i f d
    using at arm_mode_is_valid_cong [OF cps_masks_keep(1) [of c a i f d]] by (simp add: arm_at_def)
  have s: "arm_mode_is_valid (cpsr (arm_set_mode c1 (insn AND 0x1f)))" if "arm_mode_is_valid insn"
    for c1 :: "'a arm_cpu"
    using that arm_mode_is_valid_cong [of "(cpsr c1 AND - 32) OR (insn AND 0x1f)" insn]
    by (simp add: cpsr_arm_set_mode)
  show ?thesis
    unfolding exec_cps_def Let_def
    using wf at by (simp add: well_formed_def al m s arm_at_def)
qed

lemma well_formed_blx: "arm_at c nx \<Longrightarrow> \<not> abort_pending c \<Longrightarrow> well_formed (exec_blx_imm c pc insn)"
proof -
  assume a: "arm_at c nx" and l: "\<not> abort_pending c"
  have "arm_mode_is_valid (cpsr c OR 0x20)" "(cpsr c OR 0x20) AND 0x20 \<noteq> 0"
    using a arm_mode_is_valid_cong [of "cpsr c OR 0x20" "cpsr c"]
    by (simp_all add: arm_at_def bit.conj_disj_distrib2)
  then show ?thesis
    using l by (simp add: exec_blx_imm_def Let_def well_formed_def aligned_for_def)
qed

lemma view_cpsr: "restart_view c' = restart_view c \<Longrightarrow> cpsr c' = cpsr c"
  "restart_view c' = restart_view c \<Longrightarrow> regs c' = regs c"
  by (simp_all add: restart_view_eq)

lemma well_formed_view:
  "well_formed c \<Longrightarrow> restart_view c' = restart_view c \<Longrightarrow> \<not> abort_pending c' \<Longrightarrow> well_formed c'"
  by (simp add: well_formed_def restart_view_eq)

lemma well_formed_srs:
  assumes at: "arm_at c nx" and wf: "well_formed c"
  shows "well_formed (snd (exec_srs b c pc insn nx))"
proof -
  have go: "well_formed (snd (ARM_OK, set_reg (if p then c1 else if q then set_reg c1 13 w
      else c1\<lparr>bank_r13 := x\<rparr>) 15 nx))"
    if "restart_view c1 = restart_view c" "\<not> abort_pending c1" for c1 p q w x
    unfolding snd_conv
    by (rule well_formed_goto [OF at]) (simp_all add: view_cpsr [OF that(1)] that(2))
  show ?thesis
    unfolding exec_srs_def Let_def split_beta
    by (simp add: wf split: option.split split del: if_split cong del: if_weak_cong)
      (intro conjI impI allI well_formed_ifc go; simp add: wf)
qed

lemma well_formed_rfe:
  assumes wf: "well_formed c"
  shows "well_formed (snd (exec_rfe b c pc insn))"
proof -
  have go: "well_formed (snd (ARM_OK, set_reg (restore_psr c1 w) 15
      (x AND (if cpsr (restore_psr c1 w) AND ARM_CPSR_T \<noteq> 0 then - 2 else - 4))))"
    if "arm_mode_is_valid w" "\<not> abort_pending c1" for c1 :: "'a arm_cpu" and w x
    using that by (simp add: well_formed_def restore_psr_valid(1) aligned_for_def)
  show ?thesis
    unfolding exec_rfe_def Let_def split_beta
    by (simp add: wf split: option.split split del: if_split cong del: if_weak_cong)
      (intro conjI impI allI well_formed_ifc go; simp add: wf well_formed_view [OF wf])
qed

lemma well_formed_unconditional:
  assumes at: "arm_at c nx" and wf: "well_formed c"
  shows "well_formed (snd (exec_unconditional b c pc insn nx))"
proof -
  have idle: "\<not> abort_pending c" using wf by (simp add: well_formed_def)
  have go: "well_formed (set_reg c 15 nx)" "well_formed (set_reg (c\<lparr>excl_valid := False\<rparr>) 15 nx)"
    using at idle by (auto intro: well_formed_goto)
  show ?thesis
    unfolding exec_unconditional_def
    using wf by (simp add: go well_formed_cps [OF at wf] well_formed_blx [OF at idle]
        well_formed_srs [OF at wf] well_formed_rfe [OF wf] well_formed_refusal)
qed

section \<open>The step\<close>

lemma fetch_restart_view [simp]:
  "restart_view (snd (arm_fetch b c pc)) = restart_view c"
  "abort_pending (snd (arm_fetch b c pc)) = abort_pending c"
proof -
  have "restart_view (c\<lparr>fetch_host := h, fetch_blk := k, fetch_gen := g, fetch_priv := p\<rparr>) = restart_view c"
    for c :: "'a arm_cpu" and h k g p
    by (simp add: restart_view_eq)
  then show "restart_view (snd (arm_fetch b c pc)) = restart_view c"
    "abort_pending (snd (arm_fetch b c pc)) = abort_pending c"
    by (auto simp: arm_fetch_def Let_def split_beta latch_ifs if_distrib [where f = restart_view]
        split: option.split)
qed

lemma well_formed_keep:
  "well_formed c \<Longrightarrow> regs c' = regs c \<Longrightarrow> cpsr c' = cpsr c \<Longrightarrow> \<not> abort_pending c' \<Longrightarrow>
     well_formed c'"
  by (simp add: well_formed_def)

lemma svc_halt:
  assumes "fst (privileged_svc_result b c pc e) = ARM_SVC_ERROR" and "\<not> abort_pending c"
  shows "regs (snd (privileged_svc_result b c pc e)) = regs c \<and>
    cpsr (snd (privileged_svc_result b c pc e)) = cpsr c \<and>
    \<not> abort_pending (snd (privileged_svc_result b c pc e))"
  using assms
  by (auto simp: privileged_svc_result_def Let_def split_beta split: option.splits if_splits)

text \<open>Only a fatal host hook ends an instruction with \<open>ARM_HALT\<close>.\<close>

definition halts_clean :: "'m arm_cpu \<Rightarrow> arm_status \<times> u32 \<times> 'm arm_cpu \<Rightarrow> bool" where
  "halts_clean c r \<longleftrightarrow> (fst r = ARM_HALT \<longrightarrow>
     regs (snd (snd r)) = regs c \<and> cpsr (snd (snd r)) = cpsr c \<and> \<not> abort_pending (snd (snd r)))"

lemma instruction_outcome:
  assumes wf: "well_formed c" and r: "lands (st, nx, c')" "precise3 c (st, nx, c')"
    "halts_clean c (st, nx, c')"
  shows "st = ARM_HALT \<Longrightarrow> well_formed c'"
    and "st = ARM_OK \<Longrightarrow> \<not> abort_pending c' \<Longrightarrow> well_formed (set_reg c' 15 nx)"
    and "st \<noteq> ARM_OK \<Longrightarrow> st \<noteq> ARM_HALT \<Longrightarrow> \<not> abort_pending c' \<Longrightarrow> well_formed c'"
proof -
  show "st = ARM_HALT \<Longrightarrow> well_formed c'"
    using r(3) by (intro well_formed_keep [OF wf]) (simp_all add: halts_clean_def)
  show "st = ARM_OK \<Longrightarrow> \<not> abort_pending c' \<Longrightarrow> well_formed (set_reg c' 15 nx)"
    using r(1) by (simp add: lands_def well_formed_def)
  show "st \<noteq> ARM_OK \<Longrightarrow> st \<noteq> ARM_HALT \<Longrightarrow> \<not> abort_pending c' \<Longrightarrow> well_formed c'"
    using r(2) well_formed_view [OF wf] by (simp add: precise3_def precise_def)
qed

lemma well_formed_finish:
  assumes wf: "well_formed c" and r: "lands r" "precise3 c r" "halts_clean c r"
  shows "well_formed (snd (finish_thumb pc r))" "well_formed (snd (finish_arm pc insn r))"
proof -
  obtain st nx c' where e: "r = (st, nx, c')" by (metis prod_cases3)
  note o = instruction_outcome [OF wf, of st nx c', folded e, OF r]
  have u: "\<not> abort_pending c' \<Longrightarrow> st = ARM_UNDEFINED \<Longrightarrow>
      well_formed (snd (undefined_instruction c' pc insn))"
    using o(3) well_formed_refusal by blast
  show "well_formed (snd (finish_thumb pc r))"
    unfolding e finish_thumb_def using o by (auto simp: Let_def simp del: well_formed_undefined)
  show "well_formed (snd (finish_arm pc insn r))"
    unfolding e finish_arm_def using o u by (auto simp: Let_def)
qed

lemma halts_clean_svc:
  assumes "\<not> abort_pending c"
  shows "halts_clean c (exec_swi b c pc insn nx)" "halts_clean c (thumb_swi b c pc t nx)"
  using svc_halt [OF _ assms]
  by (simp_all add: halts_clean_def exec_swi_def thumb_swi_def split_beta)

definition no_halt :: "arm_status \<times> 'a \<Rightarrow> bool" where
  "no_halt r \<longleftrightarrow> fst r \<noteq> ARM_HALT"

lemma no_halt_leaf: "no_halt (ARM_OK, x)" "no_halt (ARM_UNDEFINED, x)"
  by (simp_all add: no_halt_def)

lemma no_halt_if: "no_halt x \<Longrightarrow> no_halt y \<Longrightarrow> no_halt (if p then x else y)"
  by simp

lemma no_halt_pair: "no_halt r \<Longrightarrow> no_halt (case r of (st, c') \<Rightarrow> (st, nx, c'))"
  by (simp add: no_halt_def split_beta)

lemma no_halt_clean: "no_halt r \<Longrightarrow> halts_clean c r"
  by (simp add: no_halt_def halts_clean_def)

lemma no_halt_option:
  "no_halt x \<Longrightarrow> (\<And>v. no_halt (f v)) \<Longrightarrow> no_halt (case o' of None \<Rightarrow> x | Some v \<Rightarrow> f v)"
  by (cases o') simp_all

lemma no_halt_sync:
  "(\<And>u. no_halt (f u)) \<Longrightarrow>
     no_halt (case fst (prepare_sync_address c a al wr) of
         Inl st \<Rightarrow> (st, snd (prepare_sync_address c a al wr)) | Inr u \<Rightarrow> f u)"
  by (simp add: prepare_sync_address_def no_halt_leaf)

lemmas no_halt_intros = no_halt_if no_halt_leaf no_halt_pair no_halt_option no_halt_sync

lemma no_halt_alu:
  "no_halt (exec_data_processing c pc insn nx)" "no_halt (exec_branch c pc insn)"
  "no_halt (exec_multiply c pc insn)" "no_halt (exec_multiply_long c pc insn)"
  "no_halt (exec_dsp_multiply c insn)"
proof -
  have msr: "no_halt (msr_write c sp f v)" for sp f v
    unfolding msr_write_def Let_def by (intro no_halt_intros)
  have misc: "no_halt (exec_misc c pc insn nx)"
    unfolding exec_misc_def Let_def split_beta
    by (intro no_halt_intros) (use msr in \<open>simp add: no_halt_def\<close>)
  show "no_halt (exec_data_processing c pc insn nx)"
    unfolding exec_data_processing_def Let_def
    by (intro no_halt_intros misc) (simp add: no_halt_def split_beta split: option.split)
  show "no_halt (exec_branch c pc insn)" "no_halt (exec_multiply c pc insn)"
    "no_halt (exec_multiply_long c pc insn)" "no_halt (exec_dsp_multiply c insn)"
    unfolding exec_branch_def exec_multiply_def exec_multiply_long_def exec_dsp_multiply_def Let_def
      split_beta by (intro no_halt_intros)+
qed

lemma no_halt_media: "no_halt (exec_media c pc insn)"
proof -
  have "no_halt (media_extend c pc insn)"
    by (auto simp: media_extend_def Let_def no_halt_def split: option.split)
  moreover have "no_halt (media_parallel c pc insn)"
    unfolding media_parallel_def Let_def split_beta by (intro no_halt_intros)
  moreover have "no_halt (media_rev f c pc insn)" for f
    unfolding media_rev_def Let_def by (intro no_halt_intros)
  moreover have "no_halt (media_divide c insn)" "no_halt (media_pack c pc insn)"
    "no_halt (media_select c pc insn)" "no_halt (media_smlad c pc insn)"
    "no_halt (media_smlald c pc insn)" "no_halt (media_smmul c pc insn)"
    "no_halt (media_usad8 c pc insn)" "no_halt (media_sat c pc insn)" "no_halt (media_sat16 c pc insn)"
    unfolding media_divide_def media_pack_def media_select_def media_smlad_def media_smlald_def
      media_smmul_def media_usad8_def media_sat_def media_sat16_def Let_def split_beta
    by (intro no_halt_intros)+
  ultimately show ?thesis
    unfolding exec_media_def Let_def by (intro no_halt_intros)
qed

lemma no_halt_mem:
  "no_halt (exec_single_transfer b c pc insn nx)" "no_halt (exec_extra_transfer b c pc insn)"
  "no_halt (exec_block_transfer b c pc insn nx)" "no_halt (exec_sync b c insn)"
proof -
  show "no_halt (exec_single_transfer b c pc insn nx)" "no_halt (exec_extra_transfer b c pc insn)"
    unfolding exec_single_transfer_def exec_extra_transfer_def Let_def split_beta
    by (intro no_halt_intros)+
  show "no_halt (exec_block_transfer b c pc insn nx)"
    unfolding exec_block_transfer_def Let_def split_beta
    by (intro no_halt_intros)
  have "no_halt (exec_ldrex b c insn)" "no_halt (exec_ldrexd b c insn)" "no_halt (exec_ldrexb b c insn)"
    "no_halt (exec_ldrexh b c insn)" "no_halt (exec_strex b c insn)" "no_halt (exec_strexd b c insn)"
    "no_halt (exec_strexb b c insn)" "no_halt (exec_strexh b c insn)" "no_halt (exec_swap b c insn)"
    unfolding exec_ldrex_def exec_ldrexd_def exec_ldrexb_def exec_ldrexh_def exec_strex_def
      exec_strexd_def exec_strexb_def exec_strexh_def exec_swap_def Let_def split_beta
    by (intro no_halt_intros)+
  then show "no_halt (exec_sync b c insn)"
    unfolding exec_sync_def by (intro no_halt_intros)
qed

lemma halts_clean_if: "halts_clean c x \<Longrightarrow> halts_clean c y \<Longrightarrow> halts_clean c (if p then x else y)"
  by simp

lemma halts_clean_conditional:
  assumes "vfp_behaves vfp" and "\<not> abort_pending c"
  shows "halts_clean c (exec_conditional vfp b c pc insn nx)"
proof -
  have v: "no_halt (vfp b c pc insn)"
    using assms(1) unfolding vfp_behaves_def no_halt_def by (metis arm_status.distinct insert_iff empty_iff)
  have "no_halt (exec_coprocessor vfp b c pc insn)"
    unfolding exec_coprocessor_def exec_wfi_def Let_def by (intro no_halt_intros v)
  then show ?thesis
    unfolding exec_conditional_def Let_def
    by (intro halts_clean_if halts_clean_svc(1) [OF assms(2)] no_halt_clean no_halt_pair no_halt_alu
        no_halt_media no_halt_mem no_halt_leaf v)
qed

lemma halts_clean_thumb:
  assumes "\<not> abort_pending c"
  shows "halts_clean c (thumb_step b c pc t nx)"
proof -
  have groups: "no_halt (thumb_hi_reg c pc t nx)" "no_halt (thumb_ls_reg b c t)"
    "no_halt (thumb_ls_half b c t)" "no_halt (thumb_block b c t)"
    unfolding thumb_hi_reg_def thumb_ls_reg_def thumb_ls_half_def thumb_block_def Let_def split_beta
    by (intro no_halt_intros)+
  have "no_halt (thumb_pop b c rl e nx)" for rl e
    unfolding thumb_pop_def Let_def split_beta by (intro no_halt_intros)
  moreover have "no_halt (thumb_rev c t)"
    unfolding thumb_rev_def Let_def by (intro no_halt_intros)
  ultimately have misc: "no_halt (thumb_misc b c t nx)"
    unfolding thumb_misc_def thumb_push_pop_def Let_def by (intro no_halt_intros)
  have branch: "halts_clean c (thumb_cond_branch b c pc t nx)"
    unfolding thumb_cond_branch_def Let_def
    by (intro halts_clean_if halts_clean_svc(2) [OF assms] no_halt_clean no_halt_leaf)
  have jump: "no_halt ((\<lambda>(n, c'). (ARM_OK, n, c')) r)" for r :: "u32 \<times> 'a arm_cpu"
    by (simp add: no_halt_def split_beta)
  show ?thesis
    unfolding thumb_step_def Let_def
    by (intro halts_clean_if branch no_halt_clean no_halt_pair groups misc jump no_halt_leaf)
qed

section \<open>The theorem\<close>

lemma well_formed_view_of: "well_formed c \<Longrightarrow> regs c' = regs c \<Longrightarrow> cpsr c' = cpsr c \<Longrightarrow>
    abort_pending c' = abort_pending c \<Longrightarrow> well_formed c'"
  by (simp add: well_formed_def)

lemma well_formed_interrupt:
  assumes "\<not> abort_pending c" "arm_mode_is_valid m" "vec \<in> vectors"
  shows "well_formed (take_interrupt c pc vec m mf)"
  using assms
  by (simp add: take_interrupt_def split_beta well_formed_def handler_psr(1)
      handler_aligned [of m vec "c\<lparr>cycles := cycles c + 1\<rparr>" for c, simplified])

lemma well_formed_prefetch:
  assumes "\<not> abort_pending c"
  shows "well_formed (prefetch_abort c pc fsr)"
  using assms
  by (simp add: prefetch_abort_def Let_def split_beta well_formed_def handler_psr(1)
      handler_aligned [of ARM_MODE_ABT ARM_VEC_PREFETCH, simplified])

lemma next_aligned:
  "pc AND 3 = 0 \<Longrightarrow> (pc + 4) AND 3 = 0" "pc AND 1 = 0 \<Longrightarrow> (pc + 2) AND 1 = 0" for pc :: u32
proof -
  have "x AND 3 = 0 \<longleftrightarrow> 4 dvd x" for x :: u32
    using take_bit_eq_mask [of 2 x] take_bit_eq_0_iff [of 2 x] by (simp add: mask_eq_exp_minus_1)
  then show "pc AND 3 = 0 \<Longrightarrow> (pc + 4) AND 3 = 0" by simp
qed (simp add: low_bit_even)

lemma well_formed_exec_arm:
  assumes wf: "well_formed c" and T: "cpsr c AND 0x20 = 0"
    and vfp: "vfp_behaves vfp" and hooks: "hooks_behave b"
  shows "well_formed (snd (exec_arm vfp b c (regs c 15) insn))"
proof -
  let ?pc = "regs c 15"
  have idle: "\<not> abort_pending c" using wf by (simp add: well_formed_def)
  have at: "arm_at c (?pc + 4)"
    using wf T by (simp add: well_formed_def arm_at_def aligned_for_def next_aligned)
  have vp: "vfp_precise vfp" and quiet: "hooks_latch_nothing b"
    using vfp hooks by (simp_all add: vfp_behaves_def hooks_behave_def)
  have "well_formed (snd (finish_arm ?pc insn (exec_conditional vfp b c ?pc insn (?pc + 4))))"
    by (intro well_formed_finish(2) [OF wf] lands_conditional [OF at vfp hooks]
        precise_conditional [OF idle vp quiet] halts_clean_conditional [OF vfp idle])
  moreover have "well_formed (snd (exec_unconditional b c ?pc insn (?pc + 4)))"
    by (rule well_formed_unconditional [OF at wf])
  moreover have "well_formed (set_reg c 15 (?pc + 4))"
    by (rule well_formed_goto [OF at refl idle])
  ultimately show ?thesis by (simp add: exec_arm_def Let_def)
qed

lemma well_formed_exec_thumb:
  assumes wf: "well_formed c" and T: "cpsr c AND 0x20 \<noteq> 0" and hooks: "hooks_behave b"
  shows "well_formed (snd (finish_thumb (regs c 15)
    (thumb_step b c (regs c 15) t (regs c 15 + 2))))"
proof -
  have idle: "\<not> abort_pending c" using wf by (simp add: well_formed_def)
  have at: "thumb_at c (regs c 15 + 2)"
    using wf T by (simp add: well_formed_def thumb_at_def aligned_for_def next_aligned)
  have quiet: "hooks_latch_nothing b" using hooks by (simp add: hooks_behave_def)
  show ?thesis
    by (intro well_formed_finish(1) [OF wf] lands_thumb_step [OF at refl hooks]
        precise_thumb [OF idle quiet] halts_clean_thumb [OF idle])
qed

text \<open>The fetch of the instruction word moves at most the platform.\<close>

lemma fetched_cpu:
  "snd (fetch_arm b c h pa) = c\<lparr>ctx := ctx (snd (fetch_arm b c h pa))\<rparr>"
  "snd (fetch_thumb b c h pa) = c\<lparr>ctx := ctx (snd (fetch_thumb b c h pa))\<rparr>"
  by (simp_all add: fetch_arm_def fetch_thumb_def split_beta split: option.split)

lemma fetched_view [simp]:
  "regs (snd (fetch_arm b c h pa)) = regs c" "cpsr (snd (fetch_arm b c h pa)) = cpsr c"
  "abort_pending (snd (fetch_arm b c h pa)) = abort_pending c"
  "regs (snd (fetch_thumb b c h pa)) = regs c" "cpsr (snd (fetch_thumb b c h pa)) = cpsr c"
  "abort_pending (snd (fetch_thumb b c h pa)) = abort_pending c"
  by (subst fetched_cpu, simp)+

lemma step_keeps_well_formed:
  assumes wf: "well_formed c" and vfp: "vfp_behaves vfp" and hooks: "hooks_behave b"
  shows "well_formed (snd (arm_step vfp b c))"
proof -
  let ?pc = "regs c 15"
  have idle: "\<not> abort_pending c" and mode: "arm_mode_is_valid (cpsr c)"
    using wf by (simp_all add: well_formed_def)
  obtain src c1 where f: "arm_fetch b c ?pc = (src, c1)" by force
  have c1: "regs c1 = regs c" "cpsr c1 = cpsr c" "\<not> abort_pending c1"
    using fetch_restart_view [of b c ?pc] idle view_cpsr by (simp_all add: f)
  have next_cpu: "well_formed c2" if "regs c2 = regs c1" "cpsr c2 = cpsr c1" "\<not> abort_pending c2" for c2
    using that c1 wf by (simp add: well_formed_def)
  have arm: "well_formed (snd (exec_arm vfp b c2 ?pc insn))"
    if "regs c2 = regs c1" "cpsr c2 = cpsr c1" "\<not> abort_pending c2" "cpsr c1 AND 0x20 = 0" for c2 insn
    using well_formed_exec_arm [OF next_cpu [OF that(1-3)] _ vfp hooks, of insn] that c1 by simp
  have thumb: "well_formed (snd (finish_thumb ?pc (thumb_step b c2 ?pc t (?pc + 2))))"
    if "regs c2 = regs c1" "cpsr c2 = cpsr c1" "\<not> abort_pending c2" "cpsr c1 AND 0x20 \<noteq> 0" for c2 t
    using well_formed_exec_thumb [OF next_cpu [OF that(1-3)] _ hooks, of t] that c1 by simp
  show ?thesis
    using idle mode c1(3)
    by (cases src)
      (simp_all add: arm_step_def Let_def f split_beta well_formed_interrupt well_formed_prefetch arm thumb)
qed

text \<open>
  The states the core goes through: from a reset, by steps, while devices move the interrupt lines
  and the platform state in between.
\<close>

inductive reachable :: "'m vfp_unit \<Rightarrow> 'm arm_bus \<Rightarrow> 'm arm_cpu \<Rightarrow> bool" for vfp b where
  reset: "reachable vfp b (arm_reset c)"
| step: "reachable vfp b c \<Longrightarrow> reachable vfp b (snd (arm_step vfp b c))"
| lines: "reachable vfp b c \<Longrightarrow> reachable vfp b (c\<lparr>irq_line := irq, fiq_line := fiq\<rparr>)"
| devices: "reachable vfp b c \<Longrightarrow> reachable vfp b (c\<lparr>ctx := m\<rparr>)"

lemma reset_well_formed: "well_formed (arm_reset c)"
  by (simp add: arm_reset_def arm_mmu_tlb_flush_def Let_def well_formed_def aligned_for_def
      arm_mode_is_valid_def)

text \<open>
  C11: Between two instructions the core is always in a state it can go on from: a mode the
  processor has, a program counter aligned for the instruction set, and no data abort latched.
  This holds in every state reached from a reset, whatever the instructions, the interrupt lines
  and the devices do. The hypotheses are the contracts of the host hooks and of the VFP unit.
\<close>

theorem reachable_well_formed:
  assumes "vfp_behaves vfp" and "hooks_behave b" and "reachable vfp b c"
  shows "arm_mode_is_valid (cpsr c) \<and> aligned_for (cpsr c) (regs c 15) \<and> \<not> abort_pending c"
proof -
  have "well_formed c"
    using assms(3)
  proof (induction rule: reachable.induct)
    case (reset c)
    show ?case by (rule reset_well_formed)
  next
    case (step c)
    then show ?case using step_keeps_well_formed assms(1,2) by blast
  qed (simp_all add: well_formed_def)
  then show ?thesis by (simp add: well_formed_def)
qed

lemma reachable_well_formed_witness:
  "aligned_for (cpsr (snd (arm_step no_vfp flat_bus (reset_cpu (flat_write32 (\<lambda>_. 0) 0 0xea000001)))))
    (regs (snd (arm_step no_vfp flat_bus (reset_cpu (flat_write32 (\<lambda>_. 0) 0 0xea000001)))) 15) \<and>
   regs (snd (arm_step no_vfp flat_bus (reset_cpu (flat_write32 (\<lambda>_. 0) 0 0xea000001)))) 15 = 0xc"
proof -
  have "vfp_behaves (no_vfp :: mem vfp_unit)"
    by (simp add: vfp_behaves_def vfp_precise_def vfp_confined_def no_vfp_def)
  moreover have "hooks_behave flat_bus"
    by (simp add: hooks_behave_def hooks_latch_nothing_def flat_bus_def)
  ultimately have "aligned_for
    (cpsr (snd (arm_step no_vfp flat_bus (reset_cpu (flat_write32 (\<lambda>_. 0) 0 0xea000001)))))
    (regs (snd (arm_step no_vfp flat_bus (reset_cpu (flat_write32 (\<lambda>_. 0) 0 0xea000001)))) 15)"
    using reachable_well_formed [OF _ _ reachable.step [OF reachable.reset]]
    unfolding reset_cpu_def by blast
  moreover have "regs (snd (arm_step no_vfp flat_bus
      (reset_cpu (flat_write32 (\<lambda>_. 0) 0 0xea000001)))) 15 = 0xc"
    by code_simp
  ultimately show ?thesis by blast
qed

end
