(* ===== verification/Ram_Watch.thy ===== *)
theory Ram_Watch
  imports Harness
begin

text \<open>
  Write witnesses for physical pages (core/src/arm/arm_ram_watch.c). A nonzero stamp stands for
  the unchanged bytes of one 1 KB page; a publication of new bytes moves it. The lemmas show that
  a stamp is never issued twice, so an equal stamp proves that nothing was published in between,
  also when the 64-bit sequence is exhausted. A NULL watch or page is \<open>None\<close>; \<open>got\<close> is the success
  of the allocation.
\<close>

unbundle bit_operations_syntax

record arm_ram_watch =
  wt_ram :: hptr
  wt_base :: u32
  wt_size :: u32
  wt_pages :: u32
  wt_sequence :: u64
  wt_stamp :: "u64 list"

definition UINT64_MAX :: u64 where "UINT64_MAX = 0xffffffffffffffff"

definition arm_ram_watch_create :: "bool \<Rightarrow> hptr option \<Rightarrow> u32 \<Rightarrow> u32 \<Rightarrow> arm_ram_watch option" where
  "arm_ram_watch_create got ram base bytes =
     (case ram of
        None \<Rightarrow> None
      | Some r \<Rightarrow>
          if bytes = 0 \<or> base AND 1023 \<noteq> 0 \<or> bytes AND 1023 \<noteq> 0 \<or>
             unat base + unat bytes > 0x100000000 then None
          else if \<not> got then None
          else Some \<lparr>wt_ram = r, wt_base = base, wt_size = bytes, wt_pages = bytes div 1024,
                     wt_sequence = 0, wt_stamp = replicate (unat (bytes div 1024)) 0\<rparr>)"

definition arm_ram_watch_reset :: "arm_ram_watch \<Rightarrow> arm_ram_watch" where
  "arm_ram_watch_reset w = w\<lparr>wt_stamp := replicate (unat (wt_pages w)) 0\<rparr>"

definition next_stamp :: "arm_ram_watch \<Rightarrow> u64 \<times> arm_ram_watch" where
  "next_stamp w =
     (if wt_sequence w = UINT64_MAX then (0, w)
      else (wt_sequence w + 1, w\<lparr>wt_sequence := wt_sequence w + 1\<rparr>))"

text \<open>Every data-write entry that points at the page is cleared.\<close>

definition revoke_dwrite :: "'m arm_cpu \<Rightarrow> hptr \<Rightarrow> 'm arm_cpu" where
  "revoke_dwrite c page =
     c\<lparr>dwrite := (\<lambda>i. if d_host (dwrite c i) = Some page then empty_blk_entry else dwrite c i)\<rparr>"

definition arm_ram_watch_capture ::
  "arm_ram_watch \<Rightarrow> 'm arm_cpu \<Rightarrow> hptr option \<Rightarrow> u64 \<times> arm_ram_watch \<times> 'm arm_cpu" where
  "arm_ram_watch_capture w c page =
     (case page of
        None \<Rightarrow> (0, w, c)
      | Some address \<Rightarrow>
          if wt_sequence w = UINT64_MAX then (0, w, c)
          else if address < wt_ram w \<or> address - wt_ram w \<ge> unat (wt_size w) \<or>
                  (address - wt_ram w) mod 1024 \<noteq> 0 then (0, w, c)
          else
            let index = (address - wt_ram w) div 1024
            in if wt_stamp w ! index = 0 then
                 (let (s, w1) = next_stamp w;
                      w2 = w1\<lparr>wt_stamp := (wt_stamp w1)[index := s]\<rparr>
                  in (wt_stamp w2 ! index, w2, revoke_dwrite c address))
               else (wt_stamp w ! index, w, c))"

text \<open>The pages a range touches: numbers of the first and the last, 64-bit arithmetic.\<close>

definition watch_first :: "arm_ram_watch \<Rightarrow> u32 \<Rightarrow> nat" where
  "watch_first w pa = (unat pa - unat (wt_base w)) div 1024"

definition watch_last :: "arm_ram_watch \<Rightarrow> u32 \<Rightarrow> u32 \<Rightarrow> nat" where
  "watch_last w pa len = (unat pa - unat (wt_base w) + unat len - 1) div 1024"

definition arm_ram_watch_unwatched :: "arm_ram_watch option \<Rightarrow> u32 \<Rightarrow> u32 \<Rightarrow> bool" where
  "arm_ram_watch_unwatched watch pa len =
     (case watch of
        None \<Rightarrow> True
      | Some w \<Rightarrow>
          if len = 0 \<or> pa < wt_base w \<or>
             unat pa - unat (wt_base w) + unat len > unat (wt_size w) then False
          else list_all (\<lambda>i. wt_stamp w ! i = 0) [watch_first w pa..<Suc (watch_last w pa len)])"

text \<open>One iteration of the publication loop.\<close>

definition restamp :: "nat \<Rightarrow> arm_ram_watch \<Rightarrow> arm_ram_watch" where
  "restamp i w =
     (if wt_stamp w ! i = 0 then w
      else
        let (s, w1) = next_stamp w
        in w1\<lparr>wt_stamp := (wt_stamp w1)[i := if s \<noteq> 0 then s else UINT64_MAX]\<rparr>)"

definition arm_ram_watch_changed :: "arm_ram_watch \<Rightarrow> u32 \<Rightarrow> u32 \<Rightarrow> arm_ram_watch" where
  "arm_ram_watch_changed w pa len =
     (if len = 0 then w
      else
        let lo = unat (wt_base w); end' = lo + unat (wt_size w);
            first = max (unat pa) lo; last' = min (unat pa + unat len) end'
        in if last' \<le> first then w
           else fold restamp [(first - lo) div 1024..<Suc ((last' - 1 - lo) div 1024)] w)"

section \<open>The invariant\<close>

text \<open>One stamp per page, and none of them newer than the sequence number.\<close>

definition watch_ok :: "arm_ram_watch \<Rightarrow> bool" where
  "watch_ok w \<longleftrightarrow> wt_pages w = wt_size w div 1024 \<and> unat (wt_size w) mod 1024 = 0 \<and>
     length (wt_stamp w) = unat (wt_size w) div 1024 \<and> (\<forall>s \<in> set (wt_stamp w). s \<le> wt_sequence w)"

lemma created_ok: "arm_ram_watch_create got ram base bytes = Some w \<Longrightarrow> watch_ok w"
proof -
  assume "arm_ram_watch_create got ram base bytes = Some w"
  then have w: "wt_pages w = bytes div 1024" "wt_size w = bytes" "wt_sequence w = 0"
    "wt_stamp w = replicate (unat (bytes div 1024)) 0" "bytes AND 1023 = 0"
    by (auto simp: arm_ram_watch_create_def split: option.splits if_splits)
  have "take_bit 10 bytes = 0"
    using w(5) by (simp add: take_bit_eq_mask mask_eq_exp_minus_1)
  then have "unat (take_bit 10 bytes) = 0" by simp
  then have "unat bytes mod 1024 = 0"
    by (simp only: unsigned_take_bit_eq) (simp add: take_bit_eq_mod)
  then show ?thesis using w by (simp add: watch_ok_def unat_div)
qed

lemma UINT64_MAX_top: "UINT64_MAX = - 1"
  unfolding UINT64_MAX_def
  by (rule word_unat_eq_iff [THEN iffD2]) (simp add: unsigned_minus_1_eq_mask mask_eq_exp_minus_1)

lemma below_top: "s \<noteq> UINT64_MAX \<Longrightarrow> s < s + 1 \<and> s + 1 \<noteq> 0" for s :: u64
proof -
  assume "s \<noteq> UINT64_MAX"
  then have "unat s \<noteq> 18446744073709551615"
    unfolding UINT64_MAX_def by (auto simp: word_unat_eq_iff)
  moreover have "unat s < 18446744073709551616" using unsigned_less [of s] by simp
  ultimately have "unat (s + 1) = Suc (unat s)"
    by (simp add: unat_word_ariths)
  then show ?thesis by (metis lessI nat.distinct(1) unat_0 word_less_nat_alt)
qed

text \<open>A new stamp is newer than every stamp issued before; when none is left, 0 is returned.\<close>

lemma next_stamp_cases:
  obtains (spent) "wt_sequence w = UINT64_MAX" "next_stamp w = (0, w)"
  | (issued) "wt_sequence w \<noteq> UINT64_MAX" "wt_sequence w < wt_sequence w + 1" "wt_sequence w + 1 \<noteq> 0"
      "next_stamp w = (wt_sequence w + 1, w\<lparr>wt_sequence := wt_sequence w + 1\<rparr>)"
  using below_top [of "wt_sequence w"] by (cases "wt_sequence w = UINT64_MAX") (auto simp: next_stamp_def)

lemma top_greatest [simp]: "s \<le> UINT64_MAX"
  by (simp add: UINT64_MAX_top)

lemma restamp_frame [simp]:
  "wt_ram (restamp i w) = wt_ram w" "wt_base (restamp i w) = wt_base w"
  "wt_size (restamp i w) = wt_size w" "wt_pages (restamp i w) = wt_pages w"
  "length (wt_stamp (restamp i w)) = length (wt_stamp w)"
  by (simp_all add: restamp_def next_stamp_def)

section \<open>Stale stamps\<close>

text \<open>
  \<open>stale s i w\<close>: stamp \<open>s\<close> has been issued for page \<open>i\<close> and is not the page's any more; it will
  never be again.
\<close>

definition stale :: "u64 \<Rightarrow> nat \<Rightarrow> arm_ram_watch \<Rightarrow> bool" where
  "stale s i w \<longleftrightarrow> wt_sequence w = UINT64_MAX \<or> (s \<le> wt_sequence w \<and> wt_stamp w ! i \<noteq> s)"

lemma watch_ok_stamp: "watch_ok w \<Longrightarrow> i < length (wt_stamp w) \<Longrightarrow> wt_stamp w ! i \<le> wt_sequence w"
  by (simp add: watch_ok_def)

lemma restamp_ok: "watch_ok w \<Longrightarrow> watch_ok (restamp i w)"
  by (rule next_stamp_cases [of w])
    (auto simp: watch_ok_def restamp_def dest!: set_update_subset_insert [THEN subsetD])

lemma restamp_stale:
  "stale s j w \<Longrightarrow> s \<noteq> 0 \<Longrightarrow> j < length (wt_stamp w) \<Longrightarrow> stale s j (restamp i w)"
  by (rule next_stamp_cases [of w]; cases "i < length (wt_stamp w)"; cases "i = j")
    (auto simp: stale_def restamp_def)

lemma restamp_makes_stale:
  assumes "watch_ok w" and "i < length (wt_stamp w)" and "s \<le> wt_sequence w" and "s \<noteq> 0"
  shows "stale s i (restamp i w)"
  using assms by (rule_tac next_stamp_cases [of w]) (auto simp: stale_def restamp_def)

lemma restamp_sequence: "wt_sequence w \<le> wt_sequence (restamp i w)"
  by (rule next_stamp_cases [of w]) (auto simp: restamp_def)

text \<open>A publication: every page of the range, clipped to the watched region, is stamped again.\<close>

lemma fold_restamp:
  "watch_ok w \<Longrightarrow> watch_ok (fold restamp is w)"
  "length (wt_stamp (fold restamp is w)) = length (wt_stamp w)"
  "wt_base (fold restamp is w) = wt_base w" "wt_size (fold restamp is w) = wt_size w"
  "wt_ram (fold restamp is w) = wt_ram w"
  "stale s j w \<Longrightarrow> s \<noteq> 0 \<Longrightarrow> j < length (wt_stamp w) \<Longrightarrow> stale s j (fold restamp is w)"
  "wt_sequence w \<le> wt_sequence (fold restamp is w)"
proof (induction "is" arbitrary: w)
  case (Cons i "is")
  { case 7 then show ?case using Cons.IH(7) [of "restamp i w"] restamp_sequence [of w i] by simp }
qed (simp_all add: restamp_ok restamp_stale)

lemma fold_restamp_stale:
  assumes "watch_ok w" "i \<in> set is" "i < length (wt_stamp w)" "s \<le> wt_sequence w" "s \<noteq> 0"
  shows "stale s i (fold restamp is w)"
proof -
  obtain as bs where s: "is = as @ i # bs"
    using assms(2) by (auto simp: in_set_conv_decomp)
  let ?w = "fold restamp as w"
  have "stale s i (restamp i ?w)"
    using assms fold_restamp(1) [of w as] fold_restamp(2) [of as w] fold_restamp(7) [of w as] by (intro restamp_makes_stale) auto
  then show ?thesis
    using assms fold_restamp(2) [of as w] fold_restamp(6) [of s i "restamp i ?w" bs] by (simp add: s)
qed

definition page_overlap :: "arm_ram_watch \<Rightarrow> nat \<Rightarrow> u32 \<Rightarrow> u32 \<Rightarrow> bool" where
  "page_overlap w i pa len \<longleftrightarrow> len \<noteq> 0 \<and>
     unat pa < unat (wt_base w) + 1024 * i + 1024 \<and> unat (wt_base w) + 1024 * i < unat pa + unat len"

lemma changed_stale:
  assumes ok: "watch_ok w" and i: "i < length (wt_stamp w)" and ov: "page_overlap w i pa len"
    and s: "s \<le> wt_sequence w" "s \<noteq> 0"
  shows "stale s i (arm_ram_watch_changed w pa len)"
proof -
  let ?lo = "unat (wt_base w)"
  have size: "1024 * i + 1024 \<le> unat (wt_size w)"
    using ok i by (auto simp: watch_ok_def)
  define a where "a = max (unat pa) ?lo"
  define z where "z = min (unat pa + unat len) (?lo + unat (wt_size w))"
  have r: "a < z" "a < ?lo + 1024 * i + 1024" "?lo + 1024 * i < z" "?lo \<le> a"
    using ov size by (auto simp: a_def z_def page_overlap_def unat_gt_0)
  then have "(a - ?lo) div 1024 \<le> i" "i \<le> (z - 1 - ?lo) div 1024"
    by (auto simp: div_le_mono less_eq_div_iff_mult_less_eq)
  moreover have "len \<noteq> 0" using ov by (auto simp: page_overlap_def)
  ultimately show ?thesis
    using r(1) fold_restamp_stale [OF ok _ i s, of "[(a - ?lo) div 1024..<Suc ((z - 1 - ?lo) div 1024)]"]
    by (simp add: arm_ram_watch_changed_def Let_def del: upt_Suc flip: a_def z_def)
qed

lemma changed_frame [simp]:
  "length (wt_stamp (arm_ram_watch_changed w pa len)) = length (wt_stamp w)"
  "wt_base (arm_ram_watch_changed w pa len) = wt_base w"
  "wt_size (arm_ram_watch_changed w pa len) = wt_size w"
  "wt_ram (arm_ram_watch_changed w pa len) = wt_ram w"
  by (simp_all add: arm_ram_watch_changed_def Let_def fold_restamp(2-5) del: upt_Suc)

lemma changed_keeps:
  "watch_ok w \<Longrightarrow> watch_ok (arm_ram_watch_changed w pa len)"
  "stale s i w \<Longrightarrow> s \<noteq> 0 \<Longrightarrow> i < length (wt_stamp w) \<Longrightarrow> stale s i (arm_ram_watch_changed w pa len)"
  "wt_sequence w \<le> wt_sequence (arm_ram_watch_changed w pa len)"
  by (simp_all add: arm_ram_watch_changed_def Let_def fold_restamp(1,6,7) del: upt_Suc)

section \<open>Captures\<close>

definition page_index :: "arm_ram_watch \<Rightarrow> hptr \<Rightarrow> nat" where
  "page_index w p = (p - wt_ram w) div 1024"

lemma capture_issued:
  assumes ok: "watch_ok w" and cap: "arm_ram_watch_capture w c (Some p) = (s, w1, c1)" and s: "s \<noteq> 0"
  shows "wt_stamp w1 ! page_index w p = s" "page_index w p < length (wt_stamp w)"
    "s \<le> wt_sequence w1" "wt_sequence w \<noteq> UINT64_MAX"
proof -
  have g: "wt_sequence w \<noteq> UINT64_MAX" "wt_ram w \<le> p" "p - wt_ram w < unat (wt_size w)"
    using cap s by (auto simp: arm_ram_watch_capture_def split: if_splits)
  then show "wt_sequence w \<noteq> UINT64_MAX" by simp
  have "unat (wt_size w) = 1024 * length (wt_stamp w)"
    using ok by (auto simp: watch_ok_def)
  then show i: "page_index w p < length (wt_stamp w)"
    using g(3) by (simp add: page_index_def less_mult_imp_div_less)
  show "wt_stamp w1 ! page_index w p = s" "s \<le> wt_sequence w1"
    using cap s g i watch_ok_stamp [OF ok i] below_top [of "wt_sequence w"]
    by (auto simp: arm_ram_watch_capture_def next_stamp_def page_index_def Let_def split: if_splits)
qed

text \<open>What every operation keeps: the region, the invariant, the order of stamps, staleness.\<close>

definition carries :: "arm_ram_watch \<Rightarrow> arm_ram_watch \<Rightarrow> bool" where
  "carries w w1 \<longleftrightarrow> wt_ram w1 = wt_ram w \<and> wt_base w1 = wt_base w \<and> wt_size w1 = wt_size w \<and>
     length (wt_stamp w1) = length (wt_stamp w) \<and> watch_ok w1 \<and> wt_sequence w \<le> wt_sequence w1 \<and>
     (\<forall>t i. stale t i w \<longrightarrow> t \<noteq> 0 \<longrightarrow> i < length (wt_stamp w) \<longrightarrow> stale t i w1)"

lemma carries_refl: "watch_ok w \<Longrightarrow> carries w w"
  by (simp add: carries_def)

lemma carries_trans: "carries w w1 \<Longrightarrow> carries w1 w2 \<Longrightarrow> carries w w2"
  by (auto simp: carries_def)

lemma carries_changed: "watch_ok w \<Longrightarrow> carries w (arm_ram_watch_changed w pa len)"
  by (simp add: carries_def changed_keeps)

lemma carries_reset: "watch_ok w \<Longrightarrow> carries w (arm_ram_watch_reset w)"
  by (auto simp: carries_def arm_ram_watch_reset_def watch_ok_def unat_div stale_def)

lemma carries_issue:
  assumes ok: "watch_ok w" and "wt_sequence w \<noteq> UINT64_MAX"
  shows "carries w (w\<lparr>wt_sequence := wt_sequence w + 1, wt_stamp := (wt_stamp w)[k := wt_sequence w + 1]\<rparr>)"
    (is "carries w ?w")
proof -
  have up: "wt_sequence w < wt_sequence w + 1" using assms(2) below_top by blast
  have "s \<le> wt_sequence w + 1" if "s \<in> set ((wt_stamp w)[k := wt_sequence w + 1])" for s
    using that set_update_subset_insert [of "wt_stamp w" k] ok up
    by (fastforce simp: watch_ok_def)
  then have "watch_ok ?w" using ok by (simp add: watch_ok_def)
  moreover have "stale t i ?w" if "stale t i w" "i < length (wt_stamp w)" for t i
    using that assms(2) up by (cases "i = k") (auto simp: stale_def)
  ultimately show ?thesis using up by (simp add: carries_def)
qed

lemma carries_capture:
  assumes "arm_ram_watch_capture w c p = (s, w1, c1)" and ok: "watch_ok w"
  shows "carries w w1"
proof -
  have "w1 = w \<or> (\<exists>k. wt_sequence w \<noteq> UINT64_MAX \<and>
      w1 = w\<lparr>wt_sequence := wt_sequence w + 1, wt_stamp := (wt_stamp w)[k := wt_sequence w + 1]\<rparr>)"
    using assms(1)
    by (auto simp: arm_ram_watch_capture_def next_stamp_def Let_def split: option.splits if_splits)
  then show ?thesis using carries_refl [OF ok] carries_issue [OF ok] by blast
qed

text \<open>What happens to a watch: captures, publications, and the reset of all stamps.\<close>

datatype watch_event = Capture hptr | Publish u32 u32 | Forget

fun watch_step :: "watch_event \<Rightarrow> arm_ram_watch \<times> 'm arm_cpu \<Rightarrow> arm_ram_watch \<times> 'm arm_cpu" where
  "watch_step (Capture p) (w, c) = snd (arm_ram_watch_capture w c (Some p))"
| "watch_step (Publish pa len) (w, c) = (arm_ram_watch_changed w pa len, c)"
| "watch_step Forget (w, c) = (arm_ram_watch_reset w, c)"

lemma watch_step_carries:
  assumes ok: "watch_ok w"
  shows "carries w (fst (watch_step e (w, c)))"
proof (cases e)
  case (Capture p)
  obtain s w1 c1 where "arm_ram_watch_capture w c (Some p) = (s, w1, c1)" by (rule prod_cases3)
  with carries_capture [OF this ok] show ?thesis by (simp add: Capture)
qed (simp_all add: carries_changed carries_reset ok)

definition watch_run :: "watch_event list \<Rightarrow> arm_ram_watch \<times> 'm arm_cpu \<Rightarrow> arm_ram_watch \<times> 'm arm_cpu" where
  "watch_run = fold watch_step"

lemma watch_run_carries:
  assumes "watch_ok w" shows "carries w (fst (watch_run es (w, c)))"
  using assms
proof (induction es arbitrary: w c)
  case Nil then show ?case by (simp add: watch_run_def carries_refl)
next
  case (Cons e es)
  obtain w1 c1 where e: "watch_step e (w, c) = (w1, c1)" by (rule prod.exhaust)
  have "carries w w1" using watch_step_carries [OF Cons.prems, of e c] by (simp add: e)
  moreover from this have "carries w1 (fst (watch_run es (w1, c1)))"
    by (intro Cons.IH) (simp add: carries_def)
  ultimately show ?case by (simp add: watch_run_def e carries_trans)
qed

lemma stale_never_recaptured:
  assumes "stale s (page_index w p) w" "watch_ok w" "s \<noteq> 0"
    and "arm_ram_watch_capture w c (Some p) = (s, w1, c1)"
  shows False
proof -
  note i = capture_issued [OF assms(2,4,3)]
  have n: "wt_sequence w \<noteq> UINT64_MAX" "wt_stamp w ! page_index w p \<noteq> s" "s \<le> wt_sequence w"
    using assms(1) i(4) by (auto simp: stale_def)
  then show False
    using assms(3,4) i(2) below_top [of "wt_sequence w"]
    by (auto simp: arm_ram_watch_capture_def next_stamp_def page_index_def Let_def split: if_splits)
qed

text \<open>
  C13:
  A write witness is sound. If a page is captured with stamp s, any sequence of captures,
  publications and resets follows, and a second capture of that page gives s again, then none of
  the publications in between touched a byte of the page. It holds at the end of the 64-bit
  sequence too, where a capture refuses.
\<close>

theorem capture_witness_sound:
  assumes ok: "watch_ok w"
    and first: "arm_ram_watch_capture w c (Some p) = (s, w1, c1)" "s \<noteq> 0"
    and between: "watch_run es (w1, c1) = (w2, c2)"
    and again: "fst (arm_ram_watch_capture w2 c2 (Some p)) = s"
    and pub: "Publish pa len \<in> set es"
  shows "\<not> page_overlap w (page_index w p) pa len"
proof
  assume ov: "page_overlap w (page_index w p) pa len"
  note i = capture_issued [OF ok first]
  obtain as bs where es: "es = as @ Publish pa len # bs" using pub by (auto simp: in_set_conv_decomp)
  obtain wa ca where a: "watch_run as (w1, c1) = (wa, ca)" by (rule prod.exhaust)
  have c1: "carries w w1" by (rule carries_capture [OF first(1) ok])
  have ca: "carries w1 wa" using watch_run_carries [of w1 as c1] c1 by (simp add: a carries_def)
  let ?wb = "arm_ram_watch_changed wa pa len" and ?i = "page_index w p"
  have "stale s ?i ?wb"
  proof (cases "s \<le> wt_sequence wa")
    case True
    with c1 ca ov i(2) show ?thesis
      by (intro changed_stale first(2)) (auto simp: carries_def page_overlap_def)
  qed (use ca c1 i in \<open>auto simp: carries_def\<close>)
  moreover have cb: "carries ?wb w2"
    using between watch_run_carries [of ?wb bs ca] ca changed_keeps(1) [of wa pa len]
    by (simp add: es watch_run_def a [unfolded watch_run_def] carries_def)
  ultimately have st: "stale s (page_index w2 p) w2" "watch_ok w2"
    using c1 ca first(2) i(2) by (auto simp: carries_def page_index_def)
  obtain w3 c3 where "arm_ram_watch_capture w2 c2 (Some p) = (s, w3, c3)"
    using again by (metis prod.collapse)
  with stale_never_recaptured [OF st first(2)] show False by blast
qed

text \<open>Two pages; the second is published between two captures of the first.\<close>

definition two_pages :: arm_ram_watch where
  "two_pages = the (arm_ram_watch_create True (Some 4096) 0x08000000 2048)"

lemma two_pages_eq:
  "two_pages = \<lparr>wt_ram = 4096, wt_base = 0x08000000, wt_size = 2048, wt_pages = 2,
                wt_sequence = 0, wt_stamp = [0, 0]\<rparr>"
proof -
  have "replicate 2 (0 :: u64) = [0, 0]" by (simp add: numeral_2_eq_2)
  then show ?thesis by (simp add: two_pages_def arm_ram_watch_create_def)
qed

lemma two_pages_trace:
  fixes c :: "mem arm_cpu"
  shows "arm_ram_watch_capture two_pages c (Some 4096) =
      (1, two_pages\<lparr>wt_sequence := 1, wt_stamp := [1, 0]\<rparr>, revoke_dwrite c 4096)"
    "watch_run [Capture 5120, Publish 0x08000400 4]
       (two_pages\<lparr>wt_sequence := 1, wt_stamp := [1, 0]\<rparr>, c) =
     (two_pages\<lparr>wt_sequence := 3, wt_stamp := [1, 3]\<rparr>, revoke_dwrite c 5120)"
    "fst (arm_ram_watch_capture (two_pages\<lparr>wt_sequence := 3, wt_stamp := [1, 3]\<rparr>) c (Some 4096)) = 1"
  by (simp_all add: two_pages_eq arm_ram_watch_capture_def next_stamp_def UINT64_MAX_def watch_run_def
      arm_ram_watch_changed_def restamp_def max_def min_def)

lemma capture_witness_sound_witness:
  "fst (arm_ram_watch_capture two_pages (reset_cpu mapped_mem) (Some 4096)) = 1 \<and>
   \<not> page_overlap two_pages (page_index two_pages 4096) 0x08000400 4"
proof -
  have "watch_ok two_pages" by (simp add: two_pages_eq watch_ok_def)
  from capture_witness_sound [OF this two_pages_trace(1) [of "reset_cpu mapped_mem"] _
      two_pages_trace(2) two_pages_trace(3), where pa = "0x08000400" and len = 4]
  show ?thesis by (simp add: two_pages_trace(1))
qed

end
