(* ===== verification/Vic.thy ===== *)
theory Vic
  imports Prelude
begin

text \<open>
  The vectored interrupt controller (core/src/soc/vic.c): device lines and software interrupts,
  masked by the enable register and routed to IRQ or FIQ by the select register, and the vector
  address read that names the lowest pending source. The lemmas give each register write bit by
  bit, and show that an active line reaches exactly one output.
\<close>

unbundle bit_operations_syntax

section \<open>State and operations\<close>

record s5l_vic =
  v_raw :: u32
  v_enable :: u32
  v_select :: u32
  v_soft :: u32

abbreviation VIC_IRQSTATUS :: u32 where "VIC_IRQSTATUS \<equiv> 0x00"
abbreviation VIC_FIQSTATUS :: u32 where "VIC_FIQSTATUS \<equiv> 0x04"
abbreviation VIC_RAWINTR :: u32 where "VIC_RAWINTR \<equiv> 0x08"
abbreviation VIC_INTSELECT :: u32 where "VIC_INTSELECT \<equiv> 0x0c"
abbreviation VIC_INTENABLE :: u32 where "VIC_INTENABLE \<equiv> 0x10"
abbreviation VIC_INTENCLEAR :: u32 where "VIC_INTENCLEAR \<equiv> 0x14"
abbreviation VIC_SOFTINT :: u32 where "VIC_SOFTINT \<equiv> 0x18"
abbreviation VIC_SOFTINTCLEAR :: u32 where "VIC_SOFTINTCLEAR \<equiv> 0x1c"
abbreviation VIC_VECTADDR :: u32 where "VIC_VECTADDR \<equiv> 0xf00"

definition vic_pending :: "s5l_vic \<Rightarrow> u32" where
  "vic_pending v = v_raw v OR v_soft v"

definition s5l_vic_reset :: s5l_vic where
  "s5l_vic_reset = \<lparr>v_raw = 0, v_enable = 0, v_select = 0, v_soft = 0\<rparr>"

definition s5l_vic_irq :: "s5l_vic \<Rightarrow> bool" where
  "s5l_vic_irq v \<longleftrightarrow> (vic_pending v AND v_enable v) AND NOT (v_select v) \<noteq> 0"

definition s5l_vic_fiq :: "s5l_vic \<Rightarrow> bool" where
  "s5l_vic_fiq v \<longleftrightarrow> (vic_pending v AND v_enable v) AND v_select v \<noteq> 0"

definition s5l_vic_set_line :: "s5l_vic \<Rightarrow> nat \<Rightarrow> bool \<Rightarrow> s5l_vic" where
  "s5l_vic_set_line v line level =
     (if line > 31 then v
      else if level then v\<lparr>v_raw := v_raw v OR shl 1 line\<rparr>
      else v\<lparr>v_raw := v_raw v AND NOT (shl 1 line)\<rparr>)"

text \<open>\<open>while (!(irq & (1u << bit))) bit++\<close>; the caller has checked that \<open>irq\<close> is not zero.\<close>

function vic_lowest :: "u32 \<Rightarrow> nat \<Rightarrow> nat" where
  "vic_lowest irq i = (if i \<ge> 32 \<or> irq AND shl 1 i \<noteq> 0 then i else vic_lowest irq (Suc i))"
  by pat_completeness auto
termination by (relation "measure (\<lambda>(irq, i). 32 - i)") auto

definition s5l_vic_vectaddr :: "s5l_vic \<Rightarrow> u32 \<Rightarrow> u32" where
  "s5l_vic_vectaddr v base_source =
     (let irq = (vic_pending v AND v_enable v) AND NOT (v_select v)
      in if irq = 0 then 0
         else (base_source + of_nat (vic_lowest irq 0)) OR 0x80000000)"

definition s5l_vic_read :: "s5l_vic \<Rightarrow> u32 \<Rightarrow> u32" where
  "s5l_vic_read v off =
     (if off = VIC_IRQSTATUS then (vic_pending v AND v_enable v) AND NOT (v_select v)
      else if off = VIC_FIQSTATUS then (vic_pending v AND v_enable v) AND v_select v
      else if off = VIC_RAWINTR then vic_pending v
      else if off = VIC_INTSELECT then v_select v
      else if off = VIC_INTENABLE then v_enable v
      else if off = VIC_SOFTINT then v_soft v
      else 0)"

definition s5l_vic_write :: "s5l_vic \<Rightarrow> u32 \<Rightarrow> u32 \<Rightarrow> s5l_vic" where
  "s5l_vic_write v off val =
     (if off = VIC_INTSELECT then v\<lparr>v_select := val\<rparr>
      else if off = VIC_INTENABLE then v\<lparr>v_enable := v_enable v OR val\<rparr>
      else if off = VIC_INTENCLEAR then v\<lparr>v_enable := v_enable v AND NOT val\<rparr>
      else if off = VIC_SOFTINT then v\<lparr>v_soft := v_soft v OR val\<rparr>
      else if off = VIC_SOFTINTCLEAR then v\<lparr>v_soft := v_soft v AND NOT val\<rparr>
      else v)"

section \<open>Lemmas\<close>

declare vic_lowest.simps [simp del]

text \<open>A source is active on an output when it is pending, enabled and routed there.\<close>

definition vic_source_irq :: "s5l_vic \<Rightarrow> nat \<Rightarrow> bool" where
  "vic_source_irq v k \<longleftrightarrow>
     k < 32 \<and> (bit (v_raw v) k \<or> bit (v_soft v) k) \<and> bit (v_enable v) k \<and> \<not> bit (v_select v) k"

definition vic_source_fiq :: "s5l_vic \<Rightarrow> nat \<Rightarrow> bool" where
  "vic_source_fiq v k \<longleftrightarrow>
     k < 32 \<and> (bit (v_raw v) k \<or> bit (v_soft v) k) \<and> bit (v_enable v) k \<and> bit (v_select v) k"

lemma bit_vic_irq_word:
  "bit ((vic_pending v AND v_enable v) AND NOT (v_select v)) k = vic_source_irq v k"
  by (auto simp: vic_pending_def vic_source_irq_def bit_simps dest: bit_imp_le_length)

lemma bit_vic_fiq_word:
  "bit ((vic_pending v AND v_enable v) AND v_select v) k = vic_source_fiq v k"
  by (auto simp: vic_pending_def vic_source_fiq_def bit_simps dest: bit_imp_le_length)

lemma s5l_vic_irq_source: "s5l_vic_irq v \<longleftrightarrow> (\<exists>k. vic_source_irq v k)"
  by (simp add: s5l_vic_irq_def word_nonzero_bit bit_vic_irq_word)

lemma s5l_vic_fiq_source: "s5l_vic_fiq v \<longleftrightarrow> (\<exists>k. vic_source_fiq v k)"
  by (simp add: s5l_vic_fiq_def word_nonzero_bit bit_vic_fiq_word)

lemma vic_lowest_least:
  assumes "bit irq k" and "i \<le> k"
  shows "bit irq (vic_lowest irq i) \<and> i \<le> vic_lowest irq i \<and> vic_lowest irq i \<le> k \<and>
    (\<forall>j. i \<le> j \<longrightarrow> j < vic_lowest irq i \<longrightarrow> \<not> bit irq j)"
  using assms
proof (induction irq i rule: vic_lowest.induct)
  case (1 irq i)
  have k: "k < 32"
    using bit_imp_le_length [OF "1.prems"(1)] by simp
  show ?case
  proof (cases "bit irq i")
    case True
    then have "vic_lowest irq i = i"
      by (subst vic_lowest.simps) (simp add: and_exp_eq_0_iff_not_bit)
    then show ?thesis
      using True "1.prems" by simp
  next
    case False
    then have step: "vic_lowest irq i = vic_lowest irq (Suc i)"
      using "1.prems" k by (subst vic_lowest.simps) (auto simp: and_exp_eq_0_iff_not_bit)
    have "Suc i \<le> k"
      using False "1.prems" by (metis le_neq_implies_less Suc_le_eq)
    then have "bit irq (vic_lowest irq (Suc i)) \<and> Suc i \<le> vic_lowest irq (Suc i) \<and>
      vic_lowest irq (Suc i) \<le> k \<and>
      (\<forall>j. Suc i \<le> j \<longrightarrow> j < vic_lowest irq (Suc i) \<longrightarrow> \<not> bit irq j)"
      using "1.IH" False "1.prems" k by (auto simp: and_exp_eq_0_iff_not_bit)
    then show ?thesis
      using False step by (metis Suc_leD le_neq_implies_less Suc_le_eq)
  qed
qed

lemma s5l_vic_write_frame [simp]: "v_raw (s5l_vic_write v off val) = v_raw v"
  by (simp add: s5l_vic_write_def)

lemma bit_set_line:
  "line < 32 \<Longrightarrow> bit (v_raw (s5l_vic_set_line v line level)) k =
     (if k = line then level else bit (v_raw v) k)"
  by (auto simp: s5l_vic_set_line_def bit_simps dest: bit_imp_le_length)

lemma s5l_vic_set_line_frame [simp]:
  "v_enable (s5l_vic_set_line v line level) = v_enable v"
  "v_select (s5l_vic_set_line v line level) = v_select v"
  "v_soft (s5l_vic_set_line v line level) = v_soft v"
  by (simp_all add: s5l_vic_set_line_def)

section \<open>Properties\<close>

text \<open>
  Reading VICADDRESS names the lowest-numbered pending IRQ source, offset by the controller's
  base and tagged valid; with no IRQ pending it reads 0.
\<close>

theorem vectaddr_names_lowest_source:
  "if s5l_vic_irq v
   then \<exists>k. vic_source_irq v k \<and> (\<forall>j. vic_source_irq v j \<longrightarrow> k \<le> j) \<and>
            s5l_vic_vectaddr v base = (base + of_nat k) OR 0x80000000
   else s5l_vic_vectaddr v base = 0"
proof (cases "s5l_vic_irq v")
  case True
  let ?w = "(vic_pending v AND v_enable v) AND NOT (v_select v)"
  have "?w \<noteq> 0" using True by (simp add: s5l_vic_irq_def)
  then obtain k where "bit ?w k" by (auto simp: word_nonzero_bit)
  then have least: "bit ?w (vic_lowest ?w 0)" "\<not> bit ?w j" if "j < vic_lowest ?w 0" for j
    using vic_lowest_least [of ?w k 0] that by auto
  have "vic_lowest ?w 0 \<le> j" if "vic_source_irq v j" for j
    using vic_lowest_least [of ?w j 0] that by (simp add: bit_vic_irq_word)
  then show ?thesis
    using True \<open>?w \<noteq> 0\<close> vic_lowest_least [OF \<open>bit ?w k\<close>, of 0]
    by (auto simp: s5l_vic_vectaddr_def Let_def bit_vic_irq_word)
next
  case False
  then show ?thesis by (simp add: s5l_vic_vectaddr_def s5l_vic_irq_def)
qed

lemma vectaddr_names_lowest_source_witness:
  "s5l_vic_irq (s5l_vic_reset\<lparr>v_raw := 0x30, v_enable := 0xff, v_select := 0x10\<rparr>) \<and>
   (\<exists>k. vic_source_irq (s5l_vic_reset\<lparr>v_raw := 0x30, v_enable := 0xff, v_select := 0x10\<rparr>) k \<and>
        k \<le> 5 \<and> s5l_vic_vectaddr (s5l_vic_reset\<lparr>v_raw := 0x30, v_enable := 0xff, v_select := 0x10\<rparr>) 32 =
          (32 + of_nat k) OR 0x80000000)"
proof -
  let ?v = "(s5l_vic_reset\<lparr>v_raw := 0x30, v_enable := 0xff, v_select := 0x10\<rparr>)"
  have "s5l_vic_irq ?v" "vic_source_irq ?v 5"
    by code_simp+
  then show ?thesis
    using vectaddr_names_lowest_source [of ?v 32] by auto
qed


text \<open>
  An asserted, enabled line reaches exactly one of the two CPU lines, the one the select register
  says, and no register write of the controller lowers the raw line.
\<close>

theorem line_routed_once:
  assumes "line < 32" and "bit (v_enable v) line"
  shows "(vic_source_irq (s5l_vic_set_line v line True) line \<longleftrightarrow> \<not> bit (v_select v) line) \<and>
         (vic_source_fiq (s5l_vic_set_line v line True) line \<longleftrightarrow> bit (v_select v) line) \<and>
         (\<forall>off val. bit (v_raw (s5l_vic_write (s5l_vic_set_line v line True) off val)) line)"
  using assms by (simp add: vic_source_irq_def vic_source_fiq_def bit_set_line)

lemma line_routed_once_witness:
  "vic_source_irq (s5l_vic_set_line (s5l_vic_write s5l_vic_reset VIC_INTENABLE 0x80) 7 True) 7"
proof -
  let ?v = "s5l_vic_write s5l_vic_reset VIC_INTENABLE 0x80"
  have "bit (v_enable ?v) 7" "\<not> bit (v_select ?v) 7"
    by code_simp+
  then show ?thesis
    using line_routed_once [of 7 ?v] by simp
qed

end
