(* ===== verification/Timer.thy ===== *)
theory Timer
  imports Prelude
begin

text \<open>
  The timer block (core/src/soc/timer.c): the free-running 64-bit counter and timer 4 in its PWM
  and interval modes. The reference of the PWM path is \<open>timer4_count_one\<close>, one tick of an
  up-counter with two comparators; the lemmas show that the closed-form advance of the code is
  that tick iterated, and that the deadline the code computes is the first tick that raises the
  line.
\<close>

unbundle bit_operations_syntax

section \<open>State and operations\<close>

record s5l_timer =
  ticks :: u64
  config :: u32
  t4_config :: u32
  t4_state :: u32
  t4_count :: u32
  t4_count2 :: u32
  t4_value :: u32
  irqlatch :: u32

abbreviation TIMER4_STATE_START :: u32 where "TIMER4_STATE_START \<equiv> 0x1"
abbreviation TIMER4_STATE_UPDATE :: u32 where "TIMER4_STATE_UPDATE \<equiv> 0x2"
abbreviation TIMER4_IRQ_BITS :: u32 where "TIMER4_IRQ_BITS \<equiv> 0x30000"
abbreviation TIMER4_MODE_MASK :: u32 where "TIMER4_MODE_MASK \<equiv> 0x30"
abbreviation TIMER4_MODE_PWM :: u32 where "TIMER4_MODE_PWM \<equiv> 0x10"
abbreviation TIMER4_INT0_EN :: u32 where "TIMER4_INT0_EN \<equiv> 0x1000"
abbreviation TIMER4_INT1_EN :: u32 where "TIMER4_INT1_EN \<equiv> 0x2000"
abbreviation TIMER4_INT0 :: u32 where "TIMER4_INT0 \<equiv> 0x10000"
abbreviation TIMER4_INT1 :: u32 where "TIMER4_INT1 \<equiv> 0x20000"

definition s5l_timer_reset :: s5l_timer where
  "s5l_timer_reset =
     \<lparr>ticks = 0, config = 0, t4_config = 0, t4_state = 0, t4_count = 0, t4_count2 = 0,
      t4_value = 0, irqlatch = 0\<rparr>"

definition timer4_pwm :: "s5l_timer \<Rightarrow> bool" where
  "timer4_pwm t \<longleftrightarrow> t4_config t AND TIMER4_MODE_MASK = TIMER4_MODE_PWM"

definition timer4_elapsed :: "s5l_timer \<Rightarrow> u32" where
  "timer4_elapsed t = t4_count t - t4_value t"

definition timer4_distance :: "u32 \<Rightarrow> u32 \<Rightarrow> u64" where
  "timer4_distance phase target =
     (let distance = target - phase
      in if distance \<noteq> 0 then ucast distance else shl 1 32)"

definition s5l_timer_ticks_to_irq :: "s5l_timer \<Rightarrow> u32" where
  "s5l_timer_ticks_to_irq t =
     (if t4_state t AND TIMER4_STATE_START = 0 then 0
      else if \<not> timer4_pwm t then (if t4_value t \<noteq> 0 then t4_value t else t4_count t)
      else
        let phase = timer4_elapsed t;
            period = (if t4_count2 t \<noteq> 0 then t4_count2 t else 1);
            end_of = timer4_distance phase period;
            next1 = (if t4_config t AND TIMER4_INT1_EN \<noteq> 0 then end_of else - 1);
            next2 = (if t4_config t AND TIMER4_INT0_EN \<noteq> 0 then
                       let first = timer4_distance phase (t4_count t);
                           n = (if first \<le> end_of \<and> first < next1 then first else next1)
                       in if t4_count t \<le> period then
                            (let after_reset = end_of + ucast (t4_count t)
                             in if after_reset < n then after_reset else n)
                          else n
                     else next1)
        in if next2 = - 1 then 0
           else if next2 > 0xffffffff then 0xffffffff else ucast next2)"

definition timer4_tick_pwm :: "s5l_timer \<Rightarrow> u32 \<Rightarrow> s5l_timer" where
  "timer4_tick_pwm t n =
     (let phase = timer4_elapsed t;
          period = (if t4_count2 t \<noteq> 0 then t4_count2 t else 1);
          end_of = timer4_distance phase period;
          first = timer4_distance phase (t4_count t);
          latch1 = (if first \<le> ucast n \<and> first \<le> end_of then irqlatch t OR TIMER4_INT0
                    else irqlatch t)
      in if ucast n \<ge> end_of then
           (let rest = ucast n - end_of;
                latch2 = latch1 OR TIMER4_INT1;
                latch3 = (if t4_count t \<le> period \<and> rest \<ge> ucast (t4_count t)
                          then latch2 OR TIMER4_INT0 else latch2)
            in t\<lparr>irqlatch := latch3, t4_value := t4_count t - ucast (rest mod ucast period)\<rparr>)
         else t\<lparr>irqlatch := latch1, t4_value := t4_count t - (phase + n)\<rparr>)"

definition s5l_timer_read :: "s5l_timer \<Rightarrow> u32 \<Rightarrow> u32" where
  "s5l_timer_read t off =
     (if off = 0x84 then ucast (ticks t)
      else if off = 0x80 then ucast (shr (ticks t) 32)
      else if off = 0x88 then config t
      else if off = 0xa0 then t4_config t
      else if off = 0xa4 then t4_state t AND NOT TIMER4_STATE_UPDATE
      else if off = 0xa8 then t4_count t
      else if off = 0xac then t4_count2 t
      else if off = 0xb4 then timer4_elapsed t
      else if off = 0xf8 then irqlatch t
      else if off = 0x10000 then irqlatch t
      else 0)"

definition s5l_timer_write :: "s5l_timer \<Rightarrow> u32 \<Rightarrow> u32 \<Rightarrow> s5l_timer" where
  "s5l_timer_write t off val =
     (if off = 0x88 then t\<lparr>config := val\<rparr>
      else if off = 0xa0 then t\<lparr>t4_config := val\<rparr>
      else if off = 0xa4 then
        t\<lparr>t4_state := val,
          t4_value := (if val AND TIMER4_STATE_UPDATE \<noteq> 0 then t4_count t else t4_value t)\<rparr>
      else if off = 0xa8 then
        t\<lparr>t4_value := (if timer4_pwm t then t4_value t + (val - t4_count t) else val),
          t4_count := val\<rparr>
      else if off = 0xac then t\<lparr>t4_count2 := val\<rparr>
      else if off = 0xf4 \<or> off = 0xf8 then t\<lparr>irqlatch := irqlatch t AND NOT val\<rparr>
      else if off = 0x10000 then t\<lparr>irqlatch := 0\<rparr>
      else t)"

text \<open>The interval (non-PWM) path of \<open>s5l_timer_tick\<close>.\<close>

definition timer4_tick_interval :: "s5l_timer \<Rightarrow> u32 \<Rightarrow> s5l_timer" where
  "timer4_tick_interval t n =
     (let period = t4_count t;
          value = (if t4_value t = 0 then period else t4_value t)
      in if value \<noteq> 0 then
           (if n < value then t\<lparr>t4_value := value - n\<rparr>
            else
              let after_first = n - value
              in t\<lparr>irqlatch := irqlatch t OR TIMER4_IRQ_BITS,
                   t4_value := (if period = 0 then 0
                                else let phase = after_first mod period
                                     in if phase \<noteq> 0 then period - phase else period)\<rparr>)
         else t)"

definition timer_line :: "s5l_timer \<Rightarrow> bool" where
  "timer_line t \<longleftrightarrow>
     (if timer4_pwm t then (irqlatch t AND shl (t4_config t) 4) AND TIMER4_IRQ_BITS \<noteq> 0
      else irqlatch t \<noteq> 0)"

definition s5l_timer_tick :: "s5l_timer \<Rightarrow> u32 \<Rightarrow> bool \<times> s5l_timer" where
  "s5l_timer_tick t n =
     (let t1 = t\<lparr>ticks := ticks t + ucast n\<rparr>;
          t2 = (if t4_state t1 AND TIMER4_STATE_START \<noteq> 0 \<and> n \<noteq> 0
                then (if timer4_pwm t1 then timer4_tick_pwm t1 n else timer4_tick_interval t1 n)
                else t1)
      in (timer_line t2, t2))"

section \<open>The reference: one tick of the PWM counter\<close>

text \<open>
  The counter steps, a match with DATA0 latches INT0, a match with the period latches INT1 and
  clears the counter, and the cleared counter is compared with DATA0 again.
\<close>

definition timer4_count_one :: "s5l_timer \<Rightarrow> s5l_timer" where
  "timer4_count_one t =
     (let period = (if t4_count2 t \<noteq> 0 then t4_count2 t else 1);
          p = timer4_elapsed t + 1;
          l0 = (if p = t4_count t then irqlatch t OR TIMER4_INT0 else irqlatch t)
      in if p = period then
           t\<lparr>irqlatch := (if t4_count t = 0 then (l0 OR TIMER4_INT1) OR TIMER4_INT0
                          else l0 OR TIMER4_INT1),
             t4_value := t4_count t\<rparr>
         else t\<lparr>irqlatch := l0, t4_value := t4_count t - p\<rparr>)"

section \<open>The advance over natural numbers\<close>

definition ref_period :: "s5l_timer \<Rightarrow> u32" where
  "ref_period t = (if t4_count2 t \<noteq> 0 then t4_count2 t else 1)"

lemma ref_period_pos [simp]: "ref_period t \<noteq> 0" "0 < unat (ref_period t)"
  by (simp_all add: ref_period_def unat_gt_0)

definition dist_to :: "u32 \<Rightarrow> u32 \<Rightarrow> nat" where
  "dist_to p q = (if p < q then unat q - unat p else unat q + 4294967296 - unat p)"

lemma dist_to_bounds: "0 < dist_to p q" "dist_to p q \<le> 4294967296"
  using unat_u32_less [of p] unat_u32_less [of q] by (auto simp: dist_to_def word_less_nat_alt)

lemma unat_distance: "unat (timer4_distance p q) = dist_to p q"
proof (cases "p = q")
  case True
  then show ?thesis by (simp add: timer4_distance_def dist_to_def)
next
  case False
  then have "unat (timer4_distance p q) = unat (q - p)"
    by (simp add: timer4_distance_def Let_def)
  moreover have "unat (q - p) = dist_to p q"
    using False unat_u32_less [of p] unat_u32_less [of q]
    by (auto simp: dist_to_def unat_sub_if_size word_less_nat_alt word_le_nat_alt word_size not_less
        word_unat_eq_iff)
  ultimately show ?thesis by simp
qed

text \<open>The distance is the first number of ticks after which the counter shows the target.\<close>

lemma dist_to_hits:
  assumes "0 < n" and "n < 4294967296"
  shows "p + of_nat n = q \<longleftrightarrow> n = dist_to p q"
  using assms unat_u32_less [of p] unat_u32_less [of q]
  by (auto simp: dist_to_def word_unat_eq_iff word_less_nat_alt unat_word_ariths unat_of_nat
      mod_if split: if_splits)

text \<open>What \<open>n\<close> ticks latch, and where they leave the counter.\<close>

definition int0_by :: "s5l_timer \<Rightarrow> nat \<Rightarrow> bool" where
  "int0_by t n \<longleftrightarrow>
     (let e = dist_to (timer4_elapsed t) (ref_period t);
          f = dist_to (timer4_elapsed t) (t4_count t)
      in f \<le> n \<and> f \<le> e \<or>
         e \<le> n \<and> t4_count t \<le> ref_period t \<and> unat (t4_count t) \<le> n - e)"

definition int1_by :: "s5l_timer \<Rightarrow> nat \<Rightarrow> bool" where
  "int1_by t n \<longleftrightarrow> dist_to (timer4_elapsed t) (ref_period t) \<le> n"

definition elapsed_by :: "s5l_timer \<Rightarrow> nat \<Rightarrow> u32" where
  "elapsed_by t n =
     (let e = dist_to (timer4_elapsed t) (ref_period t)
      in if e \<le> n then of_nat ((n - e) mod unat (ref_period t))
         else timer4_elapsed t + of_nat n)"

definition latch_of :: "bool \<Rightarrow> bool \<Rightarrow> u32" where
  "latch_of i0 i1 = (if i0 then TIMER4_INT0 else 0) OR (if i1 then TIMER4_INT1 else 0)"

definition pwm_advance :: "s5l_timer \<Rightarrow> nat \<Rightarrow> s5l_timer" where
  "pwm_advance t n =
     t\<lparr>irqlatch := irqlatch t OR latch_of (int0_by t n) (int1_by t n),
       t4_value := t4_count t - elapsed_by t n\<rparr>"

lemma latch_of_simps:
  "(w OR TIMER4_INT0) OR TIMER4_INT1 = w OR latch_of True True"
  "((w OR TIMER4_INT0) OR TIMER4_INT1) OR TIMER4_INT0 = w OR latch_of True True"
  "(w OR TIMER4_INT1) OR TIMER4_INT0 = w OR latch_of True True"
  "w OR TIMER4_INT0 = w OR latch_of True False"
  "w OR TIMER4_INT1 = w OR latch_of False True"
  "latch_of False False = 0"
  "(w OR latch_of a b) OR latch_of c d = w OR latch_of (a \<or> c) (b \<or> d)"
  by (simp_all add: latch_of_def or.assoc)

lemma timer4_tick_pwm_advance:
  assumes "n < 4294967296"
  shows "timer4_tick_pwm t (of_nat n) = pwm_advance t n"
proof -
  let ?e = "timer4_distance (timer4_elapsed t) (ref_period t)"
  have n: "unat (of_nat n :: u32) = n"
    using assms by (simp add: unat_of_nat)
  have ge: "?e \<le> ucast (of_nat n :: u32) \<longleftrightarrow> dist_to (timer4_elapsed t) (ref_period t) \<le> n"
    by (simp add: word_le_nat_alt n unat_distance)
  have rest: "unat (ucast (of_nat n :: u32) - ?e) = n - dist_to (timer4_elapsed t) (ref_period t)"
    if "?e \<le> ucast (of_nat n :: u32)"
    using that by (simp add: unat_sub n unat_distance)
  have md: "ucast ((ucast (of_nat n :: u32) - ?e) mod ucast (ref_period t)) =
      (of_nat ((n - dist_to (timer4_elapsed t) (ref_period t)) mod unat (ref_period t)) :: u32)"
    if "?e \<le> ucast (of_nat n :: u32)"
  proof -
    have "ucast w = (of_nat (unat w) :: u32)" for w :: u64 by simp
    then show ?thesis by (simp only: unat_mod rest [OF that] unat_ucast_u64)
  qed
  note defs = timer4_tick_pwm_def pwm_advance_def Let_def int0_by_def int1_by_def elapsed_by_def
    ref_period_def [symmetric]
  show ?thesis
  proof (cases "?e \<le> ucast (of_nat n :: u32)")
    case True
    have "\<not> dist_to (timer4_elapsed t) (ref_period t) > n" using True by (simp add: ge)
    then show ?thesis
      using True unfolding defs
      by (simp add: md [OF True] word_le_nat_alt n unat_distance rest [OF True])
        (auto simp: latch_of_simps)
  next
    case False
    then have "\<not> dist_to (timer4_elapsed t) (ref_period t) \<le> n" by (simp add: ge)
    then show ?thesis
      using False unfolding defs
      by (simp add: word_le_nat_alt n unat_distance latch_of_simps)
  qed
qed

lemma pwm_advance_frame [simp]:
  "t4_count (pwm_advance t n) = t4_count t" "t4_count2 (pwm_advance t n) = t4_count2 t"
  "t4_config (pwm_advance t n) = t4_config t" "t4_state (pwm_advance t n) = t4_state t"
  "ref_period (pwm_advance t n) = ref_period t" "ticks (pwm_advance t n) = ticks t"
  "timer4_elapsed (pwm_advance t n) = elapsed_by t n"
  by (simp_all add: pwm_advance_def ref_period_def timer4_elapsed_def)

lemma pwm_advance_zero: "pwm_advance t 0 = t"
  using dist_to_bounds [of "timer4_elapsed t" "ref_period t"]
    dist_to_bounds [of "timer4_elapsed t" "t4_count t"]
  by (simp add: pwm_advance_def int0_by_def int1_by_def elapsed_by_def latch_of_def Let_def)
    (simp add: timer4_elapsed_def)

lemma timer4_count_one_alt:
  "timer4_count_one t =
     (let p = timer4_elapsed t + 1; roll = (p = ref_period t)
      in t\<lparr>irqlatch := irqlatch t OR latch_of (p = t4_count t \<or> roll \<and> t4_count t = 0) roll,
           t4_value := t4_count t - (if roll then 0 else p)\<rparr>)"
  by (auto simp: timer4_count_one_def Let_def ref_period_def latch_of_simps)

text \<open>How the counter and the latches move on from \<open>n\<close> to \<open>Suc n\<close> ticks.\<close>

lemma elapsed_by_roll:
  assumes "Suc n < 4294967296"
  shows "elapsed_by t n + 1 = ref_period t \<longleftrightarrow>
    (let e = dist_to (timer4_elapsed t) (ref_period t)
     in if e \<le> n then Suc ((n - e) mod unat (ref_period t)) = unat (ref_period t)
        else Suc n = e)"
proof (cases "dist_to (timer4_elapsed t) (ref_period t) \<le> n")
  case True
  let ?r = "(n - dist_to (timer4_elapsed t) (ref_period t)) mod unat (ref_period t)"
  have "?r < unat (ref_period t)" by simp
  then have "Suc ?r < 4294967296"
    using unat_u32_less [of "ref_period t"] by linarith
  then have "of_nat (Suc ?r) = ref_period t \<longleftrightarrow> Suc ?r = unat (ref_period t)"
    by (rule of_nat_u32_eq_iff)
  then show ?thesis using True by (simp add: elapsed_by_def add.commute)
next
  case False
  then show ?thesis
    using dist_to_hits [of "Suc n" "timer4_elapsed t" "ref_period t"] assms
    by (simp add: elapsed_by_def ac_simps)
qed

lemma elapsed_by_match:
  assumes "Suc n < 4294967296"
  shows "elapsed_by t n + 1 = t4_count t \<longleftrightarrow>
    (let e = dist_to (timer4_elapsed t) (ref_period t)
     in if e \<le> n then Suc ((n - e) mod unat (ref_period t)) = unat (t4_count t)
        else Suc n = dist_to (timer4_elapsed t) (t4_count t))"
proof (cases "dist_to (timer4_elapsed t) (ref_period t) \<le> n")
  case True
  let ?r = "(n - dist_to (timer4_elapsed t) (ref_period t)) mod unat (ref_period t)"
  have "?r < unat (ref_period t)" by simp
  then have "Suc ?r < 4294967296"
    using unat_u32_less [of "ref_period t"] by linarith
  then have "of_nat (Suc ?r) = t4_count t \<longleftrightarrow> Suc ?r = unat (t4_count t)"
    by (rule of_nat_u32_eq_iff)
  then show ?thesis using True by (simp add: elapsed_by_def add.commute)
next
  case False
  then show ?thesis
    using dist_to_hits [of "Suc n" "timer4_elapsed t" "t4_count t"] assms
    by (simp add: elapsed_by_def ac_simps)
qed

lemma mod_Suc_less: "0 < m \<Longrightarrow> Suc (k mod m) \<noteq> m \<Longrightarrow> Suc k mod m = Suc (k mod m)"
  for k m :: nat
  by (simp add: mod_Suc)

lemma elapsed_by_Suc:
  assumes "Suc n < 4294967296"
  shows "elapsed_by t (Suc n) =
    (if elapsed_by t n + 1 = ref_period t then 0 else elapsed_by t n + 1)"
  unfolding elapsed_by_roll [OF assms] Let_def
  by (auto simp: elapsed_by_def Let_def mod_Suc Suc_diff_le le_Suc_eq)

lemma int1_by_Suc:
  assumes "Suc n < 4294967296"
  shows "int1_by t (Suc n) \<longleftrightarrow> int1_by t n \<or> elapsed_by t n + 1 = ref_period t"
  unfolding elapsed_by_roll [OF assms] Let_def
  by (auto simp: int1_by_def le_Suc_eq)

lemma int0_by_Suc:
  assumes "Suc n < 4294967296"
  shows "int0_by t (Suc n) \<longleftrightarrow> int0_by t n \<or> elapsed_by t n + 1 = t4_count t \<or>
    elapsed_by t n + 1 = ref_period t \<and> t4_count t = 0"
proof -
  let ?e = "dist_to (timer4_elapsed t) (ref_period t)"
  let ?f = "dist_to (timer4_elapsed t) (t4_count t)"
  let ?T = "unat (ref_period t)" and ?C = "unat (t4_count t)"
  have zero: "t4_count t = 0 \<longleftrightarrow> ?C = 0" by (simp add: unat_eq_zero)
  have le: "t4_count t \<le> ref_period t \<longleftrightarrow> ?C \<le> ?T" by (simp add: word_le_nat_alt)
  have T: "0 < ?T" by simp
  consider (before) "Suc n < ?e" | (at) "Suc n = ?e" | (after) "?e \<le> n" by linarith
  then show ?thesis
  proof cases
    case before
    then show ?thesis
      unfolding elapsed_by_roll [OF assms] elapsed_by_match [OF assms] Let_def
      by (auto simp: int0_by_def Let_def)
  next
    case at
    then show ?thesis
      unfolding elapsed_by_roll [OF assms] elapsed_by_match [OF assms] Let_def
      by (auto simp: int0_by_def Let_def zero le)
  next
    case after
    define r where "r = n - ?e"
    have "Suc n - ?e = Suc r" using after by (simp add: r_def Suc_diff_le)
    moreover have "?C \<le> ?T \<and> ?C \<le> Suc r \<longleftrightarrow> ?C \<le> ?T \<and> ?C \<le> r \<or> Suc (r mod ?T) = ?C \<or>
        Suc (r mod ?T) = ?T \<and> ?C = 0"
      using mod_less_divisor [OF T, of r] by (cases "r < ?T") (simp, arith, arith)
    ultimately show ?thesis
      using after unfolding elapsed_by_roll [OF assms] elapsed_by_match [OF assms] Let_def
      by (auto simp: int0_by_def Let_def zero le r_def [symmetric])
  qed
qed

lemma pwm_advance_Suc:
  assumes "Suc n < 4294967296"
  shows "pwm_advance t (Suc n) = timer4_count_one (pwm_advance t n)"
proof -
  have "t4_count t - elapsed_by t (Suc n) =
      t4_count t - (if elapsed_by t n + 1 = ref_period t then 0 else elapsed_by t n + 1)"
    by (simp add: elapsed_by_Suc [OF assms])
  then show ?thesis
    by (simp add: timer4_count_one_alt Let_def int0_by_Suc [OF assms] int1_by_Suc [OF assms])
      (auto simp: pwm_advance_def latch_of_simps int0_by_Suc [OF assms] int1_by_Suc [OF assms])
qed

text \<open>
  C9: Advancing the PWM event timer by n ticks at once (the arithmetic the core uses to cross a
  whole wait) is the same as counting n single ticks, with every match and reload on the way.
\<close>

theorem timer4_bulk_advance:
  assumes "n < 4294967296"
  shows "timer4_tick_pwm t (of_nat n) = (timer4_count_one ^^ n) t"
proof -
  have "pwm_advance t n = (timer4_count_one ^^ n) t"
    using assms by (induction n) (simp_all add: pwm_advance_zero pwm_advance_Suc)
  then show ?thesis
    by (simp add: timer4_tick_pwm_advance [OF assms])
qed

lemma timer4_bulk_advance_witness:
  "timer4_tick_pwm (s5l_timer_reset\<lparr>t4_count := 3, t4_count2 := 5\<rparr>) 7 =
   (timer4_count_one ^^ 7) (s5l_timer_reset\<lparr>t4_count := 3, t4_count2 := 5\<rparr>)"
  using timer4_bulk_advance [of 7 "s5l_timer_reset\<lparr>t4_count := 3, t4_count2 := 5\<rparr>"] by simp


section \<open>The deadline\<close>

text \<open>The \<open>uint64_t next\<close> of \<open>s5l_timer_ticks_to_irq\<close> in PWM mode, before it is narrowed.\<close>

definition pwm_next :: "s5l_timer \<Rightarrow> u64" where
  "pwm_next t =
     (let phase = timer4_elapsed t; period = ref_period t;
          end_of = timer4_distance phase period;
          next1 = (if t4_config t AND TIMER4_INT1_EN \<noteq> 0 then end_of else - 1)
      in if t4_config t AND TIMER4_INT0_EN \<noteq> 0 then
           let first = timer4_distance phase (t4_count t);
               n = (if first \<le> end_of \<and> first < next1 then first else next1)
           in if t4_count t \<le> period then
                (let after_reset = end_of + ucast (t4_count t)
                 in if after_reset < n then after_reset else n)
              else n
         else next1)"

lemma ticks_to_irq_pwm:
  "t4_state t AND TIMER4_STATE_START \<noteq> 0 \<Longrightarrow> timer4_pwm t \<Longrightarrow>
   s5l_timer_ticks_to_irq t =
     (if pwm_next t = - 1 then 0
      else if pwm_next t > 0xffffffff then 0xffffffff else ucast (pwm_next t))"
  by (simp add: s5l_timer_ticks_to_irq_def pwm_next_def Let_def ref_period_def)

lemma unat_after_reset:
  "unat (timer4_distance p q + ucast c) = dist_to p q + unat c" for c :: u32
  using dist_to_bounds [of p q] unat_u32_less [of c]
  by (simp add: unat_word_ariths unat_distance)

lemma unat_minus_one_u64: "unat (- 1 :: u64) = 18446744073709551615"
  by (simp add: unsigned_minus_1_eq_mask mask_eq_exp_minus_1)

lemma pwm_next_le:
  assumes "n < 4294967296"
  shows "unat (pwm_next t) \<le> n \<longleftrightarrow>
    t4_config t AND TIMER4_INT0_EN \<noteq> 0 \<and> int0_by t n \<or>
    t4_config t AND TIMER4_INT1_EN \<noteq> 0 \<and> int1_by t n"
proof -
  have b: "dist_to p q \<le> 4294967296" for p q by (rule dist_to_bounds)
  have c: "unat (t4_count t) < 4294967296" by (rule unat_u32_less)
  show ?thesis
    using assms b [of "timer4_elapsed t" "ref_period t"] b [of "timer4_elapsed t" "t4_count t"] c
    by (auto simp: pwm_next_def Let_def word_less_nat_alt word_le_nat_alt [where 'a = 64]
        unat_distance unat_after_reset unat_minus_one_u64 int0_by_def int1_by_def)
qed

lemma pwm_next_pos: "pwm_next t \<noteq> 0"
proof -
  have "unat (pwm_next t) \<le> 0 \<Longrightarrow> False"
    using dist_to_bounds [of "timer4_elapsed t" "ref_period t"]
      dist_to_bounds [of "timer4_elapsed t" "t4_count t"] pwm_next_le [of 0 t]
    by (auto simp: int0_by_def int1_by_def Let_def)
  then show ?thesis by auto
qed

lemma timer_line_latch:
  assumes "timer4_pwm t" and "irqlatch t = latch_of i0 i1"
  shows "timer_line t \<longleftrightarrow>
    t4_config t AND TIMER4_INT0_EN \<noteq> 0 \<and> i0 \<or> t4_config t AND TIMER4_INT1_EN \<noteq> 0 \<and> i1"
proof -
  have en: "t4_config t AND TIMER4_INT0_EN \<noteq> 0 \<longleftrightarrow> bit (t4_config t) 12"
    "t4_config t AND TIMER4_INT1_EN \<noteq> 0 \<longleftrightarrow> bit (t4_config t) 13"
    using and_exp_eq_0_iff_not_bit [of "t4_config t" 12] and_exp_eq_0_iff_not_bit [of "t4_config t" 13]
    by simp_all
  have w: "TIMER4_INT0 = 2 ^ 16" "TIMER4_INT1 = 2 ^ 17" by simp_all
  have p: "bit (TIMER4_INT0) k \<longleftrightarrow> k = 16" "bit (TIMER4_INT1) k \<longleftrightarrow> k = 17" for k
    unfolding w bit_exp_iff by auto
  have l: "bit (latch_of i0 i1) k \<longleftrightarrow> k = 16 \<and> i0 \<or> k = 17 \<and> i1" for i0 i1 k
    by (auto simp: latch_of_def bit_or_iff p simp del: bit_numeral_word_iff)
  have m: "TIMER4_IRQ_BITS = latch_of True True" by (simp add: latch_of_def)
  define w where "w = (irqlatch t AND shl (t4_config t) 4) AND TIMER4_IRQ_BITS"
  have k: "bit w k \<longleftrightarrow> k = 16 \<and> i0 \<and> bit (t4_config t) 12 \<or> k = 17 \<and> i1 \<and> bit (t4_config t) 13"
    for k
    unfolding w_def assms(2) m by (auto simp: l bit_and_iff bit_push_bit_iff)
  have "w \<noteq> 0 \<longleftrightarrow> i0 \<and> bit (t4_config t) 12 \<or> i1 \<and> bit (t4_config t) 13"
    unfolding word_nonzero_bit k by auto
  then show ?thesis
    unfolding timer_line_def en w_def [symmetric] using assms(1) by auto
qed

lemma ticks_to_irq_le:
  assumes "n < 0xffffffff" "pwm_next t \<noteq> 0"
  shows "(let d = (if pwm_next t = - 1 then 0
      else if pwm_next t > 0xffffffff then 0xffffffff else ucast (pwm_next t)) :: u32
     in d \<noteq> 0 \<and> d \<le> n) \<longleftrightarrow> unat (pwm_next t) \<le> unat n"
proof -
  have n: "unat n < 4294967295" using assms(1) by (simp add: word_less_nat_alt)
  consider "pwm_next t = - 1" | "pwm_next t \<noteq> - 1" "pwm_next t > 0xffffffff"
    | "pwm_next t \<noteq> - 1" "pwm_next t \<le> 0xffffffff" by force
  then show ?thesis
  proof cases
    case 1
    then show ?thesis using n by (simp add: unat_minus_one_u64)
  next
    case 2
    then show ?thesis using n by (simp add: word_less_nat_alt word_le_nat_alt)
  next
    case 3
    then have "unat (ucast (pwm_next t) :: u32) = unat (pwm_next t)"
      by (simp add: word_le_nat_alt unsigned_ucast_eq take_bit_nat_eq_self
          unsigned_take_bit_eq)
    then show ?thesis
      using 3 assms(2) by (auto simp: word_le_nat_alt word_less_nat_alt word_unat_eq_iff)
  qed
qed

text \<open>
  C10: The reported deadline is exact: with no interrupt latched, advancing the timer by n ticks
  raises its line if and only if the deadline is armed and at most n ticks away.
\<close>

theorem timer_deadline_exact:
  assumes "irqlatch t = 0" and "n < 0xffffffff"
  shows "fst (s5l_timer_tick t n) \<longleftrightarrow>
    s5l_timer_ticks_to_irq t \<noteq> 0 \<and> s5l_timer_ticks_to_irq t \<le> n"
proof (cases "t4_state t AND TIMER4_STATE_START \<noteq> 0 \<and> n \<noteq> 0")
  case False
  have "s5l_timer_ticks_to_irq t = 0" if "t4_state t AND TIMER4_STATE_START = 0"
    using that by (simp add: s5l_timer_ticks_to_irq_def)
  then show ?thesis
    using False assms(1)
    by (auto simp: s5l_timer_tick_def Let_def timer_line_def timer4_pwm_def split: if_splits)
next
  case True
  let ?t = "t\<lparr>ticks := ticks t + ucast n\<rparr>"
  show ?thesis
  proof (cases "timer4_pwm t")
    case True
    have f: "timer4_elapsed ?t = timer4_elapsed t" "ref_period ?t = ref_period t"
      "t4_config ?t = t4_config t" "t4_count ?t = t4_count t"
      by (simp_all add: timer4_elapsed_def ref_period_def)
    have eq: "pwm_next ?t = pwm_next t"
      by (simp only: pwm_next_def f)
    have n: "unat n < 4294967296" by (rule unat_u32_less)
    have adv: "timer4_tick_pwm ?t n = pwm_advance ?t (unat n)"
      using timer4_tick_pwm_advance [OF n, of ?t] by simp
    have "fst (s5l_timer_tick t n) = timer_line (pwm_advance ?t (unat n))"
      using True \<open>t4_state t AND TIMER4_STATE_START \<noteq> 0 \<and> n \<noteq> 0\<close>
      by (simp add: s5l_timer_tick_def timer4_pwm_def adv Let_def)
    also have "\<dots> \<longleftrightarrow> unat (pwm_next ?t) \<le> unat n"
      using True assms(1)
      by (subst timer_line_latch [of _ "int0_by ?t (unat n)" "int1_by ?t (unat n)"])
        (auto simp: timer4_pwm_def pwm_advance_def pwm_next_le [OF n])
    finally show ?thesis
      using ticks_to_irq_le [OF assms(2) pwm_next_pos] True
        \<open>t4_state t AND TIMER4_STATE_START \<noteq> 0 \<and> n \<noteq> 0\<close>
      by (simp add: eq ticks_to_irq_pwm Let_def)
  next
    case False
    then show ?thesis
      using True assms(1)
      by (auto simp: s5l_timer_tick_def timer_line_def timer4_pwm_def timer4_tick_interval_def
          s5l_timer_ticks_to_irq_def Let_def not_less)
  qed
qed

lemma timer_deadline_exact_witness:
  "fst (s5l_timer_tick (s5l_timer_reset\<lparr>t4_count := 9, t4_value := 5, t4_state := 1\<rparr>) 5) \<and>
   \<not> fst (s5l_timer_tick (s5l_timer_reset\<lparr>t4_count := 9, t4_value := 5, t4_state := 1\<rparr>) 4)"
proof -
  let ?t = "s5l_timer_reset\<lparr>t4_count := 9, t4_value := 5, t4_state := 1\<rparr>"
  have "irqlatch ?t = 0" "s5l_timer_ticks_to_irq ?t = 5"
    by code_simp+
  then show ?thesis
    using timer_deadline_exact [of ?t 5] timer_deadline_exact [of ?t 4] by simp
qed


text \<open>
  Programming a decrementer as the kernel does (a value into COUNTBUF, then a manual update and
  start) keeps the time already counted until the update and then fires exactly after the
  programmed number of ticks.
\<close>

theorem set_decrementer_deadline:
  assumes "timer4_pwm t" and "t4_config t AND TIMER4_INT0_EN \<noteq> 0" and "0 < v" and "v \<le> t4_count2 t"
  shows "timer4_elapsed (s5l_timer_write t 0xa8 v) = timer4_elapsed t \<and>
    timer4_elapsed (s5l_timer_write (s5l_timer_write t 0xa8 v) 0xa4 3) = 0 \<and>
    s5l_timer_ticks_to_irq (s5l_timer_write (s5l_timer_write t 0xa8 v) 0xa4 3) = v"
proof (intro conjI)
  let ?t = "s5l_timer_write (s5l_timer_write t 0xa8 v) 0xa4 3"
  show "timer4_elapsed (s5l_timer_write t 0xa8 v) = timer4_elapsed t"
    using assms(1) by (simp add: s5l_timer_write_def timer4_elapsed_def)
  have f: "t4_state ?t = 3" "t4_config ?t = t4_config t" "t4_count ?t = v"
    "t4_count2 ?t = t4_count2 t" "timer4_elapsed ?t = 0" "timer4_pwm ?t"
    using assms(1) by (simp_all add: s5l_timer_write_def timer4_elapsed_def timer4_pwm_def)
  then show "timer4_elapsed ?t = 0" by simp
  have "ref_period ?t = t4_count2 t"
    using assms(3,4) by (auto simp: ref_period_def f)
  then have d: "dist_to (timer4_elapsed ?t) (ref_period ?t) = unat (t4_count2 t)"
    "dist_to (timer4_elapsed ?t) (t4_count ?t) = unat v" "unat v \<le> unat (t4_count2 t)" "0 < unat v"
    using assms(3,4) by (auto simp: f dist_to_def word_less_nat_alt word_le_nat_alt)
  have u: "unat (pwm_next ?t) \<le> k \<longleftrightarrow> unat v \<le> k" if "k < 4294967296" for k
    using assms(2) d that unfolding pwm_next_le [OF that] int0_by_def int1_by_def Let_def d f
    by auto
  then have "unat (pwm_next ?t) = unat v"
    using unat_u32_less [of v] d(4) u [of "unat v"] u [of "unat v - 1"] by linarith
  then have "pwm_next ?t = ucast v"
    by (simp add: word_unat_eq_iff)
  moreover have "ucast v \<noteq> (- 1 :: u64)" "\<not> (ucast v :: u64) > 0xffffffff"
    using unat_u32_less [of v] by (simp_all add: word_unat_eq_iff word_less_nat_alt unat_minus_one_u64)
  ultimately show "s5l_timer_ticks_to_irq ?t = v"
    by (subst ticks_to_irq_pwm) (simp_all add: f)
qed

lemma set_decrementer_deadline_witness:
  "s5l_timer_ticks_to_irq
     (s5l_timer_write (s5l_timer_write
        (s5l_timer_reset\<lparr>t4_config := 0x1010, t4_count2 := 0x7fffffff\<rparr>) 0xa8 600) 0xa4 3) = 600"
proof -
  let ?t = "s5l_timer_reset\<lparr>t4_config := 0x1010, t4_count2 := 0x7fffffff\<rparr>"
  have "timer4_pwm ?t" "t4_config ?t AND TIMER4_INT0_EN \<noteq> 0" "(600 :: u32) \<le> t4_count2 ?t"
    by code_simp+
  then show ?thesis
    using set_decrementer_deadline [of ?t 600] by simp
qed


end
