(* ===== verification/Power_Gates.thy ===== *)
theory Power_Gates
  imports Prelude
begin

text \<open>
  The power-gate controller (core/src/soc/power.c). A set bit of STATE is a gated domain; only
  writes to ONCTRL and OFFCTRL move it.
\<close>

unbundle bit_operations_syntax

record s5l_power =
  pw_state :: u32
  cfg0 :: u32
  cfg1 :: u32
  sram :: u32
  cfg24 :: u32
  cfg28 :: u32

abbreviation POWER_CONFIG0 :: u32 where "POWER_CONFIG0 \<equiv> 0x00"
abbreviation POWER_CONFIG1 :: u32 where "POWER_CONFIG1 \<equiv> 0x04"
abbreviation POWER_SETSTATE :: u32 where "POWER_SETSTATE \<equiv> 0x08"
abbreviation POWER_ONCTRL :: u32 where "POWER_ONCTRL \<equiv> 0x0c"
abbreviation POWER_OFFCTRL :: u32 where "POWER_OFFCTRL \<equiv> 0x10"
abbreviation POWER_STATE :: u32 where "POWER_STATE \<equiv> 0x14"
abbreviation S5L_POWER_DOMAIN_MASK :: u32 where "S5L_POWER_DOMAIN_MASK \<equiv> 0x3fff"

definition s5l_power_reset :: s5l_power where
  "s5l_power_reset = \<lparr>pw_state = 0x12fc, cfg0 = 0, cfg1 = 0, sram = 0, cfg24 = 0, cfg28 = 0\<rparr>"

definition s5l_power_read :: "s5l_power \<Rightarrow> u32 \<Rightarrow> u32" where
  "s5l_power_read p off =
     (if off = POWER_CONFIG0 then cfg0 p
      else if off = POWER_CONFIG1 then cfg1 p
      else if off = POWER_SETSTATE then pw_state p
      else if off = POWER_STATE then pw_state p
      else if off = 0x20 then sram p
      else if off = 0x24 then cfg24 p
      else if off = 0x28 then cfg28 p
      else 0)"

definition s5l_power_write :: "s5l_power \<Rightarrow> u32 \<Rightarrow> u32 \<Rightarrow> s5l_power" where
  "s5l_power_write p off val =
     (if off = POWER_CONFIG0 then p\<lparr>cfg0 := val\<rparr>
      else if off = POWER_CONFIG1 then p\<lparr>cfg1 := val\<rparr>
      else if off = POWER_ONCTRL
      then p\<lparr>pw_state := pw_state p AND NOT (val AND S5L_POWER_DOMAIN_MASK)\<rparr>
      else if off = POWER_OFFCTRL
      then p\<lparr>pw_state := pw_state p OR (val AND S5L_POWER_DOMAIN_MASK)\<rparr>
      else if off = POWER_STATE then p
      else if off = 0x20 then p\<lparr>sram := val\<rparr>
      else if off = 0x24 then p\<lparr>cfg24 := val\<rparr>
      else if off = 0x28 then p\<lparr>cfg28 := val\<rparr>
      else p)"

text \<open>A sequence of guest writes, oldest first.\<close>

definition power_run :: "s5l_power \<Rightarrow> (u32 \<times> u32) list \<Rightarrow> s5l_power" where
  "power_run p ws = foldl (\<lambda>q (off, val). s5l_power_write q off val) p ws"

text \<open>What a write asks of domain \<open>n\<close>: gate it, ungate it, or nothing.\<close>

definition power_request :: "nat \<Rightarrow> u32 \<times> u32 \<Rightarrow> bool option" where
  "power_request n w =
     (if n < 14 \<and> bit (snd w) n then
        (if fst w = POWER_OFFCTRL then Some True
         else if fst w = POWER_ONCTRL then Some False else None)
      else None)"

lemma domain_mask_bit: "bit S5L_POWER_DOMAIN_MASK n \<longleftrightarrow> n < 14"
proof -
  have e: "S5L_POWER_DOMAIN_MASK = mask 14" by (simp add: mask_eq_exp_minus_1)
  show ?thesis unfolding e bit_mask_iff by auto
qed

lemma bit_power_state_write:
  "bit (pw_state (s5l_power_write p off val)) n =
     (case power_request n (off, val) of Some g \<Rightarrow> g | None \<Rightarrow> bit (pw_state p) n)"
proof -
  consider "off = POWER_ONCTRL" | "off = POWER_OFFCTRL"
    | "off \<noteq> POWER_ONCTRL" "off \<noteq> POWER_OFFCTRL" by auto
  then show ?thesis
  proof cases
    case 1
    then have w: "pw_state (s5l_power_write p off val) = pw_state p AND NOT (val AND S5L_POWER_DOMAIN_MASK)"
      by (simp add: s5l_power_write_def)
    show ?thesis
      using 1 unfolding w bit_and_iff bit_not_iff domain_mask_bit power_request_def
      by (auto dest: bit_imp_le_length)
  next
    case 2
    then have w: "pw_state (s5l_power_write p off val) = pw_state p OR (val AND S5L_POWER_DOMAIN_MASK)"
      by (simp add: s5l_power_write_def)
    show ?thesis
      using 2 unfolding w bit_or_iff bit_and_iff domain_mask_bit power_request_def by auto
  next
    case 3
    then show ?thesis by (simp add: s5l_power_write_def power_request_def)
  qed
qed

text \<open>
  After any sequence of register writes, a power domain reads back as the last request that
  named it left it, and as it was before when no write named it.
\<close>

theorem power_state_last_request:
  "bit (s5l_power_read (power_run p ws) POWER_STATE) n =
     (case List.map_filter (power_request n) ws of
        [] \<Rightarrow> bit (s5l_power_read p POWER_STATE) n
      | rs \<Rightarrow> last rs)"
proof (induction ws rule: rev_induct)
  case Nil
  then show ?case by (simp add: power_run_def List.map_filter_def)
next
  case (snoc w ws)
  obtain off val where w: "w = (off, val)" by force
  have run: "power_run p (ws @ [w]) = s5l_power_write (power_run p ws) off val"
    by (simp add: power_run_def w)
  have read: "s5l_power_read q POWER_STATE = pw_state q" for q
    by (simp add: s5l_power_read_def)
  show ?case
    using snoc unfolding run read bit_power_state_write
    by (auto simp: List.map_filter_def w split: option.splits list.splits)
qed

end
