(* ===== verification/Bytes.thy ===== *)
theory Bytes
  imports Prelude "HOL-Library.Monad_Syntax"
begin

text \<open>
  Reads from untrusted byte buffers, shared by the parsers of core/src/firmware. A read outside
  the buffer is \<open>None\<close>, so that a parser that never yields \<open>None\<close> never reads out of bounds.
  \<open>le32\<close> writes what \<open>rd32\<close> reads.
\<close>

unbundle bit_operations_syntax

definition rd32 :: "u8 list \<Rightarrow> nat \<Rightarrow> u32 option" where
  "rd32 b p =
     (if p + 4 \<le> length b
      then Some (ucast (b ! p) OR shl (ucast (b ! (p + 1))) 8 OR
             shl (ucast (b ! (p + 2))) 16 OR shl (ucast (b ! (p + 3))) 24)
      else None)"

text \<open>\<open>memcpy\<close> of \<open>n\<close> bytes out of the buffer.\<close>

definition slice :: "u8 list \<Rightarrow> nat \<Rightarrow> nat \<Rightarrow> u8 list option" where
  "slice b p n = (if p + n \<le> length b then Some (take n (drop p b)) else None)"

definition le32 :: "u32 \<Rightarrow> u8 list" where
  "le32 v = [ucast v, ucast (shr v 8), ucast (shr v 16), ucast (shr v 24)]"

lemma le32_length [simp]: "length (le32 v) = 4"
  by (simp add: le32_def)

lemma le32_bytes:
  "(ucast (ucast v :: u8) :: u32) OR shl (ucast (ucast (shr v 8) :: u8)) 8 OR
   shl (ucast (ucast (shr v 16) :: u8)) 16 OR shl (ucast (ucast (shr v 24) :: u8)) 24 = v"
proof (rule bit_word_eqI)
  fix n assume "n < LENGTH(32)"
  then consider "n < 8" | "8 \<le> n" "n < 16" | "16 \<le> n" "n < 24" | "24 \<le> n" "n < 32"
    by fastforce
  then show "bit ((ucast (ucast v :: u8) :: u32) OR shl (ucast (ucast (shr v 8) :: u8)) 8 OR
      shl (ucast (ucast (shr v 16) :: u8)) 16 OR shl (ucast (ucast (shr v 24) :: u8)) 24) n = bit v n"
    by cases (auto simp: bit_simps)
qed

lemma rd32_le32: "rd32 (xs @ le32 v @ ys) (length xs) = Some v"
  using le32_bytes [of v] by (simp add: rd32_def le32_def nth_append)

lemma rd32_at: "drop p b = le32 v @ ys \<Longrightarrow> p \<le> length b \<Longrightarrow> rd32 b p = Some v"
  using rd32_le32 [of "take p b" v ys] by (metis append_take_drop_id length_take min.absorb2)

lemma rd32_some: "p + 4 \<le> length b \<Longrightarrow> \<exists>v. rd32 b p = Some v"
  by (simp add: rd32_def)

lemma slice_some: "p + n \<le> length b \<Longrightarrow> slice b p n = Some (take n (drop p b))"
  by (simp add: slice_def)

lemma slice_at:
  "drop p b = xs @ ys \<Longrightarrow> p \<le> length b \<Longrightarrow> n = length xs \<Longrightarrow> slice b p n = Some xs"
  by (simp add: slice_def) (metis append_eq_conv_conj length_append length_drop le_add1 le_diff_conv2
      add.commute)

text \<open>The low \<open>k\<close> bytes of a word, low byte first.\<close>

definition le_bytes :: "nat \<Rightarrow> 'a::len word \<Rightarrow> u8 list" where
  "le_bytes k v = map (\<lambda>i. ucast (shr v (8 * i))) [0..<k]"

lemma le_bytes_length [simp]: "length (le_bytes k v) = k"
  by (simp add: le_bytes_def)

lemma le_bytes_nth [simp]: "i < k \<Longrightarrow> le_bytes k v ! i = ucast (shr v (8 * i))"
  by (simp add: le_bytes_def)

lemma byte_word_byte [simp]: "(ucast (ucast (b :: u8) :: u32) :: u8) = b"
  by (rule bit_word_eqI) (auto simp: bit_simps)

text \<open>The word that a list of bytes spells, low byte first.\<close>

fun le_word :: "u8 list \<Rightarrow> u32" where
  "le_word [] = 0"
| "le_word (b # bs) = ucast b OR shl (le_word bs) 8"

lemma bit_le_word:
  "bit (le_word bs) n \<longleftrightarrow> n < 32 \<and> n < 8 * length bs \<and> bit (bs ! (n div 8)) (n mod 8)"
proof (induction bs arbitrary: n)
  case (Cons b bs)
  show ?case
  proof (cases "n < 8")
    case True
    then show ?thesis by (auto simp: bit_simps)
  next
    case False
    then obtain k where n: "n = k + 8" by (metis add.commute le_add_diff_inverse not_le)
    have "\<not> bit b n" using False by (intro impossible_bit) simp
    moreover have "(k + 8) div 8 = Suc (k div 8)" by simp
    ultimately show ?thesis using Cons.IH [of k] by (auto simp: bit_simps n)
  qed
qed simp

lemma le_word_le_bytes: "n \<le> 4 \<Longrightarrow> le_word (le_bytes n (v :: u32)) = v AND mask (8 * n)"
  by (rule bit_word_eqI) (auto simp: bit_le_word bit_simps div_less_iff_less_mult mult.commute)

lemma le_bytes_le_word: "length bs = n \<Longrightarrow> n \<le> 4 \<Longrightarrow> le_bytes n (le_word bs) = bs"
proof (rule nth_equalityI)
  fix i assume l: "length bs = n" "n \<le> 4" and "i < length (le_bytes n (le_word bs))"
  then have i: "i < n" by simp
  show "le_bytes n (le_word bs) ! i = bs ! i"
  proof (rule bit_word_eqI)
    fix k assume k: "k < LENGTH(8)"
    have "8 * i + k < 32" "8 * i + k < 8 * length bs" using i k l by auto
    moreover have "(8 * i + k) div 8 = i" "(8 * i + k) mod 8 = k" using k by auto
    ultimately show "bit (le_bytes n (le_word bs) ! i) k = bit (bs ! i) k"
      using i k by (simp add: bit_simps bit_le_word add.commute)
  qed
qed simp

lemma le_word_small: "length bs = n \<Longrightarrow> shr (le_word bs) (8 * n) = 0"
  by (rule bit_word_eqI) (auto simp: bit_simps bit_le_word)

end
