(* ===== verification/Aes.thy ===== *)
theory Aes
  imports Prelude
begin

text \<open>
  AES and CBC mode (core/src/firmware/aes.c). A block is a list of 16 bytes, column-major as in
  the code; the expanded key is the 60-word array of the context. The CBC routines work on a byte
  memory, because their input and output may be the same buffer. The lemmas show that decryption
  undoes encryption, per block and for whole buffers.
\<close>

unbundle bit_operations_syntax

section \<open>The code\<close>

definition SBOX :: "u8 list" where
  "SBOX =
    [0x63, 0x7c, 0x77, 0x7b, 0xf2, 0x6b, 0x6f, 0xc5, 0x30, 0x01, 0x67, 0x2b, 0xfe, 0xd7, 0xab, 0x76,
     0xca, 0x82, 0xc9, 0x7d, 0xfa, 0x59, 0x47, 0xf0, 0xad, 0xd4, 0xa2, 0xaf, 0x9c, 0xa4, 0x72, 0xc0,
     0xb7, 0xfd, 0x93, 0x26, 0x36, 0x3f, 0xf7, 0xcc, 0x34, 0xa5, 0xe5, 0xf1, 0x71, 0xd8, 0x31, 0x15,
     0x04, 0xc7, 0x23, 0xc3, 0x18, 0x96, 0x05, 0x9a, 0x07, 0x12, 0x80, 0xe2, 0xeb, 0x27, 0xb2, 0x75,
     0x09, 0x83, 0x2c, 0x1a, 0x1b, 0x6e, 0x5a, 0xa0, 0x52, 0x3b, 0xd6, 0xb3, 0x29, 0xe3, 0x2f, 0x84,
     0x53, 0xd1, 0x00, 0xed, 0x20, 0xfc, 0xb1, 0x5b, 0x6a, 0xcb, 0xbe, 0x39, 0x4a, 0x4c, 0x58, 0xcf,
     0xd0, 0xef, 0xaa, 0xfb, 0x43, 0x4d, 0x33, 0x85, 0x45, 0xf9, 0x02, 0x7f, 0x50, 0x3c, 0x9f, 0xa8,
     0x51, 0xa3, 0x40, 0x8f, 0x92, 0x9d, 0x38, 0xf5, 0xbc, 0xb6, 0xda, 0x21, 0x10, 0xff, 0xf3, 0xd2,
     0xcd, 0x0c, 0x13, 0xec, 0x5f, 0x97, 0x44, 0x17, 0xc4, 0xa7, 0x7e, 0x3d, 0x64, 0x5d, 0x19, 0x73,
     0x60, 0x81, 0x4f, 0xdc, 0x22, 0x2a, 0x90, 0x88, 0x46, 0xee, 0xb8, 0x14, 0xde, 0x5e, 0x0b, 0xdb,
     0xe0, 0x32, 0x3a, 0x0a, 0x49, 0x06, 0x24, 0x5c, 0xc2, 0xd3, 0xac, 0x62, 0x91, 0x95, 0xe4, 0x79,
     0xe7, 0xc8, 0x37, 0x6d, 0x8d, 0xd5, 0x4e, 0xa9, 0x6c, 0x56, 0xf4, 0xea, 0x65, 0x7a, 0xae, 0x08,
     0xba, 0x78, 0x25, 0x2e, 0x1c, 0xa6, 0xb4, 0xc6, 0xe8, 0xdd, 0x74, 0x1f, 0x4b, 0xbd, 0x8b, 0x8a,
     0x70, 0x3e, 0xb5, 0x66, 0x48, 0x03, 0xf6, 0x0e, 0x61, 0x35, 0x57, 0xb9, 0x86, 0xc1, 0x1d, 0x9e,
     0xe1, 0xf8, 0x98, 0x11, 0x69, 0xd9, 0x8e, 0x94, 0x9b, 0x1e, 0x87, 0xe9, 0xce, 0x55, 0x28, 0xdf,
     0x8c, 0xa1, 0x89, 0x0d, 0xbf, 0xe6, 0x42, 0x68, 0x41, 0x99, 0x2d, 0x0f, 0xb0, 0x54, 0xbb, 0x16]"

definition INV_SBOX :: "u8 list" where
  "INV_SBOX = fold (\<lambda>i t. t[unat (SBOX ! i) := of_nat i]) [0..<256] (replicate 256 0)"

definition xtime :: "u8 \<Rightarrow> u8" where
  "xtime a = shl a 1 XOR (if a AND 0x80 \<noteq> 0 then 0x1b else 0)"

text \<open>The multiplication loop, its three variables as arguments.\<close>

function gmul_loop :: "u8 \<Rightarrow> u8 \<Rightarrow> u8 \<Rightarrow> u8" where
  "gmul_loop r a b =
     (if b = 0 then r
      else gmul_loop (if b AND 1 \<noteq> 0 then r XOR a else r) (xtime a) (shr b 1))"
  by pat_completeness auto
termination
proof (relation "measure (\<lambda>(r, a, b). unat b)")
  fix b :: u8 assume "b \<noteq> 0"
  then have "unat b \<noteq> 0" by (simp add: unat_eq_0)
  then show "((if b AND 1 \<noteq> 0 then r XOR a else r, xtime a, shr b 1), (r, a, b))
      \<in> measure (\<lambda>(r, a, b). unat b)" for r a
    by (simp add: drop_bit_eq_div unat_div)
qed simp

declare gmul_loop.simps [simp del]

definition gmul :: "u8 \<Rightarrow> u8 \<Rightarrow> u8" where
  "gmul a b = gmul_loop 0 a b"

definition sub_word :: "u32 \<Rightarrow> u32" where
  "sub_word w =
     shl (ucast (SBOX ! unat (shr w 24 AND 0xff))) 24 OR
     shl (ucast (SBOX ! unat (shr w 16 AND 0xff))) 16 OR
     shl (ucast (SBOX ! unat (shr w 8 AND 0xff))) 8 OR
     ucast (SBOX ! unat (w AND 0xff))"

definition rot_word :: "u32 \<Rightarrow> u32" where
  "rot_word w = shl w 8 OR shr w 24"

record aes_ctx =
  rk :: "u32 list"
  rounds :: nat

text \<open>The key words, then one schedule word per iteration with the round constant.\<close>

definition key_word :: "u8 list \<Rightarrow> nat \<Rightarrow> u32" where
  "key_word key i =
     shl (ucast (key ! (4 * i))) 24 OR shl (ucast (key ! (4 * i + 1))) 16 OR
     shl (ucast (key ! (4 * i + 2))) 8 OR ucast (key ! (4 * i + 3))"

definition schedule_step :: "nat \<Rightarrow> nat \<Rightarrow> u32 list \<times> u8 \<Rightarrow> u32 list \<times> u8" where
  "schedule_step nk i st =
     (let (w, rcon) = st; t = w ! (i - 1);
          (t, rcon) =
            (if i mod nk = 0 then (sub_word (rot_word t) XOR shl (ucast rcon) 24, xtime rcon)
             else if nk > 6 \<and> i mod nk = 4 then (sub_word t, rcon)
             else (t, rcon))
      in (w[i := (w ! (i - nk)) XOR t], rcon))"

definition aes_init :: "aes_ctx \<Rightarrow> u8 list \<Rightarrow> nat \<Rightarrow> bool \<times> aes_ctx" where
  "aes_init c key key_bits =
     (let start = (\<lambda>nk r.
        let total = 4 * (r + 1);
            w0 = fold (\<lambda>i w. w[i := key_word key i]) [0..<nk] (rk c)
        in (True, c\<lparr>rounds := r, rk := fst (fold (schedule_step nk) [nk..<total] (w0, 1))\<rparr>))
      in if key_bits = 128 then start 4 10
         else if key_bits = 192 then start 6 12
         else if key_bits = 256 then start 8 14
         else (False, c))"

definition add_round_key :: "u8 list \<Rightarrow> u32 list \<Rightarrow> nat \<Rightarrow> u8 list" where
  "add_round_key s w k =
     fold (\<lambda>c s. let v = w ! (k + c)
           in s[4 * c := (s ! (4 * c)) XOR ucast (shr v 24),
                4 * c + 1 := (s ! (4 * c + 1)) XOR ucast (shr v 16),
                4 * c + 2 := (s ! (4 * c + 2)) XOR ucast (shr v 8),
                4 * c + 3 := (s ! (4 * c + 3)) XOR ucast v]) [0..<4] s"

definition shift_rows :: "u8 list \<Rightarrow> u8 list" where
  "shift_rows t =
     fold (\<lambda>r s. fold (\<lambda>c s. s[4 * c + r := t ! (4 * ((c + r) mod 4) + r)]) [0..<4] s) [1..<4] t"

definition inv_shift_rows :: "u8 list \<Rightarrow> u8 list" where
  "inv_shift_rows t =
     fold (\<lambda>r s. fold (\<lambda>c s. s[4 * ((c + r) mod 4) + r := t ! (4 * c + r)]) [0..<4] s) [1..<4] t"

definition mix_column :: "nat \<Rightarrow> u8 list \<Rightarrow> u8 list" where
  "mix_column c s =
     (let a0 = s ! (4 * c); a1 = s ! (4 * c + 1); a2 = s ! (4 * c + 2); a3 = s ! (4 * c + 3);
          x = a0 XOR a1 XOR a2 XOR a3
      in s[4 * c := a0 XOR (x XOR xtime (a0 XOR a1)),
           4 * c + 1 := a1 XOR (x XOR xtime (a1 XOR a2)),
           4 * c + 2 := a2 XOR (x XOR xtime (a2 XOR a3)),
           4 * c + 3 := a3 XOR (x XOR xtime (a3 XOR a0))])"

definition mix_columns :: "u8 list \<Rightarrow> u8 list" where
  "mix_columns = fold mix_column [0..<4]"

definition inv_mix_column :: "nat \<Rightarrow> u8 list \<Rightarrow> u8 list" where
  "inv_mix_column c s =
     (let a0 = s ! (4 * c); a1 = s ! (4 * c + 1); a2 = s ! (4 * c + 2); a3 = s ! (4 * c + 3)
      in s[4 * c := gmul a0 14 XOR gmul a1 11 XOR gmul a2 13 XOR gmul a3 9,
           4 * c + 1 := gmul a0 9 XOR gmul a1 14 XOR gmul a2 11 XOR gmul a3 13,
           4 * c + 2 := gmul a0 13 XOR gmul a1 9 XOR gmul a2 14 XOR gmul a3 11,
           4 * c + 3 := gmul a0 11 XOR gmul a1 13 XOR gmul a2 9 XOR gmul a3 14])"

definition inv_mix_columns :: "u8 list \<Rightarrow> u8 list" where
  "inv_mix_columns = fold inv_mix_column [0..<4]"

text \<open>The S-box applied to the 16 bytes of the state, in the loops of the two block routines.\<close>

definition sub_bytes :: "u8 list \<Rightarrow> u8 list \<Rightarrow> u8 list" where
  "sub_bytes box s = fold (\<lambda>i s. s[i := box ! unat (s ! i)]) [0..<16] s"

definition aes_encrypt_block :: "aes_ctx \<Rightarrow> u8 list \<Rightarrow> u8 list" where
  "aes_encrypt_block c b =
     (let s = add_round_key b (rk c) 0;
          s = fold (\<lambda>r s. add_round_key (mix_columns (shift_rows (sub_bytes SBOX s))) (rk c) (4 * r))
                [1..<rounds c] s
      in add_round_key (shift_rows (sub_bytes SBOX s)) (rk c) (4 * rounds c))"

definition aes_decrypt_block :: "aes_ctx \<Rightarrow> u8 list \<Rightarrow> u8 list" where
  "aes_decrypt_block c b =
     (let s = add_round_key b (rk c) (4 * rounds c);
          s = fold (\<lambda>r s. inv_mix_columns
                  (add_round_key (sub_bytes INV_SBOX (inv_shift_rows s)) (rk c) (4 * r)))
                (rev [1..<rounds c]) s
      in add_round_key (sub_bytes INV_SBOX (inv_shift_rows s)) (rk c) 0)"

text \<open>
  CBC over a byte memory: \<open>prev\<close> is the chaining block, the loop runs while \<open>off < len\<close>. The
  ciphertext block is copied before the plaintext is stored, since \<open>inp\<close> and \<open>out\<close> may be equal.
\<close>

type_synonym bytes = "nat \<Rightarrow> u8"

definition rd :: "bytes \<Rightarrow> nat \<Rightarrow> nat \<Rightarrow> u8 list" where
  "rd m p n = map (\<lambda>i. m (p + i)) [0..<n]"

definition wr :: "bytes \<Rightarrow> nat \<Rightarrow> u8 list \<Rightarrow> bytes" where
  "wr m p bs = (\<lambda>a. if p \<le> a \<and> a < p + length bs then bs ! (a - p) else m a)"

definition xor_block :: "u8 list \<Rightarrow> u8 list \<Rightarrow> u8 list" where
  "xor_block a b = map2 (\<lambda>x y. x XOR y) a b"

function cbc_decrypt_loop ::
  "(u8 list \<Rightarrow> u8 list) \<Rightarrow> u8 list \<Rightarrow> bytes \<Rightarrow> nat \<Rightarrow> nat \<Rightarrow> nat \<Rightarrow> nat \<Rightarrow> bytes" where
  "cbc_decrypt_loop dec prev m inp out off len =
     (if off < len then
        let cipher = rd m (inp + off) 16;
            plain = xor_block (dec cipher) prev
        in cbc_decrypt_loop dec cipher (wr m (out + off) plain) inp out (off + 16) len
      else m)"
  by pat_completeness auto
termination
  by (relation "measure (\<lambda>(_, _, _, _, _, off, len). len - off)") simp_all

function cbc_encrypt_loop ::
  "(u8 list \<Rightarrow> u8 list) \<Rightarrow> u8 list \<Rightarrow> bytes \<Rightarrow> nat \<Rightarrow> nat \<Rightarrow> nat \<Rightarrow> nat \<Rightarrow> bytes" where
  "cbc_encrypt_loop enc prev m inp out off len =
     (if off < len then
        let block = xor_block (rd m (inp + off) 16) prev;
            next' = enc block
        in cbc_encrypt_loop enc next' (wr m (out + off) next') inp out (off + 16) len
      else m)"
  by pat_completeness auto
termination
  by (relation "measure (\<lambda>(_, _, _, _, _, off, len). len - off)") simp_all

declare cbc_decrypt_loop.simps [simp del] cbc_encrypt_loop.simps [simp del]

definition aes_cbc_decrypt ::
  "aes_ctx \<Rightarrow> u8 list \<Rightarrow> bytes \<Rightarrow> nat \<Rightarrow> nat \<Rightarrow> nat \<Rightarrow> bool \<times> bytes" where
  "aes_cbc_decrypt c iv m inp out len =
     (if len mod 16 \<noteq> 0 then (False, m)
      else (True, cbc_decrypt_loop (aes_decrypt_block c) iv m inp out 0 len))"

definition aes_cbc_encrypt ::
  "aes_ctx \<Rightarrow> u8 list \<Rightarrow> bytes \<Rightarrow> nat \<Rightarrow> nat \<Rightarrow> nat \<Rightarrow> bool \<times> bytes" where
  "aes_cbc_encrypt c iv m inp out len =
     (if len mod 16 \<noteq> 0 then (False, m)
      else (True, cbc_encrypt_loop (aes_encrypt_block c) iv m inp out 0 len))"

section \<open>Each step has an inverse\<close>

lemma sbox_length [simp]: "length SBOX = 256"
  by (simp add: SBOX_def)

text \<open>The inverse permutation in 16 rows, to check the table by evaluation.\<close>

definition inv_rows :: "nat list list" where
  "inv_rows =
    [[0x52, 0x09, 0x6a, 0xd5, 0x30, 0x36, 0xa5, 0x38, 0xbf, 0x40, 0xa3, 0x9e, 0x81, 0xf3, 0xd7, 0xfb],
     [0x7c, 0xe3, 0x39, 0x82, 0x9b, 0x2f, 0xff, 0x87, 0x34, 0x8e, 0x43, 0x44, 0xc4, 0xde, 0xe9, 0xcb],
     [0x54, 0x7b, 0x94, 0x32, 0xa6, 0xc2, 0x23, 0x3d, 0xee, 0x4c, 0x95, 0x0b, 0x42, 0xfa, 0xc3, 0x4e],
     [0x08, 0x2e, 0xa1, 0x66, 0x28, 0xd9, 0x24, 0xb2, 0x76, 0x5b, 0xa2, 0x49, 0x6d, 0x8b, 0xd1, 0x25],
     [0x72, 0xf8, 0xf6, 0x64, 0x86, 0x68, 0x98, 0x16, 0xd4, 0xa4, 0x5c, 0xcc, 0x5d, 0x65, 0xb6, 0x92],
     [0x6c, 0x70, 0x48, 0x50, 0xfd, 0xed, 0xb9, 0xda, 0x5e, 0x15, 0x46, 0x57, 0xa7, 0x8d, 0x9d, 0x84],
     [0x90, 0xd8, 0xab, 0x00, 0x8c, 0xbc, 0xd3, 0x0a, 0xf7, 0xe4, 0x58, 0x05, 0xb8, 0xb3, 0x45, 0x06],
     [0xd0, 0x2c, 0x1e, 0x8f, 0xca, 0x3f, 0x0f, 0x02, 0xc1, 0xaf, 0xbd, 0x03, 0x01, 0x13, 0x8a, 0x6b],
     [0x3a, 0x91, 0x11, 0x41, 0x4f, 0x67, 0xdc, 0xea, 0x97, 0xf2, 0xcf, 0xce, 0xf0, 0xb4, 0xe6, 0x73],
     [0x96, 0xac, 0x74, 0x22, 0xe7, 0xad, 0x35, 0x85, 0xe2, 0xf9, 0x37, 0xe8, 0x1c, 0x75, 0xdf, 0x6e],
     [0x47, 0xf1, 0x1a, 0x71, 0x1d, 0x29, 0xc5, 0x89, 0x6f, 0xb7, 0x62, 0x0e, 0xaa, 0x18, 0xbe, 0x1b],
     [0xfc, 0x56, 0x3e, 0x4b, 0xc6, 0xd2, 0x79, 0x20, 0x9a, 0xdb, 0xc0, 0xfe, 0x78, 0xcd, 0x5a, 0xf4],
     [0x1f, 0xdd, 0xa8, 0x33, 0x88, 0x07, 0xc7, 0x31, 0xb1, 0x12, 0x10, 0x59, 0x27, 0x80, 0xec, 0x5f],
     [0x60, 0x51, 0x7f, 0xa9, 0x19, 0xb5, 0x4a, 0x0d, 0x2d, 0xe5, 0x7a, 0x9f, 0x93, 0xc9, 0x9c, 0xef],
     [0xa0, 0xe0, 0x3b, 0x4d, 0xae, 0x2a, 0xf5, 0xb0, 0xc8, 0xeb, 0xbb, 0x3c, 0x83, 0x53, 0x99, 0x61],
     [0x17, 0x2b, 0x04, 0x7e, 0xba, 0x77, 0xd6, 0x26, 0xe1, 0x69, 0x14, 0x63, 0x55, 0x21, 0x0c, 0x7d]]"

definition inv_at :: "nat \<Rightarrow> nat" where
  "inv_at n = inv_rows ! (n div 16) ! (n mod 16)"

lemma inv_at_checks: "map (\<lambda>x. inv_at (unat x)) SBOX = [0..<256]"
  by (simp add: SBOX_def inv_at_def inv_rows_def upt_rec)

lemma inv_at_inverse: "i < 256 \<Longrightarrow> inv_at (unat (SBOX ! i)) = i"
  using arg_cong [OF inv_at_checks, of "\<lambda>xs. xs ! i"] by simp

lemma len16: "length s = 16 \<longleftrightarrow>
    (\<exists>a0 a1 a2 a3 a4 a5 a6 a7 a8 a9 a10 a11 a12 a13 a14 a15.
       s = [a0, a1, a2, a3, a4, a5, a6, a7, a8, a9, a10, a11, a12, a13, a14, a15])"
  by (auto simp: numeral_eq_Suc length_Suc_conv)

lemma upt_small: "[0..<4] = [0, 1, 2, 3]" "[Suc 0..<4] = [1, 2, 3]"
    "[0..<16] = [0, 1, 2, 3, 4, 5, 6, 7, 8, 9, 10, 11, 12, 13, 14, 15]"
  by (simp_all add: upt_rec)

lemma fold_inverse:
  assumes "\<And>i. i < n \<Longrightarrow> g (f i) = i" and "\<And>i. i < n \<Longrightarrow> f i < length t" and "k < n"
  shows "fold (\<lambda>i t. t[f i := h i]) [0..<n] t ! f k = h k"
proof -
  have l: "length (fold (\<lambda>i t. t[f i := h i]) is t) = length t" for "is"
    by (induction "is" arbitrary: t) simp_all
  have "fold (\<lambda>i t. t[f i := h i]) [0..<m] t ! f k = h k" if "k < m" "m \<le> n" for m
    using that
  proof (induction m)
    case (Suc m)
    have "f m \<noteq> f k" if "k \<noteq> m" using that assms(1) [of m] assms(1) [of k] Suc.prems by fastforce
    then show ?case using Suc assms(2) [of m] by (cases "k = m") (simp_all add: l)
  qed simp
  then show ?thesis using assms(3) by simp
qed

lemma inv_sbox_inverse: "INV_SBOX ! unat (SBOX ! unat x) = x"
proof -
  have x: "unat x < 256" using unsigned_less [of x] by simp
  have "unat (SBOX ! i) < 256" for i using unsigned_less [of "SBOX ! i"] by simp
  then have "INV_SBOX ! unat (SBOX ! unat x) = of_nat (unat x)"
    unfolding INV_SBOX_def
    by (intro fold_inverse [where f = "\<lambda>i. unat (SBOX ! i)" and g = inv_at])
      (simp_all add: x inv_at_inverse)
  then show ?thesis by simp
qed

lemma sub_bytes_eq: "length s = 16 \<Longrightarrow> sub_bytes box s = map (\<lambda>x. box ! unat x) s"
  by (auto simp: len16 sub_bytes_def upt_small)

lemma sub_bytes_length [simp]: "length (sub_bytes box s) = length s"
  by (simp add: sub_bytes_def upt_small)

lemma sub_bytes_undone: "length s = 16 \<Longrightarrow> sub_bytes INV_SBOX (sub_bytes SBOX s) = s"
  by (simp add: sub_bytes_eq comp_def inv_sbox_inverse)

lemma add_round_key_length [simp]: "length (add_round_key s w k) = length s"
  by (simp add: add_round_key_def upt_small Let_def)

lemma add_round_key_undone:
  assumes "length s = 16" shows "add_round_key (add_round_key s w k) w k = s"
  using assms by (auto simp: len16 add_round_key_def upt_small Let_def xor.assoc)

lemma shift_rows_undone:
  assumes "length s = 16"
  shows "inv_shift_rows (shift_rows s) = s" "length (shift_rows s) = 16"
  using assms by (auto simp: len16 shift_rows_def inv_shift_rows_def upt_small)

lemma xtime_xor: "xtime (a XOR b) = xtime a XOR xtime b"
proof -
  have t: "c AND 0x80 \<noteq> 0 \<longleftrightarrow> bit c 7" for c :: u8
    using bit_iff_and_push_bit_not_eq_0 [of c 7] by simp
  show ?thesis
    unfolding xtime_def t bit_xor_iff push_bit_xor
    by (simp add: xor.assoc xor.left_commute [of "27 :: u8"])
qed

lemma gmul_const:
  "gmul a 9 = a XOR xtime (xtime (xtime a))"
  "gmul a 11 = a XOR xtime a XOR xtime (xtime (xtime a))"
  "gmul a 13 = a XOR xtime (xtime a) XOR xtime (xtime (xtime a))"
  "gmul a 14 = xtime a XOR xtime (xtime a) XOR xtime (xtime (xtime a))"
  by (simp_all add: gmul_def gmul_loop.simps xor.assoc)

lemma xor_cancel: "(a :: u8) XOR (a XOR b) = b"
  by (simp add: xor.assoc [symmetric])

lemma mix_column_undone:
  fixes a0 a1 a2 a3 :: u8
  defines "x \<equiv> a0 XOR a1 XOR a2 XOR a3"
  defines "b0 \<equiv> a0 XOR (x XOR xtime (a0 XOR a1))" and "b1 \<equiv> a1 XOR (x XOR xtime (a1 XOR a2))"
    and "b2 \<equiv> a2 XOR (x XOR xtime (a2 XOR a3))" and "b3 \<equiv> a3 XOR (x XOR xtime (a3 XOR a0))"
  shows "gmul b0 14 XOR gmul b1 11 XOR gmul b2 13 XOR gmul b3 9 = a0"
    "gmul b0 9 XOR gmul b1 14 XOR gmul b2 11 XOR gmul b3 13 = a1"
    "gmul b0 13 XOR gmul b1 9 XOR gmul b2 14 XOR gmul b3 11 = a2"
    "gmul b0 11 XOR gmul b1 13 XOR gmul b2 9 XOR gmul b3 14 = a3"
  by (simp_all only: x_def b0_def b1_def b2_def b3_def gmul_const xtime_xor ac_simps xor_cancel
      xor_self_eq xor.left_neutral xor.right_neutral)

lemma mix_columns_undone:
  assumes "length s = 16"
  shows "inv_mix_columns (mix_columns s) = s" "length (mix_columns s) = 16"
  using assms
  by (auto simp: len16 mix_columns_def inv_mix_columns_def mix_column_def inv_mix_column_def
      upt_small Let_def mix_column_undone)

text \<open>One round and the block.\<close>

definition round_fwd :: "u32 list \<Rightarrow> nat \<Rightarrow> u8 list \<Rightarrow> u8 list" where
  "round_fwd w r s = add_round_key (mix_columns (shift_rows (sub_bytes SBOX s))) w (4 * r)"

definition round_bwd :: "u32 list \<Rightarrow> nat \<Rightarrow> u8 list \<Rightarrow> u8 list" where
  "round_bwd w r s =
     inv_mix_columns (add_round_key (sub_bytes INV_SBOX (inv_shift_rows s)) w (4 * r))"

lemma round_length [simp]:
  assumes "length s = 16" shows "length (round_fwd w r s) = 16" "length (round_bwd w r s) = 16"
proof -
  have i: "length (inv_shift_rows t) = length t" "length (inv_mix_columns t) = length t" for t
    by (simp_all add: inv_shift_rows_def inv_mix_columns_def inv_mix_column_def upt_small Let_def)
  show "length (round_fwd w r s) = 16" "length (round_bwd w r s) = 16"
    using assms by (simp_all add: round_fwd_def round_bwd_def mix_columns_undone shift_rows_undone i)
qed

lemma round_undone:
  assumes "length s = 16"
  shows "round_bwd w r (shift_rows (sub_bytes SBOX (round_fwd w r s))) = shift_rows (sub_bytes SBOX s)"
  using assms
  by (simp add: round_bwd_def shift_rows_undone(1) sub_bytes_undone)
    (simp add: round_fwd_def add_round_key_undone mix_columns_undone shift_rows_undone)

lemma decrypt_tail_length: "length (inv_shift_rows t) = length t"
  by (simp add: inv_shift_rows_def upt_small)

lemma fold_round_length [simp]:
  "length s = 16 \<Longrightarrow> length (fold (round_fwd w) rs s) = 16"
  "length s = 16 \<Longrightarrow> length (fold (round_bwd w) rs s) = 16"
  by (induction rs arbitrary: s) simp_all

lemma rounds_undone:
  "length s = 16 \<Longrightarrow>
   fold (round_bwd w) (rev rs) (shift_rows (sub_bytes SBOX (fold (round_fwd w) rs s))) =
   shift_rows (sub_bytes SBOX s)"
  by (induction rs arbitrary: s) (simp_all add: round_undone)

lemma encrypt_rounds:
  "aes_encrypt_block c b = add_round_key (shift_rows (sub_bytes SBOX
     (fold (round_fwd (rk c)) [1..<rounds c] (add_round_key b (rk c) 0)))) (rk c) (4 * rounds c)"
  by (simp add: aes_encrypt_block_def Let_def round_fwd_def [abs_def])

lemma decrypt_rounds:
  "aes_decrypt_block c b = add_round_key (sub_bytes INV_SBOX (inv_shift_rows
     (fold (round_bwd (rk c)) (rev [1..<rounds c]) (add_round_key b (rk c) (4 * rounds c))))) (rk c) 0"
  by (simp add: aes_decrypt_block_def Let_def round_bwd_def [abs_def])

lemma block_undone:
  assumes "length b = 16"
  shows "aes_decrypt_block c (aes_encrypt_block c b) = b" "length (aes_encrypt_block c b) = 16"
proof -
  show "length (aes_encrypt_block c b) = 16"
    using assms by (simp add: encrypt_rounds shift_rows_undone(2))
  show "aes_decrypt_block c (aes_encrypt_block c b) = b"
    using assms
    by (simp add: encrypt_rounds decrypt_rounds add_round_key_undone shift_rows_undone rounds_undone
        sub_bytes_undone)
qed

lemma decrypt_length: "length b = 16 \<Longrightarrow> length (aes_decrypt_block c b) = 16"
  by (simp add: decrypt_rounds decrypt_tail_length)

section \<open>CBC over any block cipher\<close>

text \<open>Reading and writing memory.\<close>

lemma rd_length [simp]: "length (rd m p n) = n"
  by (simp add: rd_def)

lemma rd_nth [simp]: "i < n \<Longrightarrow> rd m p n ! i = m (p + i)"
  by (simp add: rd_def)

lemma rd_cong: "(\<And>a. p \<le> a \<Longrightarrow> a < p + n \<Longrightarrow> m a = m' a) \<Longrightarrow> rd m p n = rd m' p n"
  by (simp add: rd_def)

lemma rd_wr: "rd (wr m p bs) p (length bs) = bs"
  by (rule nth_equalityI) (simp_all add: wr_def)

lemma rd_add: "rd m p (k + n) = rd m p k @ rd m (p + k) n"
  by (rule nth_equalityI) (auto simp: nth_append add.assoc)

lemma wr_append: "wr (wr m p xs) (p + length xs) ys = wr m p (xs @ ys)"
  by (rule ext) (auto simp: wr_def nth_append)

lemma wr_Nil [simp]: "wr m p [] = m"
  by (rule ext) (auto simp: wr_def)

text \<open>Two buffers of \<open>n\<close> bytes that are the same or do not overlap.\<close>

definition same_or_apart :: "nat \<Rightarrow> nat \<Rightarrow> nat \<Rightarrow> bool" where
  "same_or_apart p q n \<longleftrightarrow> p = q \<or> p + n \<le> q \<or> q + n \<le> p"

lemma rd_after_wr:
  assumes "same_or_apart p q n" and "length xs = 16" and "off + 16 + k \<le> n"
  shows "rd (wr m (q + off) xs) (p + off + 16) k = rd m (p + off + 16) k"
  using assms by (intro rd_cong) (auto simp: wr_def same_or_apart_def)

lemma rd_blocks [simp]:
  "take 16 (rd m p (16 + n)) = rd m p 16" "drop 16 (rd m p (16 + n)) = rd m (p + 16) n"
  by (simp_all add: rd_add)

lemma wr_block: "length xs = 16 \<Longrightarrow> wr (wr m p xs) (p + 16) ys = wr m p (xs @ ys)"
  using wr_append [of m p xs ys] by simp

text \<open>The specification of the mode on byte lists.\<close>

fun cbc_enc_spec :: "(u8 list \<Rightarrow> u8 list) \<Rightarrow> u8 list \<Rightarrow> nat \<Rightarrow> u8 list \<Rightarrow> u8 list" where
  "cbc_enc_spec enc prev 0 bs = []"
| "cbc_enc_spec enc prev (Suc k) bs =
     (let c = enc (xor_block (take 16 bs) prev) in c @ cbc_enc_spec enc c k (drop 16 bs))"

fun cbc_dec_spec :: "(u8 list \<Rightarrow> u8 list) \<Rightarrow> u8 list \<Rightarrow> nat \<Rightarrow> u8 list \<Rightarrow> u8 list" where
  "cbc_dec_spec dec prev 0 bs = []"
| "cbc_dec_spec dec prev (Suc k) bs =
     xor_block (dec (take 16 bs)) prev @ cbc_dec_spec dec (take 16 bs) k (drop 16 bs)"

lemma xor_block_length [simp]: "length (xor_block a b) = min (length a) (length b)"
  by (simp add: xor_block_def)

lemma xor_block_cancel:
  "length a = length b \<Longrightarrow> xor_block (xor_block a b) b = a"
  by (rule nth_equalityI) (simp_all add: xor_block_def xor.assoc)

text \<open>What a mode of operation needs of its cipher.\<close>

locale block_cipher =
  fixes enc dec :: "u8 list \<Rightarrow> u8 list"
  assumes enc_length: "length b = 16 \<Longrightarrow> length (enc b) = 16"
    and dec_length: "length b = 16 \<Longrightarrow> length (dec b) = 16"
    and dec_enc: "length b = 16 \<Longrightarrow> dec (enc b) = b"
begin

lemma enc_spec_length:
  "length prev = 16 \<Longrightarrow> length bs = 16 * k \<Longrightarrow> length (cbc_enc_spec enc prev k bs) = 16 * k"
  by (induction k arbitrary: prev bs) (simp_all add: Let_def enc_length)

lemma dec_spec_length:
  "length prev = 16 \<Longrightarrow> length bs = 16 * k \<Longrightarrow> length (cbc_dec_spec dec prev k bs) = 16 * k"
  by (induction k arbitrary: prev bs) (simp_all add: dec_length)

lemma spec_roundtrip:
  "length prev = 16 \<Longrightarrow> length bs = 16 * k \<Longrightarrow>
   cbc_dec_spec dec prev k (cbc_enc_spec enc prev k bs) = bs"
  by (induction k arbitrary: prev bs) (simp_all add: Let_def enc_length dec_enc xor_block_cancel)

lemma decrypt_loop_spec:
  assumes "same_or_apart p q (off + 16 * k)" and "length prev = 16"
  shows "cbc_decrypt_loop dec prev m p q off (off + 16 * k) =
    wr m (q + off) (cbc_dec_spec dec prev k (rd m (p + off) (16 * k)))"
  using assms
proof (induction k arbitrary: off prev m)
  case 0 then show ?case by (simp add: cbc_decrypt_loop.simps)
next
  case (Suc k)
  let ?c = "rd m (p + off) 16"
  let ?x = "xor_block (dec ?c) prev"
  have x: "length ?x = 16" using Suc.prems by (simp add: dec_length)
  have "cbc_decrypt_loop dec prev m p q off (off + 16 * Suc k) =
      cbc_decrypt_loop dec ?c (wr m (q + off) ?x) p q (off + 16) (off + 16 + 16 * k)"
    by (subst cbc_decrypt_loop.simps) (simp add: Let_def algebra_simps)
  also have "\<dots> = wr (wr m (q + off) ?x) (q + off + 16)
      (cbc_dec_spec dec ?c k (rd (wr m (q + off) ?x) (p + off + 16) (16 * k)))"
    using Suc.IH [of "off + 16" ?c "wr m (q + off) ?x"] Suc.prems by (simp add: algebra_simps)
  also have "rd (wr m (q + off) ?x) (p + off + 16) (16 * k) = rd m (p + off + 16) (16 * k)"
    using rd_after_wr [OF Suc.prems(1) x, of off "16 * k" m] by simp
  finally show ?case
    using wr_block [OF x, of m "q + off"] by simp
qed

lemma encrypt_loop_spec:
  assumes "same_or_apart p q (off + 16 * k)" and "length prev = 16"
  shows "cbc_encrypt_loop enc prev m p q off (off + 16 * k) =
    wr m (q + off) (cbc_enc_spec enc prev k (rd m (p + off) (16 * k)))"
  using assms
proof (induction k arbitrary: off prev m)
  case 0 then show ?case by (simp add: cbc_encrypt_loop.simps)
next
  case (Suc k)
  let ?x = "enc (xor_block (rd m (p + off) 16) prev)"
  have x: "length ?x = 16" using Suc.prems by (simp add: enc_length)
  have "cbc_encrypt_loop enc prev m p q off (off + 16 * Suc k) =
      cbc_encrypt_loop enc ?x (wr m (q + off) ?x) p q (off + 16) (off + 16 + 16 * k)"
    by (subst cbc_encrypt_loop.simps) (simp add: Let_def algebra_simps)
  also have "\<dots> = wr (wr m (q + off) ?x) (q + off + 16)
      (cbc_enc_spec enc ?x k (rd (wr m (q + off) ?x) (p + off + 16) (16 * k)))"
    using Suc.IH [of "off + 16" ?x "wr m (q + off) ?x"] Suc.prems x by (simp add: algebra_simps)
  also have "rd (wr m (q + off) ?x) (p + off + 16) (16 * k) = rd m (p + off + 16) (16 * k)"
    using rd_after_wr [OF Suc.prems(1) x, of off "16 * k" m] by simp
  finally show ?case
    using wr_block [OF x, of m "q + off"] by (simp add: Let_def)
qed

lemma loops_roundtrip:
  assumes "same_or_apart p q (16 * k)" "same_or_apart q r (16 * k)" "length iv = 16"
  shows "rd (cbc_decrypt_loop dec iv (cbc_encrypt_loop enc iv m p q 0 (16 * k)) q r 0 (16 * k))
      r (16 * k) = rd m p (16 * k)"
proof -
  let ?e = "cbc_enc_spec enc iv k (rd m p (16 * k))"
  have e: "length ?e = 16 * k" using assms(3) by (simp add: enc_spec_length)
  have "cbc_encrypt_loop enc iv m p q 0 (16 * k) = wr m q ?e"
    using encrypt_loop_spec [of p q 0 k iv m] assms by simp
  moreover have "rd (wr m q ?e) q (16 * k) = ?e" using rd_wr [of m q ?e] by (simp add: e)
  moreover have "rd (wr (wr m q ?e) r (rd m p (16 * k))) r (16 * k) = rd m p (16 * k)"
    using rd_wr [of _ r "rd m p (16 * k)"] by simp
  ultimately show ?thesis
    using decrypt_loop_spec [of q r 0 k iv "wr m q ?e"] assms by (simp add: spec_roundtrip)
qed

end

interpretation aes: block_cipher "aes_encrypt_block c" "aes_decrypt_block c" for c
  by unfold_locales (simp_all add: block_undone decrypt_length)

text \<open>
  C17:
  With a context that aes_init built for a 128, 192 or 256-bit key, CBC decryption of what CBC
  encryption wrote gives the plaintext back, whatever the data, IV and memory, whether the
  buffers of either call are the same (in place) or apart.
\<close>

theorem aes_cbc_roundtrip:
  assumes "aes_init c0 key key_bits = (True, c)" and "length iv = 16"
    and "aes_cbc_encrypt c iv m plain cipher len = (True, m1)"
    and "aes_cbc_decrypt c iv m1 cipher out len = (True, m2)"
    and "same_or_apart plain cipher len" "same_or_apart cipher out len"
  shows "rd m2 out len = rd m plain len"
proof -
  obtain k where "len = 16 * k"
    using assms(3) by (auto simp: aes_cbc_encrypt_def split: if_splits)
  then show ?thesis
    using assms aes.loops_roundtrip [of plain cipher k out iv c m]
    by (auto simp: aes_cbc_encrypt_def aes_cbc_decrypt_def)
qed

text \<open>Two blocks encrypted in place and decrypted elsewhere, under the all-zero 128-bit key.\<close>

definition zero_ctx :: aes_ctx where
  "zero_ctx = snd (aes_init \<lparr>rk = replicate 60 0, rounds = 0\<rparr> (replicate 16 0) 128)"

lemma aes_cbc_roundtrip_witness:
  "let m = (\<lambda>a. of_nat a); iv = replicate 16 7;
       m1 = snd (aes_cbc_encrypt zero_ctx iv m 0 0 32);
       m2 = snd (aes_cbc_decrypt zero_ctx iv m1 0 64 32)
   in rd m2 64 32 = rd m 0 32"
  unfolding Let_def
  by (rule aes_cbc_roundtrip [of "\<lparr>rk = replicate 60 0, rounds = 0\<rparr>" "replicate 16 0" 128 zero_ctx
        _ _ 0 0 32 _ 64])
    (simp_all add: zero_ctx_def aes_init_def Let_def aes_cbc_encrypt_def aes_cbc_decrypt_def
      same_or_apart_def)

end
