(* ===== verification/Img3.thy ===== *)
theory Img3
  imports Bytes Aes
begin

text \<open>
  The IMG3 firmware container (core/src/firmware/img3.c): tags, the key bag, and the decryption
  of the payload. Pointers into the image are offsets in the buffer. The lemmas show that the
  parser never reads outside its buffer, and that it reads back what a writer of containers put
  in.
\<close>

unbundle bit_operations_syntax

section \<open>The code\<close>

datatype img3_status = IMG3_OK | IMG3_ERR_TOO_SMALL | IMG3_ERR_BAD_MAGIC | IMG3_ERR_BAD_SIZE |
  IMG3_ERR_BAD_TAG | IMG3_ERR_INVALID_ARGUMENT

record img3_kbag =
  kb_crypt_state :: u32
  kb_key_bits :: u32
  kb_iv :: "u8 list"
  kb_key :: "u8 list"
  kb_present :: bool
  kb_malformed :: bool

record img3 =
  im_ident :: u32
  im_full_size :: u32
  im_data_size :: u32
  im_signed_size :: u32
  im_data :: "nat option"
  im_data_len :: u32
  im_kbag :: img3_kbag
  im_has_shsh :: bool
  im_vers :: "u8 list"

definition zero_kbag :: img3_kbag where
  "zero_kbag = \<lparr>kb_crypt_state = 0, kb_key_bits = 0, kb_iv = replicate 16 0,
     kb_key = replicate 32 0, kb_present = False, kb_malformed = False\<rparr>"

definition zero_img3 :: img3 where
  "zero_img3 = \<lparr>im_ident = 0, im_full_size = 0, im_data_size = 0, im_signed_size = 0,
     im_data = None, im_data_len = 0, im_kbag = zero_kbag, im_has_shsh = False,
     im_vers = replicate 64 0\<rparr>"

definition parse_kbag :: "u8 list \<Rightarrow> nat \<Rightarrow> u32 \<Rightarrow> img3_kbag \<Rightarrow> img3_kbag option" where
  "parse_kbag b d len k =
     (let k = k\<lparr>kb_malformed := True\<rparr>
      in if len < 24 then Some k
         else do {
           crypt \<leftarrow> rd32 b d;
           bits \<leftarrow> rd32 b (d + 4);
           iv \<leftarrow> slice b (d + 8) 16;
           let k = k\<lparr>kb_crypt_state := crypt, kb_key_bits := bits, kb_iv := iv\<rparr>;
           if bits \<noteq> 128 \<and> bits \<noteq> 192 \<and> bits \<noteq> 256 then Some k
           else
             let key_len = unat (bits div 8)
             in if 24 + key_len > unat len then Some k
                else do {
                  key \<leftarrow> slice b (d + 24) key_len;
                  Some (k\<lparr>kb_key := key @ drop key_len (kb_key k), kb_present := True,
                          kb_malformed := False\<rparr>)
                }
         })"

text \<open>The version string: at most 63 bytes and a NUL into the 64-byte array.\<close>

definition parse_vers :: "u8 list \<Rightarrow> nat \<Rightarrow> u32 \<Rightarrow> u8 list \<Rightarrow> u8 list option" where
  "parse_vers b d data_len vers =
     (if data_len \<ge> 4 then do {
        slen \<leftarrow> rd32 b d;
        if unat slen + 4 \<le> unat data_len then do {
          let n = (if slen < 63 then unat slen else 63);
          s \<leftarrow> slice b (d + 4) n;
          Some (s @ [0] @ drop (n + 1) vers)
        } else Some vers
      } else Some vers)"

definition img3_tag :: "u8 list \<Rightarrow> u32 \<Rightarrow> nat \<Rightarrow> u32 \<Rightarrow> img3 \<Rightarrow> img3 option" where
  "img3_tag b magic d data_len im =
     (if magic = 0x44415441 then Some (im\<lparr>im_data := Some d, im_data_len := data_len\<rparr>)
      else if magic = 0x4b424147 then
        (if kb_present (im_kbag im) then Some im
         else map_option (\<lambda>k. im\<lparr>im_kbag := k\<rparr>) (parse_kbag b d data_len (im_kbag im)))
      else if magic = 0x53485348 then Some (im\<lparr>im_has_shsh := data_len > 0\<rparr>)
      else if magic = 0x56455253 then
        map_option (\<lambda>v. im\<lparr>im_vers := v\<rparr>) (parse_vers b d data_len (im_vers im))
      else Some im)"

function img3_tags :: "u8 list \<Rightarrow> nat \<Rightarrow> nat \<Rightarrow> img3 \<Rightarrow> (img3_status \<times> img3) option" where
  "img3_tags b off end' im =
     (if off + 12 \<le> end' then
        (case (rd32 b off, rd32 b (off + 4), rd32 b (off + 8)) of
           (Some magic, Some total_len, Some data_len) \<Rightarrow>
             if total_len < 12 then Some (IMG3_ERR_BAD_TAG, im)
             else if off + unat total_len > end' then Some (IMG3_ERR_BAD_TAG, im)
             else if unat data_len + 12 > unat total_len then Some (IMG3_ERR_BAD_TAG, im)
             else
               (case img3_tag b magic (off + 12) data_len im of
                  None \<Rightarrow> None
                | Some im \<Rightarrow> img3_tags b (off + unat total_len) end' im)
         | _ \<Rightarrow> None)
      else if off \<noteq> end' then Some (IMG3_ERR_BAD_TAG, im)
      else Some (IMG3_OK, im))"
  by pat_completeness auto
termination
proof (relation "measure (\<lambda>(b, off, end', im). end' - off)")
  fix off end' :: nat and total_len :: u32
  assume "off + 12 \<le> end'" "\<not> total_len < 12" "\<not> end' < off + unat total_len"
  then show "((b, off + unat total_len, end', i), (b', off, end', i'))
      \<in> measure (\<lambda>(b, off, end', im). end' - off)" for b b' i i'
    by (simp add: word_less_nat_alt)
qed simp

declare img3_tags.simps [simp del]

definition img3_parse :: "u8 list \<Rightarrow> (img3_status \<times> img3) option" where
  "img3_parse b =
     (if length b < 20 then Some (IMG3_ERR_TOO_SMALL, zero_img3)
      else do {
        magic \<leftarrow> rd32 b 0;
        if magic \<noteq> 0x496d6733 then Some (IMG3_ERR_BAD_MAGIC, zero_img3)
        else do {
          full \<leftarrow> rd32 b 4;
          data \<leftarrow> rd32 b 8;
          signed \<leftarrow> rd32 b 12;
          ident \<leftarrow> rd32 b 16;
          let im = zero_img3\<lparr>im_full_size := full, im_data_size := data, im_signed_size := signed,
                             im_ident := ident\<rparr>;
          if full < 20 \<or> unat full > length b then Some (IMG3_ERR_BAD_SIZE, im)
          else if unat data + 20 > unat full then Some (IMG3_ERR_BAD_SIZE, im)
          else img3_tags b 20 (unat full) im
        }
      })"

text \<open>
  Decryption of the payload with a given key and IV. The image lies at address \<open>base\<close> of the
  memory; \<open>None\<close> in the result is the refusal.
\<close>

definition img3_decrypt_data_iv ::
  "bytes \<Rightarrow> nat \<Rightarrow> img3 \<Rightarrow> u8 list \<Rightarrow> nat \<Rightarrow> u8 list \<Rightarrow> nat \<Rightarrow> nat \<Rightarrow> (bytes \<times> u32) option" where
  "img3_decrypt_data_iv m base im key key_bits iv out out_cap =
     (case im_data im of
        None \<Rightarrow> None
      | Some off \<Rightarrow>
          if \<not> kb_present (im_kbag im) \<or> kb_malformed (im_kbag im) \<or>
             key_bits \<noteq> unat (kb_key_bits (im_kbag im)) \<or> out_cap < unat (im_data_len im) then None
          else
            (case aes_init \<lparr>rk = replicate 60 0, rounds = 0\<rparr> key key_bits of
               (False, _) \<Rightarrow> None
             | (True, c) \<Rightarrow>
                 let whole = unat (im_data_len im AND NOT 15);
                     tail = unat (im_data_len im) - whole;
                     data = base + off;
                     m1 = (if whole \<noteq> 0
                           then (case aes_cbc_decrypt c iv m data out whole of (_, m1) \<Rightarrow> m1)
                           else m);
                     m2 = (if tail \<noteq> 0 then wr m1 (out + whole) (rd m1 (data + whole) tail) else m1)
                 in if whole \<noteq> 0 \<and> \<not> fst (aes_cbc_decrypt c iv m data out whole) then None
                    else Some (m2, im_data_len im)))"

section \<open>No read outside the buffer\<close>

definition kbag_ok :: "img3_kbag \<Rightarrow> bool" where
  "kbag_ok k \<longleftrightarrow> length (kb_iv k) = 16 \<and> length (kb_key k) = 32 \<and>
     (kb_present k \<longrightarrow> \<not> kb_malformed k \<and> unat (kb_key_bits k) \<in> {128, 192, 256})"

definition img_ok :: "u8 list \<Rightarrow> img3 \<Rightarrow> bool" where
  "img_ok b im \<longleftrightarrow> kbag_ok (im_kbag im) \<and> length (im_vers im) = 64 \<and> im_vers im ! 63 = 0 \<and>
     (case im_data im of None \<Rightarrow> True | Some off \<Rightarrow> off + unat (im_data_len im) \<le> length b)"

lemma zero_img3_ok: "img_ok b (zero_img3\<lparr>im_full_size := f, im_data_size := d, im_signed_size := s,
    im_ident := i\<rparr>)" "img_ok b zero_img3"
  by (simp_all add: img_ok_def kbag_ok_def zero_img3_def zero_kbag_def)

lemma parse_kbag_ok:
  assumes "d + unat len \<le> length b" and "kbag_ok k" and "\<not> kb_present k"
  shows "\<exists>k'. parse_kbag b d len k = Some k' \<and> kbag_ok k'"
proof (cases "len < 24")
  case True then show ?thesis using assms by (simp add: parse_kbag_def kbag_ok_def)
next
  case False
  then have "d + 24 \<le> length b" using assms(1) by (simp add: word_less_nat_alt)
  then obtain crypt bits where r: "rd32 b d = Some crypt" "rd32 b (d + 4) = Some bits"
      "slice b (d + 8) 16 = Some (take 16 (drop (d + 8) b))"
    using rd32_some [of d b] rd32_some [of "d + 4" b] slice_some [of "d + 8" 16 b] by auto
  have "kbag_ok (k\<lparr>kb_malformed := True, kb_crypt_state := crypt, kb_key_bits := bits,
      kb_iv := take 16 (drop (d + 8) b)\<rparr>)"
    using assms \<open>d + 24 \<le> length b\<close> by (simp add: kbag_ok_def)
  then show ?thesis
    using False r assms by (auto simp: parse_kbag_def Let_def kbag_ok_def slice_some)
qed

lemma parse_vers_ok:
  assumes "d + unat data_len \<le> length b" and "length v = 64" "v ! 63 = 0"
  shows "\<exists>v'. parse_vers b d data_len v = Some v' \<and> length v' = 64 \<and> v' ! 63 = 0"
proof (cases "data_len \<ge> 4")
  case True
  then have "d + 4 \<le> length b" using assms(1) by (simp add: word_le_nat_alt)
  then obtain slen where "rd32 b d = Some slen" using rd32_some by blast
  then show ?thesis
    using assms True by (auto simp: parse_vers_def slice_some nth_append word_less_nat_alt Let_def)
qed (simp add: parse_vers_def assms)

lemma img3_tag_ok:
  assumes "d + unat data_len \<le> length b" and "img_ok b im"
  shows "\<exists>im'. img3_tag b magic d data_len im = Some im' \<and> img_ok b im'"
proof -
  have ok: "kbag_ok (im_kbag im)" "length (im_vers im) = 64" "im_vers im ! 63 = 0"
    using assms(2) by (simp_all add: img_ok_def)
  consider "magic = 0x4b424147" "\<not> kb_present (im_kbag im)" | "magic = 0x56455253"
    | "\<not> (magic = 0x4b424147 \<and> \<not> kb_present (im_kbag im))" "magic \<noteq> 0x56455253"
    by blast
  then show ?thesis
  proof cases
    case 1
    obtain k where "parse_kbag b d data_len (im_kbag im) = Some k" "kbag_ok k"
      using parse_kbag_ok [OF assms(1) ok(1) 1(2)] by blast
    then show ?thesis using 1 assms(2) by (simp add: img3_tag_def img_ok_def split: option.splits)
  next
    case 2
    obtain v where "parse_vers b d data_len (im_vers im) = Some v" "length v = 64" "v ! 63 = 0"
      using parse_vers_ok [OF assms(1) ok(2,3)] by blast
    then show ?thesis using 2 assms(2) by (simp add: img3_tag_def img_ok_def split: option.splits)
  next
    case 3
    then show ?thesis using assms by (auto simp: img3_tag_def img_ok_def split: option.splits)
  qed
qed

lemma img3_tags_ok:
  "end' \<le> length b \<Longrightarrow> img_ok b im \<Longrightarrow> \<exists>st im'. img3_tags b off end' im = Some (st, im') \<and> img_ok b im'"
proof (induction b off end' im rule: img3_tags.induct)
  case (1 b off end' im)
  show ?case
  proof (cases "off + 12 \<le> end'")
    case True
    then obtain magic total data_len where
      r: "rd32 b off = Some magic" "rd32 b (off + 4) = Some total" "rd32 b (off + 8) = Some data_len"
      using rd32_some [of off b] rd32_some [of "off + 4" b] rd32_some [of "off + 8" b] 1(2) by auto
    show ?thesis
    proof (cases "total < 12 \<or> off + unat total > end' \<or> unat data_len + 12 > unat total")
      case bad: True
      then show ?thesis using True r 1(3) by (subst img3_tags.simps) auto
    next
      case good: False
      then obtain im' where t: "img3_tag b magic (off + 12) data_len im = Some im'" "img_ok b im'"
        using img3_tag_ok [of "off + 12" data_len b im magic] 1(2,3) by auto
      have "\<exists>st im''. img3_tags b (off + unat total) end' im' = Some (st, im'') \<and> img_ok b im''"
        using 1(1) [OF True refl] r good t 1(2) by auto
      then show ?thesis using True r good t by (subst img3_tags.simps) auto
    qed
  qed (use 1(3) in \<open>subst img3_tags.simps, auto\<close>)
qed

text \<open>
  C18:
  The container parser never reads outside its buffer, whatever the bytes: it always ends with a
  status, and the image it leaves has its payload inside the buffer, a NUL-terminated version
  string, and a key bag that is present only when it is well formed.
\<close>

theorem img3_parse_safe: "\<exists>st im. img3_parse b = Some (st, im) \<and> img_ok b im"
proof (cases "length b < 20")
  case True then show ?thesis by (simp add: img3_parse_def zero_img3_ok)
next
  case False
  then obtain magic full data signed ident where "rd32 b 0 = Some magic" "rd32 b 4 = Some full"
      "rd32 b 8 = Some data" "rd32 b 12 = Some signed" "rd32 b 16 = Some ident"
    using rd32_some [of 0 b] rd32_some [of 4 b] rd32_some [of 8 b] rd32_some [of 12 b]
      rd32_some [of 16 b] by auto
  then show ?thesis
    using False img3_tags_ok [of "unat full" b _ 20]
    by (auto simp: img3_parse_def zero_img3_ok Let_def)
qed

section \<open>A writer of containers\<close>

text \<open>A tag: its magic, payload and padding.\<close>

type_synonym tag = "u32 \<times> u8 list \<times> u8 list"

fun tag_bytes :: "tag \<Rightarrow> u8 list" where
  "tag_bytes (m, p, z) =
     le32 m @ le32 (of_nat (12 + length p + length z)) @ le32 (of_nat (length p)) @ p @ z"

definition body_bytes :: "tag list \<Rightarrow> u8 list" where
  "body_bytes ts = concat (map tag_bytes ts)"

definition container :: "u32 \<Rightarrow> u32 \<Rightarrow> tag list \<Rightarrow> u8 list" where
  "container ident sig ts =
     le32 0x496d6733 @ le32 (of_nat (20 + length (body_bytes ts))) @
     le32 (of_nat (length (body_bytes ts))) @ le32 sig @ le32 ident @ body_bytes ts"

text \<open>What the tags say: the last payload, the last signature, the first well-formed key bag.\<close>

definition data_of :: "tag list \<Rightarrow> u8 list option \<Rightarrow> u8 list option" where
  "data_of = fold (\<lambda>(m, p, z) a. if m = 0x44415441 then Some p else a)"

definition shsh_of :: "tag list \<Rightarrow> bool \<Rightarrow> bool" where
  "shsh_of = fold (\<lambda>(m, p, z) a. if m = 0x53485348 then p \<noteq> [] else a)"

definition kbag_of :: "tag list \<Rightarrow> img3_kbag \<Rightarrow> img3_kbag" where
  "kbag_of = fold (\<lambda>(m, p, z) k. if m = 0x4b424147 \<and> \<not> kb_present k
     then the (parse_kbag p 0 (of_nat (length p)) k) else k)"

definition payload :: "u8 list \<Rightarrow> img3 \<Rightarrow> u8 list option" where
  "payload b im = (case im_data im of None \<Rightarrow> None | Some off \<Rightarrow> slice b off (unat (im_data_len im)))"

lemma container_length:
  "length (tag_bytes (m, p, z)) = 12 + length p + length z"
  "length (container ident sig ts) = 20 + length (body_bytes ts)"
  by (simp_all add: container_def)

lemma rd32_inside:
  assumes "drop d b = p @ rest" "d \<le> length b" "i + 4 \<le> length p"
  shows "rd32 b (d + i) = rd32 p i"
proof -
  have "length b = d + length p + length rest"
    using arg_cong [OF assms(1), of length] assms(2) by simp
  have n: "b ! (d + j) = p ! j" if "j < length p" for j
    using arg_cong [OF assms(1), of "\<lambda>xs. xs ! j"] assms(2) that by (simp add: nth_append)
  show ?thesis
    using assms(3) n [of i] n [of "i + 1"] n [of "i + 2"] n [of "i + 3"] \<open>length b = _\<close>
    by (simp add: rd32_def add.assoc)
qed

lemma slice_inside:
  assumes "drop d b = p @ rest" "d \<le> length b" "i + n \<le> length p"
  shows "slice b (d + i) n = slice p i n"
proof -
  have "length b = d + length p + length rest"
    using arg_cong [OF assms(1), of length] assms(2) by simp
  moreover have "drop (d + i) b = drop i (p @ rest)"
    by (simp add: assms(1) [symmetric] add.commute)
  ultimately show ?thesis using assms(3) by (simp add: slice_def)
qed

lemma parse_kbag_inside:
  assumes "drop d b = p @ rest" "d \<le> length b" "length p < 4294967296"
  shows "parse_kbag b d (of_nat (length p)) k = parse_kbag p 0 (of_nat (length p)) k"
proof (cases "length p < 24")
  case False
  have n: "unat (of_nat (length p) :: u32) = length p" using assms(3) by (simp add: unat_of_nat)
  have "24 + l \<le> length p \<Longrightarrow> slice b (d + 24) l = slice p 24 l" for l
    using slice_inside [OF assms(1,2), of 24 l] by simp
  then show ?thesis
    using False rd32_inside [OF assms(1,2), of 0] rd32_inside [OF assms(1,2), of 4]
      slice_inside [OF assms(1,2), of 8 16] n
    by (simp add: parse_kbag_def word_less_nat_alt Let_def cong: if_cong)
qed (use assms(3) in \<open>simp add: parse_kbag_def word_less_nat_alt unat_of_nat\<close>)

text \<open>The parser on a written tag list: each tag's effect in turn.\<close>

fun noted :: "u8 list \<Rightarrow> nat \<Rightarrow> tag list \<Rightarrow> img3 \<Rightarrow> img3 option" where
  "noted b off [] im = Some im"
| "noted b off ((m, p, z) # ts) im =
     (case img3_tag b m (off + 12) (of_nat (length p)) im of
        None \<Rightarrow> None
      | Some im \<Rightarrow> noted b (off + 12 + length p + length z) ts im)"

lemma tags_noted:
  assumes "drop off b = body_bytes ts" "off \<le> length b" "length b < 4294967296"
  shows "img3_tags b off (length b) im = map_option (Pair IMG3_OK) (noted b off ts im)"
  using assms
proof (induction ts arbitrary: off im)
  case Nil
  then show ?case by (subst img3_tags.simps) (simp add: body_bytes_def)
next
  case (Cons t ts)
  obtain m p z where t: "t = (m, p, z)" by (rule prod_cases3)
  have d: "drop off b = tag_bytes (m, p, z) @ body_bytes ts"
    using Cons.prems(1) by (simp add: t body_bytes_def)
  have len: "length b = off + (12 + length p + length z) + length (body_bytes ts)"
    using arg_cong [OF d, of length] Cons.prems(2) by (simp add: container_length del: tag_bytes.simps)
  have r: "rd32 b off = Some m" "rd32 b (off + 4) = Some (of_nat (12 + length p + length z))"
      "rd32 b (off + 8) = Some (of_nat (length p))"
    using rd32_inside [OF d Cons.prems(2), of 0] rd32_inside [OF d Cons.prems(2), of 4]
      rd32_inside [OF d Cons.prems(2), of 8] rd32_le32 [of "[]" m] rd32_le32 [of "le32 m"]
      rd32_le32 [of "le32 m @ le32 (of_nat (12 + length p + length z))"]
    by simp_all
  have u: "unat (of_nat (12 + length p + length z) :: u32) = 12 + length p + length z"
      "unat (of_nat (length p) :: u32) = length p"
    using len Cons.prems(3) by (simp_all only: unat_of_nat) simp_all
  have d': "drop (off + (12 + length p + length z)) b = body_bytes ts"
    using arg_cong [OF d, of "drop (12 + length p + length z)"]
    by (simp add: container_length add.commute del: tag_bytes.simps)
  have "\<not> (of_nat (12 + length p + length z) :: u32) < 12"
    using u(1) unfolding word_less_nat_alt by simp
  then show ?case
    using Cons.IH [OF d' _ Cons.prems(3)] len u r
    by (subst img3_tags.simps) (simp add: t add.assoc split: option.splits)
qed

lemma parse_container:
  assumes "20 + length (body_bytes ts) < 4294967296"
  shows "\<exists>im0. img3_parse (container ident sig ts) =
      map_option (Pair IMG3_OK) (noted (container ident sig ts) 20 ts im0) \<and>
    im_ident im0 = ident \<and> im_data im0 = None \<and> im_kbag im0 = zero_kbag \<and>
    \<not> im_has_shsh im0 \<and> img_ok (container ident sig ts) im0"
proof -
  let ?b = "container ident sig ts" and ?n = "length (body_bytes ts)"
  have len: "length ?b = 20 + ?n" by (rule container_length)
  have u: "unat (of_nat (20 + ?n) :: u32) = 20 + ?n" "unat (of_nat ?n :: u32) = ?n"
    using assms by (simp_all only: unat_of_nat) simp_all
  have r: "rd32 ?b 0 = Some 0x496d6733" "rd32 ?b 4 = Some (of_nat (20 + ?n))"
      "rd32 ?b 8 = Some (of_nat ?n)" "rd32 ?b 12 = Some sig" "rd32 ?b 16 = Some ident"
    using rd32_le32 [of "[]"] rd32_le32 [of "le32 0x496d6733"]
      rd32_le32 [of "le32 0x496d6733 @ le32 (of_nat (20 + ?n))"]
      rd32_le32 [of "le32 0x496d6733 @ le32 (of_nat (20 + ?n)) @ le32 (of_nat ?n)"]
      rd32_le32 [of "le32 0x496d6733 @ le32 (of_nat (20 + ?n)) @ le32 (of_nat ?n) @ le32 sig"]
    by (simp_all add: container_def)
  have d: "drop 20 ?b = body_bytes ts" by (simp add: container_def)
  let ?im = "zero_img3\<lparr>im_full_size := of_nat (20 + ?n), im_data_size := of_nat ?n,
      im_signed_size := sig, im_ident := ident\<rparr>"
  have "\<not> (of_nat (20 + ?n) :: u32) < 20" using u(1) unfolding word_less_nat_alt by simp
  then have "img3_parse ?b = img3_tags ?b 20 (length ?b) ?im"
    using r u len by (simp add: img3_parse_def Let_def)
  also have "\<dots> = map_option (Pair IMG3_OK) (noted ?b 20 ts ?im)"
    using assms len by (intro tags_noted d) simp_all
  finally show ?thesis using zero_img3_ok(1) [of ?b]
    by (intro exI [of _ ?im]) (simp add: zero_img3_def)
qed

lemma tag_effect:
  assumes d: "drop d b = p @ rest" "d \<le> length b" and "length b < 4294967296" and ok: "img_ok b im"
  shows "\<exists>im'. img3_tag b m d (of_nat (length p)) im = Some im' \<and> img_ok b im' \<and>
    im_ident im' = im_ident im \<and>
    payload b im' = (if m = 0x44415441 then Some p else payload b im) \<and>
    im_has_shsh im' = (if m = 0x53485348 then p \<noteq> [] else im_has_shsh im) \<and>
    im_kbag im' = (if m = 0x4b424147 \<and> \<not> kb_present (im_kbag im)
      then the (parse_kbag p 0 (of_nat (length p)) (im_kbag im)) else im_kbag im)"
proof -
  have len: "d + length p \<le> length b"
    using arg_cong [OF d(1), of length] d(2) by simp
  then have u: "unat (of_nat (length p) :: u32) = length p" using assms(3) by (simp add: unat_of_nat)
  obtain im' where im': "img3_tag b m d (of_nat (length p)) im = Some im'" "img_ok b im'"
    using img3_tag_ok [of d "of_nat (length p)" b im m] ok len u by auto
  have "slice b d (length p) = Some p" using d by (intro slice_at) simp_all
  moreover have "(of_nat (length p) :: u32) > 0 \<longleftrightarrow> p \<noteq> []"
    using u by (auto simp: word_less_nat_alt)
  moreover have "parse_kbag b d (of_nat (length p)) k = parse_kbag p 0 (of_nat (length p)) k" for k
    using d len assms(3) by (intro parse_kbag_inside) simp_all
  ultimately show ?thesis
    using im' u by (auto simp: img3_tag_def payload_def split: if_splits cong: option.case_cong)
qed

lemma noted_effects:
  assumes "drop off b = body_bytes ts" "off \<le> length b" "length b < 4294967296" "img_ok b im"
  shows "\<exists>im'. noted b off ts im = Some im' \<and> im_ident im' = im_ident im \<and>
    payload b im' = data_of ts (payload b im) \<and> im_has_shsh im' = shsh_of ts (im_has_shsh im) \<and>
    im_kbag im' = kbag_of ts (im_kbag im)"
  using assms
proof (induction ts arbitrary: off im)
  case Nil then show ?case by (simp add: data_of_def shsh_of_def kbag_of_def)
next
  case (Cons t ts)
  obtain m p z where t: "t = (m, p, z)" by (rule prod_cases3)
  have d: "drop off b = tag_bytes (m, p, z) @ body_bytes ts"
    using Cons.prems(1) by (simp add: t body_bytes_def)
  have len: "length b = off + (12 + length p + length z) + length (body_bytes ts)"
    using arg_cong [OF d, of length] Cons.prems(2) by (simp add: container_length del: tag_bytes.simps)
  have d12: "drop (off + 12) b = p @ (z @ body_bytes ts)"
    using arg_cong [OF d, of "drop 12"] by (simp add: add.commute)
  have d': "drop (off + 12 + length p + length z) b = body_bytes ts"
    using arg_cong [OF d12, of "drop (length p + length z)"] by (simp add: ac_simps)
  obtain im' where im': "img3_tag b m (off + 12) (of_nat (length p)) im = Some im'" "img_ok b im'"
    "im_ident im' = im_ident im"
    "payload b im' = (if m = 0x44415441 then Some p else payload b im)"
    "im_has_shsh im' = (if m = 0x53485348 then p \<noteq> [] else im_has_shsh im)"
    "im_kbag im' = (if m = 0x4b424147 \<and> \<not> kb_present (im_kbag im)
      then the (parse_kbag p 0 (of_nat (length p)) (im_kbag im)) else im_kbag im)"
    using tag_effect [OF d12 _ Cons.prems(3,4), of m] len by auto
  show ?case
    using Cons.IH [OF d' _ Cons.prems(3) im'(2)] len im'(1,3-6)
    by (simp add: t data_of_def shsh_of_def kbag_of_def)
qed

lemma container_reads_back:
  assumes "20 + length (body_bytes ts) < 4294967296"
  shows "\<exists>im. img3_parse (container ident sig ts) = Some (IMG3_OK, im) \<and>
    im_ident im = ident \<and> payload (container ident sig ts) im = data_of ts None \<and>
    im_has_shsh im = shsh_of ts False \<and> im_kbag im = kbag_of ts zero_kbag"
proof -
  let ?b = "container ident sig ts"
  obtain im0 where im0: "img3_parse ?b = map_option (Pair IMG3_OK) (noted ?b 20 ts im0)"
    "im_ident im0 = ident" "im_data im0 = None" "im_kbag im0 = zero_kbag" "\<not> im_has_shsh im0"
    "img_ok ?b im0"
    using parse_container [OF assms, of ident sig] by blast
  have "drop 20 ?b = body_bytes ts" by (simp add: container_def)
  from noted_effects [OF this _ _ im0(6)] obtain im where "noted ?b 20 ts im0 = Some im"
    "im_ident im = ident" "payload ?b im = data_of ts (payload ?b im0)"
    "im_has_shsh im = shsh_of ts False" "im_kbag im = kbag_of ts zero_kbag"
    using assms im0 by (auto simp: container_length)
  then show ?thesis using im0 by (auto simp: payload_def)
qed

section \<open>An encrypted image\<close>

text \<open>The payload as it is sealed: whole blocks by CBC, the rest verbatim; and its key bag.\<close>

definition sealed :: "aes_ctx \<Rightarrow> u8 list \<Rightarrow> u8 list \<Rightarrow> u8 list" where
  "sealed c iv plain =
     (let k = length plain div 16
      in cbc_enc_spec (aes_encrypt_block c) iv k (take (16 * k) plain) @ drop (16 * k) plain)"

definition kbag_bytes :: "u32 \<Rightarrow> u8 list \<Rightarrow> u8 list \<Rightarrow> u8 list" where
  "kbag_bytes crypt kiv kkey = le32 crypt @ le32 (of_nat (8 * length kkey)) @ kiv @ kkey"

lemma parse_kbag_bytes:
  assumes "length kiv = 16" and "length kkey \<in> {16, 24, 32}"
  shows "\<exists>k. parse_kbag (kbag_bytes crypt kiv kkey) 0 (of_nat (length (kbag_bytes crypt kiv kkey))) k0 = Some k \<and>
    kb_present k \<and> \<not> kb_malformed k \<and> unat (kb_key_bits k) = 8 * length kkey"
proof -
  let ?b = "kbag_bytes crypt kiv kkey"
  have "rd32 ?b 0 = Some crypt" "rd32 ?b 4 = Some (of_nat (8 * length kkey))"
      "slice ?b 8 16 = Some kiv" "slice ?b 24 (length kkey) = Some kkey"
    using rd32_le32 [of "[]" crypt] rd32_le32 [of "le32 crypt"] assms(1)
    by (simp_all add: kbag_bytes_def slice_def)
  moreover have "length ?b = 24 + length kkey" using assms(1) by (simp add: kbag_bytes_def)
  ultimately show ?thesis using assms(2) by (auto simp: parse_kbag_def Let_def)
qed

lemma of_Cons:
  "data_of ((m, p, z) # ts) a = data_of ts (if m = 0x44415441 then Some p else a)"
  "kbag_of ((m, p, z) # ts) k = kbag_of ts (if m = 0x4b424147 \<and> \<not> kb_present k
     then the (parse_kbag p 0 (of_nat (length p)) k) else k)"
  by (simp_all add: data_of_def kbag_of_def)

lemma of_absent:
  "0x44415441 \<notin> fst ` set ts \<Longrightarrow> data_of ts a = a"
  "0x4b424147 \<notin> fst ` set ts \<Longrightarrow> kbag_of ts k = k"
proof (induction ts arbitrary: a k)
  case Nil { case 1 show ?case by (simp add: data_of_def) next case 2 show ?case by (simp add: kbag_of_def) }
next
  case (Cons t ts)
  { case 1 then show ?case using Cons.IH(1) by (cases t) (auto simp: of_Cons) }
  { case 2 then show ?case using Cons.IH(2) by (cases t) (auto simp: of_Cons) }
qed

lemma of_distinct:
  "distinct (map fst ts) \<Longrightarrow> (0x44415441, p, z) \<in> set ts \<Longrightarrow> data_of ts a = Some p"
  "distinct (map fst ts) \<Longrightarrow> (0x4b424147, p, z) \<in> set ts \<Longrightarrow> \<not> kb_present k \<Longrightarrow>
   kbag_of ts k = the (parse_kbag p 0 (of_nat (length p)) k)"
proof (induction ts arbitrary: a k)
  case (Cons t ts)
  obtain m q y where t: "t = (m, q, y)" by (rule prod_cases3)
  { case 1
    then show ?case
      using Cons.IH(1) of_absent(1) [of ts] by (cases "m = 0x44415441") (force simp: t of_Cons)+ }
  { case 2
    then show ?case
      using Cons.IH(2) of_absent(2) [of ts] by (cases "m = 0x4b424147") (force simp: t of_Cons)+ }
qed simp_all

lemma unat_align16: "unat (x AND NOT 15) = 16 * (unat x div 16)" for x :: u32
proof -
  have "x AND NOT (mask 4) = push_bit 4 (drop_bit 4 x)"
    by (rule bit_word_eqI) (auto simp: bit_simps)
  then have "x AND NOT 15 = push_bit 4 (drop_bit 4 x)" by (simp add: mask_eq_exp_minus_1)
  then have "unat (x AND NOT 15) = unat (drop_bit 4 x) * 16 mod 4294967296"
    by (simp add: push_bit_eq_mult unat_word_ariths)
  moreover have "unat (drop_bit 4 x) = unat x div 16"
    by (simp add: drop_bit_eq_div unat_div)
  ultimately show ?thesis using unat_u32_less [of x] by (simp add: mult.commute)
qed

lemma rd_slice: "rd m base (length b) = b \<Longrightarrow> slice b off n = Some p \<Longrightarrow> rd m (base + off) n = p"
  by (auto simp: slice_def split: if_splits intro!: nth_equalityI)
    (metis add.assoc nth_drop rd_nth add_less_cancel_left order.strict_trans2)

lemma unseal:
  assumes ap: "same_or_apart p q n" and n: "n = length plain" and iv: "length iv = 16"
    and src: "rd m p n = sealed c iv plain"
  defines "w \<equiv> 16 * (n div 16)"
  defines "m1 \<equiv> cbc_decrypt_loop (aes_decrypt_block c) iv m p q 0 w"
  shows "rd (wr m1 (q + w) (rd m1 (p + w) (n - w))) q n = plain"
proof -
  let ?k = "n div 16"
  let ?e = "cbc_enc_spec (aes_encrypt_block c) iv ?k (take w plain)"
  have w: "w \<le> n" by (simp add: w_def)
  have e: "length ?e = w" using iv n w aes.enc_spec_length [of iv "take w plain" ?k c] by (simp add: w_def)
  have s: "sealed c iv plain = ?e @ drop w plain" by (simp add: sealed_def n w_def Let_def)
  have "rd m p n = rd m p w @ rd m (p + w) (n - w)" using rd_add [of m p w "n - w"] w by simp
  then have parts: "rd m p w = ?e" "rd m (p + w) (n - w) = drop w plain"
    using src s e by (simp_all add: append_eq_append_conv)
  have "same_or_apart p q (0 + 16 * ?k)" using ap w by (auto simp: same_or_apart_def w_def)
  from aes.decrypt_loop_spec [OF this iv, of c m] have "m1 = wr m q (take w plain)"
    using aes.spec_roundtrip [of iv "take w plain" ?k c] iv n parts(1) by (simp add: m1_def w_def)
  moreover have "rd (wr m q (take w plain)) (p + w) (n - w) = rd m (p + w) (n - w)"
    using ap w n by (intro rd_cong) (auto simp: wr_def same_or_apart_def)
  ultimately show ?thesis
    using parts(2) w n wr_append [of m q "take w plain" "drop w plain"] rd_wr [of m q plain] by simp
qed

lemma sealed_length: "length iv = 16 \<Longrightarrow> length (sealed c iv plain) = length plain"
  using aes.enc_spec_length [of iv "take (16 * (length plain div 16)) plain" "length plain div 16" c]
  by (simp add: sealed_def Let_def)

lemma slice_length: "slice b off n = Some p \<Longrightarrow> length p = n \<and> off + n \<le> length b"
  by (auto simp: slice_def split: if_splits)

lemma decrypts_sealed:
  assumes d: "im_data im = Some off" "slice b off (unat (im_data_len im)) = Some (sealed c iv plain)"
    and k: "kb_present (im_kbag im)" "\<not> kb_malformed (im_kbag im)" "unat (kb_key_bits (im_kbag im)) = bits"
    and init: "aes_init \<lparr>rk = replicate 60 0, rounds = 0\<rparr> key bits = (True, c)"
    and iv: "length iv = 16" and mem: "rd m base (length b) = b"
    and ap: "same_or_apart (base + off) out (length plain)" and cap: "length plain \<le> cap"
  shows "\<exists>m2. img3_decrypt_data_iv m base im key bits iv out cap = Some (m2, of_nat (length plain)) \<and>
    rd m2 out (length plain) = plain"
proof -
  let ?n = "length plain"
  let ?w = "16 * (?n div 16)"
  have len: "unat (im_data_len im) = ?n" using slice_length [OF d(2)] iv by (simp add: sealed_length)
  have src: "rd m (base + off) ?n = sealed c iv plain" using rd_slice [OF mem d(2)] by (simp add: len)
  define m1 where "m1 = cbc_decrypt_loop (aes_decrypt_block c) iv m (base + off) out 0 ?w"
  have cbc: "aes_cbc_decrypt c iv m (base + off) out ?w = (True, m1)"
    by (simp add: aes_cbc_decrypt_def m1_def)
  have m0: "m1 = m" if "?w = 0" using that by (simp add: m1_def cbc_decrypt_loop.simps)
  have tail: "wr m1 (out + ?w) (rd m1 (base + off + ?w) (?n - ?w)) = m1" if "?n - ?w = 0"
    unfolding that by (simp add: rd_def)
  have "img3_decrypt_data_iv m base im key bits iv out cap =
      Some (wr m1 (out + ?w) (rd m1 (base + off + ?w) (?n - ?w)), im_data_len im)"
    using d(1) k init cap m0 tail
    by (simp add: img3_decrypt_data_iv_def Let_def len unat_align16 [simplified] cbc)
  moreover have "im_data_len im = of_nat ?n" by (simp flip: len)
  ultimately show ?thesis
    using unseal [OF ap refl iv src] by (simp add: m1_def)
qed

text \<open>
  C14:
  An encrypted firmware image decrypts. Take any container written with distinct tags, one of them
  the AES-CBC sealed payload and one a key bag for the key's size. The parser accepts it, and
  decryption with the key and IV into a buffer apart from the image writes the plaintext,
  unaligned tail included, and reports its length.
\<close>

theorem encrypted_image_decrypts:
  assumes fits: "20 + length (body_bytes ts) < 4294967296" and ts: "distinct (map fst ts)"
      "(0x44415441, sealed c iv plain, z1) \<in> set ts"
      "(0x4b424147, kbag_bytes crypt kiv kkey, z2) \<in> set ts"
    and keys: "length kiv = 16" "length kkey = length key" "length key \<in> {16, 24, 32}"
    and init: "aes_init \<lparr>rk = replicate 60 0, rounds = 0\<rparr> key (8 * length key) = (True, c)"
    and iv: "length iv = 16"
    and mem: "rd m base (length (container ident sig ts)) = container ident sig ts"
    and out: "out + length plain \<le> base \<or> base + length (container ident sig ts) \<le> out"
    and cap: "length plain \<le> cap"
  shows "\<exists>im m2. img3_parse (container ident sig ts) = Some (IMG3_OK, im) \<and>
    img3_decrypt_data_iv m base im key (8 * length key) iv out cap = Some (m2, of_nat (length plain)) \<and>
    rd m2 out (length plain) = plain"
proof -
  let ?b = "container ident sig ts"
  obtain im where im: "img3_parse ?b = Some (IMG3_OK, im)" "payload ?b im = data_of ts None"
      "im_kbag im = kbag_of ts zero_kbag"
    using container_reads_back [OF fits, of ident sig] by blast
  have "payload ?b im = Some (sealed c iv plain)" using im(2) of_distinct(1) [OF ts(1,2)] by simp
  then obtain off where d: "im_data im = Some off"
      "slice ?b off (unat (im_data_len im)) = Some (sealed c iv plain)"
    by (auto simp: payload_def split: option.splits)
  have "\<not> kb_present zero_kbag" by (simp add: zero_kbag_def)
  then have k: "kb_present (im_kbag im)" "\<not> kb_malformed (im_kbag im)"
      "unat (kb_key_bits (im_kbag im)) = 8 * length key"
    using of_distinct(2) [OF ts(1,3), of zero_kbag] parse_kbag_bytes [of kiv kkey crypt zero_kbag]
      keys im(3) by auto
  have "same_or_apart (base + off) out (length plain)"
    using slice_length [OF d(2)] sealed_length [OF iv, of c plain] out by (auto simp: same_or_apart_def)
  from decrypts_sealed [OF d k init iv mem this cap] im(1) show ?thesis by blast
qed

text \<open>A 20-byte payload under the all-zero key, its image at address 0, decrypted at 4096.\<close>

definition demo_tags :: "tag list" where
  "demo_tags =
     [(0x44415441, sealed zero_ctx (replicate 16 7) (replicate 20 65), [0, 0]),
      (0x4b424147, kbag_bytes 1 (replicate 16 1) (replicate 16 2), []), (0x53485348, [1], [])]"

lemma demo_tags_length: "length (body_bytes demo_tags) = 99"
  by (simp add: demo_tags_def body_bytes_def sealed_length kbag_bytes_def)

lemma encrypted_image_decrypts_witness:
  "let img = container 0x6b726e6c 0 demo_tags; m = wr (\<lambda>_. 0) 0 img
   in \<exists>im m2. img3_parse img = Some (IMG3_OK, im) \<and>
        img3_decrypt_data_iv m 0 im (replicate 16 0) 128 (replicate 16 7) 4096 20 = Some (m2, 20) \<and>
        rd m2 4096 20 = replicate 20 65"
proof -
  let ?img = "container 0x6b726e6c 0 demo_tags"
  have "aes_init \<lparr>rk = replicate 60 0, rounds = 0\<rparr> (replicate 16 0) (8 * length (replicate 16 (0 :: u8))) =
      (True, zero_ctx)"
    by (simp add: zero_ctx_def aes_init_def Let_def)
  from encrypted_image_decrypts [where ts = demo_tags and kkey = "replicate 16 2" and
      kiv = "replicate 16 1" and plain = "replicate 20 65" and iv = "replicate 16 7" and ident = "0x6b726e6c"
      and sig = 0 and base = 0 and out = 4096 and cap = 20 and crypt = 1 and m = "wr (\<lambda>_. 0) 0 ?img",
      OF _ _ _ _ _ _ _ this]
  show ?thesis
    using rd_wr [of "\<lambda>_. 0" 0 ?img]
    by (simp add: demo_tags_length container_length) (simp add: demo_tags_def Let_def)
qed

end
