(* ===== verification/Lzss.thy ===== *)
theory Lzss
  imports Prelude
begin

text \<open>
  LZSS decompression (core/src/firmware/lzss.c) of a kernelcache payload. The source is the list
  of bytes not yet read, the destination the list of bytes written, and the ring the 4113-byte
  array of the code, whose last 35 bytes are uninitialised on entry: they are the argument
  \<open>junk\<close>. The lemmas relate the ring to a sliding window: the routine decodes what an LZ77
  encoder with distances and lengths means.
\<close>

unbundle bit_operations_syntax

section \<open>The code\<close>

definition rd32be :: "u8 list \<Rightarrow> nat \<Rightarrow> u32" where
  "rd32be b p = shl (ucast (b ! p)) 24 OR shl (ucast (b ! (p + 1))) 16 OR
     shl (ucast (b ! (p + 2))) 8 OR ucast (b ! (p + 3))"

record lzss_header =
  adler32 :: u32
  uncompressed_size :: u32
  compressed_size :: u32

definition lzss_parse_header :: "u8 list \<Rightarrow> lzss_header option" where
  "lzss_parse_header buf =
     (if length buf < 0x180 then None
      else if rd32be buf 0 \<noteq> 0x636f6d70 then None
      else if rd32be buf 4 \<noteq> 0x6c7a7373 then None
      else
        let adler = rd32be buf 8; unc = rd32be buf 12; cmp = rd32be buf 16
        in if 0x180 + unat cmp > length buf then None
           else Some \<lparr>adler32 = adler, uncompressed_size = unc, compressed_size = cmp\<rparr>)"

record lz_state =
  lz_src :: "u8 list"
  lz_flags :: u32
  lz_r :: nat
  lz_ring :: "u8 list"
  lz_out :: "u8 list"

definition lz_emit :: "u8 \<Rightarrow> lz_state \<Rightarrow> lz_state" where
  "lz_emit c s =
     s\<lparr>lz_out := lz_out s @ [c], lz_ring := (lz_ring s)[lz_r s := c],
       lz_r := unat ((of_nat (lz_r s) + 1 :: u32) AND 4095)\<rparr>"

text \<open>
  The copy loop of a back-reference, \<open>n\<close> iterations left. \<open>Inl\<close> is leaving the routine,
  \<open>Inr\<close> going on.
\<close>

fun lz_copy :: "nat \<Rightarrow> u32 \<Rightarrow> nat \<Rightarrow> nat \<Rightarrow> lz_state \<Rightarrow> lz_state + lz_state" where
  "lz_copy cap i k 0 s = Inr s"
| "lz_copy cap i k (Suc n) s =
     (let c = lz_ring s ! unat ((i + of_nat k) AND 4095)
      in if length (lz_out s) \<ge> cap then Inl s else lz_copy cap i (k + 1) n (lz_emit c s))"

text \<open>One flag byte governs the next eight items.\<close>

definition lz_reload :: "lz_state \<Rightarrow> lz_state option" where
  "lz_reload s =
     (let f = shr (lz_flags s) 1
      in if f AND 0x100 = 0 then
           (case lz_src s of
              [] \<Rightarrow> None
            | b # src \<Rightarrow> Some (s\<lparr>lz_flags := ucast b OR 0xff00, lz_src := src\<rparr>))
         else Some (s\<lparr>lz_flags := f\<rparr>))"

definition lz_item :: "nat \<Rightarrow> lz_state \<Rightarrow> lz_state + lz_state" where
  "lz_item cap s =
     (if lz_flags s AND 1 \<noteq> 0 then
        (case lz_src s of
           [] \<Rightarrow> Inl s
         | c # src \<Rightarrow>
             if length (lz_out s) \<ge> cap then Inl s else Inr (lz_emit c (s\<lparr>lz_src := src\<rparr>)))
      else
        (case lz_src s of
           b0 # b1 # src \<Rightarrow>
             let i = ucast b0 OR shl (ucast b1 AND 0xf0) 4;
                 j = (ucast b1 AND 0xf) + 2 :: u32
             in lz_copy cap i 0 (unat j + 1) (s\<lparr>lz_src := src\<rparr>)
         | _ \<Rightarrow> Inl s))"

definition lz_iter :: "nat \<Rightarrow> lz_state \<Rightarrow> lz_state + lz_state" where
  "lz_iter cap s = (case lz_reload s of None \<Rightarrow> Inl s | Some s \<Rightarrow> lz_item cap s)"

lemma lz_copy_src:
  "lz_copy cap i k n s = Inr t \<Longrightarrow> lz_src t = lz_src s \<and> lz_flags t = lz_flags s"
  by (induction cap i k n s rule: lz_copy.induct) (auto simp: lz_emit_def Let_def split: if_splits)

lemma lz_iter_shrinks: "lz_iter cap s = Inr t \<Longrightarrow> length (lz_src t) < length (lz_src s)"
  by (auto simp: lz_iter_def lz_reload_def lz_item_def lz_emit_def Let_def dest!: lz_copy_src
      split: option.splits if_splits list.splits)

function lz_loop :: "nat \<Rightarrow> lz_state \<Rightarrow> lz_state" where
  "lz_loop cap s = (case lz_iter cap s of Inl t \<Rightarrow> t | Inr t \<Rightarrow> lz_loop cap t)"
  by pat_completeness auto
termination
  by (relation "measure (\<lambda>(_, s). length (lz_src s))") (simp_all add: lz_iter_shrinks)

declare lz_loop.simps [simp del]

definition lz_start :: "u8 list \<Rightarrow> u8 list \<Rightarrow> lz_state" where
  "lz_start junk src =
     \<lparr>lz_src = src, lz_flags = 0, lz_r = 4078, lz_ring = replicate 4078 0x20 @ junk, lz_out = []\<rparr>"

text \<open>The bytes written to the destination; the C function returns their number.\<close>

definition lzss_decompress :: "u8 list \<Rightarrow> nat \<Rightarrow> u8 list \<Rightarrow> u8 list" where
  "lzss_decompress junk dstcap src = lz_out (lz_loop dstcap (lz_start junk src))"

definition lzss_adler32 :: "u8 list \<Rightarrow> u32" where
  "lzss_adler32 data =
     (let (a, b) = fold (\<lambda>x (a, b). let a = (a + ucast x) mod 65521 in (a, (b + a) mod 65521))
        data (1, 0)
      in shl b 16 OR a)"

section \<open>What a stream means\<close>

text \<open>
  LZ77: a literal, or the repetition of \<open>n\<close> bytes starting \<open>d\<close> bytes before the end of the
  text. The text begins with the window that precedes the output.
\<close>

datatype token = Lit u8 | Back nat nat

fun repeat_back :: "nat \<Rightarrow> nat \<Rightarrow> u8 list \<Rightarrow> u8 list" where
  "repeat_back d 0 hist = hist"
| "repeat_back d (Suc n) hist = repeat_back d n (hist @ [hist ! (length hist - d)])"

fun lz77 :: "token list \<Rightarrow> u8 list \<Rightarrow> u8 list" where
  "lz77 [] hist = hist"
| "lz77 (Lit c # ts) hist = lz77 ts (hist @ [c])"
| "lz77 (Back d n # ts) hist = lz77 ts (repeat_back d n hist)"

fun token_ok :: "token \<Rightarrow> bool" where
  "token_ok (Lit c) = True"
| "token_ok (Back d n) = (1 \<le> d \<and> d \<le> 4096 \<and> 3 \<le> n \<and> n \<le> 18)"

fun token_size :: "token \<Rightarrow> nat" where
  "token_size (Lit c) = 1"
| "token_size (Back d n) = n"

text \<open>
  The byte format: \<open>n\<close> bytes of output precede the item. A back-reference holds the ring slot
  of its first byte in 12 bits and the length less 3 in 4.
\<close>

definition ring_slot :: "nat \<Rightarrow> nat \<Rightarrow> nat" where
  "ring_slot n d = (n + 4096 + 4078 - d) mod 4096"

fun item_bytes :: "nat \<Rightarrow> token \<Rightarrow> u8 list" where
  "item_bytes n (Lit c) = [c]"
| "item_bytes n (Back d k) =
     (let i = ring_slot n d in [of_nat (i mod 256), of_nat (i div 256 * 16 + (k - 3))])"

fun items_bytes :: "nat \<Rightarrow> token list \<Rightarrow> u8 list" where
  "items_bytes n [] = []"
| "items_bytes n (t # ts) = item_bytes n t @ items_bytes (n + token_size t) ts"

fun is_lit :: "token \<Rightarrow> bool" where
  "is_lit (Lit c) = True"
| "is_lit (Back d n) = False"

definition flag_byte :: "token list \<Rightarrow> u8" where
  "flag_byte ts = horner_sum of_bool 2 (map is_lit (take 8 ts))"

fun lzss_encode :: "nat \<Rightarrow> token list \<Rightarrow> u8 list" where
  "lzss_encode n [] = []"
| "lzss_encode n (t # ts) =
     (let g = take 8 (t # ts)
      in flag_byte g # items_bytes n g @
         lzss_encode (n + sum_list (map token_size g)) (drop 7 ts))"

section \<open>The ring is a sliding window\<close>

text \<open>
  \<open>tracks hist s\<close>: the ring of state \<open>s\<close> holds the last 4096 bytes of \<open>hist\<close>, and the output is
  the text after its initial window.
\<close>

definition tracks :: "u8 list \<Rightarrow> lz_state \<Rightarrow> bool" where
  "tracks hist s \<longleftrightarrow>
     4096 \<le> length hist \<and> lz_out s = drop 4096 hist \<and> length (lz_ring s) = 4113 \<and>
     lz_r s = (length hist + 4078) mod 4096 \<and>
     (\<forall>t. length hist \<le> t + 4096 \<longrightarrow> t < length hist \<longrightarrow>
        lz_ring s ! ((t + 4078) mod 4096) = hist ! t)"

lemma unat_and_4095: "unat (x AND 4095) = unat x mod 4096" for x :: u32
  using take_bit_eq_mask [of 12 "unat x"]
  by (simp add: mask_eq_exp_minus_1 take_bit_eq_mod unsigned_and_eq)

lemma unat_ring_step:
  assumes "a < 4096" and "k < 4096"
  shows "unat ((of_nat a + of_nat k :: u32) AND 4095) = (a + k) mod 4096"
  using assms by (simp add: unat_and_4095 unat_word_ariths unat_of_nat)

lemma slot_distinct:
  assumes "t < (n :: nat)" "n < t + 4096"
  shows "(t + 4078) mod 4096 \<noteq> (n + 4078) mod 4096"
  using assms mod_eq_dvd_iff_nat [of "t + 4078" "n + 4078" 4096] by (auto dest: dvd_imp_le)

lemma tracks_emit:
  assumes "tracks hist s" shows "tracks (hist @ [c]) (lz_emit c s)"
proof -
  let ?n = "length hist"
  have r: "lz_r s = (?n + 4078) mod 4096" and l: "length (lz_ring s) = 4113"
    using assms by (simp_all add: tracks_def)
  have ring: "lz_ring (lz_emit c s) ! ((t + 4078) mod 4096) = (hist @ [c]) ! t"
    if t: "Suc ?n \<le> t + 4096" "t \<le> ?n" for t
  proof (cases "t = ?n")
    case True
    have "(?n + 4078) mod 4096 < 4113" by (rule less_trans [OF mod_less_divisor]) simp_all
    with True r l show ?thesis by (simp add: lz_emit_def nth_append)
  next
    case False
    then have "(t + 4078) mod 4096 \<noteq> lz_r s" using slot_distinct [of t ?n] t r by simp
    then show ?thesis using False t assms by (auto simp: lz_emit_def nth_append tracks_def)
  qed
  have "lz_r (lz_emit c s) = (Suc ?n + 4078) mod 4096"
    using unat_ring_step [of "(?n + 4078) mod 4096" 1] r
    by (simp add: lz_emit_def mod_Suc_eq)
  then show ?thesis using assms ring by (simp add: tracks_def lz_emit_def)
qed

lemma tracks_slot:
  assumes "tracks hist s" "1 \<le> d" "d \<le> 4096"
  shows "lz_ring s ! ((length hist + 4078 - d) mod 4096) = hist ! (length hist - d)"
proof -
  have "length hist \<le> length hist - d + 4096" "length hist - d < length hist"
    "length hist - d + 4078 = length hist + 4078 - d"
    using assms by (auto simp: tracks_def)
  then show ?thesis using assms(1) unfolding tracks_def by metis
qed

text \<open>A back-reference, up to the capacity of the destination.\<close>

lemma repeat_back_extends: "\<exists>y. repeat_back d n hist = hist @ y"
proof (induction d n hist rule: repeat_back.induct)
  case (2 d n hist)
  then obtain y where "repeat_back d n (hist @ [hist ! (length hist - d)]) =
      (hist @ [hist ! (length hist - d)]) @ y" by blast
  then show ?case by simp
qed simp

lemma lz77_extends: "\<exists>y. lz77 ts hist = hist @ y"
proof (induction ts hist rule: lz77.induct)
  case (3 d n ts hist)
  then show ?case using repeat_back_extends [of d n hist] by (metis append.assoc lz77.simps(3))
qed (auto simp: append_assoc)

text \<open>
  How a part of the loop may end: gone on with the text decoded, or the destination full with a
  prefix of it.
\<close>

definition decoded :: "nat \<Rightarrow> u8 list \<Rightarrow> u8 list \<Rightarrow> u32 \<Rightarrow> lz_state + lz_state \<Rightarrow> bool" where
  "decoded cap hist src f x =
     (case x of
        Inr s \<Rightarrow> tracks hist s \<and> lz_src s = src \<and> lz_flags s = f \<and> length (lz_out s) \<le> cap
      | Inl s \<Rightarrow> length (lz_out s) = cap \<and> (\<exists>y. drop 4096 hist = lz_out s @ y))"

lemma copy_decodes:
  assumes "tracks hist s" and "length (lz_out s) \<le> cap" and d: "1 \<le> d" "d \<le> 4096"
    and "k + n \<le> 4096" and "unat i < 4096"
    and "(unat i + k) mod 4096 = (length hist + 4078 - d) mod 4096"
  shows "decoded cap (repeat_back d n hist) (lz_src s) (lz_flags s) (lz_copy cap i k n s)"
  using assms(1,2,5,7)
proof (induction n arbitrary: k hist s)
  case 0 then show ?case by (simp add: decoded_def)
next
  case (Suc n)
  let ?c = "hist ! (length hist - d)"
  have "4096 \<le> length hist" using Suc.prems(1) by (simp add: tracks_def)
  have "lz_ring s ! unat ((i + of_nat k) AND 4095) = ?c"
    using unat_ring_step [of "unat i" k] tracks_slot [OF Suc.prems(1) d] Suc.prems(3,4) assms(6)
    by simp
  then have c: "lz_copy cap i k (Suc n) s =
      (if length (lz_out s) \<ge> cap then Inl s else lz_copy cap i (k + 1) n (lz_emit ?c s))"
    by (simp add: Let_def)
  show ?case
  proof (cases "length (lz_out s) \<ge> cap")
    case True
    obtain y where "repeat_back d (Suc n) hist = hist @ y" using repeat_back_extends by blast
    then show ?thesis using True Suc.prems(1,2) unfolding c by (simp add: decoded_def tracks_def)
  next
    case False
    have "(unat i + (k + 1)) mod 4096 = (length (hist @ [?c]) + 4078 - d) mod 4096"
    proof -
      have "Suc (length hist + 4078 - d) = length (hist @ [?c]) + 4078 - d"
        using d \<open>4096 \<le> length hist\<close> by simp
      then show ?thesis
        using arg_cong [OF Suc.prems(4), of "\<lambda>x. Suc x mod 4096"]
        by (simp only: mod_Suc_eq add_Suc_right add_0_right One_nat_def)
    qed
    then show ?thesis
      using Suc.IH [OF tracks_emit [OF Suc.prems(1)], of ?c "k + 1"] False Suc.prems(3)
      unfolding c by (simp add: lz_emit_def)
  qed
qed

text \<open>One item.\<close>

lemma nat_and_240: "m AND 240 = 16 * (m div 16 mod 16)" for m :: nat
proof -
  have "m AND push_bit 4 (mask 4) = push_bit 4 (drop_bit 4 m AND mask 4)"
    by (rule bit_eqI) (auto simp: bit_simps)
  then show ?thesis
    using take_bit_eq_mask [of 4 "m div 16"]
    by (simp add: mask_eq_exp_minus_1 push_bit_eq_mult drop_bit_eq_div take_bit_eq_mod mult.commute)
qed

lemma nat_or_split: "(i mod 256) OR (256 * (i div 256)) = i" for i :: nat
proof -
  have "take_bit 8 i OR push_bit 8 (drop_bit 8 i) = i"
    by (rule bit_eqI) (auto simp: bit_simps, metis le_add_diff_inverse not_less)
  then show ?thesis
    by (simp add: push_bit_eq_mult drop_bit_eq_div take_bit_eq_mod mult.commute)
qed

lemma nat_and_15: "m AND 15 = m mod 16" for m :: nat
  using take_bit_eq_mask [of 4 m] by (simp add: mask_eq_exp_minus_1 take_bit_eq_mod)

lemma byte_value: "m < 256 \<Longrightarrow> unat (ucast (of_nat m :: u8) :: u32) = m"
  by (simp add: unat_of_nat unsigned_ucast_eq take_bit_nat_eq_self)

lemma back_reference_bytes:
  assumes "ring_slot k d = i" and "3 \<le> n" "n \<le> 18"
  obtains b0 b1 where "item_bytes k (Back d n) = [b0, b1]"
    "unat (ucast b0 OR shl (ucast b1 AND 0xf0) 4 :: u32) = i"
    "unat ((ucast b1 AND 0xf) + 2 :: u32) + 1 = n"
proof -
  define v where "v = i div 256 * 16 + (n - 3)"
  have "i < 4096" using assms(1) by (auto simp: ring_slot_def)
  then have hi: "i div 256 < 16" by (simp add: less_mult_imp_div_less)
  obtain m where m: "n = m + 3" "m < 16" using that [of "n - 3"] assms(2,3) by simp
  have v: "v < 256" "v mod 16 = n - 3" "v div 16 = i div 256"
    using m hi by (simp_all add: v_def)
  have b0: "unat (ucast (of_nat (i mod 256) :: u8) :: u32) = i mod 256" by (rule byte_value) simp
  note b1 = byte_value [OF v(1)]
  have "unat (ucast (of_nat v :: u8) AND 0xf :: u32) = n - 3"
    using b1 v by (simp add: unsigned_and_eq nat_and_15)
  then have n: "unat ((ucast (of_nat v :: u8) AND 0xf) + 2 :: u32) + 1 = n"
    using assms(2,3) by (simp add: unat_word_ariths)
  have "unat (ucast (of_nat v :: u8) AND 0xf0 :: u32) = 16 * (i div 256)"
    using b1 v hi by (simp add: unsigned_and_eq nat_and_240)
  then have "unat (shl (ucast (of_nat v :: u8) AND 0xf0) 4 :: u32) = 256 * (i div 256)"
    using hi by (simp add: push_bit_eq_mult unat_word_ariths)
  then have "unat (ucast (of_nat (i mod 256) :: u8) OR shl (ucast (of_nat v :: u8) AND 0xf0) 4 :: u32) = i"
    by (simp only: unsigned_or_eq b0 nat_or_split)
  from that [OF _ this n] assms(1) show thesis by (simp only: item_bytes.simps Let_def v_def)
qed

lemma item_decodes:
  assumes tr: "tracks hist s" and cap: "length (lz_out s) \<le> cap" and ok: "token_ok t"
    and src: "lz_src s = item_bytes (length hist - 4096) t @ rest"
    and flag: "bit (lz_flags s) 0 = is_lit t"
  shows "decoded cap (lz77 [t] hist) rest (lz_flags s) (lz_item cap s)"
proof -
  have tr': "tracks hist (s\<lparr>lz_src := rest\<rparr>)" using tr by (simp add: tracks_def)
  have f: "lz_flags s AND 1 \<noteq> 0 \<longleftrightarrow> is_lit t"
    using flag by (simp add: and_one_eq bit_0 odd_iff_mod_2_eq_one)
  show ?thesis
  proof (cases t)
    case (Lit c)
    show ?thesis
      using cap src f tr tracks_emit [OF tr', of c]
      by (auto simp: Lit decoded_def lz_item_def lz_emit_def tracks_def)
  next
    case (Back d n)
    let ?i = "(length hist + 4078 - d) mod 4096"
    have d: "1 \<le> d" "d \<le> 4096" "3 \<le> n" "n \<le> 18" using ok by (simp_all add: Back)
    have "4096 \<le> length hist" using tr by (simp add: tracks_def)
    then have "ring_slot (length hist - 4096) d = ?i" by (simp add: ring_slot_def)
    then obtain b0 b1 where b: "item_bytes (length hist - 4096) t = [b0, b1]"
      "unat (ucast b0 OR shl (ucast b1 AND 0xf0) 4 :: u32) = ?i"
      "unat ((ucast b1 AND 0xf) + 2 :: u32) + 1 = n"
      using back_reference_bytes [of "length hist - 4096" d ?i n] d unfolding Back by blast
    have s: "lz_src s = b0 # b1 # rest" using src b(1) by simp
    have "\<not> is_lit t" by (simp add: Back)
    then have "lz_item cap s =
        lz_copy cap (ucast b0 OR shl (ucast b1 AND 0xf0) 4) 0 n (s\<lparr>lz_src := rest\<rparr>)"
      using f unfolding lz_item_def by (simp only: s b(3) Let_def list.case if_False simp_thms)
    then show ?thesis
      using copy_decodes [OF tr' _ d(1,2), of cap 0 n] d cap b(2) by (simp add: Back)
  qed
qed

text \<open>The items that one flag byte governs, and what follows them.\<close>

lemma lz77_append: "lz77 (a @ b) hist = lz77 b (lz77 a hist)"
  by (induction a hist rule: lz77.induct) simp_all

lemma repeat_back_length: "length (repeat_back d n hist) = length hist + n"
  by (induction d n hist rule: repeat_back.induct) simp_all

lemma lz77_length: "length (lz77 ts hist) = length hist + sum_list (map token_size ts)"
  by (induction ts hist rule: lz77.induct) (simp_all add: repeat_back_length)

lemma lz77_token_length: "length (lz77 [t] hist) = length hist + token_size t"
  by (cases t) (simp_all add: repeat_back_length)

lemma decoded_full:
  assumes "decoded cap (lz77 a hist) src f (Inl s)"
  shows "lz_out s = take cap (drop 4096 (lz77 (a @ b) hist))"
proof -
  obtain y z where "lz77 (a @ b) hist = lz77 a hist @ y" "drop 4096 (lz77 a hist) = lz_out s @ z"
    "length (lz_out s) = cap"
    using lz77_extends [of b "lz77 a hist"] assms by (auto simp: lz77_append decoded_def)
  moreover from this(2) have "length (lz_out s) + length z = length (lz77 a hist) - 4096"
    by (metis length_append length_drop)
  ultimately show ?thesis by simp
qed

lemma items_decode:
  assumes "g \<noteq> []" and "\<And>t. t \<in> set g \<Longrightarrow> token_ok t"
    and "\<And>j. j < length g \<Longrightarrow> bit F (k + j) = is_lit (g ! j)"
    and "\<And>j. 0 < j \<Longrightarrow> j < length g \<Longrightarrow> bit F (k + j + 8)"
    and "tracks hist u" "length (lz_out u) \<le> cap"
    and "lz_src u = items_bytes (length hist - 4096) g @ rest" "lz_flags u = shr F k"
    and "lz_reload s = Some u"
    and "\<And>v. tracks (lz77 g hist) v \<Longrightarrow> lz_src v = rest \<Longrightarrow> lz_flags v = shr F (k + length g - 1) \<Longrightarrow>
      length (lz_out v) \<le> cap \<Longrightarrow> lz_out (lz_loop cap v) = take cap (drop 4096 (lz77 ts (lz77 g hist)))"
  shows "lz_out (lz_loop cap s) = take cap (drop 4096 (lz77 (g @ ts) hist))"
  using assms
proof (induction g arbitrary: k hist u s)
  case (Cons t g)
  let ?hist = "lz77 [t] hist"
  have len: "4096 \<le> length hist" using Cons.prems(5) by (simp add: tracks_def)
  have "bit (lz_flags u) 0 = is_lit t"
    using Cons.prems(3) [of 0] Cons.prems(8) by (simp add: bit_simps)
  then have dec: "decoded cap ?hist (items_bytes (length ?hist - 4096) g @ rest) (shr F k) (lz_item cap u)"
    using item_decodes [OF Cons.prems(5,6), of t] Cons.prems(2,7,8) len
    by (simp add: lz77_token_length del: lz77.simps)
  have loop: "lz_loop cap s = (case lz_item cap u of Inl v \<Rightarrow> v | Inr v \<Rightarrow> lz_loop cap v)"
    by (subst lz_loop.simps) (simp add: lz_iter_def Cons.prems(9))
  show ?case
  proof (cases "lz_item cap u")
    case (Inl v)
    then show ?thesis using dec decoded_full [of cap "[t]" hist _ _ v "g @ ts"] loop by simp
  next
    case (Inr v)
    have v: "tracks ?hist v" "lz_src v = items_bytes (length ?hist - 4096) g @ rest"
        "lz_flags v = shr F k" "length (lz_out v) \<le> cap"
      using dec Inr by (simp_all add: decoded_def)
    have fwd: "lz77 (t # g) hist = lz77 g ?hist" "lz77 ((t # g) @ ts) hist = lz77 (g @ ts) ?hist"
      using lz77_append [of "[t]" g hist] lz77_append [of "[t]" "g @ ts" hist]
      by (simp_all only: append_Cons append_Nil)
    have next': "lz_out (lz_loop cap v) = take cap (drop 4096 (lz77 (g @ ts) ?hist))"
    proof (cases "g = []")
      case True
      have "lz_src v = rest" "lz_flags v = shr F (k + length (t # g) - 1)"
        using v(2,3) by (simp_all add: True)
      then have "lz_out (lz_loop cap v) = take cap (drop 4096 (lz77 ts (lz77 (t # g) hist)))"
        using v(1,4) by (intro Cons.prems(10)) (simp_all only: fwd(1) True lz77.simps(1))
      then show ?thesis by (simp only: fwd(1) True lz77.simps(1) append_Nil)
    next
      case False
      have "bit (shr (lz_flags v) 1) 8"
        using Cons.prems(4) [of 1] False v(3) by (simp add: bit_simps)
      then have "shr (lz_flags v) 1 AND 0x100 \<noteq> 0"
        using bit_iff_and_push_bit_not_eq_0 [of "shr (lz_flags v) 1" 8] by simp
      then have reload: "lz_reload v = Some (v\<lparr>lz_flags := shr F (k + 1)\<rparr>)"
        using v(3) by (simp add: lz_reload_def Let_def add.commute)
      show ?thesis
      proof (rule Cons.IH [OF False _ _ _ _ _ _ _ reload])
        show "bit F (k + 1 + j) = is_lit (g ! j)" if "j < length g" for j
          using Cons.prems(3) [of "Suc j"] that by simp
        show "bit F (k + 1 + j + 8)" if "0 < j" "j < length g" for j
          using Cons.prems(4) [of "Suc j"] that by simp
        show "lz_out (lz_loop cap w) = take cap (drop 4096 (lz77 ts (lz77 g ?hist)))"
          if "tracks (lz77 g ?hist) w" "lz_src w = rest" "lz_flags w = shr F (k + 1 + length g - 1)"
            "length (lz_out w) \<le> cap" for w
          using Cons.prems(10) [of w] that fwd(1) by simp
      qed (use v Cons.prems(2) in \<open>simp_all add: tracks_def\<close>)
    qed
    show ?thesis unfolding fwd(2) loop using Inr next' by simp
  qed
qed simp

lemma no_source: "lz_src s = [] \<Longrightarrow> lz_out (lz_loop cap s) = lz_out s"
  by (subst lz_loop.simps) (auto simp: lz_iter_def lz_reload_def lz_item_def Let_def split: if_splits)

lemma flag_byte_bit: "j < length g \<Longrightarrow> j < 8 \<Longrightarrow> bit (flag_byte g) j = is_lit (g ! j)"
  by (simp add: flag_byte_def bit_horner_sum_bit_word_iff)

lemma stream_decodes:
  assumes "\<And>t. t \<in> set ts \<Longrightarrow> token_ok t" and "tracks hist s" "length (lz_out s) \<le> cap"
    and "lz_src s = lzss_encode (length hist - 4096) ts" "shr (lz_flags s) 1 AND 0x100 = 0"
  shows "lz_out (lz_loop cap s) = take cap (drop 4096 (lz77 ts hist))"
  using assms
proof (induction "length hist - 4096" ts arbitrary: hist s rule: lzss_encode.induct)
  case 1
  then show ?case by (simp add: no_source tracks_def)
next
  case (2 t ts)
  define g where "g = take 8 (t # ts)"
  define rest where "rest = lzss_encode (length hist - 4096 + sum_list (map token_size g)) (drop 7 ts)"
  define F :: u32 where "F = ucast (flag_byte g) OR 0xff00"
  have sub: "set g \<subseteq> set (t # ts)" "set (drop 7 ts) \<subseteq> set (t # ts)"
    using set_take_subset [of 8 "t # ts"] set_drop_subset [of 7 ts] by (auto simp: g_def)
  have hist: "4096 \<le> length hist" using 2(3) by (simp add: tracks_def)
  have g8: "length g \<le> 8" by (simp add: g_def)
  have F: "bit F j = is_lit (g ! j)" if "j < length g" for j
  proof -
    have "bit (0xff00 :: u32) j = bit (push_bit 8 (mask 8) :: u32) j" by (simp add: mask_eq_exp_minus_1)
    then show ?thesis
      using that g8 flag_byte_bit [of j g]
      by (simp add: F_def bit_or_iff bit_ucast_iff bit_push_bit_iff)
  qed
  have F8: "bit F (j + 8)" if "j < 8" for j
  proof -
    have "bit (0xff00 :: u32) (j + 8) = bit (push_bit 8 (mask 8) :: u32) (j + 8)"
      by (simp add: mask_eq_exp_minus_1)
    then show ?thesis using that by (simp add: F_def bit_or_iff bit_push_bit_iff bit_mask_iff)
  qed
  let ?u = "s\<lparr>lz_flags := F, lz_src := items_bytes (length hist - 4096) g @ rest\<rparr>"
  have src: "lz_src s = flag_byte g # items_bytes (length hist - 4096) g @ rest"
    using 2(5) by (simp add: g_def rest_def Let_def)
  have "lz_reload s = Some ?u"
    using 2(6) src by (simp add: lz_reload_def F_def)
  then have "lz_out (lz_loop cap s) = take cap (drop 4096 (lz77 (g @ drop 7 ts) hist))"
  proof (rule items_decode [rotated -2])
    show "lz_out (lz_loop cap v) = take cap (drop 4096 (lz77 (drop 7 ts) (lz77 g hist)))"
      if "tracks (lz77 g hist) v" "lz_src v = rest" "lz_flags v = shr F (0 + length g - 1)"
        "length (lz_out v) \<le> cap" for v
    proof (cases "length g = 8")
      case True
      have "\<not> bit F 16" by (auto simp: F_def bit_simps dest: bit_imp_le_length)
      then have "shr (lz_flags v) 1 AND 0x100 = 0"
        using bit_iff_and_push_bit_not_eq_0 [of "shr (lz_flags v) 1" 8] that(3) True
        by (simp add: bit_simps)
      moreover have "length (lz77 g hist) - 4096 = length hist - 4096 + sum_list (map token_size g)"
        using hist by (simp add: lz77_length)
      ultimately show ?thesis
        using 2(1) [OF g_def, of "lz77 g hist" v] sub 2(2) that by (auto simp: rest_def)
    next
      case False
      then have "drop 7 ts = []" by (auto simp: g_def)
      then show ?thesis using that no_source [of v cap] by (simp add: rest_def tracks_def)
    qed
  qed (use 2(2-6) F F8 sub g8 in \<open>auto simp: g_def tracks_def\<close>)
  then show ?case by (simp add: g_def)
qed

section \<open>Decompression\<close>

text \<open>The window before the output: the uninitialised end of the ring, then its spaces.\<close>

definition window :: "u8 list \<Rightarrow> u8 list" where
  "window junk = take 18 junk @ replicate 4078 0x20"

lemma tracks_start:
  assumes "length junk = 35" shows "tracks (window junk) (lz_start junk src)"
proof -
  have "(replicate 4078 (0x20 :: u8) @ junk) ! ((t + 4078) mod 4096) = (take 18 junk @ replicate 4078 0x20) ! t"
    if "t < 4096" for t
  proof (cases "t < 18")
    case True then show ?thesis using assms by (simp add: nth_append)
  next
    case False
    then have "(t + 4078) mod 4096 = t - 18" using that by (simp add: mod_if)
    moreover have "t - 18 < 4078" using False that by simp
    ultimately show ?thesis using False assms by (simp add: nth_append)
  qed
  then show ?thesis using assms by (simp add: tracks_def window_def lz_start_def)
qed

lemma decodes_from_window:
  assumes "\<And>t. t \<in> set ts \<Longrightarrow> token_ok t" and "length junk = 35"
  shows "lzss_decompress junk dstcap (lzss_encode 0 ts) =
    take dstcap (drop 4096 (lz77 ts (window junk)))"
  unfolding lzss_decompress_def
  using stream_decodes [of ts "window junk" "lz_start junk (lzss_encode 0 ts)" dstcap]
    tracks_start [OF assms(2)] assms
  by (simp add: lz_start_def window_def)

text \<open>
  C16:
  Decompression decodes LZ77. The routine run on the bytes of a token stream (literals, and
  references up to 4096 bytes back of 3 to 18 bytes) writes the text the stream means, cut at
  the capacity of the destination. The text starts from the ring as the code sets it up.
\<close>

theorem lzss_decodes_lz77:
  assumes "\<forall>t \<in> set ts. token_ok t" and "length junk = 35"
  shows "lzss_decompress junk dstcap (lzss_encode 0 ts) =
    take dstcap (drop 4096 (lz77 ts (window junk)))"
  using assms by (intro decodes_from_window) simp_all

lemma lzss_decodes_lz77_witness:
  "lzss_decompress (replicate 35 0) 100 (lzss_encode 0 [Lit 65, Lit 66, Back 2 4, Back 20 3]) =
   take 100 (drop 4096 (lz77 [Lit 65, Lit 66, Back 2 4, Back 20 3] (window (replicate 35 0))))"
  by (rule lzss_decodes_lz77) simp_all

text \<open>
  The ring is not filled to its end: a first reference into its last 18 slots copies bytes the
  routine never wrote.
\<close>

lemma lzss_copies_uninitialised_ring:
  assumes "length junk = 35"
  shows "lzss_decompress junk 3 [0, 0xee, 0xf0] = take 3 junk"
proof -
  have b: "lzss_encode 0 [Back 4096 3] = [0, 0xee, 0xf0]"
    by (simp add: flag_byte_def ring_slot_def)
  have r: "repeat_back 4096 3 w = w @ take 3 w" if "length w = 4096" for w
  proof -
    have "repeat_back 4096 3 w = w @ [w ! 0, w ! 1, w ! 2]"
      using that by (simp add: numeral_3_eq_3 nth_append del: One_nat_def) (simp add: nth_append)
    moreover have "take 3 w = [w ! 0, w ! 1, w ! 2]"
      using that by (simp add: numeral_3_eq_3 numeral_2_eq_2 take_Suc_conv_app_nth)
    ultimately show ?thesis by simp
  qed
  show ?thesis
    using decodes_from_window [of "[Back 4096 3]" junk 3] assms
    unfolding b by (simp add: r window_def)
qed

section \<open>Any input\<close>

lemma lz_emit_sizes [simp]:
  "length (lz_out (lz_emit c s)) = Suc (length (lz_out s))" "lz_src (lz_emit c s) = lz_src s"
  by (simp_all add: lz_emit_def)

definition bounded :: "nat \<Rightarrow> nat \<Rightarrow> lz_state + lz_state \<Rightarrow> bool" where
  "bounded cap n x =
     (case x of
        Inl s \<Rightarrow> length (lz_out s) \<le> cap \<and> length (lz_out s) \<le> n
      | Inr s \<Rightarrow> length (lz_out s) \<le> cap \<and> length (lz_out s) + 9 * length (lz_src s) \<le> n)"

lemma copy_bounded:
  "length (lz_out s) \<le> cap \<Longrightarrow> length (lz_out s) + n + 9 * length (lz_src s) \<le> N \<Longrightarrow>
   bounded cap N (lz_copy cap i k n s)"
  by (induction cap i k n s rule: lz_copy.induct) (auto simp: bounded_def Let_def)

lemma item_bounded:
  assumes "length (lz_out s) \<le> cap" "length (lz_out s) + 9 * length (lz_src s) \<le> N"
  shows "bounded cap N (lz_item cap s)"
proof -
  have copy: "bounded cap N (lz_copy cap i 0 (unat ((ucast (b :: u8) AND 0xf) + 2 :: u32) + 1) (s\<lparr>lz_src := src\<rparr>))"
    if "9 * length src + 18 \<le> 9 * length (lz_src s)" for i b src
  proof -
    have "unat (ucast b AND 0xf :: u32) < 16" by (simp add: unsigned_and_eq nat_and_15)
    then have "unat ((ucast b AND 0xf) + 2 :: u32) \<le> 17" by (simp add: unat_word_ariths)
    then show ?thesis using assms that by (intro copy_bounded) simp_all
  qed
  show ?thesis
  proof (cases "lz_flags s AND 1 = 0")
    case True
    then show ?thesis
      using assms copy unfolding lz_item_def Let_def
      by (cases "lz_src s" rule: remdups_adj.cases) (simp_all add: bounded_def [of _ _ "Inl _"])
  next
    case False
    then show ?thesis
      using assms by (cases "lz_src s") (simp_all add: lz_item_def bounded_def)
  qed
qed

lemma iter_bounded:
  assumes "length (lz_out s) \<le> cap" "length (lz_out s) + 9 * length (lz_src s) \<le> N"
  shows "bounded cap N (lz_iter cap s)"
proof (cases "lz_reload s")
  case None then show ?thesis using assms by (simp add: lz_iter_def bounded_def)
next
  case (Some u)
  then have "lz_out u = lz_out s" "length (lz_src u) \<le> length (lz_src s)"
    by (auto simp: lz_reload_def Let_def split: if_splits list.splits)
  then show ?thesis using assms item_bounded [of u cap N] by (simp add: lz_iter_def Some)
qed

lemma loop_bounded:
  "length (lz_out s) \<le> cap \<Longrightarrow> length (lz_out s) + 9 * length (lz_src s) \<le> N \<Longrightarrow>
   length (lz_out (lz_loop cap s)) \<le> min cap N"
proof (induction cap s rule: lz_loop.induct)
  case (1 cap s)
  then show ?case
    using iter_bounded [OF 1(2,3)]
    by (subst lz_loop.simps) (auto simp: bounded_def split: sum.splits)
qed

text \<open>
  C27:
  Whatever the source, the routine writes no more than the capacity of the destination, and
  no more than nine bytes per source byte.
\<close>

theorem lzss_output_bounded:
  "length (lzss_decompress junk dstcap src) \<le> min dstcap (9 * length src)"
  unfolding lzss_decompress_def by (rule loop_bounded) (simp_all add: lz_start_def)

end
