(* ===== verification/Devicetree.thy ===== *)
theory Devicetree
  imports Bytes
begin

text \<open>
  The flattened device tree parser (core/src/firmware/devicetree.c): validation of the whole tree,
  and the lookups of properties, children and paths. \<open>None\<close> is a read outside the blob. The
  lemmas show that there is none, and that the lookups find in the blob what they should find in
  the tree it encodes. A C string is its bytes before the NUL.
\<close>

unbundle bit_operations_syntax

section \<open>The code\<close>

datatype dt_status = DT_OK | DT_ERR_TRUNCATED | DT_ERR_TOO_DEEP | DT_ERR_NOT_FOUND

record dt_node =
  nd_offset :: nat
  nd_n_props :: u32
  nd_n_children :: u32
  nd_props_off :: nat

text \<open>\<open>size_t\<close> and \<open>uint64_t\<close> have 64 bits: their sums wrap.\<close>

definition w64 :: "nat \<Rightarrow> nat" where
  "w64 n = n mod 2 ^ 64"

definition dt_fits :: "u8 list \<Rightarrow> nat \<Rightarrow> nat \<Rightarrow> bool" where
  "dt_fits b off need \<longleftrightarrow> w64 (off + need) \<le> length b"

definition align4 :: "nat \<Rightarrow> nat" where
  "align4 v = w64 (v + 3) div 4 * 4"

definition read_node :: "u8 list \<Rightarrow> nat \<Rightarrow> (dt_status \<times> dt_node option) option" where
  "read_node b off =
     (if \<not> dt_fits b off 8 then Some (DT_ERR_TRUNCATED, None)
      else do {
        np \<leftarrow> rd32 b off;
        nc \<leftarrow> rd32 b (w64 (off + 4));
        Some (DT_OK, Some \<lparr>nd_offset = off, nd_n_props = np, nd_n_children = nc, nd_props_off = w64 (off + 8)\<rparr>)
      })"

text \<open>Offsets past a property, and past a number of properties or of children; 0 on error.\<close>

definition skip_property :: "u8 list \<Rightarrow> nat \<Rightarrow> nat option" where
  "skip_property b off =
     (if \<not> dt_fits b off 36 then Some 0
      else do {
        l \<leftarrow> rd32 b (w64 (off + 32));
        let next' = align4 (w64 (off + 36 + unat (l AND 0x7fffffff)));
        Some (if next' > length b then 0 else next')
      })"

fun skip_many :: "(nat \<Rightarrow> nat option) \<Rightarrow> nat \<Rightarrow> nat \<Rightarrow> nat option" where
  "skip_many skip 0 cur = Some cur"
| "skip_many skip (Suc n) cur =
     (case skip cur of
        None \<Rightarrow> None
      | Some cur \<Rightarrow> if cur = 0 then Some 0 else skip_many skip n cur)"

text \<open>\<open>left\<close> is the number of levels the recursion may still enter, \<open>DT_MAX_DEPTH + 1 - depth\<close>.\<close>

fun skip_levels :: "nat \<Rightarrow> u8 list \<Rightarrow> nat \<Rightarrow> nat option" where
  "skip_levels 0 b off = Some 0"
| "skip_levels (Suc left) b off =
     (case read_node b off of
        None \<Rightarrow> None
      | Some (_, None) \<Rightarrow> Some 0
      | Some (_, Some n) \<Rightarrow>
          (case skip_many (skip_property b) (unat (nd_n_props n)) (nd_props_off n) of
             None \<Rightarrow> None
           | Some cur \<Rightarrow>
               if cur = 0 then Some 0
               else skip_many (skip_levels left b) (unat (nd_n_children n)) cur))"

definition skip_node :: "u8 list \<Rightarrow> nat \<Rightarrow> nat \<Rightarrow> nat option" where
  "skip_node b off depth = skip_levels (33 - depth) b off"

definition dt_parse :: "u8 list \<Rightarrow> (dt_status \<times> dt_node option) option" where
  "dt_parse b =
     (if length b < 8 then Some (DT_ERR_TRUNCATED, None)
      else do {
        past \<leftarrow> skip_node b 0 0;
        if past = 0 then Some (DT_ERR_TRUNCATED, None) else read_node b 0
      })"

text \<open>\<open>strncmp (p, name, n) == 0\<close>: the first operand is read from the blob.\<close>

fun strncmp_eq :: "u8 list \<Rightarrow> nat \<Rightarrow> u8 list \<Rightarrow> nat \<Rightarrow> bool option" where
  "strncmp_eq b p s 0 = Some True"
| "strncmp_eq b p s (Suc n) =
     (if p < length b then
        let y = (case s of [] \<Rightarrow> 0 | y # _ \<Rightarrow> y)
        in if b ! p \<noteq> y then Some False
           else if y = 0 then Some True
           else strncmp_eq b (p + 1) (tl s) n
      else None)"

fun find_property ::
  "u8 list \<Rightarrow> nat \<Rightarrow> nat \<Rightarrow> u8 list \<Rightarrow> (dt_status \<times> (nat \<times> u32) option) option" where
  "find_property b 0 cur name = Some (DT_ERR_NOT_FOUND, None)"
| "find_property b (Suc n) cur name =
     (if \<not> dt_fits b cur 36 then Some (DT_ERR_TRUNCATED, None)
      else do {
        same \<leftarrow> strncmp_eq b cur name 32;
        if same then do {
          l \<leftarrow> rd32 b (w64 (cur + 32));
          let plen = l AND 0x7fffffff;
          Some (if \<not> dt_fits b (w64 (cur + 36)) (unat plen) then (DT_ERR_TRUNCATED, None)
                else (DT_OK, Some (w64 (cur + 36), plen)))
        }
        else do {
          cur \<leftarrow> skip_property b cur;
          if cur = 0 then Some (DT_ERR_TRUNCATED, None) else find_property b n cur name
        }
      })"

definition dt_property ::
  "u8 list \<Rightarrow> dt_node \<Rightarrow> u8 list \<Rightarrow> (dt_status \<times> (nat \<times> u32) option) option" where
  "dt_property b node name = find_property b (unat (nd_n_props node)) (nd_props_off node) name"

definition dt_property_u32 :: "u8 list \<Rightarrow> dt_node \<Rightarrow> u8 list \<Rightarrow> (dt_status \<times> u32 option) option" where
  "dt_property_u32 b node name = do {
     r \<leftarrow> dt_property b node name;
     case r of
       (DT_OK, Some (v, n)) \<Rightarrow>
         if n < 4 then Some (DT_ERR_TRUNCATED, None)
         else do { x \<leftarrow> rd32 b v; Some (DT_OK, Some x) }
     | (st, _) \<Rightarrow> Some (st, None)
   }"

text \<open>The bytes of \<open>"name"\<close>.\<close>

definition name_name :: "u8 list" where
  "name_name = [0x6e, 0x61, 0x6d, 0x65]"

text \<open>Does the stored value match, with or without its NUL?\<close>

definition name_matches :: "u8 list \<Rightarrow> nat \<Rightarrow> u32 \<Rightarrow> u8 list \<Rightarrow> bool option" where
  "name_matches b v n name =
     (let want = length name
      in if unat n < want then Some False
         else do {
           same \<leftarrow> strncmp_eq b v name want;
           if \<not> same then Some False
           else if unat n = want then Some True
           else if v + want < length b then Some (b ! (v + want) = 0) else None
         })"

fun find_child :: "u8 list \<Rightarrow> nat \<Rightarrow> nat \<Rightarrow> u8 list \<Rightarrow> (dt_status \<times> dt_node option) option" where
  "find_child b 0 cur name = Some (DT_ERR_NOT_FOUND, None)"
| "find_child b (Suc n) cur name =
     (case read_node b cur of
        None \<Rightarrow> None
      | Some (_, None) \<Rightarrow> Some (DT_ERR_TRUNCATED, None)
      | Some (_, Some child) \<Rightarrow> do {
          r \<leftarrow> dt_property b child name_name;
          hit \<leftarrow> (case r of (DT_OK, Some (v, len)) \<Rightarrow> name_matches b v len name | _ \<Rightarrow> Some False);
          if hit then Some (DT_OK, Some child)
          else do {
            cur \<leftarrow> skip_node b cur 0;
            if cur = 0 then Some (DT_ERR_TRUNCATED, None) else find_child b n cur name
          }
        })"

definition dt_child :: "u8 list \<Rightarrow> dt_node \<Rightarrow> u8 list \<Rightarrow> (dt_status \<times> dt_node option) option" where
  "dt_child b parent name = do {
     cur \<leftarrow> skip_many (skip_property b) (unat (nd_n_props parent)) (nd_props_off parent);
     if cur = 0 then Some (DT_ERR_TRUNCATED, None)
     else find_child b (unat (nd_n_children parent)) cur name
   }"

text \<open>The path, one slash-separated segment per iteration.\<close>

definition is_slash :: "u8 \<Rightarrow> bool" where
  "is_slash c \<longleftrightarrow> c = 0x2f"

function dt_walk :: "u8 list \<Rightarrow> dt_node \<Rightarrow> u8 list \<Rightarrow> (dt_status \<times> dt_node option) option" where
  "dt_walk b cur p =
     (if p = [] then Some (DT_OK, Some cur)
      else
        let seg = takeWhile (\<lambda>c. \<not> is_slash c) p
        in if seg = [] \<or> length seg \<ge> 32 then Some (DT_ERR_NOT_FOUND, None)
           else
             (case dt_child b cur seg of
                None \<Rightarrow> None
              | Some (DT_OK, Some child) \<Rightarrow>
                  dt_walk b child (dropWhile is_slash (drop (length seg) p))
              | Some (st, _) \<Rightarrow> Some (st, None)))"
  by pat_completeness auto
termination
proof (relation "measure (\<lambda>(b, cur, p). length p)")
  fix p seg :: "u8 list"
  assume "p \<noteq> []" "seg = takeWhile (\<lambda>c. \<not> is_slash c) p" "\<not> (seg = [] \<or> 32 \<le> length seg)"
  then have "length (drop (length seg) p) < length p" by (cases p) (auto split: if_splits)
  then show "((b, c, dropWhile is_slash (drop (length seg) p)), (b', c', p))
      \<in> measure (\<lambda>(b, cur, p). length p)" for b b' c c'
    using length_dropWhile_le [of is_slash "drop (length seg) p"] by simp
qed simp

declare dt_walk.simps [simp del]

definition dt_path :: "u8 list \<Rightarrow> dt_node \<Rightarrow> u8 list \<Rightarrow> (dt_status \<times> dt_node option) option" where
  "dt_path b root path = dt_walk b root (dropWhile is_slash path)"

section \<open>No read outside the blob\<close>

text \<open>
  A C object has fewer than $2^{63}$ bytes, so sums of an offset inside it and the 32-bit lengths of the
  format do not wrap. The offsets the parser works with stay inside.
\<close>

definition blob_ok :: "u8 list \<Rightarrow> bool" where
  "blob_ok b \<longleftrightarrow> length b < 2 ^ 63"

lemma w64_inside [simp]: "blob_ok b \<Longrightarrow> off \<le> length b \<Longrightarrow> n < 2 ^ 62 \<Longrightarrow> w64 (off + n) = off + n"
  by (simp add: w64_def blob_ok_def)

lemma dt_fits_inside: "blob_ok b \<Longrightarrow> off \<le> length b \<Longrightarrow> n < 2 ^ 62 \<Longrightarrow> dt_fits b off n \<longleftrightarrow> off + n \<le> length b"
  by (simp add: dt_fits_def)

lemma plen_less: "unat (l AND 0x7fffffff) < 2 ^ 32" for l :: u32
  using unat_u32_less [of "l AND 0x7fffffff"] by simp

lemma align4_inside: "v < 2 ^ 64 - 4 \<Longrightarrow> align4 v = (v + 3) div 4 * 4"
  by (simp add: align4_def w64_def)

definition stays :: "u8 list \<Rightarrow> nat option \<Rightarrow> bool" where
  "stays b r \<longleftrightarrow> (\<exists>past. r = Some past \<and> past \<le> length b)"

lemma skip_property_safe:
  assumes "blob_ok b" "off \<le> length b" shows "stays b (skip_property b off)"
proof -
  have "w64 (off + 32) = off + 32" using w64_inside [OF assms, of 32] by simp
  then show ?thesis
    using rd32_some [of "off + 32" b] dt_fits_inside [OF assms, of 36]
    by (auto simp: skip_property_def Let_def stays_def)
qed

lemma read_node_cases:
  assumes "blob_ok b" "off \<le> length b"
  obtains "read_node b off = Some (DT_ERR_TRUNCATED, None)"
  | n where "read_node b off = Some (DT_OK, Some n)" "nd_props_off n \<le> length b"
proof (cases "dt_fits b off 8")
  case True
  have "w64 (off + 4) = off + 4" "w64 (off + 8) = off + 8" using w64_inside [OF assms] by simp_all
  then show thesis
    using True rd32_some [of off b] rd32_some [of "off + 4" b] that(2) dt_fits_inside [OF assms, of 8]
    by (auto simp: read_node_def)
qed (use that(1) in \<open>simp add: read_node_def\<close>)

lemma skip_many_safe:
  assumes "\<And>cur. cur \<le> length b \<Longrightarrow> stays b (skip cur)" and "cur \<le> length b"
  shows "stays b (skip_many skip n cur)"
  using assms(2)
proof (induction n arbitrary: cur)
  case (Suc n)
  obtain past where "skip cur = Some past" "past \<le> length b"
    using assms(1) [OF Suc.prems] by (auto simp: stays_def)
  then show ?case using Suc.IH [of past] by (simp add: stays_def)
qed (simp add: stays_def)

lemma skip_levels_safe: "blob_ok b \<Longrightarrow> off \<le> length b \<Longrightarrow> stays b (skip_levels left b off)"
proof (induction left arbitrary: off)
  case (Suc left)
  show ?case
  proof (rule read_node_cases [OF Suc.prems])
    fix n assume n: "read_node b off = Some (DT_OK, Some n)" "nd_props_off n \<le> length b"
    have "stays b (skip_many (skip_property b) (unat (nd_n_props n)) (nd_props_off n))"
      using n(2) skip_property_safe [OF Suc.prems(1)] by (rule skip_many_safe [rotated])
    then obtain cur where cur: "skip_many (skip_property b) (unat (nd_n_props n)) (nd_props_off n) = Some cur"
        "cur \<le> length b"
      by (auto simp: stays_def)
    have "stays b (skip_many (skip_levels left b) (unat (nd_n_children n)) cur)"
      using cur(2) Suc.IH [OF Suc.prems(1)] by (rule skip_many_safe [rotated])
    then show ?thesis using n cur by (auto simp: stays_def)
  qed (simp add: stays_def)
qed (simp add: stays_def)

lemma skip_node_safe: "blob_ok b \<Longrightarrow> off \<le> length b \<Longrightarrow> stays b (skip_node b off d)"
  by (simp add: skip_node_def skip_levels_safe)

lemma strncmp_eq_safe: "p + n \<le> length b \<Longrightarrow> strncmp_eq b p s n \<noteq> None"
  by (induction b p s n rule: strncmp_eq.induct) (auto simp: Let_def)

text \<open>A lookup that reads inside the blob and reports a value inside it.\<close>

definition value_inside :: "u8 list \<Rightarrow> (dt_status \<times> (nat \<times> u32) option) option \<Rightarrow> bool" where
  "value_inside b x \<longleftrightarrow> (\<exists>st r. x = Some (st, r) \<and> (st = DT_OK \<longleftrightarrow> r \<noteq> None) \<and>
     (case r of None \<Rightarrow> True | Some (v, len) \<Rightarrow> v + unat len \<le> length b))"

lemma find_property_safe:
  assumes ok: "blob_ok b" shows "cur \<le> length b \<Longrightarrow> value_inside b (find_property b n cur name)"
proof (induction n arbitrary: cur)
  case (Suc n)
  have w: "w64 (cur + 32) = cur + 32" "w64 (cur + 36) = cur + 36"
    using w64_inside [OF ok Suc.prems] by simp_all
  show ?case
  proof (cases "dt_fits b cur 36")
    case True
    then have fits: "cur + 36 \<le> length b" using dt_fits_inside [OF ok Suc.prems, of 36] by simp
    then obtain same l where sl: "strncmp_eq b cur name 32 = Some same" "rd32 b (cur + 32) = Some l"
      using strncmp_eq_safe [of cur 32 b name] rd32_some [of "cur + 32" b] by auto
    obtain nxt where nxt: "skip_property b cur = Some nxt" "nxt \<le> length b"
      using skip_property_safe [OF ok Suc.prems] by (auto simp: stays_def)
    have "dt_fits b (cur + 36) (unat (l AND 0x7fffffff)) \<longleftrightarrow> cur + 36 + unat (l AND 0x7fffffff) \<le> length b"
      using plen_less [of l] by (intro dt_fits_inside [OF ok fits]) simp
    then show ?thesis using True sl nxt w Suc.IH [OF nxt(2)]
      by (cases same; cases "nxt = 0") (auto simp: value_inside_def Let_def)
  qed (simp add: value_inside_def)
qed (simp add: value_inside_def)

lemma name_matches_safe:
  assumes "v + unat n \<le> length b" shows "name_matches b v n name \<noteq> None"
proof (cases "unat n < length name")
  case False
  then obtain same where "strncmp_eq b v name (length name) = Some same"
    using strncmp_eq_safe [of v "length name" b name] assms by auto
  then show ?thesis using False assms
    by (cases same) (auto simp: name_matches_def Let_def intro: exI [of _ True])
qed (simp add: name_matches_def Let_def)

text \<open>A lookup that reads inside the blob and reports a node whose properties start inside it.\<close>

definition node_inside :: "u8 list \<Rightarrow> (dt_status \<times> dt_node option) option \<Rightarrow> bool" where
  "node_inside b x \<longleftrightarrow> (\<exists>st r. x = Some (st, r) \<and> (\<forall>n. r = Some n \<longrightarrow> nd_props_off n \<le> length b))"

lemma find_child_safe:
  assumes ok: "blob_ok b" shows "cur \<le> length b \<Longrightarrow> node_inside b (find_child b n cur name)"
proof (induction n arbitrary: cur)
  case (Suc n)
  show ?case
  proof (rule read_node_cases [OF ok Suc.prems])
    fix child assume child: "read_node b cur = Some (DT_OK, Some child)" "nd_props_off child \<le> length b"
    obtain st r where p: "dt_property b child name_name = Some (st, r)" "st = DT_OK \<longleftrightarrow> r \<noteq> None"
        "case r of None \<Rightarrow> True | Some (v, len) \<Rightarrow> v + unat len \<le> length b"
      using find_property_safe [OF ok child(2)] unfolding dt_property_def value_inside_def by blast
    obtain hit where hit: "(case (st, r) of (DT_OK, Some (v, len)) \<Rightarrow> name_matches b v len name
        | _ \<Rightarrow> Some False) = Some hit"
    proof (cases r)
      case None
      then show thesis using that [of False] by (cases st) simp_all
    next
      case (Some vl)
      obtain v len where vl: "vl = (v, len)" by (rule prod.exhaust)
      then obtain hit where "name_matches b v len name = Some hit"
        using p(3) Some name_matches_safe [of v len b name] by auto
      then show thesis using that [of hit] p(2) Some vl by simp
    qed
    obtain nxt where nxt: "skip_node b cur 0 = Some nxt" "nxt \<le> length b"
      using skip_node_safe [OF ok Suc.prems, of 0] by (auto simp: stays_def)
    show ?thesis
      using child p(1) hit nxt Suc.IH [OF nxt(2)]
      by (cases hit; cases "nxt = 0") (simp_all add: node_inside_def)
  qed (simp add: node_inside_def)
qed (simp add: node_inside_def)

lemma dt_child_safe:
  assumes "blob_ok b" "nd_props_off parent \<le> length b" shows "node_inside b (dt_child b parent name)"
proof -
  have "stays b (skip_many (skip_property b) (unat (nd_n_props parent)) (nd_props_off parent))"
    using assms(2) skip_property_safe [OF assms(1)] by (rule skip_many_safe [rotated])
  then obtain cur where "skip_many (skip_property b) (unat (nd_n_props parent)) (nd_props_off parent) = Some cur"
      "cur \<le> length b"
    by (auto simp: stays_def)
  then show ?thesis using find_child_safe [OF assms(1), of cur]
    by (cases "cur = 0") (simp_all add: dt_child_def node_inside_def)
qed

lemma dt_walk_safe:
  "blob_ok b \<Longrightarrow> nd_props_off cur \<le> length b \<Longrightarrow> node_inside b (dt_walk b cur p)"
proof (induction b cur p rule: dt_walk.induct)
  case (1 b cur p)
  define seg where "seg = takeWhile (\<lambda>c. \<not> is_slash c) p"
  obtain st r where c: "dt_child b cur seg = Some (st, r)" "\<And>n. r = Some n \<Longrightarrow> nd_props_off n \<le> length b"
    using dt_child_safe [OF "1.prems", of seg] by (auto simp: node_inside_def)
  show ?case
  proof (cases "p = [] \<or> seg = [] \<or> length seg \<ge> 32")
    case True then show ?thesis
      using "1.prems" by (subst dt_walk.simps) (auto simp: seg_def Let_def node_inside_def)
  next
    case False
    have "node_inside b (dt_walk b child (dropWhile is_slash (drop (length seg) p)))"
      if "st = DT_OK" "r = Some child" for child
      by (rule "1.IH" [OF _ seg_def _ c(1) refl that "1.prems"(1) c(2) [OF that(2)]]) (use False in auto)
    then show ?thesis
      using False c by (subst dt_walk.simps)
        (auto simp: seg_def Let_def node_inside_def split: dt_status.splits option.splits)
  qed
qed

text \<open>
  C19:
  The device tree parser never reads outside the blob, whatever the bytes: not while it validates
  the tree, and not in any lookup, from any node whose properties start inside the blob, validated or
  not and whatever its counts. The nodes it reports are again such nodes, so this holds along any chain
  of lookups, and a property it reports lies inside the blob. The blob is a C object, of fewer than
  $2^{63}$ bytes; offsets and sums are 64 bits wide, as in the code.
\<close>

theorem dt_reads_inside:
  assumes "blob_ok b"
  shows "node_inside b (dt_parse b) \<and>
    (nd_props_off node \<le> length b \<longrightarrow>
       node_inside b (dt_child b node name) \<and> node_inside b (dt_path b node path) \<and>
       value_inside b (dt_property b node name) \<and> dt_property_u32 b node name \<noteq> None)"
proof -
  have "stays b (skip_node b 0 0)" using skip_node_safe [OF assms] by simp
  then have "node_inside b (dt_parse b)"
    by (rule_tac read_node_cases [OF assms, of 0]) (auto simp: dt_parse_def stays_def node_inside_def)
  moreover have "node_inside b (dt_child b node name) \<and> node_inside b (dt_path b node path) \<and>
      value_inside b (dt_property b node name) \<and> dt_property_u32 b node name \<noteq> None"
    if at: "nd_props_off node \<le> length b"
  proof -
    have val: "value_inside b (dt_property b node name)"
      unfolding dt_property_def by (rule find_property_safe [OF assms at])
    then obtain st r where p: "dt_property b node name = Some (st, r)"
        "case r of None \<Rightarrow> True | Some (v, len) \<Rightarrow> v + unat len \<le> length b"
      by (auto simp: value_inside_def)
    have "dt_property_u32 b node name \<noteq> None"
    proof (cases "\<exists>v len. (st, r) = (DT_OK, Some (v, len)) \<and> \<not> len < 4")
      case True
      then obtain v len where r: "st = DT_OK" "r = Some (v, len)" "\<not> len < 4" by blast
      then have "v + 4 \<le> length b" using p(2) by (simp add: word_less_nat_alt)
      then show ?thesis using p(1) r rd32_some [of v b] by (auto simp: dt_property_u32_def)
    qed (use p(1) in \<open>auto simp: dt_property_u32_def split: dt_status.splits option.splits\<close>)
    then show ?thesis
      using val dt_child_safe [OF assms at] dt_walk_safe [OF assms at] by (simp add: dt_path_def)
  qed
  ultimately show ?thesis by blast
qed

theorem dt_reads_inside_witness:
  "node_inside [1, 0, 0, 0, 0, 0, 0, 0, 5] (dt_parse [1, 0, 0, 0, 0, 0, 0, 0, 5]) \<and>
   value_inside [1, 0, 0, 0, 0, 0, 0, 0, 5] (dt_property [1, 0, 0, 0, 0, 0, 0, 0, 5]
     \<lparr>nd_offset = 0, nd_n_props = 1, nd_n_children = 7, nd_props_off = 9\<rparr> name_name)"
  using dt_reads_inside [of "[1, 0, 0, 0, 0, 0, 0, 0, 5]"
      "\<lparr>nd_offset = 0, nd_n_props = 1, nd_n_children = 7, nd_props_off = 9\<rparr>" name_name "[]"]
  by (simp add: blob_ok_def)

text \<open>
  Why the properties must start inside: the sum in \<open>fits\<close> wraps, so the check passes for an offset just
  below $2^{64}$. Only a node record the parser did not make can carry one.
\<close>

lemma wrapped_offset_reads_outside:
  assumes "blob_ok b" "32 \<le> length b" "0 < nd_n_props node" "nd_props_off node = 2 ^ 64 - 4"
  shows "dt_property b node name = None"
proof -
  have "unat (nd_n_props node) \<noteq> 0" using assms(3) by (auto simp: unat_eq_0)
  then obtain n where n: "unat (nd_n_props node) = Suc n" by (meson not0_implies_Suc)
  have "dt_fits b (nd_props_off node) 36" using assms(2,4) by (simp add: dt_fits_def w64_def)
  moreover have "strncmp_eq b (nd_props_off node) name 32 = None"
  proof -
    have "strncmp_eq b p name 32 = None" if "length b \<le> p" for p
      using that strncmp_eq.simps(2) [of b p name 31] by simp
    then show ?thesis using assms(1,4) by (simp add: blob_ok_def)
  qed
  ultimately show ?thesis by (simp add: dt_property_def n)
qed

section \<open>The tree a blob encodes\<close>

text \<open>A property has a name, Apple's flag bit, and a value.\<close>

datatype tree = Tree "(u8 list \<times> bool \<times> u8 list) list" "tree list"

definition pad4 :: "nat \<Rightarrow> nat" where
  "pad4 n = (4 - n mod 4) mod 4"

fun prop_bytes :: "u8 list \<times> bool \<times> u8 list \<Rightarrow> u8 list" where
  "prop_bytes (nm, flag, v) =
     nm @ replicate (32 - length nm) 0 @
     le32 (of_nat (length v) OR (if flag then 0x80000000 else 0)) @
     v @ replicate (pad4 (length v)) 0"

fun node_bytes :: "tree \<Rightarrow> u8 list" where
  "node_bytes (Tree ps ks) =
     le32 (of_nat (length ps)) @ le32 (of_nat (length ks)) @
     concat (map prop_bytes ps) @ concat (map node_bytes ks)"

text \<open>Trees of at most \<open>n\<close> levels whose names, values and counts fit the format.\<close>

definition prop_ok :: "u8 list \<times> bool \<times> u8 list \<Rightarrow> bool" where
  "prop_ok p \<longleftrightarrow> (case p of (nm, flag, v) \<Rightarrow> length nm \<le> 32 \<and> 0 \<notin> set nm \<and> length v < 2147483648)"

fun tree_ok :: "nat \<Rightarrow> tree \<Rightarrow> bool" where
  "tree_ok 0 t = False"
| "tree_ok (Suc n) (Tree ps ks) =
     (length ps < 4294967296 \<and> length ks < 4294967296 \<and> (\<forall>p \<in> set ps. prop_ok p) \<and>
      (\<forall>k \<in> set ks. tree_ok n k))"

text \<open>The lookups on trees: the first property of a name, the first child of a name, a path.\<close>

fun tree_prop :: "u8 list \<Rightarrow> tree \<Rightarrow> u8 list option" where
  "tree_prop name (Tree ps ks) = map_option (snd \<circ> snd) (find (\<lambda>p. fst p = name) ps)"

definition named :: "u8 list \<Rightarrow> tree \<Rightarrow> bool" where
  "named name t =
     (case tree_prop name_name t of
        None \<Rightarrow> False
      | Some v \<Rightarrow> v = name \<or> (\<exists>w. v = name @ 0 # w))"

fun tree_child :: "u8 list \<Rightarrow> tree \<Rightarrow> tree option" where
  "tree_child name (Tree ps ks) = find (named name) ks"

fun tree_path :: "u8 list list \<Rightarrow> tree \<Rightarrow> tree option" where
  "tree_path [] t = Some t"
| "tree_path (s # segs) t =
     (case tree_child s t of None \<Rightarrow> None | Some k \<Rightarrow> tree_path segs k)"

text \<open>The bytes \<open>xs\<close> stand in the blob at offset \<open>off\<close>, which is 4-byte aligned.\<close>

definition encodes :: "u8 list \<Rightarrow> nat \<Rightarrow> u8 list \<Rightarrow> bool" where
  "encodes b off xs \<longleftrightarrow> blob_ok b \<and> off mod 4 = 0 \<and> (\<exists>pre rest. b = pre @ xs @ rest \<and> length pre = off)"

lemma encodes_prefix: "encodes b off (xs @ ys) \<Longrightarrow> encodes b off xs"
  unfolding encodes_def by (metis append_assoc)

lemma encodes_suffix:
  assumes "encodes b off (xs @ ys)" "length xs mod 4 = 0" shows "encodes b (off + length xs) ys"
proof -
  obtain pre rest where "b = (pre @ xs) @ ys @ rest" "length pre = off" "off mod 4 = 0" "blob_ok b"
    using assms(1) by (auto simp: encodes_def)
  moreover have "(off + length xs) mod 4 = 0" using assms(2) calculation(3) by presburger
  ultimately show ?thesis unfolding encodes_def by (metis length_append)
qed

lemma encodes_length: "encodes b off xs \<Longrightarrow> off + length xs \<le> length b"
  by (auto simp: encodes_def)

lemma encodes_rd32: "encodes b off (xs @ le32 v @ ys) \<Longrightarrow> rd32 b (off + length xs) = Some v"
  unfolding encodes_def by (metis append_assoc length_append rd32_le32)

lemma pad4: "(n + pad4 n) mod 4 = 0" "(n + 3) div 4 * 4 = n + pad4 n"
proof -
  obtain q r where n: "n = 4 * q + r" "r < 4" using that [of "n div 4" "n mod 4"] by simp
  then consider (0) "r = 0" | (1) "r = 1" | (2) "r = 2" | (3) "r = 3" by linarith
  then have "(n + pad4 n) mod 4 = 0 \<and> (n + 3) div 4 * 4 = n + pad4 n"
    unfolding n(1) pad4_def by cases (simp_all add: mod_Suc)
  then show "(n + pad4 n) mod 4 = 0" "(n + 3) div 4 * 4 = n + pad4 n" by simp_all
qed

lemma prop_length:
  assumes "prop_ok (nm, flag, v)"
  shows "length (prop_bytes (nm, flag, v)) = 36 + length v + pad4 (length v)"
  using assms by (simp add: prop_ok_def)

lemma prop_length_mod: "prop_ok p \<Longrightarrow> length (prop_bytes p) mod 4 = 0 \<and> 0 < length (prop_bytes p)"
proof (cases p)
  case (fields nm flag v)
  assume "prop_ok p"
  then have "length (prop_bytes p) = (length v + pad4 (length v)) + 36" by (simp add: fields prop_ok_def)
  moreover have "x mod 4 = 0 \<Longrightarrow> (x + 36) mod 4 = 0 \<and> 0 < x + 36" for x :: nat by presburger
  ultimately show ?thesis using pad4(1) [of "length v"] by simp
qed

lemma align4_base: "off mod 4 = 0 \<Longrightarrow> off + n < 2 ^ 63 + 2 ^ 62 \<Longrightarrow> align4 (off + n) = off + n + pad4 n"
proof -
  assume off: "off mod 4 = 0" "off + n < 2 ^ 63 + 2 ^ 62"
  have "(off + n + 3) div 4 * 4 = off + (n + 3) div 4 * 4"
    using off(1) by (auto simp: add.assoc elim!: dvdE dest!: mod_0_imp_dvd)
  then show ?thesis using align4_inside [of "off + n"] off(2) pad4(2) [of n] by simp
qed

lemma length_word:
  assumes "n < 2147483648"
  shows "unat ((of_nat n OR (if flag then 0x80000000 else 0)) AND 0x7fffffff :: u32) = n"
proof -
  have m: "x AND 0x7fffffff = take_bit 31 x" for x :: u32
    by (simp add: take_bit_eq_mask mask_eq_exp_minus_1)
  have "take_bit 31 (of_nat n OR (if flag then 0x80000000 else 0) :: u32) = take_bit 31 (of_nat n)"
    by (simp add: take_bit_or)
  then have "unat ((of_nat n OR (if flag then 0x80000000 else 0)) AND 0x7fffffff :: u32) =
      take_bit 31 (unat (of_nat n :: u32))"
    unfolding m by (simp add: unsigned_take_bit_eq)
  then show ?thesis using assms by (simp add: unat_of_nat take_bit_nat_eq_self)
qed

lemma skip_property_encoded:
  assumes e: "encodes b off (prop_bytes p)" and ok: "prop_ok p"
  shows "skip_property b off = Some (off + length (prop_bytes p))"
proof (cases p)
  case (fields nm flag v)
  let ?l = "of_nat (length v) OR (if flag then 0x80000000 else 0) :: u32"
  have len: "length (prop_bytes p) = 36 + length v + pad4 (length v)"
    using ok unfolding fields by (rule prop_length)
  have l: "rd32 b (off + 32) = Some ?l"
    using encodes_rd32 [of b off "nm @ replicate (32 - length nm) 0" ?l] e ok
    by (simp add: fields prop_ok_def)
  have n: "unat (?l AND 0x7fffffff) = length v"
    using ok by (intro length_word) (simp add: fields prop_ok_def)
  have off: "off mod 4 = 0" "blob_ok b" "off \<le> length b" "length v < 2 ^ 31"
    using e encodes_length [OF e] ok by (simp_all add: encodes_def fields prop_ok_def)
  have w: "w64 (off + 32) = off + 32" "w64 (off + (36 + length v)) = off + (36 + length v)" "dt_fits b off 36"
    using off len encodes_length [OF e] by (simp_all add: dt_fits_inside)
  have "(off + 36) mod 4 = 0" using off(1) by presburger
  moreover have "off + 36 + length v < 2 ^ 63 + 2 ^ 62" using off(2-4) by (simp add: blob_ok_def)
  ultimately have "align4 (off + (36 + length v)) = off + length (prop_bytes p)"
    using align4_base [of "off + 36" "length v"] by (simp add: len add.assoc)
  then show ?thesis
    using encodes_length [OF e] w l n by (simp add: skip_property_def Let_def add.assoc)
qed

text \<open>Skipping what is encoded.\<close>

lemma skip_many_encoded:
  assumes "encodes b off (concat (map f xs))" and "0 < off"
    and "\<And>x off. x \<in> set xs \<Longrightarrow> encodes b off (f x) \<Longrightarrow> 0 < off \<Longrightarrow> skip off = Some (off + length (f x))"
    and "\<And>x. x \<in> set xs \<Longrightarrow> length (f x) mod 4 = 0"
  shows "skip_many skip (length xs) off = Some (off + length (concat (map f xs)))"
  using assms
proof (induction xs arbitrary: off)
  case (Cons x xs)
  have e: "encodes b off (f x)" "encodes b (off + length (f x)) (concat (map f xs))"
    using Cons.prems(1,4) encodes_prefix encodes_suffix by fastforce+
  have "skip off = Some (off + length (f x))" using Cons.prems(2) by (intro Cons.prems(3) e(1)) simp_all
  then show ?case using Cons.IH [OF e(2)] Cons.prems(2-4) by simp
qed simp

lemma node_length:
  "tree_ok n t \<Longrightarrow> length (node_bytes t) mod 4 = 0 \<and> 8 \<le> length (node_bytes t)"
proof (induction n t rule: tree_ok.induct)
  case (2 n ps ks)
  have sum: "(\<And>x. x \<in> set xs \<Longrightarrow> length (f x) mod 4 = 0) \<Longrightarrow> length (concat (map f xs)) mod 4 = 0"
    for f :: "'a \<Rightarrow> u8 list" and xs
    by (induction xs) (simp_all add: mod_add_eq [symmetric])
  have "length (concat (map prop_bytes ps)) mod 4 = 0" "length (concat (map node_bytes ks)) mod 4 = 0"
    using 2 prop_length_mod by (auto intro!: sum)
  then have "(length (concat (map prop_bytes ps)) + length (concat (map node_bytes ks)) + 8) mod 4 = 0"
    by presburger
  then show ?case by (simp add: add.commute add.left_commute)
qed simp

lemma read_node_encoded:
  assumes "encodes b off (node_bytes (Tree ps ks))"
  shows "read_node b off = Some (DT_OK, Some \<lparr>nd_offset = off, nd_n_props = of_nat (length ps),
     nd_n_children = of_nat (length ks), nd_props_off = off + 8\<rparr>)"
proof -
  have b: "blob_ok b" "off \<le> length b" "off + 8 \<le> length b"
    using assms encodes_length [OF assms] by (simp_all add: encodes_def)
  have w: "w64 (off + 4) = off + 4" "w64 (off + 8) = off + 8" "dt_fits b off 8"
    using b by (simp_all add: dt_fits_inside)
  show ?thesis
    using assms w encodes_rd32 [of b off "[]"] encodes_rd32 [of b off "le32 (of_nat (length ps))"]
    by (simp add: read_node_def)
qed

text \<open>The parts of an encoded node: its properties, then its children.\<close>

lemma node_parts:
  assumes "encodes b off (node_bytes (Tree ps ks))" and "\<forall>p \<in> set ps. prop_ok p"
  shows "encodes b (off + 8) (concat (map prop_bytes ps))"
    "encodes b (off + 8 + length (concat (map prop_bytes ps))) (concat (map node_bytes ks))"
    "skip_many (skip_property b) (length ps) (off + 8) =
       Some (off + 8 + length (concat (map prop_bytes ps)))"
proof -
  have e: "encodes b (off + 8) (concat (map prop_bytes ps) @ concat (map node_bytes ks))"
    using encodes_suffix [of b off "le32 (of_nat (length ps)) @ le32 (of_nat (length ks))"] assms(1) by simp
  then show p: "encodes b (off + 8) (concat (map prop_bytes ps))" by (rule encodes_prefix)
  show skip: "skip_many (skip_property b) (length ps) (off + 8) =
      Some (off + 8 + length (concat (map prop_bytes ps)))"
    using assms(2) prop_length_mod by (intro skip_many_encoded [OF p]) (auto simp: skip_property_encoded)
  have "length (concat (map prop_bytes ps)) mod 4 = 0"
    using assms(2) prop_length_mod
    by (induction ps) (simp_all add: mod_add_eq [symmetric] del: prop_bytes.simps)
  then show "encodes b (off + 8 + length (concat (map prop_bytes ps))) (concat (map node_bytes ks))"
    by (rule encodes_suffix [OF e])
qed

lemma skip_levels_encoded:
  assumes "tree_ok n t" "encodes b off (node_bytes t)"
  shows "skip_levels n b off = Some (off + length (node_bytes t))"
  using assms
proof (induction n t arbitrary: off rule: tree_ok.induct)
  case (2 n ps ks)
  note ok = 2(2)
  note parts = node_parts [OF 2(3)]
  have "skip_many (skip_levels n b) (length ks) (off + 8 + length (concat (map prop_bytes ps))) =
      Some (off + 8 + length (concat (map prop_bytes ps)) + length (concat (map node_bytes ks)))"
    using ok 2(1) node_length by (intro skip_many_encoded [OF parts(2)]) auto
  then show ?case
    using ok read_node_encoded [OF 2(3)] parts(3) by (simp add: unat_of_nat)
qed simp

lemma tree_ok_mono: "tree_ok n t \<Longrightarrow> n \<le> m \<Longrightarrow> tree_ok m t"
proof (induction n t arbitrary: m rule: tree_ok.induct)
  case (2 n ps ks) then show ?case by (cases m) auto
qed simp

lemma skip_node_encoded:
  "tree_ok n t \<Longrightarrow> n \<le> 33 \<Longrightarrow> encodes b off (node_bytes t) \<Longrightarrow>
   skip_node b off 0 = Some (off + length (node_bytes t))"
  by (simp add: skip_node_def skip_levels_encoded tree_ok_mono)

section \<open>Lookups\<close>

text \<open>A name as a query: a C string without NUL that fits the name field.\<close>

definition name_ok :: "u8 list \<Rightarrow> bool" where
  "name_ok s \<longleftrightarrow> length s \<le> 32 \<and> 0 \<notin> set s"

lemma strncmp_eq_run:
  assumes "0 \<notin> set s" "length s \<le> n" "n \<le> length xs"
  shows "strncmp_eq (pre @ xs @ rest) (length pre) s n =
    Some (take (length s) xs = s \<and> (length s < n \<longrightarrow> xs ! length s = 0))"
  using assms
proof (induction n arbitrary: pre xs s)
  case (Suc n)
  obtain x ys where xs: "xs = x # ys" using Suc.prems(3) by (cases xs) auto
  have at: "(pre @ xs @ rest) ! length pre = x" by (simp add: xs)
  have IH: "strncmp_eq (pre @ xs @ rest) (Suc (length pre)) t n =
      Some (take (length t) ys = t \<and> (length t < n \<longrightarrow> ys ! length t = 0))"
    if "0 \<notin> set t" "length t \<le> n" for t
    using Suc.IH [of t ys "pre @ [x]"] that Suc.prems(3) by (simp add: xs)
  show ?case
  proof (cases s)
    case Nil then show ?thesis using at by (simp add: xs)
  next
    case (Cons c t)
    then show ?thesis using at IH [of t] Suc.prems(1,2) by (auto simp: xs)
  qed
qed simp

lemma padded_name:
  assumes "name_ok s" "name_ok nm"
  shows "take (length s) (nm @ replicate (32 - length nm) 0) = s \<and>
      (length s < 32 \<longrightarrow> (nm @ replicate (32 - length nm) (0 :: u8)) ! length s = 0) \<longleftrightarrow> nm = s"
    (is "?l \<longleftrightarrow> _")
proof
  assume l: ?l
  have "length nm \<le> length s"
  proof (rule ccontr)
    assume "\<not> length nm \<le> length s"
    then have "nm ! length s = 0" "length s < length nm"
      using l assms by (auto simp: nth_append name_ok_def)
    then show False using assms(2) nth_mem [of "length s" nm] by (simp add: name_ok_def)
  qed
  moreover have "length s \<le> length nm"
  proof (rule ccontr)
    assume n: "\<not> length s \<le> length nm"
    have "s ! length nm = take (length s) (nm @ replicate (32 - length nm) 0) ! length nm" using l by metis
    also have "\<dots> = 0" using n assms(1) by (simp del: take_append add: nth_append name_ok_def)
    finally have "s ! length nm = 0" .
    then show False using assms(1) n nth_mem [of "length nm" s] by (simp add: name_ok_def)
  qed
  ultimately show "nm = s" using l by simp
qed (use assms in \<open>auto simp: nth_append name_ok_def\<close>)

lemma strncmp_field:
  assumes "name_ok s" "name_ok nm" and b: "b = pre @ (nm @ replicate (32 - length nm) 0) @ rest" "length pre = off"
  shows "strncmp_eq b off s 32 = Some (nm = s)"
proof -
  let ?f = "nm @ replicate (32 - length nm) (0 :: u8)"
  have "strncmp_eq (pre @ ?f @ rest) (length pre) s 32 =
      Some (take (length s) ?f = s \<and> (length s < 32 \<longrightarrow> ?f ! length s = 0))"
    using assms(1,2) by (intro strncmp_eq_run) (simp_all add: name_ok_def)
  then show ?thesis unfolding padded_name [OF assms(1,2)] using b by simp
qed

lemma find_property_encoded:
  assumes "encodes b off (concat (map prop_bytes ps))" "0 < off" "\<forall>p \<in> set ps. prop_ok p" "name_ok name"
  shows "case find (\<lambda>p. fst p = name) ps of
      None \<Rightarrow> find_property b (length ps) off name = Some (DT_ERR_NOT_FOUND, None)
    | Some (_, _, v) \<Rightarrow> \<exists>o' l. find_property b (length ps) off name = Some (DT_OK, Some (o', l)) \<and>
        unat l = length v \<and> (\<exists>pre rest. b = pre @ v @ rest \<and> length pre = o')"
  using assms(1-3)
proof (induction ps arbitrary: off)
  case (Cons p ps)
  obtain nm flag v where p: "p = (nm, flag, v)" by (rule prod_cases3)
  have ok: "prop_ok p" using Cons.prems(3) by simp
  have e: "encodes b off (prop_bytes p)" "encodes b (off + length (prop_bytes p)) (concat (map prop_bytes ps))"
    using Cons.prems(1) prop_length_mod [OF ok] encodes_prefix encodes_suffix by fastforce+
  obtain pre rest where b: "b = pre @ prop_bytes p @ rest" "length pre = off"
    using e(1) by (auto simp: encodes_def)
  let ?l = "of_nat (length v) OR (if flag then 0x80000000 else 0) :: u32"
  have at: "blob_ok b" "off \<le> length b" "off + 36 + length v \<le> length b" "length v < 2 ^ 31"
    using e(1) encodes_length [OF e(1)] prop_length [of nm flag v] ok by (simp_all add: p encodes_def prop_ok_def)
  have fits: "dt_fits b off 36" and w: "w64 (off + 32) = off + 32" "w64 (off + 36) = off + 36"
    and room: "dt_fits b (off + 36) (length v)"
    using at by (simp_all add: dt_fits_inside)
  have "b = pre @ (nm @ replicate (32 - length nm) 0) @ (le32 ?l @ v @ replicate (pad4 (length v)) 0 @ rest)"
    using b by (simp add: p)
  moreover have "name_ok nm" using ok by (simp add: p prop_ok_def name_ok_def)
  ultimately have cmp: "strncmp_eq b off name 32 = Some (nm = name)"
    using strncmp_field [OF assms(4)] b(2) by blast
  have l: "rd32 b (off + 32) = Some ?l"
    using encodes_rd32 [of b off "nm @ replicate (32 - length nm) 0" ?l] e(1) ok
    by (simp add: p prop_ok_def)
  have n: "unat (?l AND 0x7fffffff) = length v"
    using ok by (intro length_word) (simp add: p prop_ok_def)
  show ?case
  proof (cases "nm = name")
    case True
    let ?pre = "pre @ nm @ replicate (32 - length nm) 0 @ le32 ?l"
    have v: "b = ?pre @ v @ (replicate (pad4 (length v)) 0 @ rest)" "length ?pre = off + 36"
      using b ok by (simp_all add: p prop_ok_def)
    have "find_property b (length (p # ps)) off name = Some (DT_OK, Some (off + 36, ?l AND 0x7fffffff))"
      using fits room w cmp l n True by (simp add: Let_def)
    moreover have "\<exists>pre rest. b = pre @ v @ rest \<and> length pre = off + 36" using v by blast
    ultimately show ?thesis using n True by (auto simp: p)
  next
    case False
    have "find_property b (length (p # ps)) off name = find_property b (length ps) (off + length (prop_bytes p)) name"
      using False fits cmp skip_property_encoded [OF e(1) ok] Cons.prems(2) by simp
    moreover have "find (\<lambda>p. fst p = name) (p # ps) = find (\<lambda>p. fst p = name) ps"
      using False by (simp add: p)
    ultimately show ?thesis using Cons.IH [OF e(2)] Cons.prems(2,3) by (simp only:) simp
  qed
qed simp

text \<open>Children.\<close>

lemma name_matches_encoded:
  assumes "b = pre @ v @ rest" "length pre = off" "unat l = length v" "0 \<notin> set name"
  shows "name_matches b off l name = Some (v = name \<or> (\<exists>w. v = name @ 0 # w))"
proof (cases "length v < length name")
  case True
  then show ?thesis using assms(3) by (auto simp: name_matches_def)
next
  case False
  have cmp: "strncmp_eq b off name (length name) = Some (take (length name) v = name)"
    using strncmp_eq_run [of name "length name" v pre rest] False assms by simp
  show ?thesis
  proof (cases "take (length name) v = name \<and> length v \<noteq> length name")
    case True
    with False have n: "length name < length v" by simp
    have "(v = name \<or> (\<exists>w. v = name @ 0 # w)) \<longleftrightarrow> v ! length name = 0"
    proof
      assume "v ! length name = 0"
      then show "v = name \<or> (\<exists>w. v = name @ 0 # w)"
        using id_take_nth_drop [OF n] True by metis
    qed (use n in auto)
    moreover have "b ! (off + length name) = v ! length name" using n assms(1,2) by (simp add: nth_append)
    moreover have "off + length name < length b" using n assms(1,2) by simp
    ultimately show ?thesis
      using cmp True assms(3) n by (simp add: name_matches_def Let_def)
  next
    case no: False
    show ?thesis
    proof (cases "take (length name) v = name")
      case True
      then have "length v = length name" "v = name" using no by auto
      then show ?thesis using cmp assms(3) by (simp add: name_matches_def Let_def)
    next
      case False
      then have "v \<noteq> name" "\<nexists>w. v = name @ 0 # w" by auto
      then show ?thesis using cmp False \<open>\<not> length v < length name\<close> assms(3) by (simp add: name_matches_def Let_def)
    qed
  qed
qed

lemma name_name_ok: "name_ok name_name" "name_name \<noteq> []"
  by (simp_all add: name_ok_def name_name_def)

text \<open>The node record that stands for a tree at an offset.\<close>

definition stands_for :: "u8 list \<Rightarrow> dt_node \<Rightarrow> tree \<Rightarrow> bool" where
  "stands_for b n t \<longleftrightarrow> encodes b (nd_offset n) (node_bytes t) \<and> read_node b (nd_offset n) = Some (DT_OK, Some n)"

lemma stands_for_parts:
  assumes "stands_for b n (Tree ps ks)"
  shows "unat (nd_n_props n) = length ps mod 4294967296" "unat (nd_n_children n) = length ks mod 4294967296"
    "nd_props_off n = nd_offset n + 8"
proof -
  have "n = \<lparr>nd_offset = nd_offset n, nd_n_props = of_nat (length ps),
      nd_n_children = of_nat (length ks), nd_props_off = nd_offset n + 8\<rparr>"
    using assms read_node_encoded [of b "nd_offset n" ps ks] by (simp add: stands_for_def)
  then obtain o' where "n = \<lparr>nd_offset = o', nd_n_props = of_nat (length ps),
      nd_n_children = of_nat (length ks), nd_props_off = o' + 8\<rparr>" by blast
  then show "unat (nd_n_props n) = length ps mod 4294967296"
    "unat (nd_n_children n) = length ks mod 4294967296" "nd_props_off n = nd_offset n + 8"
    by (simp_all add: unat_of_nat)
qed

lemma property_encoded:
  assumes s: "stands_for b n t" and ok: "tree_ok k t" and name: "name_ok name"
  shows "case tree_prop name t of
      None \<Rightarrow> dt_property b n name = Some (DT_ERR_NOT_FOUND, None)
    | Some v \<Rightarrow> \<exists>o' l. dt_property b n name = Some (DT_OK, Some (o', l)) \<and>
        unat l = length v \<and> (\<exists>pre rest. b = pre @ v @ rest \<and> length pre = o')"
proof (cases t)
  case (Tree ps ks)
  from ok obtain j where k: "k = Suc j" by (cases k) auto
  have p: "length ps < 4294967296" "\<forall>p \<in> set ps. prop_ok p" using ok by (simp_all add: Tree k)
  have "encodes b (nd_offset n) (node_bytes (Tree ps ks))" using s by (simp add: stands_for_def Tree)
  note f = find_property_encoded [OF node_parts(1) [OF this p(2)] _ p(2) name]
  show ?thesis
    using f stands_for_parts [OF s [unfolded Tree]] p(1)
    by (cases "find (\<lambda>p. fst p = name) ps") (auto simp: dt_property_def Tree split: prod.splits)
qed

lemma find_child_encoded:
  assumes "encodes b off (concat (map node_bytes ks))" "0 < off" "\<forall>k \<in> set ks. tree_ok n k" "n \<le> 33"
    and name: "0 \<notin> set name"
  shows "case find (named name) ks of
      None \<Rightarrow> find_child b (length ks) off name = Some (DT_ERR_NOT_FOUND, None)
    | Some k \<Rightarrow> \<exists>c. find_child b (length ks) off name = Some (DT_OK, Some c) \<and> stands_for b c k"
  using assms(1-3)
proof (induction ks arbitrary: off)
  case (Cons k ks)
  have ok: "tree_ok n k" using Cons.prems(3) by simp
  have e: "encodes b off (node_bytes k)" "encodes b (off + length (node_bytes k)) (concat (map node_bytes ks))"
    using Cons.prems(1) node_length [OF ok] encodes_prefix encodes_suffix by fastforce+
  obtain ps js where k: "k = Tree ps js" by (rule tree.exhaust)
  obtain c where c: "read_node b off = Some (DT_OK, Some c)" "nd_offset c = off"
    using read_node_encoded [OF e(1) [unfolded k]] by auto
  have s: "stands_for b c k" using c e(1) by (simp add: stands_for_def)
  have hit: "\<exists>st r. dt_property b c name_name = Some (st, r) \<and>
      (case (st, r) of (DT_OK, Some (v, len)) \<Rightarrow> name_matches b v len name | _ \<Rightarrow> Some False) =
      Some (named name k)"
    using property_encoded [OF s ok name_name_ok(1)] name_matches_encoded [of b _ _ _ _ _ name] name
    by (cases "tree_prop name_name k") (fastforce simp: named_def)+
  then obtain st r where hit: "dt_property b c name_name = Some (st, r)"
      "(case (st, r) of (DT_OK, Some (v, len)) \<Rightarrow> name_matches b v len name | _ \<Rightarrow> Some False) =
       Some (named name k)"
    by blast
  show ?case
  proof (cases "named name k")
    case True
    then show ?thesis using c hit s by simp
  next
    case False
    have "find_child b (length (k # ks)) off name = find_child b (length ks) (off + length (node_bytes k)) name"
      using False c hit skip_node_encoded [OF ok assms(4) e(1)] Cons.prems(2) by simp
    moreover have "find (named name) (k # ks) = find (named name) ks" using False by simp
    ultimately show ?thesis
      using Cons.IH [OF e(2)] Cons.prems(2,3) by (simp only:) simp
  qed
qed simp

lemma find_in: "find P xs = Some x \<Longrightarrow> x \<in> set xs"
  by (auto simp: find_Some_iff)

lemma child_encoded:
  assumes s: "stands_for b n t" and ok: "tree_ok (Suc j) t" "j \<le> 33" and name: "0 \<notin> set name"
  shows "case tree_child name t of
      None \<Rightarrow> dt_child b n name = Some (DT_ERR_NOT_FOUND, None)
    | Some k \<Rightarrow> tree_ok j k \<and> (\<exists>c. dt_child b n name = Some (DT_OK, Some c) \<and> stands_for b c k)"
proof (cases t)
  case (Tree ps ks)
  have p: "length ps < 4294967296" "length ks < 4294967296" "\<forall>p \<in> set ps. prop_ok p" "\<forall>k \<in> set ks. tree_ok j k"
    using ok(1) by (simp_all add: Tree)
  have "encodes b (nd_offset n) (node_bytes (Tree ps ks))" using s by (simp add: stands_for_def Tree)
  note parts = node_parts [OF this p(3)]
  have "dt_child b n name =
      find_child b (length ks) (nd_offset n + 8 + length (concat (map prop_bytes ps))) name"
    using stands_for_parts [OF s [unfolded Tree]] parts(3) p by (simp add: dt_child_def)
  then show ?thesis
    using find_child_encoded [OF parts(2) _ p(4) ok(2) name] p(4) find_in [of "named name" ks]
    by (cases "find (named name) ks") (auto simp: Tree)
qed

text \<open>Paths.\<close>

definition seg_ok :: "u8 list \<Rightarrow> bool" where
  "seg_ok s \<longleftrightarrow> s \<noteq> [] \<and> length s < 32 \<and> 0 \<notin> set s \<and> list_all (\<lambda>c. \<not> is_slash c) s"

definition path_bytes :: "u8 list list \<Rightarrow> u8 list" where
  "path_bytes segs = concat (map (\<lambda>s. 0x2f # s) segs)"

lemma path_tail:
  assumes "seg_ok s" "list_all seg_ok segs"
  shows "takeWhile (\<lambda>c. \<not> is_slash c) (s @ path_bytes segs) = s"
    "dropWhile is_slash (path_bytes (s # segs)) = s @ path_bytes segs"
proof -
  have "takeWhile (\<lambda>c. \<not> is_slash c) (path_bytes segs) = []"
    by (cases segs) (simp_all add: path_bytes_def is_slash_def)
  then show "takeWhile (\<lambda>c. \<not> is_slash c) (s @ path_bytes segs) = s"
    using assms(1) by (simp add: seg_ok_def list_all_iff takeWhile_append2)
  obtain c t where "s = c # t" "\<not> is_slash c" using assms(1) by (cases s) (auto simp: seg_ok_def)
  then show "dropWhile is_slash (path_bytes (s # segs)) = s @ path_bytes segs"
    by (simp add: path_bytes_def is_slash_def)
qed

lemma path_encoded:
  assumes "stands_for b n t" "tree_ok j t" "j \<le> 33" "list_all seg_ok segs"
  shows "case tree_path segs t of
      None \<Rightarrow> dt_path b n (path_bytes segs) = Some (DT_ERR_NOT_FOUND, None)
    | Some k \<Rightarrow> \<exists>c i. dt_path b n (path_bytes segs) = Some (DT_OK, Some c) \<and> stands_for b c k \<and> tree_ok i k"
  using assms
proof (induction segs arbitrary: n t j)
  case Nil
  then show ?case by (auto simp: dt_path_def path_bytes_def dt_walk.simps)
next
  case (Cons s segs)
  obtain i where j: "j = Suc i" using Cons.prems(2) by (cases j) auto
  have seg: "seg_ok s" "list_all seg_ok segs" using Cons.prems(4) by simp_all
  then have nul: "0 \<notin> set s" "s \<noteq> []" "\<not> 32 \<le> length s" by (simp_all add: seg_ok_def)
  note child = child_encoded [OF Cons.prems(1) Cons.prems(2) [unfolded j] _ nul(1)]
  have walk: "dt_path b n (path_bytes (s # segs)) =
      (case dt_child b n s of
         None \<Rightarrow> None
       | Some (DT_OK, Some c) \<Rightarrow> dt_path b c (path_bytes segs)
       | Some (st, _) \<Rightarrow> Some (st, None))"
    unfolding dt_path_def path_tail [OF seg]
    using nul by (subst dt_walk.simps) (simp add: path_tail [OF seg] split: option.splits dt_status.splits)
  show ?case
  proof (cases "tree_child s t")
    case None
    then show ?thesis using child walk Cons.prems(3) by (simp add: j)
  next
    case (Some k)
    obtain c where c: "dt_child b n s = Some (DT_OK, Some c)" "stands_for b c k" "tree_ok i k"
      using child Some Cons.prems(3) by (auto simp: j)
    have "i \<le> 33" using Cons.prems(3) by (simp add: j)
    from Cons.IH [OF c(2,3) this seg(2)] show ?thesis
      using walk c(1) Some by (cases "tree_path segs k") simp_all
  qed
qed

text \<open>
  C15:
  The device tree lookups mean what they should. On a blob (a C object) that encodes a tree of at most 33
  levels, validation succeeds, a path finds the node that walking the tree by child names finds
  (or reports not found), and a property lookup on it yields exactly the value of the first
  property of that name (or not found), flag bits and alignment notwithstanding.
\<close>

theorem dt_lookup_refines:
  assumes "tree_ok 33 t" and "list_all seg_ok segs" and "name_ok name"
    and b: "b = node_bytes t @ rest" and "blob_ok b"
  shows "\<exists>root. dt_parse b = Some (DT_OK, Some root) \<and>
    (case tree_path segs t of
       None \<Rightarrow> dt_path b root (path_bytes segs) = Some (DT_ERR_NOT_FOUND, None)
     | Some k \<Rightarrow> \<exists>c. dt_path b root (path_bytes segs) = Some (DT_OK, Some c) \<and>
         (case tree_prop name k of
            None \<Rightarrow> dt_property b c name = Some (DT_ERR_NOT_FOUND, None)
          | Some v \<Rightarrow> \<exists>o' l. dt_property b c name = Some (DT_OK, Some (o', l)) \<and>
              slice b o' (unat l) = Some v))"
proof -
  have e: "encodes b 0 (node_bytes t)" using assms(5) by (auto simp: encodes_def b)
  obtain ps ks where t: "t = Tree ps ks" by (rule tree.exhaust)
  obtain root where root: "read_node b 0 = Some (DT_OK, Some root)" "nd_offset root = 0"
    using read_node_encoded [OF e [unfolded t]] by auto
  have "8 \<le> length (node_bytes t)" using node_length [OF assms(1)] by simp
  then have "node_bytes t \<noteq> []" "8 \<le> length b" using encodes_length [OF e] by auto
  then have "dt_parse b = Some (DT_OK, Some root)"
    using skip_node_encoded [OF assms(1) _ e] root by (simp add: dt_parse_def)
  moreover have s: "stands_for b root t" using e root by (simp add: stands_for_def)
  have val: "case tree_prop name k of
       None \<Rightarrow> dt_property b c name = Some (DT_ERR_NOT_FOUND, None)
     | Some v \<Rightarrow> \<exists>o' l. dt_property b c name = Some (DT_OK, Some (o', l)) \<and> slice b o' (unat l) = Some v"
    if "stands_for b c k" "tree_ok i k" for c k i
    using property_encoded [OF that assms(3)] by (cases "tree_prop name k") (fastforce simp: slice_def)+
  show ?thesis
    using calculation path_encoded [OF s assms(1) _ assms(2)] val
    by (cases "tree_path segs t") (simp, fastforce)
qed

text \<open>A root with a model, and one child with a flagged register property.\<close>

definition demo_tree :: tree where
  "demo_tree = Tree [([0x6d], False, [1, 2, 3])]
     [Tree [(name_name, False, [0x61, 0]), ([0x72], True, [4, 5, 6, 7])] []]"

lemma dt_lookup_refines_witness:
  "\<exists>root c o' l. dt_parse (node_bytes demo_tree) = Some (DT_OK, Some root) \<and>
     dt_path (node_bytes demo_tree) root [0x2f, 0x61] = Some (DT_OK, Some c) \<and>
     dt_property (node_bytes demo_tree) c [0x72] = Some (DT_OK, Some (o', l)) \<and>
     slice (node_bytes demo_tree) o' (unat l) = Some [4, 5, 6, 7]"
proof -
  have ok: "tree_ok 33 demo_tree"
    by (rule tree_ok_mono [of "Suc (Suc 0)"]) (simp_all add: demo_tree_def prop_ok_def name_name_def)
  have "tree_path [[0x61]] demo_tree = Some (Tree [(name_name, False, [0x61, 0]), ([0x72], True, [4, 5, 6, 7])] [])"
    by (simp add: demo_tree_def named_def name_name_def)
  moreover have "blob_ok (node_bytes demo_tree)"
    by (simp add: blob_ok_def demo_tree_def name_name_def pad4_def)
  ultimately show ?thesis
    using dt_lookup_refines [OF ok, of "[[0x61]]" "[0x72]" "node_bytes demo_tree" "[]"]
    by (simp add: seg_ok_def is_slash_def name_ok_def path_bytes_def name_name_def)
qed

end
