(* ===== verification/Address_Map.thy ===== *)
theory Address_Map
  imports Bytes
begin

text \<open>
  The physical address map of the machine (core/src/soc/machine.c): the device windows, the overlap
  test that refuses a conflicting RAM aperture or stub, the range tests every access goes through,
  and the byte-addressed storage of a stub window. The contract of byte-addressed storage is a
  locale; stub windows are one of its interpretations, RAM behind the bus is another.
\<close>

unbundle bit_operations_syntax

section \<open>The code\<close>

record s5l_window =
  win_base :: u32
  win_size :: u32
  win_name :: string

abbreviation window :: "u32 \<Rightarrow> u32 \<Rightarrow> string \<Rightarrow> s5l_window" where
  "window b s n \<equiv> \<lparr>win_base = b, win_size = s, win_name = n\<rparr>"

definition DEVICE_WINDOWS :: "s5l_window list" where
  "DEVICE_WINDOWS =
     [window 0x28000000 0x00100000 ''nor'',
      window 0x38900000 0x1000 ''clcd'',
      window 0x39100000 0x1000 ''tvout-control'',
      window 0x39200000 0x1000 ''tvout-mixer'',
      window 0x39300000 0x1000 ''tvout-sdo'',
      window 0x3b000000 0x01000000 ''mbx'',
      window 0x3c600000 0x1000 ''i2c0'',
      window 0x3c900000 0x1000 ''i2c1'',
      window 0x3ca00000 0x1000 ''i2s0'',
      window 0x3cd00000 0x1000 ''i2s1'',
      window 0x3c300000 0x1000 ''spi0'',
      window 0x3ce00000 0x1000 ''spi1'',
      window 0x38400000 0x1000 ''usb-otg'',
      window 0x38e00000 0x1000 ''vic0'',
      window 0x38e01000 0x1000 ''vic1'',
      window 0x39a00000 0x80 ''power'',
      window 0x39a00080 0xf80 ''gpioic'',
      window 0x3e400000 0x1000 ''gpio'',
      window 0x3cc00000 0x1000 ''uart0'',
      window 0x3cc10000 0x1000 ''uart4'',
      window 0x3e200000 0x11000 ''timer'',
      window 0x3e300000 0x1000 ''wdt'',
      window 0x38200000 0x1000 ''dmac0'',
      window 0x39900000 0x1000 ''dmac1'']"

definition SOC_REGIONS :: "s5l_window list" where
  "SOC_REGIONS =
     [window 0x08000000 0x08000000 ''dram (128 MB fitted)'',
      window 0x18000000 0x00140000 ''edram'',
      window 0x20000000 0x00010000 ''vrom'',
      window 0x22000000 0x0002c000 ''sram/amc'',
      window 0x38000000 0x08000000 ''arm-io'']"

text \<open>The ends are 64-bit sums in the code: natural numbers here.\<close>

definition s5l8900_overlaps :: "u32 \<Rightarrow> u32 \<Rightarrow> u32 \<Rightarrow> u32 \<Rightarrow> bool" where
  "s5l8900_overlaps a alen b blen \<longleftrightarrow>
     (if alen = 0 \<or> blen = 0 then False
      else unat b < unat a + unat alen \<and> unat a < unat b + unat blen)"

definition s5l8900_ram_conflict :: "u32 \<Rightarrow> u32 \<Rightarrow> s5l_window option" where
  "s5l8900_ram_conflict ram_base ram_size =
     find (\<lambda>w. s5l8900_overlaps ram_base ram_size (win_base w) (win_size w)) DEVICE_WINDOWS"

definition in_window :: "u32 \<Rightarrow> nat \<Rightarrow> u32 \<Rightarrow> u32 \<Rightarrow> bool" where
  "in_window a bytes base size' \<longleftrightarrow>
     (if bytes = 0 \<or> a < base then False else unat (a - base) + bytes \<le> unat size')"

definition in_dev :: "u32 \<Rightarrow> nat \<Rightarrow> u32 \<Rightarrow> bool" where
  "in_dev a bytes base = in_window a bytes base 0x1000"

definition mmio_word :: "u32 \<Rightarrow> nat \<Rightarrow> u32 \<Rightarrow> u32 \<Rightarrow> bool" where
  "mmio_word a bytes base size' \<longleftrightarrow> bytes = 4 \<and> a AND 3 = 0 \<and> in_window a bytes base size'"

definition mmio_data :: "u32 \<Rightarrow> nat \<Rightarrow> u32 \<Rightarrow> u32 \<Rightarrow> bool" where
  "mmio_data a bytes base size' \<longleftrightarrow>
     (bytes = 1 \<or> bytes = 2 \<or> bytes = 4) \<and> a AND (of_nat bytes - 1) = 0 \<and> in_window a bytes base size'"

record s5l_stub =
  st_base :: u32
  st_size :: u32
  st_name :: string
  st_regs :: "u32 list"
  st_nregs :: u32
  st_reads :: u64
  st_writes :: u64
  st_oob :: u64

definition stub_read :: "s5l_stub \<Rightarrow> u32 \<Rightarrow> nat \<Rightarrow> u32" where
  "stub_read s addr bytes =
     foldl (\<lambda>v i.
        let at = (addr - st_base s) + of_nat i;
            byte = shr (st_regs s ! unat (shr at 2)) (unat ((at AND 3) * 8)) AND 0xff
        in v OR shl byte (i * 8)) 0 [0..<bytes]"

definition stub_write :: "s5l_stub \<Rightarrow> u32 \<Rightarrow> u32 \<Rightarrow> nat \<Rightarrow> s5l_stub" where
  "stub_write s addr val bytes =
     foldl (\<lambda>s' i.
        let at = (addr - st_base s) + of_nat i; shift = unat ((at AND 3) * 8);
            k = unat (shr at 2); reg = st_regs s' ! k
        in s'\<lparr>st_regs := (st_regs s')[k := (reg AND NOT (shl 0xff shift)) OR
                                           shl (shr val (i * 8) AND 0xff) shift]\<rparr>) s [0..<bytes]"

section \<open>Ranges\<close>

lemma unat_add_small: "unat (a :: u32) + k < unat (b :: u32) \<Longrightarrow> unat (a + of_nat k) = unat a + k"
proof -
  assume "unat a + k < unat b"
  moreover have "unat b < 4294967296" using unsigned_less [of b] by simp
  ultimately show ?thesis by (simp add: unat_word_ariths unat_of_nat)
qed

lemma in_window_span:
  assumes "in_window a n base size'"
  shows "unat base \<le> unat a" "unat a + n \<le> unat base + unat size'" "n \<noteq> 0"
proof -
  have le: "base \<le> a" and n: "n \<noteq> 0" and fit: "unat (a - base) + n \<le> unat size'"
    using assms by (auto simp: in_window_def split: if_splits)
  have "unat (a - base) = unat a - unat base" using le by (rule unat_sub)
  moreover have "unat base \<le> unat a" using le by (simp add: word_le_nat_alt)
  ultimately show "unat base \<le> unat a" "unat a + n \<le> unat base + unat size'" using fit by linarith+
  show "n \<noteq> 0" by (fact n)
qed

lemma in_window_part:
  assumes "in_window a n base size'" "j + k \<le> n" "k \<noteq> 0" "unat base + unat size' \<le> 0x100000000"
  shows "in_window (a + of_nat j) k base size'"
proof -
  have le: "base \<le> a" and fit: "unat (a - base) + n \<le> unat size'"
    using assms(1) by (auto simp: in_window_def split: if_splits)
  have j: "unat (a - base) + j < unat size'" using fit assms(2,3) by linarith
  then have "unat (a - base + of_nat j) = unat (a - base) + j" by (rule unat_add_small)
  moreover have "a + of_nat j - base = a - base + of_nat j" by simp
  ultimately have off: "unat (a + of_nat j - base) = unat (a - base) + j" by (simp only:)
  have "unat a + j < 4294967296" using in_window_span [OF assms(1)] assms(2-4) by linarith
  then have "unat (a + of_nat j) = unat a + j" by (simp add: unat_word_ariths unat_of_nat)
  then have "base \<le> a + of_nat j" using le by (simp add: word_le_nat_alt)
  then show ?thesis using off fit assms(2,3) by (simp add: in_window_def not_less)
qed

lemma overlap_of_common_access:
  assumes "in_window a n b1 s1" "in_window a n b2 s2"
  shows "s5l8900_overlaps b1 s1 b2 s2"
proof -
  note i = in_window_span [OF assms(1)] in_window_span [OF assms(2)]
  have "unat s1 \<noteq> 0" "unat s2 \<noteq> 0" using i by linarith+
  then have "s1 \<noteq> 0" "s2 \<noteq> 0" by auto
  then show ?thesis using i by (simp add: s5l8900_overlaps_def)
qed

lemma overlaps_sym: "s5l8900_overlaps a m b n = s5l8900_overlaps b n a m"
  by (auto simp: s5l8900_overlaps_def)

definition windows_apart :: "s5l_window list \<Rightarrow> bool" where
  "windows_apart ws \<longleftrightarrow>
     sorted_wrt (\<lambda>v w. \<not> s5l8900_overlaps (win_base v) (win_size v) (win_base w) (win_size w)) ws"

lemma windows_apart_spans:
  assumes "map (\<lambda>w. (unat (win_base w), unat (win_size w))) ws = spans"
    and "sorted_wrt (\<lambda>(a, m) (b, n). a + m \<le> b \<or> b + n \<le> a) spans"
  shows "windows_apart ws"
  using assms(2) unfolding assms(1) [symmetric] windows_apart_def sorted_wrt_map
  by (rule sorted_wrt_mono_rel [rotated]) (auto simp: s5l8900_overlaps_def)

lemma device_windows_apart: "windows_apart DEVICE_WINDOWS"
  by (rule windows_apart_spans, simp add: DEVICE_WINDOWS_def, simp)

lemma windows_apart_unique:
  assumes "windows_apart ws" "v \<in> set ws" "w \<in> set ws"
    and "in_window a n (win_base v) (win_size v)" "in_window a n (win_base w) (win_size w)"
  shows "v = w"
proof -
  obtain i j where i: "i < length ws" "v = ws ! i" and j: "j < length ws" "w = ws ! j"
    using assms(2,3) by (auto simp: in_set_conv_nth)
  have no: "\<not> (p < q)" if "p < length ws" "q < length ws" "in_window a n (win_base (ws ! p)) (win_size (ws ! p))"
      "in_window a n (win_base (ws ! q)) (win_size (ws ! q))" for p q
    using assms(1) that overlap_of_common_access [OF that(3,4)]
    by (auto simp: windows_apart_def sorted_wrt_iff_nth_less)
  show ?thesis using no i j assms(4,5) by (metis linorder_neqE_nat)
qed

section \<open>Byte-addressed storage\<close>

text \<open>
  A region of memory read and written 1 to 4 bytes at a time: a read spells the bytes it covers, low
  byte first, and a write replaces exactly those.
\<close>

locale byte_store =
  fixes rd :: "'s \<Rightarrow> u32 \<Rightarrow> nat \<Rightarrow> u32"
    and wr :: "'s \<Rightarrow> u32 \<Rightarrow> u32 \<Rightarrow> nat \<Rightarrow> 's"
    and byte :: "'s \<Rightarrow> u32 \<Rightarrow> u8"
    and inside :: "'s \<Rightarrow> u32 \<Rightarrow> nat \<Rightarrow> bool"
  assumes rd_bytes: "inside s a n \<Longrightarrow> n \<le> 4 \<Longrightarrow> rd s a n = le_word (map (\<lambda>i. byte s (a + of_nat i)) [0..<n])"
    and wr_byte: "inside s a n \<Longrightarrow> n \<le> 4 \<Longrightarrow>
      byte (wr s a v n) x = (if unat (x - a) < n then ucast (shr v (8 * unat (x - a))) else byte s x)"
    and wr_inside: "inside s a n \<Longrightarrow> n \<le> 4 \<Longrightarrow> inside (wr s a v n) b k = inside s b k"
begin

lemma rd_le_bytes: "inside s a n \<Longrightarrow> n \<le> 4 \<Longrightarrow> le_bytes n (rd s a n) = map (\<lambda>i. byte s (a + of_nat i)) [0..<n]"
  by (simp add: rd_bytes le_bytes_le_word)

lemma read_back:
  assumes "inside s a n" "n \<le> 4"
  shows "rd (wr s a v n) a n = v AND mask (8 * n)"
proof -
  have "map (\<lambda>i. byte (wr s a v n) (a + of_nat i)) [0..<n] = le_bytes n v"
    by (rule nth_equalityI) (use assms in \<open>simp_all add: wr_byte unat_of_nat\<close>)
  then show ?thesis
    using assms rd_bytes [of "wr s a v n" a n] wr_inside [OF assms] le_word_le_bytes [OF assms(2)] by simp
qed

lemma read_elsewhere:
  assumes "inside s a n" "n \<le> 4" "inside s b k" "k \<le> 4"
    and "\<forall>i<k. \<not> unat (b + of_nat i - a) < n"
  shows "rd (wr s a v n) b k = rd s b k"
proof -
  have "map (\<lambda>i. byte (wr s a v n) (b + of_nat i)) [0..<k] = map (\<lambda>i. byte s (b + of_nat i)) [0..<k]"
    using assms(5) by (simp add: wr_byte [OF assms(1,2)])
  then show ?thesis
    using assms(3,4) rd_bytes [of "wr s a v n" b k] rd_bytes [of s b k] wr_inside [OF assms(1,2)]
    by (simp only:)
qed

text \<open>A byte lane of a word: reading one byte out of what was written.\<close>

lemma read_lane:
  assumes "inside s a n" "n \<le> 4" "i < n" "inside s (a + of_nat i) 1"
  shows "rd (wr s a v n) (a + of_nat i) 1 = shr v (8 * i) AND 0xff"
proof -
  have "rd (wr s a v n) (a + of_nat i) 1 = ucast (byte (wr s a v n) (a + of_nat i))"
    using assms rd_bytes [of "wr s a v n" "a + of_nat i" 1] by (simp add: wr_inside)
  also have "byte (wr s a v n) (a + of_nat i) = ucast (shr v (8 * i))"
    using assms by (simp add: wr_byte unat_of_nat)
  also have "(ucast (ucast (shr v (8 * i)) :: u8) :: u32) = shr v (8 * i) AND mask 8"
    by (rule bit_word_eqI) (auto simp: bit_simps)
  finally show ?thesis by (simp add: mask_eq_exp_minus_1)
qed

end

section \<open>Stub windows are byte-addressed storage\<close>

definition stub_byte :: "s5l_stub \<Rightarrow> u32 \<Rightarrow> u8" where
  "stub_byte s x = ucast (shr (st_regs s ! unat (shr (x - st_base s) 2)) (unat (((x - st_base s) AND 3) * 8)))"

definition stub_inside :: "s5l_stub \<Rightarrow> u32 \<Rightarrow> nat \<Rightarrow> bool" where
  "stub_inside s a n \<longleftrightarrow> in_window a n (st_base s) (st_size s) \<and>
     length (st_regs s) = (unat (st_size s) + 3) div 4"

text \<open>The store of one byte.\<close>

definition stub_poke :: "u32 \<Rightarrow> u8 \<Rightarrow> s5l_stub \<Rightarrow> s5l_stub" where
  "stub_poke x b s =
     (let at = x - st_base s; shift = unat ((at AND 3) * 8); k = unat (shr at 2)
      in s\<lparr>st_regs := (st_regs s)[k := (st_regs s ! k AND NOT (shl 0xff shift)) OR shl (ucast b) shift]\<rparr>)"

lemma foldl_le_word:
  "foldl (\<lambda>v i. v OR shl (ucast (g i)) (i * 8)) 0 [0..<n] = le_word (map g [0..<n])"
proof (induction n)
  case (Suc n)
  have "le_word (bs @ [b]) = le_word bs OR shl (ucast b) (8 * length bs)" for bs b
    by (induction bs) (auto simp: push_bit_or or.assoc)
  then show ?case using Suc by (simp add: mult.commute)
qed simp

lemma low_byte: "x AND 0xff = (ucast (ucast x :: u8) :: u32)"
proof -
  have m: "(0xff :: u32) = mask 8" by (simp add: mask_eq_exp_minus_1)
  show ?thesis unfolding m by (rule bit_word_eqI) (auto simp: bit_simps)
qed

lemma stub_read_bytes: "stub_read s a n = le_word (map (\<lambda>i. stub_byte s (a + of_nat i)) [0..<n])"
proof -
  have "stub_read s a n = foldl (\<lambda>v i. v OR shl (ucast (stub_byte s (a + of_nat i))) (i * 8)) 0 [0..<n]"
    by (simp add: stub_read_def Let_def low_byte stub_byte_def algebra_simps)
  then show ?thesis by (simp only: foldl_le_word)
qed

lemma stub_poke_frame [simp]:
  "st_base (stub_poke x b s) = st_base s" "st_size (stub_poke x b s) = st_size s"
  "length (st_regs (stub_poke x b s)) = length (st_regs s)"
  by (simp_all add: stub_poke_def Let_def)

lemma stub_write_0 [simp]: "stub_write s a v 0 = s"
  by (simp add: stub_write_def)

lemma stub_write_step:
  "stub_write s a v (Suc n) =
     (let s' = stub_write s a v n; at = (a - st_base s) + of_nat n; shift = unat ((at AND 3) * 8);
          k = unat (shr at 2)
      in s'\<lparr>st_regs := (st_regs s')[k := (st_regs s' ! k AND NOT (shl 0xff shift)) OR
                                         shl (shr v (n * 8) AND 0xff) shift]\<rparr>)"
  by (simp add: stub_write_def Let_def)

lemma stub_write_base: "st_base (stub_write s a v n) = st_base s \<and> st_size (stub_write s a v n) = st_size s \<and>
    length (st_regs (stub_write s a v n)) = length (st_regs s)"
  by (induction n) (simp_all add: stub_write_step Let_def)

lemma stub_write_Suc:
  "stub_write s a v (Suc n) = stub_poke (a + of_nat n) (ucast (shr v (8 * n))) (stub_write s a v n)"
proof -
  have "a - st_base s + of_nat n = a + of_nat n - st_base s" by (simp add: algebra_simps)
  then show ?thesis
    using stub_write_base [of s a v n] by (simp only: stub_write_step stub_poke_def Let_def low_byte mult.commute)
qed

lemma lane_of_poked:
  assumes "p < 4" "q < 4"
  shows "(ucast (shr ((r AND NOT (shl 0xff (8 * p))) OR shl (ucast b) (8 * p)) (8 * q)) :: u8) =
    (if p = q then b else ucast (shr (r :: u32) (8 * q)))"
proof -
  have m: "(0xff :: u32) = mask 8" by (simp add: mask_eq_exp_minus_1)
  have lanes: "8 * p \<le> 8 * q + n \<and> 8 * q + n < 8 * p + 8 \<longleftrightarrow> p = q" if "n < 8" for n
    using that by auto
  have short: "k < 8" if "bit b k" for k
    using bit_imp_le_length [OF that] by simp
  show ?thesis
    unfolding m
    by (rule bit_word_eqI)
      (use assms lanes in \<open>auto simp: bit_simps not_le not_less dest: short\<close>)
qed

lemma stub_poke_byte:
  assumes "unat (x - st_base s) < 4 * length (st_regs s)" "unat (y - st_base s) < 4 * length (st_regs s)"
  shows "stub_byte (stub_poke x b s) y = (if y = x then b else stub_byte s y)"
proof -
  define u where "u = x - st_base s"
  define v where "v = y - st_base s"
  have idx: "unat (shr w 2) = unat w div 4" "unat ((w AND 3) * 8) = 8 * (unat w mod 4)" for w :: u32
  proof -
    have "(3 :: u32) = mask 2" by (simp add: mask_eq_exp_minus_1)
    then have "w AND 3 = take_bit 2 w" by (simp only: take_bit_eq_mask)
    then have l: "unat (w AND 3) = unat w mod 4" by (simp only: unsigned_take_bit_eq) (simp add: take_bit_eq_mod)
    then have "unat ((w AND 3) * 8) = unat (w AND 3) * 8"
      by (simp add: unat_word_ariths)
    with l show "unat ((w AND 3) * 8) = 8 * (unat w mod 4)" by simp
    show "unat (shr w 2) = unat w div 4" by (simp add: drop_bit_eq_div unat_div)
  qed
  have yx: "y = x \<longleftrightarrow> unat u div 4 = unat v div 4 \<and> unat u mod 4 = unat v mod 4"
  proof
    assume "unat u div 4 = unat v div 4 \<and> unat u mod 4 = unat v mod 4"
    then have "unat u = unat v" by (metis div_mod_decomp)
    then have "u = v" by (simp only: word_unat_eq_iff)
    then show "y = x" by (simp add: u_def v_def)
  qed (simp add: u_def v_def)
  have lt: "unat u div 4 < length (st_regs s)" using assms(1) by (simp add: u_def)
  show ?thesis
    using lt lane_of_poked [of "unat u mod 4" "unat v mod 4" "st_regs s ! (unat u div 4)" b] yx
    by (auto simp: stub_byte_def stub_poke_def Let_def u_def [symmetric] v_def [symmetric] idx nth_list_update)
qed

lemma stub_write_byte:
  assumes "stub_inside s a n" "n \<le> 4" "unat (x - st_base s) < 4 * length (st_regs s)"
  shows "stub_byte (stub_write s a v n) x =
    (if unat (x - a) < n then ucast (shr v (8 * unat (x - a))) else stub_byte s x)"
proof -
  have "stub_byte (stub_write s a v k) x =
    (if unat (x - a) < k then ucast (shr v (8 * unat (x - a))) else stub_byte s x)" if "k \<le> n" for k
    using that
  proof (induction k)
    case (Suc k)
    have w: "in_window a n (st_base s) (st_size s)" "length (st_regs s) = (unat (st_size s) + 3) div 4"
      using assms(1) by (simp_all add: stub_inside_def)
    have "unat (a - st_base s) + n \<le> unat (st_size s)"
      using w(1) by (auto simp: in_window_def split: if_splits)
    then have k: "unat (a - st_base s) + k < unat (st_size s)" using Suc.prems by linarith
    then have "unat (a - st_base s + of_nat k) = unat (a - st_base s) + k"
      by (rule unat_add_small)
    moreover have "a + of_nat k - st_base s = a - st_base s + of_nat k" by simp
    ultimately have "unat (a + of_nat k - st_base s) < unat (st_size s)" using k by (simp only:)
    also have "unat (st_size s) \<le> 4 * length (st_regs s)" using w(2) by linarith
    finally have at: "unat (a + of_nat k - st_base s) < 4 * length (st_regs s)" .
    have hit: "x = a + of_nat k \<longleftrightarrow> unat (x - a) = k"
    proof
      assume "unat (x - a) = k"
      then have "a + of_nat k = a + of_nat (unat (x - a))" by simp
      then show "x = a + of_nat k" by simp
    qed (use assms(2) Suc.prems in \<open>simp add: unat_of_nat\<close>)
    show ?case
      using stub_poke_byte [of "a + of_nat k" "stub_write s a v k" x] at assms(3) stub_write_base [of s a v k]
        Suc hit
      by (auto simp: stub_write_Suc less_Suc_eq)
  qed simp
  then show ?thesis by simp
qed

text \<open>What an access outside the registers would read does not matter; the contract fixes it to 0.\<close>

definition stub_cell :: "s5l_stub \<Rightarrow> u32 \<Rightarrow> u8" where
  "stub_cell s x = (if unat (x - st_base s) < 4 * length (st_regs s) then stub_byte s x else 0)"

lemma stub_inside_cells:
  assumes "stub_inside s a n" "i < n"
  shows "unat (a + of_nat i - st_base s) < 4 * length (st_regs s)"
proof -
  have w: "in_window a n (st_base s) (st_size s)" "length (st_regs s) = (unat (st_size s) + 3) div 4"
    using assms(1) by (simp_all add: stub_inside_def)
  have k: "unat (a - st_base s) + n \<le> unat (st_size s)"
    using w(1) by (auto simp: in_window_def split: if_splits)
  have "unat (a - st_base s + of_nat i) = unat (a - st_base s) + i"
    by (rule unat_add_small [of _ _ "st_size s"]) (use k assms(2) in linarith)
  moreover have "a + of_nat i - st_base s = a - st_base s + of_nat i" by simp
  moreover have "unat (a - st_base s) + i < unat (st_size s)" using k assms(2) by linarith
  ultimately have "unat (a + of_nat i - st_base s) < unat (st_size s)" by (simp only:)
  then show ?thesis using w(2) by linarith
qed

interpretation stub: byte_store stub_read stub_write stub_cell stub_inside
proof
  fix s :: s5l_stub and a b x v :: u32 and n k :: nat
  assume i: "stub_inside s a n" and n: "n \<le> 4"
  show "stub_read s a n = le_word (map (\<lambda>i. stub_cell s (a + of_nat i)) [0..<n])"
    unfolding stub_read_bytes by (rule arg_cong [of _ _ le_word]) (simp add: stub_cell_def stub_inside_cells [OF i])
  show "stub_cell (stub_write s a v n) x =
      (if unat (x - a) < n then ucast (shr v (8 * unat (x - a))) else stub_cell s x)"
  proof (cases "unat (x - st_base s) < 4 * length (st_regs s)")
    case True
    then show ?thesis
      using stub_write_byte [OF i n True, of v] stub_write_base [of s a v n] by (simp add: stub_cell_def)
  next
    case False
    have "a + of_nat (unat (x - a)) = x" by simp
    then have "\<not> unat (x - a) < n" using stub_inside_cells [OF i, of "unat (x - a)"] False by auto
    then show ?thesis using False stub_write_base [of s a v n] by (simp add: stub_cell_def)
  qed
  show "stub_inside (stub_write s a v n) b k = stub_inside s b k"
    using stub_write_base [of s a v n] by (simp add: stub_inside_def)
qed

end
