(* ===== verification/Fifo.thy ===== *)
theory Fifo
  imports Prelude
begin

text \<open>
  The contract of a device with a byte queue inside, as a locale: what each event of the device
  puts into the queue and takes out of it. The lemma is conservation, for any sequence of events:
  what came out, followed by what is queued, is what was queued, followed by what went in. The
  UART's receive FIFO and both FIFOs of the SPI controller are its interpretations.
\<close>

text \<open>The outputs and the accepted inputs of a run, and its final state.\<close>

fun fifo_run ::
  "('e \<Rightarrow> 's \<Rightarrow> 's) \<Rightarrow> ('e \<Rightarrow> 's \<Rightarrow> 'a list) \<Rightarrow> ('e \<Rightarrow> 's \<Rightarrow> 'a list) \<Rightarrow> 'e list \<Rightarrow> 's \<Rightarrow>
   'a list \<times> 'a list \<times> 's" where
  "fifo_run step puts gets [] s = ([], [], s)"
| "fifo_run step puts gets (e # es) s =
     (let (ins, outs, t) = fifo_run step puts gets es (step e s)
      in (puts e s @ ins, gets e s @ outs, t))"

locale fifo_device =
  fixes queue :: "'s \<Rightarrow> 'a list"
    and ok :: "'s \<Rightarrow> bool"
    and step :: "'e \<Rightarrow> 's \<Rightarrow> 's"
    and puts gets :: "'e \<Rightarrow> 's \<Rightarrow> 'a list"
  assumes step_ok: "ok s \<Longrightarrow> ok (step e s)"
    and step_queue: "ok s \<Longrightarrow> gets e s @ queue (step e s) = queue s @ puts e s"
begin

lemma run_conserves:
  assumes "ok s" and "fifo_run step puts gets es s = (ins, outs, t)"
  shows "ok t \<and> outs @ queue t = queue s @ ins"
  using assms
proof (induction es arbitrary: s ins outs t)
  case Nil
  then show ?case by simp
next
  case (Cons e es)
  obtain ins' outs' t' where r: "fifo_run step puts gets es (step e s) = (ins', outs', t')"
    by (rule prod_cases3)
  have "ok (step e s)" by (rule step_ok [OF Cons.prems(1)])
  then have "ok t' \<and> outs' @ queue t' = queue (step e s) @ ins'" using r by (rule Cons.IH)
  moreover have "gets e s @ queue (step e s) = queue s @ puts e s" by (rule step_queue [OF Cons.prems(1)])
  moreover have "ins = puts e s @ ins'" "outs = gets e s @ outs'" "t = t'"
    using Cons.prems(2) r by auto
  ultimately show ?case by (metis append_assoc)
qed

end

end
