(* ===== verification/Uart.thy ===== *)
theory Uart
  imports Fifo
begin

text \<open>
  The UART (core/src/soc/uart.c): registers, the captured transmit text, the 16-byte receive FIFO,
  the latched receive causes and the DMA requests. The transmit text is the list of the bytes
  captured so far. The lemmas show that the receive FIFO is a queue under every event, and when
  the receive interrupt line is up.
\<close>

unbundle bit_operations_syntax

section \<open>The code\<close>

record s5l_uart =
  u_ulcon :: u32
  u_ucon :: u32
  u_ufcon :: u32
  u_umcon :: u32
  u_ubrdiv :: u32
  u_tx :: "u8 list"
  u_rx_pushed :: u64
  u_rx_dropped :: u64
  u_rx_reads :: u64
  u_rx_underruns :: u64
  u_rx :: "u8 list"
  u_rx_head :: nat
  u_rx_count :: nat
  u_rx_irq_suppressed :: bool
  u_rx_timeout_state :: nat
  u_utrstat_pending :: u32

definition s5l_uart_reset :: s5l_uart where
  "s5l_uart_reset = \<lparr>u_ulcon = 0, u_ucon = 0, u_ufcon = 0, u_umcon = 0, u_ubrdiv = 0, u_tx = [],
     u_rx_pushed = 0, u_rx_dropped = 0, u_rx_reads = 0, u_rx_underruns = 0, u_rx = replicate 16 0,
     u_rx_head = 0, u_rx_count = 0, u_rx_irq_suppressed = False, u_rx_timeout_state = 0,
     u_utrstat_pending = 0\<rparr>"

definition s5l_uart_set_rx_irq :: "bool \<Rightarrow> s5l_uart \<Rightarrow> s5l_uart" where
  "s5l_uart_set_rx_irq enabled u = u\<lparr>u_rx_irq_suppressed := \<not> enabled\<rparr>"

definition s5l_uart_rx_space :: "s5l_uart \<Rightarrow> nat" where
  "s5l_uart_rx_space u = (if u_rx_count u \<ge> 16 then 0 else 16 - u_rx_count u)"

definition rx_dma_watermark :: "s5l_uart \<Rightarrow> nat" where
  "rx_dma_watermark u =
     (if u_ufcon u AND 1 = 0 then 1 else 4 * (unat (shr (u_ufcon u) 4 AND 3) + 1))"

text \<open>The timeout states: 0 disarmed, 1 armed, 2 released.\<close>

definition s5l_uart_rx_dma_ready :: "s5l_uart \<Rightarrow> bool" where
  "s5l_uart_rx_dma_ready u \<longleftrightarrow>
     u_rx_count u \<noteq> 0 \<and> (u_rx_count u \<ge> rx_dma_watermark u \<or> u_rx_timeout_state u = 2)"

definition s5l_uart_rx_dma_idle :: "s5l_uart \<Rightarrow> bool \<times> s5l_uart" where
  "s5l_uart_rx_dma_idle u =
     (if u_rx_timeout_state u \<noteq> 1 \<or> u_rx_count u = 0 \<or> u_rx_count u \<ge> rx_dma_watermark u \<or>
         u_ucon u AND 0x80 = 0 then (False, u)
      else (True, u\<lparr>u_rx_timeout_state := 2, u_utrstat_pending := u_utrstat_pending u OR 8\<rparr>))"

definition utrstat_enables :: "s5l_uart \<Rightarrow> u32" where
  "utrstat_enables u = shr (u_ucon u) 8 AND 0x178"

definition s5l_uart_rx_irq :: "s5l_uart \<Rightarrow> bool" where
  "s5l_uart_rx_irq u \<longleftrightarrow>
     \<not> u_rx_irq_suppressed u \<and> u_utrstat_pending u AND utrstat_enables u \<noteq> 0"

definition s5l_uart_rx_push :: "u8 \<Rightarrow> s5l_uart \<Rightarrow> bool \<times> s5l_uart" where
  "s5l_uart_rx_push byte u =
     (if u_rx_count u \<ge> 16 then (False, u\<lparr>u_rx_dropped := u_rx_dropped u + 1\<rparr>)
      else
        let u1 = u\<lparr>u_rx := (u_rx u)[(u_rx_head u + u_rx_count u) mod 16 := byte],
                   u_rx_count := u_rx_count u + 1, u_rx_pushed := u_rx_pushed u + 1\<rparr>;
            u2 = (if u_rx_timeout_state u1 \<noteq> 2 then u1\<lparr>u_rx_timeout_state := 1\<rparr> else u1)
        in (True, u2\<lparr>u_utrstat_pending := u_utrstat_pending u2 OR 0x10\<rparr>))"

text \<open>One dequeue of the receive register.\<close>

definition uart_urxh :: "s5l_uart \<Rightarrow> u32 \<times> s5l_uart" where
  "uart_urxh u =
     (if u_rx_count u = 0 then (0, u\<lparr>u_rx_underruns := u_rx_underruns u + 1\<rparr>)
      else
        let b = u_rx u ! u_rx_head u;
            u1 = u\<lparr>u_rx_head := (u_rx_head u + 1) mod 16, u_rx_count := u_rx_count u - 1,
                   u_rx_reads := u_rx_reads u + 1\<rparr>;
            u2 = (if u_rx_count u1 = 0 then u1\<lparr>u_rx_timeout_state := 0\<rparr> else u1)
        in (ucast b, u2))"

definition s5l_uart_read :: "u32 \<Rightarrow> s5l_uart \<Rightarrow> u32 \<times> s5l_uart" where
  "s5l_uart_read off u =
     (if off = 0x00 then (u_ulcon u, u)
      else if off = 0x04 then (u_ucon u, u)
      else if off = 0x08 then (u_ufcon u, u)
      else if off = 0x0c then (u_umcon u, u)
      else if off = 0x28 then (u_ubrdiv u, u)
      else if off = 0x10 then
        (4 OR 2 OR (if u_rx_count u \<noteq> 0 then 1 else 0) OR u_utrstat_pending u, u)
      else if off = 0x14 then (0, u)
      else if off = 0x18 then
        ((of_nat (u_rx_count u) AND 0x0f) OR (if u_rx_count u \<ge> 16 then 0x100 else 0), u)
      else if off = 0x1c then (0, u)
      else if off = 0x24 then uart_urxh u
      else (0, u))"

definition s5l_uart_write :: "u32 \<Rightarrow> u32 \<Rightarrow> s5l_uart \<Rightarrow> s5l_uart" where
  "s5l_uart_write off val u =
     (if off = 0x00 then u\<lparr>u_ulcon := val\<rparr>
      else if off = 0x04 then u\<lparr>u_ucon := val\<rparr>
      else if off = 0x08 then u\<lparr>u_ufcon := val\<rparr>
      else if off = 0x0c then u\<lparr>u_umcon := val\<rparr>
      else if off = 0x28 then u\<lparr>u_ubrdiv := val\<rparr>
      else if off = 0x20 then
        (if length (u_tx u) < 8191 then u\<lparr>u_tx := u_tx u @ [ucast val]\<rparr> else u)
      else if off = 0x10 then u\<lparr>u_utrstat_pending := u_utrstat_pending u AND NOT val\<rparr>
      else u)"

section \<open>The receive FIFO is a queue\<close>

definition uart_queue :: "s5l_uart \<Rightarrow> u8 list" where
  "uart_queue u = map (\<lambda>i. u_rx u ! ((u_rx_head u + i) mod 16)) [0..<u_rx_count u]"

definition uart_ok :: "s5l_uart \<Rightarrow> bool" where
  "uart_ok u \<longleftrightarrow> length (u_rx u) = 16 \<and> u_rx_head u < 16 \<and> u_rx_count u \<le> 16"

lemma uart_reset_ok [simp]: "uart_ok s5l_uart_reset" "uart_queue s5l_uart_reset = []"
  by (simp_all add: uart_ok_def s5l_uart_reset_def uart_queue_def)

text \<open>Everything that can happen to the port.\<close>

datatype uart_event = Host_Push u8 | Reg_Read u32 | Reg_Write u32 u32 | Dma_Idle | Set_Rx_Irq bool

fun uart_step :: "uart_event \<Rightarrow> s5l_uart \<Rightarrow> s5l_uart" where
  "uart_step (Host_Push b) u = snd (s5l_uart_rx_push b u)"
| "uart_step (Reg_Read off) u = snd (s5l_uart_read off u)"
| "uart_step (Reg_Write off val) u = s5l_uart_write off val u"
| "uart_step Dma_Idle u = snd (s5l_uart_rx_dma_idle u)"
| "uart_step (Set_Rx_Irq e) u = s5l_uart_set_rx_irq e u"

text \<open>The bytes an event adds: a push that was accepted. And those it takes: a read of URXH that
  found data, with the value read.\<close>

fun uart_puts :: "uart_event \<Rightarrow> s5l_uart \<Rightarrow> u8 list" where
  "uart_puts (Host_Push b) u = (if fst (s5l_uart_rx_push b u) then [b] else [])"
| "uart_puts _ u = []"

fun uart_gets :: "uart_event \<Rightarrow> s5l_uart \<Rightarrow> u8 list" where
  "uart_gets (Reg_Read off) u =
     (if off = 0x24 \<and> u_rx_count u \<noteq> 0 then [ucast (fst (s5l_uart_read off u))] else [])"
| "uart_gets _ u = []"

lemma uart_queue_push:
  assumes "uart_ok u" "u_rx_count u < 16"
  shows "uart_queue (snd (s5l_uart_rx_push b u)) = uart_queue u @ [b]"
proof -
  let ?at = "\<lambda>i. (u_rx_head u + i) mod 16"
  have other: "?at (u_rx_count u) \<noteq> ?at i" if "i < u_rx_count u" for i
    using that assms mod_eq_dvd_iff_nat [of "u_rx_head u + i" "u_rx_head u + u_rx_count u" 16]
    by (auto dest: dvd_imp_le)
  have "uart_queue (snd (s5l_uart_rx_push b u)) =
      map (\<lambda>i. (u_rx u)[?at (u_rx_count u) := b] ! ?at i) ([0..<u_rx_count u] @ [u_rx_count u])"
    using assms by (simp add: uart_queue_def s5l_uart_rx_push_def Let_def)
  also have "\<dots> = map (\<lambda>i. u_rx u ! ?at i) [0..<u_rx_count u] @ [b]"
    using other assms(1) by (simp add: uart_ok_def nth_list_update_neq)
  finally show ?thesis by (simp add: uart_queue_def)
qed

lemma uart_queue_pop:
  assumes "uart_ok u" "u_rx_count u \<noteq> 0"
  shows "uart_queue u = ucast (fst (uart_urxh u)) # uart_queue (snd (uart_urxh u))"
proof -
  have "[0..<u_rx_count u] = 0 # map Suc [0..<u_rx_count u - 1]"
    using assms(2) by (simp add: upt_conv_Cons map_Suc_upt)
  moreover have "(u_rx_head u + Suc i) mod 16 = ((u_rx_head u + 1) mod 16 + i) mod 16" for i
    by (simp add: mod_simps)
  moreover have "ucast (ucast b :: u32) = b" for b :: u8
    by (rule bit_word_eqI) (auto simp: bit_simps)
  ultimately show ?thesis
    using assms by (simp add: uart_queue_def uart_urxh_def Let_def uart_ok_def comp_def)
qed

lemma uart_frame_queue:
  "uart_queue (s5l_uart_write off val u) = uart_queue u" "uart_ok (s5l_uart_write off val u) = uart_ok u"
  "uart_queue (snd (s5l_uart_rx_dma_idle u)) = uart_queue u"
  "uart_ok (snd (s5l_uart_rx_dma_idle u)) = uart_ok u"
  "off \<noteq> 0x24 \<Longrightarrow> snd (s5l_uart_read off u) = u"
  by (auto simp: uart_queue_def uart_ok_def s5l_uart_write_def s5l_uart_rx_dma_idle_def s5l_uart_read_def)

interpretation uart_rx: fifo_device uart_queue uart_ok uart_step uart_puts uart_gets
proof
  fix s e assume ok: "uart_ok s"
  show "uart_ok (uart_step e s)"
    using ok by (cases e) (auto simp: uart_frame_queue, auto simp: uart_ok_def s5l_uart_rx_push_def
        s5l_uart_read_def uart_urxh_def s5l_uart_set_rx_irq_def Let_def)
  show "uart_gets e s @ uart_queue (uart_step e s) = uart_queue s @ uart_puts e s"
  proof (cases e)
    case (Host_Push b)
    then show ?thesis
      using ok uart_queue_push [of s b]
      by (cases "u_rx_count s < 16") (auto simp: s5l_uart_rx_push_def Let_def uart_queue_def)
  next
    case (Reg_Read off)
    show ?thesis
    proof (cases "off = 0x24")
      case True
      then show ?thesis
        using ok uart_queue_pop [of s] Reg_Read
        by (cases "u_rx_count s = 0") (auto simp: s5l_uart_read_def, auto simp: uart_urxh_def uart_queue_def)
    qed (simp add: Reg_Read uart_frame_queue)
  qed (simp_all add: uart_frame_queue, simp_all add: uart_queue_def s5l_uart_set_rx_irq_def)
qed

text \<open>
  C23:
  The UART receives a byte stream. From reset, over any sequence of host pushes, guest register
  reads and writes, DMA timeouts and interrupt policy changes, the bytes the guest reads from the
  receive register, followed by those still in the FIFO, are exactly the bytes the port accepted,
  in order; and the FIFO never holds more than 16.
\<close>

theorem uart_receives_in_order:
  assumes "fifo_run uart_step uart_puts uart_gets es s5l_uart_reset = (accepted, guest_read, u)"
  shows "guest_read @ uart_queue u = accepted \<and> length (uart_queue u) \<le> 16"
proof -
  have "length (uart_queue u) = u_rx_count u" by (simp add: uart_queue_def)
  then show ?thesis using uart_rx.run_conserves [OF uart_reset_ok(1) assms] by (simp add: uart_ok_def)
qed

definition uart_events :: "uart_event list" where
  "uart_events = [Host_Push 65, Host_Push 66, Reg_Read 0x24, Reg_Write 0x10 0xff, Host_Push 67,
     Reg_Read 0x24]"

lemma uart_events_run:
  "\<exists>u. fifo_run uart_step uart_puts uart_gets uart_events s5l_uart_reset = ([65, 66, 67], [65, 66], u) \<and>
     u_rx_count u = 1"
  by (simp add: uart_events_def s5l_uart_reset_def s5l_uart_rx_push_def s5l_uart_read_def uart_urxh_def
      s5l_uart_write_def)

lemma uart_receives_in_order_witness:
  "\<exists>u. fifo_run uart_step uart_puts uart_gets uart_events s5l_uart_reset = ([65, 66, 67], [65, 66], u) \<and>
     [65, 66] @ uart_queue u = [65, 66, 67] \<and> length (uart_queue u) \<le> 16"
  using uart_receives_in_order uart_events_run by meson

end
