(* ===== verification/Spi.thy ===== *)
theory Spi
  imports Fifo
begin

text \<open>
  The SPI controller (core/src/soc/spi.c): its registers, the two 8-byte FIFOs, the shifter with the
  back-pressure of PIO and the overrun of DMA, the completion interrupt, and two of the slaves, the
  null device and the Merlot panel. A slave is the function behind its callback: from the byte
  shifted out, the controller as the callback sees it and the device's own state to the answer, the
  chip-select byte it leaves in the controller (the only field of the bus any callback of the source
  stores to) and its new state. The wiring, which chip select has which slave, is a parameter,
  changed by \<open>s5l_spi_attach\<close> only.
\<close>

unbundle bit_operations_syntax

section \<open>The code\<close>

record s5l_spi =
  sp_control :: u32
  sp_setup :: u32
  sp_pin :: u32
  sp_clkdiv :: u32
  sp_cnt :: u32
  sp_idd :: u32
  sp_status :: u32
  sp_words_left :: u32
  sp_tx :: "u8 list"
  sp_rx :: "u8 list"
  sp_tx_level :: nat
  sp_rx_level :: nat
  sp_cs :: u8
  sp_words :: u64
  sp_tx_drops :: u64
  sp_rx_underruns :: u64
  sp_rx_overruns :: u64
  sp_rx_reads :: u64
  sp_irq_rises :: u64
  sp_irq_last :: bool
  sp_dma_arms :: u64
  sp_unknown_reads :: u64
  sp_unknown_writes :: u64
  sp_unknown_off :: "u32 list"

type_synonym 'd spi_transfer = "u8 \<Rightarrow> s5l_spi \<Rightarrow> 'd \<Rightarrow> u8 \<times> u8 \<times> 'd"
type_synonym 'd spi_wiring = "nat \<Rightarrow> 'd spi_transfer option"

definition s5l_spi_reset :: "s5l_spi \<times> 'd spi_wiring" where
  "s5l_spi_reset =
     (\<lparr>sp_control = 0, sp_setup = 0, sp_pin = 0, sp_clkdiv = 0, sp_cnt = 0, sp_idd = 0, sp_status = 0,
       sp_words_left = 0, sp_tx = replicate 8 0, sp_rx = replicate 8 0, sp_tx_level = 0,
       sp_rx_level = 0, sp_cs = 0, sp_words = 0, sp_tx_drops = 0, sp_rx_underruns = 0,
       sp_rx_overruns = 0, sp_rx_reads = 0, sp_irq_rises = 0, sp_irq_last = False, sp_dma_arms = 0,
       sp_unknown_reads = 0, sp_unknown_writes = 0, sp_unknown_off = []\<rparr>, \<lambda>_. None)"

definition s5l_spi_attach ::
  "nat \<Rightarrow> 'd spi_transfer option \<Rightarrow> 'd spi_wiring \<Rightarrow> bool \<times> 'd spi_wiring" where
  "s5l_spi_attach cs slave w =
     (if slave = None \<or> cs \<ge> 4 then (False, w)
      else if w cs \<noteq> None then (False, w)
      else (True, w(cs := slave)))"

definition note_unknown :: "u32 \<Rightarrow> s5l_spi \<Rightarrow> s5l_spi" where
  "note_unknown off b =
     (if off \<in> set (sp_unknown_off b) then b
      else if length (sp_unknown_off b) < 8 then b\<lparr>sp_unknown_off := sp_unknown_off b @ [off]\<rparr>
      else b)"

text \<open>Pop the first byte, move the rest down, clear the slot that became free.\<close>

definition fifo_pop :: "u8 list \<Rightarrow> nat \<Rightarrow> u8 \<times> u8 list \<times> nat" where
  "fifo_pop fifo level =
     (let level1 = level - 1
      in (fifo ! 0, (take level1 (drop 1 fifo) @ drop level1 fifo)[level1 := 0], level1))"

text \<open>The answer of one shifted word, stored or counted as lost.\<close>

definition spi_receive :: "bool \<Rightarrow> u8 \<Rightarrow> s5l_spi \<Rightarrow> s5l_spi" where
  "spi_receive dma inb b =
     (if dma then b\<lparr>sp_rx_overruns := sp_rx_overruns b + 1\<rparr>
      else if sp_rx_level b < 8 then
        b\<lparr>sp_rx := (sp_rx b)[sp_rx_level b := inb], sp_rx_level := sp_rx_level b + 1\<rparr>
      else b\<lparr>sp_rx_overruns := sp_rx_overruns b + 1\<rparr>)"

text \<open>The body of the shifter's loop, for the slave \<open>f\<close>.\<close>

definition spi_word :: "'d spi_transfer \<Rightarrow> bool \<Rightarrow> s5l_spi \<Rightarrow> 'd \<Rightarrow> s5l_spi \<times> 'd" where
  "spi_word f dma b d =
     (let (out, tx, level) = fifo_pop (sp_tx b) (sp_tx_level b);
          b1 = b\<lparr>sp_tx := tx, sp_tx_level := level\<rparr>;
          (inb, cs, d1) = f out b1 d;
          b2 = spi_receive dma inb (b1\<lparr>sp_cs := cs\<rparr>);
          b3 = b2\<lparr>sp_words := sp_words b2 + 1,
                  sp_words_left := (if sp_words_left b2 \<noteq> 0 then sp_words_left b2 - 1 else 0)\<rparr>
      in (b3\<lparr>sp_status := sp_status b3 OR 0xf\<rparr>, d1))"

lemma spi_word_tx_level: "sp_tx_level (fst (spi_word f dma b d)) = sp_tx_level b - 1"
  by (simp add: spi_word_def fifo_pop_def spi_receive_def Let_def split: prod.split)

function spi_shift_loop :: "'d spi_transfer \<Rightarrow> bool \<Rightarrow> s5l_spi \<Rightarrow> 'd \<Rightarrow> s5l_spi \<times> 'd" where
  "spi_shift_loop f dma b d =
     (if sp_tx_level b \<noteq> 0 \<and> (dma \<or> sp_rx_level b < 8)
      then spi_shift_loop f dma (fst (spi_word f dma b d)) (snd (spi_word f dma b d))
      else (b, d))"
  by pat_completeness auto
termination
  by (relation "measure (\<lambda>(f, dma, b, d). sp_tx_level b)") (auto simp: spi_word_tx_level split_beta)

declare spi_shift_loop.simps [simp del]

definition spi_shift :: "'d spi_wiring \<Rightarrow> s5l_spi \<Rightarrow> 'd \<Rightarrow> s5l_spi \<times> 'd" where
  "spi_shift w b d =
     (if sp_cs b AND NOT (3 OR 0x80) \<noteq> 0 then (b, d)
      else case w (unat (sp_cs b AND 3)) of
        None \<Rightarrow> (b, d)
      | Some f \<Rightarrow> spi_shift_loop f (sp_setup b AND 0x40 \<noteq> 0) b d)"

definition spi_status :: "s5l_spi \<Rightarrow> u32" where
  "spi_status b = (sp_status b AND 0xf) OR shl (of_nat (sp_tx_level b)) 4 OR shl (of_nat (sp_rx_level b)) 8"

definition s5l_spi_read :: "'d spi_wiring \<Rightarrow> u32 \<Rightarrow> s5l_spi \<Rightarrow> 'd \<Rightarrow> u32 \<times> s5l_spi \<times> 'd" where
  "s5l_spi_read w off b d =
     (if off = 0x00 then (sp_control b, b, d)
      else if off = 0x04 then (sp_setup b, b, d)
      else if off = 0x08 then (spi_status b, b, d)
      else if off = 0x0c then (sp_pin b, b, d)
      else if off = 0x10 then (0, b, d)
      else if off = 0x20 then
        (if sp_rx_level b = 0 then (0, b\<lparr>sp_rx_underruns := sp_rx_underruns b + 1\<rparr>, d)
         else
           let (v, rx, level) = fifo_pop (sp_rx b) (sp_rx_level b);
               b1 = b\<lparr>sp_rx := rx, sp_rx_level := level, sp_rx_reads := sp_rx_reads b + 1\<rparr>
           in (ucast v, spi_shift w b1 d))
      else if off = 0x30 then (sp_clkdiv b, b, d)
      else if off = 0x34 then (sp_cnt b, b, d)
      else if off = 0x38 then (sp_idd b, b, d)
      else (0, note_unknown off (b\<lparr>sp_unknown_reads := sp_unknown_reads b + 1\<rparr>), d))"

definition s5l_spi_step :: "'d spi_wiring \<Rightarrow> s5l_spi \<Rightarrow> 'd \<Rightarrow> s5l_spi \<times> 'd" where
  "s5l_spi_step w b d = spi_shift w b d"

definition tx_push :: "u8 \<Rightarrow> s5l_spi \<Rightarrow> s5l_spi" where
  "tx_push v b = b\<lparr>sp_tx := (sp_tx b)[sp_tx_level b := v], sp_tx_level := sp_tx_level b + 1\<rparr>"

definition s5l_spi_write :: "'d spi_wiring \<Rightarrow> u32 \<Rightarrow> u32 \<Rightarrow> s5l_spi \<Rightarrow> 'd \<Rightarrow> s5l_spi \<times> 'd" where
  "s5l_spi_write w off val b d =
     (if off = 0x00 then (b\<lparr>sp_control := val\<rparr>, d)
      else if off = 0x04 then
        ((if val AND 0x40 \<noteq> 0 \<and> sp_setup b AND 0x40 = 0
          then b\<lparr>sp_dma_arms := sp_dma_arms b + 1\<rparr> else b)\<lparr>sp_setup := val\<rparr>, d)
      else if off = 0x08 then (b\<lparr>sp_status := sp_status b AND NOT (val AND 0xf)\<rparr>, d)
      else if off = 0x0c then (b\<lparr>sp_pin := val\<rparr>, d)
      else if off = 0x10 then
        (if sp_tx_level b \<ge> 8 then (b\<lparr>sp_tx_drops := sp_tx_drops b + 1\<rparr>, d)
         else spi_shift w (tx_push (ucast val) b) d)
      else if off = 0x20 then (b, d)
      else if off = 0x30 then (b\<lparr>sp_clkdiv := val\<rparr>, d)
      else if off = 0x34 then
        (b\<lparr>sp_cnt := val, sp_words_left := val, sp_rx_level := 0, sp_cs := sp_cs b AND NOT 0x80\<rparr>, d)
      else if off = 0x38 then (b\<lparr>sp_idd := val\<rparr>, d)
      else (note_unknown off (b\<lparr>sp_unknown_writes := sp_unknown_writes b + 1\<rparr>), d))"

definition s5l_spi_irq :: "s5l_spi \<Rightarrow> bool" where
  "s5l_spi_irq b \<longleftrightarrow> sp_setup b AND 0x100 \<noteq> 0 \<and> sp_status b AND 0xf \<noteq> 0 \<and> sp_rx_level b \<noteq> 0"

definition s5l_spi_irq_note :: "s5l_spi \<Rightarrow> s5l_spi" where
  "s5l_spi_irq_note b =
     (let now = s5l_spi_irq b;
          b1 = (if now \<and> \<not> sp_irq_last b then b\<lparr>sp_irq_rises := sp_irq_rises b + 1\<rparr> else b)
      in b1\<lparr>sp_irq_last := now\<rparr>)"

definition null_transfer :: "'d spi_transfer" where
  "null_transfer out b d = (0, sp_cs b, d)"

definition lcd_transfer :: "'d spi_transfer" where
  "lcd_transfer out b d =
     (if sp_cnt b = 2 \<and> sp_words_left b = 2 \<and> sp_rx_level b = 0 \<and> out = 0x95
      then (0, sp_cs b OR 0x80, d)
      else if sp_cs b AND 0x80 \<noteq> 0 \<and> sp_cnt b = 2 \<and> sp_words_left b = 1
      then (if out = 0xff then 1 else 0, sp_cs b AND NOT 0x80, d)
      else (0, sp_cs b, d))"

section \<open>What a slave may do\<close>

text \<open>The contract of a callback: of the chip-select byte it may change bit 7 only.\<close>

locale spi_slave =
  fixes f :: "'d spi_transfer"
  assumes cs_kept: "fst (snd (f out b d)) AND 0x7f = sp_cs b AND 0x7f"
begin

lemma route_kept: "fst (snd (f out b d)) AND 3 = sp_cs b AND 3"
proof -
  have "x AND 3 = (x AND 0x7f) AND 3" for x :: u8 by (simp add: and.assoc)
  then show ?thesis using cs_kept by metis
qed

lemma valid_kept: "fst (snd (f out b d)) AND NOT (3 OR 0x80) = sp_cs b AND NOT (3 OR 0x80)"
proof -
  have "x AND 124 = (x AND 0x7f) AND 124" for x :: u8 by (simp add: and.assoc)
  then have "fst (snd (f out b d)) AND 124 = sp_cs b AND 124" using cs_kept by metis
  moreover have "NOT (3 OR 0x80 :: u8) = 124" by simp
  ultimately show ?thesis by metis
qed

end

interpretation null: spi_slave null_transfer
  by unfold_locales (simp add: null_transfer_def)

interpretation lcd: spi_slave lcd_transfer
proof
  fix out :: u8 and b :: s5l_spi and d :: 'd
  have "(sp_cs b OR 0x80) AND 0x7f = sp_cs b AND 0x7f" "(sp_cs b AND NOT 0x80) AND 0x7f = sp_cs b AND 0x7f"
    by (simp_all add: bit.conj_disj_distrib2 and.assoc)
  then show "fst (snd (lcd_transfer out b d)) AND 0x7f = sp_cs b AND 0x7f"
    by (simp add: lcd_transfer_def)
qed

section \<open>The shifter\<close>

text \<open>A slave that also writes down what crossed the wire: the byte out and the byte in.\<close>

definition recorded :: "'d spi_transfer \<Rightarrow> ('d \<times> (u8 \<times> u8) list) spi_transfer" where
  "recorded f out b dl =
     (let (v, cs, d1) = f out b (fst dl) in (v, cs, (d1, snd dl @ [(out, v)])))"

definition spi_ok :: "s5l_spi \<Rightarrow> bool" where
  "spi_ok b \<longleftrightarrow> length (sp_tx b) = 8 \<and> length (sp_rx b) = 8 \<and> sp_tx_level b \<le> 8 \<and> sp_rx_level b \<le> 8"

definition tx_pending :: "s5l_spi \<Rightarrow> u8 list" where
  "tx_pending b = take (sp_tx_level b) (sp_tx b)"

definition rx_pending :: "s5l_spi \<Rightarrow> u8 list" where
  "rx_pending b = take (sp_rx_level b) (sp_rx b)"

lemma fifo_pop_queue:
  assumes "fifo_pop xs n = (v, ys, m)" "n \<noteq> 0" "n \<le> length xs"
  shows "take n xs = v # take m ys \<and> length ys = length xs \<and> m = n - 1"
proof -
  obtain x xs' where "xs = x # xs'" using assms by (cases xs) auto
  moreover obtain k where "n = Suc k" using assms(2) not0_implies_Suc by blast
  ultimately show ?thesis using assms by (auto simp: fifo_pop_def Let_def)
qed

lemma spi_receive_fields:
  "sp_tx (spi_receive dma v b) = sp_tx b" "sp_tx_level (spi_receive dma v b) = sp_tx_level b"
  "sp_setup (spi_receive dma v b) = sp_setup b" "sp_cs (spi_receive dma v b) = sp_cs b"
  by (simp_all add: spi_receive_def)

lemma spi_receive_rx:
  assumes "length (sp_rx b) = 8" "dma \<or> sp_rx_level b < 8" "sp_rx_level b \<le> 8"
  shows "rx_pending (spi_receive dma v b) = rx_pending b @ (if dma then [] else [v]) \<and>
    length (sp_rx (spi_receive dma v b)) = 8 \<and> sp_rx_level (spi_receive dma v b) \<le> 8"
  using assms by (auto simp: spi_receive_def rx_pending_def take_Suc_conv_app_nth)

lemma spi_word_moves_one:
  assumes ok: "spi_ok b" and go: "sp_tx_level b \<noteq> 0" "dma \<or> sp_rx_level b < 8"
    and step: "spi_word (recorded f) dma b (d, log) = (b1, d1, log1)"
  obtains out v where "log1 = log @ [(out, v)]" "tx_pending b = out # tx_pending b1"
    "rx_pending b1 = rx_pending b @ (if dma then [] else [v])" "spi_ok b1"
    "sp_setup b1 = sp_setup b" "\<exists>d' x. sp_cs b1 = fst (snd (f out x d')) \<and> sp_cs x = sp_cs b"
proof -
  obtain out ys m where pop: "fifo_pop (sp_tx b) (sp_tx_level b) = (out, ys, m)" by (rule prod_cases3)
  let ?b1 = "b\<lparr>sp_tx := ys, sp_tx_level := m\<rparr>"
  obtain v cs d' where f: "f out ?b1 d = (v, cs, d')" by (rule prod_cases3)
  let ?r = "spi_receive dma v (?b1\<lparr>sp_cs := cs\<rparr>)"
  have q: "take (sp_tx_level b) (sp_tx b) = out # take m ys" "length ys = 8" "m \<le> 8"
    using fifo_pop_queue [OF pop] ok go(1) by (auto simp: spi_ok_def)
  have b1: "b1 = ?r\<lparr>sp_words := sp_words ?r + 1,
      sp_words_left := (if sp_words_left ?r \<noteq> 0 then sp_words_left ?r - 1 else 0),
      sp_status := sp_status ?r OR 0xf\<rparr>" and l: "log1 = log @ [(out, v)]"
    using step by (simp_all add: spi_word_def pop recorded_def f Let_def)
  have r: "rx_pending ?r = rx_pending b @ (if dma then [] else [v]) \<and> length (sp_rx ?r) = 8 \<and> sp_rx_level ?r \<le> 8"
    using spi_receive_rx [of "?b1\<lparr>sp_cs := cs\<rparr>" dma v] ok go(2) by (simp add: spi_ok_def rx_pending_def)
  have cs: "\<exists>d' x. sp_cs b1 = fst (snd (f out x d')) \<and> sp_cs x = sp_cs b"
    by (rule exI [of _ d], rule exI [of _ ?b1]) (simp add: b1 spi_receive_fields f)
  show thesis
    by (rule that [OF l _ _ _ _ cs])
      (use r q in \<open>simp_all add: b1 spi_receive_fields tx_pending_def rx_pending_def spi_ok_def\<close>)
qed

text \<open>
  What a run of the shifter from \<open>(b, log)\<close> to \<open>(b1, log1)\<close> did: it sent a prefix of the bytes
  waiting and, in PIO, queued the answers.
\<close>

definition shifted ::
  "bool \<Rightarrow> s5l_spi \<Rightarrow> (u8 \<times> u8) list \<Rightarrow> s5l_spi \<Rightarrow> (u8 \<times> u8) list \<Rightarrow> bool" where
  "shifted dma b log b1 log1 \<longleftrightarrow>
     (\<exists>new. log1 = log @ new \<and> tx_pending b = map fst new @ tx_pending b1 \<and>
        rx_pending b1 = rx_pending b @ (if dma then [] else map snd new)) \<and>
     spi_ok b1 \<and> sp_setup b1 = sp_setup b"

lemma shifted_refl: "spi_ok b \<Longrightarrow> shifted dma b log b log"
  by (auto simp: shifted_def)

lemma shifted_trans:
  assumes "shifted dma b log b1 log1" "shifted dma b1 log1 b2 log2"
  shows "shifted dma b log b2 log2"
proof -
  obtain n1 n2 where "log1 = log @ n1" "tx_pending b = map fst n1 @ tx_pending b1"
    "rx_pending b1 = rx_pending b @ (if dma then [] else map snd n1)"
    "log2 = log1 @ n2" "tx_pending b1 = map fst n2 @ tx_pending b2"
    "rx_pending b2 = rx_pending b1 @ (if dma then [] else map snd n2)"
    using assms unfolding shifted_def by blast
  then have "\<exists>new. log2 = log @ new \<and> tx_pending b = map fst new @ tx_pending b2 \<and>
      rx_pending b2 = rx_pending b @ (if dma then [] else map snd new)"
    by (intro exI [of _ "n1 @ n2"]) simp
  then show ?thesis using assms by (simp add: shifted_def)
qed

lemma spi_shift_loop_shifted:
  assumes "spi_ok b" "spi_shift_loop (recorded f) dma b (d, log) = (b1, d1, log1)"
  shows "shifted dma b log b1 log1 \<and> (sp_tx_level b1 = 0 \<or> \<not> dma \<and> sp_rx_level b1 = 8) \<and>
    (spi_slave f \<longrightarrow> sp_cs b1 AND 0x7f = sp_cs b AND 0x7f)"
  using assms
proof (induction "sp_tx_level b" arbitrary: b d log rule: less_induct)
  case less
  show ?case
  proof (cases "sp_tx_level b \<noteq> 0 \<and> (dma \<or> sp_rx_level b < 8)")
    case False
    then have "spi_shift_loop (recorded f) dma b (d, log) = (b, d, log)"
      by (subst spi_shift_loop.simps) auto
    then show ?thesis using less.prems False by (auto simp: shifted_refl spi_ok_def)
  next
    case True
    obtain b2 d2 log2 where w: "spi_word (recorded f) dma b (d, log) = (b2, d2, log2)"
      by (rule prod_cases3)
    have loop: "spi_shift_loop (recorded f) dma b2 (d2, log2) = (b1, d1, log1)"
      using less.prems(2) True by (subst (asm) spi_shift_loop.simps) (simp add: w)
    obtain out v where m: "log2 = log @ [(out, v)]" "tx_pending b = out # tx_pending b2"
      "rx_pending b2 = rx_pending b @ (if dma then [] else [v])" "spi_ok b2" "sp_setup b2 = sp_setup b"
      "\<exists>d' x. sp_cs b2 = fst (snd (f out x d')) \<and> sp_cs x = sp_cs b"
      by (rule spi_word_moves_one [OF less.prems(1) conjunct1 [OF True] conjunct2 [OF True] w])
    have "shifted dma b log b2 log2"
      unfolding shifted_def using m by (intro conjI exI [of _ "[(out, v)]"]) simp_all
    moreover have "sp_tx_level b2 < sp_tx_level b"
      using spi_word_tx_level [of "recorded f" dma b "(d, log)"] w True by simp
    moreover have "sp_cs b2 AND 0x7f = sp_cs b AND 0x7f" if "spi_slave f"
      using m(6) spi_slave.cs_kept [OF that] by metis
    ultimately show ?thesis using less.hyps [OF _ m(4) loop] shifted_trans by metis
  qed
qed

definition recorded_wiring :: "'d spi_wiring \<Rightarrow> ('d \<times> (u8 \<times> u8) list) spi_wiring" where
  "recorded_wiring w cs = map_option recorded (w cs)"

lemma spi_shift_shifted:
  assumes "spi_ok b" "spi_shift (recorded_wiring w) b (d, log) = (b1, d1, log1)"
  shows "shifted (sp_setup b AND 0x40 \<noteq> 0) b log b1 log1"
proof (cases "sp_cs b AND NOT (3 OR 0x80) \<noteq> 0 \<or> w (unat (sp_cs b AND 3)) = None")
  case True
  then show ?thesis
    using assms shifted_refl [OF assms(1)]
    by (auto simp: spi_shift_def recorded_wiring_def split: if_splits)
next
  case False
  then obtain f where "w (unat (sp_cs b AND 3)) = Some f" by auto
  then have "spi_shift_loop (recorded f) (sp_setup b AND 0x40 \<noteq> 0) b (d, log) = (b1, d1, log1)"
    using assms(2) False by (simp add: spi_shift_def recorded_wiring_def)
  from conjunct1 [OF spi_shift_loop_shifted [OF assms(1) this]] show ?thesis .
qed

text \<open>A chip select with a well-behaved device behind it.\<close>

definition selected :: "'d spi_wiring \<Rightarrow> s5l_spi \<Rightarrow> bool" where
  "selected w b \<longleftrightarrow> sp_cs b AND NOT (3 OR 0x80) = 0 \<and>
     (\<exists>f. w (unat (sp_cs b AND 3)) = Some f \<and> spi_slave f)"

lemma selected_kept:
  assumes "selected w b" "sp_cs b1 AND 0x7f = sp_cs b AND 0x7f"
  shows "selected w b1"
proof -
  have n: "NOT (3 OR 0x80 :: u8) = 124" by simp
  have mask: "x AND 3 = (x AND 0x7f) AND 3" "x AND NOT (3 OR 0x80) = (x AND 0x7f) AND 124" for x :: u8
    unfolding n by (simp_all add: and.assoc)
  have "sp_cs b1 AND 3 = sp_cs b AND 3" "sp_cs b1 AND NOT (3 OR 0x80) = sp_cs b AND NOT (3 OR 0x80)"
    by (rule box_equals [OF arg_cong [OF assms(2), of "\<lambda>x. x AND 3"] mask(1) [symmetric] mask(1) [symmetric]],
        rule box_equals [OF arg_cong [OF assms(2), of "\<lambda>x. x AND 124"] mask(2) [symmetric] mask(2) [symmetric]])
  then show ?thesis using assms(1) by (simp only: selected_def)
qed

lemma spi_shift_selected:
  assumes "spi_ok b" "selected w b" "spi_shift (recorded_wiring w) b (d, log) = (b1, d1, log1)"
  shows "selected w b1 \<and>
    (sp_tx_level b1 = 0 \<or> sp_setup b AND 0x40 = 0 \<and> sp_rx_level b1 = 8)"
proof -
  obtain f where f: "w (unat (sp_cs b AND 3)) = Some f" "spi_slave f"
    using assms(2) by (auto simp: selected_def)
  have loop: "spi_shift_loop (recorded f) (sp_setup b AND 0x40 \<noteq> 0) b (d, log) = (b1, d1, log1)"
    using assms(2,3) f(1) by (simp add: spi_shift_def recorded_wiring_def selected_def)
  show ?thesis
    using spi_shift_loop_shifted [OF assms(1) loop] f(2) selected_kept [OF assms(2)] by blast
qed

section \<open>Every event of the port\<close>

datatype spi_event = Spi_Write u32 u32 | Spi_Read u32 | Spi_Tick | Spi_Irq_Note

fun spi_event_step :: "'d spi_wiring \<Rightarrow> spi_event \<Rightarrow> s5l_spi \<times> 'd \<Rightarrow> s5l_spi \<times> 'd" where
  "spi_event_step w (Spi_Write off val) (b, d) = s5l_spi_write w off val b d"
| "spi_event_step w (Spi_Read off) (b, d) = snd (s5l_spi_read w off b d)"
| "spi_event_step w Spi_Tick (b, d) = s5l_spi_step w b d"
| "spi_event_step w Spi_Irq_Note (b, d) = (s5l_spi_irq_note b, d)"

type_synonym 'd spi_traced = "s5l_spi \<times> 'd \<times> (u8 \<times> u8) list"

text \<open>The bytes the guest's stores to TXDATA put into the port, and what became of them so far:
  sent to the slave, then still waiting.\<close>

fun spi_accepts :: "spi_event \<Rightarrow> 'd spi_traced \<Rightarrow> u8 list" where
  "spi_accepts (Spi_Write off val) (b, dl) = (if off = 0x10 \<and> sp_tx_level b < 8 then [ucast val] else [])"
| "spi_accepts _ _ = []"

definition spi_sent_then_waiting :: "'d spi_traced \<Rightarrow> u8 list" where
  "spi_sent_then_waiting s = map fst (snd (snd s)) @ tx_pending (fst s)"

lemma shifted_sent: "shifted dma b log b1 log1 \<Longrightarrow>
    spi_sent_then_waiting (b1, d1, log1) = spi_sent_then_waiting (b, d, log) \<and> spi_ok b1"
  by (auto simp: shifted_def spi_sent_then_waiting_def)

lemma spi_shift_sent:
  assumes "spi_ok b"
  shows "spi_sent_then_waiting (spi_shift (recorded_wiring w) b dl) = spi_sent_then_waiting (b, dl)"
    "spi_ok (fst (spi_shift (recorded_wiring w) b dl))"
proof -
  obtain d log where dl: "dl = (d, log)" by (cases dl)
  obtain b1 d1 log1 where r: "spi_shift (recorded_wiring w) b (d, log) = (b1, d1, log1)"
    by (rule prod_cases3)
  note sent = shifted_sent [OF spi_shift_shifted [OF assms r]]
  show "spi_sent_then_waiting (spi_shift (recorded_wiring w) b dl) = spi_sent_then_waiting (b, dl)"
    unfolding dl r by (rule conjunct1 [OF sent])
  show "spi_ok (fst (spi_shift (recorded_wiring w) b dl))"
    unfolding dl r fst_conv by (rule conjunct2 [OF sent])
qed

lemma note_unknown_fields:
  "tx_pending (note_unknown off b) = tx_pending b" "rx_pending (note_unknown off b) = rx_pending b"
  "spi_ok (note_unknown off b) = spi_ok b" "sp_setup (note_unknown off b) = sp_setup b"
  by (simp_all add: note_unknown_def tx_pending_def rx_pending_def spi_ok_def)

lemma spi_irq_note_fields:
  "tx_pending (s5l_spi_irq_note b) = tx_pending b" "rx_pending (s5l_spi_irq_note b) = rx_pending b"
  "spi_ok (s5l_spi_irq_note b) = spi_ok b" "sp_setup (s5l_spi_irq_note b) = sp_setup b"
  by (simp_all add: s5l_spi_irq_note_def tx_pending_def rx_pending_def spi_ok_def Let_def)

lemma spi_push_tx:
  assumes "spi_ok b" "sp_tx_level b < 8"
  shows "tx_pending (tx_push v b) = tx_pending b @ [v]" "rx_pending (tx_push v b) = rx_pending b"
    "spi_ok (tx_push v b)" "sp_setup (tx_push v b) = sp_setup b" "sp_cs (tx_push v b) = sp_cs b"
  using assms by (simp_all add: tx_push_def tx_pending_def rx_pending_def spi_ok_def take_Suc_conv_app_nth)

lemma spi_write_sent:
  assumes "spi_ok b"
  shows "spi_ok (fst (s5l_spi_write (recorded_wiring w) off val b dl))"
    "spi_sent_then_waiting (s5l_spi_write (recorded_wiring w) off val b dl) =
       spi_sent_then_waiting (b, dl) @ spi_accepts (Spi_Write off val) (b, dl)"
proof -
  let ?b1 = "tx_push (ucast val) b"
  have push: "spi_ok (fst (spi_shift (recorded_wiring w) ?b1 dl))"
    "spi_sent_then_waiting (spi_shift (recorded_wiring w) ?b1 dl) = spi_sent_then_waiting (b, dl) @ [ucast val]"
    if "sp_tx_level b < 8"
    using spi_push_tx [OF assms that, of "ucast val"] spi_shift_sent [of ?b1 w dl]
    by (simp_all add: spi_sent_then_waiting_def)
  have other: "spi_ok (fst (s5l_spi_write (recorded_wiring w) off val b dl))"
    "spi_sent_then_waiting (s5l_spi_write (recorded_wiring w) off val b dl) = spi_sent_then_waiting (b, dl)"
    if "off \<noteq> 0x10 \<or> sp_tx_level b \<ge> 8"
    using assms that
    by (auto simp: s5l_spi_write_def spi_sent_then_waiting_def note_unknown_fields)
      (auto simp: tx_pending_def spi_ok_def)
  show "spi_ok (fst (s5l_spi_write (recorded_wiring w) off val b dl))"
    using push(1) other(1) by (cases "off \<noteq> 0x10 \<or> sp_tx_level b \<ge> 8") (auto simp: s5l_spi_write_def)
  show "spi_sent_then_waiting (s5l_spi_write (recorded_wiring w) off val b dl) =
       spi_sent_then_waiting (b, dl) @ spi_accepts (Spi_Write off val) (b, dl)"
    using push(2) other(2) by (cases "off \<noteq> 0x10 \<or> sp_tx_level b \<ge> 8") (auto simp: s5l_spi_write_def)
qed

lemma spi_pop_rx:
  assumes "spi_ok b" "sp_rx_level b \<noteq> 0"
  obtains v b1 where "s5l_spi_read w 0x20 b d = (ucast v, spi_shift w b1 d)"
    "rx_pending b = v # rx_pending b1" "tx_pending b1 = tx_pending b" "spi_ok b1"
    "sp_setup b1 = sp_setup b" "sp_cs b1 = sp_cs b"
proof -
  obtain v ys m where p: "fifo_pop (sp_rx b) (sp_rx_level b) = (v, ys, m)" by (rule prod_cases3)
  let ?b1 = "b\<lparr>sp_rx := ys, sp_rx_level := m, sp_rx_reads := sp_rx_reads b + 1\<rparr>"
  have q: "take (sp_rx_level b) (sp_rx b) = v # take m ys \<and> length ys = 8 \<and> m = sp_rx_level b - 1"
    using fifo_pop_queue [OF p assms(2)] assms(1) by (simp add: spi_ok_def)
  show thesis
    by (rule that [of v ?b1])
      (use q assms in \<open>auto simp: s5l_spi_read_def p rx_pending_def tx_pending_def spi_ok_def\<close>)
qed

lemma spi_read_sent:
  assumes "spi_ok b"
  shows "spi_ok (fst (snd (s5l_spi_read (recorded_wiring w) off b dl)))"
    "spi_sent_then_waiting (snd (s5l_spi_read (recorded_wiring w) off b dl)) = spi_sent_then_waiting (b, dl)"
proof -
  let ?read = "\<lambda>off. s5l_spi_read (recorded_wiring w) off b dl"
  have pop: "spi_ok (fst (snd (?read 0x20)))"
    "spi_sent_then_waiting (snd (?read 0x20)) = spi_sent_then_waiting (b, dl)"
    if rx: "sp_rx_level b \<noteq> 0"
  proof -
    obtain v b1 where p: "?read 0x20 = (ucast v, spi_shift (recorded_wiring w) b1 dl)"
      "rx_pending b = v # rx_pending b1" "tx_pending b1 = tx_pending b" "spi_ok b1"
      "sp_setup b1 = sp_setup b" "sp_cs b1 = sp_cs b"
      by (rule spi_pop_rx [OF assms rx])
    show "spi_ok (fst (snd (?read 0x20)))"
      "spi_sent_then_waiting (snd (?read 0x20)) = spi_sent_then_waiting (b, dl)"
      using spi_shift_sent [OF p(4), of w dl] p(1,3) by (simp_all add: spi_sent_then_waiting_def)
  qed
  have other: "spi_ok (fst (snd (?read off)))" "spi_sent_then_waiting (snd (?read off)) = spi_sent_then_waiting (b, dl)"
    if "off \<noteq> 0x20 \<or> sp_rx_level b = 0"
    using assms that
    by (auto simp: s5l_spi_read_def spi_sent_then_waiting_def note_unknown_fields)
      (auto simp: tx_pending_def spi_ok_def)
  show "spi_ok (fst (snd (?read off)))" "spi_sent_then_waiting (snd (?read off)) = spi_sent_then_waiting (b, dl)"
    using pop other by blast+
qed

interpretation spi_tx: fifo_device spi_sent_then_waiting "\<lambda>s. spi_ok (fst s)"
  "spi_event_step (recorded_wiring w)" spi_accepts "\<lambda>e s. []" for w :: "'d spi_wiring"
proof
  fix s :: "'d spi_traced" and e :: spi_event
  assume ok: "spi_ok (fst s)"
  obtain b dl where s: "s = (b, dl)" by (cases s)
  note ok = ok [unfolded s fst_conv]
  show "spi_ok (fst (spi_event_step (recorded_wiring w) e s))"
    unfolding s by (cases e) (simp_all add: s5l_spi_step_def spi_write_sent spi_read_sent
        spi_shift_sent spi_irq_note_fields ok)
  have note_sent: "spi_sent_then_waiting (s5l_spi_irq_note b, dl) = spi_sent_then_waiting (b, dl)"
    by (simp add: spi_sent_then_waiting_def spi_irq_note_fields)
  show "[] @ spi_sent_then_waiting (spi_event_step (recorded_wiring w) e s) =
      spi_sent_then_waiting s @ spi_accepts e s"
    unfolding s by (cases e) (simp_all add: s5l_spi_step_def spi_write_sent(2) [OF ok]
        spi_read_sent(2) [OF ok] spi_shift_sent(1) [OF ok] note_sent del: spi_accepts.simps(1))
qed

section \<open>PIO: the answers come back in order, and the port drains\<close>

datatype pio_event = Pio_Send u8 | Pio_Receive | Pio_Status | Pio_Ack u32 | Pio_Tick

fun pio_as_spi :: "pio_event \<Rightarrow> spi_event" where
  "pio_as_spi (Pio_Send v) = Spi_Write 0x10 (ucast v)"
| "pio_as_spi Pio_Receive = Spi_Read 0x20"
| "pio_as_spi Pio_Status = Spi_Read 0x08"
| "pio_as_spi (Pio_Ack val) = Spi_Write 0x08 val"
| "pio_as_spi Pio_Tick = Spi_Tick"

definition pio_step :: "'d spi_wiring \<Rightarrow> pio_event \<Rightarrow> s5l_spi \<times> 'd \<Rightarrow> s5l_spi \<times> 'd" where
  "pio_step w e s = spi_event_step w (pio_as_spi e) s"

text \<open>The slave's answers during an event, and the byte the guest takes out of RXDATA.\<close>

definition pio_answers :: "'d spi_wiring \<Rightarrow> pio_event \<Rightarrow> 'd spi_traced \<Rightarrow> u8 list" where
  "pio_answers w e s =
     map snd (drop (length (snd (snd s))) (snd (snd (pio_step (recorded_wiring w) e s))))"

definition pio_received :: "'d spi_wiring \<Rightarrow> pio_event \<Rightarrow> 'd spi_traced \<Rightarrow> u8 list" where
  "pio_received w e s =
     (if e = Pio_Receive \<and> sp_rx_level (fst s) \<noteq> 0
      then [ucast (fst (s5l_spi_read (recorded_wiring w) 0x20 (fst s) (snd s)))] else [])"

lemma spi_shift_answers:
  assumes "spi_ok b" "sp_setup b AND 0x40 = 0"
    and "spi_shift (recorded_wiring w) b (d, log) = (b1, d1, log1)"
  shows "rx_pending b1 = rx_pending b @ map snd (drop (length log) log1)" "spi_ok b1"
    "sp_setup b1 AND 0x40 = 0"
  using spi_shift_shifted [OF assms(1,3)] assms(2) by (auto simp: shifted_def)

text \<open>What every event does to the receive queue: the guest takes its byte, the answers come in.\<close>

lemma pio_event_queue:
  assumes ok: "spi_ok b" "sp_setup b AND 0x40 = 0"
  shows "pio_received w e (b, dl) @ rx_pending (fst (pio_step (recorded_wiring w) e (b, dl))) =
      rx_pending b @ pio_answers w e (b, dl)"
    "spi_ok (fst (pio_step (recorded_wiring w) e (b, dl)))"
    "sp_setup (fst (pio_step (recorded_wiring w) e (b, dl))) AND 0x40 = 0"
proof -
  let ?w = "recorded_wiring w"
  let ?s1 = "pio_step ?w e (b, dl)"
  obtain d log where dl: "dl = (d, log)" by (cases dl)
  have shift: "pio_received w e (b, dl) @ rx_pending (fst ?s1) = rx_pending b @ pio_answers w e (b, dl) \<and>
      spi_ok (fst ?s1) \<and> sp_setup (fst ?s1) AND 0x40 = 0"
    if s1: "?s1 = spi_shift ?w b0 (d, log)" and b0: "spi_ok b0" "sp_setup b0 = sp_setup b"
      "pio_received w e (b, dl) @ rx_pending b0 = rx_pending b" for b0
  proof -
    obtain b1 d1 log1 where r: "spi_shift ?w b0 (d, log) = (b1, d1, log1)" by (rule prod_cases3)
    from spi_shift_answers [OF b0(1) _ r] ok(2) b0(2)
    have a: "rx_pending b1 = rx_pending b0 @ map snd (drop (length log) log1)" "spi_ok b1"
      "sp_setup b1 AND 0x40 = 0" by simp_all
    moreover have "pio_received w e (b, dl) @ rx_pending b0 @ ys = rx_pending b @ ys" for ys
      using b0(3) by (metis append_assoc)
    moreover have "pio_answers w e (b, dl) = map snd (drop (length log) log1)"
      by (simp add: pio_answers_def s1 r) (simp add: dl)
    ultimately show ?thesis by (simp add: s1 r)
  qed
  have still: "pio_received w e (b, dl) @ rx_pending (fst ?s1) = rx_pending b @ pio_answers w e (b, dl) \<and>
      spi_ok (fst ?s1) \<and> sp_setup (fst ?s1) AND 0x40 = 0"
    if s1: "?s1 = (b1, dl)" and b1: "rx_pending b1 = rx_pending b" "spi_ok b1" "sp_setup b1 = sp_setup b"
      and none: "pio_received w e (b, dl) = []" for b1
    using that ok by (simp add: pio_answers_def)
  have "pio_received w e (b, dl) @ rx_pending (fst ?s1) = rx_pending b @ pio_answers w e (b, dl) \<and>
      spi_ok (fst ?s1) \<and> sp_setup (fst ?s1) AND 0x40 = 0"
  proof (cases e)
    case (Pio_Send v)
    show ?thesis
    proof (cases "sp_tx_level b < 8")
      case True
      show ?thesis
        by (rule shift [of "tx_push (ucast (ucast v :: u32)) b"])
          (use True in \<open>simp_all add: spi_push_tx ok Pio_Send pio_step_def s5l_spi_write_def dl
             pio_received_def\<close>)
    next
      case False
      show ?thesis
        by (rule still [of "b\<lparr>sp_tx_drops := sp_tx_drops b + 1\<rparr>"])
          (use ok False in \<open>simp_all add: Pio_Send pio_step_def s5l_spi_write_def pio_received_def
             rx_pending_def spi_ok_def\<close>)
    qed
  next
    case Pio_Receive
    show ?thesis
    proof (cases "sp_rx_level b = 0")
      case True
      show ?thesis
        by (rule still [of "b\<lparr>sp_rx_underruns := sp_rx_underruns b + 1\<rparr>"])
          (use ok True in \<open>simp_all add: Pio_Receive pio_step_def s5l_spi_read_def pio_received_def
             rx_pending_def spi_ok_def\<close>)
    next
      case False
      obtain v b0 where p: "s5l_spi_read ?w 0x20 b dl = (ucast v, spi_shift ?w b0 dl)"
        "rx_pending b = v # rx_pending b0" "tx_pending b0 = tx_pending b" "spi_ok b0"
        "sp_setup b0 = sp_setup b" "sp_cs b0 = sp_cs b"
        by (rule spi_pop_rx [OF ok(1) False])
      have "ucast (ucast v :: u32) = v" by (rule bit_word_eqI) (auto simp: bit_simps)
      then show ?thesis
        by (intro shift [of b0]) (simp_all add: Pio_Receive pio_step_def pio_received_def p False dl [symmetric])
    qed
  next
    case Pio_Status
    show ?thesis
      by (rule still [of b]) (use ok in \<open>simp_all add: Pio_Status pio_step_def s5l_spi_read_def pio_received_def\<close>)
  next
    case (Pio_Ack val)
    show ?thesis
      by (rule still [of "b\<lparr>sp_status := sp_status b AND NOT (val AND 0xf)\<rparr>"])
        (use ok in \<open>simp_all add: Pio_Ack pio_step_def s5l_spi_write_def pio_received_def rx_pending_def spi_ok_def\<close>)
  next
    case Pio_Tick
    show ?thesis
      by (rule shift [of b]) (simp_all add: Pio_Tick pio_step_def s5l_spi_step_def pio_received_def ok dl)
  qed
  then show "pio_received w e (b, dl) @ rx_pending (fst ?s1) = rx_pending b @ pio_answers w e (b, dl)"
    "spi_ok (fst ?s1)" "sp_setup (fst ?s1) AND 0x40 = 0" by blast+
qed

interpretation spi_rx: fifo_device "\<lambda>s. rx_pending (fst s)" "\<lambda>s. spi_ok (fst s) \<and> sp_setup (fst s) AND 0x40 = 0"
  "pio_step (recorded_wiring w)" "pio_answers w" "pio_received w" for w :: "'d spi_wiring"
  by unfold_locales (auto simp: pio_event_queue)

text \<open>One read of RXDATA with a device selected: the total backlog shrinks by one.\<close>

definition guest_read_rx :: "'d spi_wiring \<Rightarrow> 'd spi_traced \<Rightarrow> 'd spi_traced" where
  "guest_read_rx w s = snd (s5l_spi_read (recorded_wiring w) 0x20 (fst s) (snd s))"

definition pio_settled :: "'d spi_wiring \<Rightarrow> 'd spi_traced \<Rightarrow> bool" where
  "pio_settled w s \<longleftrightarrow> spi_ok (fst s) \<and> sp_setup (fst s) AND 0x40 = 0 \<and> selected w (fst s) \<and>
     (sp_tx_level (fst s) = 0 \<or> sp_rx_level (fst s) = 8)"

definition backlog :: "'d spi_traced \<Rightarrow> nat" where
  "backlog s = length (tx_pending (fst s)) + length (rx_pending (fst s))"

lemma tick_settles:
  assumes "spi_ok b" "sp_setup b AND 0x40 = 0" "selected w b"
  shows "pio_settled w (s5l_spi_step (recorded_wiring w) b dl)"
    "backlog (s5l_spi_step (recorded_wiring w) b dl) = backlog (b, dl)"
proof -
  obtain d log where dl: "dl = (d, log)" by (cases dl)
  obtain b1 d1 log1 where r: "spi_shift (recorded_wiring w) b (d, log) = (b1, d1, log1)"
    by (rule prod_cases3)
  note sh = spi_shift_shifted [OF assms(1) r]
  show "pio_settled w (s5l_spi_step (recorded_wiring w) b dl)"
    using spi_shift_selected [OF assms(1,3) r] sh assms(2)
    by (auto simp: pio_settled_def s5l_spi_step_def dl r shifted_def)
  show "backlog (s5l_spi_step (recorded_wiring w) b dl) = backlog (b, dl)"
    using sh assms(2) by (auto simp: s5l_spi_step_def dl r shifted_def backlog_def)
qed

lemma read_shrinks_backlog:
  assumes "pio_settled w s"
  shows "pio_settled w (guest_read_rx w s) \<and> backlog (guest_read_rx w s) = backlog s - 1"
proof -
  obtain b dl where s: "s = (b, dl)" by (cases s)
  have ok: "spi_ok b" "sp_setup b AND 0x40 = 0" "selected w b" "sp_tx_level b = 0 \<or> sp_rx_level b = 8"
    using assms by (simp_all add: pio_settled_def s)
  show ?thesis
  proof (cases "sp_rx_level b = 0")
    case True
    then show ?thesis
      using ok by (auto simp: guest_read_rx_def s s5l_spi_read_def pio_settled_def backlog_def
          spi_ok_def tx_pending_def rx_pending_def selected_def)
  next
    case False
    obtain v b0 where p: "s5l_spi_read (recorded_wiring w) 0x20 b dl = (ucast v, spi_shift (recorded_wiring w) b0 dl)"
        "rx_pending b = v # rx_pending b0" "tx_pending b0 = tx_pending b" "spi_ok b0"
        "sp_setup b0 = sp_setup b" "sp_cs b0 = sp_cs b"
      by (rule spi_pop_rx [OF ok(1) False])
    have "selected w b0" using ok(3) p(6) by (simp add: selected_def)
    with tick_settles [OF p(4), of w dl] show ?thesis
      using ok(2) p by (simp add: guest_read_rx_def s s5l_spi_step_def backlog_def)
  qed
qed

lemma reads_drain:
  "pio_settled w s \<Longrightarrow>
    pio_settled w ((guest_read_rx w ^^ n) s) \<and> backlog ((guest_read_rx w ^^ n) s) = backlog s - n"
  by (induction n) (auto simp: read_shrinks_backlog)

section \<open>The properties of the port\<close>

text \<open>
  C20:
  The controller sends what it is given. With any device behind any chip select, over any sequence
  of register reads and writes, ticks and interrupt samples, in PIO or DMA or switching between the
  two, from a port with an empty transmit FIFO: the bytes the devices have received, followed by
  those still in the transmit FIFO, are exactly the bytes accepted by TXDATA, in order, and at most
  eight are waiting.
\<close>

theorem spi_sends_in_order:
  assumes "spi_ok b" "sp_tx_level b = 0"
    and "fifo_run (spi_event_step (recorded_wiring w)) spi_accepts (\<lambda>e s. []) es (b, d, []) =
      (accepted, outs, b1, d1, wire)"
  shows "map fst wire @ tx_pending b1 = accepted \<and> length (tx_pending b1) \<le> 8"
proof -
  have none: "outs = []" if "fifo_run st spi_accepts (\<lambda>e s. []) es s = (accepted, outs, t)"
    for st and s t :: "'d spi_traced" and outs :: "u8 list" and accepted
    using that by (induction es arbitrary: s accepted outs) (auto split: prod.splits)
  show ?thesis
    using spi_tx.run_conserves [OF _ assms(3)] none [OF assms(3)] assms(1,2)
    by (simp add: spi_sent_then_waiting_def tx_pending_def) (simp add: spi_ok_def)
qed

definition demo_wiring :: "unit spi_wiring" where
  "demo_wiring cs = (if cs = 1 then Some lcd_transfer else None)"

definition demo_port :: s5l_spi where
  "demo_port = (fst (s5l_spi_reset :: s5l_spi \<times> unit spi_wiring))\<lparr>sp_cs := 1\<rparr>"

lemmas spi_eval = demo_port_def demo_wiring_def s5l_spi_reset_def recorded_wiring_def recorded_def
  spi_shift_def spi_shift_loop.simps spi_word_def spi_receive_def fifo_pop_def lcd_transfer_def
  s5l_spi_write_def s5l_spi_read_def tx_push_def s5l_spi_step_def tx_pending_def rx_pending_def

lemma demo_port_ok: "spi_ok demo_port" "sp_tx_level demo_port = 0" "sp_rx_level demo_port = 0"
  "sp_setup demo_port AND 0x40 = 0" "sp_cs demo_port = 1"
  by (simp_all add: demo_port_def s5l_spi_reset_def spi_ok_def)

lemma spi_demo_run:
  "\<exists>b1. fifo_run (spi_event_step (recorded_wiring demo_wiring)) spi_accepts (\<lambda>e s. [])
      [Spi_Write 0x34 2, Spi_Write 0x10 0x95, Spi_Write 0x10 0xff, Spi_Read 0x20] (demo_port, (), []) =
    ([0x95, 0xff], [], b1, (), [(0x95, 0), (0xff, 1)])"
  by (simp add: spi_eval note_unknown_def)

lemma spi_sends_in_order_witness:
  "\<exists>b1. [0x95, 0xff] @ tx_pending b1 = [0x95, 0xff] \<and> length (tx_pending b1) \<le> 8 \<and>
     fifo_run (spi_event_step (recorded_wiring demo_wiring)) spi_accepts (\<lambda>e s. [])
      [Spi_Write 0x34 2, Spi_Write 0x10 0x95, Spi_Write 0x10 0xff, Spi_Read 0x20] (demo_port, (), []) =
    ([0x95, 0xff], [], b1, (), [(0x95, 0), (0xff, 1)])"
proof -
  obtain b1 where run: "fifo_run (spi_event_step (recorded_wiring demo_wiring)) spi_accepts (\<lambda>e s. [])
      [Spi_Write 0x34 2, Spi_Write 0x10 0x95, Spi_Write 0x10 0xff, Spi_Read 0x20] (demo_port, (), []) =
    ([0x95, 0xff], [], b1, (), [(0x95, 0), (0xff, 1)])"
    using spi_demo_run by blast
  from spi_sends_in_order [OF demo_port_ok(1,2) run] run show ?thesis by auto
qed

text \<open>
  C21:
  PIO receives losslessly. With DMA off, over any interleaving of sends, receives, status reads,
  acknowledges and ticks, from a port with an empty receive FIFO: the bytes the guest takes from
  RXDATA, followed by those queued, are exactly the devices' answers, in order: back-pressure stalls
  the shifter, and no answer is overrun.
\<close>

theorem spi_pio_receives_in_order:
  assumes "spi_ok b" "sp_rx_level b = 0" "sp_setup b AND 0x40 = 0"
    and "fifo_run (pio_step (recorded_wiring w)) (pio_answers w) (pio_received w) es (b, dl) =
      (answers, received, b1, dl1)"
  shows "received @ rx_pending b1 = answers \<and> length (rx_pending b1) \<le> 8"
  using spi_rx.run_conserves [OF _ assms(4)] assms(1-3)
  by (simp add: rx_pending_def) (simp add: spi_ok_def)

lemma spi_pio_demo_run:
  "\<exists>b1 dl1. fifo_run (pio_step (recorded_wiring demo_wiring)) (pio_answers demo_wiring)
      (pio_received demo_wiring) [Pio_Send 1, Pio_Send 2, Pio_Receive] (demo_port, ((), [])) =
    ([0, 0], [0], b1, dl1)"
  by (simp add: pio_step_def pio_answers_def pio_received_def spi_eval note_unknown_def)

lemma spi_pio_receives_in_order_witness:
  "\<exists>b1 dl1. fifo_run (pio_step (recorded_wiring demo_wiring)) (pio_answers demo_wiring)
      (pio_received demo_wiring) [Pio_Send 1, Pio_Send 2, Pio_Receive] (demo_port, ((), [])) =
    ([0, 0], [0], b1, dl1) \<and> [0] @ rx_pending b1 = [0, 0] \<and> length (rx_pending b1) \<le> 8"
proof -
  obtain b1 dl1 where run: "fifo_run (pio_step (recorded_wiring demo_wiring)) (pio_answers demo_wiring)
      (pio_received demo_wiring) [Pio_Send 1, Pio_Send 2, Pio_Receive] (demo_port, ((), [])) =
    ([0, 0], [0], b1, dl1)"
    using spi_pio_demo_run by blast
  from spi_pio_receives_in_order [OF demo_port_ok(1,3,4) run] run show ?thesis by blast
qed

text \<open>
  C22:
  A PIO transfer ends. With a well-behaved device selected and DMA off, whatever is in the two
  FIFOs: after one tick and as many reads of RXDATA as there were bytes queued on either side, both
  FIFOs are empty and everything that was waiting has been sent, in order.
\<close>

theorem spi_pio_drains:
  assumes "spi_ok b" "sp_setup b AND 0x40 = 0" "selected w b" "backlog (b, d, wire) \<le> n"
    and "(guest_read_rx w ^^ n) (s5l_spi_step (recorded_wiring w) b (d, wire)) = (b1, d1, wire1)"
  shows "tx_pending b1 = [] \<and> rx_pending b1 = [] \<and> map fst wire1 = map fst wire @ tx_pending b"
proof -
  let ?s = "s5l_spi_step (recorded_wiring w) b (d, wire)"
  have sent: "spi_sent_then_waiting ((guest_read_rx w ^^ m) s) = spi_sent_then_waiting s"
    if "pio_settled w s" for m and s :: "'a spi_traced"
    using reads_drain [OF that]
    by (induction m) (simp_all add: guest_read_rx_def spi_read_sent(2) pio_settled_def)
  have s: "pio_settled w ?s" "backlog ?s \<le> n"
    using tick_settles [OF assms(1-3)] assms(4) by auto
  have "backlog (b1, d1, wire1) = 0" using reads_drain [OF s(1), of n] s(2) assms(5) by simp
  then have "tx_pending b1 = [] \<and> rx_pending b1 = []" by (simp add: backlog_def)
  moreover have "spi_sent_then_waiting (b1, d1, wire1) = spi_sent_then_waiting (b, d, wire)"
    using sent [OF s(1), of n] assms(5) spi_shift_sent(1) [OF assms(1)] by (simp add: s5l_spi_step_def)
  ultimately show ?thesis by (simp add: spi_sent_then_waiting_def)
qed

lemma demo_selected: "selected demo_wiring demo_port"
  unfolding selected_def demo_port_ok(5) demo_wiring_def using lcd.spi_slave_axioms by simp

lemma spi_pio_drains_witness:
  "\<exists>b1 d1 wire1. (guest_read_rx demo_wiring ^^ 1)
      (s5l_spi_step (recorded_wiring demo_wiring) (tx_push 0x95 demo_port) ((), [])) = (b1, d1, wire1) \<and>
     tx_pending b1 = [] \<and> rx_pending b1 = [] \<and> map fst wire1 = [0x95]"
proof -
  have push: "tx_pending (tx_push 0x95 demo_port) = [0x95]" "rx_pending (tx_push 0x95 demo_port) = []"
    using spi_push_tx(1,2) [OF demo_port_ok(1), of "0x95"] demo_port_ok
    by (simp_all add: tx_pending_def rx_pending_def)
  have ok: "spi_ok (tx_push 0x95 demo_port)" "sp_setup (tx_push 0x95 demo_port) AND 0x40 = 0"
      "sp_cs (tx_push 0x95 demo_port) = sp_cs demo_port"
    using spi_push_tx [OF demo_port_ok(1), of "0x95"] demo_port_ok by simp_all
  have sel: "selected demo_wiring (tx_push 0x95 demo_port)"
    using demo_selected by (simp add: selected_def ok(3))
  obtain b1 d1 wire1 where run: "(guest_read_rx demo_wiring ^^ 1)
      (s5l_spi_step (recorded_wiring demo_wiring) (tx_push 0x95 demo_port) ((), [])) = (b1, d1, wire1)"
    by (rule prod_cases3)
  from spi_pio_drains [OF ok(1,2) sel _ run] show ?thesis
    using run by (simp add: backlog_def push)
qed

end
