(* ===== verification/Pl080.thy ===== *)
theory Pl080
  imports Cpu_State Bytes
begin

text \<open>
  The PL080 DMA controller (core/src/soc/pl080.c): the register file, the staging of bytes between
  the two widths of a channel, the request lines, linked-list items and the run over all channels.
  The controller lives inside the machine its bus leads to, as in the code, where \<open>bus->ctx\<close> is the
  machine that holds the controller: \<open>dh_get\<close> and \<open>dh_put\<close> reach it there, so a transfer whose
  destination is the controller's own registers is covered. The six access functions of the bus are
  present, as on every bus the machine builds.
\<close>

unbundle bit_operations_syntax

section \<open>Registers\<close>

record pl080_chan =
  ch_src :: u32
  ch_dst :: u32
  ch_lli :: u32
  ch_ctrl :: u32
  ch_cfg :: u32
  ch_runs :: u64
  ch_bytes :: u64

record s5l_pl080 =
  dm_ch :: "pl080_chan list"
  dm_config :: u32
  dm_sync :: u32
  dm_raw_tc :: u32
  dm_raw_err :: u32
  dm_reads :: u64
  dm_writes :: u64
  dm_unknown_reads :: u64
  dm_unknown_writes :: u64
  dm_unknown_off :: "u32 list"
  dm_transfers :: u64
  dm_bytes_moved :: u64
  dm_items :: u64
  dm_completions :: u64
  dm_refused_flow :: u64
  dm_refused_width :: u64
  dm_refused_chain :: u64
  dm_refused_softreq :: u64
  dm_refused_endian :: u64
  dm_config_writes :: u64
  dm_config_first :: u32

definition zero_chan :: pl080_chan where
  "zero_chan = \<lparr>ch_src = 0, ch_dst = 0, ch_lli = 0, ch_ctrl = 0, ch_cfg = 0, ch_runs = 0, ch_bytes = 0\<rparr>"

definition s5l_pl080_reset :: s5l_pl080 where
  "s5l_pl080_reset =
     \<lparr>dm_ch = replicate 8 zero_chan, dm_config = 0, dm_sync = 0, dm_raw_tc = 0, dm_raw_err = 0,
      dm_reads = 0, dm_writes = 0, dm_unknown_reads = 0, dm_unknown_writes = 0, dm_unknown_off = [],
      dm_transfers = 0, dm_bytes_moved = 0, dm_items = 0, dm_completions = 0, dm_refused_flow = 0,
      dm_refused_width = 0, dm_refused_chain = 0, dm_refused_softreq = 0, dm_refused_endian = 0,
      dm_config_writes = 0, dm_config_first = 0\<rparr>"

definition pl080_note_unknown :: "u32 \<Rightarrow> s5l_pl080 \<Rightarrow> s5l_pl080" where
  "pl080_note_unknown off d =
     (if off \<in> set (dm_unknown_off d) then d
      else if length (dm_unknown_off d) < 8 then d\<lparr>dm_unknown_off := dm_unknown_off d @ [off]\<rparr>
      else d)"

text \<open>The channel and register a per-channel offset names.\<close>

definition chan_of :: "u32 \<Rightarrow> (nat \<times> u32) option" where
  "chan_of off =
     (if off < 0x100 then None
      else
        let rel = off - 0x100; idx = rel div 0x20; r = rel mod 0x20
        in if idx \<ge> 8 then None else if r > 0x10 then None else Some (unat idx, r))"

definition chan_mask :: "(nat \<Rightarrow> bool) \<Rightarrow> u32" where
  "chan_mask p = foldl (\<lambda>v i. if p i then v OR shl 1 i else v) 0 [0..<8]"

definition masked_tc :: "s5l_pl080 \<Rightarrow> u32" where
  "masked_tc d = chan_mask (\<lambda>i. dm_raw_tc d AND shl 1 i \<noteq> 0 \<and> ch_cfg (dm_ch d ! i) AND 0x8000 \<noteq> 0)"

definition masked_err :: "s5l_pl080 \<Rightarrow> u32" where
  "masked_err d = chan_mask (\<lambda>i. dm_raw_err d AND shl 1 i \<noteq> 0 \<and> ch_cfg (dm_ch d ! i) AND 0x4000 \<noteq> 0)"

definition enabled_chans :: "s5l_pl080 \<Rightarrow> u32" where
  "enabled_chans d = chan_mask (\<lambda>i. ch_cfg (dm_ch d ! i) AND 1 \<noteq> 0)"

definition s5l_pl080_irq :: "s5l_pl080 \<Rightarrow> bool" where
  "s5l_pl080_irq d \<longleftrightarrow> masked_tc d OR masked_err d \<noteq> 0"

definition chan_reg :: "pl080_chan \<Rightarrow> u32 \<Rightarrow> u32" where
  "chan_reg ch r =
     (if r = 0x00 then ch_src ch else if r = 0x04 then ch_dst ch else if r = 0x08 then ch_lli ch
      else if r = 0x0c then ch_ctrl ch else ch_cfg ch AND NOT 0x00020000)"

definition s5l_pl080_read :: "u32 \<Rightarrow> s5l_pl080 \<Rightarrow> u32 \<times> s5l_pl080" where
  "s5l_pl080_read off d0 =
     (let d = d0\<lparr>dm_reads := dm_reads d0 + 1\<rparr>;
          unknown = (0, pl080_note_unknown off (d\<lparr>dm_unknown_reads := dm_unknown_reads d + 1\<rparr>));
          global = (if off = 0x000 then (masked_tc d OR masked_err d, d)
            else if off = 0x004 then (masked_tc d, d)
            else if off = 0x00c then (masked_err d, d)
            else if off = 0x014 then (dm_raw_tc d, d)
            else if off = 0x018 then (dm_raw_err d, d)
            else if off = 0x01c then (enabled_chans d, d)
            else if off = 0x030 then (dm_config d, d)
            else if off = 0x034 then (dm_sync d, d)
            else unknown)
      in case chan_of off of
           Some (c, r) \<Rightarrow>
             if r \<in> {0x00, 0x04, 0x08, 0x0c, 0x10} then (chan_reg (dm_ch d ! c) r, d) else global
         | None \<Rightarrow> global)"

definition chan_set :: "u32 \<Rightarrow> u32 \<Rightarrow> pl080_chan \<Rightarrow> pl080_chan" where
  "chan_set r val ch =
     (if r = 0x00 then ch\<lparr>ch_src := val\<rparr> else if r = 0x04 then ch\<lparr>ch_dst := val\<rparr>
      else if r = 0x08 then ch\<lparr>ch_lli := val\<rparr> else if r = 0x0c then ch\<lparr>ch_ctrl := val\<rparr>
      else ch\<lparr>ch_cfg := val AND NOT 0x00020000\<rparr>)"

definition s5l_pl080_write :: "u32 \<Rightarrow> u32 \<Rightarrow> s5l_pl080 \<Rightarrow> s5l_pl080" where
  "s5l_pl080_write off val d0 =
     (let d = d0\<lparr>dm_writes := dm_writes d0 + 1\<rparr>;
          unknown = pl080_note_unknown off (d\<lparr>dm_unknown_writes := dm_unknown_writes d + 1\<rparr>);
          global = (if off = 0x008 then d\<lparr>dm_raw_tc := dm_raw_tc d AND NOT val\<rparr>
            else if off = 0x010 then d\<lparr>dm_raw_err := dm_raw_err d AND NOT val\<rparr>
            else if off = 0x030 then
              d\<lparr>dm_refused_endian := (if val AND 6 \<noteq> 0 then dm_refused_endian d + 1 else dm_refused_endian d),
                dm_config_first := (if dm_config_writes d = 0 then val else dm_config_first d),
                dm_config_writes := dm_config_writes d + 1, dm_config := val\<rparr>
            else if off = 0x034 then d\<lparr>dm_sync := val\<rparr>
            else if off \<in> {0x020, 0x024, 0x028, 0x02c} then
              d\<lparr>dm_refused_softreq := dm_refused_softreq d + 1\<rparr>
            else unknown)
      in case chan_of off of
           Some (c, r) \<Rightarrow>
             if r \<in> {0x00, 0x04, 0x08, 0x0c, 0x10}
             then d\<lparr>dm_ch := (dm_ch d)[c := chan_set r val (dm_ch d ! c)]\<rparr> else global
         | None \<Rightarrow> global)"

section \<open>The engine\<close>

record 'm dma_host =
  dh_bus :: "'m arm_bus"
  dh_get :: "'m \<Rightarrow> s5l_pl080"
  dh_put :: "s5l_pl080 \<Rightarrow> 'm \<Rightarrow> 'm"
  dh_ready :: "('m \<Rightarrow> u32 \<Rightarrow> nat \<Rightarrow> bool \<Rightarrow> bool \<times> 'm) option"

text \<open>\<open>width\<close> is 1, 2 or 4 bytes.\<close>

definition bus_load :: "'m arm_bus \<Rightarrow> 'm \<Rightarrow> u32 \<Rightarrow> nat \<Rightarrow> u32 \<times> 'm" where
  "bus_load bus m addr width =
     (if width = 1 then let (v, m1) = read8 bus m addr in (ucast v, m1)
      else if width = 2 then let (v, m1) = read16 bus m addr in (ucast v, m1)
      else read32 bus m addr)"

definition bus_store :: "'m arm_bus \<Rightarrow> 'm \<Rightarrow> u32 \<Rightarrow> u32 \<Rightarrow> nat \<Rightarrow> 'm" where
  "bus_store bus m addr v width =
     (if width = 1 then write8 bus m addr (ucast v)
      else if width = 2 then write16 bus m addr (ucast v)
      else write32 bus m addr v)"

definition the_chan :: "'m dma_host \<Rightarrow> nat \<Rightarrow> 'm \<Rightarrow> pl080_chan" where
  "the_chan h c m = dm_ch (dh_get h m) ! c"

definition dm_update :: "'m dma_host \<Rightarrow> (s5l_pl080 \<Rightarrow> s5l_pl080) \<Rightarrow> 'm \<Rightarrow> 'm" where
  "dm_update h f m = dh_put h (f (dh_get h m)) m"

definition chan_update :: "'m dma_host \<Rightarrow> nat \<Rightarrow> (pl080_chan \<Rightarrow> pl080_chan) \<Rightarrow> 'm \<Rightarrow> 'm" where
  "chan_update h c f m =
     dm_update h (\<lambda>d. d\<lparr>dm_ch := (dm_ch d)[c := f (dm_ch d ! c)]\<rparr>) m"

definition chan_disable :: "'m dma_host \<Rightarrow> nat \<Rightarrow> 'm \<Rightarrow> 'm" where
  "chan_disable h c m = chan_update h c (\<lambda>ch. ch\<lparr>ch_cfg := ch_cfg ch AND NOT 1\<rparr>) m"

text \<open>Deliver the staged bytes at the destination width, \<open>2 ^ dw\<close> bytes at a time.\<close>

definition dma_deliver :: "'m dma_host \<Rightarrow> nat \<Rightarrow> nat \<Rightarrow> bool \<Rightarrow> u64 \<Rightarrow> 'm \<Rightarrow> 'm" where
  "dma_deliver h c dw di pend m =
     (let dwidth = 2 ^ dw;
          m1 = bus_store (dh_bus h) m (ch_dst (the_chan h c m)) (ucast (pend AND mask (8 * dwidth))) dwidth;
          m2 = (if di then chan_update h c (\<lambda>ch. ch\<lparr>ch_dst := ch_dst ch + of_nat dwidth\<rparr>) m1 else m1);
          m3 = dm_update h (\<lambda>d. d\<lparr>dm_bytes_moved := dm_bytes_moved d + of_nat dwidth\<rparr>) m2
      in chan_update h c (\<lambda>ch. ch\<lparr>ch_bytes := ch_bytes ch + of_nat dwidth\<rparr>) m3)"

function dma_drain :: "'m dma_host \<Rightarrow> nat \<Rightarrow> nat \<Rightarrow> bool \<Rightarrow> u64 \<Rightarrow> nat \<Rightarrow> 'm \<Rightarrow> u64 \<times> nat \<times> 'm" where
  "dma_drain h c dw di pend pend_bytes m =
     (if pend_bytes \<ge> 2 ^ dw
      then dma_drain h c dw di (shr pend (8 * 2 ^ dw)) (pend_bytes - 2 ^ dw) (dma_deliver h c dw di pend m)
      else (pend, pend_bytes, m))"
  by pat_completeness auto
termination
proof (relation "measure (\<lambda>(h, c, dw, di, pend, pend_bytes, m). pend_bytes)", goal_cases)
  case (2 h c dw di pend pend_bytes m)
  have w: "(0 :: nat) < 2 ^ dw" by simp
  with 2 have "0 < pend_bytes" by linarith
  then show ?case using w by (simp add: diff_less)
qed simp

declare dma_drain.simps [simp del]

text \<open>The request lines, asked with nothing staged: may the next transfer go ahead?\<close>

definition dma_granted :: "'m dma_host \<Rightarrow> nat \<Rightarrow> nat \<Rightarrow> nat \<Rightarrow> u32 \<Rightarrow> 'm \<Rightarrow> bool \<times> 'm" where
  "dma_granted h c sw dw flow m =
     (case dh_ready h of
        None \<Rightarrow> (True, m)
      | Some ready \<Rightarrow>
          let (source_ready, m1) =
                (if flow < 2 then (True, m) else ready m (ch_src (the_chan h c m)) (2 ^ sw) True);
              (destination_ready, m2) =
                (if flow AND 1 = 0 then (True, m1) else ready m1 (ch_dst (the_chan h c m1)) (2 ^ dw) False)
          in (source_ready \<and> destination_ready, m2))"

text \<open>One source transfer, \<open>n\<close> being the count that remains after it.\<close>

definition dma_fetch ::
  "'m dma_host \<Rightarrow> nat \<Rightarrow> nat \<Rightarrow> bool \<Rightarrow> nat \<Rightarrow> u64 \<Rightarrow> nat \<Rightarrow> 'm \<Rightarrow> u64 \<times> 'm" where
  "dma_fetch h c sw si n pend pend_bytes m =
     (let (v, m1) = bus_load (dh_bus h) m (ch_src (the_chan h c m)) (2 ^ sw);
          m2 = (if si then chan_update h c (\<lambda>ch. ch\<lparr>ch_src := ch_src ch + 2 ^ sw\<rparr>) m1 else m1);
          m3 = chan_update h c (\<lambda>ch. ch\<lparr>ch_ctrl := (ch_ctrl ch AND NOT 0xfff) OR of_nat n\<rparr>) m2
      in (pend OR shl (ucast v) (8 * pend_bytes),
          dm_update h (\<lambda>d. d\<lparr>dm_transfers := dm_transfers d + 1\<rparr>) m3))"

text \<open>The loop over the \<open>n\<close> transfers of an item; the result says whether it ran to the end or a
  request line stalled it.\<close>

fun dma_loop ::
  "'m dma_host \<Rightarrow> nat \<Rightarrow> nat \<Rightarrow> nat \<Rightarrow> u32 \<Rightarrow> bool \<Rightarrow> bool \<Rightarrow> nat \<Rightarrow> u64 \<Rightarrow> nat \<Rightarrow> 'm \<Rightarrow> bool \<times> 'm"
  where
  "dma_loop h c sw dw flow si di 0 pend pend_bytes m = (True, m)"
| "dma_loop h c sw dw flow si di (Suc n) pend pend_bytes m =
     (let (go, m0) = (if pend_bytes = 0 then dma_granted h c sw dw flow m else (True, m))
      in if \<not> go then (False, m0)
         else
           let (pend1, m1) = dma_fetch h c sw si n pend pend_bytes m0;
               (pend2, bytes2, m2) = dma_drain h c dw di pend1 (pend_bytes + 2 ^ sw) m1
           in dma_loop h c sw dw flow si di n pend2 bytes2 m2)"

definition dma_refuse_width :: "'m dma_host \<Rightarrow> nat \<Rightarrow> 'm \<Rightarrow> 'm" where
  "dma_refuse_width h c m =
     chan_disable h c (dm_update h (\<lambda>d. d\<lparr>dm_refused_width := dm_refused_width d + 1\<rparr>) m)"

text \<open>The end of an item: terminal count, then the next item of the list, if there is one.\<close>

definition dma_finish :: "'m dma_host \<Rightarrow> nat \<Rightarrow> 'm \<Rightarrow> bool \<times> 'm" where
  "dma_finish h c m =
     (let m1 = dm_update h (\<lambda>d. d\<lparr>dm_items := dm_items d + 1\<rparr>) m;
          m2 = chan_update h c (\<lambda>ch. ch\<lparr>ch_runs := ch_runs ch + 1\<rparr>) m1;
          m3 = (if ch_ctrl (the_chan h c m2) AND 0x80000000 \<noteq> 0
                then dm_update h (\<lambda>d. d\<lparr>dm_raw_tc := dm_raw_tc d OR shl 1 c,
                                       dm_completions := dm_completions d + 1\<rparr>) m2
                else m2)
      in if ch_lli (the_chan h c m3) = 0 then (False, chan_disable h c m3)
         else
           let at = ch_lli (the_chan h c m3) AND NOT 3;
               (v0, p0) = read32 (dh_bus h) m3 at;
               q0 = chan_update h c (\<lambda>ch. ch\<lparr>ch_src := v0\<rparr>) p0;
               (v1, p1) = read32 (dh_bus h) q0 (at + 4);
               q1 = chan_update h c (\<lambda>ch. ch\<lparr>ch_dst := v1\<rparr>) p1;
               (v2, p2) = read32 (dh_bus h) q1 (at + 8);
               q2 = chan_update h c (\<lambda>ch. ch\<lparr>ch_lli := v2\<rparr>) p2;
               (v3, p3) = read32 (dh_bus h) q2 (at + 12)
           in (True, chan_update h c (\<lambda>ch. ch\<lparr>ch_ctrl := v3\<rparr>) p3))"

text \<open>One item: does the channel go on with the next one?\<close>

definition run_item :: "'m dma_host \<Rightarrow> nat \<Rightarrow> 'm \<Rightarrow> bool \<times> 'm" where
  "run_item h c m =
     (let ch = the_chan h c m;
          sw = unat (shr (ch_ctrl ch) 18 AND 7); dw = unat (shr (ch_ctrl ch) 21 AND 7)
      in if sw > 2 \<or> dw > 2 then (False, dma_refuse_width h c m)
         else
           let flow = shr (ch_cfg ch AND 0x3800) 11
           in if flow > 3 then
                (False, chan_disable h c (dm_update h (\<lambda>d. d\<lparr>dm_refused_flow := dm_refused_flow d + 1\<rparr>) m))
              else
                let si = ch_ctrl ch AND 0x04000000 \<noteq> 0; di = ch_ctrl ch AND 0x08000000 \<noteq> 0;
                    n = unat (ch_ctrl ch AND 0xfff)
                in if n * 2 ^ sw mod 2 ^ dw \<noteq> 0 then (False, dma_refuse_width h c m)
                   else
                     let (ended, m1) = dma_loop h c sw dw flow si di n 0 0 m
                     in if \<not> ended then (False, m1) else dma_finish h c m1)"

text \<open>Follow the chain of a channel, at most \<open>k\<close> items further.\<close>

fun run_chain :: "'m dma_host \<Rightarrow> nat \<Rightarrow> nat \<Rightarrow> 'm \<Rightarrow> 'm" where
  "run_chain h c 0 m = m"
| "run_chain h c (Suc k) m =
     (let (more, m1) = run_item h c m
      in if \<not> more then m1
         else if k = 0 then
           chan_disable h c (dm_update h (\<lambda>d. d\<lparr>dm_refused_chain := dm_refused_chain d + 1\<rparr>) m1)
         else run_chain h c k m1)"

definition run_channel :: "'m dma_host \<Rightarrow> nat \<Rightarrow> 'm \<Rightarrow> 'm" where
  "run_channel h c m =
     (if ch_cfg (the_chan h c m) AND (1 OR 0x00040000) \<noteq> 1 then m else run_chain h c 1024 m)"

definition s5l_pl080_run :: "'m dma_host \<Rightarrow> 'm \<Rightarrow> bool \<times> 'm" where
  "s5l_pl080_run h m =
     (if dm_config (dh_get h m) AND 1 = 0 then (s5l_pl080_irq (dh_get h m), m)
      else
        let m1 = foldl (\<lambda>m c. run_channel h c m) m [0..<8]
        in (s5l_pl080_irq (dh_get h m1), m1))"

section \<open>Staging\<close>

text \<open>\<open>k\<close> bytes staged in \<open>pend\<close>: nothing above them.\<close>

definition staged :: "u64 \<Rightarrow> nat \<Rightarrow> bool" where
  "staged pend k \<longleftrightarrow> shr pend (8 * k) = 0"

lemma staged_bit: "staged pend k \<Longrightarrow> 8 * k \<le> n \<Longrightarrow> \<not> bit pend n"
proof -
  assume "staged pend k" "8 * k \<le> n"
  then have "bit (shr pend (8 * k)) (n - 8 * k) = False" by (simp add: staged_def)
  then show ?thesis using \<open>8 * k \<le> n\<close> by (simp add: bit_simps)
qed

lemma stage_more:
  fixes v :: u32
  assumes s: "staged pend k" and w: "w \<le> 4" "k + w \<le> 8" and v: "shr v (8 * w) = 0 \<or> w = 4"
  shows "staged (pend OR shl (ucast v) (8 * k)) (k + w)"
    "le_bytes (k + w) (pend OR shl (ucast v) (8 * k)) = le_bytes k pend @ le_bytes w v"
proof -
  have vbit: "\<not> bit v n" if "8 * w \<le> n" for n
  proof (cases "w = 4")
    case True
    then show ?thesis using that by (simp add: impossible_bit)
  next
    case False
    then have "bit (shr v (8 * w)) (n - 8 * w) = False" using v by simp
    then show ?thesis using that by (simp add: bit_simps)
  qed
  show "staged (pend OR shl (ucast v) (8 * k)) (k + w)"
    unfolding staged_def
    by (rule bit_word_eqI) (auto simp: bit_simps staged_bit [OF s] intro!: vbit)
  show "le_bytes (k + w) (pend OR shl (ucast v) (8 * k)) = le_bytes k pend @ le_bytes w v"
  proof (rule nth_equalityI)
    fix i assume "i < length (le_bytes (k + w) (pend OR shl (ucast v) (8 * k)))"
    then have i: "i < k + w" by simp
    show "le_bytes (k + w) (pend OR shl (ucast v) (8 * k)) ! i = (le_bytes k pend @ le_bytes w v) ! i"
    proof (cases "i < k")
      case True
      then show ?thesis
        by (simp add: nth_append i) (rule bit_word_eqI, auto simp: bit_simps)
    next
      case False
      then obtain j where j: "i = k + j" by (metis add_diff_inverse_nat)
      show ?thesis
        using i w by (simp add: nth_append j)
          (rule bit_word_eqI, auto simp: bit_simps algebra_simps staged_bit [OF s])
    qed
  qed simp
qed

lemma unstage:
  assumes "d \<le> k" "staged pend k" "d \<le> 4"
  shows "staged (shr pend (8 * d)) (k - d)" "le_bytes (k - d) (shr pend (8 * d)) = drop d (le_bytes k pend)"
    "le_bytes d (ucast (pend AND mask (8 * d)) :: u32) = take d (le_bytes k pend)"
proof -
  show "staged (shr pend (8 * d)) (k - d)"
  proof -
    have "8 * (k - d) + 8 * d = 8 * k" using assms by simp
    then show ?thesis using assms by (simp add: staged_def drop_bit_drop_bit)
  qed
  show "le_bytes (k - d) (shr pend (8 * d)) = drop d (le_bytes k pend)"
    by (rule nth_equalityI) (use assms in \<open>auto simp: algebra_simps\<close>)
  show "le_bytes d (ucast (pend AND mask (8 * d)) :: u32) = take d (le_bytes k pend)"
    by (rule nth_equalityI)
      (use assms in \<open>auto intro!: bit_word_eqI simp: bit_simps\<close>)
qed

section \<open>Copying between memories\<close>

text \<open>The memory \<open>M\<close> after the first \<open>j\<close> bytes at \<open>s\<close> were copied to \<open>t\<close>.\<close>

definition spliced :: "(u32 \<Rightarrow> u8) \<Rightarrow> u32 \<Rightarrow> u32 \<Rightarrow> nat \<Rightarrow> u32 \<Rightarrow> u8" where
  "spliced M s t j x = (if unat (x - t) < j then M (s + (x - t)) else M x)"

lemma spliced_0 [simp]: "spliced M s t 0 = M"
  by (rule ext) (simp add: spliced_def)

lemma spliced_extend:
  assumes "j + d \<le> 2 ^ 16"
  shows "(if unat (x - (t + of_nat j)) < d then M (s + (x - t)) else spliced M s t j x) = spliced M s t (j + d) x"
proof -
  define y where "y = x - t"
  have "unat (of_nat j :: u32) = j" using assms by (simp add: unat_of_nat)
  then have "unat (y - of_nat j) = (if j \<le> unat y then unat y - j else unat y + 2 ^ 32 - j)"
    by (simp add: unat_sub_if_size word_size)
  moreover have eq: "x - (t + of_nat j) = y - of_nat j" by (simp add: y_def)
  ultimately show ?thesis using assms unfolding eq spliced_def y_def [symmetric] by auto
qed

text \<open>Two regions of \<open>N\<close> bytes with no byte in common.\<close>

definition apart :: "u32 \<Rightarrow> u32 \<Rightarrow> nat \<Rightarrow> bool" where
  "apart s t N \<longleftrightarrow> (\<forall>i<N. \<forall>j<N. s + of_nat i \<noteq> t + of_nat j)"

lemma spliced_source:
  assumes "apart s t N" "i < N" "j \<le> N"
  shows "spliced M s t j (s + of_nat i) = M (s + of_nat i)"
proof -
  have "\<not> unat (s + of_nat i - t) < j"
  proof
    assume "unat (s + of_nat i - t) < j"
    then have "s + of_nat i \<noteq> t + of_nat (unat (s + of_nat i - t))"
      using assms unfolding apart_def by (meson order_less_le_trans)
    then show False by simp
  qed
  then show ?thesis by (simp add: spliced_def)
qed

text \<open>The count field of Control.\<close>

lemma ctrl_count:
  assumes "n < 4096"
  shows "((x AND NOT 0xfff) OR of_nat n) AND 0xfff = (of_nat n :: u32)"
    "((x AND NOT 0xfff) OR of_nat n) AND NOT 0xfff = (x AND NOT 0xfff :: u32)"
proof -
  have high: "\<not> bit n i" if "12 \<le> i" for i
  proof -
    have "(2 :: nat) ^ 12 \<le> 2 ^ i" by (rule power_increasing) (use that in simp_all)
    then have "n div 2 ^ i = 0" using assms by simp
    then show ?thesis by (simp add: bit_iff_odd)
  qed
  have "take_bit 12 (of_nat n :: u32) = of_nat n"
    by (rule bit_word_eqI) (use high not_less in \<open>auto simp: bit_simps\<close>)
  then have m: "of_nat n AND 0xfff = (of_nat n :: u32)" by (simp add: take_bit_eq_mask mask_eq_decr_exp)
  show "((x AND NOT 0xfff) OR of_nat n) AND 0xfff = (of_nat n :: u32)"
    using m by (simp add: bit.conj_disj_distrib2 and.assoc)
  have "of_nat n AND NOT 0xfff = (of_nat n AND 0xfff) AND (NOT 0xfff :: u32)" using m by simp
  also have "\<dots> = 0" by (simp only: and.assoc) simp
  finally show "((x AND NOT 0xfff) OR of_nat n) AND NOT 0xfff = (x AND NOT 0xfff :: u32)"
    by (simp add: bit.conj_disj_distrib2 and.assoc)
qed

text \<open>A channel that, programmed as \<open>ch\<close> with count \<open>n\<close> left, has read \<open>k\<close> bytes and delivered \<open>j\<close>.\<close>

definition chan_at :: "u32 \<Rightarrow> u32 \<Rightarrow> pl080_chan \<Rightarrow> nat \<Rightarrow> nat \<Rightarrow> nat \<Rightarrow> pl080_chan \<Rightarrow> bool" where
  "chan_at s t ch n k j x \<longleftrightarrow>
     ch_src x = s + of_nat k \<and> ch_dst x = t + of_nat j \<and> ch_ctrl x AND NOT 0xfff = ch_ctrl ch AND NOT 0xfff \<and>
     ch_ctrl x AND 0xfff = of_nat n \<and> ch_cfg x = ch_cfg ch \<and> ch_lli x = ch_lli ch"

lemma chan_at_moves:
  assumes "chan_at s t ch n0 k j x" "n < 4096"
  shows "chan_at s t ch n (k + w) j
      (x\<lparr>ch_src := ch_src x + of_nat w, ch_ctrl := (ch_ctrl x AND NOT 0xfff) OR of_nat n\<rparr>)"
  using assms ctrl_count [OF assms(2), of "ch_ctrl x"] by (simp add: chan_at_def add.assoc)

lemma chan_at_delivers:
  "chan_at s t ch n k j x \<Longrightarrow>
    chan_at s t ch n k (j + w) (x\<lparr>ch_dst := ch_dst x + of_nat w, ch_bytes := b\<rparr>)"
  by (simp add: chan_at_def add.assoc)

text \<open>A channel programmed to copy \<open>n\<close> transfers of \<open>2 ^ sw\<close> bytes, delivered \<open>2 ^ dw\<close> at a time.\<close>

definition copy_programmed :: "pl080_chan \<Rightarrow> nat \<Rightarrow> nat \<Rightarrow> nat \<Rightarrow> bool" where
  "copy_programmed ch n sw dw \<longleftrightarrow>
     unat (shr (ch_ctrl ch) 18 AND 7) = sw \<and> unat (shr (ch_ctrl ch) 21 AND 7) = dw \<and> sw \<le> 2 \<and> dw \<le> 2 \<and>
     ch_ctrl ch AND 0x04000000 \<noteq> 0 \<and> ch_ctrl ch AND 0x08000000 \<noteq> 0 \<and>
     unat (ch_ctrl ch AND 0xfff) = n \<and> n * 2 ^ sw mod 2 ^ dw = 0 \<and> ch_lli ch = 0 \<and>
     shr (ch_cfg ch AND 0x3800) 11 \<le> 3 \<and> ch_cfg ch AND (1 OR 0x00040000) = 1"

lemma copy_count: "copy_programmed ch n sw dw \<Longrightarrow> n < 4096"
  using word_and_le1 [of "ch_ctrl ch" "0xfff"] by (auto simp: copy_programmed_def word_le_nat_alt)

text \<open>Apart from the count, the control word stays as programmed.\<close>

lemma ctrl_fields:
  assumes "chan_at s t ch n k j x" "n < 4096"
  shows "shr (ch_ctrl x) 18 AND 7 = shr (ch_ctrl ch) 18 AND 7" "shr (ch_ctrl x) 21 AND 7 = shr (ch_ctrl ch) 21 AND 7"
    "ch_ctrl x AND 0x04000000 = ch_ctrl ch AND 0x04000000" "ch_ctrl x AND 0x08000000 = ch_ctrl ch AND 0x08000000"
    "ch_ctrl x AND 0x80000000 = ch_ctrl ch AND 0x80000000" "unat (ch_ctrl x AND 0xfff) = n"
proof -
  have m: "ch_ctrl x AND NOT 0xfff = ch_ctrl ch AND NOT 0xfff" "ch_ctrl x AND 0xfff = of_nat n"
    using assms(1) by (simp_all add: chan_at_def)
  have b32: "bit (ch_ctrl x) i = bit (ch_ctrl ch) i" if "12 \<le> i" "i < 32" for i
  proof -
    have "(0xfff :: u32) = mask 12" by (simp add: mask_eq_exp_minus_1)
    then have "bit (NOT 0xfff :: u32) i"
      using that by (simp only: bit_not_iff bit_mask_iff) simp
    then show ?thesis using m(1) that by (metis bit_and_iff)
  qed
  have b: "bit (ch_ctrl x) i = bit (ch_ctrl ch) i" if "12 \<le> i" for i
    using b32 [OF that] by (cases "i < 32") (simp_all add: impossible_bit)
  have keep: "ch_ctrl x AND C = ch_ctrl ch AND C" if "NOT 0xfff AND C = C" for C
  proof -
    have c: "y AND C = (y AND NOT 0xfff) AND C" for y :: u32 by (simp only: and.assoc that)
    show ?thesis by (rule box_equals [OF arg_cong [OF m(1), of "\<lambda>y. y AND C"] c [symmetric] c [symmetric]])
  qed
  show "shr (ch_ctrl x) 18 AND 7 = shr (ch_ctrl ch) 18 AND 7" "shr (ch_ctrl x) 21 AND 7 = shr (ch_ctrl ch) 21 AND 7"
    by (rule bit_word_eqI, simp add: bit_simps b)+
  show "ch_ctrl x AND 0x04000000 = ch_ctrl ch AND 0x04000000" "ch_ctrl x AND 0x08000000 = ch_ctrl ch AND 0x08000000"
    "ch_ctrl x AND 0x80000000 = ch_ctrl ch AND 0x80000000"
    by (rule keep, simp)+
  show "unat (ch_ctrl x AND 0xfff) = n" using m(2) assms(2) by (simp add: unat_of_nat)
qed

text \<open>What the engine relies on in the memory it copies between: the client's side of the bus.\<close>

locale dma_memory =
  fixes h :: "'m dma_host"
    and inv :: "'m \<Rightarrow> bool"
    and content :: "'m \<Rightarrow> u32 \<Rightarrow> u8"
    and ram :: "u32 \<Rightarrow> nat \<Rightarrow> bool"
  assumes get_put: "inv m \<Longrightarrow> dh_get h (dh_put h d m) = d"
    and put_inv: "inv m \<Longrightarrow> inv (dh_put h d m)"
    and put_content: "inv m \<Longrightarrow> content (dh_put h d m) = content m"
    and ram_part: "ram a n \<Longrightarrow> i + k \<le> n \<Longrightarrow> ram (a + of_nat i) k"
    and load: "inv m \<Longrightarrow> w \<in> {1, 2, 4} \<Longrightarrow> ram a w \<Longrightarrow>
      \<exists>v. bus_load (dh_bus h) m a w = (v, m) \<and> (shr v (8 * w) = 0 \<or> w = 4) \<and>
        le_bytes w v = map (\<lambda>i. content m (a + of_nat i)) [0..<w]"
    and store_inv: "inv m \<Longrightarrow> w \<in> {1, 2, 4} \<Longrightarrow> ram a w \<Longrightarrow> inv (bus_store (dh_bus h) m a v w)"
    and store_get: "inv m \<Longrightarrow> w \<in> {1, 2, 4} \<Longrightarrow> ram a w \<Longrightarrow>
      dh_get h (bus_store (dh_bus h) m a v w) = dh_get h m"
    and store: "inv m \<Longrightarrow> w \<in> {1, 2, 4} \<Longrightarrow> ram a w \<Longrightarrow>
      content (bus_store (dh_bus h) m a v w) x =
        (if unat (x - a) < w then ucast (shr v (8 * unat (x - a))) else content m x)"
    and ready_frame: "dh_ready h = Some ready \<Longrightarrow> inv m \<Longrightarrow>
      inv (snd (ready m a w from)) \<and> dh_get h (snd (ready m a w from)) = dh_get h m \<and>
      content (snd (ready m a w from)) = content m"
begin

lemma update_frame:
  assumes "inv m"
  shows "inv (dm_update h f m)" "content (dm_update h f m) = content m"
    "dh_get h (dm_update h f m) = f (dh_get h m)"
  using assms by (simp_all add: dm_update_def get_put put_inv put_content)

text \<open>The engine has read \<open>k\<close> bytes from \<open>s\<close> on and delivered \<open>j\<close> of them from \<open>t\<close> on.\<close>

definition at :: "nat \<Rightarrow> (u32 \<Rightarrow> u8) \<Rightarrow> u32 \<Rightarrow> u32 \<Rightarrow> pl080_chan \<Rightarrow> nat \<Rightarrow> nat \<Rightarrow> nat \<Rightarrow> 'm \<Rightarrow> bool" where
  "at c M s t ch n k j m \<longleftrightarrow>
     inv m \<and> content m = spliced M s t j \<and> c < length (dm_ch (dh_get h m)) \<and>
     chan_at s t ch n k j (the_chan h c m)"

definition holds :: "(u32 \<Rightarrow> u8) \<Rightarrow> u32 \<Rightarrow> nat \<Rightarrow> u64 \<Rightarrow> nat \<Rightarrow> bool" where
  "holds M s j pend k \<longleftrightarrow> staged pend k \<and> le_bytes k pend = map (\<lambda>i. M (s + of_nat (j + i))) [0..<k]"

lemma chan_update_frame:
  assumes "inv m" "c < length (dm_ch (dh_get h m))"
  shows "inv (chan_update h c f m)" "content (chan_update h c f m) = content m"
    "the_chan h c (chan_update h c f m) = f (the_chan h c m)"
    "length (dm_ch (dh_get h (chan_update h c f m))) = length (dm_ch (dh_get h m))"
  using assms by (simp_all add: chan_update_def update_frame the_chan_def)

lemma counter_frame:
  assumes "inv m" "\<And>d. dm_ch (f d) = dm_ch d"
  shows "inv (dm_update h f m)" "content (dm_update h f m) = content m"
    "the_chan h i (dm_update h f m) = the_chan h i m"
    "length (dm_ch (dh_get h (dm_update h f m))) = length (dm_ch (dh_get h m))"
  using assms by (simp_all add: update_frame the_chan_def)

lemma width_cases: "sw \<le> 2 \<Longrightarrow> (2 :: nat) ^ sw \<in> {1, 2, 4} \<and> (2 :: nat) ^ sw \<le> 4"
proof -
  assume "sw \<le> 2"
  then have "sw = 0 \<or> sw = 1 \<or> sw = 2" by linarith
  then show ?thesis by auto
qed

lemma fetch_step:
  assumes at: "at c M s t ch n0 k j m" and h: "holds M s j pend pb" "k = j + pb" "pb \<le> 3"
    and r: "ram s N" "apart s t N" "k + 2 ^ sw \<le> N" "sw \<le> 2" "n < 4096"
    and f: "dma_fetch h c sw True n pend pb m = (pend1, m1)"
  shows "at c M s t ch n (k + 2 ^ sw) j m1 \<and> holds M s j pend1 (pb + 2 ^ sw)"
proof -
  let ?w = "2 ^ sw :: nat"
  have w: "?w \<in> {1, 2, 4}" "?w \<le> 4" using width_cases [OF r(4)] by auto
  have i: "inv m" "c < length (dm_ch (dh_get h m))" "content m = spliced M s t j"
    "ch_src (the_chan h c m) = s + of_nat k"
    using at by (simp_all add: at_def chan_at_def)
  obtain v where v: "bus_load (dh_bus h) m (s + of_nat k) ?w = (v, m)" "shr v (8 * ?w) = 0 \<or> ?w = 4"
    "le_bytes ?w v = map (\<lambda>i. content m (s + of_nat k + of_nat i)) [0..<?w]"
    using load [OF i(1) w(1) ram_part [OF r(1,3)]] by blast
  have src: "content m (s + of_nat k + of_nat i) = M (s + of_nat (k + i))" if "i < ?w" for i
    using spliced_source [OF r(2), of "k + i" j M] that r(3) h(2) i(3) by (simp add: add.assoc)
  have "le_bytes ?w v = map (\<lambda>i. M (s + of_nat (k + i))) [0..<?w]"
    unfolding v(3) using src by simp
  moreover have "pend1 = pend OR shl (ucast v) (8 * pb)"
    using f i(4) v(1) by (simp add: dma_fetch_def Let_def)
  moreover have "map (\<lambda>i. M (s + of_nat (j + i))) [0..<pb + ?w] =
      map (\<lambda>i. M (s + of_nat (j + i))) [0..<pb] @ map (\<lambda>i. M (s + of_nat (k + i))) [0..<?w]"
    by (rule nth_equalityI) (auto simp: nth_append h(2) add.assoc)
  ultimately have "holds M s j pend1 (pb + ?w)"
    using stage_more [of pend pb ?w v] h w v(2) by (simp add: holds_def)
  moreover have "at c M s t ch n (k + ?w) j m1"
  proof -
    define m2 where "m2 = chan_update h c (\<lambda>ch. ch\<lparr>ch_src := ch_src ch + 2 ^ sw\<rparr>) m"
    define m3 where "m3 = chan_update h c (\<lambda>ch. ch\<lparr>ch_ctrl := (ch_ctrl ch AND NOT 0xfff) OR of_nat n\<rparr>) m2"
    have m1: "m1 = dm_update h (\<lambda>d. d\<lparr>dm_transfers := dm_transfers d + 1\<rparr>) m3"
      using f i(4) v(1) by (simp add: dma_fetch_def Let_def m2_def m3_def)
    note f2 = chan_update_frame [OF i(1,2), of "\<lambda>ch. ch\<lparr>ch_src := ch_src ch + 2 ^ sw\<rparr>", folded m2_def]
    have c2: "c < length (dm_ch (dh_get h m2))" using f2(4) i(2) by simp
    note f3 = chan_update_frame [OF f2(1) c2,
        of "\<lambda>ch. ch\<lparr>ch_ctrl := (ch_ctrl ch AND NOT 0xfff) OR of_nat n\<rparr>", folded m3_def]
    note f1 = counter_frame [OF f3(1), of "\<lambda>d. d\<lparr>dm_transfers := dm_transfers d + 1\<rparr>", folded m1]
    have "the_chan h c m1 = (the_chan h c m)\<lparr>ch_src := ch_src (the_chan h c m) + of_nat ?w,
        ch_ctrl := (ch_ctrl (the_chan h c m) AND NOT 0xfff) OR of_nat n\<rparr>"
      using f1(3) f3(3) f2(3) by simp
    then have "chan_at s t ch n (k + ?w) j (the_chan h c m1)"
      using chan_at_moves [of s t ch n0 k j "the_chan h c m" n ?w] at r(5) by (simp add: at_def)
    then show ?thesis using i(2,3) f1 f2 f3 by (simp add: at_def)
  qed
  ultimately show ?thesis by blast
qed

lemma deliver_step:
  assumes at: "at c M s t ch n k j m" and h: "holds M s j pend pb" "k = j + pb" "2 ^ dw \<le> pb"
    and r: "ram t N" "k \<le> N" "N \<le> 2 ^ 16" "dw \<le> 2"
  shows "at c M s t ch n k (j + 2 ^ dw) (dma_deliver h c dw True pend m)"
    "holds M s (j + 2 ^ dw) (shr pend (8 * 2 ^ dw)) (pb - 2 ^ dw)"
proof -
  let ?d = "2 ^ dw :: nat"
  have w: "?d \<in> {1, 2, 4}" "?d \<le> 4" using width_cases [OF r(4)] by auto
  have i: "inv m" "c < length (dm_ch (dh_get h m))" "content m = spliced M s t j"
    "ch_dst (the_chan h c m) = t + of_nat j"
    using at by (simp_all add: at_def chan_at_def)
  have st: "staged pend pb" "le_bytes pb pend = map (\<lambda>i. M (s + of_nat (j + i))) [0..<pb]"
    using h(1) by (simp_all add: holds_def)
  define v where "v = (ucast (pend AND mask (8 * ?d)) :: u32)"
  have bytes: "ucast (shr v (8 * i)) = M (s + of_nat (j + i))" if "i < ?d" for i
  proof -
    have "le_bytes ?d v ! i = take ?d (le_bytes pb pend) ! i"
      using unstage(3) [OF h(3) st(1) w(2)] by (simp add: v_def)
    then show ?thesis using that h(3) st(2) by simp
  qed
  have t: "ram (t + of_nat j) ?d" using ram_part [OF r(1), of j ?d] h(2,3) r(2) by simp
  let ?m1 = "bus_store (dh_bus h) m (t + of_nat j) v ?d"
  have m1: "inv ?m1" "dh_get h ?m1 = dh_get h m"
    using store_inv [OF i(1) w(1) t] store_get [OF i(1) w(1) t] by simp_all
  have c1: "content ?m1 = spliced M s t (j + ?d)"
  proof
    fix x
    have "content ?m1 x =
        (if unat (x - (t + of_nat j)) < ?d then ucast (shr v (8 * unat (x - (t + of_nat j))))
         else spliced M s t j x)"
      using store [OF i(1) w(1) t] i(3) by simp
    also have "\<dots> = (if unat (x - (t + of_nat j)) < ?d then M (s + (x - t)) else spliced M s t j x)"
      by (cases "unat (x - (t + of_nat j)) < ?d") (simp_all add: bytes add.assoc)
    also have "\<dots> = spliced M s t (j + ?d) x"
      by (rule spliced_extend) (use h r in linarith)
    finally show "content ?m1 x = spliced M s t (j + ?d) x" .
  qed
  let ?b = "\<lambda>d. d\<lparr>dm_bytes_moved := dm_bytes_moved d + of_nat ?d\<rparr>"
  define m2 where "m2 = chan_update h c (\<lambda>ch. ch\<lparr>ch_dst := ch_dst ch + of_nat ?d\<rparr>) ?m1"
  define m3 where "m3 = dm_update h ?b m2"
  define m4 where "m4 = chan_update h c (\<lambda>ch. ch\<lparr>ch_bytes := ch_bytes ch + of_nat ?d\<rparr>) m3"
  have c: "c < length (dm_ch (dh_get h ?m1))" using i(2) m1(2) by simp
  note f2 = chan_update_frame [OF m1(1) c, of "\<lambda>ch. ch\<lparr>ch_dst := ch_dst ch + of_nat ?d\<rparr>", folded m2_def]
  note f3 = counter_frame [OF f2(1), of ?b, folded m3_def, simplified]
  have c3: "c < length (dm_ch (dh_get h m3))" using c f2(4) f3(4) by simp
  note f4 = chan_update_frame [OF f3(1) c3, of "\<lambda>ch. ch\<lparr>ch_bytes := ch_bytes ch + of_nat ?d\<rparr>", folded m4_def]
  have "the_chan h c ?m1 = the_chan h c m" using m1(2) by (simp add: the_chan_def)
  then have "the_chan h c m4 = (the_chan h c m)\<lparr>ch_dst := ch_dst (the_chan h c m) + of_nat ?d,
      ch_bytes := ch_bytes (the_chan h c m) + of_nat ?d\<rparr>"
    using f4(3) f3(3) f2(3) by simp
  then have "chan_at s t ch n k (j + ?d) (the_chan h c m4)"
    using chan_at_delivers [of s t ch n k j "the_chan h c m" ?d] at by (simp add: at_def)
  then have "at c M s t ch n k (j + ?d) m4"
    using f4 f3 f2 c1 c3 by (simp add: at_def)
  then show "at c M s t ch n k (j + ?d) (dma_deliver h c dw True pend m)"
    using i(4) by (simp add: dma_deliver_def Let_def m4_def m3_def m2_def v_def)
  have "drop ?d (map (\<lambda>i. M (s + of_nat (j + i))) [0..<pb]) =
      map (\<lambda>i. M (s + of_nat (j + ?d + i))) [0..<pb - ?d]"
    by (rule nth_equalityI) (auto simp: add.assoc)
  then show "holds M s (j + ?d) (shr pend (8 * ?d)) (pb - ?d)"
    using unstage(1,2) [OF h(3) st(1) w(2)] st(2) by (simp add: holds_def)
qed

lemma drain_steps:
  assumes "at c M s t ch n k j m" and "holds M s j pend pb" "k = j + pb"
    and "ram t N" "k \<le> N" "N \<le> 2 ^ 16" "dw \<le> 2" "2 ^ dw dvd j"
    and "dma_drain h c dw True pend pb m = (pend1, pb1, m1)"
  shows "at c M s t ch n k (k - pb1) m1 \<and> holds M s (k - pb1) pend1 pb1 \<and> pb1 < 2 ^ dw \<and> pb1 \<le> k \<and>
    2 ^ dw dvd k - pb1"
  using assms
proof (induction pb arbitrary: j pend m rule: less_induct)
  case (less pb)
  have d: "(0 :: nat) < 2 ^ dw" by simp
  show ?case
  proof (cases "2 ^ dw \<le> pb")
    case False
    then have "dma_drain h c dw True pend pb m = (pend, pb, m)" by (subst dma_drain.simps) simp
    then show ?thesis using less.prems False by simp
  next
    case True
    let ?m = "dma_deliver h c dw True pend m"
    note step = deliver_step [OF less.prems(1-3) True less.prems(4-7)]
    have "dma_drain h c dw True (shr pend (8 * 2 ^ dw)) (pb - 2 ^ dw) ?m = (pend1, pb1, m1)"
      using less.prems(9) True by (subst (asm) dma_drain.simps) simp
    then show ?thesis
      using less.IH [OF _ step(1,2) _ less.prems(4-7)] less.prems(3,8) True d by simp
  qed
qed

lemma grant_frame:
  assumes "at c M s t ch n k j m"
  shows "at c M s t ch n k j (snd (dma_granted h c sw dw flow m))"
proof -
  have r: "at c M s t ch n k j (snd (ready m a w from))"
    if "dh_ready h = Some ready" "at c M s t ch n k j m" for ready a w "from" m
    using ready_frame [OF that(1), of m a w "from"] that(2) by (simp add: at_def the_chan_def)
  show ?thesis
    using assms r by (auto simp: dma_granted_def Let_def split: option.splits prod.splits)
      (metis snd_conv)+
qed

text \<open>The loop stops with everything delivered, at the end of the item or at a stall.\<close>

lemma loop_copies:
  assumes "at c M s t ch n k (k - pb) m" and "holds M s (k - pb) pend pb" "pb < 2 ^ dw" "pb \<le> k"
    and "2 ^ dw dvd k - pb" "k + n * 2 ^ sw = N" "2 ^ dw dvd N" "n < 4096"
    and "ram s N" "ram t N" "apart s t N" "N \<le> 2 ^ 16" "sw \<le> 2" "dw \<le> 2"
    and "dma_loop h c sw dw flow True True n pend pb m = (ended, m1)"
  shows "\<exists>k1 n1. at c M s t ch n1 k1 k1 m1 \<and> k1 + n1 * 2 ^ sw = N \<and> k \<le> k1 + pb \<and> 2 ^ dw dvd k1 \<and>
    n1 \<le> n \<and> (ended \<longleftrightarrow> n1 = 0)"
  using assms
proof (induction n arbitrary: k pb pend m)
  case 0
  have "2 ^ dw dvd k - (k - pb)" by (rule dvd_diff_nat) (use 0 in simp_all)
  then have "2 ^ dw dvd pb" using 0(4) by simp
  then have "pb = 0" using 0(3) by (meson nat_dvd_not_less not_gr_zero)
  then show ?case using 0 by auto
next
  case (Suc n)
  have le4: "(2 :: nat) ^ dw \<le> 4" using width_cases [OF Suc.prems(14)] by blast
  obtain go m0 where g: "(if pb = 0 then dma_granted h c sw dw flow m else (True, m)) = (go, m0)"
    by fastforce
  have at0: "at c M s t ch (Suc n) k (k - pb) m0"
    using g grant_frame [OF Suc.prems(1), of sw dw flow] Suc.prems(1) by (auto split: if_splits)
  show ?case
  proof (cases go)
    case False
    then have "pb = 0" "m1 = m0" "\<not> ended" using g Suc.prems(15) by (auto split: if_splits)
    then show ?thesis
      using at0 Suc.prems by (intro exI [of _ k] exI [of _ "Suc n"]) auto
  next
    case True
    obtain pend1 mf where f: "dma_fetch h c sw True n pend pb m0 = (pend1, mf)" by fastforce
    obtain pend2 pb2 md where d: "dma_drain h c dw True pend1 (pb + 2 ^ sw) mf = (pend2, pb2, md)"
      by (rule prod_cases3)
    have loop: "dma_loop h c sw dw flow True True n pend2 pb2 md = (ended, m1)"
      using Suc.prems(15) g True f d by simp
    have kN: "k + 2 ^ sw \<le> N" using Suc.prems(6) by simp
    have fs: "at c M s t ch n (k + 2 ^ sw) (k - pb) mf" "holds M s (k - pb) pend1 (pb + 2 ^ sw)"
      using fetch_step [OF at0 Suc.prems(2) _ _ Suc.prems(9,11) kN Suc.prems(13) _ f] Suc.prems(3,4,8) le4
      by auto
    have ds: "at c M s t ch n (k + 2 ^ sw) (k + 2 ^ sw - pb2) md"
      "holds M s (k + 2 ^ sw - pb2) pend2 pb2" "pb2 < 2 ^ dw" "pb2 \<le> k + 2 ^ sw"
      "2 ^ dw dvd k + 2 ^ sw - pb2"
      using drain_steps [OF fs _ Suc.prems(10) kN Suc.prems(12,14,5) d] Suc.prems(4) by auto
    have rest: "k + 2 ^ sw + n * 2 ^ sw = N" "n < 4096" using Suc.prems(6,8) by auto
    obtain k1 n1 where r: "at c M s t ch n1 k1 k1 m1 \<and> k1 + n1 * 2 ^ sw = N \<and>
        k + 2 ^ sw \<le> k1 + pb2 \<and> 2 ^ dw dvd k1 \<and> n1 \<le> n \<and> ended = (n1 = 0)"
      using Suc.IH [OF ds rest(1) Suc.prems(7) rest(2) Suc.prems(9-14) loop] by blast
    have "k \<le> k1 + pb"
    proof -
      have "k1 = N - n1 * 2 ^ sw" "k + 2 ^ sw = N - n * 2 ^ sw" using r rest(1) by linarith+
      moreover have "n1 * 2 ^ sw \<le> n * 2 ^ sw" using r by simp
      ultimately show ?thesis by linarith
    qed
    then show ?thesis using r by (intro exI [of _ k1] exI [of _ n1]) auto
  qed
qed

definition copied :: "nat \<Rightarrow> (u32 \<Rightarrow> u8) \<Rightarrow> u32 \<Rightarrow> u32 \<Rightarrow> pl080_chan \<Rightarrow> nat \<Rightarrow> 'm \<Rightarrow> bool" where
  "copied c M s t ch N m \<longleftrightarrow>
     inv m \<and> content m = spliced M s t N \<and> c < length (dm_ch (dh_get h m)) \<and>
     ch_cfg (the_chan h c m) AND 1 = 0 \<and>
     (ch_ctrl ch AND 0x80000000 \<noteq> 0 \<longrightarrow> bit (dm_raw_tc (dh_get h m)) c)"

lemma finish_copied:
  assumes "at c M s t ch n N N m" "n < 4096" "c < 8" "ch_lli ch = 0"
  shows "\<exists>m1. dma_finish h c m = (False, m1) \<and> copied c M s t ch N m1"
proof -
  let ?tc = "ch_ctrl ch AND 0x80000000 \<noteq> 0"
  have i: "inv m" "c < length (dm_ch (dh_get h m))" "content m = spliced M s t N"
    "ch_lli (the_chan h c m) = 0" "(ch_ctrl (the_chan h c m) AND 0x80000000 \<noteq> 0) = ?tc"
    using assms(1,4) ctrl_fields(5) [of s t ch n N N "the_chan h c m"] assms(2)
    by (simp_all add: at_def chan_at_def)
  define m1 where "m1 = dm_update h (\<lambda>d. d\<lparr>dm_items := dm_items d + 1\<rparr>) m"
  define m2 where "m2 = chan_update h c (\<lambda>ch. ch\<lparr>ch_runs := ch_runs ch + 1\<rparr>) m1"
  define f :: "s5l_pl080 \<Rightarrow> s5l_pl080" where "f = (\<lambda>d. d\<lparr>dm_raw_tc := dm_raw_tc d OR shl 1 c, dm_completions := dm_completions d + 1\<rparr>)"
  define m3 where "m3 = (if ?tc then dm_update h f m2 else m2)"
  note f1 = counter_frame [OF i(1), of "\<lambda>d. d\<lparr>dm_items := dm_items d + 1\<rparr>", folded m1_def, simplified]
  have c1: "c < length (dm_ch (dh_get h m1))" using f1(4) i(2) by simp
  note f2 = chan_update_frame [OF f1(1) c1, of "\<lambda>ch. ch\<lparr>ch_runs := ch_runs ch + 1\<rparr>", folded m2_def]
  have ft: "dm_ch (f d) = dm_ch d" for d by (simp add: f_def)
  note f3 = counter_frame [OF f2(1), of f, OF ft]
  have m3: "inv m3" "content m3 = spliced M s t N" "the_chan h c m3 = the_chan h c m2"
    "c < length (dm_ch (dh_get h m3))"
    using f3 f2 f1 c1 i(3) by (simp_all add: m3_def)
  have tc: "?tc \<longrightarrow> bit (dm_raw_tc (dh_get h m3)) c"
    using update_frame(3) [OF f2(1), of f] assms(3) by (simp add: m3_def f_def bit_simps)
  have lli: "ch_lli (the_chan h c m3) = 0" "(ch_ctrl (the_chan h c m2) AND 0x80000000 \<noteq> 0) = ?tc"
    using m3(3) f2(3) f1(3) i(4,5) by simp_all
  note f4 = chan_update_frame [OF m3(1,4), of "\<lambda>ch. ch\<lparr>ch_cfg := ch_cfg ch AND NOT 1\<rparr>"]
  have "dma_finish h c m = (False, chan_disable h c m3)"
    unfolding dma_finish_def Let_def m1_def [symmetric] m2_def [symmetric] f_def [symmetric]
    using lli by (cases ?tc) (simp_all add: m3_def)
  moreover have "dm_raw_tc (dh_get h (chan_disable h c m3)) = dm_raw_tc (dh_get h m3)"
    using m3(1) by (simp add: chan_disable_def chan_update_def update_frame(3))
  moreover have "(y AND - 2) AND 1 = 0" for y :: u32 by (simp add: and.assoc)
  ultimately show ?thesis
    using f4 m3 tc by (simp add: copied_def chan_disable_def)
qed

text \<open>The state between two runs of the controller.\<close>

definition copying :: "nat \<Rightarrow> (u32 \<Rightarrow> u8) \<Rightarrow> u32 \<Rightarrow> u32 \<Rightarrow> pl080_chan \<Rightarrow> nat \<Rightarrow> nat \<Rightarrow> nat \<Rightarrow> 'm \<Rightarrow> bool" where
  "copying c M s t ch N sw dw m \<longleftrightarrow>
     (\<exists>k n. at c M s t ch n k k m \<and> k + n * 2 ^ sw = N \<and> 2 ^ dw dvd k \<and> n < 4096)"

lemma run_chain_stop: "\<not> fst (run_item h c m) \<Longrightarrow> run_chain h c (Suc k) m = snd (run_item h c m)"
  by (simp add: split_beta)

lemma run_channel_copies:
  assumes "copying c M s t ch N sw dw m" "copy_programmed ch n0 sw dw" "N = n0 * 2 ^ sw" "c < 8"
    and "ram s N" "ram t N" "apart s t N"
  shows "copying c M s t ch N sw dw (run_channel h c m) \<or> copied c M s t ch N (run_channel h c m)"
    "shr (ch_cfg ch AND 0x3800) 11 = 0 \<or> dh_ready h = None \<Longrightarrow> copied c M s t ch N (run_channel h c m)"
proof -
  obtain k n where st: "at c M s t ch n k k m" "k + n * 2 ^ sw = N" "2 ^ dw dvd k" "n < 4096"
    using assms(1) unfolding copying_def by blast
  let ?ch = "the_chan h c m"
  have ca: "chan_at s t ch n k k ?ch" using st(1) by (simp add: at_def)
  note cf = ctrl_fields [OF ca st(4)]
  have p: "sw \<le> 2" "dw \<le> 2" "n0 < 4096" "2 ^ dw dvd N" "ch_lli ch = 0"
    using assms(2,3) copy_count [OF assms(2)] by (auto simp: copy_programmed_def)
  have "N \<le> 4096 * 4"
    using assms(3) mult_le_mono [of n0 4096 "2 ^ sw" 4] p(1,3) width_cases [of sw] by simp
  then have N: "N \<le> 2 ^ 16" by simp
  let ?flow = "shr (ch_cfg ch AND 0x3800) 11"
  have cfg: "ch_cfg ?ch = ch_cfg ch" using ca by (simp add: chan_at_def)
  obtain ended m1 where loop: "dma_loop h c sw dw ?flow True True n 0 0 m = (ended, m1)" by fastforce
  have "2 ^ dw dvd n * 2 ^ sw" using st(2,3) p(4) by (metis dvd_add_right_iff)
  then have fit: "\<not> (n * 2 ^ sw mod 2 ^ dw \<noteq> 0)" by (simp add: dvd_eq_mod_eq_0)
  have fields: "unat (shr (ch_ctrl ?ch) 18 AND 7) = sw" "unat (shr (ch_ctrl ?ch) 21 AND 7) = dw"
    "(ch_ctrl ?ch AND 0x04000000 \<noteq> 0) = True" "(ch_ctrl ?ch AND 0x08000000 \<noteq> 0) = True"
    "\<not> (sw > 2 \<or> dw > 2)" "\<not> 3 < ?flow"
    using assms(2) p(1,2) cf(1-4) by (simp_all add: copy_programmed_def not_less)
  have item: "run_item h c m = (if \<not> ended then (False, m1) else dma_finish h c m1)"
    unfolding run_item_def Let_def fields(1-4) cf(6) cfg if_not_P [OF fields(5)] if_not_P [OF fields(6)]
      if_not_P [OF fit] loop prod.case ..
  have chan: "run_channel h c m = snd (run_item h c m)" if "\<not> fst (run_item h c m)"
    using assms(2) cfg run_chain_stop [OF that, of 1023]
    by (simp add: run_channel_def copy_programmed_def)
  have h0: "holds M s (k - 0) 0 0" by (simp add: holds_def staged_def le_bytes_def)
  have "at c M s t ch n k (k - 0) m" "(0 :: nat) < 2 ^ dw" "2 ^ dw dvd k - 0" using st by simp_all
  from loop_copies [OF this(1) h0 this(2) le0 this(3) st(2) p(4) st(4) assms(5,6,7) N p(1,2) loop]
  obtain k1 n1 where r: "at c M s t ch n1 k1 k1 m1" "k1 + n1 * 2 ^ sw = N" "2 ^ dw dvd k1" "n1 \<le> n"
      "ended = (n1 = 0)"
    by blast
  have done_: "copied c M s t ch N (run_channel h c m)" if "ended"
  proof -
    have "at c M s t ch n1 N N m1" "n1 < 4096" using that r by auto
    then obtain m2 where "dma_finish h c m1 = (False, m2)" "copied c M s t ch N m2"
      using finish_copied assms(4) p(5) by blast
    then show ?thesis using that item by (simp add: chan)
  qed
  have stalled: "copying c M s t ch N sw dw (run_channel h c m)" if "\<not> ended"
  proof -
    have "run_channel h c m = m1" using that item chan by simp
    then show ?thesis using r st(4) unfolding copying_def by (metis order_le_less_trans)
  qed
  show "copying c M s t ch N sw dw (run_channel h c m) \<or> copied c M s t ch N (run_channel h c m)"
    using done_ stalled by blast
  have "ended" if "?flow = 0 \<or> dh_ready h = None"
  proof -
    have "fst (dma_granted h c sw dw ?flow m)" for m
      using that by (auto simp: dma_granted_def Let_def split: option.splits)
    then have "fst (dma_loop h c sw dw ?flow True True n pend pb m)" for n pend pb m
      by (induction n arbitrary: pend pb m) (auto simp: Let_def split: prod.splits, metis fst_conv)
    then show ?thesis using loop by (metis fst_conv)
  qed
  then show "shr (ch_cfg ch AND 0x3800) 11 = 0 \<or> dh_ready h = None \<Longrightarrow> copied c M s t ch N (run_channel h c m)"
    using done_ by blast
qed

lemma run_channel_idle: "copied c M s t ch N m \<Longrightarrow> run_channel h c m = m"
proof -
  assume "copied c M s t ch N m"
  then have "ch_cfg (the_chan h c m) AND 1 = 0" by (simp add: copied_def)
  then have "ch_cfg (the_chan h c m) AND (1 OR 0x00040000) \<noteq> 1"
    by (metis and.assoc and.idem bit.conj_disj_distrib zero_neq_one word_bw_lcs)
  then show ?thesis by (simp add: run_channel_def)
qed

lemma ticks_copy:
  assumes "copying c M s t ch N sw dw m" "copy_programmed ch n0 sw dw" "N = n0 * 2 ^ sw" "c < 8"
    and "ram s N" "ram t N" "apart s t N"
  shows "copying c M s t ch N sw dw ((run_channel h c ^^ r) m) \<or> copied c M s t ch N ((run_channel h c ^^ r) m)"
proof (induction r)
  case (Suc r)
  then show ?case
    using run_channel_copies(1) [OF _ assms(2-7)] run_channel_idle by auto
qed (simp add: assms(1))

end

section \<open>A run ends\<close>

text \<open>The same host, counting every access the controller makes to its bus and every question to a
  request line.\<close>

definition counted_bus :: "'m arm_bus \<Rightarrow> ('m \<times> nat) arm_bus" where
  "counted_bus b =
     \<lparr>read32 = (\<lambda>s a. let (v, m) = read32 b (fst s) a in (v, m, snd s + 1)),
      read16 = (\<lambda>s a. let (v, m) = read16 b (fst s) a in (v, m, snd s + 1)),
      read8 = (\<lambda>s a. let (v, m) = read8 b (fst s) a in (v, m, snd s + 1)),
      write32 = (\<lambda>s a v. (write32 b (fst s) a v, snd s + 1)),
      write16 = (\<lambda>s a v. (write16 b (fst s) a v, snd s + 1)),
      write8 = (\<lambda>s a v. (write8 b (fst s) a v, snd s + 1)),
      host_ram = None, host_ram_write = None, wait_for_interrupt = None,
      privileged_svc_handler = None, prepare_fetch = None,
      load8 = (\<lambda>s p. load8 b (fst s) p), store8 = (\<lambda>s p v. (store8 b (fst s) p v, snd s)),
      bus_ptrs = bus_ptrs b\<rparr>"

definition counted :: "'m dma_host \<Rightarrow> ('m \<times> nat) dma_host" where
  "counted h =
     \<lparr>dh_bus = counted_bus (dh_bus h), dh_get = (\<lambda>s. dh_get h (fst s)),
      dh_put = (\<lambda>d s. (dh_put h d (fst s), snd s)),
      dh_ready = map_option (\<lambda>ready s a w from.
        let (r, m) = ready (fst s) a w from in (r, m, snd s + 1)) (dh_ready h)\<rparr>"

lemma counted_access [simp]:
  "snd (snd (bus_load (dh_bus (counted h)) s a w)) = snd s + 1"
  "snd (bus_store (dh_bus (counted h)) s a v w) = snd s + 1"
  "snd (snd (read32 (dh_bus (counted h)) s a)) = snd s + 1"
  by (simp_all add: bus_load_def bus_store_def counted_def counted_bus_def Let_def split: prod.splits)

lemma counted_update [simp]:
  "snd (dm_update (counted h) f s) = snd s" "snd (chan_update (counted h) c g s) = snd s"
  "snd (chan_disable (counted h) c s) = snd s"
  by (simp_all add: dm_update_def chan_update_def chan_disable_def counted_def)

lemma counted_deliver [simp]: "snd (dma_deliver (counted h) c dw di pend s) = snd s + 1"
  by (simp add: dma_deliver_def Let_def)

lemma counted_fetch: "dma_fetch (counted h) c sw si n pend pb s = (pend1, t) \<Longrightarrow> snd t = snd s + 1"
proof -
  assume f: "dma_fetch (counted h) c sw si n pend pb s = (pend1, t)"
  obtain v s1 where v: "bus_load (dh_bus (counted h)) s (ch_src (the_chan (counted h) c s)) (2 ^ sw) = (v, s1)"
    by (rule prod.exhaust)
  then have "snd s1 = snd s + 1"
    using counted_access(1) [of h s "ch_src (the_chan (counted h) c s)" "2 ^ sw"] by simp
  then show ?thesis using f v by (auto simp: dma_fetch_def Let_def)
qed

lemma counted_granted: "dma_granted (counted h) c sw dw flow s = (go, t) \<Longrightarrow> snd t \<le> snd s + 2"
  by (auto simp: dma_granted_def counted_def Let_def split: option.splits prod.splits if_splits)

lemma counted_drain:
  "dma_drain (counted h) c dw di pend pb s = (pend1, pb1, t) \<Longrightarrow> snd t + pb1 \<le> snd s + pb"
proof (induction pb arbitrary: pend s rule: less_induct)
  case (less pb)
  have d: "(0 :: nat) < 2 ^ dw" by simp
  show ?case
  proof (cases "2 ^ dw \<le> pb")
    case True
    then have "dma_drain (counted h) c dw di (shr pend (8 * 2 ^ dw)) (pb - 2 ^ dw)
        (dma_deliver (counted h) c dw di pend s) = (pend1, pb1, t)"
      using less.prems by (subst (asm) dma_drain.simps) simp
    from less.IH [OF _ this] True d have "snd t + pb1 \<le> snd s + 1 + (pb - 2 ^ dw)" by simp
    then show ?thesis using True d by linarith
  next
    case False
    then show ?thesis using less.prems by (subst (asm) dma_drain.simps) simp
  qed
qed

lemma counted_loop:
  assumes "dma_loop (counted h) c sw dw flow si di n pend pb s = (ended, t)" "(2 :: nat) ^ sw \<le> 4"
  shows "snd t \<le> snd s + 7 * n + pb"
  using assms(1)
proof (induction n arbitrary: pend pb s)
  case (Suc n)
  obtain go s0 where g: "(if pb = 0 then dma_granted (counted h) c sw dw flow s else (True, s)) = (go, s0)"
    by (rule prod.exhaust)
  then have s0: "snd s0 \<le> snd s + 2"
    using counted_granted [of h c sw dw flow s go s0] by (auto split: if_splits)
  show ?case
  proof (cases go)
    case True
    obtain pend1 s1 where f: "dma_fetch (counted h) c sw si n pend pb s0 = (pend1, s1)" by (rule prod.exhaust)
    obtain pend2 pb2 s2 where d: "dma_drain (counted h) c dw di pend1 (pb + 2 ^ sw) s1 = (pend2, pb2, s2)"
      by (rule prod_cases3)
    have "dma_loop (counted h) c sw dw flow si di n pend2 pb2 s2 = (ended, t)"
      using Suc.prems g True f d by simp
    from Suc.IH [OF this] counted_drain [OF d] counted_fetch [OF f] s0 assms(2) show ?thesis by simp
  next
    case False
    then show ?thesis using Suc.prems g s0 by simp
  qed
qed simp

lemma counted_finish: "snd (snd (dma_finish (counted h) c s)) \<le> snd s + 4"
proof -
  have read: "snd m1 = Suc (snd m)" if "read32 (dh_bus (counted h)) m a = (v, m1)" for m m1 a v
    using counted_access(3) [of h m a] that by simp
  show ?thesis
    by (auto simp: dma_finish_def Let_def dest!: read split: prod.splits)
qed

lemma counted_item: "snd (snd (run_item (counted h) c s)) \<le> snd s + 28669"
proof -
  let ?ch = "the_chan (counted h) c s"
  let ?sw = "unat (shr (ch_ctrl ?ch) 18 AND 7)"
  let ?dw = "unat (shr (ch_ctrl ?ch) 21 AND 7)"
  let ?flow = "shr (ch_cfg ?ch AND 0x3800) 11"
  let ?n = "unat (ch_ctrl ?ch AND 0xfff)"
  have n: "?n \<le> 4095" using word_and_le1 [of "ch_ctrl ?ch" "0xfff"] by (simp add: word_le_nat_alt)
  show ?thesis
  proof (cases "?sw > 2 \<or> ?dw > 2 \<or> ?flow > 3 \<or> ?n * 2 ^ ?sw mod 2 ^ ?dw \<noteq> 0")
    case True
    then have "snd (snd (run_item (counted h) c s)) = snd s"
      by (auto simp only: run_item_def Let_def dma_refuse_width_def counted_update snd_conv
          split: if_splits)
    then show ?thesis by simp
  next
    case False
    obtain ended t where l: "dma_loop (counted h) c ?sw ?dw ?flow (ch_ctrl ?ch AND 0x04000000 \<noteq> 0)
        (ch_ctrl ?ch AND 0x08000000 \<noteq> 0) ?n 0 0 s = (ended, t)"
      by (rule prod.exhaust)
    have "(2 :: nat) ^ ?sw \<le> 2 ^ 2" by (rule power_increasing) (use False in simp_all)
    then have "snd t \<le> snd s + 7 * ?n" using counted_loop [OF l] by simp
    moreover have "run_item (counted h) c s = (if \<not> ended then (False, t) else dma_finish (counted h) c t)"
      using False l by (simp only: run_item_def Let_def de_Morgan_disj if_False prod.case)
        (simp only: HOL.simp_thms if_False)
    moreover note counted_finish [of h c t]
    ultimately show ?thesis using n by (cases ended) auto
  qed
qed

lemma counted_chain: "snd (run_chain (counted h) c k s) \<le> snd s + k * 28669"
proof (induction k arbitrary: s)
  case (Suc k)
  obtain more t where i: "run_item (counted h) c s = (more, t)" by (rule prod.exhaust)
  then have "snd t \<le> snd s + 28669" using counted_item [of h c s] by simp
  then show ?case using Suc.IH [of t] i by (auto simp: Let_def)
qed simp

lemma counted_channel: "snd (run_channel (counted h) c s) \<le> snd s + 1024 * 28669"
  using counted_chain [of h c 1024 s] by (simp add: run_channel_def)

text \<open>
  C24:
  A run of the DMA controller ends within a fixed budget. Whatever the guest programmed into the
  channels, and whatever the bus answers and does, also when it leads a transfer back into the
  controller's own registers or into a list of items that never ends: one run makes at most
  234,856,448 accesses to the bus and the request lines (eight channels, 1024 items, seven accesses
  for each of at most 4095 transfers and four for the next item).
\<close>

theorem pl080_run_bounded:
  "snd (snd (s5l_pl080_run (counted h) (m, 0))) \<le> 8 * 1024 * (7 * 4095 + 4)"
proof -
  have "snd (foldl (\<lambda>m c. run_channel (counted h) c m) s cs) \<le> snd s + length cs * (1024 * 28669)" for s cs
  proof (induction cs arbitrary: s)
    case (Cons c cs)
    show ?case
      using Cons.IH [of "run_channel (counted h) c s"] counted_channel [of h c s] by simp
  qed simp
  from this [of "(m, 0)" "[0..<8]"] show ?thesis by (simp add: s5l_pl080_run_def Let_def)
qed

end
