(* ===== verification/Wires.thy ===== *)
theory Wires
  imports Prelude
begin

text \<open>
  The interface between a board and a bank of wires it drives: the pins of the GPIO block and the
  lines of the GPIO interrupt controller. A bank promises that a driven wire has the level it was
  driven to and that no other wire moves; what follows for a table of wires driven one after the
  other is proved here once.
\<close>

locale wires =
  fixes drive :: "'k \<Rightarrow> bool \<Rightarrow> 's \<Rightarrow> 's"
    and level :: "'s \<Rightarrow> 'k \<Rightarrow> bool"
    and ok :: "'s \<Rightarrow> bool"
    and valid :: "'k \<Rightarrow> bool"
  assumes drive_ok: "ok s \<Longrightarrow> ok (drive k b s)"
    and drive_same: "ok s \<Longrightarrow> valid k \<Longrightarrow> level (drive k b s) k = b"
    and drive_other: "ok s \<Longrightarrow> valid k \<Longrightarrow> valid j \<Longrightarrow> j \<noteq> k \<Longrightarrow> level (drive k b s) j = level s j"
begin

lemma drive_level:
  "ok s \<Longrightarrow> valid k \<Longrightarrow> valid j \<Longrightarrow> level (drive k b s) j = (if j = k then b else level s j)"
  by (simp add: drive_same drive_other)

lemma table_ok: "ok s \<Longrightarrow> ok (fold (\<lambda>(k, b). drive k b) t s)"
  by (induction t arbitrary: s) (auto simp: drive_ok)

lemma table_other:
  "ok s \<Longrightarrow> \<forall>x \<in> set t. valid (fst x) \<Longrightarrow> valid j \<Longrightarrow> j \<notin> fst ` set t \<Longrightarrow>
   level (fold (\<lambda>(k, b). drive k b) t s) j = level s j"
  by (induction t arbitrary: s) (auto simp: drive_ok drive_other)

lemma table_level:
  "ok s \<Longrightarrow> \<forall>x \<in> set t. valid (fst x) \<Longrightarrow> distinct (map fst t) \<Longrightarrow> (k, b) \<in> set t \<Longrightarrow>
   level (fold (\<lambda>(k, b). drive k b) t s) k = b"
proof (induction t arbitrary: s)
  case (Cons x t)
  then show ?case
  proof (cases "x = (k, b)")
    case True
    then show ?thesis using Cons.prems table_other [of "drive k b s" t k]
      by (simp add: drive_ok drive_same)
  next
    case False
    then show ?thesis using Cons by (cases x) (auto simp: drive_ok)
  qed
qed simp

end

end
