(* ===== verification/Gpioic.thy ===== *)
theory Gpioic
  imports Wires
begin

text \<open>
  The GPIO interrupt controller (core/src/soc/gpioic.c): seven groups of 32 lines, each line
  edge or level sensitive as the guest configures it, latched until the guest writes one to clear,
  and the cascade of the groups into the vectored interrupt controllers. The controller re-evaluates
  whole groups, and only when it must; the lemmas show that it behaves as 224 independent lines that
  are evaluated at every event.
\<close>

unbundle bit_operations_syntax

section \<open>State and operations\<close>

abbreviation GROUPS :: nat where "GROUPS \<equiv> 7"
abbreviation LINES :: nat where "LINES \<equiv> 224"

text \<open>The arrays have one word per group; \<open>gi_raw\<close> and \<open>gi_driven\<close> are the board's wires.\<close>

record s5l_gpioic =
  gi_level :: "u32 list"
  gi_stat :: "u32 list"
  gi_en :: "u32 list"
  gi_type :: "u32 list"
  gi_raw :: "u32 list"
  gi_driven :: "u32 list"
  gi_unknown_reads :: u64
  gi_unknown_writes :: u64
  gi_unknown_off :: "u32 list"

definition s5l_gpioic_cascade :: "nat \<Rightarrow> nat" where
  "s5l_gpioic_cascade gr = (if gr \<ge> GROUPS then 32 * 2 else [33, 32, 31, 3, 2, 1, 0] ! gr)"

definition s5l_gpioic_reset :: s5l_gpioic where
  "s5l_gpioic_reset =
     (let z = replicate GROUPS 0
      in \<lparr>gi_level = z, gi_stat = z, gi_en = z, gi_type = z, gi_raw = z, gi_driven = z,
          gi_unknown_reads = 0, gi_unknown_writes = 0, gi_unknown_off = []\<rparr>)"

definition gpioic_note_unknown :: "u32 \<Rightarrow> s5l_gpioic \<Rightarrow> s5l_gpioic" where
  "gpioic_note_unknown off g =
     (if off \<in> set (gi_unknown_off g) then g
      else if length (gi_unknown_off g) < 8 then g\<lparr>gi_unknown_off := gi_unknown_off g @ [off]\<rparr>
      else g)"

abbreviation GPIOIC_INTLEVEL :: u32 where "GPIOIC_INTLEVEL \<equiv> 0x80"
abbreviation GPIOIC_INTSTAT :: u32 where "GPIOIC_INTSTAT \<equiv> 0xa0"
abbreviation GPIOIC_INTEN :: u32 where "GPIOIC_INTEN \<equiv> 0xc0"
abbreviation GPIOIC_INTTYPE :: u32 where "GPIOIC_INTTYPE \<equiv> 0xe0"

definition gpioic_decode :: "u32 \<Rightarrow> u32 \<Rightarrow> nat option" where
  "gpioic_decode off base =
     (if off < base then None
      else
        let rel = off - base; idx = unat (shr rel 2)
        in if rel AND 3 \<noteq> 0 then None
           else if idx \<ge> GROUPS then None
           else Some idx)"

definition relatch_level :: "nat \<Rightarrow> s5l_gpioic \<Rightarrow> s5l_gpioic" where
  "relatch_level gr g =
     g\<lparr>gi_stat := (gi_stat g)[gr := gi_stat g ! gr OR
         (NOT (gi_raw g ! gr XOR gi_level g ! gr) AND
          gi_type g ! gr AND gi_driven g ! gr AND gi_en g ! gr)]\<rparr>"

definition s5l_gpioic_read :: "u32 \<Rightarrow> s5l_gpioic \<Rightarrow> u32 \<times> s5l_gpioic" where
  "s5l_gpioic_read off g =
     (case gpioic_decode off GPIOIC_INTLEVEL of Some gr \<Rightarrow> (gi_level g ! gr, g)
      | None \<Rightarrow>
     (case gpioic_decode off GPIOIC_INTSTAT of Some gr \<Rightarrow> (gi_stat g ! gr, g)
      | None \<Rightarrow>
     (case gpioic_decode off GPIOIC_INTEN of Some gr \<Rightarrow> (gi_en g ! gr, g)
      | None \<Rightarrow>
     (case gpioic_decode off GPIOIC_INTTYPE of Some gr \<Rightarrow> (gi_type g ! gr, g)
      | None \<Rightarrow> (0, gpioic_note_unknown off (g\<lparr>gi_unknown_reads := gi_unknown_reads g + 1\<rparr>))))))"

definition s5l_gpioic_write :: "u32 \<Rightarrow> u32 \<Rightarrow> s5l_gpioic \<Rightarrow> s5l_gpioic" where
  "s5l_gpioic_write off val g =
     (case gpioic_decode off GPIOIC_INTLEVEL of
        Some gr \<Rightarrow> relatch_level gr (g\<lparr>gi_level := (gi_level g)[gr := val]\<rparr>)
      | None \<Rightarrow>
     (case gpioic_decode off GPIOIC_INTSTAT of
        Some gr \<Rightarrow>
          relatch_level gr (g\<lparr>gi_stat := (gi_stat g)[gr := gi_stat g ! gr AND NOT val]\<rparr>)
      | None \<Rightarrow>
     (case gpioic_decode off GPIOIC_INTEN of
        Some gr \<Rightarrow> relatch_level gr (g\<lparr>gi_en := (gi_en g)[gr := val]\<rparr>)
      | None \<Rightarrow>
     (case gpioic_decode off GPIOIC_INTTYPE of
        Some gr \<Rightarrow> relatch_level gr (g\<lparr>gi_type := (gi_type g)[gr := val]\<rparr>)
      | None \<Rightarrow> gpioic_note_unknown off (g\<lparr>gi_unknown_writes := gi_unknown_writes g + 1\<rparr>)))))"

definition s5l_gpioic_set_line :: "nat \<Rightarrow> bool \<Rightarrow> s5l_gpioic \<Rightarrow> s5l_gpioic" where
  "s5l_gpioic_set_line line level g =
     (if line \<ge> LINES then g
      else
        let gr = line div 32;
            b = shl (1 :: u32) (line mod 32);
            was = gi_raw g ! gr AND b \<noteq> 0;
            first = gi_driven g ! gr AND b = 0;
            g1 = g\<lparr>gi_raw := (gi_raw g)[gr := if level then gi_raw g ! gr OR b
                                                else gi_raw g ! gr AND NOT b],
                  gi_driven := (gi_driven g)[gr := gi_driven g ! gr OR b]\<rparr>
        in if gi_type g ! gr AND b \<noteq> 0 then
             (if level \<noteq> was \<or> first then relatch_level gr g1 else g1)
           else if level \<and> \<not> was then g1\<lparr>gi_stat := (gi_stat g)[gr := gi_stat g ! gr OR b]\<rparr>
           else g1)"

definition s5l_gpioic_line :: "s5l_gpioic \<Rightarrow> nat \<Rightarrow> bool" where
  "s5l_gpioic_line g line \<longleftrightarrow>
     (if line \<ge> LINES then False else gi_raw g ! (line div 32) AND shl 1 (line mod 32) \<noteq> 0)"

definition s5l_gpioic_pending :: "s5l_gpioic \<Rightarrow> nat \<Rightarrow> bool" where
  "s5l_gpioic_pending g line \<longleftrightarrow>
     (if line \<ge> LINES then False else gi_stat g ! (line div 32) AND shl 1 (line mod 32) \<noteq> 0)"

definition s5l_gpioic_group_irq :: "s5l_gpioic \<Rightarrow> nat \<Rightarrow> bool" where
  "s5l_gpioic_group_irq g gr \<longleftrightarrow>
     (if gr \<ge> GROUPS then False else gi_stat g ! gr AND gi_en g ! gr \<noteq> 0)"

section \<open>Shape\<close>

definition gpioic_ok :: "s5l_gpioic \<Rightarrow> bool" where
  "gpioic_ok g \<longleftrightarrow>
     length (gi_level g) = GROUPS \<and> length (gi_stat g) = GROUPS \<and> length (gi_en g) = GROUPS \<and>
     length (gi_type g) = GROUPS \<and> length (gi_raw g) = GROUPS \<and> length (gi_driven g) = GROUPS \<and>
     length (gi_unknown_off g) \<le> 8"

lemma gpioic_ok_reset: "gpioic_ok s5l_gpioic_reset"
  by (simp add: gpioic_ok_def s5l_gpioic_reset_def Let_def)

lemma gpioic_ok_relatch: "gpioic_ok g \<Longrightarrow> gpioic_ok (relatch_level gr g)"
  by (simp add: gpioic_ok_def relatch_level_def)

lemma gpioic_ok_note: "gpioic_ok g \<Longrightarrow> gpioic_ok (gpioic_note_unknown off g)"
  by (simp add: gpioic_ok_def gpioic_note_unknown_def)

lemma gpioic_ok_read: "gpioic_ok g \<Longrightarrow> gpioic_ok (snd (s5l_gpioic_read off g))"
  by (auto simp: s5l_gpioic_read_def split: option.splits intro!: gpioic_ok_note)
    (auto simp: gpioic_ok_def)

lemma gpioic_ok_write: "gpioic_ok g \<Longrightarrow> gpioic_ok (s5l_gpioic_write off val g)"
  unfolding s5l_gpioic_write_def
  by (auto split: option.splits intro!: gpioic_ok_note gpioic_ok_relatch) (auto simp: gpioic_ok_def)

lemma gpioic_ok_set_line: "gpioic_ok g \<Longrightarrow> gpioic_ok (s5l_gpioic_set_line line level g)"
  unfolding s5l_gpioic_set_line_def Let_def
  by (auto intro!: gpioic_ok_relatch) (auto simp: gpioic_ok_def)

section \<open>One line\<close>

text \<open>
  The state of one line and what an event does to it: a level line is latched whenever it is enabled,
  driven and at the selected level, an edge line when it rises.
\<close>

record gpio_line =
  ln_raw :: bool
  ln_driven :: bool
  ln_level :: bool
  ln_type :: bool
  ln_en :: bool
  ln_stat :: bool

datatype gpio_event = G_read u32 | G_write u32 u32 | G_line nat bool

definition gpioic_event :: "gpio_event \<Rightarrow> s5l_gpioic \<Rightarrow> s5l_gpioic" where
  "gpioic_event e g =
     (case e of G_read off \<Rightarrow> snd (s5l_gpioic_read off g)
      | G_write off val \<Rightarrow> s5l_gpioic_write off val g
      | G_line k level \<Rightarrow> s5l_gpioic_set_line k level g)"

definition line_asserting :: "gpio_line \<Rightarrow> bool" where
  "line_asserting l \<longleftrightarrow> ln_type l \<and> ln_driven l \<and> ln_en l \<and> ln_raw l = ln_level l"

definition line_latch :: "gpio_line \<Rightarrow> gpio_line" where
  "line_latch l = l\<lparr>ln_stat := (ln_stat l \<or> line_asserting l)\<rparr>"

definition line_event :: "nat \<Rightarrow> gpio_event \<Rightarrow> gpio_line \<Rightarrow> gpio_line" where
  "line_event k e l =
     (case e of G_read off \<Rightarrow> l
      | G_write off val \<Rightarrow>
          let reg = 4 * (k div 32); v = bit val (k mod 32)
          in if unat off = 0x80 + reg then line_latch (l\<lparr>ln_level := v\<rparr>)
             else if unat off = 0xa0 + reg then line_latch (l\<lparr>ln_stat := (ln_stat l \<and> \<not> v)\<rparr>)
             else if unat off = 0xc0 + reg then line_latch (l\<lparr>ln_en := v\<rparr>)
             else if unat off = 0xe0 + reg then line_latch (l\<lparr>ln_type := v\<rparr>)
             else l
      | G_line j b \<Rightarrow>
          if j \<noteq> k then l
          else line_latch (l\<lparr>ln_raw := b, ln_driven := True,
                             ln_stat := (ln_stat l \<or> (\<not> ln_type l \<and> b \<and> \<not> ln_raw l))\<rparr>))"

definition lane :: "u32 list \<Rightarrow> nat \<Rightarrow> bool" where
  "lane xs k = bit (xs ! (k div 32)) (k mod 32)"

definition line_of :: "s5l_gpioic \<Rightarrow> nat \<Rightarrow> gpio_line" where
  "line_of g k =
     \<lparr>ln_raw = lane (gi_raw g) k, ln_driven = lane (gi_driven g) k, ln_level = lane (gi_level g) k,
      ln_type = lane (gi_type g) k, ln_en = lane (gi_en g) k, ln_stat = lane (gi_stat g) k\<rparr>"

text \<open>No asserting line is left unlatched, and nothing is latched on a wire that nothing drives.\<close>

definition gpioic_settled :: "s5l_gpioic \<Rightarrow> bool" where
  "gpioic_settled g \<longleftrightarrow> (\<forall>k < LINES. line_asserting (line_of g k) \<longrightarrow> ln_stat (line_of g k))"

definition line_idle :: gpio_line where
  "line_idle = \<lparr>ln_raw = False, ln_driven = False, ln_level = False, ln_type = False, ln_en = False,
     ln_stat = False\<rparr>"

section \<open>Registers and lines\<close>

lemma shr_aligned: "rel AND 3 = 0 \<Longrightarrow> rel = 4 * shr rel 2" for rel :: u32
proof -
  assume a: "rel AND 3 = 0"
  have low: "\<not> bit rel n" if "n < 2" for n
  proof -
    have "(3 :: u32) = mask 2" by (simp add: mask_eq_exp_minus_1)
    then have "\<not> bit (rel AND mask 2) n" using a by simp
    then show ?thesis using that by (simp add: bit_simps)
  qed
  have "rel = push_bit 2 (drop_bit 2 rel)"
  proof (rule bit_word_eqI)
    fix n assume "n < LENGTH(32)"
    then show "bit rel n = bit (push_bit 2 (drop_bit 2 rel)) n"
      using low [of n] le_add_diff_inverse [of 2 n]
      by (cases "n < 2") (simp_all add: bit_simps del: le_add_diff_inverse)
  qed
  also have "\<dots> = 4 * shr rel 2" by (simp add: push_bit_eq_mult)
  finally show ?thesis .
qed

lemma gpioic_decode_some:
  assumes "unat base \<le> 0x1000"
  shows "gpioic_decode off base = Some gr \<longleftrightarrow> gr < GROUPS \<and> unat off = unat base + 4 * gr"
proof
  assume d: "gpioic_decode off base = Some gr"
  then have le: "base \<le> off" and a: "(off - base) AND 3 = 0"
    and gr: "gr = unat (shr (off - base) 2)" "gr < GROUPS"
    by (auto simp: gpioic_decode_def Let_def split: if_splits)
  have "off - base = of_nat (4 * gr)" using shr_aligned [OF a] gr by simp
  moreover have "unat (of_nat (4 * gr) :: u32) = 4 * gr" using gr(2) by (simp add: unat_of_nat del: of_nat_mult)
  ultimately have "unat (off - base) = 4 * gr" by simp
  moreover have "unat (off - base) = unat off - unat base" using le by (rule unat_sub)
  ultimately show "gr < GROUPS \<and> unat off = unat base + 4 * gr"
    using le gr(2) by (simp add: word_le_nat_alt)
next
  assume r: "gr < GROUPS \<and> unat off = unat base + 4 * gr"
  then have "base \<le> off" by (simp add: word_le_nat_alt)
  then have "unat (off - base) = 4 * gr" using r by (simp add: unat_sub)
  then have "of_nat (unat (off - base)) = (of_nat (4 * gr) :: u32)" by (rule arg_cong)
  then have "off - base = of_nat (4 * gr)" by simp
  moreover have "gr = 0 \<or> gr = 1 \<or> gr = 2 \<or> gr = 3 \<or> gr = 4 \<or> gr = 5 \<or> gr = 6" using r by linarith
  ultimately show "gpioic_decode off base = Some gr"
    using r \<open>base \<le> off\<close> by (elim disjE) (simp_all add: gpioic_decode_def Let_def)
qed

lemma gpioic_decode_none:
  "unat base \<le> 0x1000 \<Longrightarrow> gpioic_decode off base = None \<longleftrightarrow> (\<forall>gr < GROUPS. unat off \<noteq> unat base + 4 * gr)"
  using gpioic_decode_some [of base off] by (metis not_None_eq)

lemma lane_replicate [simp]: "k < 32 * n \<Longrightarrow> \<not> lane (replicate n 0) k"
  by (simp add: lane_def less_mult_imp_div_less mult.commute)

lemma lane_update:
  "length xs = GROUPS \<Longrightarrow> k < LINES \<Longrightarrow>
   lane (xs[gr := w]) k = (if k div 32 = gr then bit w (k mod 32) else lane xs k)"
  by (simp add: lane_def nth_list_update)

lemma bit_test: "n < 32 \<Longrightarrow> w AND 2 ^ n = 0 \<longleftrightarrow> \<not> bit w n" for w :: u32
proof -
  assume n: "n < 32"
  have "w AND 2 ^ n \<noteq> 0 \<longleftrightarrow> (\<exists>k. bit (w AND 2 ^ n) k)" by (rule word_nonzero_bit)
  also have "\<dots> \<longleftrightarrow> bit w n" using n by (auto simp: bit_simps)
  finally show ?thesis by blast
qed

lemma s5l_gpioic_pending_line: "k < LINES \<Longrightarrow> s5l_gpioic_pending g k = ln_stat (line_of g k)"
  by (simp add: s5l_gpioic_pending_def line_of_def lane_def bit_test)

lemma s5l_gpioic_line_line: "k < LINES \<Longrightarrow> s5l_gpioic_line g k = ln_raw (line_of g k)"
  by (simp add: s5l_gpioic_line_def line_of_def lane_def bit_test)

lemma s5l_gpioic_group_irq_lines:
  assumes "gr < GROUPS"
  shows "s5l_gpioic_group_irq g gr \<longleftrightarrow>
    (\<exists>k < LINES. k div 32 = gr \<and> ln_stat (line_of g k) \<and> ln_en (line_of g k))"
proof -
  have "s5l_gpioic_group_irq g gr \<longleftrightarrow> (\<exists>n. bit (gi_stat g ! gr AND gi_en g ! gr) n)"
    using assms by (simp add: s5l_gpioic_group_irq_def word_nonzero_bit)
  also have "\<dots> \<longleftrightarrow> (\<exists>n < 32. bit (gi_stat g ! gr AND gi_en g ! gr) n)"
    using bit_imp_le_length [where 'a = 32] by auto
  also have "\<dots> \<longleftrightarrow> (\<exists>k < LINES. k div 32 = gr \<and> ln_stat (line_of g k) \<and> ln_en (line_of g k))"
    (is "?l = ?r")
  proof
    assume ?l
    then obtain n where n: "n < 32" "bit (gi_stat g ! gr AND gi_en g ! gr) n" by blast
    then show ?r using assms
      by (intro exI [of _ "32 * gr + n"]) (auto simp: line_of_def lane_def bit_simps)
  next
    assume ?r
    then obtain k where "k div 32 = gr" "ln_stat (line_of g k)" "ln_en (line_of g k)" by blast
    then show ?l by (intro exI [of _ "k mod 32"]) (auto simp: line_of_def lane_def bit_simps)
  qed
  finally show ?thesis .
qed

lemma line_of_relatch:
  assumes "gpioic_ok g" "k < LINES"
  shows "line_of (relatch_level gr g) k = (if k div 32 = gr then line_latch (line_of g k) else line_of g k)"
proof -
  have "k mod 32 < 32" by simp
  then show ?thesis using assms
    by (auto simp: line_of_def relatch_level_def lane_update gpioic_ok_def line_latch_def
        line_asserting_def bit_simps) (auto simp: lane_def)
qed

lemma line_latch_fixed: "\<not> line_asserting l \<or> ln_stat l \<Longrightarrow> line_latch l = l"
  by (auto simp: line_latch_def)

lemma line_of_note [simp]: "line_of (gpioic_note_unknown off g) k = line_of g k"
  by (simp add: gpioic_note_unknown_def line_of_def)

section \<open>The controller as independent lines\<close>

lemma line_of_reset: "k < LINES \<Longrightarrow> line_of s5l_gpioic_reset k = line_idle"
  by (simp add: line_of_def s5l_gpioic_reset_def line_idle_def Let_def)

lemma gpioic_settled_reset: "gpioic_settled s5l_gpioic_reset"
  by (simp add: gpioic_settled_def line_of_reset line_idle_def line_asserting_def)

lemma line_of_read: "line_of (snd (s5l_gpioic_read off g)) k = line_of g k"
  by (auto simp: s5l_gpioic_read_def split: option.splits) (simp add: line_of_def)

lemma line_of_set_level:
  "gpioic_ok g \<Longrightarrow> k < LINES \<Longrightarrow> line_of (g\<lparr>gi_level := (gi_level g)[gr := w]\<rparr>) k =
     (if k div 32 = gr then (line_of g k)\<lparr>ln_level := bit w (k mod 32)\<rparr> else line_of g k)"
  by (simp add: line_of_def lane_update gpioic_ok_def)

lemma line_of_set_stat:
  "gpioic_ok g \<Longrightarrow> k < LINES \<Longrightarrow> line_of (g\<lparr>gi_stat := (gi_stat g)[gr := w]\<rparr>) k =
     (if k div 32 = gr then (line_of g k)\<lparr>ln_stat := bit w (k mod 32)\<rparr> else line_of g k)"
  by (simp add: line_of_def lane_update gpioic_ok_def)

lemma line_of_set_en:
  "gpioic_ok g \<Longrightarrow> k < LINES \<Longrightarrow> line_of (g\<lparr>gi_en := (gi_en g)[gr := w]\<rparr>) k =
     (if k div 32 = gr then (line_of g k)\<lparr>ln_en := bit w (k mod 32)\<rparr> else line_of g k)"
  by (simp add: line_of_def lane_update gpioic_ok_def)

lemma line_of_set_type:
  "gpioic_ok g \<Longrightarrow> k < LINES \<Longrightarrow> line_of (g\<lparr>gi_type := (gi_type g)[gr := w]\<rparr>) k =
     (if k div 32 = gr then (line_of g k)\<lparr>ln_type := bit w (k mod 32)\<rparr> else line_of g k)"
  by (simp add: line_of_def lane_update gpioic_ok_def)

lemma gpioic_ok_set [simp]:
  "gpioic_ok (g\<lparr>gi_level := (gi_level g)[gr := w]\<rparr>) = gpioic_ok g"
  "gpioic_ok (g\<lparr>gi_stat := (gi_stat g)[gr := w]\<rparr>) = gpioic_ok g"
  "gpioic_ok (g\<lparr>gi_en := (gi_en g)[gr := w]\<rparr>) = gpioic_ok g"
  "gpioic_ok (g\<lparr>gi_type := (gi_type g)[gr := w]\<rparr>) = gpioic_ok g"
  by (simp_all add: gpioic_ok_def)

lemmas line_of_set = line_of_set_level line_of_set_stat line_of_set_en line_of_set_type line_of_relatch

lemma ln_stat_line_of: "ln_stat (line_of g k) = bit (gi_stat g ! (k div 32)) (k mod 32)"
  by (simp add: line_of_def lane_def)

lemma line_of_write:
  assumes ok: "gpioic_ok g" and k: "k < LINES"
  shows "line_of (s5l_gpioic_write off val g) k = line_event k (G_write off val) (line_of g k)"
proof -
  have h: "k div 32 < GROUPS" using k by simp
  consider (level) gr where "gpioic_decode off GPIOIC_INTLEVEL = Some gr"
    | (stat) gr where "gpioic_decode off GPIOIC_INTLEVEL = None" "gpioic_decode off GPIOIC_INTSTAT = Some gr"
    | (en) gr where "gpioic_decode off GPIOIC_INTLEVEL = None" "gpioic_decode off GPIOIC_INTSTAT = None"
        "gpioic_decode off GPIOIC_INTEN = Some gr"
    | (type) gr where "gpioic_decode off GPIOIC_INTLEVEL = None" "gpioic_decode off GPIOIC_INTSTAT = None"
        "gpioic_decode off GPIOIC_INTEN = None" "gpioic_decode off GPIOIC_INTTYPE = Some gr"
    | (none) "gpioic_decode off GPIOIC_INTLEVEL = None" "gpioic_decode off GPIOIC_INTSTAT = None"
        "gpioic_decode off GPIOIC_INTEN = None" "gpioic_decode off GPIOIC_INTTYPE = None"
    by (metis not_None_eq)
  then show ?thesis
  proof cases
    case level
    then have "gr < GROUPS" "unat off = 0x80 + 4 * gr" by (simp_all add: gpioic_decode_some)
    then show ?thesis using level ok k h
      by (simp add: s5l_gpioic_write_def line_event_def Let_def line_of_set)
  next
    case stat
    then have "gr < GROUPS" "unat off = 0xa0 + 4 * gr" by (simp_all add: gpioic_decode_some)
    then show ?thesis using stat ok k h
      by (simp add: s5l_gpioic_write_def line_event_def Let_def line_of_set ln_stat_line_of bit_simps)
  next
    case en
    then have "gr < GROUPS" "unat off = 0xc0 + 4 * gr" by (simp_all add: gpioic_decode_some)
    then show ?thesis using en ok k h
      by (simp add: s5l_gpioic_write_def line_event_def Let_def line_of_set)
  next
    case type
    then have "gr < GROUPS" "unat off = 0xe0 + 4 * gr" by (simp_all add: gpioic_decode_some)
    then show ?thesis using type ok k h
      by (simp add: s5l_gpioic_write_def line_event_def Let_def line_of_set)
  next
    case none
    then have "s5l_gpioic_write off val g =
        gpioic_note_unknown off (g\<lparr>gi_unknown_writes := gi_unknown_writes g + 1\<rparr>)"
      by (simp add: s5l_gpioic_write_def)
    moreover have "line_of (g\<lparr>gi_unknown_writes := n\<rparr>) k = line_of g k" for n by (simp add: line_of_def)
    ultimately show ?thesis using none h by (simp add: line_event_def gpioic_decode_none Let_def)
  qed
qed

text \<open>
  The re-evaluation of the other lines of the group latches nothing new in a settled controller, and
  skipping it when the wire did not move loses nothing.
\<close>

lemma lane_bits:
  "length xs = GROUPS \<Longrightarrow> j < LINES \<Longrightarrow> k < LINES \<Longrightarrow>
   lane (xs[j div 32 := xs ! (j div 32) OR 2 ^ (j mod 32)]) k = (j = k \<or> lane xs k)"
  "length xs = GROUPS \<Longrightarrow> j < LINES \<Longrightarrow> k < LINES \<Longrightarrow>
   lane (xs[j div 32 := xs ! (j div 32) AND NOT (2 ^ (j mod 32))]) k = (j \<noteq> k \<and> lane xs k)"
proof -
  have jk: "j = k \<longleftrightarrow> k div 32 = j div 32 \<and> k mod 32 = j mod 32" by (metis mod_div_mult_eq)
  show "lane (xs[j div 32 := xs ! (j div 32) OR 2 ^ (j mod 32)]) k = (j = k \<or> lane xs k)"
    if "length xs = GROUPS" "j < LINES" "k < LINES"
    using that by (subst lane_update) (auto simp: bit_simps lane_def jk)
  show "lane (xs[j div 32 := xs ! (j div 32) AND NOT (2 ^ (j mod 32))]) k = (j \<noteq> k \<and> lane xs k)"
    if "length xs = GROUPS" "j < LINES" "k < LINES"
    using that by (subst lane_update) (auto simp: bit_simps lane_def jk)
qed

text \<open>The wire of line \<open>j\<close> is driven, before the latch.\<close>

definition drive_wire :: "nat \<Rightarrow> bool \<Rightarrow> s5l_gpioic \<Rightarrow> s5l_gpioic" where
  "drive_wire j b g =
     g\<lparr>gi_raw := (gi_raw g)[j div 32 := if b then gi_raw g ! (j div 32) OR 2 ^ (j mod 32)
                                        else gi_raw g ! (j div 32) AND NOT (2 ^ (j mod 32))],
       gi_driven := (gi_driven g)[j div 32 := gi_driven g ! (j div 32) OR 2 ^ (j mod 32)]\<rparr>"

lemma s5l_gpioic_set_line_cases:
  "j < LINES \<Longrightarrow> s5l_gpioic_set_line j b g =
     (let l = line_of g j; g1 = drive_wire j b g
      in if ln_type l then (if b \<noteq> ln_raw l \<or> \<not> ln_driven l then relatch_level (j div 32) g1 else g1)
         else if b \<and> \<not> ln_raw l
           then g1\<lparr>gi_stat := (gi_stat g1)[j div 32 := gi_stat g1 ! (j div 32) OR 2 ^ (j mod 32)]\<rparr>
         else g1)"
  by (simp add: s5l_gpioic_set_line_def drive_wire_def Let_def line_of_def lane_def bit_test)

lemma gpioic_ok_drive [simp]: "gpioic_ok (drive_wire j b g) = gpioic_ok g"
  by (simp add: gpioic_ok_def drive_wire_def)

lemma line_of_drive:
  assumes "gpioic_ok g" "j < LINES" "k < LINES"
  shows "line_of (drive_wire j b g) k =
    (if j = k then (line_of g k)\<lparr>ln_raw := b, ln_driven := True\<rparr> else line_of g k)"
  using assms by (cases b) (auto simp: line_of_def drive_wire_def gpioic_ok_def lane_bits)

lemma line_of_set_stat_bit:
  assumes "gpioic_ok g" "j < LINES" "k < LINES"
  shows "line_of (g\<lparr>gi_stat := (gi_stat g)[j div 32 := gi_stat g ! (j div 32) OR 2 ^ (j mod 32)]\<rparr>) k =
    (if j = k then (line_of g k)\<lparr>ln_stat := True\<rparr> else line_of g k)"
  using assms by (auto simp: line_of_def gpioic_ok_def lane_bits)

lemma settled_latch: "gpioic_settled g \<Longrightarrow> k < LINES \<Longrightarrow> line_latch (line_of g k) = line_of g k"
  by (auto simp: gpioic_settled_def intro: line_latch_fixed)

lemma line_of_set_line:
  assumes ok: "gpioic_ok g" and s: "gpioic_settled g" and k: "k < LINES"
  shows "line_of (s5l_gpioic_set_line j b g) k = line_event k (G_line j b) (line_of g k)"
proof (cases "j < LINES")
  case j: True
  show ?thesis
  proof (cases "j = k")
    case False
    then have "line_of (s5l_gpioic_set_line j b g) k \<in> {line_of g k, line_latch (line_of g k)}"
      using ok j k
      by (auto simp: s5l_gpioic_set_line_cases Let_def line_of_relatch line_of_drive line_of_set_stat_bit)
    then show ?thesis using False settled_latch [OF s k] by (auto simp: line_event_def)
  next
    case True
    have same: "line_latch (line_of g k) = line_of g k" by (rule settled_latch [OF s k])
    show ?thesis
    proof (cases "ln_type (line_of g k)")
      case t: True
      have ev: "line_event k (G_line j b) (line_of g k) =
          line_latch ((line_of g k)\<lparr>ln_raw := b, ln_driven := True\<rparr>)"
        using True t by (simp add: line_event_def)
      show ?thesis
      proof (cases "b = ln_raw (line_of g k) \<and> ln_driven (line_of g k)")
        case kept: True
        then have same_wire: "(line_of g k)\<lparr>ln_raw := b, ln_driven := True\<rparr> = line_of g k"
          by (cases "line_of g k") simp
        have "s5l_gpioic_set_line j b g = drive_wire j b g"
          using kept t True k by (simp add: s5l_gpioic_set_line_cases Let_def)
        then show ?thesis
          unfolding ev same_wire same using True ok k same_wire by (simp only: line_of_drive if_True refl)
      next
        case False
        then show ?thesis
          unfolding ev using ok k True t
          by (auto simp: s5l_gpioic_set_line_cases Let_def line_of_relatch line_of_drive)
      qed
    next
      case t: False
      then have "line_latch (l\<lparr>ln_raw := b, ln_driven := True, ln_stat := st\<rparr>) =
          l\<lparr>ln_raw := b, ln_driven := True, ln_stat := st\<rparr>" if "l = line_of g k" for l st
        using that by (intro line_latch_fixed) (simp add: line_asserting_def)
      then show ?thesis using ok k True t
        by (auto simp: s5l_gpioic_set_line_cases Let_def line_of_set_stat_bit line_of_drive line_event_def)
    qed
  qed
next
  case False
  then show ?thesis using k by (auto simp: s5l_gpioic_set_line_def line_event_def)
qed

text \<open>Events keep the shape and leave a settled controller settled.\<close>

lemma line_latched: "line_asserting (line_latch l) \<Longrightarrow> ln_stat (line_latch l)"
  by (auto simp: line_latch_def line_asserting_def)

lemma line_event_settled:
  "(line_asserting l \<Longrightarrow> ln_stat l) \<Longrightarrow> line_asserting (line_event k e l) \<Longrightarrow> ln_stat (line_event k e l)"
  by (cases e) (auto simp: line_event_def Let_def line_latched split: if_splits)

lemma gpioic_ok_event: "gpioic_ok g \<Longrightarrow> gpioic_ok (gpioic_event e g)"
  by (simp add: gpioic_event_def gpioic_ok_read gpioic_ok_write gpioic_ok_set_line split: gpio_event.split)

lemma line_of_event:
  assumes "gpioic_ok g" "gpioic_settled g" "k < LINES"
  shows "line_of (gpioic_event e g) k = line_event k e (line_of g k)"
  using assms
  by (cases e) (simp_all add: gpioic_event_def line_of_read line_of_write line_of_set_line line_event_def)

lemma gpioic_settled_event:
  assumes "gpioic_ok g" "gpioic_settled g"
  shows "gpioic_settled (gpioic_event e g)"
  unfolding gpioic_settled_def
proof (intro allI impI)
  fix k assume k: "k < LINES" "line_asserting (line_of (gpioic_event e g) k)"
  have "line_asserting (line_of g k) \<Longrightarrow> ln_stat (line_of g k)" using assms k by (simp add: gpioic_settled_def)
  then show "ln_stat (line_of (gpioic_event e g) k)"
    using k(2) by (simp add: line_of_event [OF assms k(1)] line_event_settled)
qed

interpretation gpioic_lines: wires s5l_gpioic_set_line s5l_gpioic_line
    "\<lambda>g. gpioic_ok g \<and> gpioic_settled g" "\<lambda>k. k < LINES"
proof
  fix g k b
  assume ok: "gpioic_ok g \<and> gpioic_settled g"
  have e: "s5l_gpioic_set_line k b g = gpioic_event (G_line k b) g" by (simp add: gpioic_event_def)
  show "gpioic_ok (s5l_gpioic_set_line k b g) \<and> gpioic_settled (s5l_gpioic_set_line k b g)"
    unfolding e using ok gpioic_ok_event gpioic_settled_event by blast
  show "s5l_gpioic_line (s5l_gpioic_set_line k b g) k = b" if "k < LINES"
    using ok that by (simp add: s5l_gpioic_line_line line_of_set_line line_event_def line_latch_def)
  show "s5l_gpioic_line (s5l_gpioic_set_line k b g) j = s5l_gpioic_line g j"
    if "k < LINES" "j < LINES" "j \<noteq> k" for j
    using ok that by (simp add: s5l_gpioic_line_line line_of_set_line line_event_def)
qed

abbreviation gpioic_run :: "gpio_event list \<Rightarrow> s5l_gpioic \<Rightarrow> s5l_gpioic" where
  "gpioic_run es g \<equiv> fold gpioic_event es g"

lemma gpioic_run_lines:
  "gpioic_ok g \<Longrightarrow> gpioic_settled g \<Longrightarrow>
   gpioic_ok (gpioic_run es g) \<and> gpioic_settled (gpioic_run es g) \<and>
   (\<forall>k < LINES. line_of (gpioic_run es g) k = fold (line_event k) es (line_of g k))"
  by (induction es arbitrary: g) (simp_all add: gpioic_ok_event gpioic_settled_event line_of_event)

text \<open>
  C37: From reset, over any guest accesses and any board activity, each of the 224 lines is pending
  exactly when its own line machine says so, which latches an edge line when it rises and a level line
  whenever it is enabled, driven and at the selected level, and forgets only what the guest clears;
  each group asks for its interrupt exactly when one of its lines is pending and enabled. So the
  evaluation of whole groups, and its omission when no wire moved, loses and invents nothing.
\<close>

theorem gpioic_refines_lines:
  "(\<forall>k < LINES.
      s5l_gpioic_pending (gpioic_run es s5l_gpioic_reset) k = ln_stat (fold (line_event k) es line_idle) \<and>
      s5l_gpioic_line (gpioic_run es s5l_gpioic_reset) k = ln_raw (fold (line_event k) es line_idle)) \<and>
   (\<forall>gr < GROUPS.
      s5l_gpioic_group_irq (gpioic_run es s5l_gpioic_reset) gr \<longleftrightarrow>
      (\<exists>k < LINES. k div 32 = gr \<and> ln_stat (fold (line_event k) es line_idle) \<and>
         ln_en (fold (line_event k) es line_idle)))"
proof -
  have lines: "line_of (gpioic_run es s5l_gpioic_reset) k = fold (line_event k) es line_idle"
    if "k < LINES" for k
    using gpioic_run_lines [OF gpioic_ok_reset gpioic_settled_reset] that by (simp add: line_of_reset)
  then show ?thesis
    by (auto simp: s5l_gpioic_pending_line s5l_gpioic_line_line s5l_gpioic_group_irq_lines)
qed

theorem gpioic_refines_lines_witness:
  "s5l_gpioic_pending (gpioic_run [G_write 0xd0 0x08000000, G_line 155 True] s5l_gpioic_reset) 155 \<and>
   s5l_gpioic_group_irq (gpioic_run [G_write 0xd0 0x08000000, G_line 155 True] s5l_gpioic_reset) 4"
proof -
  let ?es = "[G_write 0xd0 0x08000000, G_line 155 True]"
  have l: "ln_stat (fold (line_event 155) ?es line_idle)" "ln_en (fold (line_event 155) ?es line_idle)"
    by (simp_all add: line_event_def line_idle_def line_latch_def Let_def bit_simps)
  have "\<exists>k < LINES. k div 32 = 4 \<and> ln_stat (fold (line_event k) ?es line_idle) \<and>
      ln_en (fold (line_event k) ?es line_idle)"
    using l by (intro exI [of _ 155]) simp
  moreover have "155 < LINES" "4 < GROUPS" by simp_all
  ultimately show ?thesis using gpioic_refines_lines [of ?es] l(1) by blast
qed

end
