(* ===== verification/Gpio_Pins.thy ===== *)
theory Gpio_Pins
  imports Bytes Wires
begin

text \<open>
  The GPIO pin block (core/src/soc/gpioic.c): a page of registers that the guest stores by bytes,
  25 of which hold the pin levels and are moved only by the function-select store or by the board,
  and the watchers the board hangs on pins. The lemmas say which pins an operation moves and that a
  watcher is told of exactly the changes.
\<close>

unbundle bit_operations_syntax

section \<open>State\<close>

text \<open>
  \<open>gw_changed\<close> is the callback with its context, or \<open>None\<close> for a null pointer. The calls that an
  operation makes are returned in order, with the level each is told.
\<close>

record 'h gpio_watch_slot =
  gw_pin :: u16
  gw_armed :: bool
  gw_changed :: "'h option"

record 'h s5l_gpio =
  gp_regs :: "u32 list"
  gp_watch :: "'h gpio_watch_slot list"

abbreviation PORTS :: nat where "PORTS \<equiv> 25"
abbreviation FSEL :: u32 where "FSEL \<equiv> 0x320"

text \<open>The word index of the level register of a group of pins.\<close>

definition pin_word :: "nat \<Rightarrow> nat" where
  "pin_word gr = (gr * 32 + 4) div 4"

definition pin_group :: "u16 \<Rightarrow> nat" where
  "pin_group pin = unat (shr pin 8)"

definition s5l_gpio_reset :: "'h s5l_gpio" where
  "s5l_gpio_reset = \<lparr>gp_regs = replicate 1024 0,
     gp_watch = replicate 4 \<lparr>gw_pin = 0, gw_armed = False, gw_changed = None\<rparr>\<rparr>"

section \<open>Operations\<close>

definition gpio_byte :: "u32 list \<Rightarrow> nat \<Rightarrow> u8" where
  "gpio_byte regs at = ucast (shr (regs ! (at div 4)) (8 * (at mod 4)))"

definition s5l_gpio_read :: "'h s5l_gpio \<Rightarrow> u32 \<Rightarrow> nat \<Rightarrow> u32" where
  "s5l_gpio_read g off bytes =
     (if bytes = 0 \<or> bytes > 4 then 0
      else if unat off + bytes > 0x1000 then 0
      else le_word (map (\<lambda>i. gpio_byte (gp_regs g) (unat off + i)) [0..<bytes]))"

definition watch_call :: "u32 list \<Rightarrow> u32 list \<Rightarrow> 'h gpio_watch_slot \<Rightarrow> ('h \<times> bool) list" where
  "watch_call before regs w =
     (case gw_changed w of
        None \<Rightarrow> []
      | Some changed \<Rightarrow>
          if \<not> gw_armed w \<or> pin_group (gw_pin w) \<ge> PORTS then []
          else
            let gr = pin_group (gw_pin w); m = shl 1 (unat (gw_pin w AND 0x1f)); now = regs ! pin_word gr
            in if (before ! gr XOR now) AND m = 0 then [] else [(changed, now AND m \<noteq> 0)])"

definition notify :: "u32 list \<Rightarrow> 'h s5l_gpio \<Rightarrow> ('h \<times> bool) list" where
  "notify before g = concat (map (watch_call before (gp_regs g)) (gp_watch g))"

definition pin_snapshot :: "'h s5l_gpio \<Rightarrow> u32 list" where
  "pin_snapshot g = map (\<lambda>i. gp_regs g ! pin_word i) [0..<PORTS]"

definition is_pin_reg :: "nat \<Rightarrow> bool" where
  "is_pin_reg off \<longleftrightarrow>
     (let w = 4 * (off div 4)
      in if w < 4 \<or> (w - 4) mod 32 \<noteq> 0 then False else (w - 4) div 32 < PORTS)"

definition gpio_put_byte :: "u32 \<Rightarrow> u32 \<Rightarrow> nat \<Rightarrow> u32 list \<Rightarrow> u32 list" where
  "gpio_put_byte off val i regs =
     (let at = unat off + i; sh = 8 * (at mod 4)
      in if is_pin_reg at then regs
         else regs[at div 4 := (regs ! (at div 4) AND NOT (shl 0xff sh)) OR
                               shl (shr val (8 * i) AND 0xff) sh])"

text \<open>The function-select store drives one pin.\<close>

definition set_pin_bit :: "nat \<Rightarrow> nat \<Rightarrow> bool \<Rightarrow> u32 list \<Rightarrow> u32 list" where
  "set_pin_bit gr b level regs =
     regs[pin_word gr := if level then regs ! pin_word gr OR shl 1 b else regs ! pin_word gr AND NOT (shl 1 b)]"

definition fsel_store :: "u32 \<Rightarrow> u32 list \<Rightarrow> u32 list" where
  "fsel_store val regs =
     (let gr = unat (shr val 16 AND 0xff); b = unat (shr val 8 AND 0xff)
      in if gr < PORTS \<and> b < 32 \<and> shr val 1 AND 7 = 7 then set_pin_bit gr b (val AND 1 \<noteq> 0) regs else regs)"

definition s5l_gpio_write :: "u32 \<Rightarrow> u32 \<Rightarrow> nat \<Rightarrow> 'h s5l_gpio \<Rightarrow> ('h \<times> bool) list \<times> 'h s5l_gpio" where
  "s5l_gpio_write off val bytes g =
     (if bytes = 0 \<or> bytes > 4 then ([], g)
      else if unat off + bytes > 0x1000 then ([], g)
      else
        let regs = fold (gpio_put_byte off val) [0..<bytes] (gp_regs g);
            regs1 = (if off = FSEL \<and> bytes = 4 then fsel_store val regs else regs);
            g1 = g\<lparr>gp_regs := regs1\<rparr>
        in (notify (pin_snapshot g) g1, g1))"

definition s5l_gpio_drive :: "u16 \<Rightarrow> bool \<Rightarrow> 'h s5l_gpio \<Rightarrow> ('h \<times> bool) list \<times> 'h s5l_gpio" where
  "s5l_gpio_drive pin level g =
     (let gr = pin_group pin; b = unat (pin AND 0xff)
      in if gr \<ge> PORTS \<or> b > 31 then ([], g)
         else if (shr (gp_regs g ! pin_word gr) b AND 1) = (if level then 1 else 0) then ([], g)
         else
           let g1 = g\<lparr>gp_regs := set_pin_bit gr b level (gp_regs g)\<rparr>
           in (notify (pin_snapshot g) g1, g1))"

definition s5l_gpio_pin :: "'h s5l_gpio \<Rightarrow> u16 \<Rightarrow> bool" where
  "s5l_gpio_pin g pin \<longleftrightarrow>
     (if pin_group pin \<ge> PORTS then False
      else gp_regs g ! pin_word (pin_group pin) AND shl 1 (unat (pin AND 0x1f)) \<noteq> 0)"

definition s5l_gpio_watch :: "u16 \<Rightarrow> 'h option \<Rightarrow> 'h s5l_gpio \<Rightarrow> bool \<times> 'h s5l_gpio" where
  "s5l_gpio_watch pin changed g =
     (if changed = None then (False, g)
      else if pin_group pin \<ge> PORTS then (False, g)
      else if unat (pin AND 0xff) > 31 then (False, g)
      else if list_ex (\<lambda>w. gw_armed w \<and> gw_pin w = pin) (gp_watch g) then (False, g)
      else
        case find (\<lambda>i. \<not> gw_armed (gp_watch g ! i)) [0..<length (gp_watch g)] of
          None \<Rightarrow> (False, g)
        | Some i \<Rightarrow>
            (True, g\<lparr>gp_watch := (gp_watch g)[i := \<lparr>gw_pin = pin, gw_armed = True, gw_changed = changed\<rparr>]\<rparr>))"

section \<open>Pins\<close>

definition gpio_ok :: "'h s5l_gpio \<Rightarrow> bool" where
  "gpio_ok g \<longleftrightarrow> length (gp_regs g) = 1024 \<and> length (gp_watch g) = 4"

text \<open>A pin number that names a pin.\<close>

definition pin_valid :: "u16 \<Rightarrow> bool" where
  "pin_valid pin \<longleftrightarrow> pin_group pin < PORTS \<and> unat (pin AND 0xff) < 32"

definition pin_bit :: "u16 \<Rightarrow> nat" where
  "pin_bit pin = unat (pin AND 0xff)"

lemma pin_word_less [simp]: "gr < PORTS \<Longrightarrow> pin_word gr < 1024"
  by (simp add: pin_word_def)

lemma pin_word_eq [simp]: "pin_word a = pin_word b \<longleftrightarrow> a = b"
  by (simp add: pin_word_def)

lemma unat_low: "unat (w AND mask n) = unat w mod 2 ^ n" for w :: u16
  by (simp only: take_bit_eq_mask [symmetric] unsigned_take_bit_eq) (simp add: take_bit_eq_mod)

lemma pin_masks: "(0x1f :: u16) = mask 5" "(0xff :: u16) = mask 8"
  by (simp_all add: mask_eq_exp_minus_1)

lemma pin_valid_mask: "pin_valid pin \<Longrightarrow> unat (pin AND 0x1f) = pin_bit pin"
proof -
  assume v: "pin_valid pin"
  have "unat (pin AND 0x1f) = unat pin mod 32" unfolding pin_masks unat_low by simp
  moreover have "unat (pin AND 0xff) = unat pin mod 256" unfolding pin_masks unat_low by simp
  moreover have "unat pin mod 32 = unat pin mod 256 mod 32" by (simp add: mod_mod_cancel)
  ultimately show ?thesis using v by (simp add: pin_valid_def pin_bit_def)
qed

lemma pin_eq_iff: "p = q \<longleftrightarrow> pin_group p = pin_group q \<and> pin_bit p = pin_bit q"
proof -
  have split: "unat p = 256 * pin_group p + pin_bit p" for p
  proof -
    have "unat p < 65536" using unsigned_less [of p] by simp
    then have low: "take_bit 16 (unat p) = unat p" by (simp add: take_bit_nat_eq_self)
    have "pin_bit p = unat p mod 256" unfolding pin_bit_def pin_masks unat_low by simp
    moreover have "pin_group p = unat p div 256"
      by (simp only: pin_group_def unsigned_drop_bit_eq) (simp add: drop_bit_eq_div low)
    ultimately show ?thesis by simp
  qed
  have "unat p = unat q \<Longrightarrow> p = q" by (rule unsigned_word_eqI)
  then show ?thesis using split [of p] split [of q] by auto
qed

lemma pin_test: "n < 32 \<Longrightarrow> w AND 2 ^ n = 0 \<longleftrightarrow> \<not> bit w n" for w :: u32
proof -
  assume n: "n < 32"
  have "w AND 2 ^ n \<noteq> 0 \<longleftrightarrow> (\<exists>k. bit (w AND 2 ^ n) k)" by (rule word_nonzero_bit)
  also have "\<dots> \<longleftrightarrow> bit w n" using n by (auto simp: bit_simps)
  finally show ?thesis by blast
qed

lemma s5l_gpio_pin_bit:
  "pin_valid pin \<Longrightarrow> s5l_gpio_pin g pin = bit (gp_regs g ! pin_word (pin_group pin)) (pin_bit pin)"
  by (simp add: s5l_gpio_pin_def pin_valid_mask pin_test) (simp add: pin_valid_def pin_bit_def pin_test)

lemma set_pin_bit_length [simp]: "length (set_pin_bit gr b lv regs) = length regs"
  by (simp add: set_pin_bit_def)

lemma bit_set_pin_bit:
  "length regs = 1024 \<Longrightarrow> gr < PORTS \<Longrightarrow> b < 32 \<Longrightarrow> gr' < PORTS \<Longrightarrow> b' < 32 \<Longrightarrow>
   bit (set_pin_bit gr b lv regs ! pin_word gr') b' =
     (if gr' = gr \<and> b' = b then lv else bit (regs ! pin_word gr') b')"
  by (auto simp: set_pin_bit_def nth_list_update bit_simps)

section \<open>The board drives a pin\<close>

lemma shr_and_1: "shr w b AND 1 = (if bit w b then 1 else 0)" for w :: u32
  by (simp add: and_one_eq mod_2_eq_odd bit_iff_odd_drop_bit)

lemma s5l_gpio_drive_ok: "gpio_ok g \<Longrightarrow> gpio_ok (snd (s5l_gpio_drive pin b g))"
  by (simp add: s5l_gpio_drive_def gpio_ok_def Let_def)

lemma s5l_gpio_drive_level:
  assumes "gpio_ok g" "pin_valid p" "pin_valid q"
  shows "s5l_gpio_pin (snd (s5l_gpio_drive p b g)) q = (if q = p then b else s5l_gpio_pin g q)"
proof -
  have same: "(shr w n AND 1) = (if b then 1 else 0) \<longleftrightarrow> bit w n = b" if "n < 32" for w :: u32 and n
    using that by (simp add: shr_and_1)
  show ?thesis
    using assms
    by (auto simp: s5l_gpio_pin_bit s5l_gpio_drive_def Let_def gpio_ok_def pin_eq_iff bit_set_pin_bit
        same [unfolded pin_bit_def] pin_valid_def pin_bit_def split: if_splits)
qed

interpretation gpio_pins: wires "\<lambda>pin b g. snd (s5l_gpio_drive pin b g)" s5l_gpio_pin gpio_ok pin_valid
  by unfold_locales (simp_all add: s5l_gpio_drive_ok s5l_gpio_drive_level)

section \<open>The guest stores\<close>

lemma put_byte_length [simp]: "length (gpio_put_byte off val i regs) = length regs"
  by (simp add: gpio_put_byte_def Let_def)

lemma is_pin_reg_word: "gr < PORTS \<Longrightarrow> at div 4 = pin_word gr \<Longrightarrow> is_pin_reg at"
  by (simp add: is_pin_reg_def pin_word_def Let_def)

lemma put_byte_pin: "gr < PORTS \<Longrightarrow> gpio_put_byte off val i regs ! pin_word gr = regs ! pin_word gr"
  using is_pin_reg_word [of gr "unat off + i"]
  by (cases "(unat off + i) div 4 = pin_word gr") (simp_all add: gpio_put_byte_def Let_def)

lemma put_bytes_pin:
  "gr < PORTS \<Longrightarrow> fold (gpio_put_byte off val) is regs ! pin_word gr = regs ! pin_word gr"
  by (induction "is" arbitrary: regs) (simp_all add: put_byte_pin)

lemma put_bytes_length [simp]: "length (fold (gpio_put_byte off val) is regs) = length regs"
  by (induction "is" arbitrary: regs) simp_all

lemma fsel_store_length [simp]: "length (fsel_store val regs) = length regs"
  by (simp add: fsel_store_def Let_def)

lemma s5l_gpio_write_ok: "gpio_ok g \<Longrightarrow> gpio_ok (snd (s5l_gpio_write off val n g))"
  by (simp add: s5l_gpio_write_def gpio_ok_def Let_def)

text \<open>The pin that a function-select word drives.\<close>

definition fsel_drives :: "u32 \<Rightarrow> u16 \<Rightarrow> bool" where
  "fsel_drives val pin \<longleftrightarrow> shr val 1 AND 7 = 7 \<and>
     unat (shr val 16 AND 0xff) = pin_group pin \<and> unat (shr val 8 AND 0xff) = pin_bit pin"

lemma s5l_gpio_write_level:
  assumes "gpio_ok g" "pin_valid p"
  shows "s5l_gpio_pin (snd (s5l_gpio_write off val n g)) p =
    (if off = FSEL \<and> n = 4 \<and> fsel_drives val p then val AND 1 \<noteq> 0 else s5l_gpio_pin g p)"
  using assms
  by (auto simp: s5l_gpio_pin_bit s5l_gpio_write_def Let_def gpio_ok_def fsel_store_def fsel_drives_def
      bit_set_pin_bit pin_valid_def pin_bit_def put_bytes_pin)

section \<open>Watchers\<close>

datatype pin_act = Guest_store u32 u32 nat | Board_drive u16 bool

definition pin_act :: "pin_act \<Rightarrow> 'h s5l_gpio \<Rightarrow> ('h \<times> bool) list \<times> 'h s5l_gpio" where
  "pin_act a g = (case a of Guest_store off val n \<Rightarrow> s5l_gpio_write off val n g
                          | Board_drive pin b \<Rightarrow> s5l_gpio_drive pin b g)"

primrec pin_acts :: "pin_act list \<Rightarrow> 'h s5l_gpio \<Rightarrow> ('h \<times> bool) list \<times> 'h s5l_gpio" where
  "pin_acts [] g = ([], g)"
| "pin_acts (a # as) g = (let (calls, g1) = pin_act a g; (calls', g2) = pin_acts as g1 in (calls @ calls', g2))"

definition told :: "'h \<Rightarrow> ('h \<times> bool) list \<Rightarrow> bool list" where
  "told h calls = map snd (filter (\<lambda>c. fst c = h) calls)"

lemma told_append [simp]: "told h (xs @ ys) = told h xs @ told h ys"
  by (simp add: told_def)

lemma told_Nil [simp]: "told h [] = []"
  by (simp add: told_def)

text \<open>The only armed watcher with callback \<open>h\<close> is on \<open>pin\<close>.\<close>

definition watches :: "'h \<Rightarrow> u16 \<Rightarrow> 'h gpio_watch_slot list \<Rightarrow> bool" where
  "watches h pin ws \<longleftrightarrow> pin_valid pin \<and>
     (\<exists>us vs. ws = us @ \<lparr>gw_pin = pin, gw_armed = True, gw_changed = Some h\<rparr> # vs \<and>
        (\<forall>w \<in> set (us @ vs). gw_armed w \<longrightarrow> gw_changed w \<noteq> Some h))"

lemma told_other: "gw_armed w \<longrightarrow> gw_changed w \<noteq> Some h \<Longrightarrow> told h (watch_call before regs w) = []"
  by (auto simp: watch_call_def told_def Let_def split: option.split)

lemma told_others:
  "\<forall>w \<in> set ws. gw_armed w \<longrightarrow> gw_changed w \<noteq> Some h \<Longrightarrow> told h (concat (map (watch_call before regs) ws)) = []"
  by (induction ws) (simp_all add: told_other)

lemma told_notify:
  fixes g g1 :: "'h s5l_gpio"
  assumes w: "watches h pin (gp_watch g1)"
  shows "told h (notify (pin_snapshot g) g1) =
    (if s5l_gpio_pin g pin = s5l_gpio_pin g1 pin then [] else [s5l_gpio_pin g1 pin])"
proof -
  obtain us vs where ws: "gp_watch g1 = us @ \<lparr>gw_pin = pin, gw_armed = True, gw_changed = Some h\<rparr> # vs"
      "\<forall>w \<in> set (us @ vs). gw_armed w \<longrightarrow> gw_changed w \<noteq> Some h"
    using w by (auto simp: watches_def)
  have v: "pin_valid pin" using w by (simp add: watches_def)
  then have gr: "pin_group pin < PORTS" "pin_bit pin < 32" by (simp_all add: pin_valid_def pin_bit_def)
  have "told h (watch_call (pin_snapshot g) (gp_regs g1) \<lparr>gw_pin = pin, gw_armed = True, gw_changed = Some h\<rparr>) =
      (if s5l_gpio_pin g pin = s5l_gpio_pin g1 pin then [] else [s5l_gpio_pin g1 pin])"
    using v gr
    by (auto simp: watch_call_def pin_snapshot_def told_def s5l_gpio_pin_bit pin_valid_mask Let_def
        pin_test bit_simps)
  then show ?thesis
    using ws told_others [of us h] told_others [of vs h] by (simp add: notify_def)
qed

lemma pin_act_watch [simp]: "gp_watch (snd (pin_act a g)) = gp_watch g"
  by (cases a) (simp_all add: pin_act_def s5l_gpio_write_def s5l_gpio_drive_def Let_def)

lemma pin_act_told:
  assumes "watches h pin (gp_watch g)"
  shows "told h (fst (pin_act a g)) =
    (if s5l_gpio_pin (snd (pin_act a g)) pin = s5l_gpio_pin g pin then []
     else [s5l_gpio_pin (snd (pin_act a g)) pin])"
  using assms
  by (cases a) (auto simp: pin_act_def s5l_gpio_write_def s5l_gpio_drive_def Let_def told_notify)

lemma pin_acts_told:
  "watches h pin (gp_watch g) \<Longrightarrow>
   successively (\<noteq>) (s5l_gpio_pin g pin # told h (fst (pin_acts as g))) \<and>
   last (s5l_gpio_pin g pin # told h (fst (pin_acts as g))) = s5l_gpio_pin (snd (pin_acts as g)) pin"
proof (induction as arbitrary: g)
  case (Cons a as)
  have "watches h pin (gp_watch (snd (pin_act a g)))" using Cons.prems by simp
  note rest = Cons.IH [OF this]
  have acts: "pin_acts (a # as) g =
      (fst (pin_act a g) @ fst (pin_acts as (snd (pin_act a g))), snd (pin_acts as (snd (pin_act a g))))"
    by (simp add: split_beta Let_def)
  show ?case
  proof (cases "s5l_gpio_pin (snd (pin_act a g)) pin = s5l_gpio_pin g pin")
    case True
    then show ?thesis using rest pin_act_told [OF Cons.prems, of a] unfolding acts by simp
  next
    case False
    then show ?thesis using rest pin_act_told [OF Cons.prems, of a] unfolding acts by auto
  qed
qed simp

lemma s5l_gpio_watch_arms:
  assumes "fst (s5l_gpio_watch pin (Some h) g)"
    and "\<forall>w \<in> set (gp_watch g). gw_armed w \<longrightarrow> gw_changed w \<noteq> Some h"
  shows "watches h pin (gp_watch (snd (s5l_gpio_watch pin (Some h) g)))"
proof -
  let ?w = "\<lparr>gw_pin = pin, gw_armed = True, gw_changed = Some h\<rparr>"
  from assms(1) obtain i where
    i: "find (\<lambda>i. \<not> gw_armed (gp_watch g ! i)) [0..<length (gp_watch g)] = Some i"
    by (auto simp: s5l_gpio_watch_def split: if_splits option.splits)
  have v: "pin_valid pin" and g: "gp_watch (snd (s5l_gpio_watch pin (Some h) g)) = (gp_watch g)[i := ?w]"
    using assms(1) i by (auto simp: s5l_gpio_watch_def pin_valid_def split: if_splits)
  have "i < length (gp_watch g)" using i by (auto simp: find_Some_iff)
  then have "gp_watch (snd (s5l_gpio_watch pin (Some h) g)) =
      take i (gp_watch g) @ ?w # drop (Suc i) (gp_watch g)"
    unfolding g by (simp add: upd_conv_take_nth_drop)
  moreover have "\<forall>w \<in> set (take i (gp_watch g) @ drop (Suc i) (gp_watch g)). gw_armed w \<longrightarrow> gw_changed w \<noteq> Some h"
    using assms(2) by (auto dest: in_set_takeD in_set_dropD)
  ultimately show ?thesis using v unfolding watches_def by blast
qed

lemma s5l_gpio_watch_ok: "gpio_ok g \<Longrightarrow> gpio_ok (snd (s5l_gpio_watch pin h g))"
  by (auto simp: s5l_gpio_watch_def gpio_ok_def split: option.split)

text \<open>
  C39: Once a watcher is accepted for a pin, whatever the guest stores and the board drives, in any
  order, it is told of exactly the changes of that pin: the levels it is told alternate, starting from
  the level when it was accepted, and the last of them is the level of the pin. A guest store moves
  the pin only when it is a whole function-select word that names it.
\<close>

theorem watcher_told_of_changes:
  assumes "gpio_ok g0" "fst (s5l_gpio_watch pin (Some h) g0)"
    and "\<forall>w \<in> set (gp_watch g0). gw_armed w \<longrightarrow> gw_changed w \<noteq> Some h"
    and "g = snd (s5l_gpio_watch pin (Some h) g0)"
  shows "successively (\<noteq>) (s5l_gpio_pin g pin # told h (fst (pin_acts as g))) \<and>
    last (s5l_gpio_pin g pin # told h (fst (pin_acts as g))) = s5l_gpio_pin (snd (pin_acts as g)) pin \<and>
    s5l_gpio_pin (snd (s5l_gpio_write off val n g)) pin =
      (if off = FSEL \<and> n = 4 \<and> fsel_drives val pin then val AND 1 \<noteq> 0 else s5l_gpio_pin g pin)"
proof -
  have w: "watches h pin (gp_watch g)" unfolding assms(4) by (rule s5l_gpio_watch_arms [OF assms(2,3)])
  then have v: "pin_valid pin" by (simp add: watches_def)
  have "gpio_ok g" unfolding assms(4) by (rule s5l_gpio_watch_ok [OF assms(1)])
  then show ?thesis using pin_acts_told [OF w] s5l_gpio_write_level [OF _ v] by blast
qed

theorem watcher_told_of_changes_witness:
  "let g = snd (s5l_gpio_watch 0x1605 (Some ''hold'') s5l_gpio_reset);
       as = [Board_drive 0x1605 True, Guest_store 0x320 0x16050e 4]
   in last (s5l_gpio_pin g 0x1605 # told ''hold'' (fst (pin_acts as g))) =
        s5l_gpio_pin (snd (pin_acts as g)) 0x1605 \<and>
      \<not> s5l_gpio_pin (snd (s5l_gpio_write 0x320 0x16050e 4 g)) 0x1605"
proof -
  have "gpio_ok (s5l_gpio_reset :: string s5l_gpio)" by (simp add: gpio_ok_def s5l_gpio_reset_def)
  moreover have "fst (s5l_gpio_watch 0x1605 (Some ''hold'') s5l_gpio_reset)" by code_simp
  moreover have "\<forall>w \<in> set (gp_watch (s5l_gpio_reset :: string s5l_gpio)).
      gw_armed w \<longrightarrow> gw_changed w \<noteq> Some ''hold''"
    by (simp add: s5l_gpio_reset_def)
  moreover have "fsel_drives 0x16050e 0x1605" "(0x16050e :: u32) AND 1 = 0" by code_simp+
  ultimately show ?thesis
    using watcher_told_of_changes [of s5l_gpio_reset "0x1605" "''hold''" _
        "[Board_drive 0x1605 True, Guest_store 0x320 0x16050e 4]" "0x320" "0x16050e" 4]
    by (simp add: Let_def del: pin_acts.simps)
qed

end
