(* ===== verification/Buttons.thy ===== *)
theory Buttons
  imports Gpioic Gpio_Pins
begin

text \<open>
  The five physical buttons (core/src/soc/buttons.c): the wiring of each switch to a pin of the GPIO
  block and to a line of the GPIO interrupt controller, and the host's requests. The lemmas follow a
  session of requests, refreshes, interrupts served by the guest and any other traffic, and show that
  every accepted transition raises an interrupt of its own and stays on the pin until the next one is
  accepted. How the guest serves an interrupt is a parameter.
\<close>

unbundle bit_operations_syntax

section \<open>Wiring\<close>

abbreviation BUTTON_COUNT :: nat where "BUTTON_COUNT \<equiv> 5"

record s5l_buttons =
  bt_pressed :: u8
  bt_sets :: u64
  bt_refused :: u64
  bt_edges :: u64

record button_wiring =
  bw_name :: string
  bw_pin :: u16
  bw_line :: nat
  bw_active_high :: bool
  bw_inverts :: bool

definition WIRING :: "button_wiring list" where
  "WIRING =
     [\<lparr>bw_name = ''hold'', bw_pin = 0x1605, bw_line = 45, bw_active_high = True, bw_inverts = False\<rparr>,
      \<lparr>bw_name = ''menu'', bw_pin = 0x1600, bw_line = 40, bw_active_high = True, bw_inverts = False\<rparr>,
      \<lparr>bw_name = ''volup'', bw_pin = 0x1601, bw_line = 41, bw_active_high = False, bw_inverts = False\<rparr>,
      \<lparr>bw_name = ''voldown'', bw_pin = 0x1602, bw_line = 42, bw_active_high = False, bw_inverts = False\<rparr>,
      \<lparr>bw_name = ''ringerab'', bw_pin = 0x1603, bw_line = 43, bw_active_high = False, bw_inverts = True\<rparr>]"

definition s5l_button_name :: "nat \<Rightarrow> string" where
  "s5l_button_name which = (if which \<ge> BUTTON_COUNT then ''?'' else bw_name (WIRING ! which))"

definition s5l_button_pin :: "nat \<Rightarrow> u16" where
  "s5l_button_pin which = (if which \<ge> BUTTON_COUNT then 0xffff else bw_pin (WIRING ! which))"

definition s5l_button_line :: "nat \<Rightarrow> nat" where
  "s5l_button_line which = (if which \<ge> BUTTON_COUNT then LINES else bw_line (WIRING ! which))"

definition s5l_button_active_high :: "nat \<Rightarrow> bool" where
  "s5l_button_active_high which = (if which \<ge> BUTTON_COUNT then False else bw_active_high (WIRING ! which))"

definition s5l_button_driver_inverts :: "nat \<Rightarrow> bool" where
  "s5l_button_driver_inverts which = (if which \<ge> BUTTON_COUNT then False else bw_inverts (WIRING ! which))"

definition s5l_button_level :: "nat \<Rightarrow> bool \<Rightarrow> bool" where
  "s5l_button_level which pressed =
     (if which \<ge> BUTTON_COUNT then False
      else pressed = (bw_active_high (WIRING ! which) \<noteq> bw_inverts (WIRING ! which)))"

section \<open>State and operations\<close>

definition s5l_buttons_reset :: s5l_buttons where
  "s5l_buttons_reset = \<lparr>bt_pressed = 0, bt_sets = 0, bt_refused = 0, bt_edges = 0\<rparr>"

definition s5l_buttons_held :: "s5l_buttons \<Rightarrow> nat \<Rightarrow> bool" where
  "s5l_buttons_held b which \<longleftrightarrow>
     (if which \<ge> BUTTON_COUNT then False else bt_pressed b AND shl 1 which \<noteq> 0)"

text \<open>The two blocks are pointers that may be null.\<close>

definition drive_pin ::
  "u16 \<Rightarrow> bool \<Rightarrow> 'h s5l_gpio option \<Rightarrow> ('h \<times> bool) list \<times> 'h s5l_gpio option" where
  "drive_pin pin level gpio =
     (case gpio of None \<Rightarrow> ([], None)
      | Some g \<Rightarrow> let (calls, g1) = s5l_gpio_drive pin level g in (calls, Some g1))"

definition apply_button ::
  "s5l_buttons \<Rightarrow> nat \<Rightarrow> ('h \<times> bool) list \<times> 'h s5l_gpio option \<times> s5l_gpioic option \<Rightarrow>
   ('h \<times> bool) list \<times> 'h s5l_gpio option \<times> s5l_gpioic option" where
  "apply_button b i = (\<lambda>(calls, gpio, ic).
     let level = s5l_button_level i (s5l_buttons_held b i);
         (calls1, gpio1) = drive_pin (bw_pin (WIRING ! i)) level gpio
     in (calls @ calls1, gpio1, map_option (s5l_gpioic_set_line (bw_line (WIRING ! i)) level) ic))"

definition s5l_buttons_apply ::
  "s5l_buttons \<Rightarrow> 'h s5l_gpio option \<Rightarrow> s5l_gpioic option \<Rightarrow>
   ('h \<times> bool) list \<times> 'h s5l_gpio option \<times> s5l_gpioic option" where
  "s5l_buttons_apply b gpio ic = fold (apply_button b) [0..<BUTTON_COUNT] ([], gpio, ic)"

text \<open>The result is the answer, the calls made, and the new state of the three blocks.\<close>

definition s5l_buttons_set ::
  "nat \<Rightarrow> bool \<Rightarrow> s5l_buttons \<Rightarrow> 'h s5l_gpio option \<Rightarrow> s5l_gpioic option \<Rightarrow>
   bool \<times> ('h \<times> bool) list \<times> s5l_buttons \<times> 'h s5l_gpio option \<times> s5l_gpioic option" where
  "s5l_buttons_set which pressed b gpio ic =
     (let refuse = (False, [], b\<lparr>bt_refused := bt_refused b + 1\<rparr>, gpio, ic);
          line = bw_line (WIRING ! which)
      in if which \<ge> BUTTON_COUNT then refuse
         else if s5l_buttons_held b which = pressed then (True, [], b\<lparr>bt_sets := bt_sets b + 1\<rparr>, gpio, ic)
         else (case ic of None \<Rightarrow> refuse
          | Some c \<Rightarrow>
              if gi_en c ! (line div 32) AND shl 1 (line mod 32) = 0 then refuse
              else if s5l_gpioic_pending c line then refuse
              else
                let b1 = b\<lparr>bt_pressed := if pressed then bt_pressed b OR shl 1 which
                                          else bt_pressed b AND NOT (shl 1 which),
                           bt_sets := bt_sets b + 1, bt_edges := bt_edges b + 1\<rparr>;
                    level = s5l_button_level which pressed;
                    (calls, gpio1) = drive_pin (bw_pin (WIRING ! which)) level gpio
                in (True, calls, b1, gpio1, Some (s5l_gpioic_set_line line level c))))"

section \<open>Wiring facts\<close>

lemma less_5: "i < 5 \<Longrightarrow> i = 0 \<or> i = 1 \<or> i = 2 \<or> i = 3 \<or> i = (4 :: nat)"
  by linarith

lemma wiring_line:
  "i < 5 \<Longrightarrow> bw_line (WIRING ! i) < LINES \<and> bw_line (WIRING ! i) div 32 = 1 \<and> bw_line (WIRING ! i) = s5l_button_line i"
  by (drule less_5) (elim disjE; simp add: WIRING_def s5l_button_line_def)

lemma wiring_line_eq: "i < 5 \<Longrightarrow> j < 5 \<Longrightarrow> s5l_button_line i = s5l_button_line j \<longleftrightarrow> i = j"
  by (drule less_5, drule less_5) (elim disjE; simp add: WIRING_def s5l_button_line_def)

lemma wiring_pin: "i < 5 \<Longrightarrow> pin_valid (bw_pin (WIRING ! i)) \<and> bw_pin (WIRING ! i) = s5l_button_pin i \<and>
    pin_group (bw_pin (WIRING ! i)) = 22"
  by (drule less_5) (elim disjE; simp add: WIRING_def s5l_button_pin_def pin_valid_def pin_group_def)

lemma button_pin_valid: "i < 5 \<Longrightarrow> pin_valid (s5l_button_pin i)"
  using wiring_pin [of i] by metis

lemma button_line_less: "i < 5 \<Longrightarrow> s5l_button_line i < LINES \<and> s5l_button_line i div 32 = 1"
  using wiring_line [of i] by metis

lemma wiring_pin_eq: "i < 5 \<Longrightarrow> j < 5 \<Longrightarrow> s5l_button_pin i = s5l_button_pin j \<longleftrightarrow> i = j"
  by (drule less_5, drule less_5) (elim disjE; simp add: WIRING_def s5l_button_pin_def)

lemma s5l_button_level_iff: "i < 5 \<Longrightarrow> s5l_button_level i p = s5l_button_level i q \<longleftrightarrow> p = q"
  by (auto simp: s5l_button_level_def)

lemma bit_u8_test: "n < 8 \<Longrightarrow> w AND 2 ^ n = 0 \<longleftrightarrow> \<not> bit w n" for w :: u8
proof -
  assume n: "n < 8"
  have "w AND 2 ^ n \<noteq> 0 \<longleftrightarrow> (\<exists>k. bit (w AND 2 ^ n) k)" by (rule word_nonzero_bit)
  also have "\<dots> \<longleftrightarrow> bit w n" using n by (auto simp: bit_simps)
  finally show ?thesis by blast
qed

lemma s5l_buttons_held_bit: "i < 5 \<Longrightarrow> s5l_buttons_held b i = bit (bt_pressed b) i"
  by (simp add: s5l_buttons_held_def bit_u8_test)

section \<open>Sessions\<close>

text \<open>
  What can happen between the host, the board and the guest: a request, a refresh of the wires, the
  guest serving the interrupt of a button, and any other traffic of the two blocks. The logs are the
  transitions the board accepted and the interrupts that were served, by button.
\<close>

datatype button_event = B_set nat bool | B_refresh | B_serve nat | B_guest gpio_event | B_pins pin_act

record 'h button_session =
  bs_b :: s5l_buttons
  bs_gpio :: "'h s5l_gpio"
  bs_ic :: s5l_gpioic
  bs_accepted :: "(nat \<times> bool) list"
  bs_served :: "nat list"

text \<open>
  \<open>serve k\<close> is what the guest's interrupt code does to the controller for line \<open>k\<close>; it is firmware and a
  parameter. It serves an auto-flip line (soc.h) when it leaves the line with the opposite polarity and
  acknowledged, and the other lines as they were.
\<close>

type_synonym line_service = "nat \<Rightarrow> s5l_gpioic \<Rightarrow> s5l_gpioic"

definition line_wired :: "bool \<Rightarrow> gpio_line \<Rightarrow> bool" where
  "line_wired level l \<longleftrightarrow> ln_en l \<and> ln_type l \<and> ln_driven l \<and> ln_raw l = level \<and> (ln_stat l \<longleftrightarrow> ln_raw l = ln_level l)"

definition serves_lines :: "line_service \<Rightarrow> bool" where
  "serves_lines serve \<longleftrightarrow>
     (\<forall>c level. \<forall>i < BUTTON_COUNT. let k = s5l_button_line i in
        gpioic_ok c \<longrightarrow> gpioic_settled c \<longrightarrow> line_wired level (line_of c k) \<longrightarrow> ln_stat (line_of c k) \<longrightarrow>
        gpioic_ok (serve k c) \<and> gpioic_settled (serve k c) \<and>
        (\<forall>j < LINES. line_of (serve k c) j =
           (if j = k then (line_of c k)\<lparr>ln_level := \<not> ln_level (line_of c k), ln_stat := False\<rparr> else line_of c j)))"

definition button_step :: "line_service \<Rightarrow> button_event \<Rightarrow> 'h button_session \<Rightarrow> 'h button_session" where
  "button_step serve e s =
     (case e of
        B_set which p \<Rightarrow>
          (let (r, calls, b, gpio, ic) = s5l_buttons_set which p (bs_b s) (Some (bs_gpio s)) (Some (bs_ic s))
           in s\<lparr>bs_b := b, bs_gpio := the gpio, bs_ic := the ic,
                bs_accepted := (if r \<and> s5l_buttons_held (bs_b s) which \<noteq> p
                                then bs_accepted s @ [(which, p)] else bs_accepted s)\<rparr>)
      | B_refresh \<Rightarrow>
          (let (calls, gpio, ic) = s5l_buttons_apply (bs_b s) (Some (bs_gpio s)) (Some (bs_ic s))
           in s\<lparr>bs_gpio := the gpio, bs_ic := the ic\<rparr>)
      | B_serve i \<Rightarrow>
          (if s5l_gpioic_pending (bs_ic s) (s5l_button_line i)
           then s\<lparr>bs_ic := serve (s5l_button_line i) (bs_ic s), bs_served := bs_served s @ [i]\<rparr>
           else s)
      | B_guest ev \<Rightarrow> s\<lparr>bs_ic := gpioic_event ev (bs_ic s)\<rparr>
      | B_pins a \<Rightarrow> s\<lparr>bs_gpio := snd (pin_act a (bs_gpio s))\<rparr>)"

text \<open>Traffic that is not about the buttons: other lines, other groups' registers, other pins.\<close>

definition unrelated :: "button_event \<Rightarrow> bool" where
  "unrelated e \<longleftrightarrow>
     (case e of
        B_guest (G_write off val) \<Rightarrow> unat off \<notin> {0x84, 0xa4, 0xc4, 0xe4}
      | B_guest (G_line j level) \<Rightarrow> j \<notin> set (map s5l_button_line [0..<BUTTON_COUNT])
      | B_pins (Guest_store off val n) \<Rightarrow> off \<noteq> FSEL \<or> n \<noteq> 4 \<or> unat (shr val 16 AND 0xff) \<noteq> 22
      | B_pins (Board_drive pin level) \<Rightarrow> pin_valid pin \<and> pin_group pin \<noteq> 22
      | B_set which p \<Rightarrow> True | B_refresh \<Rightarrow> True | B_serve i \<Rightarrow> i < BUTTON_COUNT
      | B_guest (G_read off) \<Rightarrow> True)"

definition of_button :: "nat \<Rightarrow> (nat \<times> bool) list \<Rightarrow> bool list" where
  "of_button i log = map snd (filter (\<lambda>x. fst x = i) log)"

text \<open>
  A button is wired when the pin and the line carry its level, the line is armed, and each of its
  transitions is accounted for: it changed the state, and its interrupt was served or is pending.
\<close>

definition button_wired :: "nat \<Rightarrow> 'h button_session \<Rightarrow> bool" where
  "button_wired i s \<longleftrightarrow>
     (let level = s5l_button_level i (s5l_buttons_held (bs_b s) i); told = False # of_button i (bs_accepted s)
      in line_wired level (line_of (bs_ic s) (s5l_button_line i)) \<and>
         s5l_gpio_pin (bs_gpio s) (s5l_button_pin i) = level \<and>
         last told = s5l_buttons_held (bs_b s) i \<and> distinct_adj told \<and>
         length (of_button i (bs_accepted s)) = count_list (bs_served s) i +
           (if s5l_gpioic_pending (bs_ic s) (s5l_button_line i) then 1 else 0))"

definition session_ok :: "'h button_session \<Rightarrow> bool" where
  "session_ok s \<longleftrightarrow> gpioic_ok (bs_ic s) \<and> gpioic_settled (bs_ic s) \<and> gpio_ok (bs_gpio s) \<and>
     (\<forall>i < BUTTON_COUNT. button_wired i s)"

text \<open>
  A session begins with the buttons released, their pins and lines at rest, the five lines armed by the
  guest (enabled, level-triggered, with the polarity that is not that of the resting level) and nothing
  pending.
\<close>

definition session_starts :: "'h button_session \<Rightarrow> bool" where
  "session_starts s \<longleftrightarrow> gpioic_ok (bs_ic s) \<and> gpioic_settled (bs_ic s) \<and> gpio_ok (bs_gpio s) \<and>
     bs_accepted s = [] \<and> bs_served s = [] \<and> bt_pressed (bs_b s) = 0 \<and>
     (\<forall>i < BUTTON_COUNT. s5l_gpio_pin (bs_gpio s) (s5l_button_pin i) = s5l_button_level i False \<and>
        line_wired (s5l_button_level i False) (line_of (bs_ic s) (s5l_button_line i)) \<and>
        \<not> ln_stat (line_of (bs_ic s) (s5l_button_line i)))"

section \<open>Refreshing the wires\<close>

lemma apply_fold:
  assumes "fold (apply_button b) is (calls, Some g, Some c) = (calls1, g1, c1)"
  shows "g1 = Some (fold (\<lambda>(pin, level) g. snd (s5l_gpio_drive pin level g))
      (map (\<lambda>i. (bw_pin (WIRING ! i), s5l_button_level i (s5l_buttons_held b i))) is) g) \<and>
    c1 = Some (fold (\<lambda>(k, level). s5l_gpioic_set_line k level)
      (map (\<lambda>i. (bw_line (WIRING ! i), s5l_button_level i (s5l_buttons_held b i))) is) c)"
  using assms
  by (induction "is" arbitrary: calls g c)
    (auto simp: apply_button_def drive_pin_def Let_def split_beta)

lemma set_line_same:
  assumes "gpioic_ok c" "gpioic_settled c" "j < LINES" "k < LINES"
    "ln_raw (line_of c j) = level" "ln_driven (line_of c j)"
  shows "line_of (s5l_gpioic_set_line j level c) k = line_of c k"
proof (cases "j = k")
  case True
  have "(line_of c k)\<lparr>ln_raw := level, ln_driven := True\<rparr> = line_of c k"
    using assms(5,6) True by (cases "line_of c k") simp
  moreover have "line_event k (G_line k level) (line_of c k) =
      line_latch ((line_of c k)\<lparr>ln_raw := level, ln_driven := True\<rparr>)"
    using assms(5) True by (auto simp: line_event_def)
  ultimately show ?thesis
    using assms True settled_latch by (simp add: line_of_set_line)
next
  case False
  then show ?thesis using assms by (simp add: line_of_set_line line_event_def)
qed

lemma set_lines_same:
  assumes "\<forall>x \<in> set t. fst x < LINES \<and> ln_raw (line_of c (fst x)) = snd x \<and> ln_driven (line_of c (fst x))"
    and "gpioic_ok c" "gpioic_settled c"
  shows "gpioic_ok (fold (\<lambda>(k, level). s5l_gpioic_set_line k level) t c) \<and>
    gpioic_settled (fold (\<lambda>(k, level). s5l_gpioic_set_line k level) t c) \<and>
    (\<forall>k < LINES. line_of (fold (\<lambda>(k, level). s5l_gpioic_set_line k level) t c) k = line_of c k)"
  using assms
proof (induction t arbitrary: c)
  case (Cons x t)
  obtain j level where x: "x = (j, level)" by (cases x)
  let ?c = "s5l_gpioic_set_line j level c"
  have ok: "gpioic_ok ?c" "gpioic_settled ?c" using gpioic_lines.drive_ok Cons.prems by blast+
  have same: "\<forall>k < LINES. line_of ?c k = line_of c k" using Cons.prems set_line_same x by auto
  have "\<forall>x \<in> set t. fst x < LINES \<and> ln_raw (line_of ?c (fst x)) = snd x \<and> ln_driven (line_of ?c (fst x))"
    using Cons.prems(1) same by simp
  from Cons.IH [OF this ok] show ?case using same x by simp
qed simp

definition pin_table :: "s5l_buttons \<Rightarrow> (u16 \<times> bool) list" where
  "pin_table b = map (\<lambda>i. (bw_pin (WIRING ! i), s5l_button_level i (s5l_buttons_held b i))) [0..<BUTTON_COUNT]"

definition line_table :: "s5l_buttons \<Rightarrow> (nat \<times> bool) list" where
  "line_table b = map (\<lambda>i. (bw_line (WIRING ! i), s5l_button_level i (s5l_buttons_held b i))) [0..<BUTTON_COUNT]"

lemma s5l_buttons_apply_tables:
  obtains calls where "s5l_buttons_apply b (Some g) (Some c) =
    (calls, Some (fold (\<lambda>(pin, level) g. snd (s5l_gpio_drive pin level g)) (pin_table b) g),
     Some (fold (\<lambda>(k, level). s5l_gpioic_set_line k level) (line_table b) c))"
proof -
  obtain calls g1 c1 where r: "fold (apply_button b) [0..<BUTTON_COUNT] ([], Some g, Some c) = (calls, g1, c1)"
    by (rule prod_cases3)
  show ?thesis
    by (rule that [of calls])
      (use apply_fold [OF r] r in \<open>simp only: s5l_buttons_apply_def pin_table_def line_table_def\<close>)
qed

lemma pin_table_pins:
  assumes "gpio_ok g"
  shows "gpio_ok (fold (\<lambda>(pin, level) g. snd (s5l_gpio_drive pin level g)) (pin_table b) g)"
    and "i < 5 \<Longrightarrow> s5l_gpio_pin (fold (\<lambda>(pin, level) g. snd (s5l_gpio_drive pin level g)) (pin_table b) g)
      (s5l_button_pin i) = s5l_button_level i (s5l_buttons_held b i)"
proof -
  show "gpio_ok (fold (\<lambda>(pin, level) g. snd (s5l_gpio_drive pin level g)) (pin_table b) g)"
    by (rule gpio_pins.table_ok [OF assms])
  assume i: "i < 5"
  have "\<forall>x \<in> set (pin_table b). pin_valid (fst x)" by (auto simp: pin_table_def wiring_pin button_pin_valid)
  moreover have "distinct (map fst (pin_table b))"
  proof -
    have "map fst (pin_table b) = [0x1605, 0x1600, 0x1601, 0x1602, 0x1603]"
      by (simp add: pin_table_def WIRING_def upt_rec)
    then show ?thesis by simp
  qed
  moreover have "(s5l_button_pin i, s5l_button_level i (s5l_buttons_held b i)) \<in> set (pin_table b)"
    using i wiring_pin [of i] by (force simp: pin_table_def)
  ultimately show "s5l_gpio_pin (fold (\<lambda>(pin, level) g. snd (s5l_gpio_drive pin level g)) (pin_table b) g)
      (s5l_button_pin i) = s5l_button_level i (s5l_buttons_held b i)"
    by (intro gpio_pins.table_level [OF assms])
qed

lemma refresh_session:
  assumes s: "session_ok s"
  shows "session_ok (button_step serve B_refresh s)"
proof -
  have ic: "gpioic_ok (bs_ic s)" "gpioic_settled (bs_ic s)" and g: "gpio_ok (bs_gpio s)"
    and w: "\<And>i. i < 5 \<Longrightarrow> button_wired i s"
    using s by (auto simp: session_ok_def)
  obtain calls where a: "s5l_buttons_apply (bs_b s) (Some (bs_gpio s)) (Some (bs_ic s)) =
    (calls, Some (fold (\<lambda>(pin, level) g. snd (s5l_gpio_drive pin level g)) (pin_table (bs_b s)) (bs_gpio s)),
     Some (fold (\<lambda>(k, level). s5l_gpioic_set_line k level) (line_table (bs_b s)) (bs_ic s)))"
    by (rule s5l_buttons_apply_tables)
  have t: "fst x < LINES \<and> ln_raw (line_of (bs_ic s) (fst x)) = snd x \<and> ln_driven (line_of (bs_ic s) (fst x))"
    if "x \<in> set (line_table (bs_b s))" for x
  proof -
    obtain i where i: "i < 5" "x = (s5l_button_line i, s5l_button_level i (s5l_buttons_held (bs_b s) i))"
      using \<open>x \<in> set (line_table (bs_b s))\<close> by (auto simp: line_table_def wiring_line)
    have "s5l_button_line i < LINES" using wiring_line [OF i(1)] by simp
    then show ?thesis using i w [OF i(1)] by (simp add: button_wired_def line_wired_def Let_def)
  qed
  note lines = set_lines_same [OF ballI [OF t] ic]
  have "button_wired i (button_step serve B_refresh s)" if "i < 5" for i
  proof -
    have "s5l_button_line i < LINES" using wiring_line [OF that] by simp
    then show ?thesis
      using w [OF that] lines pin_table_pins(2) [OF g that]
      by (simp add: button_step_def a button_wired_def Let_def s5l_gpioic_pending_line)
  qed
  then show ?thesis using lines pin_table_pins(1) [OF g] by (simp add: session_ok_def button_step_def a)
qed

section \<open>The guest serves an interrupt\<close>

lemma of_button_append [simp]: "of_button i (xs @ ys) = of_button i xs @ of_button i ys"
  by (simp add: of_button_def)

lemma service_session:
  assumes s: "session_ok s" and i: "i < 5" and serve: "serves_lines serve"
  shows "session_ok (button_step serve (B_serve i) s)"
proof (cases "s5l_gpioic_pending (bs_ic s) (s5l_button_line i)")
  case True
  have ic: "gpioic_ok (bs_ic s)" "gpioic_settled (bs_ic s)" and g: "gpio_ok (bs_gpio s)"
    and w: "\<And>i. i < 5 \<Longrightarrow> button_wired i s"
    using s by (auto simp: session_ok_def)
  note line = button_line_less [OF i]
  let ?k = "s5l_button_line i"
  have st: "ln_stat (line_of (bs_ic s) ?k)"
    using True line by (simp add: s5l_gpioic_pending_line)
  let ?t = "button_step serve (B_serve i) s"
  have t: "?t = s\<lparr>bs_ic := serve ?k (bs_ic s), bs_served := bs_served s @ [i]\<rparr>"
    using True by (simp add: button_step_def)
  have wi: "line_wired (s5l_button_level i (s5l_buttons_held (bs_b s) i)) (line_of (bs_ic s) ?k)"
    using w [OF i] by (simp add: button_wired_def Let_def)
  note served = serve [unfolded serves_lines_def Let_def, rule_format, OF i ic wi st]
  have "button_wired j ?t" if j: "j < 5" for j
  proof -
    note l = served [THEN conjunct2, THEN conjunct2, rule_format, OF conjunct1 [OF button_line_less [OF j]]]
    show ?thesis
    proof (cases "j = i")
      case True
      then show ?thesis using w [OF i] l line st wi
        by (auto simp: t button_wired_def Let_def s5l_gpioic_pending_line line_wired_def)
    next
      case False
      then have "s5l_button_line j \<noteq> ?k" using wiring_line_eq [OF j i] by simp
      then show ?thesis using w [OF j] l button_line_less [OF j] False
        by (simp add: t button_wired_def Let_def s5l_gpioic_pending_line)
    qed
  qed
  then show ?thesis using served g by (simp add: session_ok_def t)
qed (use s in \<open>simp add: button_step_def\<close>)

section \<open>A request\<close>

lemma held_after:
  assumes "i < 5" "j < 5"
  shows "s5l_buttons_held (b\<lparr>bt_pressed := if p then bt_pressed b OR 2 ^ i else bt_pressed b AND NOT (2 ^ i),
      bt_sets := m, bt_edges := n\<rparr>) j = (if j = i then p else s5l_buttons_held b j)"
  using assms by (auto simp: s5l_buttons_held_bit bit_simps)

lemma held_counters [simp]:
  "s5l_buttons_held (b\<lparr>bt_sets := m\<rparr>) i = s5l_buttons_held b i"
  "s5l_buttons_held (b\<lparr>bt_refused := m\<rparr>) i = s5l_buttons_held b i"
  by (simp_all add: s5l_buttons_held_def)

lemma session_counters:
  assumes "\<And>j. s5l_buttons_held b j = s5l_buttons_held (bs_b s) j" "session_ok s"
  shows "session_ok (s\<lparr>bs_b := b\<rparr>)"
proof -
  have "button_wired i (s\<lparr>bs_b := b\<rparr>) = button_wired i s" for i
    by (simp add: button_wired_def assms(1))
  then show ?thesis using assms(2) by (simp add: session_ok_def)
qed

text \<open>What a request does: it is refused or already satisfied, or it is an accepted transition.\<close>

lemma set_cases:
  assumes s: "session_ok s" and i: "i < 5"
  obtains (same) b where "button_step serve (B_set i p) s = s\<lparr>bs_b := b\<rparr>"
      "\<And>j. s5l_buttons_held b j = s5l_buttons_held (bs_b s) j"
  | (moved) b where "s5l_buttons_held (bs_b s) i \<noteq> p"
      "\<And>j. j < 5 \<Longrightarrow> s5l_buttons_held b j = (if j = i then p else s5l_buttons_held (bs_b s) j)"
      "\<not> s5l_gpioic_pending (bs_ic s) (s5l_button_line i)"
      "button_step serve (B_set i p) s = s\<lparr>bs_b := b,
         bs_gpio := snd (s5l_gpio_drive (s5l_button_pin i) (s5l_button_level i p) (bs_gpio s)),
         bs_ic := s5l_gpioic_set_line (s5l_button_line i) (s5l_button_level i p) (bs_ic s),
         bs_accepted := bs_accepted s @ [(i, p)]\<rparr>"
proof -
  let ?en = "gi_en (bs_ic s) ! (s5l_button_line i div 32) AND shl 1 (s5l_button_line i mod 32) \<noteq> 0"
  consider (held) "s5l_buttons_held (bs_b s) i = p" | (masked) "s5l_buttons_held (bs_b s) i \<noteq> p" "\<not> ?en"
    | (busy) "s5l_buttons_held (bs_b s) i \<noteq> p" ?en "s5l_gpioic_pending (bs_ic s) (s5l_button_line i)"
    | (free) "s5l_buttons_held (bs_b s) i \<noteq> p" ?en "\<not> s5l_gpioic_pending (bs_ic s) (s5l_button_line i)"
    by blast
  then show ?thesis
  proof cases
    case held
    then show ?thesis using i
      by (intro same [of "(bs_b s)\<lparr>bt_sets := bt_sets (bs_b s) + 1\<rparr>"])
        (simp_all add: button_step_def s5l_buttons_set_def Let_def)
  next
    case masked
    then show ?thesis using i
      by (intro same [of "(bs_b s)\<lparr>bt_refused := bt_refused (bs_b s) + 1\<rparr>"])
        (simp_all add: button_step_def s5l_buttons_set_def Let_def wiring_line)
  next
    case busy
    then show ?thesis using i
      by (intro same [of "(bs_b s)\<lparr>bt_refused := bt_refused (bs_b s) + 1\<rparr>"])
        (simp_all add: button_step_def s5l_buttons_set_def Let_def wiring_line)
  next
    case free
    then show ?thesis using i
      by (intro moved [of "(bs_b s)\<lparr>bt_pressed := if p then bt_pressed (bs_b s) OR 2 ^ i
              else bt_pressed (bs_b s) AND NOT (2 ^ i),
            bt_sets := bt_sets (bs_b s) + 1, bt_edges := bt_edges (bs_b s) + 1\<rparr>"])
        (simp_all only: held_after,
         simp_all add: button_step_def s5l_buttons_set_def Let_def wiring_line wiring_pin drive_pin_def split_beta)
  qed
qed

lemma set_session:
  assumes s: "session_ok s"
  shows "session_ok (button_step serve (B_set i p) s)"
proof (cases "i < 5")
  case True
  have ic: "gpioic_ok (bs_ic s)" "gpioic_settled (bs_ic s)" and g: "gpio_ok (bs_gpio s)"
    and w: "\<And>i. i < 5 \<Longrightarrow> button_wired i s"
    using s by (auto simp: session_ok_def)
  from s True show ?thesis
  proof (cases rule: set_cases [where p = p and serve = serve])
    case (same b)
    then show ?thesis using session_counters [OF _ s] by simp
  next
    case (moved b)
    note li = button_line_less [OF True]
    have wi: "line_wired (\<not> s5l_button_level i p) (line_of (bs_ic s) (s5l_button_line i))"
        "length (of_button i (bs_accepted s)) = count_list (bs_served s) i"
        "last (False # of_button i (bs_accepted s)) = (\<not> p)" "distinct_adj (False # of_button i (bs_accepted s))"
      using w [OF True] moved(1,3) s5l_button_level_iff [OF True, of "s5l_buttons_held (bs_b s) i" p]
      by (auto simp: button_wired_def Let_def line_wired_def)
    have idle: "\<not> ln_stat (line_of (bs_ic s) (s5l_button_line i))"
      using moved(3) li by (simp add: s5l_gpioic_pending_line)
    have "button_wired j (button_step serve (B_set i p) s)" if j: "j < 5" for j
    proof -
      have lj: "line_of (bs_ic (button_step serve (B_set i p) s)) (s5l_button_line j) =
          line_event (s5l_button_line j) (G_line (s5l_button_line i) (s5l_button_level i p))
            (line_of (bs_ic s) (s5l_button_line j))"
        using button_line_less [OF j] unfolding moved(4) by (simp add: line_of_set_line [OF ic])
      have pj: "s5l_gpio_pin (bs_gpio (button_step serve (B_set i p) s)) (s5l_button_pin j) =
          (if j = i then s5l_button_level i p else s5l_gpio_pin (bs_gpio s) (s5l_button_pin j))"
        unfolding moved(4)
        by (simp add: s5l_gpio_drive_level [OF g button_pin_valid [OF True] button_pin_valid [OF j]]
            wiring_pin_eq [OF j True])
      show ?thesis
      proof (cases "j = i")
        case same: True
        have "line_wired (s5l_button_level i p) (line_of (bs_ic (button_step serve (B_set i p) s)) (s5l_button_line i)) \<and>
            ln_stat (line_of (bs_ic (button_step serve (B_set i p) s)) (s5l_button_line i))"
          using lj [unfolded same] wi(1) idle
          by (auto simp: line_event_def line_wired_def line_latch_def line_asserting_def)
        moreover have "distinct_adj ((False # of_button i (bs_accepted s)) @ [p])"
          using wi(3,4) by (simp only: distinct_adj_append_iff) simp
        ultimately show ?thesis using same pj wi(2) moved(2) [OF True] moved(4) li
          by (simp add: button_wired_def Let_def s5l_gpioic_pending_line of_button_def)
      next
        case False
        then have "line_of (bs_ic (button_step serve (B_set i p) s)) (s5l_button_line j) =
            line_of (bs_ic s) (s5l_button_line j)"
          using lj wiring_line_eq [OF j True] by (auto simp: line_event_def)
        then show ?thesis using False pj w [OF j] moved(2) [OF j] moved(4) button_line_less [OF j]
          by (simp add: button_wired_def Let_def s5l_gpioic_pending_line of_button_def)
      qed
    qed
    moreover have "gpioic_ok (bs_ic (button_step serve (B_set i p) s)) \<and> gpioic_settled (bs_ic (button_step serve (B_set i p) s)) \<and>
        gpio_ok (bs_gpio (button_step serve (B_set i p) s))"
      using gpioic_lines.drive_ok ic s5l_gpio_drive_ok [OF g] unfolding moved(4) by simp
    ultimately show ?thesis by (simp add: session_ok_def)
  qed
next
  case False
  then have "button_step serve (B_set i p) s = s\<lparr>bs_b := (bs_b s)\<lparr>bt_refused := bt_refused (bs_b s) + 1\<rparr>\<rparr>"
    by (simp add: button_step_def s5l_buttons_set_def Let_def)
  then show ?thesis using session_counters [OF _ s] by simp
qed

section \<open>Other traffic and the start\<close>

lemma guest_session:
  assumes s: "session_ok s" and u: "unrelated (B_guest ev)"
  shows "session_ok (button_step serve (B_guest ev) s)"
proof -
  have ic: "gpioic_ok (bs_ic s)" "gpioic_settled (bs_ic s)" using s by (auto simp: session_ok_def)
  have same: "line_of (gpioic_event ev (bs_ic s)) (s5l_button_line i) = line_of (bs_ic s) (s5l_button_line i)"
    if i: "i < 5" for i
    unfolding line_of_event [OF ic conjunct1 [OF button_line_less [OF i]]]
    using u button_line_less [OF i] i
    by (auto simp: unrelated_def line_event_def Let_def split: gpio_event.splits)
  have "button_wired i (button_step serve (B_guest ev) s) = button_wired i s" if "i < 5" for i
    using button_line_less [OF that]
    by (simp add: button_wired_def button_step_def same [OF that] s5l_gpioic_pending_line)
  then show ?thesis
    using s gpioic_ok_event [OF ic(1)] gpioic_settled_event [OF ic]
    by (simp add: session_ok_def button_step_def)
qed

lemma pins_session:
  assumes s: "session_ok s" and u: "unrelated (B_pins a)"
  shows "session_ok (button_step serve (B_pins a) s)"
proof -
  have g: "gpio_ok (bs_gpio s)" using s by (simp add: session_ok_def)
  have "gpio_ok (snd (pin_act a (bs_gpio s)))"
    by (cases a) (simp_all add: pin_act_def s5l_gpio_write_ok s5l_gpio_drive_ok g)
  moreover have "s5l_gpio_pin (snd (pin_act a (bs_gpio s))) (s5l_button_pin i) = s5l_gpio_pin (bs_gpio s) (s5l_button_pin i)"
    if i: "i < 5" for i
  proof -
    have "pin_group (s5l_button_pin i) = 22" using wiring_pin [OF i] by metis
    then show ?thesis using u
      by (cases a) (auto simp: pin_act_def unrelated_def fsel_drives_def
          s5l_gpio_write_level [OF g button_pin_valid [OF i]] s5l_gpio_drive_level [OF g _ button_pin_valid [OF i]])
  qed
  ultimately have "button_wired i (button_step serve (B_pins a) s) = button_wired i s"
    if "i < 5" for i
    using that by (simp add: button_step_def button_wired_def)
  then show ?thesis using s \<open>gpio_ok (snd (pin_act a (bs_gpio s)))\<close>
    by (auto simp: session_ok_def button_step_def)
qed

lemma step_session:
  "serves_lines serve \<Longrightarrow> session_ok s \<Longrightarrow> unrelated e \<Longrightarrow> session_ok (button_step serve e s)"
  by (cases e)
    (auto simp: set_session refresh_session guest_session pins_session
      intro: service_session simp: unrelated_def [of "B_serve i" for i])

lemma start_session: "session_starts s \<Longrightarrow> session_ok s"
  using button_line_less
  by (auto simp: session_starts_def session_ok_def button_wired_def Let_def s5l_gpioic_pending_line
      s5l_buttons_held_bit of_button_def)

lemma set_lines_run:
  "fold (\<lambda>(k, level). s5l_gpioic_set_line k level) t c = gpioic_run (map (\<lambda>(k, level). G_line k level) t) c"
  by (induction t arbitrary: c) (auto simp: gpioic_event_def)

lemma session_run:
  "serves_lines serve \<Longrightarrow> session_ok s \<Longrightarrow> \<forall>e \<in> set es. unrelated e \<Longrightarrow> session_ok (fold (button_step serve) es s)"
  by (induction es arbitrary: s) (simp_all add: step_session)

text \<open>
  C38: No accepted transition of a button goes unannounced, and none is lost on the wire. From the moment
  the guest has armed the lines, over any requests of the host, refreshes, interrupts served and traffic
  of other lines and pins: the transitions accepted for a button alternate between pressed and released;
  each has raised an interrupt of its own, served or still pending; and the pin carries the level of the
  last one, so whoever samples it, however long after the interrupt, reads the last accepted state. Serving the
  interrupt leaves nothing pending. A request is refused only while the interrupt of the last
  transition is pending, and then changes nothing on the pin or the line. When the guest looks at the
  pin is up to the guest: one accepted release before it looks and it sees no press.
\<close>

theorem every_transition_announced:
  assumes "serves_lines serve" and "session_starts s0" and "\<forall>e \<in> set es. unrelated e" and "i < BUTTON_COUNT"
    and "s = fold (button_step serve) es s0"
  shows "distinct_adj (False # of_button i (bs_accepted s)) \<and>
    length (of_button i (bs_accepted s)) = count_list (bs_served s) i +
      (if s5l_gpioic_pending (bs_ic s) (s5l_button_line i) then 1 else 0) \<and>
    s5l_gpio_pin (bs_gpio s) (s5l_button_pin i) =
      s5l_button_level i (last (False # of_button i (bs_accepted s))) \<and>
    \<not> s5l_gpioic_pending (bs_ic (button_step serve (B_serve i) s)) (s5l_button_line i) \<and>
    (case s5l_buttons_set i p (bs_b s) (Some (bs_gpio s)) (Some (bs_ic s)) of
       (accepted, calls, b, gpio, ic) \<Rightarrow>
         (accepted \<longleftrightarrow> s5l_buttons_held (bs_b s) i = p \<or> \<not> s5l_gpioic_pending (bs_ic s) (s5l_button_line i)) \<and>
         (\<not> accepted \<longrightarrow> gpio = Some (bs_gpio s) \<and> ic = Some (bs_ic s)))"
proof -
  have s: "session_ok s"
    unfolding assms(5) by (rule session_run [OF assms(1) start_session [OF assms(2)] assms(3)])
  then have w: "button_wired i s" using assms(4) by (simp add: session_ok_def)
  note li = button_line_less [OF assms(4)]
  have ic: "gpioic_ok (bs_ic s)" "gpioic_settled (bs_ic s)" using s by (auto simp: session_ok_def)
  have en: "gi_en (bs_ic s) ! (s5l_button_line i div 32) AND 2 ^ (s5l_button_line i mod 32) \<noteq> 0"
    using w by (auto simp: button_wired_def line_wired_def Let_def line_of_def lane_def bit_test)
  have idle: "\<not> s5l_gpioic_pending (bs_ic (button_step serve (B_serve i) s)) (s5l_button_line i)"
  proof (cases "s5l_gpioic_pending (bs_ic s) (s5l_button_line i)")
    case True
    then have st: "ln_stat (line_of (bs_ic s) (s5l_button_line i))" using li by (simp add: s5l_gpioic_pending_line)
    have wi: "line_wired (s5l_button_level i (s5l_buttons_held (bs_b s) i)) (line_of (bs_ic s) (s5l_button_line i))"
      using w by (simp add: button_wired_def Let_def)
    note served = assms(1) [unfolded serves_lines_def Let_def, rule_format, OF assms(4) ic wi st]
    show ?thesis using True li served by (simp add: button_step_def s5l_gpioic_pending_line)
  qed (simp add: button_step_def)
  have set: "case s5l_buttons_set i p (bs_b s) (Some (bs_gpio s)) (Some (bs_ic s)) of
       (accepted, calls, b, gpio, ic) \<Rightarrow>
         (accepted \<longleftrightarrow> s5l_buttons_held (bs_b s) i = p \<or> \<not> s5l_gpioic_pending (bs_ic s) (s5l_button_line i)) \<and>
         (\<not> accepted \<longrightarrow> gpio = Some (bs_gpio s) \<and> ic = Some (bs_ic s))"
    using assms(4) en by (simp add: s5l_buttons_set_def Let_def wiring_line split_beta)
  show ?thesis using w idle set by (simp add: button_wired_def Let_def)
qed

text \<open>
  For the witness: the board states its wires, the guest's stores configure the five lines as soc.h
  records them, and an interrupt is served by two stores, the inverted polarity and the acknowledgement.
\<close>

definition demo_service :: line_service where
  "demo_service k c =
     s5l_gpioic_write 0xa4 (2 ^ (k mod 32)) (s5l_gpioic_write 0x84 (gi_level c ! 1 XOR 2 ^ (k mod 32)) c)"

definition button_boot :: "'h button_session" where
  "button_boot =
     (let (calls, gpio, ic) = s5l_buttons_apply s5l_buttons_reset (Some s5l_gpio_reset) (Some s5l_gpioic_reset)
      in \<lparr>bs_b = s5l_buttons_reset, bs_gpio = the gpio,
          bs_ic = gpioic_run [G_write 0xe4 0x2f00, G_write 0x84 0x2900, G_write 0xa4 0x2f00, G_write 0xc4 0x2f00] (the ic),
          bs_accepted = [], bs_served = []\<rparr>)"

lemma lane_group1: "k div 32 = 1 \<Longrightarrow> lane xs k = bit (xs ! 1) (k mod 32)"
  by (simp add: lane_def)

lemma line_of_service:
  assumes c: "gpioic_ok c" "gpioic_settled c" and k: "k < LINES" "k div 32 = 1" and j: "j < LINES"
    and w: "line_wired level (line_of c k)" "ln_stat (line_of c k)"
  shows "line_of (demo_service k c) j =
    (if j = k then (line_of c k)\<lparr>ln_level := \<not> ln_level (line_of c k), ln_stat := False\<rparr> else line_of c j)"
proof -
  let ?v = "gi_level c ! 1 XOR 2 ^ (k mod 32)"
  let ?c = "s5l_gpioic_write 0x84 ?v c"
  have ok: "gpioic_ok ?c" by (rule gpioic_ok_write [OF c(1)])
  have jk: "j = k \<longleftrightarrow> j div 32 = 1 \<and> j mod 32 = k mod 32" using k(2) by (metis mod_div_mult_eq)
  have lv: "bit ?v (j mod 32) \<longleftrightarrow> (if j = k then \<not> ln_level (line_of c k) else ln_level (line_of c j))"
    if "j div 32 = 1"
    using k(2) that by (auto simp: bit_simps line_of_def lane_group1 jk)
  have keep: "(line_of c j)\<lparr>ln_level := ln_level (line_of c j)\<rparr> = line_of c j" by simp
  have one: "line_of ?c j = (if j div 32 = 1 then line_latch ((line_of c j)\<lparr>ln_level := bit ?v (j mod 32)\<rparr>) else line_of c j)"
    by (simp add: line_of_write [OF c(1) j] line_event_def Let_def)
  have two: "line_of (demo_service k c) j =
      (if j div 32 = 1 then line_latch ((line_of ?c j)\<lparr>ln_stat := ln_stat (line_of ?c j) \<and> j \<noteq> k\<rparr>) else line_of ?c j)"
    unfolding demo_service_def line_of_write [OF ok j] using jk j
    by (auto simp: line_event_def Let_def bit_simps)
  have latch: "line_latch (line_of c j) = line_of c j" by (rule settled_latch [OF c(2) j])
  show ?thesis
  proof (cases "j = k")
    case True
    then show ?thesis unfolding two one using lv k(2) w
      by (auto simp: line_latch_def line_asserting_def line_wired_def)
  next
    case False
    then show ?thesis unfolding two one using lv latch jk
      by (cases "j div 32 = 1") simp_all
  qed
qed

lemma demo_service_ok:
  assumes "gpioic_ok c" "gpioic_settled c"
  shows "gpioic_ok (demo_service k c) \<and> gpioic_settled (demo_service k c)"
proof -
  have w: "gpioic_ok (s5l_gpioic_write off v c) \<and> gpioic_settled (s5l_gpioic_write off v c)"
    if "gpioic_ok c \<and> gpioic_settled c" for off v c
    using gpioic_ok_event [of c "G_write off v"] gpioic_settled_event [of c "G_write off v"] that
    by (simp add: gpioic_event_def)
  show ?thesis unfolding demo_service_def using assms by (intro w) simp
qed

lemma demo_serves: "serves_lines demo_service"
proof -
  have "line_of (demo_service k c) j =
      (if j = k then (line_of c k)\<lparr>ln_level := \<not> ln_level (line_of c k), ln_stat := False\<rparr> else line_of c j)"
    if "gpioic_ok c" "gpioic_settled c" "line_wired level (line_of c k)" "ln_stat (line_of c k)"
      "k = s5l_button_line i" "i < 5" "j < LINES" for c k i j level
    using that button_line_less [OF that(6)] by (intro line_of_service) simp_all
  then show ?thesis unfolding serves_lines_def Let_def using demo_service_ok by blast
qed

definition boot_events :: "gpio_event list" where
  "boot_events = map (\<lambda>(k, level). G_line k level) (line_table s5l_buttons_reset) @
     [G_write 0xe4 0x2f00, G_write 0x84 0x2900, G_write 0xa4 0x2f00, G_write 0xc4 0x2f00]"

lemma boot_events_eval:
  "boot_events = [G_line 45 False, G_line 40 False, G_line 41 True, G_line 42 True, G_line 43 False,
     G_write 0xe4 0x2f00, G_write 0x84 0x2900, G_write 0xa4 0x2f00, G_write 0xc4 0x2f00]"
  by code_simp

lemma boot_starts: "session_starts (button_boot :: 'h button_session)"
proof -
  let ?boot = "button_boot :: 'h button_session"
  obtain calls where a: "s5l_buttons_apply s5l_buttons_reset (Some (s5l_gpio_reset :: 'h s5l_gpio)) (Some s5l_gpioic_reset) =
    (calls, Some (fold (\<lambda>(pin, level) g. snd (s5l_gpio_drive pin level g)) (pin_table s5l_buttons_reset) s5l_gpio_reset),
     Some (fold (\<lambda>(k, level). s5l_gpioic_set_line k level) (line_table s5l_buttons_reset) s5l_gpioic_reset))"
    by (rule s5l_buttons_apply_tables)
  have ic: "bs_ic ?boot = gpioic_run boot_events s5l_gpioic_reset"
    by (simp add: button_boot_def a set_lines_run boot_events_def)
  have g: "gpio_ok (s5l_gpio_reset :: 'h s5l_gpio)" by (simp add: gpio_ok_def s5l_gpio_reset_def)
  note run = gpioic_run_lines [OF gpioic_ok_reset gpioic_settled_reset, of boot_events]
  have "s5l_gpio_pin (bs_gpio ?boot) (s5l_button_pin i) = s5l_button_level i False \<and>
      line_wired (s5l_button_level i False) (line_of (bs_ic ?boot) (s5l_button_line i)) \<and>
      \<not> ln_stat (line_of (bs_ic ?boot) (s5l_button_line i))" if i: "i < 5" for i
  proof -
    have l: "line_of (bs_ic ?boot) (s5l_button_line i) = fold (line_event (s5l_button_line i)) boot_events line_idle"
      unfolding ic using run button_line_less [OF i] by (simp add: line_of_reset)
    have "line_wired (s5l_button_level i False) (fold (line_event (s5l_button_line i)) boot_events line_idle) \<and>
        \<not> ln_stat (fold (line_event (s5l_button_line i)) boot_events line_idle)"
      using less_5 [OF i] unfolding boot_events_eval
      by (elim disjE; simp add: s5l_button_line_def s5l_button_level_def WIRING_def line_event_def line_idle_def
          line_latch_def line_asserting_def line_wired_def Let_def bit_simps)
    moreover have "s5l_buttons_held s5l_buttons_reset i = False"
      by (simp add: s5l_buttons_held_def s5l_buttons_reset_def)
    moreover have "s5l_gpio_pin (bs_gpio ?boot) (s5l_button_pin i) =
        s5l_button_level i (s5l_buttons_held s5l_buttons_reset i)"
      using pin_table_pins(2) [OF g i] by (simp add: button_boot_def a)
    ultimately show ?thesis using l by simp
  qed
  moreover have "bs_b ?boot = s5l_buttons_reset" "bs_accepted ?boot = []" "bs_served ?boot = []"
    by (simp_all add: button_boot_def a)
  moreover have "gpio_ok (bs_gpio ?boot)"
    using pin_table_pins(1) [OF g] by (simp add: button_boot_def a)
  ultimately show ?thesis using run by (simp add: session_starts_def ic s5l_buttons_reset_def)
qed

lemma demo_unrelated:
  "\<forall>e \<in> set [B_set 0 True, B_guest (G_line 155 True), B_serve 0, B_refresh]. unrelated e"
proof -
  have "(155 :: nat) \<notin> set (map s5l_button_line [0..<5])" by code_simp
  then show ?thesis by (simp add: unrelated_def del: set_map set_upt)
qed

theorem every_transition_announced_witness:
  "s5l_gpio_pin (bs_gpio (fold (button_step demo_service) [B_set 0 True, B_guest (G_line 155 True), B_serve 0, B_refresh]
      (button_boot :: unit button_session))) (s5l_button_pin 0) =
   s5l_button_level 0 (last (False # of_button 0 (bs_accepted (fold (button_step demo_service)
     [B_set 0 True, B_guest (G_line 155 True), B_serve 0, B_refresh] (button_boot :: unit button_session)))))"
  by (rule every_transition_announced [OF demo_serves boot_starts demo_unrelated _ refl,
        THEN conjunct2, THEN conjunct2, THEN conjunct1]) simp

end
