(* ===== verification/Machine_Bus.thy ===== *)
theory Machine_Bus
  imports Address_Map Ram_Watch Vic Timer Power_Gates Uart Spi Pl080 Buttons
begin

text \<open>
  The physical bus of the machine (core/src/soc/machine.c): the order in which an access is offered
  to RAM, the devices and the stub windows, what each of them does with it, the DMA request lines
  and the host pointers into RAM. The devices modelled in their own theories are called as the code
  calls them. The remaining devices (display, television encoder, graphics core, I2C, I2S, USB
  and NOR) are the state \<open>'x\<close> with the operations of \<open>soc_rest\<close>, parameters of the model.
\<close>

unbundle bit_operations_syntax

section \<open>The machine\<close>

record 'x s5l8900 =
  m_ram :: "u8 list"
  m_ram_base :: u32
  m_ram_size :: u32
  m_ram_watch :: "arm_ram_watch option"
  m_vic0 :: s5l_vic
  m_vic1 :: s5l_vic
  m_timer :: s5l_timer
  m_power :: s5l_power
  m_uart0 :: s5l_uart
  m_uart4 :: s5l_uart
  m_spi0 :: s5l_spi
  m_spi1 :: s5l_spi
  m_dmac0 :: s5l_pl080
  m_dmac1 :: s5l_pl080
  m_gpioic :: s5l_gpioic
  m_gpio :: "(bool \<Rightarrow> 'x \<Rightarrow> 'x) s5l_gpio"
  m_buttons :: s5l_buttons
  m_nor_size :: u32
  m_stubs :: "s5l_stub list"
  m_unmapped_reads :: u64
  m_unmapped_writes :: u64
  m_unmapped_addr :: "u32 list"
  m_trace_devices :: bool
  m_dev_log :: "(u32 \<times> u32 \<times> bool) list"
  m_stub_declare_failures :: u64
  m_level_dirty :: bool
  m_restart_requested :: bool
  m_dma_access_active :: bool
  m_rest :: 'x

datatype rest_window = W_clcd | W_tv_ctrl | W_tv_mixer | W_tv_sdo | W_mbx
  | W_i2c0 | W_i2c1 | W_i2s0 | W_i2s1 | W_usbotg | W_nor

text \<open>
  \<open>r_mbx_write\<close> is the whole effect of a store to the graphics core, which reaches RAM through the
  machine's bus; \<open>r_refill\<close> is the host callback that pushes queued bytes into uart4.
\<close>

record 'x soc_rest =
  r_read :: "rest_window \<Rightarrow> u32 \<Rightarrow> nat \<Rightarrow> 'x \<Rightarrow> u32 \<times> 'x"
  r_write :: "rest_window \<Rightarrow> u32 \<Rightarrow> u32 \<Rightarrow> nat \<Rightarrow> 'x \<Rightarrow> 'x"
  r_mbx_write :: "u32 \<Rightarrow> u32 \<Rightarrow> 'x s5l8900 \<Rightarrow> 'x s5l8900"
  r_i2s_ready :: "nat \<Rightarrow> bool \<Rightarrow> 'x \<Rightarrow> bool"
  r_spi0 :: "'x spi_wiring"
  r_spi1 :: "'x spi_wiring"
  r_uart4_tx :: "(u8 \<Rightarrow> 'x \<Rightarrow> 'x) option"
  r_refill :: "('x s5l8900 \<Rightarrow> 'x s5l8900) option"

text \<open>A watcher of a GPIO pin acts on the remaining devices; the calls are made in order.\<close>

definition make_calls :: "((bool \<Rightarrow> 'x \<Rightarrow> 'x) \<times> bool) list \<Rightarrow> 'x s5l8900 \<Rightarrow> 'x s5l8900" where
  "make_calls calls m = m\<lparr>m_rest := fold (\<lambda>(changed, level). changed level) calls (m_rest m)\<rparr>"

section \<open>Stubs and diagnostics\<close>

definition in_ram :: "'x s5l8900 \<Rightarrow> u32 \<Rightarrow> nat \<Rightarrow> bool" where
  "in_ram m a len \<longleftrightarrow>
     (if a < m_ram_base m then False else unat (a - m_ram_base m) + len \<le> unat (m_ram_size m))"

text \<open>\<open>got\<close>: the allocation of the registers succeeded.\<close>

definition s5l8900_add_stub ::
  "bool \<Rightarrow> u32 \<Rightarrow> u32 \<Rightarrow> string \<Rightarrow> 'x s5l8900 \<Rightarrow> bool \<times> 'x s5l8900" where
  "s5l8900_add_stub got base size' name m =
     (if length (m_stubs m) \<ge> 16 \<or> size' = 0 then (False, m)
      else if unat base + unat size' > 0x100000000 then (False, m)
      else if list_ex (\<lambda>w. s5l8900_overlaps base size' (win_base w) (win_size w)) DEVICE_WINDOWS then (False, m)
      else if list_ex (\<lambda>s. s5l8900_overlaps base size' (st_base s) (st_size s)) (m_stubs m) then (False, m)
      else if s5l8900_overlaps base size' (m_ram_base m) (m_ram_size m) then (False, m)
      else
        let nregs = (unat size' + 3) div 4
        in if nregs > 0xffffffff then (False, m)
           else if \<not> got then (False, m)
           else (True, m\<lparr>m_stubs := m_stubs m @
                  [\<lparr>st_base = base, st_size = size', st_name = name, st_regs = replicate nregs 0,
                    st_nregs = of_nat nregs, st_reads = 0, st_writes = 0, st_oob = 0\<rparr>]\<rparr>))"

text \<open>
  The machine as it is built, or \<open>None\<close> when it is refused: \<open>got\<close> says which allocations succeed, those
  of RAM and of the remaining devices first and then one per stub; \<open>x\<close> is the reset state of the
  remaining devices and \<open>touch\<close> what the touch controller does when one of its three pins moves.
\<close>

definition BOARD_STUBS :: "(u32 \<times> string) list" where
  "BOARD_STUBS = [(0x3c500000, ''clkrstgen''), (0x38100000, ''miu''), (0x38e02000, ''edgeic''), (0x3d200000, ''spi2'')]"

definition declare_stub :: "bool \<Rightarrow> u32 \<Rightarrow> string \<Rightarrow> 'x s5l8900 \<Rightarrow> 'x s5l8900" where
  "declare_stub got base name m =
     (let (added, m1) = s5l8900_add_stub got base 0x1000 name m
      in if added then m1 else m1\<lparr>m_stub_declare_failures := m_stub_declare_failures m1 + 1\<rparr>)"

definition subscribe :: "u16 \<Rightarrow> (bool \<Rightarrow> 'x \<Rightarrow> 'x) \<Rightarrow> 'x s5l8900 \<Rightarrow> 'x s5l8900" where
  "subscribe pin changed m =
     (let (added, g) = s5l_gpio_watch pin (Some changed) (m_gpio m); m1 = m\<lparr>m_gpio := g\<rparr>
      in if added then m1 else m1\<lparr>m_stub_declare_failures := m_stub_declare_failures m1 + 1\<rparr>)"

definition s5l8900_init ::
  "(nat \<Rightarrow> bool) \<Rightarrow> (u16 \<Rightarrow> bool \<Rightarrow> 'x \<Rightarrow> 'x) \<Rightarrow> 'x \<Rightarrow> u32 \<Rightarrow> u32 \<Rightarrow> 'x s5l8900 option" where
  "s5l8900_init got touch x ram_base ram_size =
     (if ram_size = 0 \<or> unat ram_base + unat ram_size > 0x100000000 \<or>
         s5l8900_ram_conflict ram_base ram_size \<noteq> None then None
      else if \<not> got 0 then None
      else
        let pins = snd (s5l_buttons_apply s5l_buttons_reset (Some s5l_gpio_reset) (Some s5l_gpioic_reset));
            spi = fst (s5l_spi_reset :: s5l_spi \<times> unit spi_wiring);
            m = \<lparr>m_ram = replicate (unat ram_size) 0, m_ram_base = ram_base, m_ram_size = ram_size,
                 m_ram_watch = None, m_vic0 = s5l_vic_reset, m_vic1 = s5l_vic_reset, m_timer = s5l_timer_reset,
                 m_power = s5l_power_reset, m_uart0 = s5l_uart_reset, m_uart4 = s5l_uart_reset,
                 m_spi0 = spi\<lparr>sp_cs := 1\<rparr>, m_spi1 = spi, m_dmac0 = s5l_pl080_reset,
                 m_dmac1 = s5l_pl080_reset, m_gpioic = the (snd pins), m_gpio = the (fst pins), m_buttons = s5l_buttons_reset,
                 m_nor_size = 0x00100000, m_stubs = [], m_unmapped_reads = 0,
                 m_unmapped_writes = 0, m_unmapped_addr = [], m_trace_devices = False, m_dev_log = [],
                 m_stub_declare_failures = 0, m_level_dirty = False, m_restart_requested = False,
                 m_dma_access_active = False, m_rest = x\<rparr>;
            m1 = foldl (\<lambda>m pin. subscribe pin (touch pin) m) m [0x0606, 0x1800, 0x0701]
        in Some ((foldl (\<lambda>m i. declare_stub (got (Suc i)) (fst (BOARD_STUBS ! i)) (snd (BOARD_STUBS ! i)) m) m1 [0..<4])
                  \<lparr>m_level_dirty := True\<rparr>))"

text \<open>The index of the first stub whose window holds the access.\<close>

definition find_stub :: "'x s5l8900 \<Rightarrow> u32 \<Rightarrow> nat \<Rightarrow> nat option" where
  "find_stub m a bytes =
     find (\<lambda>i. in_window a bytes (st_base (m_stubs m ! i)) (st_size (m_stubs m ! i))) [0..<length (m_stubs m)]"

definition note_unmapped :: "u32 \<Rightarrow> 'x s5l8900 \<Rightarrow> 'x s5l8900" where
  "note_unmapped addr m =
     (let page = addr AND NOT 0xfff
      in if page \<in> set (m_unmapped_addr m) then m
         else if length (m_unmapped_addr m) < 32 then m\<lparr>m_unmapped_addr := m_unmapped_addr m @ [page]\<rparr>
         else m)"

definition note_device :: "u32 \<Rightarrow> u32 \<Rightarrow> bool \<Rightarrow> 'x s5l8900 \<Rightarrow> 'x s5l8900" where
  "note_device addr val is_write m =
     (if \<not> m_trace_devices m \<or> length (m_dev_log m) \<ge> 256 then m
      else m\<lparr>m_dev_log := m_dev_log m @ [(addr, val, is_write)]\<rparr>)"

section \<open>Decoding an access\<close>

text \<open>The branches of the two if-chains, which test the same windows in the same order.\<close>

datatype target = T_uart0 u32 | T_uart4 u32 | T_vic0 u32 | T_vic1 u32 | T_timer u32 | T_wdt | T_power u32
  | T_spi0 u32 | T_spi1 u32 | T_dmac0 u32 | T_dmac1 u32 | T_gpioic u32 | T_gpio u32 | T_rest rest_window u32

definition narrow :: "nat \<Rightarrow> bool" where
  "narrow n \<longleftrightarrow> n = 1 \<or> n = 2 \<or> n = 4"

definition decode :: "u32 \<Rightarrow> u32 \<Rightarrow> nat \<Rightarrow> target option" where
  "decode nor_size a n =
     (if narrow n \<and> a AND 3 = 0 \<and> in_dev a n 0x3cc00000 then Some (T_uart0 (a - 0x3cc00000))
      else if narrow n \<and> a AND 3 = 0 \<and> in_dev a n 0x3cc10000 then Some (T_uart4 (a - 0x3cc10000))
      else if mmio_word a n 0x38e00000 0x1000 then Some (T_vic0 (a - 0x38e00000))
      else if mmio_word a n 0x38e01000 0x1000 then Some (T_vic1 (a - 0x38e01000))
      else if mmio_word a n 0x38900000 0x1000 then Some (T_rest W_clcd (a - 0x38900000))
      else if narrow n \<and> in_window a n 0x39100000 0x1000 then Some (T_rest W_tv_ctrl (a - 0x39100000))
      else if narrow n \<and> in_window a n 0x39200000 0x1000 then Some (T_rest W_tv_mixer (a - 0x39200000))
      else if narrow n \<and> in_window a n 0x39300000 0x1000 then Some (T_rest W_tv_sdo (a - 0x39300000))
      else if mmio_word a n 0x3e200000 0x11000 then Some (T_timer (a - 0x3e200000))
      else if mmio_word a n 0x3e300000 0x1000 then Some T_wdt
      else if mmio_word a n 0x39a00000 0x80 then Some (T_power (a - 0x39a00000))
      else if mmio_word a n 0x3b000000 0x01000000 then Some (T_rest W_mbx (a - 0x3b000000))
      else if mmio_word a n 0x39a00080 0xf80 then Some (T_gpioic (a - 0x39a00000))
      else if narrow n \<and> in_dev a n 0x3e400000 then Some (T_gpio (a - 0x3e400000))
      else if mmio_word a n 0x3c600000 0x1000 then Some (T_rest W_i2c0 (a - 0x3c600000))
      else if mmio_word a n 0x3c900000 0x1000 then Some (T_rest W_i2c1 (a - 0x3c900000))
      else if mmio_data a n 0x3ca00000 0x1000 then Some (T_rest W_i2s0 (a - 0x3ca00000))
      else if mmio_data a n 0x3cd00000 0x1000 then Some (T_rest W_i2s1 (a - 0x3cd00000))
      else if mmio_data a n 0x3c300000 0x1000 then Some (T_spi0 (a - 0x3c300000))
      else if mmio_data a n 0x3ce00000 0x1000 then Some (T_spi1 (a - 0x3ce00000))
      else if mmio_word a n 0x38400000 0x1000 then Some (T_rest W_usbotg (a - 0x38400000))
      else if mmio_word a n 0x38200000 0x1000 then Some (T_dmac0 (a - 0x38200000))
      else if mmio_word a n 0x39900000 0x1000 then Some (T_dmac1 (a - 0x39900000))
      else if narrow n \<and> in_window a n 0x28000000 nor_size then Some (T_rest W_nor (a - 0x28000000))
      else None)"

section \<open>Reads\<close>

definition device_read :: "'x soc_rest \<Rightarrow> target \<Rightarrow> nat \<Rightarrow> 'x s5l8900 \<Rightarrow> u32 \<times> 'x s5l8900" where
  "device_read R t n m =
     (case t of
        T_uart0 off \<Rightarrow> let (v, u) = s5l_uart_read off (m_uart0 m) in (v, m\<lparr>m_uart0 := u\<rparr>)
      | T_uart4 off \<Rightarrow>
          let (v, u) = s5l_uart_read off (m_uart4 m); m1 = m\<lparr>m_uart4 := u\<rparr>
          in (v, if off = 0x24 \<and> u_rx_count u < u_rx_count (m_uart4 m) \<and> m_dma_access_active m
                 then (case r_refill R of None \<Rightarrow> m1 | Some refill \<Rightarrow> refill m1) else m1)
      | T_vic0 off \<Rightarrow>
          (if off = 0xf00 then
             let v = s5l_vic_vectaddr (m_vic0 m) 0
             in (if v = 0 then s5l_vic_vectaddr (m_vic1 m) 32 else v, m)
           else (s5l_vic_read (m_vic0 m) off, m))
      | T_vic1 off \<Rightarrow> (if off = 0xf00 then s5l_vic_vectaddr (m_vic1 m) 32 else s5l_vic_read (m_vic1 m) off, m)
      | T_timer off \<Rightarrow> (s5l_timer_read (m_timer m) off, m)
      | T_wdt \<Rightarrow> (0, m)
      | T_power off \<Rightarrow> (s5l_power_read (m_power m) off, m)
      | T_spi0 off \<Rightarrow>
          let (v, b, x) = s5l_spi_read (r_spi0 R) off (m_spi0 m) (m_rest m) in (v, m\<lparr>m_spi0 := b, m_rest := x\<rparr>)
      | T_spi1 off \<Rightarrow>
          let (v, b, x) = s5l_spi_read (r_spi1 R) off (m_spi1 m) (m_rest m) in (v, m\<lparr>m_spi1 := b, m_rest := x\<rparr>)
      | T_dmac0 off \<Rightarrow> let (v, d) = s5l_pl080_read off (m_dmac0 m) in (v, m\<lparr>m_dmac0 := d\<rparr>)
      | T_dmac1 off \<Rightarrow> let (v, d) = s5l_pl080_read off (m_dmac1 m) in (v, m\<lparr>m_dmac1 := d\<rparr>)
      | T_gpioic off \<Rightarrow> let (v, g) = s5l_gpioic_read off (m_gpioic m) in (v, m\<lparr>m_gpioic := g\<rparr>)
      | T_gpio off \<Rightarrow> (s5l_gpio_read (m_gpio m) off n, m)
      | T_rest w off \<Rightarrow> let (v, x) = r_read R w off n (m_rest m) in (v, m\<lparr>m_rest := x\<rparr>))"

definition ram_offset :: "'x s5l8900 \<Rightarrow> u32 \<Rightarrow> nat" where
  "ram_offset m a = unat (a - m_ram_base m)"

definition stub_touch_read :: "nat \<Rightarrow> 'x s5l8900 \<Rightarrow> 'x s5l8900" where
  "stub_touch_read i m =
     m\<lparr>m_stubs := (m_stubs m)[i := (m_stubs m ! i)\<lparr>st_reads := st_reads (m_stubs m ! i) + 1\<rparr>]\<rparr>"

definition bus_read :: "'x soc_rest \<Rightarrow> 'x s5l8900 \<Rightarrow> u32 \<Rightarrow> nat \<Rightarrow> u32 \<times> 'x s5l8900" where
  "bus_read R m addr n =
     (if in_ram m addr n then (le_word (take n (drop (ram_offset m addr) (m_ram m))), m)
      else
        let m0 = m\<lparr>m_level_dirty := True\<rparr>
        in case decode (m_nor_size m) addr n of
             Some t \<Rightarrow> let (v, m1) = device_read R t n m0 in (v, note_device addr v False m1)
           | None \<Rightarrow>
               (case find_stub m0 addr n of
                  None \<Rightarrow>
                    (0, note_device addr 0 False
                          (note_unmapped addr (m0\<lparr>m_unmapped_reads := m_unmapped_reads m0 + 1\<rparr>)))
                | Some i \<Rightarrow>
                    let m1 = stub_touch_read i m0; v = stub_read (m_stubs m1 ! i) addr n
                    in (v, note_device addr v False m1)))"

section \<open>Writes\<close>

definition uart4_tx :: "'x soc_rest \<Rightarrow> u32 \<Rightarrow> 'x s5l8900 \<Rightarrow> 'x s5l8900" where
  "uart4_tx R val m =
     (case r_uart4_tx R of None \<Rightarrow> m | Some tx \<Rightarrow> m\<lparr>m_rest := tx (ucast val) (m_rest m)\<rparr>)"

definition device_write ::
  "'x soc_rest \<Rightarrow> target \<Rightarrow> u32 \<Rightarrow> u32 \<Rightarrow> nat \<Rightarrow> 'x s5l8900 \<Rightarrow> 'x s5l8900" where
  "device_write R t addr val n m =
     (let noted = note_device addr val True m
      in case t of
        T_uart0 off \<Rightarrow>
          (if m_dma_access_active m \<and> off = 0x20
           then uart4_tx R val (noted\<lparr>m_uart4 := s5l_uart_write off val (m_uart4 m)\<rparr>)
           else noted\<lparr>m_uart0 := s5l_uart_write off val (m_uart0 m)\<rparr>)
      | T_uart4 off \<Rightarrow>
          (if m_dma_access_active m \<and> off = 0x20
           then noted\<lparr>m_uart0 := s5l_uart_write off val (m_uart0 m)\<rparr>
           else
             let m1 = noted\<lparr>m_uart4 := s5l_uart_write off val (m_uart4 m)\<rparr>
             in if off = 0x20 then uart4_tx R val m1 else m1)
      | T_vic0 off \<Rightarrow> m\<lparr>m_vic0 := s5l_vic_write (m_vic0 m) off val\<rparr>
      | T_vic1 off \<Rightarrow> m\<lparr>m_vic1 := s5l_vic_write (m_vic1 m) off val\<rparr>
      | T_timer off \<Rightarrow> m\<lparr>m_timer := s5l_timer_write (m_timer m) off val\<rparr>
      | T_wdt \<Rightarrow>
          (if addr = 0x3e300000 \<and> val = 0x00100000 then noted\<lparr>m_restart_requested := True\<rparr> else noted)
      | T_power off \<Rightarrow> noted\<lparr>m_power := s5l_power_write (m_power m) off val\<rparr>
      | T_spi0 off \<Rightarrow>
          let (b, x) = s5l_spi_write (r_spi0 R) off val (m_spi0 m) (m_rest m)
          in noted\<lparr>m_spi0 := b, m_rest := x\<rparr>
      | T_spi1 off \<Rightarrow>
          let (b, x) = s5l_spi_write (r_spi1 R) off val (m_spi1 m) (m_rest m)
          in noted\<lparr>m_spi1 := b, m_rest := x\<rparr>
      | T_dmac0 off \<Rightarrow> noted\<lparr>m_dmac0 := s5l_pl080_write off val (m_dmac0 m)\<rparr>
      | T_dmac1 off \<Rightarrow> noted\<lparr>m_dmac1 := s5l_pl080_write off val (m_dmac1 m)\<rparr>
      | T_gpioic off \<Rightarrow> noted\<lparr>m_gpioic := s5l_gpioic_write off val (m_gpioic m)\<rparr>
      | T_gpio off \<Rightarrow>
          let (calls, g) = s5l_gpio_write off val n (m_gpio m) in make_calls calls (noted\<lparr>m_gpio := g\<rparr>)
      | T_rest w off \<Rightarrow>
          (if w = W_mbx then r_mbx_write R off val noted
           else if w = W_nor then m\<lparr>m_rest := r_write R w off val n (m_rest m)\<rparr>
           else noted\<lparr>m_rest := r_write R w off val n (m_rest m)\<rparr>))"

definition s5l8900_ram_changed :: "u32 \<Rightarrow> u32 \<Rightarrow> 'x s5l8900 \<Rightarrow> 'x s5l8900" where
  "s5l8900_ram_changed pa len m =
     (case m_ram_watch m of None \<Rightarrow> m | Some w \<Rightarrow> m\<lparr>m_ram_watch := Some (arm_ram_watch_changed w pa len)\<rparr>)"

definition ram_store :: "nat \<Rightarrow> u8 list \<Rightarrow> 'x s5l8900 \<Rightarrow> 'x s5l8900" where
  "ram_store p bs m = m\<lparr>m_ram := take p (m_ram m) @ bs @ drop (p + length bs) (m_ram m)\<rparr>"

definition bus_write :: "'x soc_rest \<Rightarrow> 'x s5l8900 \<Rightarrow> u32 \<Rightarrow> u32 \<Rightarrow> nat \<Rightarrow> 'x s5l8900" where
  "bus_write R m addr val n =
     (if in_ram m addr n
      then ram_store (ram_offset m addr) (le_bytes n val) (s5l8900_ram_changed addr (of_nat n) m)
      else
        let m0 = m\<lparr>m_level_dirty := True\<rparr>
        in case decode (m_nor_size m) addr n of
             Some t \<Rightarrow> device_write R t addr val n m0
           | None \<Rightarrow>
               (case find_stub m0 addr n of
                  Some i \<Rightarrow>
                    let s = m_stubs m0 ! i; s1 = s\<lparr>st_writes := st_writes s + 1\<rparr>
                    in note_device addr val True
                         (m0\<lparr>m_stubs := (m_stubs m0)[i := stub_write s1 addr val n]\<rparr>)
                | None \<Rightarrow>
                    note_device addr val True
                      (note_unmapped addr (m0\<lparr>m_unmapped_writes := m_unmapped_writes m0 + 1\<rparr>))))"

section \<open>Host pointers and DMA requests\<close>

text \<open>A pointer into the RAM allocation is its offset.\<close>

definition machine_host_ram :: "'x s5l8900 \<Rightarrow> u32 \<Rightarrow> u32 \<Rightarrow> nat option" where
  "machine_host_ram m pa len =
     (if len = 0 then None else if \<not> in_ram m pa (unat len) then None else Some (ram_offset m pa))"

definition machine_watched_ram_write :: "'x s5l8900 \<Rightarrow> u32 \<Rightarrow> u32 \<Rightarrow> nat option" where
  "machine_watched_ram_write m pa len =
     (if pa = m_ram_base m \<and> len = m_ram_size m \<or> \<not> arm_ram_watch_unwatched (m_ram_watch m) pa len then None
      else machine_host_ram m pa len)"

definition dma_request_ready ::
  "'x soc_rest \<Rightarrow> 'x s5l8900 \<Rightarrow> u32 \<Rightarrow> nat \<Rightarrow> bool \<Rightarrow> bool \<times> 'x s5l8900" where
  "dma_request_ready R m address width source =
     (if address = 0x3ca00000 + (if source then 0x38 else 0x10)
      then (r_i2s_ready R width source (m_rest m), m)
      else if source then
        (if address = 0x3cc00000 + 0x24 then (s5l_uart_rx_dma_ready (m_uart0 m), m)
         else if address = 0x3cc10000 + 0x24 then
           (if s5l_uart_rx_dma_ready (m_uart4 m) then (True, m)
            else let (ok, u) = s5l_uart_rx_dma_idle (m_uart4 m) in (ok, m\<lparr>m_uart4 := u\<rparr>))
         else if address = 0x3c300000 + 0x20 then (sp_rx_level (m_spi0 m) \<noteq> 0, m)
         else if address = 0x3ce00000 + 0x20 then (sp_rx_level (m_spi1 m) \<noteq> 0, m)
         else (True, m))
      else if address = 0x3c300000 + 0x10 then (sp_tx_level (m_spi0 m) < 8, m)
      else if address = 0x3ce00000 + 0x10 then (sp_tx_level (m_spi1 m) < 8, m)
      else (True, m))"

section \<open>The map of a machine\<close>

definition stub_window :: "s5l_stub \<Rightarrow> s5l_window" where
  "stub_window s = window (st_base s) (st_size s) (st_name s)"

definition map_windows :: "'x s5l8900 \<Rightarrow> s5l_window list" where
  "map_windows m = window (m_ram_base m) (m_ram_size m) ''ram'' # DEVICE_WINDOWS @ map stub_window (m_stubs m)"

definition stub_ok :: "s5l_stub \<Rightarrow> bool" where
  "stub_ok s \<longleftrightarrow> length (st_regs s) = (unat (st_size s) + 3) div 4 \<and>
     unat (st_base s) + unat (st_size s) \<le> 0x100000000"

definition map_ok :: "'x s5l8900 \<Rightarrow> bool" where
  "map_ok m \<longleftrightarrow> windows_apart (map_windows m) \<and> m_nor_size m = 0x00100000 \<and>
     length (m_ram m) = unat (m_ram_size m) \<and> unat (m_ram_base m) + unat (m_ram_size m) \<le> 0x100000000 \<and>
     list_all stub_ok (m_stubs m)"

lemma in_ram_window: "n \<noteq> 0 \<Longrightarrow> in_ram m a n = in_window a n (m_ram_base m) (m_ram_size m)"
  by (simp add: in_ram_def in_window_def)

lemma decode_in_device:
  assumes "decode 0x00100000 a n = Some t"
  shows "\<exists>w \<in> set DEVICE_WINDOWS. in_window a n (win_base w) (win_size w)"
  using assms
  by (auto simp: decode_def mmio_word_def mmio_data_def in_dev_def DEVICE_WINDOWS_def split: if_splits)

lemma find_stub_some:
  "find_stub m a n = Some i \<Longrightarrow>
    i < length (m_stubs m) \<and> in_window a n (st_base (m_stubs m ! i)) (st_size (m_stubs m ! i))"
  by (auto simp: find_stub_def find_Some_iff)

text \<open>No access belongs to two of RAM, the devices and the stubs.\<close>

lemma one_owner:
  assumes "map_ok m" "n \<noteq> 0"
  shows "in_ram m a n \<Longrightarrow> decode (m_nor_size m) a n = None"
    "in_ram m a n \<Longrightarrow> find_stub m a n = None"
    "decode (m_nor_size m) a n \<noteq> None \<Longrightarrow> find_stub m a n = None"
proof -
  let ?ram = "window (m_ram_base m) (m_ram_size m) ''ram''"
  have sep: "\<not> s5l8900_overlaps (m_ram_base m) (m_ram_size m) (win_base w) (win_size w)"
    if "w \<in> set DEVICE_WINDOWS \<or> w \<in> stub_window ` set (m_stubs m)" for w
    using assms(1) that by (auto simp: map_ok_def windows_apart_def map_windows_def)
  have sep2: "\<not> s5l8900_overlaps (win_base v) (win_size v) (st_base s) (st_size s)"
    if "v \<in> set DEVICE_WINDOWS" "s \<in> set (m_stubs m)" for v s
    using assms(1) that
    by (auto simp: map_ok_def windows_apart_def map_windows_def sorted_wrt_append stub_window_def)
  have dev: "\<exists>w \<in> set DEVICE_WINDOWS. in_window a n (win_base w) (win_size w)"
    if "decode (m_nor_size m) a n = Some t" for t
    using that assms(1) decode_in_device by (simp add: map_ok_def)
  have stub: "\<exists>s \<in> set (m_stubs m). in_window a n (st_base s) (st_size s)" if "find_stub m a n = Some i" for i
    using find_stub_some [OF that] nth_mem by blast
  show "in_ram m a n \<Longrightarrow> decode (m_nor_size m) a n = None"
    using dev sep overlap_of_common_access assms(2) by (metis in_ram_window not_None_eq)
  show "in_ram m a n \<Longrightarrow> find_stub m a n = None"
  proof (rule ccontr)
    assume r: "in_ram m a n" and "find_stub m a n \<noteq> None"
    then obtain s where s: "s \<in> set (m_stubs m)" "in_window a n (st_base s) (st_size s)"
      using stub by blast
    have "s5l8900_overlaps (m_ram_base m) (m_ram_size m) (st_base s) (st_size s)"
      using r s(2) overlap_of_common_access assms(2) by (simp add: in_ram_window)
    then show False using sep [of "stub_window s"] s(1) by (simp add: stub_window_def)
  qed
  show "decode (m_nor_size m) a n \<noteq> None \<Longrightarrow> find_stub m a n = None"
    using dev stub sep2 overlap_of_common_access by (metis not_None_eq)
qed

text \<open>The same bus with the devices and stubs asked before RAM.\<close>

definition bus_read_devices_first :: "'x soc_rest \<Rightarrow> 'x s5l8900 \<Rightarrow> u32 \<Rightarrow> nat \<Rightarrow> u32 \<times> 'x s5l8900" where
  "bus_read_devices_first R m a n =
     (let m0 = m\<lparr>m_level_dirty := True\<rparr>
      in case decode (m_nor_size m) a n of
           Some t \<Rightarrow> let (v, m1) = device_read R t n m0 in (v, note_device a v False m1)
         | None \<Rightarrow>
             (case find_stub m a n of
                Some i \<Rightarrow>
                  let m1 = stub_touch_read i m0; v = stub_read (m_stubs m1 ! i) a n
                  in (v, note_device a v False m1)
              | None \<Rightarrow>
                  if in_ram m a n then (le_word (take n (drop (ram_offset m a) (m_ram m))), m)
                  else (0, note_device a 0 False
                          (note_unmapped a (m0\<lparr>m_unmapped_reads := m_unmapped_reads m0 + 1\<rparr>)))))"

lemma find_stub_dirty [simp]: "find_stub (m\<lparr>m_level_dirty := d\<rparr>) a n = find_stub m a n"
  by (simp add: find_stub_def)

text \<open>
  C26:
  Asking RAM first is the same as asking the devices first. On a machine whose map is well-formed,
  which building it guarantees, a read gives the same value and leaves the same machine whether the
  bus tests RAM before the devices and the stubs, as it does for speed, or after them: no address
  belongs to two owners.
\<close>

theorem ram_first_is_devices_first:
  assumes "map_ok m" "n \<noteq> 0"
  shows "bus_read R m a n = bus_read_devices_first R m a n"
proof (cases "in_ram m a n")
  case True
  then show ?thesis
    using one_owner(1,2) [OF assms True] by (simp add: bus_read_def bus_read_devices_first_def Let_def)
next
  case False
  then show ?thesis
    by (simp add: bus_read_def bus_read_devices_first_def Let_def split: option.splits)
qed

section \<open>Building and running keeps the map\<close>

definition rest_keeps_map :: "'x soc_rest \<Rightarrow> bool" where
  "rest_keeps_map R \<longleftrightarrow>
     (\<forall>off val m. map_ok m \<longrightarrow> map_ok (r_mbx_write R off val m)) \<and>
     (\<forall>refill m. r_refill R = Some refill \<longrightarrow> map_ok m \<longrightarrow> map_ok (refill m))"

text \<open>Machines the host and the guest can bring about from \<open>m0\<close>.\<close>

inductive bus_reaches :: "'x soc_rest \<Rightarrow> 'x s5l8900 \<Rightarrow> 'x s5l8900 \<Rightarrow> bool" for R m0 where
  start: "bus_reaches R m0 m0"
| stub: "bus_reaches R m0 m \<Longrightarrow> bus_reaches R m0 (snd (s5l8900_add_stub got base size' name m))"
| load: "bus_reaches R m0 m \<Longrightarrow> bus_reaches R m0 (snd (bus_read R m a n))"
| store: "bus_reaches R m0 m \<Longrightarrow> bus_reaches R m0 (bus_write R m a v n)"

lemma map_ok_cong:
  assumes "m_ram_base m1 = m_ram_base m" "m_ram_size m1 = m_ram_size m" "length (m_ram m1) = length (m_ram m)"
    "m_nor_size m1 = m_nor_size m" "map stub_window (m_stubs m1) = map stub_window (m_stubs m)"
    "list_all stub_ok (m_stubs m) \<Longrightarrow> list_all stub_ok (m_stubs m1)" "map_ok m"
  shows "map_ok m1"
  using assms by (simp add: map_ok_def map_windows_def)

lemma map_ok_notes [simp]:
  "map_ok (note_device a v w m) = map_ok m" "map_ok (note_unmapped a m) = map_ok m"
  by (simp_all add: note_device_def note_unmapped_def Let_def map_ok_def map_windows_def)

lemma map_ok_updates [simp]:
  "map_ok (m\<lparr>m_level_dirty := d\<rparr>) = map_ok m" "map_ok (m\<lparr>m_uart0 := u\<rparr>) = map_ok m"
  "map_ok (m\<lparr>m_uart4 := u\<rparr>) = map_ok m" "map_ok (m\<lparr>m_vic0 := vc\<rparr>) = map_ok m"
  "map_ok (m\<lparr>m_vic1 := vc\<rparr>) = map_ok m" "map_ok (m\<lparr>m_timer := tm\<rparr>) = map_ok m"
  "map_ok (m\<lparr>m_power := pw\<rparr>) = map_ok m" "map_ok (m\<lparr>m_spi0 := sp\<rparr>) = map_ok m"
  "map_ok (m\<lparr>m_spi1 := sp\<rparr>) = map_ok m" "map_ok (m\<lparr>m_dmac0 := dm\<rparr>) = map_ok m"
  "map_ok (m\<lparr>m_dmac1 := dm\<rparr>) = map_ok m" "map_ok (m\<lparr>m_gpioic := gi\<rparr>) = map_ok m"
  "map_ok (m\<lparr>m_gpio := gp\<rparr>) = map_ok m" "map_ok (m\<lparr>m_rest := x\<rparr>) = map_ok m"
  "map_ok (m\<lparr>m_unmapped_reads := c\<rparr>) = map_ok m" "map_ok (m\<lparr>m_unmapped_writes := c\<rparr>) = map_ok m"
  "map_ok (m\<lparr>m_restart_requested := d\<rparr>) = map_ok m" "map_ok (m\<lparr>m_ram_watch := rw\<rparr>) = map_ok m"
  by (simp_all add: map_ok_def map_windows_def)

lemma map_ok_stub_update:
  assumes "map_ok m" "stub_window s = stub_window (m_stubs m ! i)"
    "length (st_regs s) = length (st_regs (m_stubs m ! i))"
  shows "map_ok (m\<lparr>m_stubs := (m_stubs m)[i := s]\<rparr>)"
proof (cases "i < length (m_stubs m)")
  case True
  have "stub_ok s" if "list_all stub_ok (m_stubs m)"
    using that True assms(2,3) by (simp add: list_all_length stub_ok_def stub_window_def)
  moreover have "map stub_window ((m_stubs m)[i := s]) = map stub_window (m_stubs m)"
    using assms(2) True by (simp add: map_update list_update_same_conv)
  ultimately show ?thesis
    using assms(1) by (intro map_ok_cong [OF _ _ _ _ _ _ assms(1)])
      (auto simp: list_all_iff dest: set_update_subset_insert [THEN subsetD])
next
  case False
  then have "length (m_stubs m) \<le> i" by simp
  from list_update_beyond [OF this] show ?thesis using assms(1) by simp
qed

lemma make_calls_map [simp]: "map_ok (make_calls calls m) = map_ok m"
  by (simp add: make_calls_def)

lemma device_read_map: "rest_keeps_map R \<Longrightarrow> map_ok m \<Longrightarrow> map_ok (snd (device_read R t n m))"
  by (cases t) (auto simp: device_read_def Let_def rest_keeps_map_def split: prod.splits option.splits)

lemma device_write_map: "rest_keeps_map R \<Longrightarrow> map_ok m \<Longrightarrow> map_ok (device_write R t a v n m)"
  by (cases t)
    (auto simp: device_write_def uart4_tx_def Let_def rest_keeps_map_def split: prod.splits option.splits)

lemma bus_read_map:
  assumes "rest_keeps_map R" "map_ok m"
  shows "map_ok (snd (bus_read R m a n))"
proof -
  have "map_ok (stub_touch_read i (m\<lparr>m_level_dirty := True\<rparr>))" for i
    unfolding stub_touch_read_def
    by (rule map_ok_stub_update) (simp_all add: assms stub_window_def)
  moreover have "map_ok m1" if "device_read R t n (m\<lparr>m_level_dirty := True\<rparr>) = (v, m1)" for t v m1
    using device_read_map [OF assms(1), of "m\<lparr>m_level_dirty := True\<rparr>" t n] assms(2) that by simp
  ultimately show ?thesis
    using assms(2) by (auto simp: bus_read_def Let_def split: option.splits prod.splits)
qed

lemma ram_store_map:
  "map_ok m \<Longrightarrow> p + length bs \<le> length (m_ram m) \<Longrightarrow> map_ok (ram_store p bs m)"
  by (simp add: map_ok_def map_windows_def ram_store_def)

lemma ram_changed_fields [simp]:
  "m_ram (s5l8900_ram_changed pa len m) = m_ram m" "m_ram_base (s5l8900_ram_changed pa len m) = m_ram_base m"
  "m_ram_size (s5l8900_ram_changed pa len m) = m_ram_size m"
  "map_ok (s5l8900_ram_changed pa len m) = map_ok m"
  by (simp_all add: s5l8900_ram_changed_def split: option.splits)

lemma in_ram_fits: "in_ram m a n \<Longrightarrow> ram_offset m a + n \<le> unat (m_ram_size m)"
  by (simp add: in_ram_def ram_offset_def split: if_splits)

lemma stub_write_map:
  assumes "map_ok m"
  shows "map_ok (m\<lparr>m_level_dirty := True, m_stubs := (m_stubs m)[i := stub_write ((m_stubs m ! i)\<lparr>st_writes := c\<rparr>) a v n]\<rparr>)"
proof -
  have "stub_window (stub_write ((m_stubs m ! i)\<lparr>st_writes := c\<rparr>) a v n) = stub_window (m_stubs m ! i) \<and>
      length (st_regs (stub_write ((m_stubs m ! i)\<lparr>st_writes := c\<rparr>) a v n)) = length (st_regs (m_stubs m ! i))"
  proof -
    have "st_name (stub_write s a v n) = st_name s" for s
      by (induction n) (simp_all add: stub_write_step Let_def)
    then show ?thesis
      using stub_write_base [of "(m_stubs m ! i)\<lparr>st_writes := c\<rparr>" a v n] by (simp add: stub_window_def)
  qed
  then have "map_ok ((m\<lparr>m_level_dirty := True\<rparr>)\<lparr>m_stubs := (m_stubs (m\<lparr>m_level_dirty := True\<rparr>))[i :=
      stub_write ((m_stubs m ! i)\<lparr>st_writes := c\<rparr>) a v n]\<rparr>)"
    by (intro map_ok_stub_update) (simp_all add: assms)
  then show ?thesis by simp
qed

lemma bus_write_map:
  assumes "rest_keeps_map R" "map_ok m"
  shows "map_ok (bus_write R m a v n)"
proof (cases "in_ram m a n")
  case True
  have "length (m_ram m) = unat (m_ram_size m)" using assms(2) by (simp add: map_ok_def)
  then show ?thesis
    using in_ram_fits [OF True] assms(2) by (simp add: bus_write_def True ram_store_map)
next
  case False
  show ?thesis
  proof (cases "decode (m_nor_size m) a n")
    case (Some t)
    then show ?thesis
      using False device_write_map [OF assms(1), of "m\<lparr>m_level_dirty := True\<rparr>" t a v n] assms(2)
      by (simp add: bus_write_def)
  next
    case None
    then show ?thesis
      using False stub_write_map assms(2) by (cases "find_stub m a n") (simp_all add: bus_write_def Let_def)
  qed
qed

text \<open>A stub is refused, leaving the machine alone, or every test passed and it is appended.\<close>

definition stub_admissible :: "u32 \<Rightarrow> u32 \<Rightarrow> 'x s5l8900 \<Rightarrow> bool" where
  "stub_admissible base size' m \<longleftrightarrow> unat base + unat size' \<le> 0x100000000 \<and>
     \<not> list_ex (\<lambda>w. s5l8900_overlaps base size' (win_base w) (win_size w)) DEVICE_WINDOWS \<and>
     \<not> list_ex (\<lambda>s. s5l8900_overlaps base size' (st_base s) (st_size s)) (m_stubs m) \<and>
     \<not> s5l8900_overlaps base size' (m_ram_base m) (m_ram_size m)"

definition fresh_stub :: "u32 \<Rightarrow> u32 \<Rightarrow> string \<Rightarrow> s5l_stub" where
  "fresh_stub base size' name =
     \<lparr>st_base = base, st_size = size', st_name = name, st_regs = replicate ((unat size' + 3) div 4) 0,
      st_nregs = of_nat ((unat size' + 3) div 4), st_reads = 0, st_writes = 0, st_oob = 0\<rparr>"

lemma add_stub_cases:
  obtains "snd (s5l8900_add_stub got base size' name m) = m"
  | "snd (s5l8900_add_stub got base size' name m) = m\<lparr>m_stubs := m_stubs m @ [fresh_stub base size' name]\<rparr>"
    "stub_admissible base size' m"
proof -
  have chain: "snd (if a then (False, m) else if b then (False, m) else if c then (False, m) else if d then (False, m)
      else if e then (False, m) else if f then (False, m) else if g then (False, m) else (True, m1)) = m \<or>
    snd (if a then (False, m) else if b then (False, m) else if c then (False, m) else if d then (False, m)
      else if e then (False, m) else if f then (False, m) else if g then (False, m) else (True, m1)) = m1 \<and>
    \<not> b \<and> \<not> c \<and> \<not> d \<and> \<not> e"
    for a b c d e f g and m1 :: "'a s5l8900"
    by (cases a; cases b; cases c; cases d; cases e; cases f; cases g; simp)
  have "snd (s5l8900_add_stub got base size' name m) = m \<or>
    snd (s5l8900_add_stub got base size' name m) = m\<lparr>m_stubs := m_stubs m @ [fresh_stub base size' name]\<rparr> \<and>
    stub_admissible base size' m"
    unfolding s5l8900_add_stub_def Let_def stub_admissible_def fresh_stub_def linorder_not_less [symmetric]
    by (rule chain)
  then show ?thesis using that by blast
qed

lemma add_stub_map:
  assumes "map_ok m"
  shows "map_ok (snd (s5l8900_add_stub got base size' name m))"
proof (cases rule: add_stub_cases [of got base size' name m])
  case 2
  have "windows_apart (map_windows m @ [stub_window (fresh_stub base size' name)])"
    using assms 2(2)
    by (auto simp: map_ok_def windows_apart_def map_windows_def sorted_wrt_append list_ex_iff stub_window_def
        fresh_stub_def stub_admissible_def overlaps_sym [of base])
  then show ?thesis
    using assms 2(2) by (simp add: 2(1) map_ok_def map_windows_def stub_ok_def fresh_stub_def stub_admissible_def)
qed (simp add: assms)

lemma declare_stub_map: "map_ok m \<Longrightarrow> map_ok (declare_stub got base name m)"
proof -
  assume ok: "map_ok m"
  have "map_ok (m1\<lparr>m_stub_declare_failures := k\<rparr>) = map_ok m1" for m1 :: "'a s5l8900" and k
    by (simp add: map_ok_def map_windows_def)
  then show ?thesis
    using add_stub_map [OF ok, of got base "0x1000" name] by (simp add: declare_stub_def Let_def split_beta)
qed

lemma subscribe_map: "map_ok m \<Longrightarrow> map_ok (subscribe pin changed m)"
  by (simp add: subscribe_def Let_def split_beta) (simp add: map_ok_def map_windows_def)

lemma init_map:
  assumes "s5l8900_init got touch x base size' = Some m"
  shows "map_ok m"
proof -
  have fold: "map_ok m0 \<Longrightarrow> map_ok (foldl (\<lambda>m i. declare_stub (g i) (b i) (nm i) m) m0 is)"
    for m0 :: "'a s5l8900" and g b nm and "is" :: "nat list"
    by (induction "is" arbitrary: m0) (simp_all add: declare_stub_map)
  have no: "\<not> s5l8900_overlaps base size' (win_base w) (win_size w)" if "w \<in> set DEVICE_WINDOWS" for w
    using assms that by (auto simp: s5l8900_init_def s5l8900_ram_conflict_def find_None_iff split: if_splits)
  have apart: "windows_apart (window base size' ''ram'' # DEVICE_WINDOWS)"
    using no device_windows_apart by (simp add: windows_apart_def)
  show ?thesis
    using assms unfolding s5l8900_init_def Let_def
    by (auto split: if_splits intro!: fold subscribe_map)
      (simp add: map_ok_def map_windows_def apart)
qed

text \<open>
  C27:
  The address map stays well-formed. On every machine the emulator agrees to build, through any
  sequence of stub declarations, accepted or refused, and of guest loads and stores of any width
  anywhere in the address space, RAM, the device windows and the stub windows stay pairwise
  disjoint, RAM keeps its size and every stub keeps the registers its window needs. The devices that
  are parameters are assumed to leave the map alone.
\<close>

theorem bus_keeps_map:
  assumes "s5l8900_init got touch x base size' = Some m0" "rest_keeps_map R" "bus_reaches R m0 m"
  shows "map_ok m"
  using assms(3)
proof induction
  case start
  show ?case by (rule init_map [OF assms(1)])
next
  case (stub m got base size' name)
  then show ?case using add_stub_map by blast
next
  case (load m a n)
  then show ?case using bus_read_map [OF assms(2)] by blast
next
  case (store m a v n)
  then show ?case using bus_write_map [OF assms(2)] by blast
qed

text \<open>A machine with 4 KB of RAM and the remaining devices stored nowhere.\<close>

definition plain_rest :: "unit soc_rest" where
  "plain_rest = \<lparr>r_read = (\<lambda>_ _ _ x. (0, x)), r_write = (\<lambda>_ _ _ _ x. x), r_mbx_write = (\<lambda>_ _ m. m),
     r_i2s_ready = (\<lambda>_ _ _. True), r_spi0 = (\<lambda>_. None), r_spi1 = (\<lambda>_. None), r_uart4_tx = None,
     r_refill = None\<rparr>"

lemma small_machine:
  obtains m :: "unit s5l8900" where "s5l8900_init (\<lambda>_. True) (\<lambda>_ _ y. y) () 0x08000000 0x1000 = Some m"
proof -
  have "s5l8900_ram_conflict 0x08000000 0x1000 = None"
    by (simp add: s5l8900_ram_conflict_def DEVICE_WINDOWS_def s5l8900_overlaps_def)
  then have "s5l8900_init (\<lambda>_. True) (\<lambda>_ _ y. y) () 0x08000000 0x1000 \<noteq> None"
    unfolding s5l8900_init_def Let_def by simp
  then show ?thesis using that by blast
qed

lemma plain_rest_keeps_map: "rest_keeps_map plain_rest"
  by (simp add: rest_keeps_map_def plain_rest_def)

lemma bus_keeps_map_witness:
  "\<exists>m0 :: unit s5l8900. s5l8900_init (\<lambda>_. True) (\<lambda>_ _ y. y) () 0x08000000 0x1000 = Some m0 \<and>
     map_ok (bus_write plain_rest (snd (s5l8900_add_stub True 0x3f000000 0x40 ''new'' m0)) 0x3f000010 5 4)"
proof -
  obtain m0 :: "unit s5l8900" where m0: "s5l8900_init (\<lambda>_. True) (\<lambda>_ _ y. y) () 0x08000000 0x1000 = Some m0"
    by (rule small_machine)
  have "bus_reaches plain_rest m0
      (bus_write plain_rest (snd (s5l8900_add_stub True 0x3f000000 0x40 ''new'' m0)) 0x3f000010 5 4)"
    by (intro bus_reaches.store bus_reaches.stub bus_reaches.start)
  from bus_keeps_map [OF m0 plain_rest_keeps_map this] m0 show ?thesis by blast
qed

lemma ram_first_is_devices_first_witness:
  "\<exists>m :: unit s5l8900. map_ok m \<and> bus_read plain_rest m 0x08000010 4 = bus_read_devices_first plain_rest m 0x08000010 4"
proof -
  obtain m :: "unit s5l8900" where m: "s5l8900_init (\<lambda>_. True) (\<lambda>_ _ y. y) () 0x08000000 0x1000 = Some m"
    by (rule small_machine)
  from ram_first_is_devices_first [OF init_map [OF m], of 4 plain_rest "0x08000010"] init_map [OF m]
  show ?thesis by auto
qed

end
