(* ===== verification/Machine_Ram.thy ===== *)
theory Machine_Ram
  imports Machine_Bus Harness
begin

text \<open>
  RAM behind the machine's bus: byte-addressed storage, the memory the DMA controllers copy in, the
  target of the host pointers and of the write watches. The interfaces \<open>byte_store\<close> and
  \<open>dma_memory\<close> are interpreted here on the machine's own bus.
\<close>

unbundle bit_operations_syntax

section \<open>RAM is byte-addressed storage\<close>

definition ram_byte :: "'x s5l8900 \<Rightarrow> u32 \<Rightarrow> u8" where
  "ram_byte m x = (if in_ram m x 1 then m_ram m ! ram_offset m x else 0)"

definition ram_ok :: "'x s5l8900 \<Rightarrow> bool" where
  "ram_ok m \<longleftrightarrow> length (m_ram m) = unat (m_ram_size m) \<and>
     unat (m_ram_base m) + unat (m_ram_size m) \<le> 0x100000000"

lemma map_ok_ram: "map_ok m \<Longrightarrow> ram_ok m"
  by (simp add: map_ok_def ram_ok_def)

definition ram_inside :: "'x s5l8900 \<Rightarrow> u32 \<Rightarrow> nat \<Rightarrow> bool" where
  "ram_inside m a n \<longleftrightarrow> in_ram m a n \<and> ram_ok m"

lemma ram_inside_fits: "ram_inside m a n \<Longrightarrow> ram_offset m a + n \<le> length (m_ram m)"
  using in_ram_fits [of m a n] by (simp add: ram_inside_def ram_ok_def)

lemma ram_inside_part:
  assumes "ram_inside m a n" "i + k \<le> n" "i < n"
  shows "ram_inside m (a + of_nat i) k" "ram_offset m (a + of_nat i) = ram_offset m a + i"
proof -
  have le: "m_ram_base m \<le> a" and fit: "unat (a - m_ram_base m) + n \<le> unat (m_ram_size m)"
    and top: "unat (m_ram_base m) + unat (m_ram_size m) \<le> 4294967296"
    using assms(1) by (auto simp: ram_inside_def in_ram_def ram_ok_def split: if_splits)
  have fit_i: "unat (a - m_ram_base m) + i < unat (m_ram_size m)" using fit assms(3) by linarith
  then have "unat (a - m_ram_base m + of_nat i) = unat (a - m_ram_base m) + i" by (rule unat_add_small)
  moreover have "a + of_nat i - m_ram_base m = a - m_ram_base m + of_nat i" by simp
  ultimately have off: "unat (a + of_nat i - m_ram_base m) = unat (a - m_ram_base m) + i" by (simp only:)
  then show "ram_offset m (a + of_nat i) = ram_offset m a + i" by (simp add: ram_offset_def)
  have "unat (a - m_ram_base m) = unat a - unat (m_ram_base m)" using le by (rule unat_sub)
  moreover have "unat (m_ram_base m) \<le> unat a" using le by (simp add: word_le_nat_alt)
  ultimately have "unat a + i < 4294967296" using fit_i top by linarith
  then have "unat (a + of_nat i) = unat a + i" by (simp add: unat_word_ariths unat_of_nat)
  then have "m_ram_base m \<le> a + of_nat i" using le by (simp add: word_le_nat_alt)
  moreover have "unat (a - m_ram_base m) + i + k \<le> unat (m_ram_size m)" using fit assms(2) by linarith
  ultimately show "ram_inside m (a + of_nat i) k"
    using assms(1) off by (simp add: ram_inside_def in_ram_def)
qed

lemma ram_inside_byte:
  assumes "ram_inside m a n" "i < n"
  shows "ram_byte m (a + of_nat i) = m_ram m ! (ram_offset m a + i)"
  using ram_inside_part [OF assms(1), of i 1] assms(2) by (simp add: ram_byte_def ram_inside_def)

lemma ram_bytes: "ram_inside m a n \<Longrightarrow>
    take n (drop (ram_offset m a) (m_ram m)) = map (\<lambda>i. ram_byte m (a + of_nat i)) [0..<n]"
  using ram_inside_fits [of m a n] by (intro nth_equalityI) (auto simp: ram_inside_byte)

lemma ram_read: "ram_inside m a n \<Longrightarrow>
    bus_read R m a n = (le_word (map (\<lambda>i. ram_byte m (a + of_nat i)) [0..<n]), m)"
  by (simp add: bus_read_def ram_inside_def ram_bytes [unfolded ram_inside_def])

lemma ram_write:
  assumes "ram_inside m a n"
  shows "bus_write R m a v n = ram_store (ram_offset m a) (le_bytes n v) (s5l8900_ram_changed a (of_nat n) m)"
  using assms by (simp add: bus_write_def ram_inside_def)

lemma ram_store_fields [simp]:
  "m_ram_base (ram_store p bs m) = m_ram_base m" "m_ram_size (ram_store p bs m) = m_ram_size m"
  by (simp_all add: ram_store_def)

lemma ram_write_frame:
  assumes "ram_inside m a n"
  shows "ram_ok (bus_write R m a v n) \<and> in_ram (bus_write R m a v n) b k = in_ram m b k \<and>
    ram_offset (bus_write R m a v n) b = ram_offset m b"
proof -
  have "ram_offset m a + n \<le> length (m_ram m)" by (rule ram_inside_fits [OF assms])
  then have "length (m_ram (bus_write R m a v n)) = length (m_ram m)"
    by (simp add: ram_write [OF assms] ram_store_def)
  then show ?thesis
    using assms by (simp add: ram_write [OF assms] ram_inside_def ram_ok_def in_ram_def ram_offset_def)
qed

lemma ram_write_byte:
  assumes "ram_inside m a n"
  shows "ram_byte (bus_write R m a v n) x =
    (if unat (x - a) < n then ucast (shr v (8 * unat (x - a))) else ram_byte m x)"
proof (cases "in_ram m x 1")
  case False
  have "a + of_nat (unat (x - a)) = x" by simp
  then have "\<not> unat (x - a) < n"
    using False ram_inside_part(1) [OF assms, of "unat (x - a)" 1] by (auto simp: ram_inside_def)
  then show ?thesis using False ram_write_frame [OF assms] by (simp add: ram_byte_def)
next
  case True
  let ?p = "ram_offset m a" and ?q = "ram_offset m x"
  have fit: "?p + n \<le> length (m_ram m)" by (rule ram_inside_fits [OF assms])
  have q: "?q < length (m_ram m)"
    using in_ram_fits [OF True] assms by (simp add: ram_inside_def ram_ok_def)
  have new: "m_ram (bus_write R m a v n) = take ?p (m_ram m) @ le_bytes n v @ drop (?p + n) (m_ram m)"
    by (simp add: ram_write [OF assms] ram_store_def)
  have hit: "unat (x - a) < n \<longleftrightarrow> ?p \<le> ?q \<and> ?q < ?p + n" "unat (x - a) < n \<Longrightarrow> ?q = ?p + unat (x - a)"
  proof -
    have le: "m_ram_base m \<le> a" "m_ram_base m \<le> x"
      using True assms by (auto simp: ram_inside_def in_ram_def split: if_splits)
    show eq: "?q = ?p + unat (x - a)" if "unat (x - a) < n"
      using ram_inside_part(2) [OF assms _ that, of 0] that by simp
    show "unat (x - a) < n \<longleftrightarrow> ?p \<le> ?q \<and> ?q < ?p + n"
    proof
      assume h: "?p \<le> ?q \<and> ?q < ?p + n"
      have "x - a = (x - m_ram_base m) - (a - m_ram_base m)" by simp
      moreover have "a - m_ram_base m \<le> x - m_ram_base m" using h by (simp add: ram_offset_def word_le_nat_alt)
      ultimately have "unat (x - a) = ?q - ?p" unfolding ram_offset_def by (metis unat_sub)
      then show "unat (x - a) < n" using h by linarith
    qed (use eq in simp)
  qed
  have "ram_byte (bus_write R m a v n) x = m_ram (bus_write R m a v n) ! ?q"
    using True ram_write_frame [OF assms] by (simp add: ram_byte_def)
  also have "\<dots> = (if unat (x - a) < n then ucast (shr v (8 * unat (x - a))) else m_ram m ! ?q)"
  proof (cases "unat (x - a) < n")
    case True
    with hit(2) have "?q = ?p + unat (x - a)" by blast
    then show ?thesis using True fit by (simp add: new nth_append)
  next
    case False
    then have "?q < ?p \<or> ?p + n \<le> ?q" using hit(1) by linarith
    then show ?thesis using False fit q by (auto simp: new nth_append)
  qed
  finally show ?thesis using True by (simp add: ram_byte_def)
qed

lemma ram_write_inside:
  "ram_inside m a n \<Longrightarrow> ram_inside (bus_write R m a v n) b k = ram_inside m b k"
proof -
  assume i: "ram_inside m a n"
  then have "ram_ok m" by (simp add: ram_inside_def)
  then show ?thesis using ram_write_frame [OF i, of R v b k] by (simp add: ram_inside_def)
qed

interpretation ram: byte_store "\<lambda>m a n. fst (bus_read R m a n)" "bus_write R" ram_byte ram_inside
  for R :: "'x soc_rest"
  by unfold_locales (simp_all add: ram_read ram_write_byte ram_write_inside)

section \<open>The DMA controllers copy in RAM\<close>

text \<open>The bus a controller is given: its six access functions. The members only the CPU uses are
  left out.\<close>

definition machine_bus :: "'x soc_rest \<Rightarrow> bus_ptrs \<Rightarrow> 'x s5l8900 arm_bus" where
  "machine_bus R ptrs =
     \<lparr>read32 = (\<lambda>m a. bus_read R m a 4),
      read16 = (\<lambda>m a. let (v, m1) = bus_read R m a 2 in (ucast v, m1)),
      read8 = (\<lambda>m a. let (v, m1) = bus_read R m a 1 in (ucast v, m1)),
      write32 = (\<lambda>m a v. bus_write R m a v 4), write16 = (\<lambda>m a v. bus_write R m a (ucast v) 2),
      write8 = (\<lambda>m a v. bus_write R m a (ucast v) 1),
      host_ram = Some machine_host_ram, host_ram_write = None, wait_for_interrupt = None,
      privileged_svc_handler = None, prepare_fetch = None, load8 = (\<lambda>m p. m_ram m ! p),
      store8 = (\<lambda>m p v. m\<lparr>m_ram := (m_ram m)[p := v]\<rparr>), bus_ptrs = ptrs\<rparr>"

text \<open>Controller 0 or 1 as the machine's tick runs it.\<close>

definition machine_dma :: "'x soc_rest \<Rightarrow> bus_ptrs \<Rightarrow> bool \<Rightarrow> 'x s5l8900 dma_host" where
  "machine_dma R ptrs first =
     \<lparr>dh_bus = machine_bus R ptrs, dh_get = (if first then m_dmac0 else m_dmac1),
      dh_put = (\<lambda>d m. if first then m\<lparr>m_dmac0 := d\<rparr> else m\<lparr>m_dmac1 := d\<rparr>),
      dh_ready = Some (dma_request_ready R)\<rparr>"

text \<open>Machines with the RAM aperture of \<open>m0\<close>.\<close>

definition ram_like :: "'x s5l8900 \<Rightarrow> 'x s5l8900 \<Rightarrow> bool" where
  "ram_like m0 m \<longleftrightarrow> ram_ok m \<and> m_ram_base m = m_ram_base m0 \<and> m_ram_size m = m_ram_size m0"

definition ram_region :: "'x s5l8900 \<Rightarrow> u32 \<Rightarrow> nat \<Rightarrow> bool" where
  "ram_region m0 a n \<longleftrightarrow> n = 0 \<or> ram_inside m0 a n"

lemma ram_like_inside: "ram_like m0 m \<Longrightarrow> ram_region m0 a n \<Longrightarrow> n \<noteq> 0 \<Longrightarrow> ram_inside m a n"
  by (auto simp: ram_like_def ram_region_def ram_inside_def in_ram_def split: if_splits)

lemma ram_like_write: "ram_like m0 m \<Longrightarrow> ram_inside m a n \<Longrightarrow> ram_like m0 (bus_write R m a v n)"
  using ram_write_frame [of m a n R v]
  by (auto simp: ram_like_def ram_write s5l8900_ram_changed_def split: option.splits)

lemma dmac_of_ram_write:
  "ram_inside m a n \<Longrightarrow> m_dmac0 (bus_write R m a v n) = m_dmac0 m \<and> m_dmac1 (bus_write R m a v n) = m_dmac1 m"
  by (auto simp: ram_write ram_store_def s5l8900_ram_changed_def split: option.splits)

lemma ready_frame_machine:
  "let m1 = snd (dma_request_ready R m a w from)
   in m_ram m1 = m_ram m \<and> m_ram_base m1 = m_ram_base m \<and> m_ram_size m1 = m_ram_size m \<and>
      m_dmac0 m1 = m_dmac0 m \<and> m_dmac1 m1 = m_dmac1 m"
  by (simp add: dma_request_ready_def Let_def split_beta)

lemma dma_load_store:
  assumes "w \<in> {1, 2, 4}"
  shows "bus_store (machine_bus R ptrs) m a v w = bus_write R m a (v AND mask (8 * w)) w"
    "ram_inside m a w \<Longrightarrow> bus_load (machine_bus R ptrs) m a w = bus_read R m a w"
proof -
  have "ucast (ucast v :: u8) = v AND mask 8" "ucast (ucast v :: u16) = v AND mask 16" "v AND mask 32 = v"
    by (rule bit_word_eqI, auto simp: bit_simps)+
  then show "bus_store (machine_bus R ptrs) m a v w = bus_write R m a (v AND mask (8 * w)) w"
    using assms by (auto simp: bus_store_def machine_bus_def)
  have short: "ucast (ucast (le_word bs) :: u8) = le_word bs" if "length bs = 1" for bs
    by (rule bit_word_eqI) (use that in \<open>auto simp: bit_simps bit_le_word\<close>)
  have short2: "ucast (ucast (le_word bs) :: u16) = le_word bs" if "length bs = 2" for bs
    by (rule bit_word_eqI) (use that in \<open>auto simp: bit_simps bit_le_word\<close>)
  show "ram_inside m a w \<Longrightarrow> bus_load (machine_bus R ptrs) m a w = bus_read R m a w"
    using assms by (auto simp: bus_load_def machine_bus_def ram_read short short2 Let_def)
qed

interpretation machine_dma: dma_memory "machine_dma R ptrs first" "ram_like m0" ram_byte "ram_region m0"
  for R :: "'x soc_rest" and ptrs first m0
proof
  fix m :: "'x s5l8900" and d :: s5l_pl080 and a x v :: u32 and n i k w :: nat
  let ?h = "machine_dma R ptrs first"
  show "ram_like m0 m \<Longrightarrow> dh_get ?h (dh_put ?h d m) = d"
    "ram_like m0 m \<Longrightarrow> ram_like m0 (dh_put ?h d m)"
    by (auto simp: machine_dma_def ram_like_def ram_ok_def)
  show "ram_like m0 m \<Longrightarrow> ram_byte (dh_put ?h d m) = ram_byte m"
    by (rule ext) (simp add: machine_dma_def ram_byte_def in_ram_def ram_offset_def)
  show "ram_region m0 a n \<Longrightarrow> i + k \<le> n \<Longrightarrow> ram_region m0 (a + of_nat i) k"
    using ram_inside_part(1) [of m0 a n i k] by (cases "k = 0") (auto simp: ram_region_def)
  assume m: "ram_like m0 m" and w: "w \<in> {1, 2, 4}" and r: "ram_region m0 a w"
  then have i: "ram_inside m a w" using ram_like_inside by auto
  have h: "dh_bus ?h = machine_bus R ptrs" by (simp add: machine_dma_def)
  show "\<exists>v. bus_load (dh_bus ?h) m a w = (v, m) \<and> (shr v (8 * w) = 0 \<or> w = 4) \<and>
      le_bytes w v = map (\<lambda>i. ram_byte m (a + of_nat i)) [0..<w]"
    using w ram_read [OF i, of R] le_word_small [of "map (\<lambda>i. ram_byte m (a + of_nat i)) [0..<w]" w]
      le_bytes_le_word [of "map (\<lambda>i. ram_byte m (a + of_nat i)) [0..<w]" w]
    by (auto simp: h dma_load_store(2) [OF w i])
  show "ram_like m0 (bus_store (dh_bus ?h) m a v w)"
    by (simp add: h dma_load_store(1) [OF w] ram_like_write [OF m i])
  show "dh_get ?h (bus_store (dh_bus ?h) m a v w) = dh_get ?h m"
    using dmac_of_ram_write [OF i] by (simp add: h dma_load_store(1) [OF w]) (simp add: machine_dma_def)
  have lane: "(ucast (shr (v AND mask (8 * w)) (8 * j)) :: u8) = ucast (shr v (8 * j))" if "j < w" for j
    by (rule bit_word_eqI) (use that w in \<open>auto simp: bit_simps\<close>)
  show "ram_byte (bus_store (dh_bus ?h) m a v w) x =
      (if unat (x - a) < w then ucast (shr v (8 * unat (x - a))) else ram_byte m x)"
    using lane [of "unat (x - a)"]
    by (cases "unat (x - a) < w")
      (simp_all only: h dma_load_store(1) [OF w] ram_write_byte [OF i] if_True if_False)
next
  fix ready and m :: "'x s5l8900" and a w "from"
  let ?h = "machine_dma R ptrs first"
  assume "dh_ready ?h = Some ready" and m: "ram_like m0 m"
  then have r: "ready = dma_request_ready R" by (simp add: machine_dma_def)
  show "ram_like m0 (snd (ready m a w from)) \<and> dh_get ?h (snd (ready m a w from)) = dh_get ?h m \<and>
      ram_byte (snd (ready m a w from)) = ram_byte m"
    using m ready_frame_machine [of R m a w "from"]
    by (auto simp: r machine_dma_def ram_like_def ram_ok_def ram_byte_def in_ram_def ram_offset_def Let_def
        fun_eq_iff)
qed

text \<open>
  C25:
  The DMA controllers copy memory. A channel of either controller, programmed for one item of N
  bytes from one stretch of RAM to another that shares no byte with it, for any mix of source and
  destination widths and any flow control, run any number of times: RAM is as before but for the
  first k destination bytes, which are copies of the first k source bytes, and either the channel
  is still enabled and its registers say exactly that k bytes are done, or k is N, the channel
  is disabled and the requested terminal count is raised. For a memory-to-memory item one run is
  enough.
\<close>

theorem machine_dma_copies:
  assumes h: "h = machine_dma R ptrs first"
    and ok: "ram_ok m" "c < 8" "length (dm_ch (dh_get h m)) = 8"
    and ch: "copy_programmed (the_chan h c m) n sw dw" "N = n * 2 ^ sw"
    and regions: "ram_inside m (ch_src (the_chan h c m)) N" "ram_inside m (ch_dst (the_chan h c m)) N"
      "apart (ch_src (the_chan h c m)) (ch_dst (the_chan h c m)) N"
    and run: "m1 = (run_channel h c ^^ r) m"
  shows "\<exists>k. ram_byte m1 = spliced (ram_byte m) (ch_src (the_chan h c m)) (ch_dst (the_chan h c m)) k \<and>
      (ch_cfg (the_chan h c m1) AND 1 \<noteq> 0 \<and> ch_src (the_chan h c m1) = ch_src (the_chan h c m) + of_nat k \<and>
         ch_dst (the_chan h c m1) = ch_dst (the_chan h c m) + of_nat k \<and>
         unat (ch_ctrl (the_chan h c m1) AND 0xfff) * 2 ^ sw = N - k \<and>
         (r = 0 \<or> ch_cfg (the_chan h c m) AND 0x3800 \<noteq> 0) \<or>
       k = N \<and> ch_cfg (the_chan h c m1) AND 1 = 0 \<and>
         (ch_ctrl (the_chan h c m) AND 0x80000000 \<noteq> 0 \<longrightarrow> bit (dm_raw_tc (dh_get h m1)) c))"
proof -
  let ?ch = "the_chan h c m" and ?M = "ram_byte m"
  let ?s = "ch_src ?ch" and ?t = "ch_dst ?ch"
  have D: "dma_memory h (ram_like m) ram_byte (ram_region m)"
    unfolding h by (rule machine_dma.dma_memory_axioms)
  let ?copying = "dma_memory.copying h (ram_like m) ram_byte c ?M ?s ?t ?ch N sw dw"
  let ?copied = "dma_memory.copied h (ram_like m) ram_byte c ?M ?s ?t ?ch N"
  note defs = dma_memory.copying_def [OF D] dma_memory.at_def [OF D] dma_memory.copied_def [OF D]
  have regs: "ram_region m ?s N" "ram_region m ?t N" using regions by (simp_all add: ram_region_def)
  have n: "n < 4096" using copy_count [OF ch(1)] .
  have "of_nat n = ch_ctrl ?ch AND 0xfff" using ch(1) by (auto simp: copy_programmed_def)
  then have start: "?copying m"
    unfolding defs using ok n ch(2)
    by (intro exI [of _ 0] exI [of _ n]) (simp add: ram_like_def chan_at_def)
  note args = ch(1,2) ok(2) regs regions(3)
  have all: "?copying m1 \<or> ?copied m1"
    unfolding run by (rule dma_memory.ticks_copy [OF D start args])
  have m2m: "?copied m1" if nz: "r \<noteq> 0" and flow: "ch_cfg ?ch AND 0x3800 = 0"
  proof -
    obtain q where q: "r = Suc q" using nz not0_implies_Suc by blast
    have c1: "?copied (run_channel h c m)"
      by (rule dma_memory.run_channel_copies(2) [OF D start args]) (simp add: flow)
    have "(run_channel h c ^^ j) (run_channel h c m) = run_channel h c m" for j
      by (induction j) (simp_all add: dma_memory.run_channel_idle [OF D c1])
    then show ?thesis using c1 by (simp add: run q funpow_swap1)
  qed
  have en: "ch_cfg ?ch AND 1 \<noteq> 0"
  proof
    assume "ch_cfg ?ch AND 1 = 0"
    then have "(ch_cfg ?ch AND (1 OR 0x00040000)) AND 1 = 0" by (simp add: and.assoc)
    then show False using ch(1) by (simp add: copy_programmed_def)
  qed
  show ?thesis
  proof (cases "?copied m1")
    case True
    then show ?thesis by (intro exI [of _ N]) (simp add: defs)
  next
    case False
    then obtain k n1 where k: "ram_byte m1 = spliced ?M ?s ?t k" "chan_at ?s ?t ?ch n1 k k (the_chan h c m1)"
      "k + n1 * 2 ^ sw = N" "n1 < 4096"
      using all unfolding defs by blast
    have "unat (ch_ctrl (the_chan h c m1) AND 0xfff) = n1" by (rule ctrl_fields(6) [OF k(2,4)])
    moreover have "N - k = n1 * 2 ^ sw" using k(3) by linarith
    moreover have "r = 0 \<or> ch_cfg ?ch AND 0x3800 \<noteq> 0" using m2m False by blast
    ultimately show ?thesis using k(1,2) en by (intro exI [of _ k]) (simp add: chan_at_def)
  qed
qed

lemma apart_far:
  assumes "unat s + N \<le> unat t" "unat t + N \<le> 0x100000000"
  shows "apart s t N"
proof -
  have off: "unat (s + of_nat i) = unat s + i" "unat (t + of_nat i) = unat t + i" if "i < N" for i
    using assms that by (simp_all add: unat_word_ariths unat_of_nat)
  show ?thesis
    unfolding apart_def
  proof (intro allI impI notI)
    fix i j assume ij: "i < N" "j < N" and eq: "s + of_nat i = t + of_nat j"
    have "unat s + i = unat t + j"
      unfolding off(1) [OF ij(1), symmetric] off(2) [OF ij(2), symmetric] by (rule arg_cong [OF eq])
    then show False using assms(1) ij(1) by linarith
  qed
qed

lemma init_aperture:
  assumes "s5l8900_init got touch x base size' = Some m"
  shows "m_ram_base m = base \<and> m_ram_size m = size'"
proof -
  have base: "m_ram_base (foldl (\<lambda>m i. declare_stub (g i) (b i) (nm i) m) k is) = m_ram_base k \<and>
      m_ram_size (foldl (\<lambda>m i. declare_stub (g i) (b i) (nm i) m) k is) = m_ram_size k"
    for k :: "'a s5l8900" and g b nm and "is" :: "nat list"
  proof (induction "is" arbitrary: k)
    case (Cons i "is")
    have "m_ram_base (snd (s5l8900_add_stub got c d e l)) = m_ram_base l \<and>
        m_ram_size (snd (s5l8900_add_stub got c d e l)) = m_ram_size l" for got c d e and l :: "'a s5l8900"
      by (cases rule: add_stub_cases [of got c d e l]) simp_all
    then show ?case using Cons.IH by (simp add: declare_stub_def Let_def split_beta)
  qed simp
  have "m_ram_base (subscribe pin changed k) = m_ram_base k \<and> m_ram_size (subscribe pin changed k) = m_ram_size k"
    for pin changed and k :: "'a s5l8900"
    by (simp add: subscribe_def Let_def split_beta)
  then show ?thesis
    using assms base unfolding s5l8900_init_def Let_def by (auto split: if_splits)
qed

text \<open>A 4 KB machine whose first channel is to copy two words, a byte at a time.\<close>

definition demo_chan :: pl080_chan where
  "demo_chan = \<lparr>ch_src = 0x08000000, ch_dst = 0x08000100, ch_lli = 0, ch_ctrl = 0x8c080002, ch_cfg = 0x8001,
     ch_runs = 0, ch_bytes = 0\<rparr>"

lemma machine_dma_copies_witness:
  "\<exists>(m :: unit s5l8900) h m1. m1 = run_channel h 0 m \<and> the_chan h 0 m = demo_chan \<and>
     ram_byte m1 = spliced (ram_byte m) 0x08000000 0x08000100 8 \<and> ch_cfg (the_chan h 0 m1) AND 1 = 0"
proof -
  obtain m0 :: "unit s5l8900" where m0: "s5l8900_init (\<lambda>_. True) (\<lambda>_ _ y. y) () 0x08000000 0x1000 = Some m0"
    by (rule small_machine)
  define m where "m = m0\<lparr>m_dmac0 := s5l_pl080_reset\<lparr>dm_ch := demo_chan # replicate 7 zero_chan\<rparr>\<rparr>"
  define h where "h = machine_dma plain_rest (bus_ptrs flat_bus) True"
  have ram: "m_ram_base m = 0x08000000 \<and> m_ram_size m = 0x1000"
    using init_aperture [OF m0] by (simp add: m_def)
  have ok: "ram_ok m"
    using map_ok_ram [OF init_map [OF m0]] by (simp add: m_def ram_ok_def)
  have chan: "the_chan h 0 m = demo_chan" "length (dm_ch (dh_get h m)) = 8"
    by (simp_all add: the_chan_def h_def machine_dma_def m_def)
  have prog: "copy_programmed (the_chan h 0 m) 2 2 0"
    by (simp add: chan copy_programmed_def demo_chan_def)
  have ins: "ram_inside m (ch_src (the_chan h 0 m)) 8" "ram_inside m (ch_dst (the_chan h 0 m)) 8"
    using ok ram by (simp_all add: chan demo_chan_def ram_inside_def in_ram_def)
  have apart: "apart (ch_src (the_chan h 0 m)) (ch_dst (the_chan h 0 m)) 8"
    by (rule apart_far) (simp_all add: chan demo_chan_def)
  have "run_channel h 0 m = (run_channel h 0 ^^ 1) m" by simp
  note copies = machine_dma_copies [OF h_def ok _ chan(2) prog _ ins apart this]
  have sizes: "(0 :: nat) < 8" "(8 :: nat) = 2 * 2 ^ 2" by simp_all
  from copies [OF sizes]
  have "ch_cfg (the_chan h 0 m) AND 0x3800 = 0 \<Longrightarrow>
      ram_byte (run_channel h 0 m) = spliced (ram_byte m) (ch_src (the_chan h 0 m)) (ch_dst (the_chan h 0 m)) 8 \<and>
      ch_cfg (the_chan h 0 (run_channel h 0 m)) AND 1 = 0"
    by (elim exE conjE disjE) simp_all
  moreover have "ch_cfg (the_chan h 0 m) AND 0x3800 = 0" "ch_src (the_chan h 0 m) = 0x08000000"
    "ch_dst (the_chan h 0 m) = 0x08000100"
    by (simp_all add: chan(1) demo_chan_def)
  ultimately have "ram_byte (run_channel h 0 m) = spliced (ram_byte m) 0x08000000 0x08000100 8 \<and>
      ch_cfg (the_chan h 0 (run_channel h 0 m)) AND 1 = 0"
    by (simp only:)
  then show ?thesis using chan(1) by blast
qed

section \<open>What the guest stores it reads back\<close>

lemma find_stub_unique:
  assumes "map_ok m" "i < length (m_stubs m)" "in_window a n (st_base (m_stubs m ! i)) (st_size (m_stubs m ! i))"
  shows "find_stub m a n = Some i"
proof -
  have "\<not> in_window a n (st_base (m_stubs m ! j)) (st_size (m_stubs m ! j))" if "j < i" for j
  proof
    assume "in_window a n (st_base (m_stubs m ! j)) (st_size (m_stubs m ! j))"
    then have "s5l8900_overlaps (st_base (m_stubs m ! j)) (st_size (m_stubs m ! j))
        (st_base (m_stubs m ! i)) (st_size (m_stubs m ! i))"
      using assms(3) by (rule overlap_of_common_access)
    moreover have "windows_apart (map stub_window (m_stubs m))"
      using assms(1) by (simp add: map_ok_def windows_apart_def map_windows_def sorted_wrt_append)
    ultimately show False
      using that assms(2) by (auto simp: windows_apart_def sorted_wrt_iff_nth_less stub_window_def)
  qed
  then show ?thesis using assms(2,3) by (auto simp: find_stub_def find_Some_iff nth_upt)
qed

lemma note_device_fields [simp]:
  "m_stubs (note_device a v w m) = m_stubs m" "in_ram (note_device a v w m) b k = in_ram m b k"
  "m_nor_size (note_device a v w m) = m_nor_size m" "find_stub (note_device a v w m) b k = find_stub m b k"
  by (simp_all add: note_device_def in_ram_def find_stub_def)

lemma stub_read_value:
  assumes "map_ok m" "find_stub m a n = Some i" "n \<noteq> 0"
  shows "fst (bus_read R m a n) = stub_read (m_stubs m ! i) a n"
proof -
  have i: "i < length (m_stubs m)" using find_stub_some [OF assms(2)] by blast
  have "\<not> in_ram m a n" using one_owner(2) [OF assms(1,3)] assms(2) by auto
  moreover have "decode (m_nor_size m) a n = None"
    by (rule ccontr) (use one_owner(3) [OF assms(1,3)] assms(2) in simp)
  moreover have "stub_read (s\<lparr>st_reads := c\<rparr>) a n = stub_read s a n" for s c
    by (simp add: stub_read_def)
  ultimately show ?thesis
    using assms(2) i by (simp add: bus_read_def Let_def stub_touch_read_def)
qed

text \<open>
  C28:
  Memory keeps what is stored in it. A guest store of 1, 2 or 4 bytes to RAM or to a stub window is
  read back whole by a load of the same width, and byte by byte by byte loads: each byte lane holds
  its byte of the value, low byte at the low address, aligned or not.
\<close>

theorem bus_memory_roundtrip:
  assumes "map_ok m" "n \<in> {1, 2, 4}" "in_ram m a n \<or> find_stub m a n \<noteq> None"
  shows "fst (bus_read R (bus_write R m a v n) a n) = v AND mask (8 * n) \<and>
    (\<forall>i<n. fst (bus_read R (bus_write R m a v n) (a + of_nat i) 1) = shr v (8 * i) AND 0xff)"
proof (cases "in_ram m a n")
  case True
  then have "ram_inside m a n" using map_ok_ram [OF assms(1)] by (simp add: ram_inside_def)
  moreover have "n \<le> 4" using assms(2) by auto
  ultimately show ?thesis
    using ram.read_back [of m a n R v] ram.read_lane [of m a n _ R v] ram_inside_part(1) [of m a n _ 1] by simp
next
  case False
  then obtain i where i: "find_stub m a n = Some i" using assms(3) by auto
  have n: "n \<noteq> 0" "n \<le> 4" using assms(2) by auto
  have si: "i < length (m_stubs m)" "in_window a n (st_base (m_stubs m ! i)) (st_size (m_stubs m ! i))"
    using find_stub_some [OF i] by auto
  have dec: "decode (m_nor_size m) a n = None" using one_owner(3) [OF assms(1) n(1)] i by force
  define s where "s = (m_stubs m ! i)\<lparr>st_writes := st_writes (m_stubs m ! i) + 1\<rparr>"
  define m1 where "m1 = bus_write R m a v n"
  have m1: "m_stubs m1 = (m_stubs m)[i := stub_write s a v n]"
    using False dec i by (simp add: m1_def bus_write_def Let_def s_def)
  have inside: "stub_inside s a n"
    using assms(1) si by (auto simp: stub_inside_def s_def map_ok_def stub_ok_def list_all_length)
  have look: "fst (bus_read R m1 b k) = stub_read (stub_write s a v n) b k"
    if "k \<noteq> 0" "stub_inside s b k" for b k
  proof -
    have "m1 = note_device a v True (m\<lparr>m_level_dirty := True, m_stubs := (m_stubs m)[i := stub_write s a v n]\<rparr>)"
      using False dec i by (simp add: m1_def bus_write_def Let_def s_def)
    then have ok1: "map_ok m1" using stub_write_map [OF assms(1)] by (simp add: s_def)
    have "find_stub m1 b k = Some i"
      by (rule find_stub_unique [OF ok1]) (use si that m1 stub_write_base [of s a v n] in
          \<open>auto simp: stub_inside_def s_def\<close>)
    from stub_read_value [OF ok1 this that(1), of R] show ?thesis using m1 si(1) by simp
  qed
  have part: "stub_inside s (a + of_nat j) 1" if "j < n" for j
    using inside in_window_part [OF si(2), of j 1] that assms(1) si(1)
    by (auto simp: stub_inside_def s_def map_ok_def stub_ok_def list_all_length)
  show ?thesis
    using look [OF n(1) inside] look [OF one_neq_zero part] stub.read_back [OF inside n(2)]
      stub.read_lane [OF inside n(2) _ part] by (simp add: m1_def [symmetric])
qed

lemma bus_memory_roundtrip_witness:
  "\<exists>m :: unit s5l8900. map_ok m \<and>
     fst (bus_read plain_rest (bus_write plain_rest m 0x08000ffc 0x11223344 4) 0x08000ffc 4) = 0x11223344 AND mask 32"
proof -
  obtain m0 :: "unit s5l8900" where m0: "s5l8900_init (\<lambda>_. True) (\<lambda>_ _ y. y) () 0x08000000 0x1000 = Some m0"
    by (rule small_machine)
  note ok = init_map [OF m0]
  have "in_ram m0 0x08000ffc 4" using init_aperture [OF m0] by (simp add: in_ram_def)
  then have "in_ram m0 0x08000ffc 4 \<or> find_stub m0 0x08000ffc 4 \<noteq> None" ..
  from bus_memory_roundtrip [OF ok _ this, of plain_rest "0x11223344"] ok show ?thesis by auto
qed

section \<open>Host pointers and write watches\<close>

text \<open>
  C29:
  A host pointer stays inside RAM and a host write pointer avoids the watched pages. When the bus
  grants a host pointer for a range of physical addresses, the whole range lies in the RAM
  allocation and the bytes behind the pointer are those the bus reads there; when it grants one for
  writing, no page the range touches is watched, so every store to a watched page goes through the
  bus, where it is published: it makes every issued witness of the page stale.
\<close>

theorem host_pointers_sound:
  assumes ok: "ram_ok m" and watch: "m_ram_watch m = Some w" "watch_ok w"
  shows "(machine_host_ram m pa len = Some p \<longrightarrow>
      p + unat len \<le> length (m_ram m) \<and>
      (\<forall>i<unat len. fst (bus_read R m (pa + of_nat i) 1) = ucast (m_ram m ! (p + i)))) \<and>
    (machine_watched_ram_write m pa len = Some p \<longrightarrow>
      (\<forall>i. page_overlap w i pa len \<longrightarrow> wt_stamp w ! i = 0)) \<and>
    (in_ram m a n \<and> n \<le> 4 \<and> i < length (wt_stamp w) \<and> page_overlap w i a (of_nat n) \<and>
      s \<le> wt_sequence w \<and> s \<noteq> 0 \<longrightarrow>
      (\<exists>w1. m_ram_watch (bus_write R m a v n) = Some w1 \<and> stale s i w1))"
proof (intro conjI impI)
  assume "machine_host_ram m pa len = Some p"
  then have i: "ram_inside m pa (unat len)" "p = ram_offset m pa"
    using ok by (auto simp: machine_host_ram_def ram_inside_def split: if_splits)
  show "p + unat len \<le> length (m_ram m)" using ram_inside_fits [OF i(1)] i(2) by simp
  show "\<forall>i<unat len. fst (bus_read R m (pa + of_nat i) 1) = ucast (m_ram m ! (p + i))"
  proof (intro allI impI)
    fix j assume j: "j < unat len"
    have "ram_inside m (pa + of_nat j) 1" using ram_inside_part(1) [OF i(1), of j 1] j by simp
    then show "fst (bus_read R m (pa + of_nat j) 1) = ucast (m_ram m ! (p + j))"
      using ram_inside_byte [OF i(1) j] i(2) by (simp add: ram_read)
  qed
next
  assume "machine_watched_ram_write m pa len = Some p"
  then have u: "arm_ram_watch_unwatched (Some w) pa len"
    using watch(1) by (simp add: machine_watched_ram_write_def split: if_splits)
  show "\<forall>i. page_overlap w i pa len \<longrightarrow> wt_stamp w ! i = 0"
  proof (intro allI impI)
    fix i assume ov: "page_overlap w i pa len"
    have g: "wt_base w \<le> pa" "list_all (\<lambda>i. wt_stamp w ! i = 0) [watch_first w pa..<Suc (watch_last w pa len)]"
      using u by (simp_all add: arm_ram_watch_unwatched_def split: if_splits)
    have "unat (wt_base w) \<le> unat pa" using g(1) by (simp add: word_le_nat_alt)
    then have "watch_first w pa \<le> i" "i \<le> watch_last w pa len"
      using ov by (auto simp: page_overlap_def watch_first_def watch_last_def less_eq_div_iff_mult_less_eq
          div_le_mono less_Suc_eq_le [symmetric] div_less_iff_less_mult)
    then show "wt_stamp w ! i = 0" using g(2) by (simp add: list_all_iff del: upt_Suc)
  qed
next
  assume h: "in_ram m a n \<and> n \<le> 4 \<and> i < length (wt_stamp w) \<and> page_overlap w i a (of_nat n) \<and>
      s \<le> wt_sequence w \<and> s \<noteq> 0"
  have "ram_inside m a n" using ok h by (simp add: ram_inside_def)
  then have "m_ram_watch (bus_write R m a v n) = Some (arm_ram_watch_changed w a (of_nat n))"
    by (simp add: ram_write ram_store_def s5l8900_ram_changed_def watch(1))
  then show "\<exists>w1. m_ram_watch (bus_write R m a v n) = Some w1 \<and> stale s i w1"
    using changed_stale [OF watch(2)] h by simp
qed

lemma host_pointers_sound_witness:
  "\<exists>(m :: unit s5l8900) w. m_ram_watch m = Some w \<and> machine_host_ram m 0x08000010 8 = Some 16 \<and>
     16 + 8 \<le> length (m_ram m)"
proof -
  obtain m0 :: "unit s5l8900" where m0: "s5l8900_init (\<lambda>_. True) (\<lambda>_ _ y. y) () 0x08000000 0x1000 = Some m0"
    by (rule small_machine)
  obtain w where w: "arm_ram_watch_create True (Some 0) 0x08000000 0x1000 = Some w"
    by (simp add: arm_ram_watch_create_def)
  define m where "m = m0\<lparr>m_ram_watch := Some w\<rparr>"
  have ok: "ram_ok m" using map_ok_ram [OF init_map [OF m0]] by (simp add: m_def ram_ok_def)
  have host: "machine_host_ram m 0x08000010 8 = Some 16"
    using init_aperture [OF m0] by (simp add: machine_host_ram_def m_def in_ram_def ram_offset_def)
  have w1: "m_ram_watch m = Some w" by (simp add: m_def)
  from host_pointers_sound [OF ok w1 created_ok [OF w], of "0x08000010" 8 16 plain_rest] host
  have "16 + 8 \<le> length (m_ram m)" by simp
  then show ?thesis using host w1 by blast
qed

end
