(* ===== verification/Machine_Tick.thy ===== *)
theory Machine_Tick
  imports Machine_Ram
begin

text \<open>
  The machine's time (core/src/soc/machine.c): the conversion of CPU ticks into timebase ticks, the
  refresh that advances the devices and recomputes what the CPU sees, the wake sources, and Wait For
  Interrupt with its host pacing. The lemmas show that no time is lost or invented, that every device
  line reaches the CPU through the enable and select registers, and that a wait ends on the tick of
  the first edge.
\<close>

unbundle bit_operations_syntax

section \<open>State\<close>

text \<open>The fields of the active host clock that a tick and a wait touch.\<close>

record active_clock =
  ac_last_host_ns :: u64
  ac_guest_ticks_since_sync :: u64
  ac_fraction :: u64
  ac_idle_oversleep_ns :: u64
  ac_idle_credit_ticks :: u64
  ac_idle_repaid_ticks :: u64
  ac_input_guard_host_ns :: u64
  ac_input_guards :: u64
  ac_input_guard_quiesces :: u64
  ac_anchor_valid :: bool
  ac_input_guard :: bool
  ac_input_guard_host_valid :: bool
  ac_deadline_shield :: bool

text \<open>
  The devices and memory behind the bus, the CPU's two interrupt inputs, and the clocks. \<open>mc_now\<close> and
  \<open>mc_sleep\<close> are the host's callbacks, or \<open>None\<close>; their own state belongs to \<open>'x\<close>.
\<close>

record 'x machine =
  mc_soc :: "'x s5l8900"
  mc_irq_line :: bool
  mc_fiq_line :: bool
  mc_cpu_hz :: u32
  mc_tb_hz :: u32
  mc_tb_accum :: u64
  mc_ext_seen :: u32
  mc_now :: "('x \<Rightarrow> (bool \<times> u64) \<times> 'x) option"
  mc_sleep :: "(u64 \<Rightarrow> 'x \<Rightarrow> bool \<times> 'x) option"
  mc_clock :: active_clock
  mc_wfi_paced_waits :: u64
  mc_wfi_paced_wait_ns :: u64
  mc_wfi_paced_partial_advances :: u64
  mc_wfi_paced_failures :: u64
  mc_wfi_pace_yield :: bool

datatype wake_kind = WAKE_NEVER | WAKE_AT u32 | WAKE_UNKNOWN

text \<open>
  The devices that have no theory of their own, as the refresh and the wake table use them:
  \<open>k_audio_tick\<close> reports a clock edge, \<open>k_audio_next\<close> the distance to the next sample and
  \<open>k_clock_next\<close> to the next clock edge; \<open>k_trace\<close> is the power trace.
\<close>

record 'x soc_clock =
  k_rest :: "'x soc_rest"
  k_ptrs :: bus_ptrs
  k_eager :: bool
  k_clcd_tick :: "u32 \<Rightarrow> 'x \<Rightarrow> bool \<times> 'x"
  k_clcd_edge :: "'x \<Rightarrow> wake_kind"
  k_tvout_tick :: "u32 \<Rightarrow> 'x \<Rightarrow> bool \<times> 'x"
  k_tvout_edge :: "'x \<Rightarrow> wake_kind"
  k_mbx_irq :: "'x \<Rightarrow> bool"
  k_usb_irq :: "'x \<Rightarrow> bool"
  k_i2c_irq :: "nat \<Rightarrow> 'x \<Rightarrow> bool"
  k_pmu_tick :: "u32 \<Rightarrow> 'x \<Rightarrow> 'x"
  k_pmu_irq :: "'x \<Rightarrow> bool"
  k_touch_irq :: "'x \<Rightarrow> bool"
  k_touch_atn :: "'x \<Rightarrow> bool"
  k_audio_tick :: "u32 \<Rightarrow> u32 \<Rightarrow> 'x \<Rightarrow> bool \<times> 'x"
  k_audio_next :: "u32 \<Rightarrow> 'x \<Rightarrow> u32"
  k_clock_next :: "u32 \<Rightarrow> 'x \<Rightarrow> u32"
  k_trace :: "u32 \<Rightarrow> 'x machine \<Rightarrow> 'x"

section \<open>Refresh\<close>

definition ext_inputs :: "'x soc_clock \<Rightarrow> 'x s5l8900 \<Rightarrow> u32" where
  "ext_inputs K s =
     of_nat (u_rx_count (m_uart4 s)) OR shl (ucast (bt_pressed (m_buttons s))) 8 OR
     shl (if k_touch_atn K (m_rest s) then 1 else 0) 16 OR
     shl (if k_usb_irq K (m_rest s) then 1 else 0) 17"

abbreviation IRQ_TIMER :: nat where "IRQ_TIMER \<equiv> 7"
abbreviation IRQ_SPI0 :: nat where "IRQ_SPI0 \<equiv> 9"
abbreviation IRQ_SPI1 :: nat where "IRQ_SPI1 \<equiv> 10"
abbreviation IRQ_MBX :: nat where "IRQ_MBX \<equiv> 12"
abbreviation IRQ_CLCD :: nat where "IRQ_CLCD \<equiv> 13"
abbreviation IRQ_DMAC0 :: nat where "IRQ_DMAC0 \<equiv> 16"
abbreviation IRQ_DMAC1 :: nat where "IRQ_DMAC1 \<equiv> 17"
abbreviation IRQ_USB_OTG :: nat where "IRQ_USB_OTG \<equiv> 19"
abbreviation IRQ_I2C0 :: nat where "IRQ_I2C0 \<equiv> 21"
abbreviation IRQ_I2C1 :: nat where "IRQ_I2C1 \<equiv> 22"
abbreviation IRQ_UART4 :: nat where "IRQ_UART4 \<equiv> 28"
abbreviation IRQ_TVOUT :: nat where "IRQ_TVOUT \<equiv> 30"

definition vic0_line :: "nat \<Rightarrow> bool \<Rightarrow> 'x s5l8900 \<Rightarrow> 'x s5l8900" where
  "vic0_line k level s = s\<lparr>m_vic0 := s5l_vic_set_line (m_vic0 s) k level\<rparr>"

text \<open>The devices up to the DMA controllers, in the order of the code.\<close>

definition refresh_front :: "'x soc_clock \<Rightarrow> u32 \<Rightarrow> u32 \<Rightarrow> 'x s5l8900 \<Rightarrow> 'x s5l8900" where
  "refresh_front K tb_hz tb s0 =
     (let s = s0\<lparr>m_level_dirty := False\<rparr>;
          (irq, t) = s5l_timer_tick (m_timer s) tb;
          s = vic0_line IRQ_TIMER irq (s\<lparr>m_timer := t\<rparr>);
          (irq, x) = k_clcd_tick K tb (m_rest s);
          s = vic0_line IRQ_CLCD irq (s\<lparr>m_rest := x\<rparr>);
          s = vic0_line IRQ_MBX (k_mbx_irq K (m_rest s)) s;
          s = vic0_line IRQ_USB_OTG (k_usb_irq K (m_rest s)) s;
          (irq, x) = k_tvout_tick K tb (m_rest s);
          s = vic0_line IRQ_TVOUT irq (s\<lparr>m_rest := x\<rparr>);
          s = s\<lparr>m_rest := k_pmu_tick K tb (m_rest s)\<rparr>;
          s = vic0_line IRQ_I2C0 (k_i2c_irq K 0 (m_rest s)) s;
          s = vic0_line IRQ_I2C1 (k_i2c_irq K 1 (m_rest s)) s;
          s = s\<lparr>m_spi0 := s5l_spi_irq_note (m_spi0 s), m_spi1 := s5l_spi_irq_note (m_spi1 s)\<rparr>;
          s = vic0_line IRQ_SPI0 (s5l_spi_irq (m_spi0 s)) s;
          s = vic0_line IRQ_SPI1 (s5l_spi_irq (m_spi1 s)) s;
          (b, x) = s5l_spi_step (r_spi0 (k_rest K)) (m_spi0 s) (m_rest s);
          s = s\<lparr>m_spi0 := b, m_rest := x\<rparr>;
          (b, x) = s5l_spi_step (r_spi1 (k_rest K)) (m_spi1 s) (m_rest s);
          s = s\<lparr>m_spi1 := b, m_rest := x\<rparr>
      in s\<lparr>m_rest := snd (k_audio_tick K 0 tb_hz (m_rest s))\<rparr>)"

definition run_dmac :: "'x soc_clock \<Rightarrow> bool \<Rightarrow> 'x s5l8900 \<Rightarrow> 'x s5l8900" where
  "run_dmac K first s =
     (let (irq, s1) = s5l_pl080_run (machine_dma (k_rest K) (k_ptrs K) first) (s\<lparr>m_dma_access_active := True\<rparr>)
      in vic0_line (if first then IRQ_DMAC0 else IRQ_DMAC1) irq (s1\<lparr>m_dma_access_active := False\<rparr>))"

text \<open>
  The loop that runs the DMA controllers between the audio samples: \<open>slices\<close> counts its rounds and
  \<open>edge\<close> remembers whether the serial clock moved.
\<close>

function refresh_dma :: "'x soc_clock \<Rightarrow> u32 \<Rightarrow> nat \<Rightarrow> nat \<Rightarrow> bool \<Rightarrow> 'x s5l8900 \<Rightarrow> bool \<times> 'x s5l8900" where
  "refresh_dma K tb_hz remaining slices edge s0 =
     (let s = run_dmac K False (run_dmac K True s0)
      in if remaining = 0 then (edge, s)
         else
           let next_step = unat (k_audio_next K tb_hz (m_rest s))
           in if next_step = 0 \<or> next_step > remaining then
                let (e, x) = k_audio_tick K (of_nat remaining) tb_hz (m_rest s)
                in (edge \<or> e, s\<lparr>m_rest := x\<rparr>)
              else
                let n = (if slices \<ge> 4096 then remaining else next_step);
                    (e, x) = k_audio_tick K (of_nat n) tb_hz (m_rest s)
                in refresh_dma K tb_hz (remaining - n) (Suc slices) (edge \<or> e) (s\<lparr>m_rest := x\<rparr>))"
  by pat_completeness auto
termination
  by (relation "measure (\<lambda>(K, tb_hz, remaining, slices, edge, s). remaining)") (auto split: if_splits)

declare refresh_dma.simps [simp del]

text \<open>One group of the GPIO controller drives its line of the two VICs.\<close>

definition cascade_group :: "nat \<Rightarrow> 'x s5l8900 \<Rightarrow> 'x s5l8900" where
  "cascade_group gr s =
     (let line = s5l_gpioic_cascade gr; level = s5l_gpioic_group_irq (m_gpioic s) gr
      in if line \<ge> 32 * 2 then s
         else if line div 32 = 0 then s\<lparr>m_vic0 := s5l_vic_set_line (m_vic0 s) (line mod 32) level\<rparr>
         else s\<lparr>m_vic1 := s5l_vic_set_line (m_vic1 s) (line mod 32) level\<rparr>)"

definition refresh_back :: "'x soc_clock \<Rightarrow> bool \<Rightarrow> 'x s5l8900 \<Rightarrow> 'x s5l8900" where
  "refresh_back K edge s0 =
     (let s = (if edge then s0\<lparr>m_gpioic := s5l_gpioic_set_line 134 False
                 (s5l_gpioic_set_line 134 True (s5l_gpioic_set_line 134 False (m_gpioic s0)))\<rparr> else s0);
          s = vic0_line IRQ_UART4 (s5l_uart_rx_irq (m_uart4 s)) s;
          s = s\<lparr>m_gpioic := s5l_gpioic_set_line 85 (\<not> k_pmu_irq K (m_rest s)) (m_gpioic s)\<rparr>;
          s = s\<lparr>m_gpioic := s5l_gpioic_set_line 155 (k_touch_irq K (m_rest s)) (m_gpioic s)\<rparr>;
          (calls, gpio, ic) = s5l_buttons_apply (m_buttons s) (Some (m_gpio s)) (Some (m_gpioic s));
          s = make_calls calls (s\<lparr>m_gpio := the gpio, m_gpioic := the ic\<rparr>)
      in foldl (\<lambda>s gr. cascade_group gr s) s [0..<GROUPS])"

definition s5l8900_refresh :: "'x soc_clock \<Rightarrow> u32 \<Rightarrow> 'x machine \<Rightarrow> 'x machine" where
  "s5l8900_refresh K tb m =
     (let s = refresh_front K (mc_tb_hz m) tb (mc_soc m);
          (edge, s) = refresh_dma K (mc_tb_hz m) (unat tb) 0 False s;
          s = refresh_back K edge s;
          m1 = m\<lparr>mc_soc := s,
                 mc_irq_line := s5l_vic_irq (m_vic0 s) \<or> s5l_vic_irq (m_vic1 s),
                 mc_fiq_line := s5l_vic_fiq (m_vic0 s) \<or> s5l_vic_fiq (m_vic1 s),
                 mc_ext_seen := ext_inputs K s\<rparr>
      in m1\<lparr>mc_soc := s\<lparr>m_rest := k_trace K tb m1\<rparr>\<rparr>)"

section \<open>The active host clock\<close>

text \<open>\<open>active_clock_counter_add\<close>: counters stop at their maximum.\<close>

definition active_clock_counter_add :: "u64 \<Rightarrow> u64 \<Rightarrow> u64" where
  "active_clock_counter_add c v = (if 0xffffffffffffffff - c < v then 0xffffffffffffffff else c + v)"

definition active_clock_reset_anchor :: "active_clock \<Rightarrow> active_clock" where
  "active_clock_reset_anchor c =
     c\<lparr>ac_last_host_ns := 0, ac_guest_ticks_since_sync := 0, ac_fraction := 0, ac_idle_oversleep_ns := 0,
       ac_idle_credit_ticks := 0, ac_idle_repaid_ticks := 0, ac_anchor_valid := False\<rparr>"

definition active_clock_begin_input_guard :: "'x machine \<Rightarrow> 'x machine" where
  "active_clock_begin_input_guard m =
     (if mc_now m = None then m
      else
        let c = mc_clock m
        in m\<lparr>mc_clock := active_clock_reset_anchor
               (c\<lparr>ac_input_guards := active_clock_counter_add (ac_input_guards c) 1,
                  ac_input_guard_host_ns := 0, ac_input_guard := True,
                  ac_input_guard_host_valid := False, ac_deadline_shield := False\<rparr>)\<rparr>)"

definition active_clock_quiesce_input_guard :: "'x machine \<Rightarrow> 'x machine" where
  "active_clock_quiesce_input_guard m =
     (if \<not> ac_input_guard (mc_clock m) then m
      else
        let c = mc_clock m
        in m\<lparr>mc_clock := active_clock_reset_anchor
               (c\<lparr>ac_input_guard_quiesces := active_clock_counter_add (ac_input_guard_quiesces c) 1,
                  ac_input_guard_host_ns := 0, ac_input_guard := False,
                  ac_input_guard_host_valid := False, ac_deadline_shield := False\<rparr>)\<rparr>)"

section \<open>Tick\<close>

definition tick_host :: "'x soc_clock \<Rightarrow> u32 \<Rightarrow> 'x machine \<Rightarrow> 'x machine" where
  "tick_host K n m =
     (let touch = shl 1 16 :: u32;
          m1 = (if mc_now m \<noteq> None \<and> ext_inputs K (mc_soc m) AND touch \<noteq> 0 \<and> mc_ext_seen m AND touch = 0
                then active_clock_begin_input_guard m else m);
          c = mc_clock m1
      in if mc_now m1 \<noteq> None \<and> n \<noteq> 0
         then m1\<lparr>mc_clock := c\<lparr>ac_guest_ticks_since_sync :=
                 (if 0xffffffffffffffff - ac_guest_ticks_since_sync c < ucast n then 0xffffffffffffffff
                  else ac_guest_ticks_since_sync c + ucast n)\<rparr>\<rparr>
         else m1)"

definition s5l8900_tick :: "'x soc_clock \<Rightarrow> u32 \<Rightarrow> 'x machine \<Rightarrow> 'x machine" where
  "s5l8900_tick K n m0 =
     (let inputs_at_entry = ext_inputs K (mc_soc m0); m = tick_host K n m0
      in if mc_cpu_hz m \<noteq> 0 \<and> mc_tb_hz m \<noteq> 0 then
           let accum = mc_tb_accum m + ucast n * ucast (mc_tb_hz m); m1 = m\<lparr>mc_tb_accum := accum\<rparr>
           in if n \<noteq> 0 \<and> \<not> m_level_dirty (mc_soc m1) \<and> \<not> k_eager K \<and> accum < ucast (mc_cpu_hz m1) \<and>
                 inputs_at_entry = mc_ext_seen m1 then m1
              else s5l8900_refresh K (ucast (accum div ucast (mc_cpu_hz m1)))
                     (m1\<lparr>mc_tb_accum := accum mod ucast (mc_cpu_hz m1)\<rparr>)
         else s5l8900_refresh K n m)"

section \<open>Wake sources\<close>

record 'x wake_source =
  ws_name :: string
  ws_line :: nat
  ws_next_edge :: "('x soc_clock \<Rightarrow> 'x machine \<Rightarrow> wake_kind) option"

definition wake_line_enabled :: "'x machine \<Rightarrow> nat \<Rightarrow> bool" where
  "wake_line_enabled m line \<longleftrightarrow>
     (if line \<ge> 32 * 2 then False
      else (if line div 32 = 0 then v_enable (m_vic0 (mc_soc m)) else v_enable (m_vic1 (mc_soc m)))
             AND shl 1 (line mod 32) \<noteq> 0)"

definition wake_edge_timer :: "'x soc_clock \<Rightarrow> 'x machine \<Rightarrow> wake_kind" where
  "wake_edge_timer K m =
     (let until = s5l_timer_ticks_to_irq (m_timer (mc_soc m)) in if until = 0 then WAKE_NEVER else WAKE_AT until)"

definition wake_edge_clcd :: "'x soc_clock \<Rightarrow> 'x machine \<Rightarrow> wake_kind" where
  "wake_edge_clcd K m = k_clcd_edge K (m_rest (mc_soc m))"

definition wake_edge_tvout :: "'x soc_clock \<Rightarrow> 'x machine \<Rightarrow> wake_kind" where
  "wake_edge_tvout K m = k_tvout_edge K (m_rest (mc_soc m))"

text \<open>\<open>wake_edge_spi0\<close>, \<open>wake_edge_gpio\<close>, \<open>wake_edge_uart4\<close> and \<open>wake_edge_usb\<close>.\<close>

definition wake_never :: "'x soc_clock \<Rightarrow> 'x machine \<Rightarrow> wake_kind" where
  "wake_never K m = WAKE_NEVER"

definition wake_edge_gpio4 :: "'x soc_clock \<Rightarrow> 'x machine \<Rightarrow> wake_kind" where
  "wake_edge_gpio4 K m =
     (let next_edge = k_clock_next K (mc_tb_hz m) (m_rest (mc_soc m))
      in if gi_en (m_gpioic (mc_soc m)) ! 4 AND shl 1 6 \<noteq> 0 \<and> next_edge \<noteq> 0 then WAKE_AT next_edge else WAKE_NEVER)"

definition wake_edge_dmac :: "'x soc_clock \<Rightarrow> 'x machine \<Rightarrow> wake_kind" where
  "wake_edge_dmac K m =
     (let next_edge = k_audio_next K (mc_tb_hz m) (m_rest (mc_soc m))
      in if next_edge \<noteq> 0 then WAKE_AT next_edge else WAKE_NEVER)"

definition source_entry ::
  "string \<Rightarrow> nat \<Rightarrow> ('x soc_clock \<Rightarrow> 'x machine \<Rightarrow> wake_kind) \<Rightarrow> 'x wake_source" where
  "source_entry name line edge = \<lparr>ws_name = name, ws_line = line, ws_next_edge = Some edge\<rparr>"

definition WAKE_SOURCES :: "'x wake_source list" where
  "WAKE_SOURCES =
     [source_entry ''timer'' IRQ_TIMER wake_edge_timer,
      source_entry ''clcd'' IRQ_CLCD wake_edge_clcd,
      source_entry ''tvout'' IRQ_TVOUT wake_edge_tvout,
      source_entry ''spi0'' IRQ_SPI0 wake_never,
      source_entry ''spi1'' IRQ_SPI1 wake_never,
      source_entry ''gpio-group0'' 33 wake_never,
      source_entry ''gpio-group1'' 32 wake_never,
      source_entry ''gpio-group2'' 31 wake_never,
      source_entry ''gpio-group3'' 3 wake_never,
      source_entry ''gpio-group4'' 2 wake_edge_gpio4,
      source_entry ''gpio-group5'' 1 wake_never,
      source_entry ''gpio-group6'' 0 wake_never,
      source_entry ''uart4-rx'' IRQ_UART4 wake_never,
      source_entry ''dmac0'' IRQ_DMAC0 wake_edge_dmac,
      source_entry ''dmac1'' IRQ_DMAC1 wake_edge_dmac,
      source_entry ''usb-otg'' IRQ_USB_OTG wake_never]"

fun next_wake_loop :: "'x soc_clock \<Rightarrow> 'x machine \<Rightarrow> 'x wake_source list \<Rightarrow> u32 option \<Rightarrow> wake_kind" where
  "next_wake_loop K m [] best = (case best of None \<Rightarrow> WAKE_NEVER | Some b \<Rightarrow> WAKE_AT b)"
| "next_wake_loop K m (src # srcs) best =
     (if \<not> wake_line_enabled m (ws_line src) then next_wake_loop K m srcs best
      else (case ws_next_edge src of None \<Rightarrow> WAKE_UNKNOWN
        | Some edge \<Rightarrow>
            (case edge K m of WAKE_NEVER \<Rightarrow> next_wake_loop K m srcs best
             | WAKE_UNKNOWN \<Rightarrow> WAKE_UNKNOWN
             | WAKE_AT t \<Rightarrow>
                 if t = 0 then WAKE_UNKNOWN
                 else next_wake_loop K m srcs
                        (Some (case best of None \<Rightarrow> t | Some b \<Rightarrow> if t < b then t else b)))))"

definition s5l8900_next_wake :: "'x soc_clock \<Rightarrow> 'x machine \<Rightarrow> 'x wake_source list \<Rightarrow> wake_kind" where
  "s5l8900_next_wake K m srcs = next_wake_loop K m srcs None"

section \<open>Wait For Interrupt\<close>

definition line_up :: "'x machine \<Rightarrow> bool" where
  "line_up m \<longleftrightarrow> mc_irq_line m \<or> mc_fiq_line m"

text \<open>The CPU ticks to an edge, or \<open>None\<close> when the clock rates do not allow the wait.\<close>

definition wfi_cpu_ticks :: "'x machine \<Rightarrow> u32 \<Rightarrow> u64 option" where
  "wfi_cpu_ticks m edge_tb =
     (if mc_cpu_hz m \<noteq> 0 \<and> mc_tb_hz m \<noteq> 0 then
        if mc_tb_hz m > mc_cpu_hz m \<or> mc_tb_accum m \<ge> ucast (mc_cpu_hz m) then None
        else
          let need = ucast edge_tb * ucast (mc_cpu_hz m) - mc_tb_accum m; tb = ucast (mc_tb_hz m)
          in Some (need div tb + (if need mod tb \<noteq> 0 then 1 else 0))
      else Some (ucast edge_tb))"

text \<open>The loop that splits a long wait into 32-bit ticks.\<close>

function wfi_advance :: "'x soc_clock \<Rightarrow> u64 \<Rightarrow> 'x machine \<Rightarrow> bool \<times> 'x machine" where
  "wfi_advance K cpu_ticks m =
     (if cpu_ticks > 0xffffffff then
        let m1 = s5l8900_tick K 0xffffffff m
        in if line_up m1 then (True, m1) else wfi_advance K (cpu_ticks - 0xffffffff) m1
      else
        let m1 = (if cpu_ticks \<noteq> 0 then s5l8900_tick K (ucast cpu_ticks) m else m)
        in (line_up m1, m1))"
  by pat_completeness auto
termination
  by (relation "measure (\<lambda>(K, cpu_ticks, m). unat cpu_ticks)") (auto simp: word_less_nat_alt unat_sub_if')

declare wfi_advance.simps [simp del]

text \<open>
  One host sleep of \<open>wait_ns\<close>, measured by the host clock when it is installed and anchored. \<open>Inl\<close>
  is a failed sleep.
\<close>

definition host_now :: "'x machine \<Rightarrow> (bool \<times> u64) \<times> 'x machine" where
  "host_now m =
     (case mc_now m of None \<Rightarrow> ((False, 0), m)
      | Some now \<Rightarrow> let (r, x) = now (m_rest (mc_soc m)) in (r, m\<lparr>mc_soc := (mc_soc m)\<lparr>m_rest := x\<rparr>\<rparr>))"

definition host_sleep :: "(u64 \<Rightarrow> 'x \<Rightarrow> bool \<times> 'x) \<Rightarrow> u64 \<Rightarrow> 'x machine \<Rightarrow> bool \<times> 'x machine" where
  "host_sleep sleep ns m =
     (let (ok, x) = sleep ns (m_rest (mc_soc m)) in (ok, m\<lparr>mc_soc := (mc_soc m)\<lparr>m_rest := x\<rparr>\<rparr>))"

definition measure_idle :: "'x machine \<Rightarrow> (bool \<times> u64) \<times> 'x machine" where
  "measure_idle m =
     (let c = mc_clock m
      in if mc_now m \<noteq> None \<and> ac_anchor_valid c \<and> \<not> ac_deadline_shield c then
           let ((ok, start), m1) = host_now m
           in if ok \<and> start \<ge> ac_last_host_ns c then ((True, start), m1)
              else ((False, start), m1\<lparr>mc_clock := c\<lparr>ac_idle_credit_ticks := 0\<rparr>\<rparr>)
         else ((False, 0), m\<lparr>mc_clock := c\<lparr>ac_idle_credit_ticks := 0\<rparr>\<rparr>))"

definition note_oversleep :: "u64 \<Rightarrow> u64 \<Rightarrow> 'x machine \<Rightarrow> 'x machine" where
  "note_oversleep start wait_ns m =
     (let ((ok, stop), m1) = host_now m; c = mc_clock m1
      in if ok \<and> stop \<ge> start \<and> stop - start > wait_ns then
           let oversleep = stop - start - wait_ns; room = 8000000 - ac_idle_oversleep_ns c
           in m1\<lparr>mc_clock := c\<lparr>ac_idle_oversleep_ns :=
                   ac_idle_oversleep_ns c + (if oversleep < room then oversleep else room)\<rparr>\<rparr>
         else m1)"

definition wfi_wait_ns :: "u64 \<Rightarrow> u64 \<Rightarrow> u32 \<Rightarrow> u64" where
  "wfi_wait_ns paced_ticks wait_ticks cpu_hz =
     (if paced_ticks = 0 then 8000000
      else let scaled = wait_ticks * 1000000000; hz = ucast cpu_hz
           in scaled div hz + (if scaled mod hz \<noteq> 0 then 1 else 0))"

text \<open>
  The pause of \<open>paced_ticks\<close>: time withheld earlier is credited, the host sleeps for the rest, and what
  it slept too long is noted. The result says whether the host slept.
\<close>

definition pace_sleep :: "(u64 \<Rightarrow> 'x \<Rightarrow> bool \<times> 'x) \<Rightarrow> u64 \<Rightarrow> 'x machine \<Rightarrow> bool \<times> 'x machine" where
  "pace_sleep sleep paced_ticks m1 =
     (let ((idle_measured, idle_start), m2) = measure_idle m1;
          credit = ac_idle_credit_ticks (mc_clock m2);
          idle_credit = (if credit < paced_ticks then credit else paced_ticks);
          wait_ns = wfi_wait_ns paced_ticks (paced_ticks - idle_credit) (mc_cpu_hz m2);
          m3 = m2\<lparr>mc_wfi_pace_yield := True,
                  mc_wfi_paced_waits := (if wait_ns \<noteq> 0 then mc_wfi_paced_waits m2 + 1 else mc_wfi_paced_waits m2),
                  mc_wfi_paced_wait_ns := active_clock_counter_add (mc_wfi_paced_wait_ns m2) wait_ns\<rparr>;
          (slept, m4) = (if wait_ns \<noteq> 0 then host_sleep sleep wait_ns m3 else (True, m3))
      in if \<not> slept then
           (False, m4\<lparr>mc_wfi_paced_failures := mc_wfi_paced_failures m4 + 1,
                      mc_clock := (mc_clock m4)\<lparr>ac_idle_credit_ticks := 0\<rparr>\<rparr>)
         else
           let m5 = (if wait_ns \<noteq> 0 \<and> idle_measured then note_oversleep idle_start wait_ns m4 else m4);
               c = mc_clock m5
           in (True, m5\<lparr>mc_clock := c\<lparr>ac_idle_credit_ticks := ac_idle_credit_ticks c - idle_credit,
                                       ac_idle_repaid_ticks := ac_idle_repaid_ticks c + idle_credit\<rparr>\<rparr>))"

text \<open>The pacing of a wait: \<open>Inl\<close> is the answer of the wait, \<open>Inr\<close> goes on to the advance.\<close>

definition wfi_pace ::
  "'x soc_clock \<Rightarrow> (u64 \<Rightarrow> 'x \<Rightarrow> bool \<times> 'x) \<Rightarrow> u64 \<Rightarrow> 'x machine \<Rightarrow> (bool \<times> 'x machine) + 'x machine" where
  "wfi_pace K sleep cpu_ticks m0 =
     (if mc_cpu_hz m0 = 0 \<or> mc_tb_hz m0 = 0 \<or> mc_tb_hz m0 > mc_cpu_hz m0
      then Inl (False, m0\<lparr>mc_wfi_pace_yield := True, mc_wfi_paced_failures := mc_wfi_paced_failures m0 + 1\<rparr>)
      else
        let m1 = (if ac_input_guard (mc_clock m0) \<and>
                     (ac_deadline_shield (mc_clock m0) \<or> cpu_ticks \<ge> ucast (mc_cpu_hz m0) * 1)
                  then active_clock_quiesce_input_guard m0 else m0);
            slice_ticks = (8000000 * ucast (mc_cpu_hz m1)) div 1000000000;
            partial = cpu_ticks > slice_ticks;
            paced_ticks = (if partial then slice_ticks else cpu_ticks);
            (slept, m2) = pace_sleep sleep paced_ticks m1
        in if \<not> slept then let m3 = s5l8900_tick K 0 m2 in Inl (line_up m3, m3)
           else if partial then
             let m3 = s5l8900_tick K (ucast paced_ticks)
                   (m2\<lparr>mc_wfi_paced_partial_advances := mc_wfi_paced_partial_advances m2 + 1\<rparr>)
             in Inl (line_up m3, m3)
           else Inr m2)"

definition machine_wait_for_interrupt :: "'x soc_clock \<Rightarrow> 'x machine \<Rightarrow> bool \<times> 'x machine" where
  "machine_wait_for_interrupt K m =
     (if line_up m then (True, m)
      else
        let m1 = s5l8900_tick K 0 m
        in if line_up m1 then (True, m1)
           else (case s5l8900_next_wake K m1 WAKE_SOURCES of
                   WAKE_AT edge_tb \<Rightarrow>
                     (case wfi_cpu_ticks m1 edge_tb of
                        None \<Rightarrow> (False, m1)
                      | Some cpu_ticks \<Rightarrow>
                          (case mc_sleep m1 of
                             None \<Rightarrow> wfi_advance K cpu_ticks m1
                           | Some sleep \<Rightarrow>
                               (case wfi_pace K sleep cpu_ticks m1 of
                                  Inl r \<Rightarrow> r | Inr m2 \<Rightarrow> wfi_advance K cpu_ticks m2)))
                 | _ \<Rightarrow> (False, m1)))"

section \<open>What a tick is\<close>

text \<open>
  \<open>elapses K m n m'\<close>: from \<open>m\<close>, refreshes that together carried \<open>n\<close> timebase ticks lead to \<open>m'\<close>, with
  nothing in between but the host's own fields (its clock, its counters and the fraction of a tick
  not yet carried).
\<close>

definition same_guest :: "'x machine \<Rightarrow> 'x machine \<Rightarrow> bool" where
  "same_guest m m' \<longleftrightarrow> mc_soc m' = (mc_soc m)\<lparr>m_rest := m_rest (mc_soc m')\<rparr> \<and>
     mc_irq_line m' = mc_irq_line m \<and> mc_fiq_line m' = mc_fiq_line m \<and> mc_cpu_hz m' = mc_cpu_hz m \<and>
     mc_tb_hz m' = mc_tb_hz m \<and> mc_ext_seen m' = mc_ext_seen m \<and> mc_now m' = mc_now m \<and> mc_sleep m' = mc_sleep m"

inductive elapses :: "'x soc_clock \<Rightarrow> 'x machine \<Rightarrow> nat \<Rightarrow> 'x machine \<Rightarrow> bool" for K m0 where
  start: "elapses K m0 0 m0"
| host: "elapses K m0 n m \<Longrightarrow> same_guest m m' \<Longrightarrow> elapses K m0 n m'"
| refresh: "elapses K m0 n m \<Longrightarrow> elapses K m0 (n + unat tb) (s5l8900_refresh K tb m)"

lemma elapses_trans:
  assumes "elapses K m n1 m1" "elapses K m1 n2 m2"
  shows "elapses K m (n1 + n2) m2"
  using assms(2)
proof induction
  case start
  show ?case using assms(1) by simp
next
  case (host n m' m'')
  then show ?case by (blast intro: elapses.host)
next
  case (refresh n m' tb)
  from elapses.refresh [OF refresh.IH, of tb] show ?case by (simp add: add.assoc)
qed

lemma same_guest_updates:
  "same_guest m (m\<lparr>mc_tb_accum := a\<rparr>)" "same_guest m (m\<lparr>mc_clock := c\<rparr>)"
  "same_guest m (m\<lparr>mc_soc := (mc_soc m)\<lparr>m_rest := x\<rparr>\<rparr>)"
  by (simp_all add: same_guest_def)

lemma same_guest_trans:
  assumes "same_guest m m1" "same_guest m1 m2"
  shows "same_guest m m2"
proof -
  have rest: "s2 = s\<lparr>m_rest := x2\<rparr>" if "s1 = s\<lparr>m_rest := x1\<rparr>" "s2 = s1\<lparr>m_rest := x2\<rparr>"
    for s s1 s2 :: "'a s5l8900" and x1 x2
    using that by simp
  have e: "mc_soc m1 = (mc_soc m)\<lparr>m_rest := m_rest (mc_soc m1)\<rparr>"
    "mc_soc m2 = (mc_soc m1)\<lparr>m_rest := m_rest (mc_soc m2)\<rparr>"
    using assms unfolding same_guest_def by blast+
  have "mc_soc m2 = (mc_soc m)\<lparr>m_rest := m_rest (mc_soc m2)\<rparr>" by (rule rest [OF e])
  then show ?thesis using assms unfolding same_guest_def by metis
qed

lemma refresh_fields [simp]:
  "mc_cpu_hz (s5l8900_refresh K tb m) = mc_cpu_hz m" "mc_tb_hz (s5l8900_refresh K tb m) = mc_tb_hz m"
  "mc_tb_accum (s5l8900_refresh K tb m) = mc_tb_accum m" "mc_sleep (s5l8900_refresh K tb m) = mc_sleep m"
  by (simp_all add: s5l8900_refresh_def Let_def split_beta)

lemma tick_host_clock: "\<exists>c. tick_host K n m = m\<lparr>mc_clock := c\<rparr>"
proof -
  have "\<exists>c. active_clock_begin_input_guard m = m\<lparr>mc_clock := c\<rparr>"
    by (simp add: active_clock_begin_input_guard_def Let_def) (metis machine.surjective machine.update_convs(10))
  moreover have "\<exists>c. m = m\<lparr>mc_clock := c\<rparr>" by (rule exI [of _ "mc_clock m"]) simp
  ultimately show ?thesis
    unfolding tick_host_def Let_def by (auto split: if_splits)
qed

section \<open>The conversion of CPU ticks\<close>

text \<open>Clock rates as the machine keeps them: both set, the timebase no faster than the CPU.\<close>

definition clocks_ok :: "'x machine \<Rightarrow> bool" where
  "clocks_ok m \<longleftrightarrow> mc_tb_hz m \<noteq> 0 \<and> mc_tb_hz m \<le> mc_cpu_hz m \<and> mc_tb_accum m < ucast (mc_cpu_hz m)"

lemma ucast_u32_u64_less: "(ucast w :: u64) < 4294967296" for w :: u32
  using unat_u32_less [of w] by (simp add: word_less_nat_alt)

lemma accum_nat:
  fixes n :: u32
  assumes "mc_tb_accum m < ucast (mc_cpu_hz m)"
  shows "unat (mc_tb_accum m + ucast n * ucast (mc_tb_hz m)) = unat (mc_tb_accum m) + unat n * unat (mc_tb_hz m)"
proof -
  have a: "unat (mc_tb_accum m) < 4294967296"
    using assms ucast_u32_u64_less [of "mc_cpu_hz m"] by (simp add: word_less_nat_alt)
  have "unat n * unat (mc_tb_hz m) \<le> 4294967295 * 4294967295"
    using unat_u32_less [of n] unat_u32_less [of "mc_tb_hz m"] by (intro mult_mono) simp_all
  then have p: "unat (ucast n * ucast (mc_tb_hz m) :: u64) = unat n * unat (mc_tb_hz m)"
    by (simp add: unat_word_ariths)
  show ?thesis
    using a p \<open>unat n * unat (mc_tb_hz m) \<le> 4294967295 * 4294967295\<close> by (simp add: unat_word_ariths)
qed

lemma whole_ticks_fit:
  fixes a t tb cpu :: nat
  assumes "tb \<le> cpu" "a < cpu"
  shows "(a + t * tb) div cpu \<le> t"
proof -
  have "t * tb \<le> t * cpu" using assms(1) by simp
  then have "a + t * tb < cpu + t * cpu" using assms(2) by linarith
  then have "a + t * tb < cpu * Suc t" by (simp add: mult.commute)
  then have "(a + t * tb) div cpu < Suc t" using assms by (simp add: div_less_iff_less_mult mult.commute)
  then show ?thesis by simp
qed

lemma tick_elapses:
  fixes n :: u32
  assumes ok: "clocks_ok m"
  defines "A \<equiv> unat (mc_tb_accum m) + unat n * unat (mc_tb_hz m)" and "hz \<equiv> unat (mc_cpu_hz m)"
  shows "elapses K m (A div hz) (s5l8900_tick K n m) \<and> clocks_ok (s5l8900_tick K n m) \<and>
    unat (mc_tb_accum (s5l8900_tick K n m)) = A mod hz \<and>
    mc_cpu_hz (s5l8900_tick K n m) = mc_cpu_hz m \<and> mc_tb_hz (s5l8900_tick K n m) = mc_tb_hz m"
proof -
  obtain c where th: "tick_host K n m = m\<lparr>mc_clock := c\<rparr>" using tick_host_clock by blast
  let ?m = "m\<lparr>mc_clock := c\<rparr>"
  let ?acc = "mc_tb_accum m + ucast n * ucast (mc_tb_hz m) :: u64"
  let ?hz = "ucast (mc_cpu_hz m) :: u64"
  have hz: "mc_tb_hz m \<noteq> 0" "mc_tb_hz m \<le> mc_cpu_hz m" "mc_tb_accum m < ?hz" "mc_cpu_hz m \<noteq> 0" "hz \<noteq> 0"
    using ok by (auto simp: clocks_ok_def hz_def unat_eq_0)
  have A: "unat ?acc = A" unfolding A_def by (rule accum_nat [OF hz(3)])
  have hz_nat: "unat ?hz = hz" by (simp add: hz_def)
  have m_mod: "unat (?acc mod ?hz) = A mod hz" by (simp add: unat_mod_distrib A hz_def)
  have lt: "?acc mod ?hz < ?hz" using hz(5) m_mod hz_nat by (simp add: word_less_nat_alt)
  have "A div hz \<le> unat n"
    unfolding A_def hz_def using hz(2,3) whole_ticks_fit [of "unat (mc_tb_hz m)" "unat (mc_cpu_hz m)"]
    by (simp add: word_le_nat_alt word_less_nat_alt)
  then have "A div hz < 4294967296" using unat_u32_less [of n] by linarith
  then have tb: "unat (ucast (?acc div ?hz) :: u32) = A div hz"
    by (simp add: unsigned_ucast_eq take_bit_nat_eq_self unat_div_distrib A hz_def [symmetric])
  show ?thesis
  proof (cases "n \<noteq> 0 \<and> \<not> m_level_dirty (mc_soc m) \<and> \<not> k_eager K \<and> ?acc < ?hz \<and>
      ext_inputs K (mc_soc m) = mc_ext_seen m")
    case True
    then have t: "s5l8900_tick K n m = ?m\<lparr>mc_tb_accum := ?acc\<rparr>"
      using hz by (simp add: s5l8900_tick_def Let_def th)
    have "A < hz" using True A hz_nat by (simp add: word_less_nat_alt)
    moreover have "elapses K m 0 (?m\<lparr>mc_tb_accum := ?acc\<rparr>)"
      by (intro elapses.host [OF elapses.start] same_guest_trans [OF same_guest_updates(2) same_guest_updates(1)])
    ultimately show ?thesis using hz A True by (simp add: t clocks_ok_def)
  next
    case False
    let ?r = "?m\<lparr>mc_tb_accum := ?acc mod ?hz\<rparr>"
    have t: "s5l8900_tick K n m = s5l8900_refresh K (ucast (?acc div ?hz)) ?r"
      using hz False by (simp add: s5l8900_tick_def Let_def th split del: if_split) auto
    have "elapses K m 0 ?r"
      by (intro elapses.host [OF elapses.start] same_guest_trans [OF same_guest_updates(2) same_guest_updates(1)])
    from elapses.refresh [OF this, of "ucast (?acc div ?hz)"]
    have "elapses K m (A div hz) (s5l8900_refresh K (ucast (?acc div ?hz)) ?r)" by (simp only: tb add_0)
    then show ?thesis
      using hz lt m_mod by (simp add: t clocks_ok_def tb)
  qed
qed

lemma carry_split:
  fixes A x hz :: nat
  shows "A div hz + (A mod hz + x) div hz = (A + x) div hz" and "(A mod hz + x) mod hz = (A + x) mod hz"
proof -
  have "A + x = (A mod hz + x) + hz * (A div hz)" by simp
  then have sum: "(A + x) div hz = ((A mod hz + x) + hz * (A div hz)) div hz" by (rule arg_cong)
  show "A div hz + (A mod hz + x) div hz = (A + x) div hz"
  proof (cases "hz = 0")
    case False
    then show ?thesis using sum div_mult_self2 [OF False, of "A mod hz + x" "A div hz"] by linarith
  qed simp
  show "(A mod hz + x) mod hz = (A + x) mod hz" by (rule mod_add_left_eq)
qed

lemma ticks_elapse:
  fixes ts :: "u32 list"
  assumes "clocks_ok m"
  shows "elapses K m ((unat (mc_tb_accum m) + sum_list (map unat ts) * unat (mc_tb_hz m)) div unat (mc_cpu_hz m))
      (fold (s5l8900_tick K) ts m) \<and>
    unat (mc_tb_accum (fold (s5l8900_tick K) ts m)) =
      (unat (mc_tb_accum m) + sum_list (map unat ts) * unat (mc_tb_hz m)) mod unat (mc_cpu_hz m)"
  using assms
proof (induction ts arbitrary: m)
  case Nil
  then have "unat (mc_tb_accum m) < unat (mc_cpu_hz m)" by (simp add: clocks_ok_def word_less_nat_alt)
  then show ?case by (simp add: elapses.start)
next
  case (Cons t ts)
  let ?m = "s5l8900_tick K t m" and ?tb = "unat (mc_tb_hz m)" and ?hz = "unat (mc_cpu_hz m)"
  let ?A = "unat (mc_tb_accum m) + unat t * ?tb"
  have t: "elapses K m (?A div ?hz) ?m" "clocks_ok ?m" "unat (mc_tb_accum ?m) = ?A mod ?hz"
      "mc_cpu_hz ?m = mc_cpu_hz m" "mc_tb_hz ?m = mc_tb_hz m"
    using tick_elapses [OF Cons.prems, of K t] by blast+
  note rest = Cons.IH [OF t(2), unfolded t(3-5)]
  have sum: "?A + sum_list (map unat ts) * ?tb = unat (mc_tb_accum m) + sum_list (map unat (t # ts)) * ?tb"
    by (simp add: algebra_simps)
  show ?case
    using elapses_trans [OF t(1) conjunct1 [OF rest]] conjunct2 [OF rest]
    unfolding carry_split sum by simp
qed

section \<open>The first edge\<close>

text \<open>The wake loop yields the least of the edges it saw, and none of the enabled sources is silent.\<close>

definition wake_least :: "'x soc_clock \<Rightarrow> 'x machine \<Rightarrow> 'x wake_source list \<Rightarrow> u32 \<Rightarrow> bool" where
  "wake_least K m srcs e \<longleftrightarrow>
     (\<forall>src \<in> set srcs. wake_line_enabled m (ws_line src) \<longrightarrow>
        (\<exists>edge. ws_next_edge src = Some edge \<and> (edge K m = WAKE_NEVER \<or> (\<exists>t. edge K m = WAKE_AT t \<and> e \<le> t)))) \<and>
     (\<exists>src \<in> set srcs. wake_line_enabled m (ws_line src) \<and>
        (\<exists>edge. ws_next_edge src = Some edge \<and> edge K m = WAKE_AT e))"

lemma next_wake_loop_least:
  "next_wake_loop K m srcs best = WAKE_AT e \<Longrightarrow> best \<noteq> Some 0 \<Longrightarrow>
    e \<noteq> 0 \<and> (case best of None \<Rightarrow> wake_least K m srcs e
      | Some b \<Rightarrow> e = b \<and> (\<forall>src \<in> set srcs. wake_line_enabled m (ws_line src) \<longrightarrow>
          (\<exists>edge. ws_next_edge src = Some edge \<and> (edge K m = WAKE_NEVER \<or> (\<exists>t. edge K m = WAKE_AT t \<and> b \<le> t)))) \<or>
        e \<le> b \<and> wake_least K m srcs e)"
proof (induction srcs arbitrary: best)
  case Nil
  then show ?case by (auto split: option.splits)
next
  case (Cons src srcs)
  show ?case
  proof (cases "wake_line_enabled m (ws_line src)")
    case False
    then show ?thesis using Cons.IH [of best] Cons.prems
      by (auto simp: wake_least_def split: option.splits)
  next
    case True
    then obtain edge where edge: "ws_next_edge src = Some edge" "edge K m \<noteq> WAKE_UNKNOWN"
      using Cons.prems(1) by (auto split: option.splits wake_kind.splits)
    show ?thesis
    proof (cases "edge K m")
      case WAKE_NEVER
      then show ?thesis using Cons.IH [of best] Cons.prems True edge
        by (auto simp: wake_least_def split: option.splits)
    next
      case (WAKE_AT t)
      let ?b = "case best of None \<Rightarrow> t | Some b \<Rightarrow> if t < b then t else b"
      have "next_wake_loop K m srcs (Some ?b) = WAKE_AT e" "t \<noteq> 0"
        using Cons.prems(1) True edge WAKE_AT by (auto split: if_splits)
      moreover have "?b \<noteq> 0" using \<open>t \<noteq> 0\<close> Cons.prems(2) by (auto split: option.splits)
      ultimately have ih: "e \<noteq> 0 \<and> (e = ?b \<and> (\<forall>src \<in> set srcs. wake_line_enabled m (ws_line src) \<longrightarrow>
          (\<exists>edge. ws_next_edge src = Some edge \<and> (edge K m = WAKE_NEVER \<or> (\<exists>t. edge K m = WAKE_AT t \<and> ?b \<le> t)))) \<or>
        e \<le> ?b \<and> wake_least K m srcs e)"
        using Cons.IH [of "Some ?b"] by simp
      have le: "?b \<le> t" by (auto split: option.splits)
      show ?thesis
      proof (cases best)
        case None
        then show ?thesis using ih True edge WAKE_AT by (auto simp: wake_least_def)
      next
        case (Some b)
        show ?thesis
        proof (cases "t < b")
          case True
          then show ?thesis
            using ih edge WAKE_AT Some \<open>wake_line_enabled m (ws_line src)\<close> by (auto simp: wake_least_def)
        next
          case False
          then show ?thesis
            using ih edge WAKE_AT Some \<open>wake_line_enabled m (ws_line src)\<close> by (auto simp: wake_least_def)
        qed
      qed
    qed (use edge in simp)
  qed
qed

lemma next_wake_least: "s5l8900_next_wake K m srcs = WAKE_AT e \<Longrightarrow> e \<noteq> 0 \<and> wake_least K m srcs e"
  using next_wake_loop_least [of K m srcs None e] by (simp add: s5l8900_next_wake_def)

section \<open>The wait\<close>

lemma ceil_div:
  fixes e hz a tb :: nat
  assumes "0 < tb" "tb \<le> hz" "a < hz" "0 < e"
  defines "n \<equiv> (e * hz - a) div tb + (if (e * hz - a) mod tb \<noteq> 0 then 1 else 0)"
  shows "(a + n * tb) div hz = e" and "k < n \<Longrightarrow> (a + k * tb) div hz < e"
proof -
  let ?need = "e * hz - a"
  have ge: "a \<le> e * hz" using assms(3,4) by (metis less_imp_le_nat le_trans mult_le_mono1 nat_mult_1 Suc_leI One_nat_def)
  have split: "?need = ?need div tb * tb + ?need mod tb" by simp
  have n: "n * tb = ?need div tb * tb + (if ?need mod tb \<noteq> 0 then tb else 0)"
    by (simp add: n_def add_mult_distrib)
  have lo: "?need \<le> n * tb" and hi: "n * tb < ?need + tb"
  proof -
    obtain q r where "?need div tb = q" "?need mod tb = r" by blast
    moreover from this have "?need = q * tb + r" "r < tb"
      using split mod_less_divisor [OF assms(1), of ?need] by simp_all
    ultimately show "?need \<le> n * tb" "n * tb < ?need + tb" unfolding n using assms(1) by auto
  qed
  have "e * hz \<le> a + n * tb" "a + n * tb < e * hz + hz" using lo hi ge assms(2) by linarith+
  then show "(a + n * tb) div hz = e"
    using assms(2,3) by (intro div_nat_eqI) (simp_all add: mult.commute)
  assume "k < n"
  have "k * tb < ?need"
  proof (rule ccontr)
    assume "\<not> k * tb < ?need"
    then have "?need div tb \<le> k" using assms(1) by (metis div_le_mono div_mult_self_is_m not_less)
    then have "k = ?need div tb" "?need mod tb \<noteq> 0" using \<open>k < n\<close> by (auto simp: n_def split: if_splits)
    moreover obtain q r where "?need div tb = q" "?need mod tb = r" by blast
    moreover from this have "?need = q * tb + r" using split by simp
    ultimately show False using \<open>\<not> k * tb < ?need\<close> by simp
  qed
  then have "a + k * tb < hz * e" using ge by (simp add: mult.commute)
  then show "(a + k * tb) div hz < e" using assms(2,3) by (simp add: div_less_iff_less_mult mult.commute)
qed

lemma wfi_ticks_exact:
  assumes ok: "clocks_ok m" and e: "e \<noteq> 0" and n: "wfi_cpu_ticks m e = Some n"
  shows "(unat (mc_tb_accum m) + unat n * unat (mc_tb_hz m)) div unat (mc_cpu_hz m) = unat e" (is ?exact)
    and "k < unat n \<Longrightarrow> (unat (mc_tb_accum m) + k * unat (mc_tb_hz m)) div unat (mc_cpu_hz m) < unat e"
proof -
  let ?hz = "unat (mc_cpu_hz m)" and ?tb = "unat (mc_tb_hz m)" and ?a = "unat (mc_tb_accum m)"
  let ?need = "ucast e * ucast (mc_cpu_hz m) - mc_tb_accum m :: u64"
  have c: "mc_tb_hz m \<noteq> 0" "mc_tb_hz m \<le> mc_cpu_hz m" "mc_tb_accum m < ucast (mc_cpu_hz m)" "mc_cpu_hz m \<noteq> 0"
    using ok by (auto simp: clocks_ok_def)
  have nat: "0 < ?tb" "?tb \<le> ?hz" "?a < ?hz" "0 < unat e"
    using c e by (simp_all add: word_le_nat_alt word_less_nat_alt unat_gt_0)
  have nd: "n = ?need div ucast (mc_tb_hz m) + (if ?need mod ucast (mc_tb_hz m) \<noteq> 0 then 1 else 0)"
    using n c by (auto simp: wfi_cpu_ticks_def Let_def not_less [symmetric] split: if_splits)
  have prod: "unat e * ?hz \<le> 4294967295 * 4294967295"
    using unat_u32_less [of e] unat_u32_less [of "mc_cpu_hz m"] by (intro mult_mono) simp_all
  then have p: "unat (ucast e * ucast (mc_cpu_hz m) :: u64) = unat e * ?hz" by (simp add: unat_word_ariths)
  have "?hz \<le> unat e * ?hz" using nat(4) by (cases "unat e") simp_all
  then have "?a \<le> unat e * ?hz" using nat(3) by linarith
  then have need: "unat ?need = unat e * ?hz - ?a"
    using p by (subst unat_sub) (simp_all add: word_le_nat_alt)
  have dm: "unat (?need div ucast (mc_tb_hz m)) = (unat e * ?hz - ?a) div ?tb"
    "unat (?need mod ucast (mc_tb_hz m)) = (unat e * ?hz - ?a) mod ?tb"
    by (simp_all add: unat_div_distrib unat_mod_distrib need)
  have zero: "?need mod ucast (mc_tb_hz m) = 0 \<longleftrightarrow> (unat e * ?hz - ?a) mod ?tb = 0"
    unfolding dm(2) [symmetric] by (simp add: unat_eq_0)
  have "(unat e * ?hz - ?a) div ?tb \<le> 4294967295 * 4294967295"
    using prod div_le_dividend [of "unat e * ?hz - ?a" ?tb] by linarith
  then have small: "unat (?need div ucast (mc_tb_hz m)) \<le> 4294967295 * 4294967295" by (simp only: dm(1))
  have add1: "unat (x + (if P then 1 else 0)) = unat x + (if P then 1 else 0)"
    if "unat x \<le> 4294967295 * 4294967295" for x :: u64 and P
    using that by (simp add: unat_word_ariths)
  have n_nat: "unat n = (unat e * ?hz - ?a) div ?tb + (if (unat e * ?hz - ?a) mod ?tb \<noteq> 0 then 1 else 0)"
    unfolding nd zero add1 [OF small] dm(1) ..
  show ?exact unfolding n_nat by (rule ceil_div(1) [OF nat])
  show "k < unat n \<Longrightarrow> (?a + k * ?tb) div ?hz < unat e" unfolding n_nat by (rule ceil_div(2) [OF nat])
qed

text \<open>The timebase ticks that \<open>c\<close> CPU ticks are worth.\<close>

abbreviation worth :: "'x machine \<Rightarrow> nat \<Rightarrow> nat" where
  "worth m c \<equiv> (unat (mc_tb_accum m) + c * unat (mc_tb_hz m)) div unat (mc_cpu_hz m)"

lemma worth_mono: "c \<le> d \<Longrightarrow> worth m c \<le> worth m d"
  by (intro div_le_mono add_left_mono mult_le_mono1)

text \<open>
  The whole distance, unless a line is up when one of the whole 32-bit slices of a longer wait has been
  ticked.
\<close>

definition reaches :: "'x machine \<Rightarrow> u64 \<Rightarrow> nat \<Rightarrow> 'x machine \<Rightarrow> bool" where
  "reaches m c n m' \<longleftrightarrow> n = worth m (unat c) \<or>
     line_up m' \<and> (\<exists>k > 0. k * 0xffffffff < unat c \<and> n = worth m (k * 0xffffffff))"

lemma reaches_le: "reaches m c n m' \<Longrightarrow> n \<le> worth m (unat c)"
  using worth_mono [of "k * 0xffffffff" "unat c" m for k] by (auto simp: reaches_def)

lemma wfi_advance_elapses:
  "clocks_ok m \<Longrightarrow>
   \<exists>n. elapses K m n (snd (wfi_advance K c m)) \<and> reaches m c n (snd (wfi_advance K c m)) \<and>
     fst (wfi_advance K c m) = line_up (snd (wfi_advance K c m))"
proof (induction K c m rule: wfi_advance.induct)
  case (1 K c m)
  show ?case
  proof (cases "c > 0xffffffff")
    case True
    let ?m = "s5l8900_tick K 0xffffffff m"
    have t: "elapses K m (worth m 0xffffffff) ?m" "clocks_ok ?m" "mc_cpu_hz ?m = mc_cpu_hz m" "mc_tb_hz ?m = mc_tb_hz m"
      and acc: "unat (mc_tb_accum ?m) = (unat (mc_tb_accum m) + 0xffffffff * unat (mc_tb_hz m)) mod unat (mc_cpu_hz m)"
      using tick_elapses [OF "1.prems", of K "0xffffffff"] by simp_all
    have c: "unat c = 0xffffffff + unat (c - 0xffffffff)" and le: "0xffffffff \<le> unat c"
      using True by (simp_all add: word_less_nat_alt unat_sub_if')
    have sum: "worth m 0xffffffff + worth ?m (unat (c - 0xffffffff)) = worth m (unat c)"
      unfolding t(3,4) acc carry_split using c by (simp add: add_mult_distrib add.assoc)
    show ?thesis
    proof (cases "line_up ?m")
      case True
      then have "wfi_advance K c m = (True, ?m)"
        using \<open>c > 0xffffffff\<close> by (subst wfi_advance.simps) (simp add: Let_def)
      moreover have "reaches m c (worth m 0xffffffff) ?m"
        using \<open>c > 0xffffffff\<close> True unfolding reaches_def
        by (intro disjI2 conjI exI [of _ 1]) (simp_all add: word_less_nat_alt)
      ultimately show ?thesis using t(1) True by auto
    next
      case False
      then have adv: "wfi_advance K c m = wfi_advance K (c - 0xffffffff) ?m"
        using \<open>c > 0xffffffff\<close> by (subst wfi_advance.simps) (simp add: Let_def)
      obtain n where n: "elapses K ?m n (snd (wfi_advance K (c - 0xffffffff) ?m))"
          "reaches ?m (c - 0xffffffff) n (snd (wfi_advance K (c - 0xffffffff) ?m))"
          "fst (wfi_advance K (c - 0xffffffff) ?m) = line_up (snd (wfi_advance K (c - 0xffffffff) ?m))"
        using "1.IH" [OF True refl False t(2)] by blast
      have slices: "worth m 0xffffffff + worth ?m (k * 0xffffffff) = worth m (Suc k * 0xffffffff)" for k
        unfolding t(3,4) acc carry_split by (simp add: add_mult_distrib add.assoc)
      have "reaches m c (worth m 0xffffffff + n) (snd (wfi_advance K (c - 0xffffffff) ?m))"
        using n(2) unfolding reaches_def
      proof (elim disjE conjE exE)
        fix k :: nat
        assume k: "line_up (snd (wfi_advance K (c - 0xffffffff) ?m))" "k * 0xffffffff < unat (c - 0xffffffff)"
          "n = worth ?m (k * 0xffffffff)"
        have "Suc k * 0xffffffff < unat c" using k(2) c by simp
        then show "worth m 0xffffffff + n = worth m (unat c) \<or> line_up (snd (wfi_advance K (c - 0xffffffff) ?m)) \<and>
            (\<exists>k > 0. k * 0xffffffff < unat c \<and> worth m 0xffffffff + n = worth m (k * 0xffffffff))"
          using k(1) slices [of k] k(3) by (intro disjI2 conjI exI [of _ "Suc k"]) simp_all
      qed (use sum in simp)
      then show ?thesis
        unfolding adv using elapses_trans [OF t(1) n(1)] n(3) by (intro exI [of _ "worth m 0xffffffff + n"]) auto
    qed
  next
    case False
    let ?t = "if c \<noteq> 0 then s5l8900_tick K (ucast c) m else m"
    have adv: "wfi_advance K c m = (line_up ?t, ?t)"
      using False by (subst wfi_advance.simps) (simp add: Let_def)
    have "unat c < 4294967296" using False by (simp add: word_less_nat_alt)
    then have u: "unat (ucast c :: u32) = unat c" by (simp add: unsigned_ucast_eq take_bit_nat_eq_self)
    have zero: "worth m 0 = 0" using "1.prems" by (simp add: clocks_ok_def word_less_nat_alt)
    have "elapses K m (worth m (unat c)) ?t"
      using tick_elapses [OF "1.prems", of K "ucast c"] elapses.start [of K m] zero by (cases "c = 0") (simp_all add: u)
    then show ?thesis unfolding adv by (auto simp: reaches_def)
  qed
qed

text \<open>The host's part of a pause leaves the guest alone.\<close>

lemma host_now_guest: "same_guest m (snd (host_now m)) \<and> mc_tb_accum (snd (host_now m)) = mc_tb_accum m"
  by (auto simp: host_now_def same_guest_def split: option.split prod.split)

lemma host_sleep_guest:
  "same_guest m (snd (host_sleep sleep ns m)) \<and> mc_tb_accum (snd (host_sleep sleep ns m)) = mc_tb_accum m"
  by (auto simp: host_sleep_def same_guest_def split: prod.split)

lemma measure_idle_guest:
  "same_guest m (snd (measure_idle m)) \<and> mc_tb_accum (snd (measure_idle m)) = mc_tb_accum m"
  using host_now_guest [of m]
  by (auto simp: measure_idle_def Let_def same_guest_def split: prod.split if_splits)

lemma note_oversleep_guest:
  "same_guest m (note_oversleep start ns m) \<and> mc_tb_accum (note_oversleep start ns m) = mc_tb_accum m"
  using host_now_guest [of m]
  by (auto simp: note_oversleep_def Let_def same_guest_def split: prod.split if_splits)

lemma quiesce_guest:
  "same_guest m (active_clock_quiesce_input_guard m) \<and>
   mc_tb_accum (active_clock_quiesce_input_guard m) = mc_tb_accum m"
  by (simp add: active_clock_quiesce_input_guard_def Let_def same_guest_def)

definition guest_kept :: "'x machine \<Rightarrow> 'x machine \<Rightarrow> bool" where
  "guest_kept m m' \<longleftrightarrow> same_guest m m' \<and> mc_tb_accum m' = mc_tb_accum m"

lemma guest_kept_trans: "guest_kept m m1 \<Longrightarrow> guest_kept m1 m2 \<Longrightarrow> guest_kept m m2"
  unfolding guest_kept_def using same_guest_trans by metis

lemma guest_kept_updates:
  "guest_kept m (m'\<lparr>mc_clock := c\<rparr>) = guest_kept m m'"
  "guest_kept m (m'\<lparr>mc_wfi_pace_yield := y\<rparr>) = guest_kept m m'"
  "guest_kept m (m'\<lparr>mc_wfi_paced_waits := n\<rparr>) = guest_kept m m'"
  "guest_kept m (m'\<lparr>mc_wfi_paced_wait_ns := n\<rparr>) = guest_kept m m'"
  "guest_kept m (m'\<lparr>mc_wfi_paced_failures := n\<rparr>) = guest_kept m m'"
  "guest_kept m (m'\<lparr>mc_wfi_paced_partial_advances := n\<rparr>) = guest_kept m m'"
  by (simp_all add: guest_kept_def same_guest_def)

lemma guest_kept_clocks:
  "guest_kept m m' \<Longrightarrow> clocks_ok m' = clocks_ok m \<and> worth m' c = worth m c"
  by (auto simp: guest_kept_def same_guest_def clocks_ok_def)

lemma guest_kept_elapses: "guest_kept m m' \<Longrightarrow> elapses K m 0 m'"
  unfolding guest_kept_def by (blast intro: elapses.host [OF elapses.start])

lemma guest_kept_tick:
  assumes "guest_kept m m'" "clocks_ok m"
  shows "elapses K m (worth m (unat n)) (s5l8900_tick K n m')"
  using tick_elapses [of m' K n] guest_kept_clocks [OF assms(1)] assms(2)
    elapses_trans [OF guest_kept_elapses [OF assms(1)]]
  by (metis add_0)

lemma guest_kept_refl: "guest_kept m m"
  by (simp add: guest_kept_def same_guest_def)

lemma pace_sleep_guest: "guest_kept m (snd (pace_sleep sleep n m))"
proof -
  obtain q start m2 where i: "measure_idle m = ((q, start), m2)" by (metis surj_pair)
  have k2: "guest_kept m m2" using measure_idle_guest [of m] by (simp add: i guest_kept_def)
  have s: "guest_kept m (snd (if w then host_sleep sleep ns m' else (True, m')))" if "guest_kept m m'" for w ns m'
    using that host_sleep_guest [of m' sleep ns] guest_kept_trans [of m m'] by (simp add: guest_kept_def)
  have o: "guest_kept m (if w then note_oversleep start ns m' else m')" if "guest_kept m m'" for w ns m'
    using that note_oversleep_guest [of m' start ns] guest_kept_trans [of m m'] by (simp add: guest_kept_def)
  define ic where "ic = (if ac_idle_credit_ticks (mc_clock m2) < n then ac_idle_credit_ticks (mc_clock m2) else n)"
  define w where "w = wfi_wait_ns n (n - ic) (mc_cpu_hz m2)"
  define m3 where "m3 = m2\<lparr>mc_wfi_pace_yield := True,
      mc_wfi_paced_waits := (if w \<noteq> 0 then mc_wfi_paced_waits m2 + 1 else mc_wfi_paced_waits m2),
      mc_wfi_paced_wait_ns := active_clock_counter_add (mc_wfi_paced_wait_ns m2) w\<rparr>"
  obtain slept m4 where h: "(if w \<noteq> 0 then host_sleep sleep w m3 else (True, m3)) = (slept, m4)" by (metis surj_pair)
  have "guest_kept m m3" using k2 by (simp add: m3_def guest_kept_updates)
  from s [OF this, of "w \<noteq> 0" w] have k4: "guest_kept m m4" unfolding h by simp
  have "snd (pace_sleep sleep n m) =
      (if \<not> slept then m4\<lparr>mc_wfi_paced_failures := mc_wfi_paced_failures m4 + 1,
                          mc_clock := (mc_clock m4)\<lparr>ac_idle_credit_ticks := 0\<rparr>\<rparr>
       else let m5 = (if w \<noteq> 0 \<and> q then note_oversleep start w m4 else m4); c = mc_clock m5
            in m5\<lparr>mc_clock := c\<lparr>ac_idle_credit_ticks := ac_idle_credit_ticks c - ic,
                                 ac_idle_repaid_ticks := ac_idle_repaid_ticks c + ic\<rparr>\<rparr>)"
    by (simp only: pace_sleep_def Let_def i prod.case ic_def [symmetric] w_def [symmetric] m3_def [symmetric] h
        if_distrib [of snd] snd_conv)
  then show ?thesis
    using k4 o [OF k4, of "w \<noteq> 0 \<and> q" w] by (simp only: Let_def guest_kept_updates split: if_split) blast
qed

lemma slice_less:
  "unat ((8000000 * ucast hz) div 1000000000 :: u64) < 4294967296" for hz :: u32
proof -
  have "unat hz < 4294967296" by (rule unat_u32_less)
  then have "unat (8000000 * ucast hz :: u64) = 8000000 * unat hz" by (simp add: unat_word_ariths)
  then show ?thesis using \<open>unat hz < 4294967296\<close> by (simp add: unat_div_distrib)
qed

lemma wfi_pace_cases:
  assumes ok: "clocks_ok m"
  shows "case wfi_pace K sleep c m of
      Inl (r, m') \<Rightarrow> r = line_up m' \<and> (\<exists>n. elapses K m n m' \<and> n \<le> worth m (unat c))
    | Inr m' \<Rightarrow> guest_kept m m'"
proof -
  have rates: "\<not> (mc_cpu_hz m = 0 \<or> mc_tb_hz m = 0 \<or> mc_tb_hz m > mc_cpu_hz m)"
    using ok by (auto simp: clocks_ok_def)
  define m1 where "m1 = (if ac_input_guard (mc_clock m) \<and>
      (ac_deadline_shield (mc_clock m) \<or> c \<ge> ucast (mc_cpu_hz m) * 1) then active_clock_quiesce_input_guard m else m)"
  let ?slice = "(8000000 * ucast (mc_cpu_hz m1)) div 1000000000 :: u64"
  let ?p = "if c > ?slice then ?slice else c"
  obtain slept m2 where s: "pace_sleep sleep ?p m1 = (slept, m2)" by (metis surj_pair)
  have "guest_kept m m1" using quiesce_guest [of m] guest_kept_refl [of m] unfolding m1_def guest_kept_def by simp
  then have k: "guest_kept m m2" using pace_sleep_guest [of m1 sleep ?p] guest_kept_trans by (metis s snd_conv)
  let ?m3 = "m2\<lparr>mc_wfi_paced_partial_advances := mc_wfi_paced_partial_advances m2 + 1\<rparr>"
  have pace: "wfi_pace K sleep c m =
      (if \<not> slept then Inl (line_up (s5l8900_tick K 0 m2), s5l8900_tick K 0 m2)
       else if c > ?slice then Inl (line_up (s5l8900_tick K (ucast ?slice) ?m3), s5l8900_tick K (ucast ?slice) ?m3)
       else Inr m2)"
    unfolding wfi_pace_def if_not_P [OF rates] m1_def [symmetric] Let_def s by simp
  have k3: "guest_kept m ?m3" using k by (simp only: guest_kept_updates)
  have "unat (ucast ?slice :: u32) = unat ?slice"
    using slice_less [of "mc_cpu_hz m1"] by (simp only: unsigned_ucast_eq take_bit_nat_eq_self) (simp add: take_bit_nat_eq_self)
  then have "worth m (unat (ucast ?slice :: u32)) \<le> worth m (unat c)" if "c > ?slice"
    using that worth_mono [of "unat ?slice" "unat c" m] by (simp only: word_less_nat_alt less_imp_le)
  moreover have "worth m (unat (0 :: u32)) \<le> worth m (unat c)" by (rule worth_mono) simp
  ultimately show ?thesis
    unfolding pace using guest_kept_tick [OF k ok, of K 0] guest_kept_tick [OF k3 ok, of K "ucast ?slice"] k
    by (auto split: if_split)
qed

text \<open>
  C36: No time is lost or invented, however it is divided. Whatever the sequence of tick counts, the
  refreshes together carry exactly the whole timebase ticks that the CPU ticks are worth at the
  machine's rates, counting the fraction carried in, and the fraction left over is carried on.
\<close>

theorem ticks_lose_nothing:
  fixes ts :: "u32 list"
  assumes "clocks_ok m"
  shows "elapses K m ((unat (mc_tb_accum m) + sum_list (map unat ts) * unat (mc_tb_hz m)) div unat (mc_cpu_hz m))
      (fold (s5l8900_tick K) ts m) \<and>
    unat (mc_tb_accum (fold (s5l8900_tick K) ts m)) =
      (unat (mc_tb_accum m) + sum_list (map unat ts) * unat (mc_tb_hz m)) mod unat (mc_cpu_hz m)"
  by (rule ticks_elapse [OF assms])

lemma wait_steps:
  assumes ok: "clocks_ok m" and e: "s5l8900_next_wake K m WAKE_SOURCES = WAKE_AT e"
    and c: "wfi_cpu_ticks m e = Some c"
    and r: "r = (case mc_sleep m of None \<Rightarrow> wfi_advance K c m
      | Some sleep \<Rightarrow> (case wfi_pace K sleep c m of Inl r \<Rightarrow> r | Inr m2 \<Rightarrow> wfi_advance K c m2))"
  shows "\<exists>n. elapses K m n (snd r) \<and> n \<le> unat e \<and> (mc_sleep m = None \<longrightarrow> reaches m c n (snd r))"
    and "fst r = line_up (snd r)"
proof -
  have worth: "worth m (unat c) = unat e"
    by (rule wfi_ticks_exact(1) [OF ok conjunct1 [OF next_wake_least [OF e]] c])
  have "(\<exists>n. elapses K m n (snd r) \<and> n \<le> unat e \<and> (mc_sleep m = None \<longrightarrow> reaches m c n (snd r))) \<and>
      fst r = line_up (snd r)"
  proof (cases "mc_sleep m")
    case None
    then show ?thesis using wfi_advance_elapses [OF ok, of K c] reaches_le [of m c] unfolding r worth [symmetric] by auto
  next
    case (Some sleep)
    show ?thesis
    proof (cases "wfi_pace K sleep c m")
      case (Inl q)
      then show ?thesis using wfi_pace_cases [OF ok, where K = K and sleep = sleep and c = c] Some
        unfolding r worth by (cases q) simp
    next
      case (Inr m2)
      then have k: "guest_kept m m2" using wfi_pace_cases [OF ok, where K = K and sleep = sleep and c = c] by simp
      then have "clocks_ok m2" "worth m2 (unat c) = unat e"
        using guest_kept_clocks [OF k, of "unat c"] ok worth by simp_all
      then show ?thesis
        using wfi_advance_elapses [of m2 K c] reaches_le [of m2 c] elapses_trans [OF guest_kept_elapses [OF k]] Some Inr
        unfolding r by fastforce
    qed
  qed
  then show "\<exists>n. elapses K m n (snd r) \<and> n \<le> unat e \<and> (mc_sleep m = None \<longrightarrow> reaches m c n (snd r))"
    and "fst r = line_up (snd r)" by blast+
qed

text \<open>
  C35: Wait For Interrupt never carries the devices past the first edge, and without pacing it carries
  them exactly to it. When it goes to wait, the edge it chose is the least over the enabled sources and
  one of them has it, and the refreshes of the wait carry at most that many timebase ticks, paced by the
  host or not. When nothing paces the wait they carry exactly that many, whether the device then raises
  its line or not; the one way to end sooner is a wait of more than $2^{32}-1$ CPU ticks, which stops
  after a whole number of slices of $2^{32}-1$ when a line is up there. The answer is whether a line is up
  at the end. When no enabled source can name an edge, no time passes.
\<close>

theorem wait_stops_at_first_edge:
  assumes "clocks_ok m0" "\<not> line_up m0" "m = s5l8900_tick K 0 m0" "\<not> line_up m"
  shows "case s5l8900_next_wake K m WAKE_SOURCES of
      WAKE_AT e \<Rightarrow> wake_least K m WAKE_SOURCES e \<and>
        (\<exists>c m'. wfi_cpu_ticks m e = Some c \<and> machine_wait_for_interrupt K m0 = (line_up m', m') \<and>
           (\<exists>n. elapses K m n m' \<and> n \<le> unat e \<and>
              (mc_sleep m = None \<longrightarrow> n = unat e \<or>
                 line_up m' \<and> (\<exists>k > 0. k * 0xffffffff < unat c \<and>
                   n = (unat (mc_tb_accum m) + k * 0xffffffff * unat (mc_tb_hz m)) div unat (mc_cpu_hz m)))))
    | _ \<Rightarrow> machine_wait_for_interrupt K m0 = (False, m)"
proof -
  have ok: "clocks_ok m" using tick_elapses [OF assms(1), of K 0] assms(3) by simp
  show ?thesis
  proof (cases "s5l8900_next_wake K m WAKE_SOURCES")
    case (WAKE_AT e)
    have "wfi_cpu_ticks m e \<noteq> None"
      using ok by (auto simp: wfi_cpu_ticks_def clocks_ok_def Let_def)
    then obtain c where c: "wfi_cpu_ticks m e = Some c" by blast
    have worth: "worth m (unat c) = unat e"
      by (rule wfi_ticks_exact(1) [OF ok conjunct1 [OF next_wake_least [OF WAKE_AT]] c])
    have r: "machine_wait_for_interrupt K m0 = (case mc_sleep m of None \<Rightarrow> wfi_advance K c m
        | Some sleep \<Rightarrow> (case wfi_pace K sleep c m of Inl r \<Rightarrow> r | Inr m2 \<Rightarrow> wfi_advance K c m2))"
      using assms(2,4) WAKE_AT c by (simp add: machine_wait_for_interrupt_def Let_def assms(3) [symmetric])
    obtain m' where m': "machine_wait_for_interrupt K m0 = (line_up m', m')"
      using wait_steps(2) [OF ok WAKE_AT c r] by (cases "machine_wait_for_interrupt K m0") simp
    note steps = wait_steps(1) [OF ok WAKE_AT c r, unfolded m' snd_conv reaches_def worth]
    show ?thesis unfolding WAKE_AT wake_kind.case
      by (intro conjI exI [of _ c] exI [of _ m'] conjunct2 [OF next_wake_least [OF WAKE_AT]] c m' steps)
  qed (use assms in \<open>simp_all add: machine_wait_for_interrupt_def Let_def\<close>)
qed

section \<open>From a GPIO line to the CPU\<close>

lemma s5l_vic_set_line_raw:
  "k < 32 \<Longrightarrow> bit (v_raw (s5l_vic_set_line v k level)) j = (if j = k then level else bit (v_raw v) j)"
  by (auto simp: s5l_vic_set_line_def bit_simps dest: bit_imp_le_length)

text \<open>The raw input \<open>line\<close> of the two controllers, numbered flat.\<close>

definition vic_raw :: "'x s5l8900 \<Rightarrow> nat \<Rightarrow> bool" where
  "vic_raw s line = bit (v_raw (if line div 32 = 0 then m_vic0 s else m_vic1 s)) (line mod 32)"

lemma cascade_less: "gr < GROUPS \<Longrightarrow> s5l_gpioic_cascade gr < 64"
  and cascade_inj: "gr < GROUPS \<Longrightarrow> gr' < GROUPS \<Longrightarrow> s5l_gpioic_cascade gr = s5l_gpioic_cascade gr' \<longleftrightarrow> gr = gr'"
proof -
  have seven: "gr = 0 \<or> gr = 1 \<or> gr = 2 \<or> gr = 3 \<or> gr = 4 \<or> gr = 5 \<or> gr = 6" if "gr < 7" for gr :: nat
    using that by linarith
  show "gr < GROUPS \<Longrightarrow> s5l_gpioic_cascade gr < 64"
    by (drule seven) (elim disjE; simp add: s5l_gpioic_cascade_def)
  show "gr < GROUPS \<Longrightarrow> gr' < GROUPS \<Longrightarrow> s5l_gpioic_cascade gr = s5l_gpioic_cascade gr' \<longleftrightarrow> gr = gr'"
    by (drule seven, drule seven) (elim disjE; simp add: s5l_gpioic_cascade_def)
qed

lemma cascade_group_raw:
  assumes "gr < GROUPS" "gr' < GROUPS"
  shows "vic_raw (cascade_group gr s) (s5l_gpioic_cascade gr') =
    (if gr' = gr then s5l_gpioic_group_irq (m_gpioic s) gr else vic_raw s (s5l_gpioic_cascade gr'))"
    and "m_gpioic (cascade_group gr s) = m_gpioic s"
proof -
  have c: "s5l_gpioic_cascade gr < 64" "s5l_gpioic_cascade gr' < 64"
    "s5l_gpioic_cascade gr = s5l_gpioic_cascade gr' \<longleftrightarrow> gr = gr'"
    using cascade_less cascade_inj assms by blast+
  have eq: "s5l_gpioic_cascade gr = s5l_gpioic_cascade gr' \<longleftrightarrow>
      s5l_gpioic_cascade gr div 32 = s5l_gpioic_cascade gr' div 32 \<and>
      s5l_gpioic_cascade gr mod 32 = s5l_gpioic_cascade gr' mod 32"
    by (metis mod_div_mult_eq)
  show "vic_raw (cascade_group gr s) (s5l_gpioic_cascade gr') =
    (if gr' = gr then s5l_gpioic_group_irq (m_gpioic s) gr else vic_raw s (s5l_gpioic_cascade gr'))"
    using c eq by (auto simp: vic_raw_def cascade_group_def Let_def s5l_vic_set_line_raw)
  show "m_gpioic (cascade_group gr s) = m_gpioic s" by (simp add: cascade_group_def Let_def)
qed

lemma cascade_groups_raw:
  "\<forall>gr \<in> set grs. gr < GROUPS \<Longrightarrow> gr' < GROUPS \<Longrightarrow>
   vic_raw (foldl (\<lambda>s gr. cascade_group gr s) s grs) (s5l_gpioic_cascade gr') =
     (if gr' \<in> set grs then s5l_gpioic_group_irq (m_gpioic s) gr' else vic_raw s (s5l_gpioic_cascade gr')) \<and>
   m_gpioic (foldl (\<lambda>s gr. cascade_group gr s) s grs) = m_gpioic s"
  by (induction grs arbitrary: s) (auto simp: cascade_group_raw)

lemma refresh_cascade:
  assumes "gr < GROUPS"
  shows "vic_raw (mc_soc (s5l8900_refresh K tb m)) (s5l_gpioic_cascade gr) =
    s5l_gpioic_group_irq (m_gpioic (mc_soc (s5l8900_refresh K tb m))) gr"
proof -
  obtain edge s where s: "refresh_dma K (mc_tb_hz m) (unat tb) 0 False (refresh_front K (mc_tb_hz m) tb (mc_soc m)) = (edge, s)"
    by (metis surj_pair)
  have soc: "mc_soc (s5l8900_refresh K tb m) =
      (refresh_back K edge s)\<lparr>m_rest := m_rest (mc_soc (s5l8900_refresh K tb m))\<rparr>"
    by (simp add: s5l8900_refresh_def Let_def s)
  have "\<exists>s1. refresh_back K edge s = foldl (\<lambda>s gr. cascade_group gr s) s1 [0..<GROUPS]"
    unfolding refresh_back_def Let_def split_beta by blast
  then obtain s1 where s1: "refresh_back K edge s = foldl (\<lambda>s gr. cascade_group gr s) s1 [0..<GROUPS]" by blast
  have rest: "vic_raw (s\<lparr>m_rest := x\<rparr>) k = vic_raw s k" for s :: "'a s5l8900" and x k by (simp add: vic_raw_def)
  have "\<forall>gr \<in> set [0..<GROUPS]. gr < GROUPS" by simp
  from cascade_groups_raw [OF this assms, of s1] show ?thesis
    using assms rest by (subst soc, subst (2) soc) (simp add: s1)
qed

lemma refresh_lines:
  "mc_irq_line (s5l8900_refresh K tb m) \<longleftrightarrow>
     s5l_vic_irq (m_vic0 (mc_soc (s5l8900_refresh K tb m))) \<or> s5l_vic_irq (m_vic1 (mc_soc (s5l8900_refresh K tb m)))"
  "mc_fiq_line (s5l8900_refresh K tb m) \<longleftrightarrow>
     s5l_vic_fiq (m_vic0 (mc_soc (s5l8900_refresh K tb m))) \<or> s5l_vic_fiq (m_vic1 (mc_soc (s5l8900_refresh K tb m)))"
  by (simp_all add: s5l8900_refresh_def Let_def split_beta)

lemma tick_0_refreshes: "\<exists>tb m1. s5l8900_tick K 0 m = s5l8900_refresh K tb m1"
  by (auto simp: s5l8900_tick_def Let_def)

lemma s5l_vic_irq_of_source: "vic_source_irq v k \<Longrightarrow> s5l_vic_irq v" and
  s5l_vic_fiq_of_source: "vic_source_fiq v k \<Longrightarrow> s5l_vic_fiq v"
  using s5l_vic_irq_source s5l_vic_fiq_source by blast+

text \<open>
  C34: A GPIO interrupt reaches the CPU and ends a wait. After the refresh that opens every wait, each
  group of the GPIO controller drives exactly its own input of the two interrupt controllers; a line
  that is pending and enabled raises the CPU's IRQ or FIQ, whichever the controller selects, as soon as
  the cascade input is enabled there, and Wait For Interrupt then completes at once.
\<close>

theorem gpio_line_reaches_cpu:
  fixes K :: "'x soc_clock"
  assumes "m = s5l8900_tick K 0 m0" "s = mc_soc m" "k < LINES"
    and "line = s5l_gpioic_cascade (k div 32)" "v = (if line div 32 = 0 then m_vic0 s else m_vic1 s)"
  shows "bit (v_raw v) (line mod 32) = s5l_gpioic_group_irq (m_gpioic s) (k div 32) \<and>
    (s5l_gpioic_pending (m_gpioic s) k \<and> ln_en (line_of (m_gpioic s) k) \<and> bit (v_enable v) (line mod 32) \<longrightarrow>
       (if bit (v_select v) (line mod 32) then mc_fiq_line m else mc_irq_line m) \<and>
       fst (machine_wait_for_interrupt K m0))"
proof -
  have gr: "k div 32 < GROUPS" using assms(3) by simp
  obtain tb m1 where m: "m = s5l8900_refresh K tb m1" using tick_0_refreshes [of K m0] assms(1) by blast
  have raw: "bit (v_raw v) (line mod 32) = s5l_gpioic_group_irq (m_gpioic s) (k div 32)"
    using refresh_cascade [OF gr, of K tb m1] unfolding assms(2,4,5) m vic_raw_def .
  have lines: "mc_irq_line m \<longleftrightarrow> s5l_vic_irq (m_vic0 s) \<or> s5l_vic_irq (m_vic1 s)"
    "mc_fiq_line m \<longleftrightarrow> s5l_vic_fiq (m_vic0 s) \<or> s5l_vic_fiq (m_vic1 s)"
    unfolding assms(2) m by (rule refresh_lines)+
  have cpu: "if bit (v_select v) (line mod 32) then mc_fiq_line m else mc_irq_line m"
    if "s5l_gpioic_pending (m_gpioic s) k" "ln_en (line_of (m_gpioic s) k)" "bit (v_enable v) (line mod 32)"
  proof -
    have "s5l_gpioic_group_irq (m_gpioic s) (k div 32)"
      using that(1,2) assms(3) s5l_gpioic_group_irq_lines [OF gr, of "m_gpioic s"]
      by (auto simp: s5l_gpioic_pending_line)
    then have "if bit (v_select v) (line mod 32) then vic_source_fiq v (line mod 32) else vic_source_irq v (line mod 32)"
      using that(3) raw by (simp add: vic_source_irq_def vic_source_fiq_def)
    then show ?thesis
      using lines s5l_vic_irq_of_source [of v "line mod 32"] s5l_vic_fiq_of_source [of v "line mod 32"]
      unfolding assms(5) by (auto split: if_splits)
  qed
  have "fst (machine_wait_for_interrupt K m0)" if "line_up m"
    using that assms(1) by (auto simp: machine_wait_for_interrupt_def Let_def)
  then show ?thesis using raw cpu by (auto simp: line_up_def split: if_splits)
qed

section \<open>Witnesses\<close>

text \<open>
  A machine whose remaining devices are at rest but for the touch controller, which asks for attention,
  and a display whose next frame is 100 ticks away; the DMA controllers are off.
\<close>

definition demo_clock :: "unit soc_clock" where
  "demo_clock = \<lparr>k_rest = plain_rest, k_ptrs = bus_ptrs flat_bus, k_eager = False,
     k_clcd_tick = (\<lambda>_ x. (False, x)), k_clcd_edge = (\<lambda>_. WAKE_AT 100), k_tvout_tick = (\<lambda>_ x. (False, x)),
     k_tvout_edge = (\<lambda>_. WAKE_NEVER), k_mbx_irq = (\<lambda>_. False), k_usb_irq = (\<lambda>_. False),
     k_i2c_irq = (\<lambda>_ _. False), k_pmu_tick = (\<lambda>_ x. x), k_pmu_irq = (\<lambda>_. False), k_touch_irq = (\<lambda>_. True),
     k_touch_atn = (\<lambda>_. True), k_audio_tick = (\<lambda>_ _ x. (False, x)), k_audio_next = (\<lambda>_ _. 0),
     k_clock_next = (\<lambda>_ _. 0), k_trace = (\<lambda>_ m. m_rest (mc_soc m))\<rparr>"

definition demo_machine :: "u32 \<Rightarrow> unit s5l8900 \<Rightarrow> unit machine" where
  "demo_machine enabled s =
     \<lparr>mc_soc = s\<lparr>m_vic0 := s5l_vic_reset\<lparr>v_enable := enabled\<rparr>, m_vic1 := s5l_vic_reset,
                m_dmac0 := s5l_pl080_reset, m_dmac1 := s5l_pl080_reset, m_buttons := s5l_buttons_reset,
                m_gpioic := gpioic_run [G_write 0xd0 0x08000000] s5l_gpioic_reset\<rparr>,
      mc_irq_line = False, mc_fiq_line = False, mc_cpu_hz = 412000000, mc_tb_hz = 6000000, mc_tb_accum = 5,
      mc_ext_seen = 0, mc_now = None, mc_sleep = None,
      mc_clock = \<lparr>ac_last_host_ns = 0, ac_guest_ticks_since_sync = 0, ac_fraction = 0, ac_idle_oversleep_ns = 0,
        ac_idle_credit_ticks = 0, ac_idle_repaid_ticks = 0, ac_input_guard_host_ns = 0, ac_input_guards = 0,
        ac_input_guard_quiesces = 0, ac_anchor_valid = False, ac_input_guard = False,
        ac_input_guard_host_valid = False, ac_deadline_shield = False\<rparr>,
      mc_wfi_paced_waits = 0, mc_wfi_paced_wait_ns = 0, mc_wfi_paced_partial_advances = 0,
      mc_wfi_paced_failures = 0, mc_wfi_pace_yield = False\<rparr>"

lemma demo_clocks: "clocks_ok (demo_machine e s)"
  by (simp add: clocks_ok_def demo_machine_def)

text \<open>What a refresh leaves of the interrupt controllers' masks and of the GPIO controller.\<close>

definition vic_masks :: "'x s5l8900 \<Rightarrow> u32 \<times> u32 \<times> u32 \<times> u32 \<times> u32 \<times> u32" where
  "vic_masks s = (v_enable (m_vic0 s), v_select (m_vic0 s), v_soft (m_vic0 s),
     v_enable (m_vic1 s), v_select (m_vic1 s), v_soft (m_vic1 s))"

lemma cascade_masks:
  "vic_masks (foldl (\<lambda>s gr. cascade_group gr s) s grs) = vic_masks s"
  by (induction grs arbitrary: s) (simp_all add: vic_masks_def cascade_group_def Let_def)

lemma cascade_13:
  "\<forall>gr \<in> set grs. gr < GROUPS \<Longrightarrow>
   bit (v_raw (m_vic0 (foldl (\<lambda>s gr. cascade_group gr s) s grs))) 13 = bit (v_raw (m_vic0 s)) 13"
proof (induction grs arbitrary: s)
  case (Cons gr grs)
  have "gr = 0 \<or> gr = 1 \<or> gr = 2 \<or> gr = 3 \<or> gr = 4 \<or> gr = 5 \<or> gr = 6" using Cons.prems by auto
  then have "bit (v_raw (m_vic0 (cascade_group gr s))) 13 = bit (v_raw (m_vic0 s)) 13"
    by (elim disjE) (simp_all add: cascade_group_def s5l_gpioic_cascade_def Let_def s5l_vic_set_line_raw)
  then show ?case using Cons by simp
qed simp

lemma run_dmac_off:
  "dm_config (if first then m_dmac0 s else m_dmac1 s) AND 1 = 0 \<Longrightarrow>
   run_dmac K first s = vic0_line (if first then IRQ_DMAC0 else IRQ_DMAC1)
     (s5l_pl080_irq (if first then m_dmac0 s else m_dmac1 s)) (s\<lparr>m_dma_access_active := False\<rparr>)"
  by (cases first) (simp_all add: run_dmac_def s5l_pl080_run_def machine_dma_def)

lemma refresh_back_quiet:
  "vic_masks (refresh_back K False s) = vic_masks s \<and>
   bit (v_raw (m_vic0 (refresh_back K False s))) 13 = bit (v_raw (m_vic0 s)) 13 \<and>
   m_gpioic (refresh_back K False s) =
     gpioic_run (G_line 85 (\<not> k_pmu_irq K (m_rest s)) # G_line 155 (k_touch_irq K (m_rest s)) #
       map (\<lambda>(k, level). G_line k level) (line_table (m_buttons s))) (m_gpioic s)"
proof -
  let ?g = "s5l_gpioic_set_line 155 (k_touch_irq K (m_rest s)) (s5l_gpioic_set_line 85 (\<not> k_pmu_irq K (m_rest s)) (m_gpioic s))"
  obtain calls where a: "s5l_buttons_apply (m_buttons s) (Some (m_gpio s)) (Some ?g) =
    (calls, Some (fold (\<lambda>(pin, level) g. snd (s5l_gpio_drive pin level g)) (pin_table (m_buttons s)) (m_gpio s)),
     Some (fold (\<lambda>(k, level). s5l_gpioic_set_line k level) (line_table (m_buttons s)) ?g))"
    by (rule s5l_buttons_apply_tables)
  define s1 where "s1 = make_calls calls
    (s\<lparr>m_vic0 := s5l_vic_set_line (m_vic0 s) IRQ_UART4 (s5l_uart_rx_irq (m_uart4 s)),
       m_gpio := fold (\<lambda>(pin, level) g. snd (s5l_gpio_drive pin level g)) (pin_table (m_buttons s)) (m_gpio s),
       m_gpioic := fold (\<lambda>(k, level). s5l_gpioic_set_line k level) (line_table (m_buttons s)) ?g\<rparr>)"
  have rb: "refresh_back K False s = foldl (\<lambda>s gr. cascade_group gr s) s1 [0..<GROUPS]"
    by (simp add: refresh_back_def Let_def vic0_line_def a s1_def make_calls_def)
  have gi: "m_gpioic s1 = gpioic_run (G_line 85 (\<not> k_pmu_irq K (m_rest s)) # G_line 155 (k_touch_irq K (m_rest s)) #
       map (\<lambda>(k, level). G_line k level) (line_table (m_buttons s))) (m_gpioic s)"
    by (simp add: s1_def make_calls_def set_lines_run gpioic_event_def)
  have "vic_masks s1 = vic_masks s" "bit (v_raw (m_vic0 s1)) 13 = bit (v_raw (m_vic0 s)) 13"
    by (simp_all add: s1_def make_calls_def vic_masks_def s5l_vic_set_line_raw)
  moreover have "m_gpioic (foldl (\<lambda>s gr. cascade_group gr s) s1 grs) = m_gpioic s1" for grs
    by (induction grs arbitrary: s1) (simp_all add: cascade_group_def Let_def)
  moreover have "\<forall>gr \<in> set [0..<GROUPS]. gr < GROUPS" by simp
  ultimately show ?thesis unfolding rb using cascade_masks cascade_13 gi by metis
qed

lemma demo_refresh:
  fixes e :: u32 and s :: "unit s5l8900"
  defines "m \<equiv> s5l8900_tick demo_clock 0 (demo_machine e s)"
  shows "vic_masks (mc_soc m) = (e, 0, 0, 0, 0, 0)" and "\<not> bit (v_raw (m_vic0 (mc_soc m))) 13"
    and "m_gpioic (mc_soc m) = gpioic_run ([G_write 0xd0 0x08000000, G_line 85 True, G_line 155 True] @
      map (\<lambda>(k, level). G_line k level) (line_table s5l_buttons_reset)) s5l_gpioic_reset"
    and "mc_sleep m = None" and "clocks_ok m"
    and "mc_irq_line m \<longleftrightarrow> s5l_vic_irq (m_vic0 (mc_soc m)) \<or> s5l_vic_irq (m_vic1 (mc_soc m))"
    and "mc_fiq_line m \<longleftrightarrow> s5l_vic_fiq (m_vic0 (mc_soc m)) \<or> s5l_vic_fiq (m_vic1 (mc_soc m))"
proof -
  let ?d = "demo_machine e s"
  define f where "f = refresh_front demo_clock 6000000 0 (mc_soc ?d)"
  have f: "m_dmac0 f = s5l_pl080_reset" "m_dmac1 f = s5l_pl080_reset" "m_buttons f = s5l_buttons_reset"
    "m_gpioic f = m_gpioic (mc_soc ?d)" "vic_masks f = (e, 0, 0, 0, 0, 0)" "\<not> bit (v_raw (m_vic0 f)) 13"
    by (simp_all add: f_def refresh_front_def Let_def split_beta vic0_line_def demo_clock_def demo_machine_def
        vic_masks_def s5l_vic_set_line_raw s5l_vic_reset_def)
  define g where "g = run_dmac demo_clock False (run_dmac demo_clock True f)"
  have off: "dm_config s5l_pl080_reset AND 1 = 0" by (simp add: s5l_pl080_reset_def)
  have g: "m_buttons g = s5l_buttons_reset" "m_gpioic g = m_gpioic (mc_soc ?d)" "vic_masks g = (e, 0, 0, 0, 0, 0)"
    "\<not> bit (v_raw (m_vic0 g)) 13"
    using f off by (simp_all add: g_def run_dmac_off vic0_line_def vic_masks_def s5l_vic_set_line_raw)
  have dma: "refresh_dma demo_clock 6000000 0 0 False f = (False, g)"
    by (subst refresh_dma.simps) (simp add: g_def Let_def)
  have m: "m = s5l8900_refresh demo_clock 0 (?d\<lparr>mc_tb_accum := 5\<rparr>)"
    by (simp add: m_def s5l8900_tick_def tick_host_def demo_machine_def Let_def)
  have b: "mc_soc m = (refresh_back demo_clock False g)\<lparr>m_rest := ()\<rparr>"
    using dma by (simp add: m s5l8900_refresh_def Let_def f_def demo_machine_def)
  note q = refresh_back_quiet [of demo_clock g]
  show "vic_masks (mc_soc m) = (e, 0, 0, 0, 0, 0)" using q g by (simp add: b vic_masks_def)
  show "\<not> bit (v_raw (m_vic0 (mc_soc m))) 13" using q g by (simp add: b)
  show "m_gpioic (mc_soc m) = gpioic_run ([G_write 0xd0 0x08000000, G_line 85 True, G_line 155 True] @
      map (\<lambda>(k, level). G_line k level) (line_table s5l_buttons_reset)) s5l_gpioic_reset"
    using q g by (simp add: b demo_clock_def demo_machine_def)
  show "mc_sleep m = None" by (simp add: m s5l8900_refresh_def Let_def split_beta demo_machine_def)
  show "clocks_ok m" unfolding m_def using tick_elapses [OF demo_clocks] by blast
  show "mc_irq_line m \<longleftrightarrow> s5l_vic_irq (m_vic0 (mc_soc m)) \<or> s5l_vic_irq (m_vic1 (mc_soc m))"
    "mc_fiq_line m \<longleftrightarrow> s5l_vic_fiq (m_vic0 (mc_soc m)) \<or> s5l_vic_fiq (m_vic1 (mc_soc m))"
    unfolding m by (rule refresh_lines)+
qed

lemma vic_quiet:
  "v_enable v = 0 \<Longrightarrow> \<not> s5l_vic_irq v" "v_select v = 0 \<Longrightarrow> \<not> s5l_vic_fiq v"
  "v_enable v = 0x2000 \<Longrightarrow> v_soft v = 0 \<Longrightarrow> \<not> bit (v_raw v) 13 \<Longrightarrow> \<not> s5l_vic_irq v"
proof -
  assume v: "v_enable v = 0x2000" "v_soft v = 0" "\<not> bit (v_raw v) 13"
  have "a AND 0x2000 = 0" if "\<not> bit a 13" for a :: u32
    using that and_exp_eq_0_iff_not_bit [of a 13] by simp
  then show "\<not> s5l_vic_irq v" using v by (simp add: s5l_vic_irq_def vic_pending_def)
qed (simp_all add: s5l_vic_irq_def s5l_vic_fiq_def)

lemma shl_disjoint: "n \<noteq> k \<Longrightarrow> shl 1 n AND shl 1 k = (0 :: u32)"
  by (rule bit_eqI) (auto simp: bit_simps)

lemma and_0x2000: "(0x2000 :: u32) AND shl 1 k = 0 \<longleftrightarrow> k \<noteq> 13"
proof (cases "k = 13")
  case False
  then show ?thesis using shl_disjoint [of 13 k] by simp
qed simp

theorem ticks_lose_nothing_witness:
  "\<exists>s :: unit s5l8900. elapses demo_clock (demo_machine 0 s) 1 (fold (s5l8900_tick demo_clock) [30, 38, 1] (demo_machine 0 s))"
  using ticks_lose_nothing [OF demo_clocks, of demo_clock 0 _ "[30, 38, 1]"]
  by (auto simp: demo_machine_def)

lemma demo_ticks:
  fixes s :: "unit s5l8900"
  shows "wfi_cpu_ticks (s5l8900_tick demo_clock 0 (demo_machine e s)) 100 = Some 6867"
proof -
  have "s5l8900_tick demo_clock 0 (demo_machine e s) = s5l8900_refresh demo_clock 0 ((demo_machine e s)\<lparr>mc_tb_accum := 5\<rparr>)"
    by (simp add: s5l8900_tick_def tick_host_def demo_machine_def Let_def)
  then show ?thesis by (simp add: wfi_cpu_ticks_def Let_def) (simp add: demo_machine_def)
qed

theorem wait_stops_at_first_edge_witness:
  "\<forall>s :: unit s5l8900. \<exists>m'. machine_wait_for_interrupt demo_clock (demo_machine 0x2000 s) = (line_up m', m') \<and>
     elapses demo_clock (s5l8900_tick demo_clock 0 (demo_machine 0x2000 s)) 100 m'"
proof
  fix s :: "unit s5l8900"
  let ?m = "s5l8900_tick demo_clock 0 (demo_machine 0x2000 s)"
  note r = demo_refresh [of "0x2000" s]
  have v: "v_enable (m_vic0 (mc_soc ?m)) = 0x2000" "v_select (m_vic0 (mc_soc ?m)) = 0" "v_soft (m_vic0 (mc_soc ?m)) = 0"
    "v_enable (m_vic1 (mc_soc ?m)) = 0" "v_select (m_vic1 (mc_soc ?m)) = 0"
    using r(1) by (simp_all add: vic_masks_def)
  have up: "\<not> line_up ?m" using r(2) v by (simp add: line_up_def r(6,7) vic_quiet)
  have down: "\<not> line_up (demo_machine 0x2000 s)" by (simp add: line_up_def demo_machine_def)
  have clcd: "wake_edge_clcd demo_clock ?m = WAKE_AT 100" by (simp add: wake_edge_clcd_def demo_clock_def)
  have on: "wake_line_enabled ?m line \<longleftrightarrow> line = 13" if "line < 64" for line
    using that by (auto simp: wake_line_enabled_def v and_0x2000 [simplified])
  have wake: "s5l8900_next_wake demo_clock ?m WAKE_SOURCES = WAKE_AT 100"
    by (simp add: s5l8900_next_wake_def WAKE_SOURCES_def source_entry_def on clcd)
  show "\<exists>m'. machine_wait_for_interrupt demo_clock (demo_machine 0x2000 s) = (line_up m', m') \<and>
      elapses demo_clock ?m 100 m'"
    using wait_stops_at_first_edge [OF demo_clocks down refl up, unfolded wake wake_kind.case demo_ticks] r(4) by auto
qed

theorem gpio_line_reaches_cpu_witness:
  "\<forall>s :: unit s5l8900. mc_irq_line (s5l8900_tick demo_clock 0 (demo_machine 4 s)) \<and>
     fst (machine_wait_for_interrupt demo_clock (demo_machine 4 s))"
proof
  fix s :: "unit s5l8900"
  let ?m = "s5l8900_tick demo_clock 0 (demo_machine 4 s)"
  note r = demo_refresh [of 4 s]
  have k: "155 < LINES" by simp
  have "line_table s5l_buttons_reset = map (\<lambda>i. (s5l_button_line i, s5l_button_level i False)) [0..<BUTTON_COUNT]"
    by (auto simp: line_table_def s5l_buttons_held_def s5l_buttons_reset_def wiring_line)
  then have l: "ln_stat (line_of (m_gpioic (mc_soc ?m)) 155)" "ln_en (line_of (m_gpioic (mc_soc ?m)) 155)"
    unfolding r(3) gpioic_run_lines [OF gpioic_ok_reset gpioic_settled_reset, THEN conjunct2, THEN conjunct2, rule_format, OF k]
      line_of_reset [OF k]
    by (simp_all add: upt_rec s5l_button_line_def line_event_def line_idle_def line_latch_def Let_def bit_simps)
  have "s5l_gpioic_cascade (155 div 32) = 2" by (simp add: s5l_gpioic_cascade_def)
  moreover have "v_enable (m_vic0 (mc_soc ?m)) = 4" "v_select (m_vic0 (mc_soc ?m)) = 0"
    using r(1) by (simp_all add: vic_masks_def)
  moreover have "bit (4 :: u32) 2" by (simp add: bit_simps)
  ultimately show "mc_irq_line ?m \<and> fst (machine_wait_for_interrupt demo_clock (demo_machine 4 s))"
    using gpio_line_reaches_cpu [OF refl refl k refl refl, of demo_clock "demo_machine 4 s"] l
    by (simp add: s5l_gpioic_pending_line)
qed

end
