(* ===== verification/Machine_Clock.thy ===== *)
theory Machine_Clock
  imports Machine_Tick
begin

text \<open>
  The active host clock (core/src/soc/machine.c): guest time follows a monotonic host clock instead of
  the count of instructions. One synchronisation converts the host time since the last one, subtracts
  the time the guest already had, and adds the rest within two limits: one slice of 8 ms, and the work
  the processor retired. The lemmas show that the conversion is exact, that no fraction of a tick is
  lost between synchronisations, and that neither limit is ever passed.
\<close>

unbundle bit_operations_syntax

section \<open>State\<close>

text \<open>
  The CPU and what the run loop adds to the machine: the counters and the work budget of the active
  clock, the pre-step hook with its targets (the count is the length), and the services called at the
  end of a run. The platform state of the CPU is the machine. A service is host code that may use the
  public calls on the machine and the CPU.
\<close>

datatype write_grant = GRANT_NONE | GRANT_DIRECT | GRANT_WATCHED

record 'x system =
  sy_cpu :: "'x machine arm_cpu"
  sy_write_grant :: write_grant
  sy_updates :: u64
  sy_added_ticks :: u64
  sy_clamps :: u64
  sy_failures :: u64
  sy_deadline_shields :: u64
  sy_max_ticks_per_retirement :: u32
  sy_power_wait_fraction :: u64
  sy_pre_step_hook :: "('x machine arm_cpu \<Rightarrow> bool \<times> 'x machine arm_cpu) option"
  sy_pre_step_target :: "u32 list"
  sy_pre_step_filter :: u64
  sy_pre_step_matches :: u64
  sy_pre_step_handled :: u64
  sy_tick_batches :: u64
  sy_tick_batched_retired :: u64
  sy_uart4_service :: "(u32 \<Rightarrow> 'x machine arm_cpu \<Rightarrow> 'x machine arm_cpu) option"
  sy_restart_service :: "('x machine arm_cpu \<Rightarrow> bool \<times> 'x machine arm_cpu) option"

abbreviation sy_machine :: "'x system \<Rightarrow> 'x machine" where
  "sy_machine s \<equiv> ctx (sy_cpu s)"

abbreviation sy_clock :: "'x system \<Rightarrow> active_clock" where
  "sy_clock s \<equiv> mc_clock (sy_machine s)"

text \<open>
  The machine owns the CPU's two interrupt inputs: a call that takes the machine reads them from the
  CPU, and what it leaves in them goes back.
\<close>

definition on_machine :: "('x machine \<Rightarrow> 'x machine) \<Rightarrow> 'x machine arm_cpu \<Rightarrow> 'x machine arm_cpu" where
  "on_machine f c =
     (let m = f ((ctx c)\<lparr>mc_irq_line := irq_line c, mc_fiq_line := fiq_line c\<rparr>)
      in c\<lparr>ctx := m, irq_line := mc_irq_line m, fiq_line := mc_fiq_line m\<rparr>)"

definition on_clock :: "(active_clock \<Rightarrow> active_clock) \<Rightarrow> 'x system \<Rightarrow> 'x system" where
  "on_clock f s =
     s\<lparr>sy_cpu := (sy_cpu s)\<lparr>ctx := (sy_machine s)\<lparr>mc_clock := f (sy_clock s)\<rparr>\<rparr>\<rparr>"

lemma on_clock_simps [simp]:
  "sy_clock (on_clock f s) = f (sy_clock s)" "sy_clamps (on_clock f s) = sy_clamps s"
  by (simp_all add: on_clock_def)

definition system_tick :: "'x soc_clock \<Rightarrow> u32 \<Rightarrow> 'x system \<Rightarrow> 'x system" where
  "system_tick K n s = s\<lparr>sy_cpu := on_machine (s5l8900_tick K n) (sy_cpu s)\<rparr>"

section \<open>Host policy\<close>

abbreviation MAX_STEP_NS :: u64 where "MAX_STEP_NS \<equiv> 8000000"
abbreviation INPUT_SHIELD_NS :: u64 where "INPUT_SHIELD_NS \<equiv> 15000000000"
abbreviation MAX_WORK_TICKS :: u32 where "MAX_WORK_TICKS \<equiv> 64"

text \<open>A call refuses, and changes nothing, when a context is given without its callback: that is
  the caller's own type error and has no counterpart here.\<close>

definition s5l8900_set_wfi_host_pacing :: "(u64 \<Rightarrow> 'x \<Rightarrow> bool \<times> 'x) option \<Rightarrow> 'x system \<Rightarrow> 'x system" where
  "s5l8900_set_wfi_host_pacing sleep s =
     (let m = sy_machine s;
          m1 = m\<lparr>mc_sleep := sleep, mc_wfi_paced_waits := 0, mc_wfi_paced_wait_ns := 0,
                 mc_wfi_paced_partial_advances := 0, mc_wfi_paced_failures := 0, mc_wfi_pace_yield := False,
                 mc_clock := (mc_clock m)\<lparr>ac_idle_oversleep_ns := 0, ac_idle_credit_ticks := 0,
                                          ac_idle_repaid_ticks := 0\<rparr>\<rparr>
      in s\<lparr>sy_cpu := (sy_cpu s)\<lparr>ctx := m1\<rparr>, sy_power_wait_fraction := 0\<rparr>)"

definition s5l8900_set_active_host_clock :: "('x \<Rightarrow> (bool \<times> u64) \<times> 'x) option \<Rightarrow> 'x system \<Rightarrow> 'x system" where
  "s5l8900_set_active_host_clock now s =
     (let m = sy_machine s;
          m1 = m\<lparr>mc_now := now,
                 mc_clock := \<lparr>ac_last_host_ns = 0, ac_guest_ticks_since_sync = 0, ac_fraction = 0,
                   ac_idle_oversleep_ns = 0, ac_idle_credit_ticks = 0, ac_idle_repaid_ticks = 0,
                   ac_input_guard_host_ns = 0, ac_input_guards = 0, ac_input_guard_quiesces = 0,
                   ac_anchor_valid = False, ac_input_guard = False, ac_input_guard_host_valid = False,
                   ac_deadline_shield = False\<rparr>\<rparr>
      in s\<lparr>sy_cpu := (sy_cpu s)\<lparr>ctx := m1\<rparr>, sy_updates := 0, sy_added_ticks := 0, sy_clamps := 0,
           sy_failures := 0, sy_deadline_shields := 0\<rparr>)"

definition s5l8900_set_active_clock_work_budget :: "u32 \<Rightarrow> 'x system \<Rightarrow> bool \<times> 'x system" where
  "s5l8900_set_active_clock_work_budget budget s =
     (if budget = 0 \<or> budget > MAX_WORK_TICKS then (False, s)
      else (True, on_clock active_clock_reset_anchor (s\<lparr>sy_max_ticks_per_retirement := budget\<rparr>)))"

definition s5l8900_resume_active_host_clock :: "u64 \<Rightarrow> u64 \<Rightarrow> 'x system \<Rightarrow> bool \<times> 'x system" where
  "s5l8900_resume_active_host_clock paused_at resumed_at s =
     (if mc_now (sy_machine s) = None then (True, s)
      else
        let c = sy_clock s;
            valid = (paused_at \<noteq> 0 \<and> resumed_at \<ge> paused_at \<and>
                     (\<not> ac_anchor_valid c \<or> paused_at \<ge> ac_last_host_ns c) \<and>
                     (\<not> ac_input_guard_host_valid c \<or> paused_at \<ge> ac_input_guard_host_ns c));
            s1 = (if \<not> valid then
                    on_clock (\<lambda>c. c\<lparr>ac_input_guard_host_ns := 0, ac_input_guard_host_valid := False\<rparr>)
                      (s\<lparr>sy_failures := active_clock_counter_add (sy_failures s) 1\<rparr>)
                  else if ac_input_guard_host_valid c then
                    let age = paused_at - ac_input_guard_host_ns c
                    in on_clock (\<lambda>c. c\<lparr>ac_input_guard_host_ns := resumed_at - age\<rparr>) s
                  else s)
        in (valid, on_clock active_clock_reset_anchor s1))"

section \<open>Synchronisation\<close>

definition active_clock_elapsed_ticks :: "u64 \<Rightarrow> u32 \<Rightarrow> u64 \<Rightarrow> (u64 \<times> u64) option" where
  "active_clock_elapsed_ticks elapsed_ns hz fraction =
     (let billion = 1000000000; seconds = elapsed_ns div billion; sub_ns = elapsed_ns mod billion
      in if hz = 0 \<or> fraction \<ge> billion \<or> seconds > 0xffffffffffffffff div ucast hz then None
         else
           let whole = seconds * ucast hz; scaled_sub = sub_ns * ucast hz + fraction;
               carry = scaled_sub div billion
           in if whole > 0xffffffffffffffff - carry then None
              else Some (whole + carry, scaled_sub mod billion))"

text \<open>The host's time, or \<open>None\<close> when there is no trustworthy sample.\<close>

definition host_sample :: "'x machine \<Rightarrow> u64 option \<times> 'x machine" where
  "host_sample m =
     (if mc_now m = None \<or> mc_cpu_hz m = 0 then (None, m)
      else
        let ((ok, now_ns), m1) = host_now m; c = mc_clock m
        in (if ok \<and> \<not> (ac_anchor_valid c \<and> now_ns < ac_last_host_ns c) \<and>
               \<not> (ac_input_guard_host_valid c \<and> now_ns < ac_input_guard_host_ns c)
            then Some now_ns else None, m1))"

text \<open>The ticks the guest already had since the last synchronisation, less those it had in advance.\<close>

definition observed_ticks :: "active_clock \<Rightarrow> u64" where
  "observed_ticks c =
     (if ac_guest_ticks_since_sync c \<ge> ac_idle_repaid_ticks c
      then ac_guest_ticks_since_sync c - ac_idle_repaid_ticks c else ac_guest_ticks_since_sync c)"

text \<open>One slice in ticks with its fraction; zeros when it cannot be converted.\<close>

definition slice_ticks :: "active_clock \<Rightarrow> u32 \<Rightarrow> (u64 \<times> u64) option" where
  "slice_ticks c hz = active_clock_elapsed_ticks MAX_STEP_NS hz (ac_fraction c)"

text \<open>What one sample is worth: the ticks to add, the fraction to carry, and whether time was cut.\<close>

definition residual :: "active_clock \<Rightarrow> u32 \<Rightarrow> u64 \<Rightarrow> u64 \<times> u64 \<times> bool" where
  "residual c hz now_ns =
     (let due = active_clock_elapsed_ticks (now_ns - ac_last_host_ns c) hz (ac_fraction c);
          (most, most_fraction) = (case slice_ticks c hz of None \<Rightarrow> (0, 0) | Some r \<Rightarrow> r)
      in case (due, slice_ticks c hz) of
           (Some (due_ticks, due_fraction), Some _) \<Rightarrow>
             (if due_ticks > observed_ticks c then
                let added = due_ticks - observed_ticks c
                in if added > most \<or> added = most \<and> due_fraction > most_fraction
                   then (most, most_fraction, True) else (added, due_fraction, False)
              else (0, due_fraction, False))
         | _ \<Rightarrow> (most, most_fraction, True))"

text \<open>The ticks the retired instructions allow, and those of a measured idle wait.\<close>

definition work_cap :: "active_clock \<Rightarrow> u32 \<Rightarrow> u32 \<Rightarrow> u32 \<Rightarrow> u64" where
  "work_cap c hz fallback_ticks budget =
     (let cap = ucast fallback_ticks * ucast budget
      in if ac_idle_oversleep_ns c = 0 then cap
         else case active_clock_elapsed_ticks (ac_idle_oversleep_ns c) hz 0 of
           None \<Rightarrow> cap | Some (idle, _) \<Rightarrow> cap + idle)"

text \<open>The whole effect on the clock: the ticks to add, whether time was cut, and the new clock.\<close>

definition sync_clock :: "active_clock \<Rightarrow> u32 \<Rightarrow> bool \<Rightarrow> u32 \<Rightarrow> u32 \<Rightarrow> u64 \<Rightarrow> u64 \<times> bool \<times> active_clock" where
  "sync_clock c hz pacing fallback_ticks budget now_ns =
     (let (added, fraction, clamp) = residual c hz now_ns;
          cap = work_cap c hz fallback_ticks budget;
          most = (case slice_ticks c hz of None \<Rightarrow> 0 | Some (t, _) \<Rightarrow> t);
          credit = (if clamp then 0 else ac_idle_credit_ticks c);
          room = (if most > credit then most - credit else 0);
          withheld = added - cap;
          credit1 = (if added > cap \<and> \<not> clamp \<and> pacing
                     then credit + (if withheld < room then withheld else room) else credit)
      in (if added > cap then cap else added, clamp \<or> added > cap,
          c\<lparr>ac_last_host_ns := now_ns, ac_idle_repaid_ticks := 0, ac_idle_oversleep_ns := 0,
            ac_idle_credit_ticks := credit1, ac_fraction := fraction\<rparr>))"

definition start_anchor :: "u64 \<Rightarrow> active_clock \<Rightarrow> active_clock" where
  "start_anchor now_ns c =
     c\<lparr>ac_last_host_ns := now_ns, ac_guest_ticks_since_sync := 0, ac_fraction := 0,
       ac_idle_oversleep_ns := 0, ac_idle_credit_ticks := 0, ac_idle_repaid_ticks := 0,
       ac_anchor_valid := True\<rparr>"

definition active_host_clock_sync :: "'x soc_clock \<Rightarrow> u32 \<Rightarrow> 'x system \<Rightarrow> bool \<times> 'x system" where
  "active_host_clock_sync K fallback_ticks s0 =
     (let (sample, m) = host_sample (sy_machine s0); s = s0\<lparr>sy_cpu := (sy_cpu s0)\<lparr>ctx := m\<rparr>\<rparr>
      in case sample of
        None \<Rightarrow>
          (False, system_tick K fallback_ticks
             (on_clock (\<lambda>c. active_clock_reset_anchor
                 (c\<lparr>ac_input_guard_host_ns := 0, ac_input_guard_host_valid := False\<rparr>))
               (s\<lparr>sy_failures := active_clock_counter_add (sy_failures s) 1\<rparr>)))
      | Some now_ns \<Rightarrow>
          let s1 = (if ac_input_guard (sy_clock s) \<and> \<not> ac_input_guard_host_valid (sy_clock s)
                    then on_clock (\<lambda>c. c\<lparr>ac_input_guard_host_ns := now_ns, ac_input_guard_host_valid := True\<rparr>) s
                    else s);
              c = sy_clock s1
          in if ac_input_guard c \<and> \<not> ac_deadline_shield c \<and>
                now_ns - ac_input_guard_host_ns c \<ge> INPUT_SHIELD_NS then
               (False, system_tick K fallback_ticks
                  (on_clock (\<lambda>c. active_clock_reset_anchor (c\<lparr>ac_deadline_shield := True\<rparr>))
                    (s1\<lparr>sy_deadline_shields := active_clock_counter_add (sy_deadline_shields s1) 1\<rparr>)))
             else if \<not> ac_anchor_valid c then (True, system_tick K 0 (on_clock (start_anchor now_ns) s1))
             else
               let (added, clamp, c1) = sync_clock c (mc_cpu_hz m) (mc_sleep m \<noteq> None) fallback_ticks
                     (sy_max_ticks_per_retirement s1) now_ns;
                   s2 = on_clock (\<lambda>_. c1)
                     (s1\<lparr>sy_clamps := (if clamp then active_clock_counter_add (sy_clamps s1) 1 else sy_clamps s1),
                         sy_updates := active_clock_counter_add (sy_updates s1) 1,
                         sy_added_ticks := active_clock_counter_add (sy_added_ticks s1) added\<rparr>)
               in (True, on_clock (\<lambda>c. c\<lparr>ac_guest_ticks_since_sync := 0\<rparr>)
                           (system_tick K (ucast added) s2)))"

section \<open>The conversion is exact\<close>

lemma unat_le_add: "unat (a + b) \<le> unat a + unat b" for a b :: "'a::len word"
  by (simp add: unat_word_ariths)

lemma word_of_unat: "unat a = x \<Longrightarrow> a = of_nat x" for a :: "'a::len word"
  by auto

lemma add_of_nat: "unat a = x \<Longrightarrow> unat b = y \<Longrightarrow> a + b = of_nat (x + y)" for a b :: "'a::len word"
  by auto

lemma product_fits:
  fixes a :: u64 and hz :: u32
  assumes "unat a < 4294967296"
  shows "unat (a * ucast hz) = unat a * unat hz" and "unat a * unat hz \<le> 4294967295 * 4294967295"
proof -
  show b: "unat a * unat hz \<le> 4294967295 * 4294967295"
    using assms unat_u32_less [of hz] by (intro mult_mono) simp_all
  then show "unat (a * ucast hz) = unat a * unat hz"
    by (simp add: unat_word_ariths)
qed

lemma unat_u64_less: "unat w < 2 ^ 64" for w :: u64
  using unsigned_less [of w] by simp

text \<open>The mathematical value: nanoseconds times rate plus the carried fraction, in billionths of a tick.\<close>

definition billionths :: "u64 \<Rightarrow> u32 \<Rightarrow> u64 \<Rightarrow> nat" where
  "billionths elapsed_ns hz fraction = unat elapsed_ns * unat hz + unat fraction"

lemma split_seconds:
  fixes e h f :: nat
  shows "(e * h + f) div 1000000000 = e div 1000000000 * h + (e mod 1000000000 * h + f) div 1000000000"
    and "(e * h + f) mod 1000000000 = (e mod 1000000000 * h + f) mod 1000000000"
proof -
  have "(e div 1000000000 * 1000000000 + e mod 1000000000) * h + f
      = (e mod 1000000000 * h + f) + 1000000000 * (e div 1000000000 * h)"
    by (simp only: distrib_right ac_simps) (simp only: distrib_left ac_simps)
  then have "e * h + f = (e mod 1000000000 * h + f) + 1000000000 * (e div 1000000000 * h)"
    by (simp only: div_mult_mod_eq)
  then show "(e * h + f) div 1000000000 = e div 1000000000 * h + (e mod 1000000000 * h + f) div 1000000000"
    and "(e * h + f) mod 1000000000 = (e mod 1000000000 * h + f) mod 1000000000"
    by (simp_all only: div_mult_self2 mod_mult_self2 add.commute)
qed

lemma elapsed_exact:
  "active_clock_elapsed_ticks e hz f =
     (if hz = 0 \<or> f \<ge> 1000000000 \<or> billionths e hz f div 1000000000 \<ge> 2 ^ 64 then None
      else Some (of_nat (billionths e hz f div 1000000000), of_nat (billionths e hz f mod 1000000000)))"
proof (cases "hz = 0 \<or> f \<ge> 1000000000")
  case True
  then show ?thesis by (auto simp: active_clock_elapsed_ticks_def Let_def)
next
  case False
  let ?B = "1000000000 :: nat"
  let ?S = "unat e div ?B" and ?H = "unat hz"
  let ?sub = "unat e mod ?B * ?H + unat f"
  have f: "unat f < ?B" and hz: "0 < ?H" using False by (auto simp: word_le_nat_alt unat_gt_0)
  note split = split_seconds [where e = "unat e" and h = "?H" and f = "unat f"]
  have sec: "unat (e div 1000000000) = ?S" and sub: "unat (e mod 1000000000) = unat e mod ?B"
    by (simp_all add: unat_div_distrib unat_mod_distrib)
  have subl: "unat (e mod 1000000000) < 4294967296"
    unfolding sub by (rule less_trans [of _ ?B]) simp_all
  note p = product_fits [OF subl, of hz]
  have scaled: "unat ((e mod 1000000000) * ucast hz + f) = ?sub"
    using p f by (simp add: sub unat_word_ariths)
  have big: "?S > (2 ^ 64 - 1) div ?H \<longleftrightarrow> ?S * ?H \<ge> 2 ^ 64"
    using hz div_less_iff_less_mult [of "?H" "2 ^ 64 - 1" ?S] by (auto simp: less_eq_Suc_le)
  have gt: "e div 1000000000 > 0xffffffffffffffff div ucast hz \<longleftrightarrow> ?S * ?H \<ge> 2 ^ 64"
    using big by (simp add: word_less_nat_alt sec unat_div_distrib)
  show ?thesis
  proof (cases "?S * ?H \<ge> 2 ^ 64")
    case True
    then have "billionths e hz f div ?B \<ge> 2 ^ 64" by (simp add: billionths_def split(1))
    then show ?thesis using True gt by (simp add: active_clock_elapsed_ticks_def Let_def)
  next
    case small: False
    have whole: "unat (e div 1000000000 * ucast hz) = ?S * ?H"
    proof -
      have "unat (e div 1000000000 * ucast hz) = (?S * ?H) mod 2 ^ 64"
        unfolding sec [symmetric] by (simp add: unat_word_ariths)
      then show ?thesis using small by simp
    qed
    have carry: "unat (((e mod 1000000000) * ucast hz + f) div 1000000000) = ?sub div ?B"
      by (simp add: unat_div_distrib scaled)
    have cl: "?sub div ?B < 2 ^ 64"
      using carry unat_u64_less by metis
    have no: "e div 1000000000 * ucast hz > 0xffffffffffffffff - ((e mod 1000000000) * ucast hz + f) div 1000000000
        \<longleftrightarrow> billionths e hz f div ?B \<ge> 2 ^ 64"
    proof -
      have "unat (0xffffffffffffffff - ((e mod 1000000000) * ucast hz + f) div 1000000000)
          = 2 ^ 64 - 1 - ?sub div ?B"
        by (subst unat_sub) (use cl in \<open>auto simp: carry word_le_nat_alt\<close>)
      moreover have "2 ^ 64 - 1 - x < y \<longleftrightarrow> 2 ^ 64 \<le> y + x" if "x < 2 ^ 64" for x y :: nat
        using that by auto
      ultimately show ?thesis by (simp only: word_less_nat_alt whole billionths_def split(1) cl)
    qed
    have r: "e div 1000000000 * ucast hz + ((e mod 1000000000) * ucast hz + f) div 1000000000
        = of_nat (billionths e hz f div ?B)"
      unfolding billionths_def split(1) by (rule add_of_nat [OF whole carry])
    have m: "((e mod 1000000000) * ucast hz + f) mod 1000000000 = of_nat (billionths e hz f mod ?B)"
    proof -
      have "unat (((e mod 1000000000) * ucast hz + f) mod 1000000000) = billionths e hz f mod ?B"
        by (simp add: unat_mod_distrib scaled billionths_def split(2))
      then show ?thesis by (rule word_of_unat)
    qed
    show ?thesis
      using False gt small no by (simp add: active_clock_elapsed_ticks_def Let_def r m)
  qed
qed

section \<open>One synchronisation\<close>

definition clock_ready :: "active_clock \<Rightarrow> u32 \<Rightarrow> bool" where
  "clock_ready c hz \<longleftrightarrow> hz \<noteq> 0 \<and> ac_fraction c < 1000000000"

text \<open>One slice in billionths of a tick, and the host time since the last synchronisation.\<close>

definition slice_billionths :: "active_clock \<Rightarrow> u32 \<Rightarrow> nat" where
  "slice_billionths c hz = billionths MAX_STEP_NS hz (ac_fraction c)"

definition due_billionths :: "active_clock \<Rightarrow> u32 \<Rightarrow> u64 \<Rightarrow> nat" where
  "due_billionths c hz now_ns = billionths (now_ns - ac_last_host_ns c) hz (ac_fraction c)"

lemma slice_small: "ac_fraction c < 1000000000 \<Longrightarrow> slice_billionths c hz div 1000000000 < 2 ^ 32"
proof -
  assume "ac_fraction c < 1000000000"
  then have "slice_billionths c hz < 8000000 * 4294967296 + 1000000000"
    using unat_u32_less [of hz] by (simp add: slice_billionths_def billionths_def word_less_nat_alt)
  then show ?thesis by (simp add: less_mult_imp_div_less)
qed

lemma slice_exact:
  assumes "clock_ready c hz"
  shows "slice_ticks c hz = Some (of_nat (slice_billionths c hz div 1000000000),
     of_nat (slice_billionths c hz mod 1000000000))"
proof -
  have "slice_billionths c hz div 1000000000 < 2 ^ 32"
    using assms slice_small by (simp add: clock_ready_def)
  then have "\<not> 2 ^ 64 \<le> billionths MAX_STEP_NS hz (ac_fraction c) div 1000000000"
    unfolding slice_billionths_def by simp
  then show ?thesis
    using assms unfolding slice_ticks_def elapsed_exact slice_billionths_def clock_ready_def by auto
qed

lemma unat_of_small: "n < 2 ^ 64 \<Longrightarrow> unat (of_nat n :: u64) = n"
  by (simp add: unat_of_nat)

lemma below_billion: "n mod 1000000000 < (2 :: nat) ^ 64"
  by (rule less_trans [of _ 1000000000]) simp_all

lemma residual_spec:
  assumes ready: "clock_ready c hz" and r: "residual c hz now_ns = (added, fraction, clamp)"
  shows "unat added \<le> slice_billionths c hz div 1000000000" and "unat fraction < 1000000000"
    and "due_billionths c hz now_ns div 1000000000 < 2 ^ 64 \<Longrightarrow> added \<noteq> 0 \<Longrightarrow>
      unat added + unat (observed_ticks c) \<le> due_billionths c hz now_ns div 1000000000"
    and "\<not> clamp \<Longrightarrow> unat (observed_ticks c) \<le> due_billionths c hz now_ns div 1000000000 \<Longrightarrow>
      (unat added + unat (observed_ticks c)) * 1000000000 + unat fraction = due_billionths c hz now_ns"
proof -
  let ?D = "due_billionths c hz now_ns" and ?P = "slice_billionths c hz" and ?B = "1000000000 :: nat"
  let ?o = "observed_ticks c"
  note sl = slice_exact [OF ready]
  have Ps: "?P div ?B < 2 ^ 64"
    using slice_small [of c hz] ready by (simp add: clock_ready_def)
  have P: "unat (of_nat (?P div ?B) :: u64) = ?P div ?B" "unat (of_nat (?P mod ?B) :: u64) = ?P mod ?B"
    using Ps below_billion by (simp_all only: unat_of_small)
  have Pm: "?P mod ?B < ?B" "?D mod ?B < ?B" by simp_all
  have hz: "hz \<noteq> 0" "\<not> ac_fraction c \<ge> 1000000000" using ready by (auto simp: clock_ready_def)
  have "unat added \<le> ?P div ?B \<and> unat fraction < ?B \<and>
        (?D div ?B < 2 ^ 64 \<longrightarrow> added \<noteq> 0 \<longrightarrow> unat added + unat ?o \<le> ?D div ?B) \<and>
        (\<not> clamp \<longrightarrow> unat ?o \<le> ?D div ?B \<longrightarrow> (unat added + unat ?o) * ?B + unat fraction = ?D)"
  proof (cases "?D div ?B \<ge> 2 ^ 64")
    case True
    then have "residual c hz now_ns = (of_nat (?P div ?B), of_nat (?P mod ?B), True)"
      using hz by (simp add: residual_def Let_def sl elapsed_exact due_billionths_def [symmetric])
    then show "unat added \<le> ?P div ?B \<and> unat fraction < ?B \<and>
        (?D div ?B < 2 ^ 64 \<longrightarrow> added \<noteq> 0 \<longrightarrow> unat added + unat ?o \<le> ?D div ?B) \<and>
        (\<not> clamp \<longrightarrow> unat ?o \<le> ?D div ?B \<longrightarrow> (unat added + unat ?o) * ?B + unat fraction = ?D)"
      using r P Pm True by auto
  next
    case False
    then have small: "?D div ?B < 2 ^ 64" by simp
    have D: "unat (of_nat (?D div ?B) :: u64) = ?D div ?B" "unat (of_nat (?D mod ?B) :: u64) = ?D mod ?B"
      using small below_billion by (simp_all only: unat_of_small)
    let ?d = "of_nat (?D div ?B) :: u64" and ?p = "of_nat (?P div ?B) :: u64"
    have e: "residual c hz now_ns =
        (if ?d > ?o then
           (if ?d - ?o > ?p \<or> ?d - ?o = ?p \<and> (of_nat (?D mod ?B) :: u64) > of_nat (?P mod ?B)
            then (?p, of_nat (?P mod ?B), True) else (?d - ?o, of_nat (?D mod ?B), False))
         else (0, of_nat (?D mod ?B), False))"
      using hz False
      by (simp add: residual_def Let_def sl elapsed_exact due_billionths_def [symmetric])
    have dm: "?D = ?D div ?B * ?B + ?D mod ?B" by simp
    show "unat added \<le> ?P div ?B \<and> unat fraction < ?B \<and>
        (?D div ?B < 2 ^ 64 \<longrightarrow> added \<noteq> 0 \<longrightarrow> unat added + unat ?o \<le> ?D div ?B) \<and>
        (\<not> clamp \<longrightarrow> unat ?o \<le> ?D div ?B \<longrightarrow> (unat added + unat ?o) * ?B + unat fraction = ?D)"
    proof (cases "?d > ?o")
      case gt: True
      have le: "unat ?o < ?D div ?B" using gt D by (simp add: word_less_nat_alt)
      have sub: "unat (?d - ?o) = ?D div ?B - unat ?o"
        using gt D by (subst unat_sub) (simp_all only: order_less_imp_le)
      show ?thesis
      proof (cases "?d - ?o > ?p \<or> ?d - ?o = ?p \<and> (of_nat (?D mod ?B) :: u64) > of_nat (?P mod ?B)")
        case cut: True
        then have "?p \<le> ?d - ?o" by auto
        then have "?P div ?B \<le> ?D div ?B - unat ?o" using P(1) sub by (simp only: word_le_nat_alt)
        moreover have "added = ?p" "fraction = of_nat (?P mod ?B)" "clamp"
          using r e gt cut by simp_all
        moreover have "?P div ?B + unat ?o \<le> ?D div ?B" using calculation(1) le by linarith
        ultimately show ?thesis using P Pm le by simp
      next
        case keep: False
        then have "?d - ?o \<le> ?p" by auto
        then have "?D div ?B - unat ?o \<le> ?P div ?B" using P(1) sub by (simp only: word_le_nat_alt)
        moreover have "added = ?d - ?o" "fraction = of_nat (?D mod ?B)" "\<not> clamp"
          using r e gt keep by simp_all
        ultimately show ?thesis using D Pm le sub dm by simp
      qed
    next
      case no: False
      then have "?D div ?B \<le> unat ?o" unfolding not_less word_le_nat_alt D(1) .
      moreover have "added = 0" "fraction = of_nat (?D mod ?B)" "\<not> clamp"
        using r e no by simp_all
      ultimately show ?thesis using D Pm dm by simp
    qed
  qed
  then show "unat added \<le> ?P div ?B" and "unat fraction < ?B"
    and "?D div ?B < 2 ^ 64 \<Longrightarrow> added \<noteq> 0 \<Longrightarrow> unat added + unat ?o \<le> ?D div ?B"
    and "\<not> clamp \<Longrightarrow> unat ?o \<le> ?D div ?B \<Longrightarrow> (unat added + unat ?o) * ?B + unat fraction = ?D"
    by blast+
qed

lemma work_cap_bound:
  assumes "hz \<noteq> 0"
  shows "unat (work_cap c hz fallback_ticks budget) \<le>
    unat fallback_ticks * unat budget + billionths (ac_idle_oversleep_ns c) hz 0 div 1000000000"
proof -
  let ?w = "ucast fallback_ticks * ucast budget :: u64"
  let ?i = "billionths (ac_idle_oversleep_ns c) hz 0 div 1000000000"
  have w: "unat ?w = unat fallback_ticks * unat budget"
    using product_fits(1) [of "ucast fallback_ticks :: u64" budget] unat_u32_less [of fallback_ticks] by simp
  show ?thesis
  proof (cases "ac_idle_oversleep_ns c = 0 \<or> ?i \<ge> 2 ^ 64")
    case True
    then show ?thesis by (auto simp: work_cap_def Let_def elapsed_exact assms w)
  next
    case False
    then have "work_cap c hz fallback_ticks budget = ?w + of_nat ?i"
      by (simp add: work_cap_def Let_def elapsed_exact assms)
    moreover have "unat (of_nat ?i :: u64) = ?i" using False by (simp add: unat_of_small)
    ultimately show ?thesis using unat_le_add [of ?w "of_nat ?i"] w by simp
  qed
qed

text \<open>The bounds of one synchronisation, for the clock alone.\<close>

lemma sync_clock_spec:
  assumes ready: "clock_ready c hz"
    and e: "sync_clock c hz pacing fallback_ticks budget now_ns = (n, cut_off, c1)"
  shows "unat n \<le> unat fallback_ticks * unat budget + billionths (ac_idle_oversleep_ns c) hz 0 div 1000000000"
    and "unat n \<le> slice_billionths c hz div 1000000000" and "ac_fraction c1 < 1000000000"
    and "due_billionths c hz now_ns div 1000000000 < 2 ^ 64 \<Longrightarrow> n \<noteq> 0 \<Longrightarrow>
      unat n + unat (observed_ticks c) \<le> due_billionths c hz now_ns div 1000000000"
    and "\<not> cut_off \<Longrightarrow> unat (observed_ticks c) \<le> due_billionths c hz now_ns div 1000000000 \<Longrightarrow>
      (unat n + unat (observed_ticks c)) * 1000000000 + unat (ac_fraction c1) = due_billionths c hz now_ns"
    and "unat (ac_idle_credit_ticks c1) \<le>
      max (unat (ac_idle_credit_ticks c)) (slice_billionths c hz div 1000000000)"
proof -
  obtain added fraction clamp where r: "residual c hz now_ns = (added, fraction, clamp)"
    by (metis prod_cases3)
  note spec = residual_spec [OF ready r]
  let ?cap = "work_cap c hz fallback_ticks budget"
  have n: "n = (if added > ?cap then ?cap else added)" "cut_off \<longleftrightarrow> clamp \<or> added > ?cap"
    "ac_fraction c1 = fraction"
    using e by (auto simp: sync_clock_def Let_def r)
  have le: "n \<le> added" "n \<le> ?cap" using n(1) by (auto split: if_splits)
  have hz: "hz \<noteq> 0" using ready by (simp add: clock_ready_def)
  show "unat n \<le> unat fallback_ticks * unat budget + billionths (ac_idle_oversleep_ns c) hz 0 div 1000000000"
    using le(2) work_cap_bound [OF hz, of c fallback_ticks budget] by (simp add: word_le_nat_alt)
  show "unat n \<le> slice_billionths c hz div 1000000000"
    using le(1) spec(1) by (simp add: word_le_nat_alt)
  show "ac_fraction c1 < 1000000000" using spec(2) n(3) by (simp add: word_less_nat_alt)
  show "unat n + unat (observed_ticks c) \<le> due_billionths c hz now_ns div 1000000000"
    if "due_billionths c hz now_ns div 1000000000 < 2 ^ 64" "n \<noteq> 0"
  proof -
    have "added \<noteq> 0" using le(1) that(2) by auto
    then show ?thesis using spec(3) [OF that(1)] le(1) by (simp add: word_le_nat_alt)
  qed
  show "(unat n + unat (observed_ticks c)) * 1000000000 + unat (ac_fraction c1) = due_billionths c hz now_ns"
    if "\<not> cut_off" "unat (observed_ticks c) \<le> due_billionths c hz now_ns div 1000000000"
    using spec(4) [OF _ that(2)] that(1) n by simp
  let ?p = "of_nat (slice_billionths c hz div 1000000000) :: u64"
  have "slice_billionths c hz div 1000000000 < 2 ^ 64"
    using slice_small [of c hz] ready by (simp add: clock_ready_def)
  then have p: "unat ?p = slice_billionths c hz div 1000000000" by (rule unat_of_small)
  have "ac_idle_credit_ticks c1 \<le> ac_idle_credit_ticks c \<or> ac_idle_credit_ticks c1 \<le> ?p"
  proof (cases "added > ?cap \<and> \<not> clamp \<and> pacing \<and> ?p > ac_idle_credit_ticks c")
    case True
    have "a + (if w < p - a then w else p - a) \<le> p" if "a < p" for a w p :: u64
      using that by (auto simp: word_le_nat_alt word_less_nat_alt unat_sub unat_word_ariths)
    moreover have "ac_idle_credit_ticks c1 = ac_idle_credit_ticks c +
        (if added - ?cap < ?p - ac_idle_credit_ticks c then added - ?cap else ?p - ac_idle_credit_ticks c)"
      using e True by (auto simp: sync_clock_def Let_def r slice_exact [OF ready])
    ultimately show ?thesis using True by presburger
  next
    case False
    then show ?thesis
      using e by (auto simp: sync_clock_def Let_def r slice_exact [OF ready] split: if_splits)
  qed
  then show "unat (ac_idle_credit_ticks c1) \<le>
      max (unat (ac_idle_credit_ticks c)) (slice_billionths c hz div 1000000000)"
    unfolding word_le_nat_alt p by linarith
qed

lemma host_sample_clock: "host_sample m = (sample, m1) \<Longrightarrow>
    mc_clock m1 = mc_clock m \<and> mc_cpu_hz m1 = mc_cpu_hz m \<and> mc_sleep m1 = mc_sleep m \<and> same_guest m m1"
  by (auto simp: host_sample_def host_now_def Let_def split_beta same_guest_def split: if_splits option.splits)

lemma sample_rate: "host_sample m = (Some now_ns, m1) \<Longrightarrow> mc_cpu_hz m \<noteq> 0"
  by (auto simp: host_sample_def split: if_splits)

text \<open>The sample shows that an input guard has outlived its shield.\<close>

definition shield_due :: "active_clock \<Rightarrow> u64 \<Rightarrow> bool" where
  "shield_due c now_ns \<longleftrightarrow> ac_input_guard c \<and> ac_input_guard_host_valid c \<and> \<not> ac_deadline_shield c \<and>
     now_ns - ac_input_guard_host_ns c \<ge> INPUT_SHIELD_NS"

definition guard_started :: "active_clock \<Rightarrow> u64 \<Rightarrow> active_clock" where
  "guard_started c now_ns =
     (if ac_input_guard c \<and> \<not> ac_input_guard_host_valid c
      then c\<lparr>ac_input_guard_host_ns := now_ns, ac_input_guard_host_valid := True\<rparr> else c)"

lemma guard_started_fields [simp]:
  "ac_anchor_valid (guard_started c now_ns) = ac_anchor_valid c" "ac_fraction (guard_started c now_ns) = ac_fraction c"
  "ac_idle_oversleep_ns (guard_started c now_ns) = ac_idle_oversleep_ns c"
  "ac_idle_credit_ticks (guard_started c now_ns) = ac_idle_credit_ticks c"
  "slice_billionths (guard_started c now_ns) hz = slice_billionths c hz"
  "due_billionths (guard_started c now_ns) hz now_ns = due_billionths c hz now_ns"
  "observed_ticks (guard_started c now_ns) = observed_ticks c"
  by (simp_all add: guard_started_def slice_billionths_def due_billionths_def observed_ticks_def)

lemma sync_sampled:
  fixes s :: "'x system"
  assumes "host_sample (sy_machine s) = (Some now_ns, m)"
  defines "c \<equiv> guard_started (sy_clock s) now_ns" and "s1 \<equiv> on_clock (\<lambda>_. guard_started (sy_clock s) now_ns) (s\<lparr>sy_cpu := (sy_cpu s)\<lparr>ctx := m\<rparr>\<rparr>)"
  shows "active_host_clock_sync K fallback_ticks s =
    (if shield_due (sy_clock s) now_ns then
       (False, system_tick K fallback_ticks
          (on_clock (\<lambda>c. active_clock_reset_anchor (c\<lparr>ac_deadline_shield := True\<rparr>))
            (s1\<lparr>sy_deadline_shields := active_clock_counter_add (sy_deadline_shields s) 1\<rparr>)))
     else if \<not> ac_anchor_valid (sy_clock s) then (True, system_tick K 0 (on_clock (start_anchor now_ns) s1))
     else
       let (added, clamp, c1) = sync_clock c (mc_cpu_hz m) (mc_sleep m \<noteq> None) fallback_ticks
             (sy_max_ticks_per_retirement s) now_ns
       in (True, on_clock (\<lambda>c. c\<lparr>ac_guest_ticks_since_sync := 0\<rparr>)
             (system_tick K (ucast added) (on_clock (\<lambda>_. c1)
               (s1\<lparr>sy_clamps := (if clamp then active_clock_counter_add (sy_clamps s) 1 else sy_clamps s),
                   sy_updates := active_clock_counter_add (sy_updates s) 1,
                   sy_added_ticks := active_clock_counter_add (sy_added_ticks s) added\<rparr>)))))"
proof -
  let ?s = "s\<lparr>sy_cpu := (sy_cpu s)\<lparr>ctx := m\<rparr>\<rparr>"
  have m: "mc_clock m = sy_clock s" using host_sample_clock [OF assms(1)] by simp
  then have same: "on_clock (\<lambda>_. sy_clock s) ?s = ?s" by (simp add: on_clock_def)
  have s1: "(if ac_input_guard (sy_clock ?s) \<and> \<not> ac_input_guard_host_valid (sy_clock ?s)
      then on_clock (\<lambda>c. c\<lparr>ac_input_guard_host_ns := now_ns, ac_input_guard_host_valid := True\<rparr>) ?s else ?s) = s1"
    using m same by (simp add: s1_def guard_started_def on_clock_def)
  have c: "sy_clock s1 = c" by (simp add: s1_def c_def)
  have due: "ac_input_guard c \<and> \<not> ac_deadline_shield c \<and> now_ns - ac_input_guard_host_ns c \<ge> INPUT_SHIELD_NS \<longleftrightarrow>
      shield_due (sy_clock s) now_ns"
    by (auto simp: c_def guard_started_def shield_due_def)
  have f: "sy_max_ticks_per_retirement s1 = sy_max_ticks_per_retirement s" "sy_clamps s1 = sy_clamps s"
    "sy_updates s1 = sy_updates s" "sy_added_ticks s1 = sy_added_ticks s" "sy_deadline_shields s1 = sy_deadline_shields s"
    by (simp_all add: s1_def on_clock_def)
  have a: "ac_anchor_valid c = ac_anchor_valid (sy_clock s)" by (simp add: c_def)
  show ?thesis
    unfolding active_host_clock_sync_def assms(1) Let_def prod.case option.case s1 c due f a ..
qed

text \<open>
  C40: Every synchronisation with the host clock, whatever the state of the clock. With an anchored clock
  it advances the devices by one tick whose length obeys every limit: the work the retired instructions
  pay for plus the measured idle time, one slice of 8 ms, and (with what the guest already had) the host
  time that passed. When nothing is cut and the guest had no more than the host time that passed, that
  time is converted exactly, down to the fraction that is carried to the next synchronisation; what the
  guest had in excess is not paid back, the tick is then empty. The time kept back for a later idle
  interval is never more than a slice. A touch or a button only starts a guard, until it is older than
  15 s: then, and when the host has no usable time, the clock is given up and the devices are ticked by
  the retired instructions. The first synchronisation only starts the anchor.
\<close>

theorem active_clock_bounded:
  assumes "host_sample (sy_machine s) = (sample, m)"
    and "c = sy_clock s" and "hz = mc_cpu_hz (sy_machine s)" and "ac_fraction c < 1000000000"
  shows "\<exists>s1. same_guest (sy_machine s) (sy_machine s1) \<and>
    (case sample of
       None \<Rightarrow> active_host_clock_sync K fallback_ticks s = (False, system_tick K fallback_ticks s1) \<and>
         \<not> ac_anchor_valid (sy_clock s1)
     | Some now_ns \<Rightarrow>
         if shield_due c now_ns then
           active_host_clock_sync K fallback_ticks s = (False, system_tick K fallback_ticks s1) \<and>
           ac_deadline_shield (sy_clock s1) \<and> \<not> ac_anchor_valid (sy_clock s1)
         else if \<not> ac_anchor_valid c then
           active_host_clock_sync K fallback_ticks s = (True, system_tick K 0 s1) \<and>
           ac_anchor_valid (sy_clock s1) \<and> ac_last_host_ns (sy_clock s1) = now_ns \<and> ac_fraction (sy_clock s1) = 0
         else \<exists>n cut_off.
           active_host_clock_sync K fallback_ticks s =
             (True, on_clock (\<lambda>c. c\<lparr>ac_guest_ticks_since_sync := 0\<rparr>) (system_tick K n s1)) \<and>
           ac_last_host_ns (sy_clock s1) = now_ns \<and>
           sy_clamps s1 = (if cut_off then active_clock_counter_add (sy_clamps s) 1 else sy_clamps s) \<and>
           unat n \<le> unat fallback_ticks * unat (sy_max_ticks_per_retirement s) +
             billionths (ac_idle_oversleep_ns c) hz 0 div 1000000000 \<and>
           unat n \<le> slice_billionths c hz div 1000000000 \<and>
           (due_billionths c hz now_ns div 1000000000 < 2 ^ 64 \<longrightarrow> n \<noteq> 0 \<longrightarrow>
             unat n + unat (observed_ticks c) \<le> due_billionths c hz now_ns div 1000000000) \<and>
           (\<not> cut_off \<longrightarrow> unat (observed_ticks c) \<le> due_billionths c hz now_ns div 1000000000 \<longrightarrow>
             (unat n + unat (observed_ticks c)) * 1000000000 + unat (ac_fraction (sy_clock s1)) =
               due_billionths c hz now_ns) \<and>
           unat (ac_idle_credit_ticks (sy_clock s1)) \<le>
             max (unat (ac_idle_credit_ticks c)) (slice_billionths c hz div 1000000000))"
proof (cases sample)
  case None
  let ?s1 = "on_clock (\<lambda>c. active_clock_reset_anchor (c\<lparr>ac_input_guard_host_ns := 0, ac_input_guard_host_valid := False\<rparr>))
      (s\<lparr>sy_cpu := (sy_cpu s)\<lparr>ctx := m\<rparr>, sy_failures := active_clock_counter_add (sy_failures s) 1\<rparr>)"
  have "active_host_clock_sync K fallback_ticks s = (False, system_tick K fallback_ticks ?s1)"
    using assms(1) None by (simp add: active_host_clock_sync_def)
  moreover have "same_guest (sy_machine s) (sy_machine ?s1)" "\<not> ac_anchor_valid (sy_clock ?s1)"
    using host_sample_clock [OF assms(1)] by (simp_all add: on_clock_def same_guest_def active_clock_reset_anchor_def)
  ultimately show ?thesis using None by (intro exI [of _ ?s1]) simp
next
  case (Some now_ns)
  note sample = assms(1) [unfolded Some]
  note sync = sync_sampled [OF sample, folded assms(2)]
  note m = host_sample_clock [OF sample]
  let ?c = "guard_started c now_ns"
  let ?s = "on_clock (\<lambda>_. ?c) (s\<lparr>sy_cpu := (sy_cpu s)\<lparr>ctx := m\<rparr>\<rparr>)"
  have guest: "same_guest (sy_machine s) (sy_machine (on_clock f (g ?s)))" if "\<And>t. sy_cpu (g t) = sy_cpu t"
    for f and g :: "'a system \<Rightarrow> 'a system"
    using m that by (simp add: on_clock_def same_guest_def)
  consider (shield) "shield_due c now_ns" | (start) "\<not> shield_due c now_ns" "\<not> ac_anchor_valid c"
    | (run) "\<not> shield_due c now_ns" "ac_anchor_valid c" by blast
  then show ?thesis
  proof cases
    case shield
    then show ?thesis using Some sync
      by (intro exI [of _ "on_clock (\<lambda>c. active_clock_reset_anchor (c\<lparr>ac_deadline_shield := True\<rparr>))
          (?s\<lparr>sy_deadline_shields := active_clock_counter_add (sy_deadline_shields s) 1\<rparr>)"])
        (simp add: guest [where g = "\<lambda>t. t\<lparr>sy_deadline_shields := n\<rparr>" for n] active_clock_reset_anchor_def)
  next
    case start
    then show ?thesis using Some sync guest [where g = "\<lambda>t. t"]
      by (intro exI [of _ "on_clock (start_anchor now_ns) ?s"]) (simp add: start_anchor_def)
  next
    case run
    obtain n cut_off c1 where e: "sync_clock ?c hz (mc_sleep m \<noteq> None) fallback_ticks
        (sy_max_ticks_per_retirement s) now_ns = (n, cut_off, c1)"
      by (metis prod_cases3)
    have "clock_ready ?c hz" using assms(4) sample_rate [OF sample] by (simp add: clock_ready_def assms(3))
    note spec = sync_clock_spec [OF this e, simplified]
    let ?s1 = "on_clock (\<lambda>_. c1) (?s\<lparr>sy_clamps := (if cut_off then active_clock_counter_add (sy_clamps s) 1 else sy_clamps s),
        sy_updates := active_clock_counter_add (sy_updates s) 1,
        sy_added_ticks := active_clock_counter_add (sy_added_ticks s) n\<rparr>)"
    have go: "active_host_clock_sync K fallback_ticks s =
        (True, on_clock (\<lambda>c. c\<lparr>ac_guest_ticks_since_sync := 0\<rparr>) (system_tick K (ucast n) ?s1))"
      using sync run e m assms(3) by simp
    have fits: "unat (ucast n :: u32) = unat n"
      using spec(2) slice_small [OF assms(4), of hz] by (simp add: unsigned_ucast_eq take_bit_nat_eq_self)
    have zero: "ucast n \<noteq> (0 :: u32) \<Longrightarrow> n \<noteq> 0" by auto
    have last: "ac_last_host_ns c1 = now_ns" using e by (auto simp: sync_clock_def Let_def split: prod.splits)
    have "same_guest (sy_machine s) (sy_machine ?s1)"
      by (rule guest [where g = "\<lambda>t. t\<lparr>sy_clamps := a, sy_updates := b, sy_added_ticks := d\<rparr>" for a b d]) simp
    then show ?thesis
      using Some run go last spec fits zero by (intro exI [of _ ?s1]) (auto intro!: exI [of _ "ucast n"] exI [of _ cut_off])
  qed
qed

text \<open>
  A microsecond after the last synchronisation, with a hundred instructions retired at 412 MHz.
\<close>

definition demo_system :: "unit s5l8900 \<Rightarrow> unit system" where
  "demo_system s =
     (let m = demo_machine 0 s;
          c = (mc_clock m)\<lparr>ac_last_host_ns := 5000, ac_anchor_valid := True\<rparr>
      in \<lparr>sy_cpu = reset_cpu (m\<lparr>mc_now := Some (\<lambda>x. ((True, 6000), x)), mc_clock := c\<rparr>),
          sy_write_grant = GRANT_NONE, sy_updates = 0, sy_added_ticks = 0, sy_clamps = 0, sy_failures = 0,
          sy_deadline_shields = 0, sy_max_ticks_per_retirement = 16, sy_power_wait_fraction = 0,
          sy_pre_step_hook = None, sy_pre_step_target = [], sy_pre_step_filter = 0,
          sy_pre_step_matches = 0, sy_pre_step_handled = 0, sy_tick_batches = 0,
          sy_tick_batched_retired = 0, sy_uart4_service = None, sy_restart_service = None\<rparr>)"

lemma reset_ctx [simp]: "ctx (reset_cpu m) = m"
  by (simp add: reset_cpu_def arm_reset_def uninit_cpu_def arm_mmu_tlb_flush_def Let_def)

theorem active_clock_bounded_witness:
  "\<forall>s. \<exists>n s1. active_host_clock_sync demo_clock 100 (demo_system s) =
      (True, on_clock (\<lambda>c. c\<lparr>ac_guest_ticks_since_sync := 0\<rparr>) (system_tick demo_clock n s1)) \<and>
    unat n \<le> 412 \<and> same_guest (sy_machine (demo_system s)) (sy_machine s1)"
proof
  fix s
  let ?c = "sy_clock (demo_system s)"
  have c: "ac_anchor_valid ?c" "\<not> ac_input_guard ?c" "ac_fraction ?c < 1000000000"
    "mc_cpu_hz (sy_machine (demo_system s)) = 412000000" "observed_ticks ?c = 0"
    "ac_last_host_ns ?c = 5000" "ac_fraction ?c = 0" "\<not> shield_due ?c 6000"
    by (simp_all add: demo_system_def demo_machine_def reset_ctx observed_ticks_def shield_due_def Let_def)
  have "fst (host_sample (sy_machine (demo_system s))) = Some 6000"
    by (simp add: demo_system_def demo_machine_def reset_ctx host_sample_def host_now_def Let_def)
  then obtain m where m: "host_sample (sy_machine (demo_system s)) = (Some 6000, m)" by (metis prod.collapse)
  have "due_billionths ?c 412000000 6000 = 412000000000"
    by (simp add: due_billionths_def billionths_def c)
  then have due: "due_billionths ?c 412000000 6000 div 1000000000 = 412" by simp
  obtain n s1 where n: "active_host_clock_sync demo_clock 100 (demo_system s) =
      (True, on_clock (\<lambda>c. c\<lparr>ac_guest_ticks_since_sync := 0\<rparr>) (system_tick demo_clock n s1))"
    "same_guest (sy_machine (demo_system s)) (sy_machine s1)" "n \<noteq> 0 \<Longrightarrow> unat n \<le> 412"
    using active_clock_bounded [OF m refl refl c(3), of demo_clock 100, unfolded option.case] c(1,8)
    unfolding c(4,5) due by auto
  then have "unat n \<le> 412" by (cases "n = 0") simp_all
  then show "\<exists>n s1. active_host_clock_sync demo_clock 100 (demo_system s) =
      (True, on_clock (\<lambda>c. c\<lparr>ac_guest_ticks_since_sync := 0\<rparr>) (system_tick demo_clock n s1)) \<and>
    unat n \<le> 412 \<and> same_guest (sy_machine (demo_system s)) (sy_machine s1)"
    using n by blast
qed

end
