(* ===== verification/Machine_Run.thy ===== *)
theory Machine_Run
  imports Machine_Clock Step_Inv
begin

text \<open>
  The run loop of the machine (core/src/soc/machine.c): the bus the processor sees, the filter of the
  pre-step hook, the batches of instructions between device ticks, the powered-down wait, and
  \<open>s5l8900_run\<close> itself, as built without the static engine (\<open>S5LBOX_STATIC_A64_ENGINE\<close>).
\<close>

unbundle bit_operations_syntax

section \<open>The processor's bus\<close>

text \<open>
  What the run loop uses of the units without a theory: the VFP unit, the host's privileged-SVC
  handler, the power states of the PMU with its clock rate, the busy I2C controllers.
  \<open>re_bus_plain\<close> says that the callbacks of the bus are still those the machine installed.
\<close>

record 'x run_env =
  re_clock :: "'x soc_clock"
  re_vfp :: "'x machine vfp_unit"
  re_svc :: "('x machine arm_cpu \<Rightarrow> u32 \<Rightarrow> u32 \<Rightarrow> arm_svc_result \<times> 'x machine arm_cpu) option"
  re_hibernation :: "'x \<Rightarrow> bool"
  re_standby :: "'x \<Rightarrow> bool"
  re_pmu_hz :: "'x \<Rightarrow> u32"
  re_i2c_active :: "nat \<Rightarrow> 'x \<Rightarrow> bool"
  re_bus_plain :: bool

definition on_soc :: "('x s5l8900 \<Rightarrow> 'a \<times> 'x s5l8900) \<Rightarrow> 'x machine \<Rightarrow> 'a \<times> 'x machine" where
  "on_soc f m = (let (v, d) = f (mc_soc m) in (v, m\<lparr>mc_soc := d\<rparr>))"

text \<open>The callbacks \<open>s5l8900_init\<close> installs; \<open>machine_wait_for_interrupt\<close> is one of them.\<close>

definition system_bus :: "'x run_env \<Rightarrow> write_grant \<Rightarrow> 'x machine arm_bus" where
  "system_bus E grant =
     (let K = re_clock E; b = machine_bus (k_rest K) (k_ptrs K)
      in \<lparr>read32 = (\<lambda>m a. on_soc (\<lambda>d. read32 b d a) m), read16 = (\<lambda>m a. on_soc (\<lambda>d. read16 b d a) m),
          read8 = (\<lambda>m a. on_soc (\<lambda>d. read8 b d a) m),
          write32 = (\<lambda>m a v. m\<lparr>mc_soc := write32 b (mc_soc m) a v\<rparr>),
          write16 = (\<lambda>m a v. m\<lparr>mc_soc := write16 b (mc_soc m) a v\<rparr>),
          write8 = (\<lambda>m a v. m\<lparr>mc_soc := write8 b (mc_soc m) a v\<rparr>),
          host_ram = Some (\<lambda>m. machine_host_ram (mc_soc m)),
          host_ram_write = (case grant of GRANT_NONE \<Rightarrow> None
            | GRANT_DIRECT \<Rightarrow> Some (\<lambda>m. machine_host_ram (mc_soc m))
            | GRANT_WATCHED \<Rightarrow> Some (\<lambda>m. machine_watched_ram_write (mc_soc m))),
          wait_for_interrupt = Some (\<lambda>c.
            (let (done, m) = machine_wait_for_interrupt K ((ctx c)\<lparr>mc_irq_line := irq_line c, mc_fiq_line := fiq_line c\<rparr>)
             in (done, c\<lparr>ctx := m, irq_line := mc_irq_line m, fiq_line := mc_fiq_line m\<rparr>))),
          privileged_svc_handler = re_svc E, prepare_fetch = None,
          load8 = (\<lambda>m p. load8 b (mc_soc m) p), store8 = (\<lambda>m p v. m\<lparr>mc_soc := store8 b (mc_soc m) p v\<rparr>),
          bus_ptrs = k_ptrs K\<rparr>)"

definition no_dwrite :: "'m arm_cpu \<Rightarrow> 'm arm_cpu" where
  "no_dwrite c = c\<lparr>dwrite := (\<lambda>_. empty_blk_entry)\<rparr>"

definition s5l8900_set_direct_ram_writes :: "'x run_env \<Rightarrow> bool \<Rightarrow> 'x system \<Rightarrow> bool \<times> 'x system" where
  "s5l8900_set_direct_ram_writes E enabled s =
     (let s1 = s\<lparr>sy_cpu := no_dwrite (sy_cpu s)\<rparr>
      in if enabled \<and> \<not> re_bus_plain E then (False, s1\<lparr>sy_write_grant := GRANT_NONE\<rparr>)
         else (True, s1\<lparr>sy_write_grant :=
                 (if \<not> enabled then GRANT_NONE
                  else if m_ram_watch (mc_soc (sy_machine s)) \<noteq> None then GRANT_WATCHED else GRANT_DIRECT)\<rparr>))"

definition system_step :: "'x run_env \<Rightarrow> 'x system \<Rightarrow> arm_status \<times> 'x system" where
  "system_step E s =
     (let (st, c) = arm_step (re_vfp E) (system_bus E (sy_write_grant s)) (sy_cpu s)
      in (st, s\<lparr>sy_cpu := c\<rparr>))"

section \<open>The pre-step hook\<close>

definition pre_step_filter_bit :: "u32 \<Rightarrow> nat" where
  "pre_step_filter_bit pc = (let word = shr pc 1 in unat ((word XOR shr word 10 XOR shr word 20) AND 63))"

definition pre_step_target_matches :: "'x system \<Rightarrow> u32 \<Rightarrow> bool" where
  "pre_step_target_matches s pc =
     (if sy_pre_step_hook s = None \<or> sy_pre_step_target s = [] then False
      else
        let pc = pc AND NOT 1
        in if sy_pre_step_filter s AND shl 1 (pre_step_filter_bit pc) = 0 then False
           else list_ex (\<lambda>t. t = pc) (sy_pre_step_target s))"

abbreviation PRE_STEP_TARGET_MAX :: nat where "PRE_STEP_TARGET_MAX \<equiv> 16"

fun targets_valid :: "u32 list \<Rightarrow> u32 list \<Rightarrow> bool" where
  "targets_valid seen [] = True"
| "targets_valid seen (t # ts) =
     (if t AND 1 \<noteq> 0 then False
      else if list_ex (\<lambda>u. u = t) seen then False else targets_valid (seen @ [t]) ts)"

text \<open>The hook with its targets, \<open>Inl\<close> to remove it; \<open>None\<close> for the table is a null pointer.\<close>

definition s5l8900_set_pre_step_hook ::
  "('x machine arm_cpu \<Rightarrow> bool \<times> 'x machine arm_cpu) option \<Rightarrow> u32 list option \<Rightarrow> 'x system
     \<Rightarrow> bool \<times> 'x system" where
  "s5l8900_set_pre_step_hook fn targets s =
     (case fn of
        None \<Rightarrow>
          (if targets \<noteq> None then (False, s)
           else (True, s\<lparr>sy_pre_step_hook := None, sy_pre_step_target := [], sy_pre_step_filter := 0,
                        sy_pre_step_matches := 0, sy_pre_step_handled := 0\<rparr>))
      | Some hook \<Rightarrow>
          (case targets of
             None \<Rightarrow> (False, s)
           | Some ts \<Rightarrow>
               if ts = [] \<or> length ts > PRE_STEP_TARGET_MAX \<or> \<not> targets_valid [] ts then (False, s)
               else (True, s\<lparr>sy_pre_step_hook := Some hook, sy_pre_step_target := ts,
                            sy_pre_step_filter := foldl (\<lambda>f t. f OR shl 1 (pre_step_filter_bit t)) 0 ts,
                            sy_pre_step_matches := 0, sy_pre_step_handled := 0\<rparr>)))"

section \<open>Batches\<close>

abbreviation BATCH_INSNS :: u32 where "BATCH_INSNS \<equiv> 256"
abbreviation SAMPLE_INSNS :: u32 where "SAMPLE_INSNS \<equiv> 4096"

text \<open>The interrupt levels or the host inputs have moved since the last refresh.\<close>

definition levels_moved :: "'x soc_clock \<Rightarrow> 'x machine \<Rightarrow> bool" where
  "levels_moved K m \<longleftrightarrow> m_level_dirty (mc_soc m) \<or> ext_inputs K (mc_soc m) \<noteq> mc_ext_seen m"

definition retirement_batch_limit :: "'x soc_clock \<Rightarrow> 'x machine \<Rightarrow> u32 \<Rightarrow> u32" where
  "retirement_batch_limit K m remaining =
     (if remaining = 0 \<or> k_eager K \<or> levels_moved K m \<or> mc_cpu_hz m = 0 \<or> mc_tb_hz m = 0 \<or>
         mc_tb_hz m > mc_cpu_hz m \<or> mc_tb_accum m \<ge> ucast (mc_cpu_hz m) then 0
      else
        let until_edge = (ucast (mc_cpu_hz m) - mc_tb_accum m + ucast (mc_tb_hz m) - 1) div ucast (mc_tb_hz m)
        in if until_edge < ucast remaining then ucast until_edge else remaining)"

definition run_retirement_batch_limit :: "'x soc_clock \<Rightarrow> 'x machine \<Rightarrow> u32 \<Rightarrow> bool \<Rightarrow> u32" where
  "run_retirement_batch_limit K m remaining active_on =
     (if \<not> active_on then retirement_batch_limit K m remaining
      else if remaining = 0 \<or> levels_moved K m then 0
      else if remaining > BATCH_INSNS then BATCH_INSNS else remaining)"

abbreviation mode_of :: "'m arm_cpu \<Rightarrow> u32" where
  "mode_of c \<equiv> cpsr c AND 0x1f"

definition interpreter_tick_batch_limit :: "'x soc_clock \<Rightarrow> 'x system \<Rightarrow> u32 \<Rightarrow> bool \<Rightarrow> u32" where
  "interpreter_tick_batch_limit K s remaining active_on =
     (if mode_of (sy_cpu s) \<noteq> ARM_MODE_USR \<or> sy_pre_step_hook s \<noteq> None then 0
      else run_retirement_batch_limit K (sy_machine s) remaining active_on)"

text \<open>The inner loop: up to \<open>k\<close> instructions, ended early by a status or by a boundary.\<close>

definition leaves_batch :: "'x soc_clock \<Rightarrow> 'x system \<Rightarrow> bool" where
  "leaves_batch K s \<longleftrightarrow> levels_moved K (sy_machine s) \<or> mode_of (sy_cpu s) \<noteq> ARM_MODE_USR"

fun run_batch :: "'x run_env \<Rightarrow> nat \<Rightarrow> 'x system \<Rightarrow> arm_status \<times> nat \<times> 'x system" where
  "run_batch E 0 s = (ARM_OK, 0, s)"
| "run_batch E (Suc k) s =
     (let (st, s1) = system_step E s
      in if st \<noteq> ARM_OK then (st, 0, s1)
         else if leaves_batch (re_clock E) s1 then (ARM_OK, 1, s1)
         else let (st2, retired, s2) = run_batch E k s1 in (st2, Suc retired, s2))"

text \<open>
  The clock of a run: whether the active clock is in use and the retirements it has not seen yet.
\<close>

record run_clock =
  rc_active :: bool
  rc_pending :: u32

definition run_clock_retired ::
  "'x soc_clock \<Rightarrow> u32 \<Rightarrow> bool \<Rightarrow> bool \<Rightarrow> run_clock \<times> 'x system \<Rightarrow> run_clock \<times> 'x system" where
  "run_clock_retired K retired force_clock_sync force_device_refresh p =
     (let (rc, s) = p
      in if \<not> rc_active rc then (rc, system_tick K retired s)
         else
           let rc1 = rc\<lparr>rc_pending := rc_pending rc + retired\<rparr>
           in if \<not> force_clock_sync \<and> rc_pending rc1 < SAMPLE_INSNS
              then (rc1, if force_device_refresh then system_tick K 0 s else s)
              else
                let (ok, s1) = active_host_clock_sync K (rc_pending rc1) s
                in (rc1\<lparr>rc_pending := 0, rc_active := ok\<rparr>, s1))"

section \<open>The powered-down wait\<close>

definition powered_down_self_branch :: "'x run_env \<Rightarrow> 'x system \<Rightarrow> bool" where
  "powered_down_self_branch E s =
     (let c = sy_cpu s; m = ctx c; x = m_rest (mc_soc m); pc = regs c 15; mode = mode_of c; b = system_bus E (sy_write_grant s)
      in if mc_sleep m = None \<or> (\<not> re_hibernation E x \<and> \<not> re_standby E x) \<or>
            (mode \<noteq> ARM_MODE_SVC \<and> mode \<noteq> ARM_MODE_SYS) \<or>
            cpsr c AND (ARM_CPSR_T OR ARM_CPSR_E OR ARM_CPSR_I OR ARM_CPSR_F) \<noteq> ARM_CPSR_I OR ARM_CPSR_F \<or>
            sctlr (cp15 c) AND shl 1 7 \<noteq> 0 \<or> abort_pending c \<or> pc AND 3 \<noteq> 0 \<or>
            re_i2c_active E 0 x \<or> re_i2c_active E 1 x \<or> pre_step_target_matches s pc \<or>
            \<not> re_bus_plain E \<or> fetch_host c = None \<or> \<not> fetch_priv c \<or>
            fetch_blk c \<noteq> pc AND NOT 1023 \<or> fetch_gen c \<noteq> tlb_gen c \<or> \<not> mmu_stamp_matches c
         then False
         else
           let p = the (fetch_host c) + unat (pc AND 1023)
           in load8 b m p = 0xfe \<and> load8 b m (p + 1) = 0xff \<and> load8 b m (p + 2) = 0xff \<and>
              load8 b m (p + 3) = 0xea)"

definition s5l8900_hibernation_ready :: "'x run_env \<Rightarrow> 'x system \<Rightarrow> bool" where
  "s5l8900_hibernation_ready E s \<longleftrightarrow>
     (let x = m_rest (mc_soc (sy_machine s))
      in re_hibernation E x \<and> \<not> re_standby E x \<and> powered_down_self_branch E s)"

definition sleep_slice :: "'x run_env \<Rightarrow> (u64 \<Rightarrow> 'x \<Rightarrow> bool \<times> 'x) \<Rightarrow> u64 \<Rightarrow> 'x machine \<Rightarrow> u64 \<times> 'x machine" where
  "sleep_slice E sleep fraction m0 =
     (let ((measured, start_ns), m1) = host_now m0;
          (slept, m2) = host_sleep sleep 8000000 m1
      in if \<not> slept then (fraction, m2)
         else
           let ((again, end_ns), m3) = (if measured then host_now m2 else ((False, 0), m2));
               elapsed_ns = (if measured \<and> again \<and> end_ns \<ge> start_ns \<and> end_ns - start_ns > 8000000
                             then (if end_ns - start_ns > 8000000 + MAX_STEP_NS then 8000000 + MAX_STEP_NS
                                   else end_ns - start_ns)
                             else 8000000)
           in case active_clock_elapsed_ticks elapsed_ns (re_pmu_hz E (m_rest (mc_soc m3))) fraction of
                None \<Rightarrow> (fraction, m3)
              | Some (n, fraction1) \<Rightarrow>
                  (fraction1, m3\<lparr>mc_soc := (mc_soc m3)\<lparr>m_rest := k_pmu_tick (re_clock E) (ucast n) (m_rest (mc_soc m3))\<rparr>\<rparr>))"

definition powered_down_host_wait :: "'x run_env \<Rightarrow> 'x system \<Rightarrow> bool \<times> 'x system" where
  "powered_down_host_wait E s =
     (if \<not> powered_down_self_branch E s then (False, s\<lparr>sy_power_wait_fraction := 0\<rparr>)
      else
        let m = active_clock_quiesce_input_guard (sy_machine s);
            m1 = m\<lparr>mc_clock := active_clock_reset_anchor (mc_clock m)\<rparr>;
            (fraction, m2) = sleep_slice E (the (mc_sleep m1)) (sy_power_wait_fraction s) m1
        in (True, s\<lparr>sy_cpu := (sy_cpu s)\<lparr>ctx := m2\<rparr>, sy_power_wait_fraction := fraction\<rparr>))"

section \<open>The run loop\<close>

text \<open>
  One round of the loop: \<open>Inl\<close> leaves it with a status. The three numbers are the retired
  instructions, the handled pre-step targets and (in \<open>rc\<close>) the pending retirements.
\<close>

record 'x round =
  ro_retired :: u32
  ro_handled :: u32
  ro_clock :: run_clock
  ro_system :: "'x system"

definition restart_requested :: "'x system \<Rightarrow> bool" where
  "restart_requested s \<longleftrightarrow> m_restart_requested (mc_soc (sy_machine s))"

definition account :: "'x run_env \<Rightarrow> u32 \<Rightarrow> bool \<Rightarrow> bool \<Rightarrow> 'x round \<Rightarrow> 'x round" where
  "account E retired force_clock_sync force_device_refresh r =
     (let (rc, s) = run_clock_retired (re_clock E) retired force_clock_sync force_device_refresh
            (ro_clock r, ro_system r)
      in r\<lparr>ro_clock := rc, ro_system := s\<rparr>)"

text \<open>The part of a round that executes instructions.\<close>

definition run_instructions :: "'x run_env \<Rightarrow> u32 \<Rightarrow> 'x round \<Rightarrow> (arm_status \<times> 'x round) + 'x round" where
  "run_instructions E max_steps r =
     (let K = re_clock E;
          limit = interpreter_tick_batch_limit K (ro_system r) (max_steps - ro_retired r) (rc_active (ro_clock r))
      in if limit > 1 then
           let (st, retired, s1) = run_batch E (unat limit) (ro_system r);
               r1 = (if retired = 0 then r\<lparr>ro_system := s1\<rparr>
                     else account E (of_nat retired) (st \<noteq> ARM_OK) (leaves_batch K s1)
                       (r\<lparr>ro_retired := ro_retired r + of_nat retired,
                          ro_system := s1\<lparr>sy_tick_batches := sy_tick_batches s1 + 1,
                            sy_tick_batched_retired := sy_tick_batched_retired s1 + of_nat retired\<rparr>\<rparr>))
           in if st \<noteq> ARM_OK then Inl (st, r1) else Inr r1
         else
           let (st, s1) = system_step E (ro_system r)
           in if st \<noteq> ARM_OK then Inl (st, r\<lparr>ro_system := s1\<rparr>)
              else
                let r1 = account E 1 (mc_wfi_pace_yield (sy_machine s1)) (levels_moved K (sy_machine s1))
                      (r\<lparr>ro_retired := ro_retired r + 1, ro_system := s1\<rparr>);
                    s2 = ro_system r1
                in if mc_wfi_pace_yield (sy_machine s2)
                   then Inl (ARM_OK, r1\<lparr>ro_system := s2\<lparr>sy_cpu := (sy_cpu s2)\<lparr>ctx :=
                          (sy_machine s2)\<lparr>mc_wfi_pace_yield := False\<rparr>\<rparr>\<rparr>\<rparr>)
                   else Inr r1)"

definition run_round :: "'x run_env \<Rightarrow> u32 \<Rightarrow> 'x round \<Rightarrow> (arm_status \<times> 'x round) + 'x round" where
  "run_round E max_steps r =
     (let s = ro_system r; K = re_clock E
      in if restart_requested s then Inl (ARM_RESTART, r)
         else if pre_step_target_matches s (regs (sy_cpu s) 15) then
           (if ro_handled r = max_steps then Inl (ARM_OK, r)
            else
              let (done, c) = the (sy_pre_step_hook s) (sy_cpu s);
                  s1 = s\<lparr>sy_pre_step_matches := sy_pre_step_matches s + 1, sy_cpu := c\<rparr>
              in if done then
                   let s2 = s1\<lparr>sy_pre_step_handled := sy_pre_step_handled s1 + 1\<rparr>
                   in Inr (account E 1 False (levels_moved K (sy_machine s2))
                             (r\<lparr>ro_handled := ro_handled r + 1, ro_system := s2\<rparr>))
                 else run_instructions E max_steps (r\<lparr>ro_system := s1\<rparr>))
         else run_instructions E max_steps r)"

text \<open>A round retires at most what is left of the slice.\<close>

lemma account_counts [simp]:
  "ro_retired (account E n f g r) = ro_retired r" "ro_handled (account E n f g r) = ro_handled r"
  by (simp_all add: account_def split_beta)

lemma run_batch_retired: "fst (snd (run_batch E k s)) \<le> k"
proof (induction k arbitrary: s)
  case (Suc k)
  show ?case
    using Suc [of "snd (system_step E s)"] by (auto simp: split_beta Let_def)
qed simp

lemma run_batch_progress: "run_batch E (Suc k) s = (ARM_OK, n, s') \<Longrightarrow> 0 < n"
  by (auto simp: split_beta Let_def split: if_splits)

lemma retirement_batch_limit_le: "retirement_batch_limit K m n \<le> n"
proof -
  let ?e = "(ucast (mc_cpu_hz m) - mc_tb_accum m + ucast (mc_tb_hz m) - 1) div ucast (mc_tb_hz m) :: u64"
  have "unat (ucast ?e :: u32) \<le> unat n" if "?e < ucast n"
  proof -
    have "unat ?e < unat n" using that by (simp add: word_less_nat_alt)
    then show ?thesis using unat_u32_less [of n] by (simp add: unsigned_ucast_eq take_bit_nat_eq_self)
  qed
  then show ?thesis by (simp add: retirement_batch_limit_def Let_def word_le_nat_alt)
qed

lemma interpreter_tick_batch_limit_le: "interpreter_tick_batch_limit K s n a \<le> n"
  using retirement_batch_limit_le [of K "sy_machine s" n]
  by (simp add: interpreter_tick_batch_limit_def run_retirement_batch_limit_def) auto

text \<open>How far a round moves the two counts that bound the loop.\<close>

definition advances :: "u32 \<Rightarrow> 'x round \<Rightarrow> 'x round \<Rightarrow> bool" where
  "advances max_steps r r1 \<longleftrightarrow>
     ro_handled r1 = ro_handled r \<and> ro_retired r < ro_retired r1 \<and> ro_retired r1 \<le> max_steps \<or>
     ro_handled r1 = ro_handled r + 1 \<and> ro_retired r1 = ro_retired r \<and> ro_handled r \<noteq> max_steps"

lemma unat_diff_less: "n < mx \<Longrightarrow> unat (mx - n) = unat mx - unat n" for n mx :: "'a::len word"
  by (simp add: unat_sub order_less_imp_le)

lemma add_within:
  fixes n mx :: u32
  assumes "n < mx" "0 < k" "k \<le> unat (mx - n)"
  shows "n < n + of_nat k \<and> n + of_nat k \<le> mx"
proof -
  have d: "unat (mx - n) = unat mx - unat n" and lt: "unat n < unat mx"
    using assms(1) unat_diff_less by (simp_all add: word_less_nat_alt)
  have "k < 4294967296" using assms(3) unat_u32_less [of "mx - n"] by linarith
  then have "unat (of_nat k :: u32) = k" by (simp add: unat_of_nat)
  moreover have "unat n + k \<le> unat mx" using assms(3) d lt by linarith
  ultimately have "unat (n + of_nat k) = unat n + k"
    using unat_u32_less [of mx] by (simp add: unat_word_ariths)
  then show ?thesis using assms(2) \<open>unat n + k \<le> unat mx\<close> by (simp add: word_less_nat_alt word_le_nat_alt)
qed

lemma instructions_advance:
  assumes "ro_retired r < max_steps" and "run_instructions E max_steps r = Inr r1"
  shows "ro_handled r1 = ro_handled r \<and> ro_retired r < ro_retired r1 \<and> ro_retired r1 \<le> max_steps"
proof -
  let ?limit = "interpreter_tick_batch_limit (re_clock E) (ro_system r) (max_steps - ro_retired r) (rc_active (ro_clock r))"
  show ?thesis
  proof (cases "?limit > 1")
    case True
    obtain st n s1 where b: "run_batch E (unat ?limit) (ro_system r) = (st, n, s1)" by (metis prod_cases3)
    have "unat ?limit \<noteq> 0" using True by (simp add: word_less_nat_alt)
    then obtain k where k: "unat ?limit = Suc k" by (meson not0_implies_Suc)
    have st: "st = ARM_OK" using assms(2) True b by (auto simp: run_instructions_def Let_def split: if_splits)
    have pos: "0 < n" using run_batch_progress [of E k "ro_system r" n s1] b k st by simp
    have "n \<le> unat ?limit" using run_batch_retired [of E "unat ?limit" "ro_system r"] b by simp
    then have "n \<le> unat (max_steps - ro_retired r)"
      using interpreter_tick_batch_limit_le [of "re_clock E" "ro_system r" "max_steps - ro_retired r"]
      by (meson le_trans word_le_nat_alt)
    from add_within [OF assms(1) pos this] show ?thesis
      using assms(2) True b st pos by (auto simp: run_instructions_def Let_def)
  next
    case False
    then have "ro_handled r1 = ro_handled r" "ro_retired r1 = ro_retired r + 1"
      using assms(2) by (auto simp: run_instructions_def Let_def split_beta split: if_splits)
    moreover have "1 \<le> unat (max_steps - ro_retired r)"
      using unat_diff_less [OF assms(1)] assms(1) by (simp add: word_less_nat_alt)
    ultimately show ?thesis using add_within [OF assms(1), of 1] by simp
  qed
qed

lemma round_advances:
  assumes "ro_retired r < max_steps" and "run_round E max_steps r = Inr r1"
  shows "advances max_steps r r1"
proof -
  show ?thesis
    using assms instructions_advance [of r max_steps E r1]
      instructions_advance [of "r\<lparr>ro_system := s1\<rparr>" max_steps E r1 for s1]
    by (auto simp: run_round_def Let_def split_beta advances_def split: if_splits)
qed

lemma advances_measure:
  assumes "ro_retired r < max_steps" "advances max_steps r r1"
  shows "unat (max_steps - ro_retired r1) + unat (max_steps - ro_handled r1)
    < unat (max_steps - ro_retired r) + unat (max_steps - ro_handled r)"
proof -
  have "unat (max_steps - (h + 1)) < unat (max_steps - h)" if "h \<noteq> max_steps" for h :: u32
  proof -
    have "max_steps - h \<noteq> 0" using that by auto
    then have "unat (max_steps - h - 1) = unat (max_steps - h) - 1" "unat (max_steps - h) \<noteq> 0"
      by (simp_all add: unat_minus_one unat_eq_0)
    then show ?thesis by (simp add: algebra_simps)
  qed
  moreover have "unat (max_steps - b) < unat (max_steps - a)" if "a < b" "b \<le> max_steps" for a b :: u32
    using that by (simp add: unat_sub word_le_nat_alt word_less_nat_alt)
  ultimately show ?thesis using assms by (auto simp: advances_def)
qed

function run_loop :: "'x run_env \<Rightarrow> u32 \<Rightarrow> 'x round \<Rightarrow> arm_status \<times> 'x round" where
  "run_loop E max_steps r =
     (if \<not> ro_retired r < max_steps then (ARM_OK, r)
      else case run_round E max_steps r of Inl e \<Rightarrow> e | Inr r1 \<Rightarrow> run_loop E max_steps r1)"
  by pat_completeness auto
termination
  by (relation "measure (\<lambda>(E, max_steps, r). unat (max_steps - ro_retired r) + unat (max_steps - ro_handled r))")
    (auto intro: advances_measure round_advances)

declare run_loop.simps [simp del]

text \<open>The start and the end of a run.\<close>

definition run_start :: "'x run_env \<Rightarrow> u32 \<Rightarrow> 'x system \<Rightarrow> u32 \<times> 'x round" where
  "run_start E max_steps s0 =
     (let (down, s1) = (if max_steps \<noteq> 0 \<and> \<not> restart_requested s0 then powered_down_host_wait E s0 else (False, s0));
          steps = (if down then 0 else max_steps);
          s2 = s1\<lparr>sy_cpu := (sy_cpu s1)\<lparr>ctx := (sy_machine s1)\<lparr>mc_wfi_pace_yield := False\<rparr>\<rparr>\<rparr>;
          (active_on, s3) =
            (if steps \<noteq> 0 \<and> mc_now (sy_machine s2) \<noteq> None \<and> \<not> ac_deadline_shield (sy_clock s2) then
               (if \<not> ac_anchor_valid (sy_clock s2) then active_host_clock_sync (re_clock E) 0 s2
                else (True, system_tick (re_clock E) 0 s2))
             else (False, s2))
      in (steps, \<lparr>ro_retired = 0, ro_handled = 0, ro_clock = \<lparr>rc_active = active_on, rc_pending = 0\<rparr>,
                  ro_system = s3\<rparr>))"

definition run_finish :: "'x run_env \<Rightarrow> arm_status \<Rightarrow> 'x round \<Rightarrow> u32 \<times> arm_status \<times> 'x system" where
  "run_finish E st0 r =
     (let s = ro_system r;
          st = (if st0 = ARM_OK \<and> restart_requested s then ARM_RESTART else st0);
          s1 = (if rc_active (ro_clock r) \<and> rc_pending (ro_clock r) \<noteq> 0
                then snd (active_host_clock_sync (re_clock E) (rc_pending (ro_clock r)) s) else s);
          s2 = (case sy_uart4_service s1 of None \<Rightarrow> s1
                | Some service \<Rightarrow> s1\<lparr>sy_cpu := service (ro_retired r) (sy_cpu s1)\<rparr>)
      in if st = ARM_RESTART then
           let c = (sy_cpu s2)\<lparr>ctx := (sy_machine s2)\<lparr>mc_soc := (mc_soc (sy_machine s2))\<lparr>m_restart_requested := False\<rparr>\<rparr>\<rparr>
           in (case sy_restart_service s2 of None \<Rightarrow> (ro_retired r, st, s2\<lparr>sy_cpu := c\<rparr>)
               | Some service \<Rightarrow>
                   let (ok, c1) = service c
                   in (ro_retired r, if ok then ARM_OK else ARM_HALT, s2\<lparr>sy_cpu := c1\<rparr>))
         else (ro_retired r, st, s2))"

definition s5l8900_run :: "'x run_env \<Rightarrow> u32 \<Rightarrow> 'x system \<Rightarrow> u32 \<times> arm_status \<times> 'x system" where
  "s5l8900_run E max_steps s =
     (let (steps, r) = run_start E max_steps s; (st, r1) = run_loop E steps r
      in run_finish E st r1)"

end
