(* ===== verification/Ppp_Frame.thy ===== *)
theory Ppp_Frame
  imports Prelude
begin

text \<open>
  HDLC-async framing (core/src/net/ppp.c, the part below the peer): the frame check sequence, the
  escaping of octets and the encoding of a frame. The lemmas show that the check sequence of an encoded
  frame leaves the good residue, and that unescaping what was escaped gives back the octets, whatever
  the control character map.
\<close>

unbundle bit_operations_syntax

section \<open>Constants\<close>

abbreviation PPP_FLAG :: u8 where "PPP_FLAG \<equiv> 0x7e"
abbreviation PPP_ESCAPE :: u8 where "PPP_ESCAPE \<equiv> 0x7d"
abbreviation PPP_TRANS :: u8 where "PPP_TRANS \<equiv> 0x20"
abbreviation PPP_ALLSTATIONS :: u8 where "PPP_ALLSTATIONS \<equiv> 0xff"
abbreviation PPP_UI :: u8 where "PPP_UI \<equiv> 0x03"
abbreviation PPP_FCS_INIT :: u16 where "PPP_FCS_INIT \<equiv> 0xffff"
abbreviation PPP_FCS_GOOD :: u16 where "PPP_FCS_GOOD \<equiv> 0xf0b8"
abbreviation PPP_MRU_DEFAULT :: nat where "PPP_MRU_DEFAULT \<equiv> 1500"
abbreviation PPP_MAX_FRAME :: nat where "PPP_MAX_FRAME \<equiv> 1506"

section \<open>The frame check sequence\<close>

definition fcs_bit :: "u16 \<Rightarrow> u16" where
  "fcs_bit fcs = (if fcs AND 1 \<noteq> 0 then shr fcs 1 XOR 0x8408 else shr fcs 1)"

definition fcs_octet :: "u16 \<Rightarrow> u8 \<Rightarrow> u16" where
  "fcs_octet fcs c = (fcs_bit ^^ 8) (fcs XOR ucast c)"

definition ppp_fcs16 :: "u16 \<Rightarrow> u8 list \<Rightarrow> u16" where
  "ppp_fcs16 fcs data = foldl fcs_octet fcs data"

section \<open>Escaping and frames\<close>

definition needs_escape :: "u8 \<Rightarrow> u32 \<Rightarrow> bool" where
  "needs_escape c accm \<longleftrightarrow>
     (if c = PPP_FLAG \<or> c = PPP_ESCAPE then True
      else if c < 0x20 then accm AND shl 1 (unat c) \<noteq> 0 else False)"

text \<open>The octets written so far; \<open>None\<close> when the next does not fit in \<open>cap\<close>.\<close>

definition emit :: "nat \<Rightarrow> u32 \<Rightarrow> u8 \<Rightarrow> u8 list \<Rightarrow> u8 list option" where
  "emit cap accm c out =
     (if needs_escape c accm then
        if length out + 2 > cap then None else Some (out @ [PPP_ESCAPE, c XOR PPP_TRANS])
      else if length out + 1 > cap then None else Some (out @ [c]))"

fun emit_all :: "nat \<Rightarrow> u32 \<Rightarrow> u8 list \<Rightarrow> u8 list \<Rightarrow> u8 list option" where
  "emit_all cap accm [] out = Some out"
| "emit_all cap accm (c # cs) out =
     (case emit cap accm c out of None \<Rightarrow> None | Some out' \<Rightarrow> emit_all cap accm cs out')"

text \<open>\<open>None\<close> is the result 0: nothing usable was written.\<close>

definition ppp_frame :: "u16 \<Rightarrow> u8 list \<Rightarrow> u32 \<Rightarrow> nat \<Rightarrow> u8 list option" where
  "ppp_frame proto info accm cap =
     (if length info > PPP_MRU_DEFAULT then None
      else
        let hdr = [PPP_ALLSTATIONS, PPP_UI, ucast (shr proto 8), ucast (proto AND 0xff)];
            fcs = ppp_fcs16 (ppp_fcs16 PPP_FCS_INIT hdr) info XOR 0xffff
        in if 1 > cap then None
           else (case emit_all cap accm hdr [PPP_FLAG] of None \<Rightarrow> None
             | Some out1 \<Rightarrow> (case emit_all cap accm info out1 of None \<Rightarrow> None
             | Some out2 \<Rightarrow> (case emit cap accm (ucast (fcs AND 0xff)) out2 of None \<Rightarrow> None
             | Some out3 \<Rightarrow> (case emit cap accm (ucast (shr fcs 8)) out3 of None \<Rightarrow> None
             | Some out4 \<Rightarrow> if length out4 + 1 > cap then None else Some (out4 @ [PPP_FLAG]))))))"

section \<open>The check sequence is linear and leaves the good residue\<close>

lemma fcs_bit_xor: "fcs_bit (a XOR b) = fcs_bit a XOR fcs_bit b"
proof -
  have odd: "x AND 1 \<noteq> 0 \<longleftrightarrow> bit x 0" for x :: u16 by (simp add: and_one_eq bit_0 odd_iff_mod_2_eq_one)
  have k: "(if p \<noteq> q then (x XOR y) XOR k else x XOR y) = (if p then x XOR k else x) XOR (if q then y XOR k else y)"
    for p q and x y k :: u16
    by (cases p; cases q) (simp_all add: ac_simps)
  have "shr (a XOR b) 1 = shr a 1 XOR shr b 1" by simp
  then show ?thesis unfolding fcs_bit_def odd bit_xor_iff by (simp only: k)
qed

lemma fcs_bits_xor: "(fcs_bit ^^ n) (a XOR b) = (fcs_bit ^^ n) a XOR (fcs_bit ^^ n) b"
  by (induction n) (simp_all add: fcs_bit_xor)

lemma fcs_bits_high: "\<forall>k < n. \<not> bit a k \<Longrightarrow> (fcs_bit ^^ n) a = shr a n"
proof (induction n)
  case (Suc n)
  then have "(fcs_bit ^^ n) a = shr a n" by simp
  moreover have "\<not> bit (shr a n) 0" using Suc.prems by (simp add: bit_drop_bit_eq)
  then have "shr a n AND 1 = 0" by (simp add: and_one_eq bit_0 even_iff_mod_2_eq_zero)
  ultimately have "fcs_bit ((fcs_bit ^^ n) a) = shr (shr a n) 1" by (simp only: fcs_bit_def) simp
  then show ?case by (simp add: drop_bit_drop_bit)
qed simp

lemma fcs_split: "(fcs_bit ^^ 8) x = shr x 8 XOR (fcs_bit ^^ 8) (x AND 0xff)"
proof -
  have m: "(0xff :: u16) = mask 8" by (simp add: mask_eq_exp_minus_1)
  have x: "x = (x AND NOT (mask 8)) XOR (x AND mask 8)" by (rule bit_word_eqI) (auto simp: bit_simps)
  have "(fcs_bit ^^ 8) (x AND NOT (mask 8)) = shr (x AND NOT (mask 8)) 8"
    by (rule fcs_bits_high) (auto simp: bit_simps)
  also have "\<dots> = shr x 8" by (rule bit_word_eqI) (auto simp: bit_simps dest: bit_imp_le_length)
  finally show ?thesis by (subst x) (simp add: fcs_bits_xor m)
qed

lemma fcs_ff: "(fcs_bit ^^ 8) 0xff = 0xf78" "(fcs_bit ^^ 8) (0xf78 XOR 0xff) = 0xf0b8"
proof -
  have steps: "fcs_bit 0xff = 0x8477" "fcs_bit 0x8477 = 0xc633" "fcs_bit 0xc633 = 0xe711" "fcs_bit 0xe711 = 0xf780" "fcs_bit 0xf780 = 0x7bc0" "fcs_bit 0x7bc0 = 0x3de0" "fcs_bit 0x3de0 = 0x1ef0" "fcs_bit 0x1ef0 = 0xf78" "fcs_bit 0xf87 = 0x83cb" "fcs_bit 0x83cb = 0xc5ed" "fcs_bit 0xc5ed = 0xe6fe" "fcs_bit 0xe6fe = 0x737f" "fcs_bit 0x737f = 0xbdb7" "fcs_bit 0xbdb7 = 0xdad3" "fcs_bit 0xdad3 = 0xe961" "fcs_bit 0xe961 = 0xf0b8"
    by (simp_all add: fcs_bit_def)
  have eight: "(fcs_bit ^^ 8) x = fcs_bit (fcs_bit (fcs_bit (fcs_bit (fcs_bit (fcs_bit (fcs_bit (fcs_bit x)))))))" for x
    by (simp add: eval_nat_numeral)
  have "(0xf78 XOR 0xff :: u16) = 0xf87" by simp
  then show "(fcs_bit ^^ 8) 0xff = 0xf78" "(fcs_bit ^^ 8) (0xf78 XOR 0xff) = 0xf0b8"
    by (simp_all only: eight steps)
qed

lemma fcs_residue:
  fixes f :: u16
  defines "c \<equiv> f XOR 0xffff"
  shows "ppp_fcs16 f [ucast (c AND 0xff), ucast (shr c 8)] = PPP_FCS_GOOD"
proof -
  have m: "(0xff :: u16) = mask 8" "(0xffff :: u16) = mask 16" by (simp_all add: mask_eq_exp_minus_1)
  let ?x = "f XOR ucast (ucast (c AND 0xff) :: u8)"
  have "?x AND 0xff = 0xff" "shr ?x 8 = shr f 8"
    unfolding c_def m by (rule bit_word_eqI; auto simp: bit_simps)+
  then have a: "fcs_octet f (ucast (c AND 0xff)) = shr f 8 XOR 0xf78"
    using fcs_split [of ?x] by (simp add: fcs_octet_def fcs_ff)
  have "shr f 8 XOR ucast (ucast (shr c 8) :: u8) = 0xff"
    unfolding c_def m by (rule bit_word_eqI) (auto simp: bit_simps dest: bit_imp_le_length)
  moreover have "(a XOR k) XOR u = k XOR (a XOR u)" for a k u :: u16 by (simp only: ac_simps)
  ultimately have "fcs_octet (shr f 8 XOR 0xf78) (ucast (shr c 8)) = PPP_FCS_GOOD"
    by (simp only: fcs_octet_def fcs_ff)
  then show ?thesis by (simp only: ppp_fcs16_def foldl.simps a)
qed

lemma ppp_fcs16_append: "ppp_fcs16 f (a @ b) = ppp_fcs16 (ppp_fcs16 f a) b"
  by (simp add: ppp_fcs16_def)

section \<open>Escaped octets\<close>

text \<open>What an octet becomes on the line, and a frame without the bound of the caller's buffer.\<close>

definition escape :: "u32 \<Rightarrow> u8 \<Rightarrow> u8 list" where
  "escape accm c = (if needs_escape c accm then [PPP_ESCAPE, c XOR PPP_TRANS] else [c])"

definition frame_body :: "u16 \<Rightarrow> u8 list \<Rightarrow> u8 list" where
  "frame_body proto info = [PPP_ALLSTATIONS, PPP_UI, ucast (shr proto 8), ucast (proto AND 0xff)] @ info"

definition frame_fcs :: "u8 list \<Rightarrow> u8 list" where
  "frame_fcs body = (let fcs = ppp_fcs16 PPP_FCS_INIT body XOR 0xffff in [ucast (fcs AND 0xff), ucast (shr fcs 8)])"

definition line_frame :: "u32 \<Rightarrow> u16 \<Rightarrow> u8 list \<Rightarrow> u8 list" where
  "line_frame accm proto info =
     (let body = frame_body proto info
      in [PPP_FLAG] @ concat (map (escape accm) (body @ frame_fcs body)) @ [PPP_FLAG])"

lemma emit_escape:
  "emit cap accm c out = (if length (out @ escape accm c) > cap then None else Some (out @ escape accm c))"
  by (simp add: emit_def escape_def)

lemma emit_all_escape:
  "length out \<le> cap \<Longrightarrow> emit_all cap accm cs out =
    (if length (out @ concat (map (escape accm) cs)) > cap then None
     else Some (out @ concat (map (escape accm) cs)))"
  by (induction cs arbitrary: out) (auto simp: emit_escape)

lemma emit_all_append:
  "emit_all cap accm (cs @ ds) out =
    (case emit_all cap accm cs out of None \<Rightarrow> None | Some out' \<Rightarrow> emit_all cap accm ds out')"
  by (induction cs arbitrary: out) (simp_all split: option.splits)

lemma ppp_frame_line:
  "ppp_frame proto info accm cap =
    (if length info \<le> PPP_MRU_DEFAULT \<and> length (line_frame accm proto info) \<le> cap
     then Some (line_frame accm proto info) else None)"
proof (cases "length info \<le> PPP_MRU_DEFAULT \<and> 1 \<le> cap")
  case True
  let ?hdr = "[PPP_ALLSTATIONS, PPP_UI, ucast (shr proto 8), ucast (proto AND 0xff)]"
  let ?body = "frame_body proto info"
  have fcs: "ppp_fcs16 (ppp_fcs16 PPP_FCS_INIT ?hdr) info = ppp_fcs16 PPP_FCS_INIT ?body"
    by (simp only: frame_body_def ppp_fcs16_append)
  have "ppp_frame proto info accm cap =
      (case emit_all cap accm (?body @ frame_fcs ?body) [PPP_FLAG] of None \<Rightarrow> None
       | Some out \<Rightarrow> if length out + 1 > cap then None else Some (out @ [PPP_FLAG]))"
    using True unfolding ppp_frame_def frame_fcs_def Let_def fcs frame_body_def emit_all_append
    by (simp del: emit_all.simps(2) add: emit_all.simps(2) [of _ _ "ucast _"] split: option.split)
  then show ?thesis
    using True by (auto simp: emit_all_escape line_frame_def Let_def)
qed (auto simp: ppp_frame_def line_frame_def Let_def)

lemma escape_length: "length (escape accm c) \<le> 2"
  by (simp add: escape_def)

lemma line_frame_length: "length (line_frame accm proto info) \<le> 2 * length info + 14"
proof -
  have "length (concat (map (escape accm) cs)) \<le> 2 * length cs" for cs
  proof (induction cs)
    case (Cons c cs)
    then show ?case using escape_length [of accm c] by simp
  qed simp
  from this [of "frame_body proto info @ frame_fcs (frame_body proto info)"]
  show ?thesis by (simp add: line_frame_def frame_body_def frame_fcs_def Let_def)
qed

lemma frame_residue: "ppp_fcs16 PPP_FCS_INIT (body @ frame_fcs body) = PPP_FCS_GOOD"
  using fcs_residue by (simp only: frame_fcs_def Let_def ppp_fcs16_append)

lemma escaped_octet:
  assumes "needs_escape c accm"
  shows "c XOR PPP_TRANS \<noteq> PPP_FLAG" "c XOR PPP_TRANS \<noteq> PPP_ESCAPE" "(c XOR PPP_TRANS) XOR PPP_TRANS = c"
proof -
  show same: "(c XOR PPP_TRANS) XOR PPP_TRANS = c" by (simp add: xor.assoc)
  have c: "c = PPP_FLAG \<or> c = PPP_ESCAPE \<or> c < 0x20"
    using assms by (auto simp: needs_escape_def split: if_splits)
  have "c \<noteq> PPP_FLAG XOR PPP_TRANS" "c \<noteq> PPP_ESCAPE XOR PPP_TRANS" using c by auto
  then show "c XOR PPP_TRANS \<noteq> PPP_FLAG" "c XOR PPP_TRANS \<noteq> PPP_ESCAPE" using same by metis+
qed

lemma unescaped_octet: "\<not> needs_escape c accm \<Longrightarrow> c \<noteq> PPP_FLAG \<and> c \<noteq> PPP_ESCAPE"
  by (auto simp: needs_escape_def)

end
