(* ===== verification/Ppp.thy ===== *)
theory Ppp
  imports Ppp_Frame
begin

text \<open>
  The PPP peer (core/src/net/ppp.c, core/include/ppp.h): the transmit ring, the option negotiation of
  LCP and IPCP, the automaton of RFC 1661, the dispatch of received frames, the deframer and the
  restart timers. An octet string is a list; the receive buffer is the list of the octets it holds. The
  sink of received datagrams acts on the state \<open>'x\<close> of its owner.
\<close>

unbundle bit_operations_syntax

section \<open>State\<close>

abbreviation PPP_PROTO_IP :: u16 where "PPP_PROTO_IP \<equiv> 0x0021"
abbreviation PPP_PROTO_IPCP :: u16 where "PPP_PROTO_IPCP \<equiv> 0x8021"
abbreviation PPP_PROTO_LCP :: u16 where "PPP_PROTO_LCP \<equiv> 0xc021"

abbreviation PPP_CONF_REQ :: u8 where "PPP_CONF_REQ \<equiv> 1"
abbreviation PPP_CONF_ACK :: u8 where "PPP_CONF_ACK \<equiv> 2"
abbreviation PPP_CONF_NAK :: u8 where "PPP_CONF_NAK \<equiv> 3"
abbreviation PPP_CONF_REJ :: u8 where "PPP_CONF_REJ \<equiv> 4"
abbreviation PPP_TERM_REQ :: u8 where "PPP_TERM_REQ \<equiv> 5"
abbreviation PPP_TERM_ACK :: u8 where "PPP_TERM_ACK \<equiv> 6"
abbreviation PPP_CODE_REJ :: u8 where "PPP_CODE_REJ \<equiv> 7"
abbreviation PPP_PROTO_REJ :: u8 where "PPP_PROTO_REJ \<equiv> 8"
abbreviation PPP_ECHO_REQ :: u8 where "PPP_ECHO_REQ \<equiv> 9"
abbreviation PPP_ECHO_REPLY :: u8 where "PPP_ECHO_REPLY \<equiv> 10"
abbreviation PPP_DISCARD_REQ :: u8 where "PPP_DISCARD_REQ \<equiv> 11"

abbreviation LCP_OPT_MRU :: u8 where "LCP_OPT_MRU \<equiv> 1"
abbreviation LCP_OPT_ASYNCMAP :: u8 where "LCP_OPT_ASYNCMAP \<equiv> 2"
abbreviation LCP_OPT_MAGIC :: u8 where "LCP_OPT_MAGIC \<equiv> 5"
abbreviation LCP_OPT_PCOMP :: u8 where "LCP_OPT_PCOMP \<equiv> 7"
abbreviation LCP_OPT_ACCOMP :: u8 where "LCP_OPT_ACCOMP \<equiv> 8"
abbreviation IPCP_OPT_ADDRESS :: u8 where "IPCP_OPT_ADDRESS \<equiv> 3"
abbreviation IPCP_OPT_DNS1 :: u8 where "IPCP_OPT_DNS1 \<equiv> 129"
abbreviation IPCP_OPT_DNS2 :: u8 where "IPCP_OPT_DNS2 \<equiv> 131"

abbreviation PPP_RESTART_MS :: u32 where "PPP_RESTART_MS \<equiv> 3000"
abbreviation PPP_MAX_CONFIGURE :: u8 where "PPP_MAX_CONFIGURE \<equiv> 10"
abbreviation PPP_MAX_TERMINATE :: u8 where "PPP_MAX_TERMINATE \<equiv> 2"
abbreviation PPP_MAX_FAILURE :: u8 where "PPP_MAX_FAILURE \<equiv> 5"
abbreviation PPP_REQ_LCP_MAGIC :: u8 where "PPP_REQ_LCP_MAGIC \<equiv> 1"
abbreviation PPP_REQ_LCP_ASYNCMAP :: u8 where "PPP_REQ_LCP_ASYNCMAP \<equiv> 2"
abbreviation PPP_REQ_IPCP_ADDRESS :: u8 where "PPP_REQ_IPCP_ADDRESS \<equiv> 1"

definition PPP_TX_RING :: nat where
  "PPP_TX_RING = (2 * PPP_MAX_FRAME + 2) * 32"

datatype ppp_state = PPP_S_INITIAL | PPP_S_STARTING | PPP_S_CLOSED | PPP_S_STOPPED | PPP_S_CLOSING
  | PPP_S_STOPPING | PPP_S_REQSENT | PPP_S_ACKRCVD | PPP_S_ACKSENT | PPP_S_OPENED

datatype ppp_phase = PPP_PHASE_DEAD | PPP_PHASE_ESTABLISH | PPP_PHASE_NETWORK | PPP_PHASE_OPEN
  | PPP_PHASE_TERMINATE

record ppp_config =
  cf_local_ip :: u32
  cf_remote_ip :: u32
  cf_dns1 :: u32
  cf_dns2 :: u32
  cf_magic :: u32

record ppp_stats =
  ps_rx_bytes :: u64
  ps_tx_bytes :: u64
  ps_frames_in :: u64
  ps_frames_out :: u64
  ps_fcs_errors :: u64
  ps_short_frames :: u64
  ps_long_frames :: u64
  ps_aborts :: u64
  ps_unknown_protos :: u64
  ps_unknown_codes :: u64
  ps_ip_frames_in :: u64
  ps_ip_frames_dropped :: u64
  ps_ip_frames_out :: u64
  ps_ip_bytes_in :: u64
  ps_ip_bytes_out :: u64
  ps_tx_overflows :: u64
  ps_echo_replies :: u64
  ps_dns_requests :: u64
  ps_dns_acked :: u64
  ps_dns_naked :: u64

record ppp_fsm =
  fs_state :: ppp_state
  fs_next_id :: u8
  fs_last_req_id :: u8
  fs_restarts :: u8
  fs_failures :: u8
  fs_req_opts :: u8
  fs_restart_at_ms :: u32
  fs_timer_running :: bool

record 'x ppp_peer =
  pp_cfg :: ppp_config
  pp_stats :: ppp_stats
  pp_ip_sink :: "(u8 list \<Rightarrow> 'x \<Rightarrow> 'x) option"
  pp_ip_ctx :: 'x
  pp_lcp :: ppp_fsm
  pp_ipcp :: ppp_fsm
  pp_opened :: bool
  pp_now_ms :: u32
  pp_our_magic :: u32
  pp_peer_magic :: u32
  pp_peer_magic_valid :: bool
  pp_peer_asyncmap :: u32
  pp_peer_mru :: u16
  pp_peer_pcomp :: bool
  pp_peer_accomp :: bool
  pp_assigned_ip :: u32
  pp_assigned :: bool
  pp_tx_accm :: u32
  pp_rxbuf :: "u8 list"
  pp_in_frame :: bool
  pp_escaped :: bool
  pp_overlong :: bool
  pp_tx :: "u8 list"
  pp_tx_head :: u32
  pp_tx_tail :: u32

definition with_stats :: "(ppp_stats \<Rightarrow> ppp_stats) \<Rightarrow> 'x ppp_peer \<Rightarrow> 'x ppp_peer" where
  "with_stats g p = p\<lparr>pp_stats := g (pp_stats p)\<rparr>"

definition note_overflow :: "'x ppp_peer \<Rightarrow> 'x ppp_peer" where
  "note_overflow p = with_stats (\<lambda>t. t\<lparr>ps_tx_overflows := ps_tx_overflows t + 1\<rparr>) p"

section \<open>Transmit ring\<close>

definition tx_used :: "'x ppp_peer \<Rightarrow> nat" where
  "tx_used p = unat (pp_tx_head p - pp_tx_tail p)"

text \<open>The subtraction from the ring's size is in \<open>size_t\<close>.\<close>

definition tx_frame :: "u16 \<Rightarrow> u8 list \<Rightarrow> 'x ppp_peer \<Rightarrow> 'x ppp_peer" where
  "tx_frame proto info p =
     (case ppp_frame proto info (pp_tx_accm p) (2 * PPP_MAX_FRAME + 2) of
        None \<Rightarrow> note_overflow p
      | Some enc \<Rightarrow>
          if (of_nat (length enc) :: u64) > of_nat PPP_TX_RING - of_nat (tx_used p) then note_overflow p
          else with_stats (\<lambda>t. t\<lparr>ps_frames_out := ps_frames_out t + 1,
                             ps_tx_bytes := ps_tx_bytes t + of_nat (length enc)\<rparr>)
                 (p\<lparr>pp_tx := foldl (\<lambda>tx i. tx[unat (pp_tx_head p + of_nat i) mod PPP_TX_RING := enc ! i])
                             (pp_tx p) [0..<length enc],
                     pp_tx_head := pp_tx_head p + of_nat (length enc)\<rparr>))"

definition ppp_output_pending :: "'x ppp_peer \<Rightarrow> nat" where
  "ppp_output_pending p = tx_used p"

definition ppp_output_capacity :: "'x ppp_peer \<Rightarrow> nat" where
  "ppp_output_capacity p = (if tx_used p \<le> PPP_TX_RING then PPP_TX_RING - tx_used p else 0)"

definition ppp_output_byte :: "'x ppp_peer \<Rightarrow> u8 option \<times> 'x ppp_peer" where
  "ppp_output_byte p =
     (if pp_tx_head p = pp_tx_tail p then (None, p)
      else (Some (pp_tx p ! (unat (pp_tx_tail p) mod PPP_TX_RING)), p\<lparr>pp_tx_tail := pp_tx_tail p + 1\<rparr>))"

fun ppp_output :: "nat \<Rightarrow> 'x ppp_peer \<Rightarrow> u8 list \<times> 'x ppp_peer" where
  "ppp_output 0 p = ([], p)"
| "ppp_output (Suc cap) p =
     (case ppp_output_byte p of
        (None, p1) \<Rightarrow> ([], p1)
      | (Some b, p1) \<Rightarrow> let (bs, p2) = ppp_output cap p1 in (b # bs, p2))"

section \<open>Control packets\<close>

definition send_cp :: "u16 \<Rightarrow> u8 \<Rightarrow> u8 \<Rightarrow> u8 list \<Rightarrow> 'x ppp_peer \<Rightarrow> 'x ppp_peer" where
  "send_cp proto code pid data p =
     (let n = length data
      in if n + 4 > PPP_MRU_DEFAULT then note_overflow p
         else tx_frame proto ([code, pid, of_nat ((n + 4) div 256), of_nat ((n + 4) mod 256)] @ data) p)"

definition put_be32 :: "u32 \<Rightarrow> u8 list" where
  "put_be32 v = [ucast (shr v 24), ucast (shr v 16), ucast (shr v 8), ucast v]"

definition get_be32 :: "u8 list \<Rightarrow> u32" where
  "get_be32 o4 = shl (ucast (o4 ! 0)) 24 OR shl (ucast (o4 ! 1)) 16 OR shl (ucast (o4 ! 2)) 8 OR ucast (o4 ! 3)"

section \<open>The automaton's actions\<close>

definition fsm_for :: "u16 \<Rightarrow> 'x ppp_peer \<Rightarrow> ppp_fsm" where
  "fsm_for proto p = (if proto = PPP_PROTO_LCP then pp_lcp p else pp_ipcp p)"

definition on_fsm :: "u16 \<Rightarrow> (ppp_fsm \<Rightarrow> ppp_fsm) \<Rightarrow> 'x ppp_peer \<Rightarrow> 'x ppp_peer" where
  "on_fsm proto g p =
     (if proto = PPP_PROTO_LCP then p\<lparr>pp_lcp := g (pp_lcp p)\<rparr> else p\<lparr>pp_ipcp := g (pp_ipcp p)\<rparr>)"

definition go :: "u16 \<Rightarrow> ppp_state \<Rightarrow> 'x ppp_peer \<Rightarrow> 'x ppp_peer" where
  "go proto s p = on_fsm proto (\<lambda>f. f\<lparr>fs_state := s\<rparr>) p"

definition build_confreq :: "u16 \<Rightarrow> 'x ppp_peer \<Rightarrow> u8 list" where
  "build_confreq proto p =
     (if proto = PPP_PROTO_LCP then
        (if fs_req_opts (pp_lcp p) AND PPP_REQ_LCP_ASYNCMAP \<noteq> 0
         then [LCP_OPT_ASYNCMAP, 6] @ put_be32 0x00000000 else []) @
        (if fs_req_opts (pp_lcp p) AND PPP_REQ_LCP_MAGIC \<noteq> 0
         then [LCP_OPT_MAGIC, 6] @ put_be32 (pp_our_magic p) else [])
      else
        (if fs_req_opts (pp_ipcp p) AND PPP_REQ_IPCP_ADDRESS \<noteq> 0
         then [IPCP_OPT_ADDRESS, 6] @ put_be32 (cf_local_ip (pp_cfg p)) else []))"

definition restart_start :: "u16 \<Rightarrow> 'x ppp_peer \<Rightarrow> 'x ppp_peer" where
  "restart_start proto p =
     on_fsm proto (\<lambda>f. f\<lparr>fs_timer_running := True, fs_restart_at_ms := pp_now_ms p + PPP_RESTART_MS\<rparr>) p"

definition restart_stop :: "u16 \<Rightarrow> 'x ppp_peer \<Rightarrow> 'x ppp_peer" where
  "restart_stop proto p = on_fsm proto (\<lambda>f. f\<lparr>fs_timer_running := False\<rparr>) p"

definition irc :: "u16 \<Rightarrow> u8 \<Rightarrow> 'x ppp_peer \<Rightarrow> 'x ppp_peer" where
  "irc proto count p = on_fsm proto (\<lambda>f. f\<lparr>fs_restarts := count, fs_failures := PPP_MAX_FAILURE\<rparr>) p"

definition take_id :: "u16 \<Rightarrow> 'x ppp_peer \<Rightarrow> 'x ppp_peer" where
  "take_id proto p = on_fsm proto (\<lambda>f. f\<lparr>fs_last_req_id := fs_next_id f, fs_next_id := fs_next_id f + 1\<rparr>) p"

definition count_restart :: "u16 \<Rightarrow> 'x ppp_peer \<Rightarrow> 'x ppp_peer" where
  "count_restart proto p =
     on_fsm proto (\<lambda>f. if fs_restarts f \<noteq> 0 then f\<lparr>fs_restarts := fs_restarts f - 1\<rparr> else f) p"

definition scr :: "u16 \<Rightarrow> bool \<Rightarrow> 'x ppp_peer \<Rightarrow> 'x ppp_peer" where
  "scr proto fresh p =
     (let opts = build_confreq proto p;
          p1 = (if fresh then take_id proto p else p);
          p2 = send_cp proto PPP_CONF_REQ (fs_last_req_id (fsm_for proto p1)) opts p1
      in restart_start proto (count_restart proto p2))"

definition str :: "u16 \<Rightarrow> 'x ppp_peer \<Rightarrow> 'x ppp_peer" where
  "str proto p =
     (let p1 = take_id proto p;
          p2 = send_cp proto PPP_TERM_REQ (fs_last_req_id (fsm_for proto p1)) [] p1
      in restart_start proto (count_restart proto p2))"

definition sta :: "u16 \<Rightarrow> u8 \<Rightarrow> 'x ppp_peer \<Rightarrow> 'x ppp_peer" where
  "sta proto pid p = send_cp proto PPP_TERM_ACK pid [] p"

definition ipcp_start :: "'x ppp_peer \<Rightarrow> 'x ppp_peer" where
  "ipcp_start p =
     scr PPP_PROTO_IPCP True (irc PPP_PROTO_IPCP PPP_MAX_CONFIGURE
       (on_fsm PPP_PROTO_IPCP (\<lambda>f. f\<lparr>fs_state := PPP_S_REQSENT, fs_req_opts := PPP_REQ_IPCP_ADDRESS\<rparr>) p))"

definition tlu :: "u16 \<Rightarrow> 'x ppp_peer \<Rightarrow> 'x ppp_peer" where
  "tlu proto p =
     (if proto = PPP_PROTO_LCP then ipcp_start p
      else p\<lparr>pp_assigned_ip := cf_remote_ip (pp_cfg p), pp_assigned := True\<rparr>)"

definition tld :: "u16 \<Rightarrow> 'x ppp_peer \<Rightarrow> 'x ppp_peer" where
  "tld proto p =
     (if proto = PPP_PROTO_LCP
      then (restart_stop PPP_PROTO_IPCP (go PPP_PROTO_IPCP PPP_S_INITIAL p))\<lparr>pp_assigned := False\<rparr>
      else p\<lparr>pp_assigned := False\<rparr>)"

section \<open>Option negotiation\<close>

datatype opt_verdict = OPT_ACK | OPT_NAK "u8 list" | OPT_REJ

text \<open>The verdict on one option, with the option to suggest instead when it is \<open>OPT_NAK\<close>.\<close>

definition lcp_review :: "u8 list \<Rightarrow> 'x ppp_peer \<Rightarrow> opt_verdict \<times> 'x ppp_peer" where
  "lcp_review opt p =
     (let type = opt ! 0; olen = opt ! 1
      in if type = LCP_OPT_MRU then
           if olen \<noteq> 4 then (OPT_REJ, p)
           else
             let mru = shl (ucast (opt ! 2)) 8 OR ucast (opt ! 3) :: u16
             in if unat mru > PPP_MRU_DEFAULT then (OPT_NAK [LCP_OPT_MRU, 4, 5, 220], p)
                else (OPT_ACK, p\<lparr>pp_peer_mru := mru\<rparr>)
         else if type = LCP_OPT_ASYNCMAP then
           if olen \<noteq> 6 then (OPT_REJ, p) else (OPT_ACK, p\<lparr>pp_peer_asyncmap := get_be32 (drop 2 opt)\<rparr>)
         else if type = LCP_OPT_MAGIC then
           if olen \<noteq> 6 then (OPT_REJ, p)
           else
             let m = get_be32 (drop 2 opt)
             in if m = pp_our_magic p then
                  let alt = m XOR 0xa5a5a5a5; alt = (if alt = m then m + 1 else alt)
                  in (OPT_NAK ([LCP_OPT_MAGIC, 6] @ put_be32 alt), p)
                else (OPT_ACK, p\<lparr>pp_peer_magic := m, pp_peer_magic_valid := True\<rparr>)
         else if type = LCP_OPT_PCOMP then
           if olen \<noteq> 2 then (OPT_REJ, p) else (OPT_ACK, p\<lparr>pp_peer_pcomp := True\<rparr>)
         else if type = LCP_OPT_ACCOMP then
           if olen \<noteq> 2 then (OPT_REJ, p) else (OPT_ACK, p\<lparr>pp_peer_accomp := True\<rparr>)
         else (OPT_REJ, p))"

definition ipcp_review :: "u8 list \<Rightarrow> 'x ppp_peer \<Rightarrow> opt_verdict \<times> 'x ppp_peer" where
  "ipcp_review opt p =
     (let type = opt ! 0; olen = opt ! 1
      in if type = IPCP_OPT_ADDRESS then
           if olen \<noteq> 6 then (OPT_REJ, p)
           else if get_be32 (drop 2 opt) = cf_remote_ip (pp_cfg p) then (OPT_ACK, p)
           else (OPT_NAK ([IPCP_OPT_ADDRESS, 6] @ put_be32 (cf_remote_ip (pp_cfg p))), p)
         else if type = IPCP_OPT_DNS1 \<or> type = IPCP_OPT_DNS2 then
           if olen \<noteq> 6 then (OPT_REJ, p)
           else
             let p = with_stats (\<lambda>t. t\<lparr>ps_dns_requests := ps_dns_requests t + 1\<rparr>) p;
                 have_dns = (if type = IPCP_OPT_DNS1 then cf_dns1 (pp_cfg p) else cf_dns2 (pp_cfg p))
             in if get_be32 (drop 2 opt) = have_dns
                then (OPT_ACK, with_stats (\<lambda>t. t\<lparr>ps_dns_acked := ps_dns_acked t + 1\<rparr>) p)
                else (OPT_NAK ([type, 6] @ put_be32 have_dns),
                      with_stats (\<lambda>t. t\<lparr>ps_dns_naked := ps_dns_naked t + 1\<rparr>) p)
         else (OPT_REJ, p))"

datatype cr_result = CR_INVALID | CR_ACK | CR_NAK | CR_REJ

text \<open>
  The loop over the options: \<open>rest\<close> is what is not yet walked, \<open>rej\<close> and \<open>nak\<close> the two answers under
  construction. \<open>None\<close> is an option list that does not tile its length.
\<close>

function classify_loop ::
  "u16 \<Rightarrow> u8 list \<Rightarrow> u8 list \<Rightarrow> u8 list \<Rightarrow> 'x ppp_peer \<Rightarrow> (u8 list \<times> u8 list) option \<times> 'x ppp_peer" where
  "classify_loop proto rest rej nak p =
     (if rest = [] then (Some (rej, nak), p)
      else if length rest < 2 then (None, p)
      else
        let olen = unat (rest ! 1)
        in if olen < 2 \<or> olen > length rest then (None, p)
           else
             let (v, p1) = (if proto = PPP_PROTO_LCP then lcp_review (take olen rest) p
                            else ipcp_review (take olen rest) p);
                 rej1 = (if v = OPT_REJ \<and> length rej + olen \<le> PPP_MRU_DEFAULT then rej @ take olen rest else rej);
                 nak1 = (case v of OPT_NAK one \<Rightarrow>
                           if length nak + length one \<le> PPP_MRU_DEFAULT then nak @ one else nak
                         | _ \<Rightarrow> nak)
             in classify_loop proto (drop olen rest) rej1 nak1 p1)"
  by pat_completeness auto
termination by (relation "measure (\<lambda>(proto, rest, rej, nak, p). length rest)") auto

declare classify_loop.simps [simp del]

definition classify_confreq :: "u16 \<Rightarrow> u8 list \<Rightarrow> 'x ppp_peer \<Rightarrow> (cr_result \<times> u8 list) \<times> 'x ppp_peer" where
  "classify_confreq proto opts p =
     (case classify_loop proto opts [] [] p of
        (None, p1) \<Rightarrow> ((CR_INVALID, []), p1)
      | (Some (rej, nak), p1) \<Rightarrow>
          (if rej \<noteq> [] then (CR_REJ, rej) else if nak \<noteq> [] then (CR_NAK, nak) else (CR_ACK, opts), p1))"

function apply_nak :: "u16 \<Rightarrow> u8 list \<Rightarrow> 'x ppp_peer \<Rightarrow> 'x ppp_peer" where
  "apply_nak proto rest p =
     (if length rest < 2 then p
      else
        let type = rest ! 0; olen = unat (rest ! 1)
        in if olen < 2 \<or> olen > length rest then p
           else
             let v = get_be32 (drop 2 rest);
                 p1 = (if proto = PPP_PROTO_LCP then
                         if type = LCP_OPT_MAGIC \<and> olen = 6 then p\<lparr>pp_our_magic := v\<rparr> else p
                       else if type = IPCP_OPT_ADDRESS \<and> olen = 6
                            then p\<lparr>pp_cfg := (pp_cfg p)\<lparr>cf_local_ip := v\<rparr>\<rparr> else p)
             in apply_nak proto (drop olen rest) p1)"
  by pat_completeness auto
termination by (relation "measure (\<lambda>(proto, rest, p). length rest)") auto

declare apply_nak.simps [simp del]

definition drop_opt :: "u16 \<Rightarrow> u8 \<Rightarrow> 'x ppp_peer \<Rightarrow> 'x ppp_peer" where
  "drop_opt proto opt p = on_fsm proto (\<lambda>f. f\<lparr>fs_req_opts := fs_req_opts f AND NOT opt\<rparr>) p"

function apply_rej :: "u16 \<Rightarrow> u8 list \<Rightarrow> 'x ppp_peer \<Rightarrow> 'x ppp_peer" where
  "apply_rej proto rest p =
     (if length rest < 2 then p
      else
        let type = rest ! 0; olen = unat (rest ! 1)
        in if olen < 2 \<or> olen > length rest then p
           else
             let p1 = (if proto = PPP_PROTO_LCP then
                         if type = LCP_OPT_MAGIC then drop_opt proto PPP_REQ_LCP_MAGIC p
                         else if type = LCP_OPT_ASYNCMAP then drop_opt proto PPP_REQ_LCP_ASYNCMAP p else p
                       else if type = IPCP_OPT_ADDRESS then drop_opt proto PPP_REQ_IPCP_ADDRESS p else p)
             in apply_rej proto (drop olen rest) p1)"
  by pat_completeness auto
termination by (relation "measure (\<lambda>(proto, rest, p). length rest)") auto

declare apply_rej.simps [simp del]

section \<open>Events of the automaton\<close>

text \<open>What \<open>ev_rcr\<close> sends before its answer: our own request, when the link is (re)opened by it.\<close>

definition rcr_prelude :: "u16 \<Rightarrow> ppp_state \<Rightarrow> 'x ppp_peer \<Rightarrow> 'x ppp_peer" where
  "rcr_prelude proto entry p =
     (if entry = PPP_S_STOPPED then scr proto True (irc proto PPP_MAX_CONFIGURE p)
      else if entry = PPP_S_OPENED then scr proto True (irc proto PPP_MAX_CONFIGURE (tld proto p))
      else p)"

definition ev_rcr :: "u16 \<Rightarrow> u8 \<Rightarrow> u8 list \<Rightarrow> 'x ppp_peer \<Rightarrow> 'x ppp_peer" where
  "ev_rcr proto pid opts p =
     (let entry = fs_state (fsm_for proto p)
      in if entry = PPP_S_INITIAL \<or> entry = PPP_S_CLOSED then sta proto pid p
         else
           let ((r, resp), p1) = classify_confreq proto opts p
           in if r = CR_INVALID then p1
              else
                let good = (r = CR_ACK);
                    p2 = rcr_prelude proto entry p1;
                    p3 = send_cp proto (if r = CR_ACK then PPP_CONF_ACK else if r = CR_NAK then PPP_CONF_NAK
                                        else PPP_CONF_REJ) pid resp p2
                in if \<not> good \<and> fs_failures (fsm_for proto p3) = 0
                   then restart_stop proto (go proto PPP_S_STOPPED p3)
                   else
                     let p4 = (if good then p3
                               else on_fsm proto (\<lambda>f. f\<lparr>fs_failures := fs_failures f - 1\<rparr>) p3)
                     in if entry \<in> {PPP_S_STOPPED, PPP_S_OPENED, PPP_S_REQSENT, PPP_S_ACKSENT}
                        then go proto (if good then PPP_S_ACKSENT else PPP_S_REQSENT) p4
                        else if entry = PPP_S_ACKRCVD \<and> good
                        then tlu proto (restart_stop proto (go proto PPP_S_OPENED p4))
                        else p4)"

definition ev_rca :: "u16 \<Rightarrow> u8 \<Rightarrow> 'x ppp_peer \<Rightarrow> 'x ppp_peer" where
  "ev_rca proto pid p =
     (if pid \<noteq> fs_last_req_id (fsm_for proto p) then p
      else (case fs_state (fsm_for proto p) of
          PPP_S_CLOSED \<Rightarrow> sta proto pid p
        | PPP_S_STOPPED \<Rightarrow> sta proto pid p
        | PPP_S_REQSENT \<Rightarrow> go proto PPP_S_ACKRCVD (irc proto PPP_MAX_CONFIGURE p)
        | PPP_S_ACKRCVD \<Rightarrow> go proto PPP_S_REQSENT (scr proto True p)
        | PPP_S_ACKSENT \<Rightarrow> tlu proto (go proto PPP_S_OPENED (restart_stop proto (irc proto PPP_MAX_CONFIGURE p)))
        | PPP_S_OPENED \<Rightarrow> go proto PPP_S_REQSENT (scr proto True (tld proto p))
        | _ \<Rightarrow> p))"

definition ev_rcn :: "u16 \<Rightarrow> u8 \<Rightarrow> 'x ppp_peer \<Rightarrow> 'x ppp_peer" where
  "ev_rcn proto pid p =
     (if pid \<noteq> fs_last_req_id (fsm_for proto p) then p
      else (case fs_state (fsm_for proto p) of
          PPP_S_CLOSED \<Rightarrow> sta proto pid p
        | PPP_S_STOPPED \<Rightarrow> sta proto pid p
        | PPP_S_REQSENT \<Rightarrow> scr proto True (irc proto PPP_MAX_CONFIGURE p)
        | PPP_S_ACKSENT \<Rightarrow> scr proto True (irc proto PPP_MAX_CONFIGURE p)
        | PPP_S_ACKRCVD \<Rightarrow> go proto PPP_S_REQSENT (scr proto True p)
        | PPP_S_OPENED \<Rightarrow> go proto PPP_S_REQSENT (scr proto True (tld proto p))
        | _ \<Rightarrow> p))"

definition ev_rtr :: "u16 \<Rightarrow> u8 \<Rightarrow> 'x ppp_peer \<Rightarrow> 'x ppp_peer" where
  "ev_rtr proto pid p =
     (case fs_state (fsm_for proto p) of
        PPP_S_OPENED \<Rightarrow>
          restart_start proto (go proto PPP_S_STOPPING (sta proto pid
            (on_fsm proto (\<lambda>f. f\<lparr>fs_restarts := 0\<rparr>) (tld proto p))))
      | PPP_S_REQSENT \<Rightarrow> go proto PPP_S_REQSENT (sta proto pid p)
      | PPP_S_ACKRCVD \<Rightarrow> go proto PPP_S_REQSENT (sta proto pid p)
      | PPP_S_ACKSENT \<Rightarrow> go proto PPP_S_REQSENT (sta proto pid p)
      | _ \<Rightarrow> sta proto pid p)"

definition ev_rta :: "u16 \<Rightarrow> 'x ppp_peer \<Rightarrow> 'x ppp_peer" where
  "ev_rta proto p =
     (case fs_state (fsm_for proto p) of
        PPP_S_CLOSING \<Rightarrow> go proto PPP_S_CLOSED (restart_stop proto p)
      | PPP_S_STOPPING \<Rightarrow> go proto PPP_S_STOPPED (restart_stop proto p)
      | PPP_S_ACKRCVD \<Rightarrow> go proto PPP_S_REQSENT p
      | PPP_S_OPENED \<Rightarrow> go proto PPP_S_REQSENT (scr proto True (tld proto p))
      | _ \<Rightarrow> p)"

section \<open>Dispatch\<close>

definition send_code_reject :: "u16 \<Rightarrow> u8 list \<Rightarrow> 'x ppp_peer \<Rightarrow> 'x ppp_peer" where
  "send_code_reject proto data p =
     send_cp proto PPP_CODE_REJ (fs_next_id (fsm_for proto p)) data
       (on_fsm proto (\<lambda>f. f\<lparr>fs_next_id := fs_next_id f + 1\<rparr>) p)"

definition cp_input :: "u16 \<Rightarrow> u8 list \<Rightarrow> 'x ppp_peer \<Rightarrow> 'x ppp_peer" where
  "cp_input proto pkt p =
     (if length pkt < 4 then p
      else
        let code = pkt ! 0; pid = pkt ! 1; plen = unat (pkt ! 2) * 256 + unat (pkt ! 3)
        in if plen < 4 \<or> plen > length pkt then p
           else
             let data = take (plen - 4) (drop 4 pkt)
             in if code = PPP_CONF_REQ then ev_rcr proto pid data p
                else if code = PPP_CONF_ACK then ev_rca proto pid p
                else if code = PPP_CONF_NAK then
                  ev_rcn proto pid (if pid = fs_last_req_id (fsm_for proto p) then apply_nak proto data p else p)
                else if code = PPP_CONF_REJ then
                  ev_rcn proto pid (if pid = fs_last_req_id (fsm_for proto p) then apply_rej proto data p else p)
                else if code = PPP_TERM_REQ then ev_rtr proto pid p
                else if code = PPP_TERM_ACK then ev_rta proto p
                else if code = PPP_CODE_REJ \<or> code = PPP_PROTO_REJ then
                  let p1 = restart_stop proto (go proto PPP_S_STOPPED p)
                  in if proto = PPP_PROTO_LCP then tld PPP_PROTO_LCP p1 else p1
                else if code = PPP_ECHO_REQ then
                  if proto \<noteq> PPP_PROTO_LCP \<or> fs_state (fsm_for proto p) \<noteq> PPP_S_OPENED then p
                  else if length data < 4 then p
                  else
                    let reply = take PPP_MRU_DEFAULT data; reply = put_be32 (pp_our_magic p) @ drop 4 reply
                    in with_stats (\<lambda>t. t\<lparr>ps_echo_replies := ps_echo_replies t + 1\<rparr>)
                         (send_cp proto PPP_ECHO_REPLY pid reply p)
                else if code = PPP_ECHO_REPLY \<or> code = PPP_DISCARD_REQ then p
                else send_code_reject proto
                       (take (if plen > PPP_MRU_DEFAULT - 4 then PPP_MRU_DEFAULT - 4 else plen) pkt)
                       (with_stats (\<lambda>t. t\<lparr>ps_unknown_codes := ps_unknown_codes t + 1\<rparr>) p))"

definition ip_input :: "u8 list \<Rightarrow> 'x ppp_peer \<Rightarrow> 'x ppp_peer" where
  "ip_input dgram p0 =
     (let p = with_stats (\<lambda>t. t\<lparr>ps_ip_frames_in := ps_ip_frames_in t + 1,
                             ps_ip_bytes_in := ps_ip_bytes_in t + of_nat (length dgram)\<rparr>) p0
      in case pp_ip_sink p of
           Some sink \<Rightarrow>
             if fs_state (pp_ipcp p) = PPP_S_OPENED then p\<lparr>pp_ip_ctx := sink dgram (pp_ip_ctx p)\<rparr>
             else with_stats (\<lambda>t. t\<lparr>ps_ip_frames_dropped := ps_ip_frames_dropped t + 1\<rparr>) p
         | None \<Rightarrow> with_stats (\<lambda>t. t\<lparr>ps_ip_frames_dropped := ps_ip_frames_dropped t + 1\<rparr>) p)"

definition dispatch :: "u16 \<Rightarrow> u8 list \<Rightarrow> 'x ppp_peer \<Rightarrow> 'x ppp_peer" where
  "dispatch proto info p0 =
     (let p = with_stats (\<lambda>t. t\<lparr>ps_frames_in := ps_frames_in t + 1\<rparr>) p0
      in if proto = PPP_PROTO_LCP then cp_input PPP_PROTO_LCP info p
         else if proto = PPP_PROTO_IPCP then cp_input PPP_PROTO_IPCP info p
         else if proto = PPP_PROTO_IP then ip_input info p
         else
           let p1 = with_stats (\<lambda>t. t\<lparr>ps_unknown_protos := ps_unknown_protos t + 1\<rparr>) p
           in if fs_state (pp_lcp p1) = PPP_S_OPENED then
                send_cp PPP_PROTO_LCP PPP_PROTO_REJ (fs_next_id (pp_lcp p1))
                  ([ucast (shr proto 8), ucast (proto AND 0xff)] @ take (PPP_MRU_DEFAULT - 2) info)
                  (p1\<lparr>pp_lcp := (pp_lcp p1)\<lparr>fs_next_id := fs_next_id (pp_lcp p1) + 1\<rparr>\<rparr>)
              else p1)"

definition short_frame :: "'x ppp_peer \<Rightarrow> 'x ppp_peer" where
  "short_frame p = with_stats (\<lambda>t. t\<lparr>ps_short_frames := ps_short_frames t + 1\<rparr>) p"

definition frame_input :: "u8 list \<Rightarrow> 'x ppp_peer \<Rightarrow> 'x ppp_peer" where
  "frame_input f0 p =
     (if length f0 < 4 then short_frame p
      else if ppp_fcs16 PPP_FCS_INIT f0 \<noteq> PPP_FCS_GOOD
      then with_stats (\<lambda>t. t\<lparr>ps_fcs_errors := ps_fcs_errors t + 1\<rparr>) p
      else
        let f1 = take (length f0 - 2) f0;
            f = (if length f1 \<ge> 2 \<and> f1 ! 0 = PPP_ALLSTATIONS \<and> f1 ! 1 = PPP_UI then drop 2 f1 else f1)
        in if length f < 1 then short_frame p
           else if f ! 0 AND 1 \<noteq> 0 then dispatch (ucast (f ! 0)) (drop 1 f) p
           else if length f < 2 then short_frame p
           else dispatch (shl (ucast (f ! 0)) 8 OR ucast (f ! 1)) (drop 2 f) p)"

section \<open>Deframer\<close>

definition ppp_input_byte :: "u8 \<Rightarrow> 'x ppp_peer \<Rightarrow> 'x ppp_peer" where
  "ppp_input_byte byte p0 =
     (let p = with_stats (\<lambda>t. t\<lparr>ps_rx_bytes := ps_rx_bytes t + 1\<rparr>) p0
      in if byte = PPP_FLAG then
           let p1 = (if pp_escaped p then with_stats (\<lambda>t. t\<lparr>ps_aborts := ps_aborts t + 1\<rparr>) p
                     else if pp_in_frame p \<and> pp_rxbuf p \<noteq> [] then
                       if pp_overlong p then with_stats (\<lambda>t. t\<lparr>ps_long_frames := ps_long_frames t + 1\<rparr>) p
                       else frame_input (pp_rxbuf p) p
                     else p)
           in p1\<lparr>pp_rxbuf := [], pp_escaped := False, pp_overlong := False, pp_in_frame := True\<rparr>
         else if \<not> pp_in_frame p then p
         else if byte = PPP_ESCAPE then p\<lparr>pp_escaped := True\<rparr>
         else
           let (b, p2) = (if pp_escaped p then (byte XOR PPP_TRANS, p\<lparr>pp_escaped := False\<rparr>) else (byte, p))
           in if length (pp_rxbuf p2) \<ge> PPP_MAX_FRAME then p2\<lparr>pp_overlong := True\<rparr>
              else p2\<lparr>pp_rxbuf := pp_rxbuf p2 @ [b]\<rparr>)"

definition ppp_input :: "u8 list \<Rightarrow> 'x ppp_peer \<Rightarrow> 'x ppp_peer" where
  "ppp_input bytes p = foldl (\<lambda>p b. ppp_input_byte b p) p bytes"

section \<open>Timers and the interface\<close>

definition restart_timeout :: "u16 \<Rightarrow> 'x ppp_peer \<Rightarrow> 'x ppp_peer" where
  "restart_timeout proto p =
     (let f = fsm_for proto p; s = fs_state f
      in if fs_restarts f = 0 then
           let p1 = restart_stop proto p
           in if s = PPP_S_CLOSING then go proto PPP_S_CLOSED p1
              else if s \<in> {PPP_S_STOPPING, PPP_S_REQSENT, PPP_S_ACKRCVD, PPP_S_ACKSENT}
              then go proto PPP_S_STOPPED p1
              else p1
         else if s \<in> {PPP_S_CLOSING, PPP_S_STOPPING} then
           restart_start proto (on_fsm proto (\<lambda>f. f\<lparr>fs_restarts := fs_restarts f - 1\<rparr>)
             (send_cp proto PPP_TERM_REQ (fs_last_req_id f) [] p))
         else if s \<in> {PPP_S_REQSENT, PPP_S_ACKRCVD, PPP_S_ACKSENT} then scr proto False p
         else restart_stop proto p)"

definition ppp_tick :: "u32 \<Rightarrow> 'x ppp_peer \<Rightarrow> 'x ppp_peer" where
  "ppp_tick now p0 =
     (if now < pp_now_ms p0 then p0
      else
        let p = p0\<lparr>pp_now_ms := now\<rparr>;
            p1 = (if fs_timer_running (pp_lcp p) \<and> now \<ge> fs_restart_at_ms (pp_lcp p)
                  then restart_timeout PPP_PROTO_LCP p else p)
        in if fs_timer_running (pp_ipcp p1) \<and> now \<ge> fs_restart_at_ms (pp_ipcp p1)
           then restart_timeout PPP_PROTO_IPCP p1 else p1)"

definition ppp_config_default :: ppp_config where
  "ppp_config_default =
     \<lparr>cf_local_ip = 0x0a000202, cf_remote_ip = 0x0a00020f, cf_dns1 = 0x0a000203, cf_dns2 = 0x0a000203,
      cf_magic = 0x5335384c\<rparr>"

definition fsm_zero :: ppp_fsm where
  "fsm_zero =
     \<lparr>fs_state = PPP_S_INITIAL, fs_next_id = 1, fs_last_req_id = 0, fs_restarts = 0, fs_failures = 0,
      fs_req_opts = 0, fs_restart_at_ms = 0, fs_timer_running = False\<rparr>"

text \<open>\<open>ctx\<close> is the state of whoever will install a sink.\<close>

definition ppp_init :: "ppp_config option \<Rightarrow> 'x \<Rightarrow> 'x ppp_peer" where
  "ppp_init cfg ctx =
     (let c = (case cfg of Some c \<Rightarrow> c | None \<Rightarrow> ppp_config_default)
      in \<lparr>pp_cfg = c,
          pp_stats = \<lparr>ps_rx_bytes = 0, ps_tx_bytes = 0, ps_frames_in = 0, ps_frames_out = 0, ps_fcs_errors = 0,
            ps_short_frames = 0, ps_long_frames = 0, ps_aborts = 0, ps_unknown_protos = 0, ps_unknown_codes = 0,
            ps_ip_frames_in = 0, ps_ip_frames_dropped = 0, ps_ip_frames_out = 0, ps_ip_bytes_in = 0,
            ps_ip_bytes_out = 0, ps_tx_overflows = 0, ps_echo_replies = 0, ps_dns_requests = 0,
            ps_dns_acked = 0, ps_dns_naked = 0\<rparr>,
          pp_ip_sink = None, pp_ip_ctx = ctx, pp_lcp = fsm_zero, pp_ipcp = fsm_zero, pp_opened = False,
          pp_now_ms = 0, pp_our_magic = cf_magic c, pp_peer_magic = 0, pp_peer_magic_valid = False,
          pp_peer_asyncmap = 0xffffffff, pp_peer_mru = 1500, pp_peer_pcomp = False, pp_peer_accomp = False,
          pp_assigned_ip = 0, pp_assigned = False, pp_tx_accm = 0xffffffff, pp_rxbuf = [],
          pp_in_frame = False, pp_escaped = False, pp_overlong = False,
          pp_tx = replicate PPP_TX_RING 0, pp_tx_head = 0, pp_tx_tail = 0\<rparr>)"

definition ppp_set_ip_sink :: "(u8 list \<Rightarrow> 'x \<Rightarrow> 'x) option \<Rightarrow> 'x \<Rightarrow> 'x ppp_peer \<Rightarrow> 'x ppp_peer" where
  "ppp_set_ip_sink fn ctx p = p\<lparr>pp_ip_sink := fn, pp_ip_ctx := ctx\<rparr>"

definition ppp_send_ip :: "u8 list \<Rightarrow> 'x ppp_peer \<Rightarrow> bool \<times> 'x ppp_peer" where
  "ppp_send_ip pkt p =
     (if pkt = [] then (False, p)
      else if fs_state (pp_ipcp p) \<noteq> PPP_S_OPENED then (False, note_overflow p)
      else if length pkt > unat (pp_peer_mru p) then (False, note_overflow p)
      else
        let p1 = tx_frame PPP_PROTO_IP pkt p
        in if ps_frames_out (pp_stats p1) = ps_frames_out (pp_stats p) then (False, p1)
           else (True, with_stats (\<lambda>t. t\<lparr>ps_ip_frames_out := ps_ip_frames_out t + 1,
                                     ps_ip_bytes_out := ps_ip_bytes_out t + of_nat (length pkt)\<rparr>) p1))"

definition ppp_open :: "'x ppp_peer \<Rightarrow> 'x ppp_peer" where
  "ppp_open p =
     (if pp_opened p then p
      else
        let p1 = p\<lparr>pp_opened := True, pp_lcp := (pp_lcp p)\<lparr>fs_req_opts := PPP_REQ_LCP_MAGIC OR PPP_REQ_LCP_ASYNCMAP\<rparr>\<rparr>
        in scr PPP_PROTO_LCP True (go PPP_PROTO_LCP PPP_S_REQSENT (irc PPP_PROTO_LCP PPP_MAX_CONFIGURE p1)))"

definition ppp_close :: "'x ppp_peer \<Rightarrow> 'x ppp_peer" where
  "ppp_close p =
     (let p1 = p\<lparr>pp_opened := False\<rparr>;
          p2 = (if fs_state (pp_lcp p1) = PPP_S_OPENED then tld PPP_PROTO_LCP p1 else p1)
      in if fs_state (pp_lcp p2) = PPP_S_INITIAL \<or> fs_state (pp_lcp p2) = PPP_S_CLOSED
         then go PPP_PROTO_LCP PPP_S_CLOSED p2
         else str PPP_PROTO_LCP (go PPP_PROTO_LCP PPP_S_CLOSING (irc PPP_PROTO_LCP PPP_MAX_TERMINATE p2)))"

definition ppp_lcp_open :: "'x ppp_peer \<Rightarrow> bool" where
  "ppp_lcp_open p \<longleftrightarrow> fs_state (pp_lcp p) = PPP_S_OPENED"

definition ppp_ipcp_open :: "'x ppp_peer \<Rightarrow> bool" where
  "ppp_ipcp_open p \<longleftrightarrow> fs_state (pp_ipcp p) = PPP_S_OPENED"

definition ppp_phase_of :: "'x ppp_peer \<Rightarrow> ppp_phase" where
  "ppp_phase_of p =
     (let l = fs_state (pp_lcp p)
      in if l = PPP_S_CLOSING \<or> l = PPP_S_STOPPING then PPP_PHASE_TERMINATE
         else if fs_state (pp_ipcp p) = PPP_S_OPENED then PPP_PHASE_OPEN
         else if l = PPP_S_OPENED then PPP_PHASE_NETWORK
         else if l = PPP_S_INITIAL \<or> l = PPP_S_CLOSED then PPP_PHASE_DEAD
         else PPP_PHASE_ESTABLISH)"

end
