(* ===== verification/Ppp_Link.thy ===== *)
theory Ppp_Link
  imports Ppp
begin

text \<open>
  The line between two PPP peers. What a peer puts on the line is a sequence of whole frames, in the
  order it sent them, and a peer at the other end takes each of them apart again and dispatches exactly
  the packet that was framed.
\<close>

unbundle bit_operations_syntax

section \<open>Deframing a frame\<close>

text \<open>The deframer at the start of a frame or before the first flag.\<close>

definition between_frames :: "'x ppp_peer \<Rightarrow> bool" where
  "between_frames p \<longleftrightarrow> pp_rxbuf p = [] \<and> \<not> pp_escaped p \<and> \<not> pp_overlong p"

definition fed :: "nat \<Rightarrow> 'x ppp_peer \<Rightarrow> 'x ppp_peer" where
  "fed n p = with_stats (\<lambda>t. t\<lparr>ps_rx_bytes := ps_rx_bytes t + of_nat n\<rparr>) p"

lemma fed_0: "fed 0 p = p"
  by (simp add: fed_def with_stats_def)

lemma fed_fed: "fed m (fed n p) = fed (n + m) p"
  by (simp add: fed_def with_stats_def add.assoc)

lemma fed_fields [simp]:
  "pp_rxbuf (fed n p) = pp_rxbuf p" "pp_escaped (fed n p) = pp_escaped p"
  "pp_overlong (fed n p) = pp_overlong p" "pp_in_frame (fed n p) = pp_in_frame p"
  "fed n (p\<lparr>pp_rxbuf := b\<rparr>) = (fed n p)\<lparr>pp_rxbuf := b\<rparr>"
  "fed n (p\<lparr>pp_in_frame := u\<rparr>) = (fed n p)\<lparr>pp_in_frame := u\<rparr>"
  "fed n (p\<lparr>pp_escaped := u\<rparr>) = (fed n p)\<lparr>pp_escaped := u\<rparr>"
  by (simp_all add: fed_def with_stats_def)

lemma ppp_input_append: "ppp_input (xs @ ys) p = ppp_input ys (ppp_input xs p)"
  by (simp add: ppp_input_def)

lemma ppp_input_Cons: "ppp_input (x # xs) p = ppp_input xs (ppp_input_byte x p)"
  by (simp add: ppp_input_def)

lemma ppp_input_Nil: "ppp_input [] p = p"
  by (simp add: ppp_input_def)

lemma input_octet:
  assumes "pp_in_frame p" "\<not> pp_escaped p" "length (pp_rxbuf p) < PPP_MAX_FRAME"
  shows "ppp_input (escape accm c) p = (fed (length (escape accm c)) p)\<lparr>pp_rxbuf := pp_rxbuf p @ [c]\<rparr>"
proof (cases "needs_escape c accm")
  case True
  note esc = escaped_octet [OF True]
  let ?q = "(fed 1 p)\<lparr>pp_escaped := True\<rparr>"
  have "ppp_input_byte PPP_ESCAPE p = ?q"
    using assms by (simp add: ppp_input_byte_def Let_def fed_def with_stats_def)
  moreover have "ppp_input_byte (c XOR PPP_TRANS) ?q = (fed 2 p)\<lparr>pp_rxbuf := pp_rxbuf p @ [c]\<rparr>"
    using assms esc by (simp add: ppp_input_byte_def Let_def fed_def with_stats_def)
  ultimately show ?thesis using True by (simp add: escape_def ppp_input_Cons ppp_input_Nil numeral_2_eq_2)
next
  case False
  then show ?thesis
    using assms unescaped_octet [OF False]
    by (simp add: escape_def ppp_input_Cons ppp_input_Nil ppp_input_byte_def Let_def fed_def with_stats_def)
qed

lemma input_octets:
  assumes "pp_in_frame p" "\<not> pp_escaped p" "length (pp_rxbuf p) + length cs \<le> PPP_MAX_FRAME"
  shows "ppp_input (concat (map (escape accm) cs)) p =
    (fed (length (concat (map (escape accm) cs))) p)\<lparr>pp_rxbuf := pp_rxbuf p @ cs\<rparr>"
  using assms
proof (induction cs arbitrary: p)
  case Nil
  then show ?case by (simp add: ppp_input_Nil fed_0)
next
  case (Cons c cs)
  let ?q = "(fed (length (escape accm c)) p)\<lparr>pp_rxbuf := pp_rxbuf p @ [c]\<rparr>"
  have "ppp_input (escape accm c) p = ?q" using Cons.prems by (intro input_octet) auto
  then show ?case
    using Cons.prems Cons.IH [of ?q] by (simp add: ppp_input_append fed_fed)
qed

text \<open>The state in which the closing flag hands a frame up.\<close>

definition frame_ready :: "u8 list \<Rightarrow> nat \<Rightarrow> 'x ppp_peer \<Rightarrow> 'x ppp_peer" where
  "frame_ready body n p = (fed n p)\<lparr>pp_in_frame := True, pp_rxbuf := body\<rparr>"

definition frame_taken :: "'x ppp_peer \<Rightarrow> 'x ppp_peer" where
  "frame_taken p = p\<lparr>pp_rxbuf := [], pp_escaped := False, pp_overlong := False, pp_in_frame := True\<rparr>"

text \<open>
  What a frame is dispatched as: a high octet with its low bit set ends the protocol field (RFC 1661,
  section 2), so the low octet is then taken for the first of the packet.
\<close>

definition read_as :: "u16 \<Rightarrow> u8 list \<Rightarrow> u16 \<times> u8 list" where
  "read_as proto info =
     (if bit proto 8 then (shr proto 8, ucast (proto AND 0xff) # info) else (proto, info))"

lemma frame_input_body:
  "frame_input (frame_body proto info @ frame_fcs (frame_body proto info)) p =
   dispatch (fst (read_as proto info)) (snd (read_as proto info)) p"
proof -
  let ?hi = "ucast (shr proto 8) :: u8" and ?lo = "ucast (proto AND 0xff) :: u8"
  have m: "(0xff :: u16) = mask 8" by (simp add: mask_eq_exp_minus_1)
  have "bit ?hi 0 = bit proto 8" by (simp add: bit_simps)
  moreover have "?hi AND 1 = 0 \<longleftrightarrow> \<not> bit ?hi 0"
    by (simp add: and_one_eq bit_0 even_iff_mod_2_eq_zero odd_iff_mod_2_eq_one)
  ultimately have hi: "?hi AND 1 = 0 \<longleftrightarrow> \<not> bit proto 8" by (simp only:)
  have "shl (ucast ?hi) 8 OR ucast ?lo = proto"
    unfolding m by (rule bit_word_eqI) (auto simp: bit_simps)
  moreover have "(ucast ?hi :: u16) = shr proto 8"
    by (rule bit_word_eqI) (auto simp: bit_simps dest: bit_imp_le_length)
  moreover have "length (frame_fcs x) = 2" for x by (simp add: frame_fcs_def Let_def)
  moreover have "ppp_fcs16 PPP_FCS_INIT (PPP_ALLSTATIONS # PPP_UI # ?hi # ?lo # info @
      frame_fcs (PPP_ALLSTATIONS # PPP_UI # ?hi # ?lo # info)) = PPP_FCS_GOOD"
    using frame_residue [of "frame_body proto info"] by (simp add: frame_body_def)
  ultimately show ?thesis using hi by (simp add: frame_input_def frame_body_def read_as_def Let_def)
qed

lemma frame_arrives:
  assumes "ppp_frame proto info accm cap = Some enc" "between_frames p"
  shows "ppp_input enc p =
      frame_taken (dispatch (fst (read_as proto info)) (snd (read_as proto info))
        (frame_ready (frame_body proto info @ frame_fcs (frame_body proto info)) (length enc) p)) \<and>
    between_frames (ppp_input enc p)"
proof -
  let ?all = "frame_body proto info @ frame_fcs (frame_body proto info)"
  let ?esc = "concat (map (escape accm) ?all)"
  have enc: "enc = [PPP_FLAG] @ ?esc @ [PPP_FLAG]" and len: "length info \<le> PPP_MRU_DEFAULT"
    using assms(1) by (auto simp: ppp_frame_line line_frame_def Let_def split: if_splits)
  let ?q = "(fed 1 p)\<lparr>pp_in_frame := True\<rparr>"
  have flag: "ppp_input_byte PPP_FLAG p = ?q"
    using assms(2) by (simp add: ppp_input_byte_def between_frames_def fed_def with_stats_def Let_def)
  have size: "length ?all \<le> PPP_MAX_FRAME" using len by (simp add: frame_body_def frame_fcs_def Let_def)
  have ready: "ppp_input ?esc ?q = (fed (length ?esc) ?q)\<lparr>pp_rxbuf := ?all\<rparr>"
    using input_octets [of ?q ?all accm] size assms(2) by (simp add: between_frames_def)
  let ?r = "(fed (length ?esc) ?q)\<lparr>pp_rxbuf := ?all\<rparr>"
  have ne: "?all \<noteq> []" by (simp add: frame_body_def)
  have "ppp_input_byte PPP_FLAG ?r = frame_taken (frame_input ?all (fed 1 ?r))"
    using ne assms(2)
    by (simp add: ppp_input_byte_def between_frames_def fed_def with_stats_def Let_def frame_taken_def del: append_is_Nil_conv)
  also have "fed 1 ?r = frame_ready ?all (length enc) p"
    by (simp add: frame_ready_def fed_fed enc)
  finally have "ppp_input enc p = frame_taken (frame_input ?all (frame_ready ?all (length enc) p))"
    by (simp only: enc ppp_input_append ppp_input_Cons ppp_input_Nil flag ready)
  then show ?thesis by (simp add: frame_input_body between_frames_def frame_taken_def)
qed

text \<open>
  C32: What is framed is what is received. For every protocol number whose high octet is even, as RFC 1661
  requires of a two-octet protocol field, and whatever the packet and the control character map of the
  sender, a peer that is between two frames and is fed the encoded frame, octet by octet, dispatches
  exactly that packet under that protocol number, once, and is between two frames again; in particular no
  octet of the packet, the header or the check sequence is taken for a flag. An odd high octet is read as
  a one-octet protocol field, and the low octet as the first of the packet.
\<close>

theorem ppp_frame_received:
  assumes "ppp_frame proto info accm cap = Some enc" and "between_frames p"
    and "r = frame_ready (frame_body proto info @ frame_fcs (frame_body proto info)) (length enc) p"
  shows "ppp_input enc p = frame_taken
      (if bit proto 8 then dispatch (shr proto 8) (ucast (proto AND 0xff) # info) r else dispatch proto info r) \<and>
    between_frames (ppp_input enc p)"
proof -
  have d: "dispatch (fst (read_as proto info)) (snd (read_as proto info)) r =
      (if bit proto 8 then dispatch (shr proto 8) (ucast (proto AND 0xff) # info) r else dispatch proto info r)"
    by (simp add: read_as_def)
  show ?thesis by (rule frame_arrives [OF assms(1,2), folded assms(3), unfolded d])
qed

theorem ppp_frame_received_witness:
  "\<exists>enc. ppp_frame PPP_PROTO_IP [0x7e, 0x7d, 5] 0 20 = Some enc \<and>
     ppp_input enc (ppp_init None ()) = frame_taken (dispatch PPP_PROTO_IP [0x7e, 0x7d, 5]
       (frame_ready (frame_body PPP_PROTO_IP [0x7e, 0x7d, 5] @ frame_fcs (frame_body PPP_PROTO_IP [0x7e, 0x7d, 5]))
          (length enc) (ppp_init None ())))"
proof -
  have "length (line_frame 0 PPP_PROTO_IP [0x7e, 0x7d, 5]) \<le> 20"
    using line_frame_length [of 0 PPP_PROTO_IP "[0x7e, 0x7d, 5]"] by simp
  then have "ppp_frame PPP_PROTO_IP [0x7e, 0x7d, 5] 0 20 = Some (line_frame 0 PPP_PROTO_IP [0x7e, 0x7d, 5])"
    by (simp add: ppp_frame_line)
  moreover have "between_frames (ppp_init None ())"
    by (simp add: between_frames_def ppp_init_def Let_def)
  ultimately show ?thesis using ppp_frame_received [OF _ _ refl, where proto = PPP_PROTO_IP] by fastforce
qed

section \<open>The transmit ring as a queue\<close>

text \<open>The part of a peer that sending touches, and what sending one packet does to it.\<close>

type_synonym tx_state = "u32 \<times> u8 list \<times> u32 \<times> u32"

definition tx_view :: "'x ppp_peer \<Rightarrow> tx_state" where
  "tx_view p = (pp_tx_accm p, pp_tx p, pp_tx_head p, pp_tx_tail p)"

fun put :: "tx_state \<Rightarrow> u16 \<times> u8 list \<Rightarrow> tx_state" where
  "put (accm, tx, he, ta) (proto, info) =
     (case ppp_frame proto info accm (2 * PPP_MAX_FRAME + 2) of None \<Rightarrow> (accm, tx, he, ta)
      | Some enc \<Rightarrow>
          if (of_nat (length enc) :: u64) > of_nat PPP_TX_RING - of_nat (unat (he - ta)) then (accm, tx, he, ta)
          else (accm, foldl (\<lambda>tx i. tx[unat (he + of_nat i) mod PPP_TX_RING := enc ! i]) tx [0..<length enc],
                he + of_nat (length enc), ta))"

lemma tx_view_tx_frame: "tx_view (tx_frame proto info p) = put (tx_view p) (proto, info)"
  by (simp add: tx_view_def tx_frame_def tx_used_def note_overflow_def with_stats_def split: option.split)

definition tx_octets :: "tx_state \<Rightarrow> u8 list" where
  "tx_octets = (\<lambda>(accm, tx, he, ta).
     map (\<lambda>i. tx ! (unat (ta + of_nat i) mod PPP_TX_RING)) [0..<unat (he - ta)])"

definition tx_queue :: "'x ppp_peer \<Rightarrow> u8 list" where
  "tx_queue p = tx_octets (tx_view p)"

definition ring_ok :: "tx_state \<Rightarrow> bool" where
  "ring_ok = (\<lambda>(accm, tx, he, ta). length tx = PPP_TX_RING \<and> unat (he - ta) \<le> PPP_TX_RING)"

definition ring_low :: "tx_state \<Rightarrow> bool" where
  "ring_low = (\<lambda>(accm, tx, he, ta). ta \<le> he)"

definition ring_head :: "tx_state \<Rightarrow> nat" where
  "ring_head = (\<lambda>(accm, tx, he, ta). unat he)"

definition ring_used :: "tx_state \<Rightarrow> nat" where
  "ring_used = (\<lambda>(accm, tx, he, ta). unat (he - ta))"

lemma mod_window_inj:
  fixes a b R :: nat
  assumes "a mod R = b mod R" "a \<le> b" "b < a + R"
  shows "a = b"
  using assms mod_eq_dvd_iff_nat [of a b R] by (auto dest: dvd_imp_le)

lemma ring_write:
  fixes t u n :: nat
  assumes "u + n \<le> R" "length tx = R"
  shows "length (foldl (\<lambda>tx i. tx[(t + u + i) mod R := enc ! i]) tx [0..<n]) = R \<and>
    map (\<lambda>k. foldl (\<lambda>tx i. tx[(t + u + i) mod R := enc ! i]) tx [0..<n] ! ((t + k) mod R)) [0..<u + n] =
    map (\<lambda>k. tx ! ((t + k) mod R)) [0..<u] @ map ((!) enc) [0..<n]"
  using assms(1)
proof (induction n)
  case 0
  then show ?case using assms(2) by simp
next
  case (Suc n)
  let ?W = "foldl (\<lambda>tx i. tx[(t + u + i) mod R := enc ! i]) tx [0..<n]"
  have IH: "length ?W = R" "map (\<lambda>k. ?W ! ((t + k) mod R)) [0..<u + n] =
      map (\<lambda>k. tx ! ((t + k) mod R)) [0..<u] @ map ((!) enc) [0..<n]"
    using Suc by simp_all
  have R: "0 < R" using Suc.prems by simp
  have "(t + u + n) mod R \<noteq> (t + k) mod R" if "k < u + n" for k
    using mod_window_inj [of "t + k" R "t + u + n"] that Suc.prems by auto
  then have keep: "?W[(t + u + n) mod R := enc ! n] ! ((t + k) mod R) = ?W ! ((t + k) mod R)" if "k < u + n" for k
    using that by simp
  have new: "?W[(t + u + n) mod R := enc ! n] ! ((t + (u + n)) mod R) = enc ! n"
    using R by (simp add: IH(1) [unfolded add.assoc] add.assoc)
  have "map (\<lambda>k. ?W[(t + u + n) mod R := enc ! n] ! ((t + k) mod R)) [0..<u + n] =
      map (\<lambda>k. ?W ! ((t + k) mod R)) [0..<u + n]"
    by (intro map_cong refl) (simp only: keep set_upt atLeastLessThan_iff)
  then show ?case using IH new by simp
qed

lemma unat_add_of_nat: "unat h + n < 4294967296 \<Longrightarrow> unat (h + of_nat n) = unat h + n" for h :: u32
  by (simp add: unat_word_ariths unat_of_nat)

lemma unat_diff_le: "t \<le> h \<Longrightarrow> unat (h - t) = unat h - unat t" for h t :: u32
  by (rule unat_sub)

lemma tx_room:
  assumes "used \<le> PPP_TX_RING" "n < 4294967296"
  shows "(of_nat n :: u64) > of_nat PPP_TX_RING - of_nat used \<longleftrightarrow> PPP_TX_RING < used + n"
proof -
  have a: "(of_nat PPP_TX_RING - of_nat used :: u64) = of_nat (PPP_TX_RING - used)"
    using assms(1) by (simp add: of_nat_diff)
  have "unat (of_nat n :: u64) = n" "unat (of_nat (PPP_TX_RING - used) :: u64) = PPP_TX_RING - used"
    by (rule of_nat_inverse [OF refl], use assms(2) in \<open>simp add: PPP_TX_RING_def\<close>)+
  then show ?thesis using assms(1) unfolding a word_less_nat_alt by auto
qed

definition fits :: "tx_state \<Rightarrow> u16 \<times> u8 list \<Rightarrow> bool" where
  "fits v m \<longleftrightarrow> length (snd m) \<le> PPP_MRU_DEFAULT \<and>
     ring_used v + length (line_frame (fst v) (fst m) (snd m)) \<le> PPP_TX_RING"

text \<open>A packet is queued whole, behind what is queued, when it fits, and otherwise not at all.\<close>

lemma put_cases:
  assumes "ring_ok v"
  obtains (refused) "\<not> fits v m" "put v m = v"
  | (queued) "fits v m" "ring_ok (put v m)" "fst (put v m) = fst v"
      "ring_used (put v m) = ring_used v + length (line_frame (fst v) (fst m) (snd m))"
      "ring_low v \<Longrightarrow> ring_head v + length (line_frame (fst v) (fst m) (snd m)) < 4294967296 \<Longrightarrow>
         ring_low (put v m) \<and> ring_head (put v m) = ring_head v + length (line_frame (fst v) (fst m) (snd m)) \<and>
         tx_octets (put v m) = tx_octets v @ line_frame (fst v) (fst m) (snd m)"
proof -
  obtain accm tx he ta where v: "v = (accm, tx, he, ta)" by (cases v)
  obtain proto info where m: "m = (proto, info)" by (cases m)
  have ok: "length tx = PPP_TX_RING" "unat (he - ta) \<le> PPP_TX_RING" using assms by (simp_all add: ring_ok_def v)
  show ?thesis
  proof (cases "ppp_frame proto info accm (2 * PPP_MAX_FRAME + 2)")
    case None
    then have "\<not> fits v m"
      using line_frame_length [of accm proto info] by (auto simp: ppp_frame_line fits_def v m split: if_splits)
    then show ?thesis using None by (intro refused) (simp_all add: v m)
  next
    case (Some enc)
    have len: "length enc \<le> 3014" and mru: "length info \<le> PPP_MRU_DEFAULT" and enc: "enc = line_frame accm proto info"
      using Some by (auto simp: ppp_frame_line split: if_splits)
    then have room: "(of_nat (length enc) :: u64) > of_nat PPP_TX_RING - of_nat (unat (he - ta)) \<longleftrightarrow>
        PPP_TX_RING < unat (he - ta) + length enc"
      using ok(2) by (intro tx_room) auto
    show ?thesis
    proof (cases "PPP_TX_RING < unat (he - ta) + length enc")
      case True
      then have "\<not> fits v m" using enc by (simp add: fits_def ring_used_def v m)
      then show ?thesis using Some room True by (intro refused) (simp_all add: v m)
    next
      case False
      let ?tx = "foldl (\<lambda>tx i. tx[unat (he + of_nat i) mod PPP_TX_RING := enc ! i]) tx [0..<length enc]"
      have put: "put v m = (accm, ?tx, he + of_nat (length enc), ta)" using Some room False by (simp add: v m)
      have l: "length (foldl (\<lambda>tx i. tx[f i := enc ! i]) tx is) = length tx" for f "is"
        by (induction "is" arbitrary: tx) simp_all
      have "unat (he - ta) + length enc < 4294967296" using False by (simp add: PPP_TX_RING_def)
      then have used: "unat (he + of_nat (length enc) - ta) = unat (he - ta) + length enc"
        using unat_add_of_nat [of "he - ta" "length enc"] by (simp add: algebra_simps)
      have low: "ring_low (put v m) \<and> ring_head (put v m) = ring_head v + length enc \<and>
          tx_octets (put v m) = tx_octets v @ enc"
        if "ring_low v" "ring_head v + length enc < 4294967296"
      proof -
        have t: "ta \<le> he" "unat he + length enc < 4294967296" using that by (simp_all add: ring_low_def ring_head_def v)
        have h: "unat (he + of_nat (length enc)) = unat he + length enc" by (rule unat_add_of_nat [OF t(2)])
        have d: "unat (he - ta) = unat he - unat ta" "unat ta \<le> unat he"
          using t(1) by (simp_all add: unat_diff_le word_le_nat_alt)
        let ?u = "unat he - unat ta" and ?R = PPP_TX_RING
        have "unat (he + of_nat i) = unat ta + ?u + i" if "i < length enc" for i
          using that t d(2) by (simp add: unat_add_of_nat)
        then have tx: "?tx = foldl (\<lambda>tx i. tx[(unat ta + ?u + i) mod ?R := enc ! i]) tx [0..<length enc]"
          by (intro foldl_cong) auto
        have at: "unat (ta + of_nat k) = unat ta + k" if "k < ?u + length enc" for k
          using that t(2) d(2) by (intro unat_add_of_nat) simp
        have at_old: "unat (ta + of_nat k) = unat ta + k" if "k < ?u" for k
          using that by (intro at) simp
        have w: "map (\<lambda>k. ?tx ! ((unat ta + k) mod ?R)) [0..<?u + length enc] =
            map (\<lambda>k. tx ! ((unat ta + k) mod ?R)) [0..<?u] @ map ((!) enc) [0..<length enc]"
          unfolding tx using ring_write [of ?u "length enc" ?R tx "unat ta" enc] False d ok(1) by simp
        have "tx_octets (put v m) = map (\<lambda>k. ?tx ! (unat (ta + of_nat k) mod ?R)) [0..<?u + length enc]"
          unfolding put by (simp add: tx_octets_def used d)
        also have "\<dots> = map (\<lambda>k. ?tx ! ((unat ta + k) mod ?R)) [0..<?u + length enc]"
          by (intro map_cong refl) (simp only: at set_upt atLeastLessThan_iff)
        also have "\<dots> = tx_octets v @ enc"
          unfolding w by (simp add: tx_octets_def v d map_nth at_old cong: map_cong)
        moreover have "ta \<le> he + of_nat (length enc)" using d h by (simp add: word_le_nat_alt)
        ultimately show ?thesis unfolding put by (simp add: ring_low_def ring_head_def h v)
      qed
      have "ring_ok (put v m)" "fst (put v m) = fst v" "ring_used (put v m) = ring_used v + length enc"
        unfolding put using False by (simp_all add: ring_ok_def ring_used_def used l ok v)
      moreover have "fits v m" using False mru enc by (simp add: fits_def ring_used_def v m)
      moreover have "enc = line_frame (fst v) (fst m) (snd m)" using enc by (simp add: v m)
      ultimately show ?thesis using low by (intro queued) simp_all
    qed
  qed
qed

section \<open>Every operation appends whole packets\<close>

abbreviation control_proto :: "u16 \<Rightarrow> bool" where
  "control_proto proto \<equiv> proto = PPP_PROTO_LCP \<or> proto = PPP_PROTO_IPCP"

text \<open>\<open>q\<close> comes from \<open>p\<close> by sending control packets, in order.\<close>

definition extends :: "'x ppp_peer \<Rightarrow> 'x ppp_peer \<Rightarrow> bool" where
  "extends p q \<longleftrightarrow> (\<exists>msgs. (\<forall>m \<in> set msgs. control_proto (fst m)) \<and> tx_view q = foldl put (tx_view p) msgs)"

named_theorems extends_rules

lemma extends_refl [extends_rules]: "extends p p"
  unfolding extends_def by (intro exI [of _ "[]"]) simp

lemma extends_view: "extends p q \<Longrightarrow> tx_view r = tx_view q \<Longrightarrow> extends p r"
  by (simp add: extends_def)

lemma extends_trans: "extends p q \<Longrightarrow> extends q r \<Longrightarrow> extends p r"
  unfolding extends_def by (metis Un_iff foldl_append set_append)

lemma tx_view_frame [simp]:
  "tx_view (with_stats g p) = tx_view p" "tx_view (on_fsm proto h p) = tx_view p" "tx_view (go proto s p) = tx_view p"
  "tx_view (restart_start proto p) = tx_view p" "tx_view (restart_stop proto p) = tx_view p"
  "tx_view (irc proto c p) = tx_view p" "tx_view (take_id proto p) = tx_view p"
  "tx_view (count_restart proto p) = tx_view p" "tx_view (note_overflow p) = tx_view p"
  "tx_view (drop_opt proto b p) = tx_view p" "tx_view (tld proto p) = tx_view p"
  "tx_view (short_frame p) = tx_view p"
  by (simp_all add: tx_view_def with_stats_def on_fsm_def go_def restart_start_def restart_stop_def irc_def take_id_def
      count_restart_def note_overflow_def drop_opt_def tld_def short_frame_def)

lemma tx_view_fields [simp]:
  "tx_view (p\<lparr>pp_assigned := b\<rparr>) = tx_view p" "tx_view (p\<lparr>pp_assigned_ip := w\<rparr>) = tx_view p"
  "tx_view (p\<lparr>pp_opened := b\<rparr>) = tx_view p" "tx_view (p\<lparr>pp_lcp := f\<rparr>) = tx_view p"
  "tx_view (p\<lparr>pp_ipcp := f\<rparr>) = tx_view p" "tx_view (p\<lparr>pp_now_ms := w\<rparr>) = tx_view p"
  "tx_view (p\<lparr>pp_ip_ctx := x\<rparr>) = tx_view p" "tx_view (p\<lparr>pp_ip_sink := k\<rparr>) = tx_view p"
  "tx_view (p\<lparr>pp_rxbuf := bs\<rparr>) = tx_view p" "tx_view (p\<lparr>pp_in_frame := b\<rparr>) = tx_view p"
  "tx_view (p\<lparr>pp_escaped := b\<rparr>) = tx_view p" "tx_view (p\<lparr>pp_overlong := b\<rparr>) = tx_view p"
  by (simp_all add: tx_view_def)

lemma tx_view_review [simp]:
  "tx_view (snd (lcp_review opt p)) = tx_view p" "tx_view (snd (ipcp_review opt p)) = tx_view p"
  by (simp_all add: lcp_review_def ipcp_review_def Let_def with_stats_def tx_view_def)

lemma tx_view_classify_loop: "tx_view (snd (classify_loop proto rest rej nak p)) = tx_view p"
proof (induction proto rest rej nak p rule: classify_loop.induct)
  case (1 proto rest rej nak p)
  show ?case
    by (subst classify_loop.simps) (use 1 in \<open>auto simp: Let_def split_beta\<close>)
qed

lemma tx_view_classify [simp]: "tx_view (snd (classify_confreq proto opts p)) = tx_view p"
  using tx_view_classify_loop [of proto opts "[]" "[]" p]
  by (auto simp: classify_confreq_def split: prod.splits option.splits)

lemma tx_view_apply_nak [simp]: "tx_view (apply_nak proto rest p) = tx_view p"
proof (induction proto rest p rule: apply_nak.induct)
  case (1 proto rest p)
  show ?case by (subst apply_nak.simps) (use 1 in \<open>auto simp: Let_def tx_view_def\<close>)
qed

lemma tx_view_apply_rej [simp]: "tx_view (apply_rej proto rest p) = tx_view p"
proof (induction proto rest p rule: apply_rej.induct)
  case (1 proto rest p)
  show ?case by (subst apply_rej.simps) (use 1 in \<open>auto simp: Let_def\<close>)
qed

lemma extends_tx_frame [extends_rules]:
  assumes "extends p q" "control_proto proto"
  shows "extends p (tx_frame proto info q)"
proof -
  obtain msgs where "\<forall>m \<in> set msgs. control_proto (fst m)" "tx_view q = foldl put (tx_view p) msgs"
    using assms(1) by (auto simp: extends_def)
  then have "(\<forall>m \<in> set (msgs @ [(proto, info)]). control_proto (fst m)) \<and>
      tx_view (tx_frame proto info q) = foldl put (tx_view p) (msgs @ [(proto, info)])"
    using assms(2) by (simp add: tx_view_tx_frame)
  then show ?thesis unfolding extends_def by blast
qed

lemma extends_send_cp [extends_rules]:
  "extends p q \<Longrightarrow> control_proto proto \<Longrightarrow> extends p (send_cp proto code pid data q)"
  by (auto simp: send_cp_def Let_def intro: extends_rules extends_view)

lemma extends_local [extends_rules]:
  "extends p q \<Longrightarrow> extends p (with_stats g q)" "extends p q \<Longrightarrow> extends p (on_fsm proto h q)"
  "extends p q \<Longrightarrow> extends p (go proto s q)" "extends p q \<Longrightarrow> extends p (restart_start proto q)"
  "extends p q \<Longrightarrow> extends p (restart_stop proto q)" "extends p q \<Longrightarrow> extends p (irc proto c q)"
  "extends p q \<Longrightarrow> extends p (take_id proto q)" "extends p q \<Longrightarrow> extends p (count_restart proto q)"
  "extends p q \<Longrightarrow> extends p (tld proto q)" "extends p q \<Longrightarrow> extends p (note_overflow q)"
  "extends p q \<Longrightarrow> extends p (apply_nak proto rest q)" "extends p q \<Longrightarrow> extends p (apply_rej proto rest q)"
  "extends p q \<Longrightarrow> extends p (short_frame q)"
  by (erule extends_view, simp)+

lemma extends_field [extends_rules]:
  "extends p q \<Longrightarrow> extends p (q\<lparr>pp_assigned_ip := w, pp_assigned := b\<rparr>)"
  "extends p q \<Longrightarrow> extends p (q\<lparr>pp_opened := b\<rparr>)" "extends p q \<Longrightarrow> extends p (q\<lparr>pp_lcp := f\<rparr>)"
  "extends p q \<Longrightarrow> extends p (q\<lparr>pp_now_ms := n\<rparr>)" "extends p q \<Longrightarrow> extends p (q\<lparr>pp_ip_ctx := x\<rparr>)"
  "extends p q \<Longrightarrow> extends p (q\<lparr>pp_rxbuf := bs\<rparr>)" "extends p q \<Longrightarrow> extends p (q\<lparr>pp_escaped := b\<rparr>)"
  "extends p q \<Longrightarrow> extends p (q\<lparr>pp_overlong := b\<rparr>)"
  "extends p q \<Longrightarrow> extends p (q\<lparr>pp_opened := b, pp_lcp := f\<rparr>)"
  "extends p q \<Longrightarrow> extends p (q\<lparr>pp_rxbuf := bs, pp_escaped := b, pp_overlong := o1, pp_in_frame := o2\<rparr>)"
  by (erule extends_view, simp)+

lemma extends_scr [extends_rules]: "extends p q \<Longrightarrow> control_proto proto \<Longrightarrow> extends p (scr proto fresh q)"
  unfolding scr_def Let_def by (auto intro!: extends_rules)

lemma extends_actions [extends_rules]:
  "extends p q \<Longrightarrow> control_proto proto \<Longrightarrow> extends p (str proto q)"
  "extends p q \<Longrightarrow> control_proto proto \<Longrightarrow> extends p (sta proto pid q)"
  "extends p q \<Longrightarrow> control_proto proto \<Longrightarrow> extends p (tlu proto q)"
  unfolding str_def sta_def tlu_def ipcp_start_def Let_def by (auto intro!: extends_rules)

lemma extends_rcr_prelude [extends_rules]:
  "extends p q \<Longrightarrow> control_proto proto \<Longrightarrow> extends p (rcr_prelude proto entry q)"
  unfolding rcr_prelude_def by (auto intro!: extends_rules)

lemma extends_classify [extends_rules]: "extends p q \<Longrightarrow> extends p (snd (classify_confreq proto opts q))"
  by (erule extends_view, simp)

lemma extends_ev_rcr [extends_rules]: "extends p q \<Longrightarrow> control_proto proto \<Longrightarrow> extends p (ev_rcr proto pid opts q)"
  unfolding ev_rcr_def Let_def split_beta by (auto intro!: extends_rules)

lemma extends_events [extends_rules]:
  "extends p q \<Longrightarrow> control_proto proto \<Longrightarrow> extends p (ev_rca proto pid q)"
  "extends p q \<Longrightarrow> control_proto proto \<Longrightarrow> extends p (ev_rcn proto pid q)"
  "extends p q \<Longrightarrow> control_proto proto \<Longrightarrow> extends p (ev_rtr proto pid q)"
  "extends p q \<Longrightarrow> control_proto proto \<Longrightarrow> extends p (ev_rta proto q)"
  unfolding ev_rca_def ev_rcn_def ev_rtr_def ev_rta_def
  by (auto intro!: extends_rules split: ppp_state.split)

lemma extends_cp_input [extends_rules]:
  "extends p q \<Longrightarrow> control_proto proto \<Longrightarrow> extends p (cp_input proto pkt q)"
  unfolding cp_input_def Let_def send_code_reject_def by (auto intro!: extends_rules)

lemma extends_dispatch [extends_rules]: "extends p q \<Longrightarrow> extends p (dispatch proto info q)"
  unfolding dispatch_def Let_def ip_input_def by (auto intro!: extends_rules split: option.split)

lemma extends_frame_input [extends_rules]: "extends p q \<Longrightarrow> extends p (frame_input f q)"
  unfolding frame_input_def Let_def by (auto intro!: extends_rules)

lemma extends_restart_timeout [extends_rules]:
  "extends p q \<Longrightarrow> control_proto proto \<Longrightarrow> extends p (restart_timeout proto q)"
  unfolding restart_timeout_def Let_def by (auto intro!: extends_rules)

lemma extends_input_byte [extends_rules]: "extends p q \<Longrightarrow> extends p (ppp_input_byte b q)"
  unfolding ppp_input_byte_def Let_def split_beta by (auto intro!: extends_rules)

lemma extends_tick [extends_rules]: "extends p q \<Longrightarrow> extends p (ppp_tick now q)"
  unfolding ppp_tick_def Let_def by (auto intro!: extends_rules)

lemma extends_interface [extends_rules]:
  "extends p q \<Longrightarrow> extends p (ppp_open q)"
  "extends p q \<Longrightarrow> extends p (ppp_close q)"
  unfolding ppp_open_def ppp_close_def Let_def by (auto intro!: extends_rules)

lemma extends_set_ip_sink [extends_rules]: "extends p q \<Longrightarrow> extends p (ppp_set_ip_sink fn ctx q)"
  by (erule extends_view) (simp add: ppp_set_ip_sink_def)

section \<open>A session on the line\<close>

datatype 'x session_event = L_open | L_close | L_receive u8 | L_tick u32 | L_datagram "u8 list"
  | L_sink "(u8 list \<Rightarrow> 'x \<Rightarrow> 'x) option" 'x | L_take

text \<open>One event: the octet handed to the line, if any, and the new state.\<close>

fun line_step :: "'x session_event \<Rightarrow> 'x ppp_peer \<Rightarrow> u8 list \<times> 'x ppp_peer" where
  "line_step L_open p = ([], ppp_open p)"
| "line_step L_close p = ([], ppp_close p)"
| "line_step (L_receive b) p = ([], ppp_input_byte b p)"
| "line_step (L_tick now) p = ([], ppp_tick now p)"
| "line_step (L_datagram pkt) p = ([], snd (ppp_send_ip pkt p))"
| "line_step (L_sink fn ctx) p = ([], ppp_set_ip_sink fn ctx p)"
| "line_step L_take p =
     (case ppp_output_byte p of (None, q) \<Rightarrow> ([], q) | (Some b, q) \<Rightarrow> ([b], q))"

fun line_run :: "'x session_event list \<Rightarrow> 'x ppp_peer \<Rightarrow> u8 list \<times> 'x ppp_peer" where
  "line_run [] p = ([], p)"
| "line_run (e # es) p =
     (let (bs, q) = line_step e p; (rest, r) = line_run es q in (bs @ rest, r))"

definition frames_on_line :: "u32 \<Rightarrow> (u16 \<times> u8 list) list \<Rightarrow> u8 list" where
  "frames_on_line accm pkts = concat (map (\<lambda>(proto, info). line_frame accm proto info) pkts)"

definition framed :: "u16 \<times> u8 list \<Rightarrow> bool" where
  "framed m \<longleftrightarrow> length (snd m) \<le> PPP_MRU_DEFAULT \<and> (control_proto (fst m) \<or> fst m = PPP_PROTO_IP)"

text \<open>
  A datagram is taken when the network layer is up, it is not longer than the guest wants and its frame
  fits what is left of the ring. What a session sends: the datagrams that were taken, in order.
\<close>

definition sendable :: "'x ppp_peer \<Rightarrow> u8 list \<Rightarrow> bool" where
  "sendable p pkt \<longleftrightarrow> pkt \<noteq> [] \<and> fs_state (pp_ipcp p) = PPP_S_OPENED \<and>
     length pkt \<le> unat (pp_peer_mru p) \<and> length pkt \<le> PPP_MRU_DEFAULT \<and>
     length (line_frame (pp_tx_accm p) PPP_PROTO_IP pkt) \<le> ppp_output_capacity p"

fun datagrams_sent :: "'x session_event list \<Rightarrow> 'x ppp_peer \<Rightarrow> u8 list list" where
  "datagrams_sent [] p = []"
| "datagrams_sent (e # es) p =
     (case e of L_datagram pkt \<Rightarrow> if sendable p pkt then [pkt] else [] | _ \<Rightarrow> []) @
     datagrams_sent es (snd (line_step e p))"

definition datagrams_of :: "(u16 \<times> u8 list) list \<Rightarrow> u8 list list" where
  "datagrams_of pkts = map snd (filter (\<lambda>m. fst m = PPP_PROTO_IP) pkts)"

text \<open>What \<open>pkts\<close> adds to the ring \<open>v\<close> when the octet count does not pass $2^{32}$.\<close>

definition ring_step :: "tx_state \<Rightarrow> u8 list \<Rightarrow> u8 list \<Rightarrow> tx_state \<Rightarrow> bool" where
  "ring_step v outs ins w \<longleftrightarrow>
     ring_ok w \<and> fst w = fst v \<and> ring_used v + length ins = length outs + ring_used w \<and>
     (ring_low v \<and> ring_head v + length ins < 4294967296 \<longrightarrow>
        ring_low w \<and> ring_head w = ring_head v + length ins \<and> outs @ tx_octets w = tx_octets v @ ins)"

lemma ring_step_refl: "ring_ok v \<Longrightarrow> ring_step v [] [] v"
  by (simp add: ring_step_def)

lemma ring_step_trans:
  assumes "ring_step u o1 i1 v" "ring_step v o2 i2 w"
  shows "ring_step u (o1 @ o2) (i1 @ i2) w"
  using assms unfolding ring_step_def by auto

lemma put_ring_step:
  assumes "ring_ok v"
  shows "ring_step v [] (frames_on_line (fst v) (if fits v m then [m] else [])) (put v m)"
  by (rule put_cases [OF assms, of m])
    (auto simp: frames_on_line_def ring_step_refl [OF assms], auto simp: ring_step_def split_beta)

lemma datagrams_of_control: "list_all (\<lambda>m. control_proto (fst m)) pkts \<Longrightarrow> datagrams_of pkts = []"
  by (auto simp: datagrams_of_def list_all_iff filter_empty_conv)

lemma puts_ring_step:
  assumes "ring_ok v" "\<forall>m \<in> set msgs. control_proto (fst m)"
  shows "\<exists>pkts. list_all framed pkts \<and> datagrams_of pkts = [] \<and>
    ring_step v [] (frames_on_line (fst v) pkts) (foldl put v msgs)"
  using assms
proof (induction msgs arbitrary: v)
  case Nil
  then show ?case by (intro exI [of _ "[]"]) (simp add: frames_on_line_def datagrams_of_def ring_step_refl)
next
  case (Cons m msgs)
  let ?a = "if fits v m then [m] else []"
  have a: "ring_step v [] (frames_on_line (fst v) ?a) (put v m)" by (rule put_ring_step [OF Cons.prems(1)])
  have f: "list_all framed ?a" "datagrams_of ?a = []"
    using Cons.prems(2) by (auto simp: fits_def framed_def datagrams_of_def)
  have ok: "ring_ok (put v m)" "fst (put v m) = fst v" using a by (simp_all add: ring_step_def)
  obtain b where b: "list_all framed b" "datagrams_of b = []"
      "ring_step (put v m) [] (frames_on_line (fst v) b) (foldl put (put v m) msgs)"
    using Cons.IH [OF ok(1)] Cons.prems(2) ok(2) by auto
  then show ?case
    using f ring_step_trans [OF a b(3)] by (intro exI [of _ "?a @ b"]) (simp add: frames_on_line_def datagrams_of_def)
qed

lemma extends_ring_step:
  "extends p q \<Longrightarrow> ring_ok (tx_view p) \<Longrightarrow>
   \<exists>pkts. list_all framed pkts \<and> datagrams_of pkts = [] \<and>
     ring_step (tx_view p) [] (frames_on_line (pp_tx_accm p) pkts) (tx_view q)"
  using puts_ring_step [of "tx_view p"] by (auto simp: extends_def) (simp add: tx_view_def)

text \<open>Sending a datagram: the answer says whether it was queued.\<close>

lemma fits_capacity:
  "ring_ok (tx_view p) \<Longrightarrow> fits (tx_view p) (proto, info) \<longleftrightarrow> length info \<le> PPP_MRU_DEFAULT \<and>
     length (line_frame (pp_tx_accm p) proto info) \<le> ppp_output_capacity p"
  by (auto simp: fits_def ring_ok_def ring_used_def tx_view_def ppp_output_capacity_def tx_used_def)

lemma tx_frame_counted:
  assumes "ring_ok (tx_view p)"
  shows "ps_frames_out (pp_stats (tx_frame proto info p)) = ps_frames_out (pp_stats p) \<longleftrightarrow>
    \<not> fits (tx_view p) (proto, info)"
proof (cases "ppp_frame proto info (pp_tx_accm p) (2 * PPP_MAX_FRAME + 2)")
  case None
  then have "\<not> fits (tx_view p) (proto, info)"
    using line_frame_length [of "pp_tx_accm p" proto info] by (auto simp: ppp_frame_line fits_def tx_view_def split: if_splits)
  then show ?thesis using None by (simp add: tx_frame_def note_overflow_def with_stats_def)
next
  case (Some enc)
  have len: "length enc \<le> 3014" and enc: "enc = line_frame (pp_tx_accm p) proto info" "length info \<le> PPP_MRU_DEFAULT"
    using Some by (auto simp: ppp_frame_line split: if_splits)
  have used: "tx_used p \<le> PPP_TX_RING" using assms by (simp add: ring_ok_def tx_view_def tx_used_def)
  have "(of_nat (length enc) :: u64) > of_nat PPP_TX_RING - of_nat (tx_used p) \<longleftrightarrow> PPP_TX_RING < tx_used p + length enc"
    using len by (intro tx_room used) simp
  then show ?thesis
    using Some enc by (auto simp: tx_frame_def note_overflow_def with_stats_def fits_def ring_used_def tx_view_def tx_used_def)
qed

lemma view_accm: "fst (tx_view p) = pp_tx_accm p"
  by (simp add: tx_view_def)

lemma send_ip_answer:
  assumes "ring_ok (tx_view p)"
  shows "fst (ppp_send_ip pkt p) = sendable p pkt"
    "ring_step (tx_view p) [] (frames_on_line (pp_tx_accm p) (if sendable p pkt then [(PPP_PROTO_IP, pkt)] else []))
      (tx_view (snd (ppp_send_ip pkt p)))"
proof -
  show "fst (ppp_send_ip pkt p) = sendable p pkt"
    using tx_frame_counted [OF assms, of PPP_PROTO_IP pkt] fits_capacity [OF assms, of PPP_PROTO_IP pkt]
    by (auto simp: ppp_send_ip_def sendable_def Let_def)
  have "ring_step (tx_view p) [] (frames_on_line (pp_tx_accm p) (if fits (tx_view p) (PPP_PROTO_IP, pkt) then [(PPP_PROTO_IP, pkt)] else []))
      (tx_view (tx_frame PPP_PROTO_IP pkt p))"
    using put_ring_step [OF assms, of "(PPP_PROTO_IP, pkt)"]
    unfolding tx_view_tx_frame by (simp only: view_accm)
  then show "ring_step (tx_view p) [] (frames_on_line (pp_tx_accm p) (if sendable p pkt then [(PPP_PROTO_IP, pkt)] else []))
      (tx_view (snd (ppp_send_ip pkt p)))"
    using ring_step_refl [OF assms] fits_capacity [OF assms, of PPP_PROTO_IP pkt]
    by (auto simp: ppp_send_ip_def sendable_def Let_def frames_on_line_def)
qed

lemma output_ring_step:
  assumes "ring_ok (tx_view p)" "ppp_output_byte p = (Some b, q)"
  shows "ring_step (tx_view p) [b] [] (tx_view q)"
proof -
  have ne: "pp_tx_head p \<noteq> pp_tx_tail p" and b: "b = pp_tx p ! (unat (pp_tx_tail p) mod PPP_TX_RING)"
    and q: "q = p\<lparr>pp_tx_tail := pp_tx_tail p + 1\<rparr>"
    using assms(2) by (auto simp: ppp_output_byte_def split: if_splits)
  let ?u = "unat (pp_tx_head p - pp_tx_tail p)"
  have "pp_tx_head p - pp_tx_tail p \<noteq> 0" using ne by simp
  then have u: "unat (pp_tx_head p - (pp_tx_tail p + 1)) = ?u - 1" "0 < ?u"
    using unat_minus_one [of "pp_tx_head p - pp_tx_tail p"] by (simp_all add: algebra_simps unat_gt_0)
  then have "[0..<?u] = 0 # map Suc [0..<?u - 1]" by (simp add: upt_conv_Cons map_Suc_upt)
  then have "tx_octets (tx_view p) = b # tx_octets (tx_view q)"
    using u by (simp add: tx_octets_def tx_view_def q b comp_def add.assoc)
  moreover have "ring_low (tx_view p) \<Longrightarrow> ring_low (tx_view q)"
    using ne u by (auto simp: ring_low_def tx_view_def q word_le_nat_alt unat_sub_if' unat_word_ariths split: if_splits)
  ultimately show ?thesis
    using assms(1) u by (auto simp: ring_step_def ring_ok_def ring_used_def ring_head_def tx_view_def q)
qed

definition line_sends :: "u8 list list \<Rightarrow> 'x ppp_peer \<Rightarrow> u8 list \<Rightarrow> 'x ppp_peer \<Rightarrow> bool" where
  "line_sends ds p outs q \<longleftrightarrow> (\<exists>pkts. list_all framed pkts \<and> datagrams_of pkts = ds \<and>
     ring_step (tx_view p) outs (frames_on_line (pp_tx_accm p) pkts) (tx_view q))"

lemma line_sends_trans:
  assumes "line_sends a p o1 q" "line_sends b q o2 r"
  shows "line_sends (a @ b) p (o1 @ o2) r"
proof -
  obtain m where m: "list_all framed m" "datagrams_of m = a"
      "ring_step (tx_view p) o1 (frames_on_line (pp_tx_accm p) m) (tx_view q)"
    using assms(1) by (auto simp: line_sends_def)
  obtain n where n: "list_all framed n" "datagrams_of n = b"
      "ring_step (tx_view q) o2 (frames_on_line (pp_tx_accm q) n) (tx_view r)"
    using assms(2) by (auto simp: line_sends_def)
  have "pp_tx_accm q = pp_tx_accm p" using m(3) by (simp add: ring_step_def tx_view_def)
  then show ?thesis
    using m n ring_step_trans [OF m(3) n(3)] unfolding line_sends_def
    by (intro exI [of _ "m @ n"]) (simp add: frames_on_line_def datagrams_of_def)
qed

lemma line_sends_ok: "line_sends ds p outs q \<Longrightarrow> ring_ok (tx_view q)"
  by (auto simp: line_sends_def ring_step_def)

lemma line_sends_none: "ring_step (tx_view p) outs [] (tx_view q) \<Longrightarrow> line_sends [] p outs q"
  unfolding line_sends_def by (intro exI [of _ "[]"]) (simp add: frames_on_line_def datagrams_of_def)

lemma line_step_sends:
  assumes "ring_ok (tx_view p)" "line_step e p = (bs, q)"
  shows "line_sends (datagrams_sent [e] p) p bs q"
proof (cases e)
  case (L_datagram pkt)
  have "bs = []" "q = snd (ppp_send_ip pkt p)" using assms(2) L_datagram by auto
  then show ?thesis
    using send_ip_answer(2) [OF assms(1), of pkt] unfolding line_sends_def
    by (intro exI [of _ "if sendable p pkt then [(PPP_PROTO_IP, pkt)] else []"])
      (auto simp: L_datagram framed_def datagrams_of_def sendable_def)
next
  case L_take
  show ?thesis
  proof (cases "fst (ppp_output_byte p)")
    case None
    then have "bs = [] \<and> q = p" using L_take assms(2) by (auto simp: ppp_output_byte_def split: if_splits)
    then show ?thesis using L_take ring_step_refl [OF assms(1)] by (simp add: line_sends_none)
  next
    case (Some b)
    then have "ppp_output_byte p = (Some b, q)" "bs = [b]"
      using L_take assms(2) by (auto split: prod.splits)
    then show ?thesis using L_take output_ring_step [OF assms(1)] by (simp add: line_sends_none)
  qed
next
  case L_open
  then have "extends p q" "bs = []" using assms(2) by (auto intro: extends_rules)
  then show ?thesis using L_open extends_ring_step [OF _ assms(1)] by (simp add: line_sends_def)
next
  case L_close
  then have "extends p q" "bs = []" using assms(2) by (auto intro: extends_rules)
  then show ?thesis using L_close extends_ring_step [OF _ assms(1)] by (simp add: line_sends_def)
next
  case (L_receive b)
  then have "extends p q" "bs = []" using assms(2) by (auto intro: extends_rules)
  then show ?thesis using L_receive extends_ring_step [OF _ assms(1)] by (simp add: line_sends_def)
next
  case (L_tick now)
  then have "extends p q" "bs = []" using assms(2) by (auto intro: extends_rules)
  then show ?thesis using L_tick extends_ring_step [OF _ assms(1)] by (simp add: line_sends_def)
next
  case (L_sink fn ctx)
  then have "extends p q" "bs = []" using assms(2) by (auto intro: extends_rules)
  then show ?thesis using L_sink extends_ring_step [OF _ assms(1)] by (simp add: line_sends_def)
qed

lemma line_run_sends:
  assumes "ring_ok (tx_view p)" "line_run es p = (outs, q)"
  shows "line_sends (datagrams_sent es p) p outs q"
  using assms
proof (induction es arbitrary: p outs)
  case Nil
  then show ?case using ring_step_refl by (simp add: line_sends_none)
next
  case (Cons e es)
  obtain bs r where e: "line_step e p = (bs, r)" by fastforce
  obtain rest where es: "line_run es r = (rest, q)" "outs = bs @ rest"
    using Cons.prems(2) e by (auto split: prod.splits)
  note a = line_step_sends [OF Cons.prems(1) e]
  have "line_sends (datagrams_sent es r) r rest q" by (rule Cons.IH [OF line_sends_ok [OF a] es(1)])
  then show ?case using line_sends_trans [OF a] es(2) e by simp
qed

text \<open>A packet arriving in a frame from the line.\<close>

definition deliver :: "u32 \<Rightarrow> u16 \<times> u8 list \<Rightarrow> 'x ppp_peer \<Rightarrow> 'x ppp_peer" where
  "deliver accm m p =
     (let body = frame_body (fst m) (snd m)
      in frame_taken (dispatch (fst m) (snd m)
           (frame_ready (body @ frame_fcs body) (length (line_frame accm (fst m) (snd m))) p)))"

lemma framed_read_as: "framed m \<Longrightarrow> read_as (fst m) (snd m) = m"
  by (auto simp: framed_def read_as_def)

lemma input_frames:
  "list_all framed pkts \<Longrightarrow> between_frames q \<Longrightarrow>
   ppp_input (frames_on_line accm pkts) q = fold (deliver accm) pkts q"
proof (induction pkts arbitrary: q)
  case Nil
  then show ?case by (simp add: frames_on_line_def ppp_input_Nil)
next
  case (Cons m pkts)
  have f: "ppp_frame (fst m) (snd m) accm (length (line_frame accm (fst m) (snd m))) =
      Some (line_frame accm (fst m) (snd m))"
    using Cons.prems(1) by (simp add: ppp_frame_line framed_def)
  have m: "read_as (fst m) (snd m) = m" using Cons.prems(1) by (simp add: framed_read_as)
  note r = frame_arrives [OF f Cons.prems(2), unfolded m]
  then have d: "ppp_input (line_frame accm (fst m) (snd m)) q = deliver accm m q" by (simp add: deliver_def Let_def)
  have "ppp_input (frames_on_line accm pkts) (deliver accm m q) = fold (deliver accm) pkts (deliver accm m q)"
    using Cons.IH Cons.prems(1) r [THEN conjunct2, unfolded d] by simp
  then show ?case by (simp add: frames_on_line_def split_beta ppp_input_append d)
qed

lemma init_ring:
  "ring_ok (tx_view (ppp_init cfg ctx))" "ring_low (tx_view (ppp_init cfg ctx))" "ring_head (tx_view (ppp_init cfg ctx)) = 0"
  "ring_used (tx_view (ppp_init cfg ctx)) = 0" "tx_octets (tx_view (ppp_init cfg ctx)) = []"
  "pp_tx_accm (ppp_init cfg ctx) = 0xffffffff"
  by (simp_all add: ppp_init_def Let_def tx_view_def ring_ok_def ring_low_def ring_head_def ring_used_def tx_octets_def)

text \<open>
  C31: A line between two peers carries whole packets, in order. From a fresh peer, over any sequence of
  received octets, clock ticks, datagrams, administrative events and octets taken from it that queues
  fewer than $2^{32}$ octets, what was taken and what is still queued is a sequence of complete frames,
  none cut short by a full ring: LCP and IPCP packets and the datagrams, each of which is there, once and in
  order, when the network layer was up, it was no longer than the guest wants and its frame fitted the
  ring, and not otherwise; the caller is told which. A peer at the other end that is fed those octets
  dispatches exactly the packets framed, in that order.
\<close>

theorem line_carries_packets:
  assumes "line_run es (ppp_init cfg ctx) = (taken, p)" "length taken + length (tx_queue p) < 4294967296"
    and "between_frames q"
  shows "\<exists>pkts. list_all framed pkts \<and> taken @ tx_queue p = frames_on_line 0xffffffff pkts \<and>
    datagrams_of pkts = datagrams_sent es (ppp_init cfg ctx) \<and>
    (\<forall>pkt. fst (ppp_send_ip pkt p) = sendable p pkt) \<and>
    ppp_input (taken @ tx_queue p) q = fold (deliver 0xffffffff) pkts q"
proof -
  let ?p = "ppp_init cfg ctx"
  note sends = line_run_sends [OF init_ring(1) assms(1)]
  obtain pkts where pkts: "list_all framed pkts" "datagrams_of pkts = datagrams_sent es ?p"
      "ring_step (tx_view ?p) taken (frames_on_line 0xffffffff pkts) (tx_view p)"
    using sends by (auto simp: line_sends_def init_ring)
  have "length (tx_queue p) = ring_used (tx_view p)"
    by (simp add: tx_queue_def tx_octets_def ring_used_def split_beta)
  then have "taken @ tx_queue p = frames_on_line 0xffffffff pkts"
    using pkts(3) init_ring [of cfg ctx] assms(2) by (simp add: ring_step_def tx_queue_def)
  then show ?thesis
    using pkts(1,2) input_frames [OF pkts(1) assms(3)] send_ip_answer(1) [OF line_sends_ok [OF sends]] by metis
qed

theorem line_carries_packets_witness:
  "\<exists>taken p. line_run [L_open, L_take, L_take] (ppp_init None ()) = (taken, p) \<and>
     (\<exists>pkts. list_all framed pkts \<and> taken @ tx_queue p = frames_on_line 0xffffffff pkts \<and>
        datagrams_of pkts = [] \<and>
        ppp_input (taken @ tx_queue p) (ppp_init None ()) =
          fold (deliver 0xffffffff) pkts (ppp_init None () :: unit ppp_peer))"
proof -
  obtain taken p where r: "line_run [L_open, L_take, L_take] (ppp_init None ()) = (taken, p :: unit ppp_peer)"
    by fastforce
  have "ring_ok (tx_view p)" by (rule line_sends_ok [OF line_run_sends [OF init_ring(1) r]])
  then have "length (tx_queue p) \<le> PPP_TX_RING"
    by (auto simp: ring_ok_def tx_queue_def tx_octets_def split: prod.splits)
  moreover have "length taken \<le> 2"
    using r by (auto split: prod.splits option.splits)
  ultimately have "length taken + length (tx_queue p) < 4294967296" by (simp add: PPP_TX_RING_def)
  moreover have "between_frames (ppp_init None () :: unit ppp_peer)"
    by (simp add: between_frames_def ppp_init_def Let_def)
  moreover have "datagrams_sent [L_open, L_take, L_take] (ppp_init None () :: unit ppp_peer) = []" by simp
  ultimately show ?thesis using line_carries_packets [OF r] r by (metis (no_types, lifting))
qed

text \<open>
  Why the first $2^{32}$: the ring's size does not divide $2^{32}$, so when the counters pass it the slots
  start over at 0 in the middle of the ring. Two octets 41408 apart then share a slot, although the ring
  holds 96448.
\<close>

lemma tx_slots_shared:
  "41408 < PPP_TX_RING \<and>
   unat ((0xffff5e40 :: u32) + of_nat 0) mod PPP_TX_RING = unat ((0xffff5e40 :: u32) + of_nat 41408) mod PPP_TX_RING"
  by (simp add: PPP_TX_RING_def)

end
