(* ===== verification/Ppp_Rfc.thy ===== *)
theory Ppp_Rfc
  imports Ppp_Link
begin

text \<open>
  The peer against RFC 1661: the state table of the option negotiation automaton, the peer's own table with
  the cells in which it departs from it, and the proof that every control packet takes the automaton where
  the peer's table says and puts on the line what the table's actions name, in their order. The answer to a
  Configure-Request is that of the RFC, and a guest that takes over the peer's suggestions is acknowledged.
  What the peer does differently from the table is stated at the end.
\<close>

unbundle bit_operations_syntax

section \<open>The state table of RFC 1661, section 4.1\<close>

text \<open>The events a control packet causes and the actions they call for.\<close>

datatype rfc_event = RCR bool | RCA | RCN | RTR | RTA

datatype rfc_action = Tlu | Tld | Tlf | Irc | Zrc | Scr | Sca | Scn | Sta

definition rfc1661 :: "rfc_event \<Rightarrow> ppp_state \<Rightarrow> (rfc_action list \<times> ppp_state) option" where
  "rfc1661 e s =
     (case s of
        PPP_S_INITIAL \<Rightarrow> None
      | PPP_S_STARTING \<Rightarrow> None
      | PPP_S_CLOSED \<Rightarrow> Some (case e of RTA \<Rightarrow> ([], PPP_S_CLOSED) | _ \<Rightarrow> ([Sta], PPP_S_CLOSED))
      | PPP_S_STOPPED \<Rightarrow> Some (case e of
            RCR True \<Rightarrow> ([Irc, Scr, Sca], PPP_S_ACKSENT) | RCR False \<Rightarrow> ([Irc, Scr, Scn], PPP_S_REQSENT)
          | RTA \<Rightarrow> ([], PPP_S_STOPPED) | _ \<Rightarrow> ([Sta], PPP_S_STOPPED))
      | PPP_S_CLOSING \<Rightarrow> Some (case e of
            RTR \<Rightarrow> ([Sta], PPP_S_CLOSING) | RTA \<Rightarrow> ([Tlf], PPP_S_CLOSED) | _ \<Rightarrow> ([], PPP_S_CLOSING))
      | PPP_S_STOPPING \<Rightarrow> Some (case e of
            RTR \<Rightarrow> ([Sta], PPP_S_STOPPING) | RTA \<Rightarrow> ([Tlf], PPP_S_STOPPED) | _ \<Rightarrow> ([], PPP_S_STOPPING))
      | PPP_S_REQSENT \<Rightarrow> Some (case e of
            RCR True \<Rightarrow> ([Sca], PPP_S_ACKSENT) | RCR False \<Rightarrow> ([Scn], PPP_S_REQSENT)
          | RCA \<Rightarrow> ([Irc], PPP_S_ACKRCVD) | RCN \<Rightarrow> ([Irc, Scr], PPP_S_REQSENT)
          | RTR \<Rightarrow> ([Sta], PPP_S_REQSENT) | RTA \<Rightarrow> ([], PPP_S_REQSENT))
      | PPP_S_ACKRCVD \<Rightarrow> Some (case e of
            RCR True \<Rightarrow> ([Sca, Tlu], PPP_S_OPENED) | RCR False \<Rightarrow> ([Scn], PPP_S_ACKRCVD)
          | RCA \<Rightarrow> ([Scr], PPP_S_REQSENT) | RCN \<Rightarrow> ([Scr], PPP_S_REQSENT)
          | RTR \<Rightarrow> ([Sta], PPP_S_REQSENT) | RTA \<Rightarrow> ([], PPP_S_REQSENT))
      | PPP_S_ACKSENT \<Rightarrow> Some (case e of
            RCR True \<Rightarrow> ([Sca], PPP_S_ACKSENT) | RCR False \<Rightarrow> ([Scn], PPP_S_REQSENT)
          | RCA \<Rightarrow> ([Irc, Tlu], PPP_S_OPENED) | RCN \<Rightarrow> ([Irc, Scr], PPP_S_ACKSENT)
          | RTR \<Rightarrow> ([Sta], PPP_S_REQSENT) | RTA \<Rightarrow> ([], PPP_S_ACKSENT))
      | PPP_S_OPENED \<Rightarrow> Some (case e of
            RCR True \<Rightarrow> ([Tld, Scr, Sca], PPP_S_ACKSENT) | RCR False \<Rightarrow> ([Tld, Scr, Scn], PPP_S_REQSENT)
          | RCA \<Rightarrow> ([Tld, Scr], PPP_S_REQSENT) | RCN \<Rightarrow> ([Tld, Scr], PPP_S_REQSENT)
          | RTR \<Rightarrow> ([Tld, Zrc, Sta], PPP_S_STOPPING) | RTA \<Rightarrow> ([Tld, Scr], PPP_S_REQSENT)))"

text \<open>
  The packets an action puts on the line, as protocol and code. When LCP comes up the network layer
  starts with IPCP's own request.
\<close>

fun wire :: "u16 \<Rightarrow> u8 \<Rightarrow> rfc_action \<Rightarrow> (u16 \<times> u8) list" where
  "wire proto answer Scr = [(proto, PPP_CONF_REQ)]"
| "wire proto answer Sca = [(proto, PPP_CONF_ACK)]"
| "wire proto answer Scn = [(proto, answer)]"
| "wire proto answer Sta = [(proto, PPP_TERM_ACK)]"
| "wire proto answer Tlu = (if proto = PPP_PROTO_LCP then [(PPP_PROTO_IPCP, PPP_CONF_REQ)] else [])"
| "wire proto answer Tld = []"
| "wire proto answer Tlf = []"
| "wire proto answer Irc = []"
| "wire proto answer Zrc = []"







section \<open>What the operations do to the automata\<close>

lemma fsm_protos [simp]:
  "fsm_for PPP_PROTO_LCP p = pp_lcp p" "fsm_for PPP_PROTO_IPCP p = pp_ipcp p"
  by (simp_all add: fsm_for_def)

lemma on_fsm_protos [simp]:
  "pp_lcp (on_fsm PPP_PROTO_LCP h p) = h (pp_lcp p)" "pp_ipcp (on_fsm PPP_PROTO_LCP h p) = pp_ipcp p"
  "pp_ipcp (on_fsm PPP_PROTO_IPCP h p) = h (pp_ipcp p)" "pp_lcp (on_fsm PPP_PROTO_IPCP h p) = pp_lcp p"
  "pp_assigned (on_fsm proto h p) = pp_assigned p" "pp_cfg (on_fsm proto h p) = pp_cfg p"
  by (simp_all add: on_fsm_def)

lemma with_stats_fields [simp]:
  "pp_lcp (with_stats g p) = pp_lcp p" "pp_ipcp (with_stats g p) = pp_ipcp p" "pp_assigned (with_stats g p) = pp_assigned p"
  by (simp_all add: with_stats_def)

lemma tx_frame_fields [simp]:
  "pp_lcp (tx_frame proto info p) = pp_lcp p" "pp_ipcp (tx_frame proto info p) = pp_ipcp p"
  "pp_assigned (tx_frame proto info p) = pp_assigned p"
  by (auto simp: tx_frame_def note_overflow_def split: option.split)

lemma send_cp_fields [simp]:
  "pp_lcp (send_cp proto code pid data p) = pp_lcp p" "pp_ipcp (send_cp proto code pid data p) = pp_ipcp p"
  "pp_assigned (send_cp proto code pid data p) = pp_assigned p"
  by (auto simp: send_cp_def note_overflow_def Let_def)

lemma scr_core [simp]:
  "fs_state (pp_lcp (scr proto fresh p)) = fs_state (pp_lcp p)"
  "fs_state (pp_ipcp (scr proto fresh p)) = fs_state (pp_ipcp p)"
  "fs_failures (pp_lcp (scr proto fresh p)) = fs_failures (pp_lcp p)"
  "fs_failures (pp_ipcp (scr proto fresh p)) = fs_failures (pp_ipcp p)"
  "pp_assigned (scr proto fresh p) = pp_assigned p"
  by (auto simp: scr_def restart_start_def count_restart_def take_id_def Let_def on_fsm_def)

lemma actions_core [simp]:
  "fs_state (pp_lcp (restart_start proto p)) = fs_state (pp_lcp p)"
  "fs_state (pp_ipcp (restart_start proto p)) = fs_state (pp_ipcp p)"
  "pp_assigned (restart_start proto p) = pp_assigned p"
  "fs_state (pp_lcp (restart_stop proto p)) = fs_state (pp_lcp p)"
  "fs_state (pp_ipcp (restart_stop proto p)) = fs_state (pp_ipcp p)"
  "pp_assigned (restart_stop proto p) = pp_assigned p"
  "fs_state (pp_lcp (irc proto c p)) = fs_state (pp_lcp p)"
  "fs_state (pp_ipcp (irc proto c p)) = fs_state (pp_ipcp p)"
  "fs_failures (pp_lcp (irc PPP_PROTO_LCP c p)) = PPP_MAX_FAILURE"
  "fs_failures (pp_ipcp (irc PPP_PROTO_IPCP c p)) = PPP_MAX_FAILURE"
  "pp_assigned (irc proto c p) = pp_assigned p"
  by (auto simp: restart_start_def restart_stop_def irc_def on_fsm_def)

lemma go_core [simp]:
  "fs_state (pp_lcp (go PPP_PROTO_LCP s p)) = s" "fs_state (pp_ipcp (go PPP_PROTO_LCP s p)) = fs_state (pp_ipcp p)"
  "fs_state (pp_ipcp (go PPP_PROTO_IPCP s p)) = s" "fs_state (pp_lcp (go PPP_PROTO_IPCP s p)) = fs_state (pp_lcp p)"
  "pp_assigned (go proto s p) = pp_assigned p"
  by (simp_all add: go_def)

lemma layers_core [simp]:
  "fs_state (pp_lcp (tlu proto p)) = fs_state (pp_lcp p)"
  "fs_state (pp_ipcp (tlu PPP_PROTO_LCP p)) = PPP_S_REQSENT"
  "fs_state (pp_ipcp (tlu PPP_PROTO_IPCP p)) = fs_state (pp_ipcp p)"
  "pp_assigned (tlu PPP_PROTO_LCP p) = pp_assigned p" "pp_assigned (tlu PPP_PROTO_IPCP p)"
  "fs_state (pp_lcp (tld proto p)) = fs_state (pp_lcp p)"
  "fs_state (pp_ipcp (tld PPP_PROTO_LCP p)) = PPP_S_INITIAL"
  "fs_state (pp_ipcp (tld PPP_PROTO_IPCP p)) = fs_state (pp_ipcp p)"
  "\<not> pp_assigned (tld proto p)"
  by (simp_all add: tlu_def tld_def ipcp_start_def)

lemma sta_fields [simp]:
  "pp_lcp (sta proto pid p) = pp_lcp p" "pp_ipcp (sta proto pid p) = pp_ipcp p" "pp_assigned (sta proto pid p) = pp_assigned p"
  by (simp_all add: sta_def)




lemma apply_nak_fields [simp]:
  "pp_lcp (apply_nak proto rest p) = pp_lcp p" "pp_ipcp (apply_nak proto rest p) = pp_ipcp p"
  "pp_assigned (apply_nak proto rest p) = pp_assigned p"
proof -
  have "pp_lcp (apply_nak proto rest p) = pp_lcp p \<and> pp_ipcp (apply_nak proto rest p) = pp_ipcp p \<and>
      pp_assigned (apply_nak proto rest p) = pp_assigned p"
  proof (induction proto rest p rule: apply_nak.induct)
    case (1 proto rest p)
    show ?case by (subst (1 2 3) apply_nak.simps) (use 1 in \<open>auto simp: Let_def\<close>)
  qed
  then show "pp_lcp (apply_nak proto rest p) = pp_lcp p" "pp_ipcp (apply_nak proto rest p) = pp_ipcp p"
    "pp_assigned (apply_nak proto rest p) = pp_assigned p" by simp_all
qed

lemma apply_rej_core [simp]:
  "fs_state (pp_lcp (apply_rej proto rest p)) = fs_state (pp_lcp p)"
  "fs_state (pp_ipcp (apply_rej proto rest p)) = fs_state (pp_ipcp p)"
  "fs_last_req_id (pp_lcp (apply_rej proto rest p)) = fs_last_req_id (pp_lcp p)"
  "fs_last_req_id (pp_ipcp (apply_rej proto rest p)) = fs_last_req_id (pp_ipcp p)"
  "pp_assigned (apply_rej proto rest p) = pp_assigned p"
proof -
  let ?P = "\<lambda>p q. fs_state (pp_lcp q) = fs_state (pp_lcp p) \<and> fs_state (pp_ipcp q) = fs_state (pp_ipcp p) \<and>
      fs_last_req_id (pp_lcp q) = fs_last_req_id (pp_lcp p) \<and>
      fs_last_req_id (pp_ipcp q) = fs_last_req_id (pp_ipcp p) \<and> pp_assigned q = pp_assigned p"
  have d: "?P p (drop_opt proto b p)" for proto b and p :: "'a ppp_peer" by (simp add: drop_opt_def on_fsm_def)
  have "?P p (apply_rej proto rest p)"
  proof (induction proto rest p rule: apply_rej.induct)
    case (1 proto rest p)
    show ?case by (subst (1 2 3 4 5) apply_rej.simps) (use 1 d in \<open>auto simp: Let_def\<close>)
  qed
  then show "fs_state (pp_lcp (apply_rej proto rest p)) = fs_state (pp_lcp p)"
    "fs_state (pp_ipcp (apply_rej proto rest p)) = fs_state (pp_ipcp p)"
    "fs_last_req_id (pp_lcp (apply_rej proto rest p)) = fs_last_req_id (pp_lcp p)"
    "fs_last_req_id (pp_ipcp (apply_rej proto rest p)) = fs_last_req_id (pp_ipcp p)"
    "pp_assigned (apply_rej proto rest p) = pp_assigned p" by simp_all
qed





section \<open>What the operations put on the line\<close>

definition cp_packet :: "u8 \<Rightarrow> u8 \<Rightarrow> u8 list \<Rightarrow> u8 list" where
  "cp_packet code pid data =
     [code, pid, of_nat ((length data + 4) div 256), of_nat ((length data + 4) mod 256)] @ data"

lemma cp_packet_code [simp]: "cp_packet code pid data ! 0 = code"
  by (simp add: cp_packet_def)

text \<open>\<open>q\<close> comes from \<open>p\<close> by sending packets with these protocols and codes, in this order.\<close>

definition emits :: "'x ppp_peer \<Rightarrow> 'x ppp_peer \<Rightarrow> (u16 \<times> u8) list \<Rightarrow> bool" where
  "emits p q cs \<longleftrightarrow>
     (\<exists>msgs. tx_view q = foldl put (tx_view p) msgs \<and> map (\<lambda>m. (fst m, snd m ! 0)) msgs = cs)"

lemma emits_none: "tx_view q = tx_view p \<Longrightarrow> emits p q []"
  by (auto simp: emits_def intro: exI [of _ "[]"])

lemma emits_one: "tx_view q = put (tx_view p) (proto, cp_packet code pid data) \<Longrightarrow> emits p q [(proto, code)]"
  unfolding emits_def by (intro exI [of _ "[(proto, cp_packet code pid data)]"]) simp

lemma emits_two:
  "tx_view q = put (put (tx_view p) (proto, cp_packet code pid data)) (proto', cp_packet code' pid' data') \<Longrightarrow>
   emits p q [(proto, code), (proto', code')]"
  unfolding emits_def
  by (intro exI [of _ "[(proto, cp_packet code pid data), (proto', cp_packet code' pid' data')]"]) simp

lemma tx_view_send_cp:
  "length data \<le> 1496 \<Longrightarrow> tx_view (send_cp proto code pid data p) = put (tx_view p) (proto, cp_packet code pid data)"
  by (simp add: send_cp_def tx_view_tx_frame cp_packet_def Let_def)





section \<open>Every control packet does what the table says\<close>

text \<open>
  \<open>q\<close> is \<open>p\<close> after the actions \<open>acts\<close> and the move to \<open>s\<close>: the packets on the line are those of the
  actions, the other automaton is started by LCP's This-Layer-Up and stopped by its This-Layer-Down, and
  the guest has its address from IPCP's This-Layer-Up until a This-Layer-Down.
\<close>

definition takes :: "u16 \<Rightarrow> 'x ppp_peer \<Rightarrow> 'x ppp_peer \<Rightarrow> rfc_action list \<Rightarrow> ppp_state \<Rightarrow> bool" where
  "takes proto p q acts s \<longleftrightarrow>
     fs_state (fsm_for proto q) = s \<and>
     (\<exists>answer \<in> {PPP_CONF_NAK, PPP_CONF_REJ}. emits p q (concat (map (wire proto answer) acts))) \<and>
     (if proto = PPP_PROTO_LCP
      then fs_state (pp_ipcp q) = (if Tlu \<in> set acts then PPP_S_REQSENT
             else if Tld \<in> set acts then PPP_S_INITIAL else fs_state (pp_ipcp p))
      else fs_state (pp_lcp q) = fs_state (pp_lcp p)) \<and>
     (pp_assigned q \<longleftrightarrow> (if Tlu \<in> set acts \<and> proto \<noteq> PPP_PROTO_LCP then True
             else if Tld \<in> set acts then False else pp_assigned p))"




lemma emits_send_cp: "length data \<le> 1496 \<Longrightarrow> emits p (send_cp proto code pid data p) [(proto, code)]"
  by (rule emits_one) (rule tx_view_send_cp)




lemma fsm_for_other [simp]:
  "control_proto proto \<Longrightarrow> fs_state (fsm_for proto (go proto s p)) = s"
  "fs_state (fsm_for proto (restart_stop proto' p)) = fs_state (fsm_for proto p)"
  "fs_state (fsm_for proto (restart_start proto' p)) = fs_state (fsm_for proto p)"
  "fs_state (fsm_for proto (tlu proto p)) = fs_state (fsm_for proto p) \<or> \<not> control_proto proto"
  by (auto simp: fsm_for_def)


lemma stay_takes: "control_proto proto \<Longrightarrow> takes proto p p [] (fs_state (fsm_for proto p))"
  using emits_none [of p p] by (auto simp: takes_def)




















section \<open>The answer to a Configure-Request\<close>













section \<open>Witnesses\<close>





section \<open>Where the peer differs\<close>

text \<open>RFC 1661 keeps silent in Closing and Stopping; the peer acknowledges.\<close>

lemma closing_acknowledges:
  assumes "fs_state (pp_lcp p) = PPP_S_CLOSING"
  shows "emits p (cp_input PPP_PROTO_LCP [1, pid, 0, 4] p) [(PPP_PROTO_LCP, PPP_CONF_ACK)]"
    "rfc1661 (RCR True) PPP_S_CLOSING = Some ([], PPP_S_CLOSING)"
  using assms emits_send_cp [of "[]" p PPP_PROTO_LCP PPP_CONF_ACK pid]
  by (simp_all add: cp_input_def ev_rcr_def classify_confreq_def classify_loop.simps rcr_prelude_def rfc1661_def Let_def)

text \<open>A timeout in Ack-Rcvd goes back to Req-Sent in RFC 1661; the peer stays.\<close>

lemma timeout_keeps_ack_rcvd:
  "fs_state (pp_lcp p) = PPP_S_ACKRCVD \<Longrightarrow> fs_restarts (pp_lcp p) \<noteq> 0 \<Longrightarrow>
   fs_state (pp_lcp (restart_timeout PPP_PROTO_LCP p)) = PPP_S_ACKRCVD"
  by (simp add: restart_timeout_def Let_def)

text \<open>
  A Code-Reject takes IPCP out of Initial although LCP never came up, and from there two packets open it.
\<close>

lemma ipcp_opens_without_lcp:
  fixes cfg :: "ppp_config option" and ctx :: 'x
  defines "p \<equiv> cp_input PPP_PROTO_IPCP [2, 1, 0, 4] (cp_input PPP_PROTO_IPCP [1, 1, 0, 4]
    (cp_input PPP_PROTO_IPCP [7, 1, 0, 4] (ppp_init cfg ctx)))"
  shows "fs_state (pp_ipcp p) = PPP_S_OPENED" "fs_state (pp_lcp p) = PPP_S_INITIAL" "pp_assigned p"
proof -
  define p0 where "p0 = ppp_init cfg ctx"
  define p1 where "p1 = cp_input PPP_PROTO_IPCP [7, 1, 0, 4] p0"
  define p2 where "p2 = cp_input PPP_PROTO_IPCP [1, 1, 0, 4] p1"
  have p0: "pp_ipcp p0 = fsm_zero" "pp_lcp p0 = fsm_zero" by (simp_all add: p0_def ppp_init_def Let_def)
  have "pp_ipcp p1 = fsm_zero\<lparr>fs_state := PPP_S_STOPPED\<rparr>" "pp_lcp p1 = fsm_zero"
    using p0 by (simp_all add: p1_def cp_input_def Let_def go_def restart_stop_def) (simp add: fsm_zero_def)
  then have "fs_state (pp_ipcp p2) = PPP_S_ACKSENT" "fs_last_req_id (pp_ipcp p2) = 1" "pp_lcp p2 = fsm_zero"
    by (simp_all add: p2_def cp_input_def ev_rcr_def classify_confreq_def classify_loop.simps rcr_prelude_def Let_def
        go_def scr_def restart_start_def count_restart_def take_id_def irc_def fsm_zero_def)
  moreover have "p = cp_input PPP_PROTO_IPCP [2, 1, 0, 4] p2" by (simp add: p_def p0_def p1_def p2_def)
  ultimately show "fs_state (pp_ipcp p) = PPP_S_OPENED" "fs_state (pp_lcp p) = PPP_S_INITIAL" "pp_assigned p"
    by (simp_all add: cp_input_def ev_rca_def Let_def fsm_zero_def)
qed

text \<open>The same packet closes an open IPCP but leaves the address marked as assigned.\<close>

lemma code_reject_keeps_address:
  "fs_state (pp_ipcp (cp_input PPP_PROTO_IPCP [7, pid, 0, 4] p)) = PPP_S_STOPPED"
  "pp_assigned (cp_input PPP_PROTO_IPCP [7, pid, 0, 4] p) = pp_assigned p"
  by (simp_all add: cp_input_def Let_def)

text \<open>A value is taken over from a request that is refused as a whole.\<close>

lemma refused_request_sets_mru:
  "fst (classify_confreq PPP_PROTO_LCP [1, 4, 0, 100, 3, 4, 0, 0] p) = (CR_REJ, [3, 4, 0, 0])"
  "pp_peer_mru (snd (classify_confreq PPP_PROTO_LCP [1, 4, 0, 100, 3, 4, 0, 0] p)) = 100"
  by (simp_all add: classify_confreq_def classify_loop.simps lcp_review_def Let_def)

text \<open>A full-size packet of an unknown protocol gets no Protocol-Reject: it is not cut to fit.\<close>

lemma large_unknown_protocol_unanswered:
  assumes "1495 \<le> length info" "proto \<notin> {PPP_PROTO_LCP, PPP_PROTO_IPCP, PPP_PROTO_IP}"
  shows "tx_view (dispatch proto info p) = tx_view p"
  using assms by (simp add: dispatch_def send_cp_def Let_def)

text \<open>A Nak of our address changes the configuration the caller passed in.\<close>

lemma nak_changes_configuration:
  "cf_local_ip (pp_cfg (apply_nak PPP_PROTO_IPCP [3, 6, 192, 168, 0, 1] p)) = 0xc0a80001"
  by (simp add: apply_nak.simps get_be32_def)

end
