(* ===== verification/Spec2Isabelle.thy ===== *)
theory Spec2Isabelle
  imports Mmu_Tlb Step_Inv Ram_Watch Alu_Props Exceptions Vic Timer Power_Gates
    Img3 Lzss Devicetree
    Machine_Run Ppp_Rfc
begin

text \<open>
  S5LBox emulates the Samsung S5L8900, the system on a chip of the first iPhones, well enough to boot
  its firmware. This development models the emulator's own core, core/src and core/include, and proves
  what makes each part correct. It is a shallow embedding: one definition per function of the C
  sources, with the same name where HOL allows it, and explicit state passing.

  \<^bold>\<open>The program.\<close> The processor (\<open>arm_interp.c\<close>, \<open>mmu.c\<close>, \<open>vfp.c\<close>) executes one instruction per
  \<open>arm_step\<close> and reaches memory through callbacks, the \<open>arm_bus_t\<close>. The machine (\<open>machine.c\<close>) provides
  that bus: RAM, the devices of core/src/soc in their windows, and stub windows for what is not
  emulated. It also turns CPU ticks into device time (\<open>s5l8900_tick\<close>), recomputes every interrupt line
  (\<open>s5l8900_refresh\<close>), and decides how long Wait For Interrupt may sleep. The firmware readers of
  core/src/firmware unpack the images that are booted. The peer of core/src/net answers the guest's PPP
  over a UART, so that the guest has a network.

  \<^bold>\<open>Conventions.\<close> A C integer is a word of its width (\<open>u8\<close> to \<open>u64\<close>, Prelude), so that \<open>+\<close> wraps as in C; a loop index
  or a size that cannot wrap is a \<open>nat\<close>. A struct is a record, an enum a datatype. A function that
  changes an object returns it. A pointer argument that may be NULL is an option where the code tests
  it. An access outside a buffer is \<open>None\<close> in the parsers, so that memory safety is a theorem and not a
  convention. Status codes are datatypes with the constructors of the source.

  \<^bold>\<open>The processor.\<close>
  \<^item> Cpu_State and Cpu_Modes: \<open>arm.h\<close> and the helpers of \<open>arm_interp.c\<close> that all instructions share, among
    them the register banks and \<open>take_exception\<close>. Mem_Access: the data accessors behind the MEM macros.
  \<^item> Mmu: \<open>mmu.c\<close>. Mmu_Spec states the architectural translation on decoded descriptors and proves that
    the walk refines it; Mmu_Tlb proves that the software TLB and the captured RAM windows never answer
    differently from a walk, and how a flush restores that.
  \<^item> Alu, Exec_Alu, Exec_Media, Exec_Mem, Cp15, Thumb: the instruction groups, every encoding that the
    source decodes. Step: \<open>arm_step\<close> with interrupts, fetch, the unconditional space and the tail.
    Alu_Props relates the adder, the shifter and the condition codes to arithmetic.
  \<^item> Frame says what an instruction may leave behind; on it rest User_Mode (a User program cannot touch
    privileged state except by entering a handler), Precise (a refused or aborted instruction leaves the
    interrupted program restartable), Exceptions (entry and return are inverse) and Step_Inv (the
    invariant of the core between steps, as a transition system with rule induction). Harness is the
    concrete machine of the witnesses.

  \<^bold>\<open>The devices and the machine.\<close>
  \<^item> Vic, Timer, Power_Gates, Uart, Spi, Pl080, Gpioic, Gpio_Pins, Buttons: one theory per file of
    core/src/soc (\<open>gpioic.c\<close> holds two devices). Ram_Watch is \<open>arm_ram_watch.c\<close>.
  \<^item> Address_Map, Machine_Bus, Machine_Ram, Machine_Tick: \<open>machine.c\<close>. The bus calls the devices above as
    the code calls them; Machine_Ram proves that what is behind it is memory and runs the DMA controller
    on it; Machine_Tick composes all the devices in one refresh.
  \<^item> Machine_Clock and Machine_Run: the rest of \<open>machine.c\<close>. The active host clock with its setters; then the
    bus of the processor, the filter of the pre-step hook, the batches of instructions between device
    ticks, the powered-down wait and \<open>s5l8900_run\<close>. Processor and machine are one record there (\<open>system\<close>): the
    machine is the platform state of the CPU, and the two interrupt inputs are copied where the code
    writes them. It is the build without \<open>S5LBOX_STATIC_A64_ENGINE\<close>.
  \<^item> The lemmas show: interrupts are routed once and in priority order; the timer's closed forms equal
    single ticks, and its predicted deadline is the first raising tick; bytes cross the UART, the SPI and
    a DMA channel in order and none is lost or invented; the GPIO controller is 224 independent lines;
    every accepted transition of a button has an interrupt of its own and stays on the pin until the next
    one is accepted; the address map stays disjoint;
    a store is read back; a host pointer into RAM agrees with the bus; no time is lost by the way it is
    cut into ticks; a wait ends at the first edge and never passes it; a GPIO line reaches
    the CPU; a tick of the host clock is within what the retired work, the idle time, one slice and the
    host time allow; the run loop ends.

  \<^bold>\<open>The firmware readers.\<close> Aes (\<open>aes.c\<close>), Bytes and Img3 (\<open>img3.c\<close>), Lzss (\<open>lzss.c\<close>), Devicetree
  (\<open>devicetree.c\<close>). The lemmas show that no input makes a reader leave its buffer, that decryption undoes
  encryption, and that each reader computes the meaning of what an encoder of its format writes.

  \<^bold>\<open>The PPP peer\<close> (\<open>ppp.c\<close>, all of it).
  \<^item> Ppp_Frame: the frame check sequence, octet stuffing and the deframer. Ppp: the peer as one record, the
    transmit ring, option negotiation, the ten automaton states with one function per event, the dispatch
    of a frame, the timers and the calls of \<open>ppp.h\<close>.
  \<^item> Ppp_Link: any packet that is encoded and fed back octet by octet, in any escaping, is dispatched once
    and unchanged; only whole frames leave the ring, among them every datagram that was taken, and what one
    peer sends another one dispatches in order. Ppp_Rfc: the state table and the packet checks of RFC 1661
    as an independent definition, and the peer's own table, total over states and events; every packet
    does what the peer's table says, which is the RFC's but for the cells \<open>departs\<close> lists and the two
    states in which the RFC expects no packet. A Configure-Request is answered by a Reject of
    exactly the refused options, else by a Nak with our suggestions, else by an Ack.
  \<^item> The statements on the line hold for the first \<open>2 ^ 32\<close> octets of a peer, the range of the ring counter
    (\<open>tx_slots_shared\<close> shows what happens there).

  \<^bold>\<open>Interfaces.\<close> \<open>fifo_device\<close> (Fifo) is the contract of a device with a byte queue, interpreted by the UART
  receiver and by both FIFOs of the SPI controller; \<open>spi_slave\<close> (Spi) is what the controller needs of a
  slave, interpreted by the null device and the panel; \<open>byte_store\<close> (Address_Map) is byte-addressed
  storage, interpreted by stub windows and by RAM behind the bus; \<open>dma_memory\<close> (Pl080) is what the copy
  theorem needs of a bus, interpreted by the machine; \<open>block_cipher\<close> (Aes) is what CBC needs,
  interpreted by AES; \<open>wires\<close> (Wires) is a bank of wires a board drives, interpreted by the GPIO lines and
  the GPIO pins.

  \<^bold>\<open>Bounds and fuel.\<close> Recursions follow the data or a measure. Two bounds are the code's own: a DMA
  channel runs at most 1024 linked items per run, and a refresh divides its time into at most 4096 audio
  slices before it takes the rest at once. The one counter the code does not have is that of \<open>clz_loop\<close>,
  32 for the 32 bits of its operand.

  \<^bold>\<open>Hypotheses.\<close> Code that is outside the model is an argument, with what the program relies on as
  a named hypothesis that a witness satisfies. \<open>hooks_behave\<close>: the contract of \<open>arm.h\<close> for
  the callbacks of the bus, which return to the instruction set they select and latch no abort.
  \<open>vfp_behaves\<close>, \<open>vfp_confined\<close>: the VFP unit keeps the invariant, and the privileged state.
  \<open>serves_lines\<close>, \<open>session_starts\<close>: the guest arms the button lines and serves an interrupt
  by inverting the polarity and acknowledging it, as \<open>soc.h\<close> records. \<open>blob_ok\<close>: a device
  tree blob is a C object. \<open>rest_keeps_map\<close>: the unmodelled devices do not move RAM or the windows.
  \<open>soc_rest\<close> and \<open>soc_clock\<close> are the operations of those devices. \<open>junk\<close> is the
  uninitialised tail of the LZSS ring.

  \<^bold>\<open>Not modelled.\<close> The VFP unit (host floating point), the JIT and the static engine (host machine code),
  the bulk fast paths (an optimisation over host pointers), the graphics core and the display (pixels),
  audio, the wake from the PMU's power states, and everything that is host input and output: storage,
  bridges, the address translation and TCP bridge behind the PPP peer, snapshots, boot orchestration, the
  application and the tools.
\<close>

end
